(* ===== verification/Prelude.thy ===== *)
theory Prelude
  imports Main "HOL-Library.Word" "HOL-Library.AList" "HOL-Library.Sublist"
begin

text \<open>
  The shared vocabulary of the development: the kernel's error type and its
  \<open>DeltaResult\<close> (a sum with the error on the left), the bind that models Rust's
  \<^verbatim>\<open>?\<close> operator, the machine integers of the code as words, the comparison results of
  \<open>std::cmp::Ordering\<close>, and the generic lemmas on lists, options and words that the
  component theories use. The collections \<open>result_simps\<close> (elimination of bind and of
  error values) and \<open>list_simps\<close> (facts about windows, filters and sorted lists) are the
  simp sets the component proofs carry.
\<close>

named_theorems result_simps
named_theorems list_simps

section \<open>Machine integers\<close>

type_synonym u32 = "32 word"
type_synonym u64 = "64 word"

text \<open>\<open>pub type Version = u64\<close>; \<open>PRE_COMMIT_VERSION\<close> is \<open>u64::MAX\<close>.\<close>

type_synonym version = "64 word"

definition PRE_COMMIT_VERSION :: version where
  "PRE_COMMIT_VERSION = - 1"

text \<open>\<open>u64::saturating_sub\<close>.\<close>

definition saturating_sub :: "'a::len word \<Rightarrow> 'a word \<Rightarrow> 'a word" where
  "saturating_sub a b = (if a < b then 0 else a - b)"

lemma unat_saturating_sub: "unat (saturating_sub a b) = unat a - unat b"
proof (cases "a < b")
  case True
  then show ?thesis by (simp add: saturating_sub_def word_less_nat_alt)
next
  case False
  then have "b \<le> a" by simp
  then show ?thesis using False by (simp add: saturating_sub_def unat_sub)
qed

lemma unat_Suc_no_wrap: "(v::'a::len word) \<noteq> - 1 \<Longrightarrow> unat (v + 1) = Suc (unat v)"
  by (metis add.commute unat_eq_zero add.right_inverse add_uminus_conv_diff
      diff_zero eq_neg_iff_add_eq_0 unatSuc)

lemma word_less_succ: "(a::'a::len word) < b \<Longrightarrow> unat (a + 1) = Suc (unat a)"
  by (rule unat_Suc_no_wrap) auto

lemma word_not_max_succ_le: "(a::'a::len word) < b \<Longrightarrow> a + 1 \<le> b"
  using word_less_succ [of a b] by (simp add: word_le_nat_alt word_less_nat_alt)

section \<open>Errors and results\<close>

text \<open>
  \<open>Error\<close> of \<open>error.rs\<close>, variant by variant. The payload of a variant that wraps an error of
  another crate (I/O, arrow, parquet, object store, serde, ...) is a string; all of them arise
  only in code outside the model. A message built with \<open>format!\<close> is represented by its fixed
  text: the interpolated values are left out. \<open>with_backtrace\<close> wraps an error when the
  environment asks for backtraces; the model takes the other branch and returns it as it is.
\<close>

datatype (plugins only: code) delta_error =
    Arrow string
  | CheckpointWrite string
  | EngineDataType string
  | Extract string string
  | Generic string
  | GenericError string
  | IOError string
  | InternalError string
  | Parquet string
  | ObjectStore string
  | ObjectStorePath string
  | Reqwest string
  | FileNotFound string
  | MissingColumn string
  | UnexpectedColumnType string
  | MissingData string
  | MissingVersion
  | DeletionVectorError string
  | InvalidSelectionVector string
  | InvalidTransactionState string
  | InvalidUrl string
  | MalformedJson string
  | MissingMetadata
  | MissingProtocol
  | InvalidProtocol string
  | MissingMetadataAndProtocol
  | ParseError string
  | JoinFailure string
  | Utf8Error string
  | ParseIntError
  | InvalidColumnMappingMode string
  | InvalidTableLocation string
  | InvalidDecimal string
  | InvalidStructData string
  | InvalidExpressionEvaluation string
  | InvalidLogPath string
  | FileAlreadyExists string
  | Unsupported string
  | ChecksumWriteUnsupported string
  | ParseIntervalError string
  | ChangeDataFeedUnsupported version
  | ChangeDataFeedIncompatibleSchema string string
  | InvalidCheckpoint string
  | LiteralExpressionTransformError string
  | SchemaError string
  | StatsValidation string

type_synonym 'a delta_result = "delta_error + 'a"

text \<open>Rust's \<^verbatim>\<open>?\<close>: continue with the value, or return the error at once.\<close>

definition rbind :: "'e + 'a \<Rightarrow> ('a \<Rightarrow> 'e + 'b) \<Rightarrow> 'e + 'b" where
  "rbind m f = (case m of Inl e \<Rightarrow> Inl e | Inr x \<Rightarrow> f x)"

lemma rbind_simps [simp]:
  "rbind (Inl e) f = Inl e"
  "rbind (Inr x) f = f x"
  by (simp_all add: rbind_def)

lemma rbind_Inr_iff [result_simps]: "rbind m f = Inr y \<longleftrightarrow> (\<exists>x. m = Inr x \<and> f x = Inr y)"
  by (cases m) simp_all

lemma rbind_Inl_iff [result_simps]:
  "rbind m f = Inl e \<longleftrightarrow> m = Inl e \<or> (\<exists>x. m = Inr x \<and> f x = Inl e)"
  by (cases m) auto

lemma rbind_cong [fundef_cong]:
  "m = m' \<Longrightarrow> (\<And>x. m' = Inr x \<Longrightarrow> f x = g x) \<Longrightarrow> rbind m f = rbind m' g"
  by (cases m') simp_all

lemma rbind_Inr_right [simp]: "rbind m Inr = m"
  by (cases m) simp_all

text \<open>\<open>require!(cond, err)\<close> of \<open>utils.rs\<close>: return the error when the condition fails.\<close>

definition require :: "bool \<Rightarrow> 'e \<Rightarrow> 'e + unit" where
  "require b e = (if b then Inr () else Inl e)"

lemma require_Inr [result_simps]: "require b e = Inr u \<longleftrightarrow> b"
  by (cases u) (simp add: require_def)

lemma require_Inl [result_simps]: "require b e = Inl e' \<longleftrightarrow> \<not> b \<and> e' = e"
  by (auto simp: require_def)

lemma require_eval [simp]: "require True e = Inr ()" "require False e = Inl e"
  by (simp_all add: require_def)

text \<open>\<open>Option::ok_or\<close>.\<close>

definition ok_or :: "'a option \<Rightarrow> 'e \<Rightarrow> 'e + 'a" where
  "ok_or x e = (case x of None \<Rightarrow> Inl e | Some a \<Rightarrow> Inr a)"

lemma ok_or_simps [simp]: "ok_or None e = Inl e" "ok_or (Some a) e = Inr a"
  by (simp_all add: ok_or_def)

lemma ok_or_Inr [result_simps]: "ok_or x e = Inr a \<longleftrightarrow> x = Some a"
  by (cases x) simp_all

text \<open>
  Collecting a lazily produced sequence of results, as \<open>for r in it { let x = r?; ... }\<close>
  and \<open>try_collect\<close> do: the first error ends it.
\<close>

fun collect_results :: "('e + 'a) list \<Rightarrow> 'e + 'a list" where
  "collect_results [] = Inr []"
| "collect_results (Inl e # rs) = Inl e"
| "collect_results (Inr x # rs) = rbind (collect_results rs) (\<lambda>xs. Inr (x # xs))"

lemma collect_results_Inr [result_simps]: "collect_results rs = Inr xs \<longleftrightarrow> rs = map Inr xs"
proof (induction rs arbitrary: xs rule: collect_results.induct)
  case (3 x rs)
  then show ?case by (cases xs) (auto simp: result_simps)
qed auto

section \<open>Orderings\<close>

text \<open>\<open>std::cmp::Ordering\<close>, and \<open>Ord::cmp\<close> on a linear order.\<close>

datatype ordering = Less | Equal | Greater

definition cmp :: "'a::linorder \<Rightarrow> 'a \<Rightarrow> ordering" where
  "cmp a b = (if a < b then Less else if a = b then Equal else Greater)"

lemma cmp_iff [simp]:
  "cmp a b = Less \<longleftrightarrow> a < b" "cmp a b = Equal \<longleftrightarrow> a = b" "cmp a b = Greater \<longleftrightarrow> b < a"
  by (auto simp: cmp_def)

section \<open>Lists and options\<close>

text \<open>\<open>Iterator::max\<close> on options: \<open>None\<close> is below every \<open>Some\<close>.\<close>

definition option_max :: "'a::linorder option \<Rightarrow> 'a option \<Rightarrow> 'a option" where
  "option_max a b =
     (case a of None \<Rightarrow> b
      | Some x \<Rightarrow> (case b of None \<Rightarrow> a | Some y \<Rightarrow> Some (max x y)))"

lemma option_max_simps [simp]:
  "option_max None b = b" "option_max a None = a"
  "option_max (Some x) (Some y) = Some (max x y)"
  by (cases a; simp add: option_max_def)+

text \<open>\<open>slice::first\<close> and \<open>slice::last\<close>.\<close>

definition first_opt :: "'a list \<Rightarrow> 'a option" where
  "first_opt xs = (case xs of [] \<Rightarrow> None | x # _ \<Rightarrow> Some x)"

definition last_opt :: "'a list \<Rightarrow> 'a option" where
  "last_opt xs = (if xs = [] then None else Some (last xs))"

lemma first_opt_simps [simp]: "first_opt [] = None" "first_opt (x # xs) = Some x"
  by (simp_all add: first_opt_def)

lemma last_opt_simps [simp]:
  "last_opt [] = None" "last_opt (xs @ [x]) = Some x" "last_opt xs = None \<longleftrightarrow> xs = []"
  by (simp_all add: last_opt_def)

lemma last_opt_Cons [simp]: "last_opt (x # xs) = (if xs = [] then Some x else last_opt xs)"
  by (simp add: last_opt_def)

lemma first_opt_None [simp]: "first_opt xs = None \<longleftrightarrow> xs = []"
  by (cases xs) simp_all

lemma first_opt_SomeD: "first_opt xs = Some x \<Longrightarrow> x \<in> set xs \<and> xs \<noteq> [] \<and> x = hd xs"
  by (cases xs) auto

lemma last_opt_SomeD: "last_opt xs = Some x \<Longrightarrow> x \<in> set xs \<and> xs \<noteq> [] \<and> x = last xs"
  by (auto simp: last_opt_def split: if_splits)

lemma first_opt_in_set [dest]: "first_opt xs = Some x \<Longrightarrow> x \<in> set xs"
  by (cases xs) auto

lemma last_opt_in_set [dest]: "last_opt xs = Some x \<Longrightarrow> x \<in> set xs"
  by (auto simp: last_opt_def split: if_splits)

lemma sorted_wrt_filterI [list_simps]: "sorted_wrt R xs \<Longrightarrow> sorted_wrt R (filter P xs)"
  by (induction xs) auto

lemma filter_False_if: "(\<And>x. x \<in> set xs \<Longrightarrow> \<not> P x) \<Longrightarrow> filter P xs = []"
  by (induction xs) auto

end
