(* ===== verification/BinarySearch.thy ===== *)
theory BinarySearch
  imports Prelude
begin

text \<open>
  \<open>kernel/src/history_manager/search.rs\<close>: the binary search that the history manager uses
  to convert a timestamp to a version. The key function is fallible, so the search has
  three outcomes: an index, "out of range", or the key function's error.
\<close>

section \<open>Model\<close>

datatype bound = LeastUpper | GreatestLower

datatype 'e search_error = OutOfRange | KeyFunctionError 'e

text \<open>
  The loop \<open>while lo != hi\<close>. The two indices satisfy \<open>lo \<le> hi\<close> throughout (the code
  asserts \<open>lo <= mid && mid < hi\<close>), so the guard is written \<open>lo < hi\<close>.
\<close>

function search_loop ::
  "'a list \<Rightarrow> 'k::linorder \<Rightarrow> ('a \<Rightarrow> 'e + 'k) \<Rightarrow> bound \<Rightarrow> nat \<Rightarrow> nat \<Rightarrow> 'e search_error + nat \<times> nat" where
  "search_loop values key key_fn bound lo hi =
     (if lo < hi then
        let mid = lo + (hi - lo) div 2 in
        (case key_fn (values ! mid) of
           Inl e \<Rightarrow> Inl (KeyFunctionError e)
         | Inr mid_key \<Rightarrow>
             (case (cmp key mid_key, bound) of
                (Less, _) \<Rightarrow> search_loop values key key_fn bound lo mid
              | (Equal, LeastUpper) \<Rightarrow> search_loop values key key_fn bound lo mid
              | (Equal, GreatestLower) \<Rightarrow> search_loop values key key_fn bound (mid + 1) hi
              | (Greater, _) \<Rightarrow> search_loop values key key_fn bound (mid + 1) hi))
      else Inr (lo, hi))"
  by pat_completeness auto
termination
  by (relation "measure (\<lambda>(vs, k, f, b, lo, hi). hi - lo)") auto

declare search_loop.simps [simp del]

definition binary_search_by_key_with_bounds ::
  "'a list \<Rightarrow> 'k::linorder \<Rightarrow> ('a \<Rightarrow> 'e + 'k) \<Rightarrow> bound \<Rightarrow> 'e search_error + nat" where
  "binary_search_by_key_with_bounds values key key_fn bound =
     (case search_loop values key key_fn bound 0 (length values) of
        Inl e \<Rightarrow> Inl e
      | Inr (lo, hi) \<Rightarrow>
          (case bound of
             LeastUpper \<Rightarrow> if hi < length values then Inr hi else Inl OutOfRange
           | GreatestLower \<Rightarrow> if 0 < lo then Inr (lo - 1) else Inl OutOfRange))"

section \<open>Correctness\<close>

text \<open>Whether a key sends the search to the right half.\<close>

definition goes_right :: "bound \<Rightarrow> 'k::linorder \<Rightarrow> 'k \<Rightarrow> bool" where
  "goes_right b key x = (case b of LeastUpper \<Rightarrow> x < key | GreatestLower \<Rightarrow> x \<le> key)"

lemma goes_right_simps [simp]:
  "goes_right LeastUpper key x \<longleftrightarrow> x < key" "goes_right GreatestLower key x \<longleftrightarrow> x \<le> key"
  by (simp_all add: goes_right_def)

lemma goes_right_mono: "goes_right b key y \<Longrightarrow> x \<le> y \<Longrightarrow> goes_right b key x"
  by (cases b) auto

lemma search_loop_step:
  assumes "lo < hi" and "mid = lo + (hi - lo) div 2" and "key_fn (values ! mid) = Inr mk"
  shows "search_loop values key key_fn b lo hi =
    (if goes_right b key mk then search_loop values key key_fn b (mid + 1) hi
     else search_loop values key key_fn b lo mid)"
  using assms
  by (subst search_loop.simps) (cases b; auto simp: Let_def cmp_def)

text \<open>
  The loop meets in the middle: everything left of the meeting point goes right, everything
  from it on does not.
\<close>

lemma search_loop_partitions:
  assumes keys: "map key_fn values = map Inr ks" and sorted: "sorted ks"
  shows "lo \<le> hi \<Longrightarrow> hi \<le> length ks \<Longrightarrow>
    (\<forall>i < lo. goes_right b key (ks ! i)) \<Longrightarrow>
    (\<forall>i. hi \<le> i \<longrightarrow> i < length ks \<longrightarrow> \<not> goes_right b key (ks ! i)) \<Longrightarrow>
    \<exists>m \<le> length ks. search_loop values key key_fn b lo hi = Inr (m, m) \<and>
      (\<forall>i < m. goes_right b key (ks ! i)) \<and>
      (\<forall>i. m \<le> i \<longrightarrow> i < length ks \<longrightarrow> \<not> goes_right b key (ks ! i))"
proof (induction "hi - lo" arbitrary: lo hi rule: less_induct)
  case less
  show ?case
  proof (cases "lo < hi")
    case False
    with less.prems show ?thesis
      by (subst search_loop.simps) (auto simp: le_antisym)
  next
    case True
    define mid where "mid = lo + (hi - lo) div 2"
    have mid: "lo \<le> mid" "mid < hi" using True by (auto simp: mid_def)
    have len: "length values = length ks" using keys by (metis length_map)
    have mk: "key_fn (values ! mid) = Inr (ks ! mid)"
      using arg_cong [OF keys, of "\<lambda>l. l ! mid"] mid less.prems(2) len by simp
    note step = search_loop_step [of lo hi mid key_fn "values" "ks ! mid" key b, OF True mid_def mk]
    show ?thesis
    proof (cases "goes_right b key (ks ! mid)")
      case right: True
      have "\<forall>i < mid + 1. goes_right b key (ks ! i)"
        using right sorted mid less.prems(2) goes_right_mono
        by (metis add.commute less_Suc_eq_le order.strict_trans2 plus_1_eq_Suc sorted_nth_mono)
      then show ?thesis
        using less.hyps [of hi "mid + 1"] mid less.prems step right by simp
    next
      case left: False
      have "\<forall>i. mid \<le> i \<longrightarrow> i < length ks \<longrightarrow> \<not> goes_right b key (ks ! i)"
        using left sorted goes_right_mono by (metis sorted_nth_mono)
      then show ?thesis
        using less.hyps [of mid lo] mid less.prems step left by simp
    qed
  qed
qed

text \<open>A key-function error that the search reports is the error of some element.\<close>

lemma search_loop_key_error:
  "search_loop vs key key_fn b lo hi = Inl x \<Longrightarrow> hi \<le> length vs \<Longrightarrow>
   \<exists>e. x = KeyFunctionError e \<and> (\<exists>i < length vs. key_fn (vs ! i) = Inl e)"
proof (induction "hi - lo" arbitrary: lo hi rule: less_induct)
  case less
  define mid where "mid = lo + (hi - lo) div 2"
  show ?case
  proof (cases "lo < hi")
    case False
    with less.prems show ?thesis by (subst (asm) search_loop.simps) simp
  next
    case True
    then have mid: "lo \<le> mid" "mid < hi" by (auto simp: mid_def)
    show ?thesis
    proof (cases "key_fn (vs ! mid)")
      case (Inl e)
      with less.prems True mid show ?thesis
        by (subst (asm) search_loop.simps)
           (auto simp: mid_def [symmetric] Let_def intro!: exI [of _ mid])
    next
      case (Inr mk)
      note step = search_loop_step [of lo hi mid key_fn vs mk key b, OF True mid_def Inr]
      show ?thesis
        using less.hyps [of hi "mid + 1"] less.hyps [of mid lo] less.prems mid step
        by (cases "goes_right b key mk") auto
    qed
  qed
qed

text \<open>
  C35. On a slice whose keys are readable and sorted, the search returns the least upper
  bound (the first index whose key is at least the searched key) or the greatest lower bound
  (the last index whose key is at most it), and it answers \<open>OutOfRange\<close> exactly when no
  element qualifies; it never fails otherwise.
\<close>

theorem binary_search_bounds:
  assumes "map key_fn values = map Inr ks" and "sorted ks"
  shows "(case binary_search_by_key_with_bounds values key key_fn LeastUpper of
            Inr i \<Rightarrow> i < length ks \<and> key \<le> ks ! i \<and> (\<forall>j < i. ks ! j < key)
          | Inl e \<Rightarrow> e = OutOfRange \<and> (\<forall>k \<in> set ks. k < key))
       \<and> (case binary_search_by_key_with_bounds values key key_fn GreatestLower of
            Inr i \<Rightarrow> i < length ks \<and> ks ! i \<le> key \<and> (\<forall>j. i < j \<longrightarrow> j < length ks \<longrightarrow> key < ks ! j)
          | Inl e \<Rightarrow> e = OutOfRange \<and> (\<forall>k \<in> set ks. key < k))"
proof -
  have len: "length values = length ks" using assms(1) by (metis length_map)
  have loop: "\<exists>m \<le> length ks. search_loop values key key_fn b 0 (length values) = Inr (m, m) \<and>
      (\<forall>i < m. goes_right b key (ks ! i)) \<and>
      (\<forall>i. m \<le> i \<longrightarrow> i < length ks \<longrightarrow> \<not> goes_right b key (ks ! i))" for b
    using search_loop_partitions [OF assms, of 0 "length ks" b key] len by simp
  obtain m where m: "m \<le> length ks"
      "search_loop values key key_fn LeastUpper 0 (length values) = Inr (m, m)"
      "\<forall>i < m. ks ! i < key" "\<forall>i. m \<le> i \<longrightarrow> i < length ks \<longrightarrow> key \<le> ks ! i"
    using loop [of LeastUpper] by (auto simp: not_less)
  obtain n where n: "n \<le> length ks"
      "search_loop values key key_fn GreatestLower 0 (length values) = Inr (n, n)"
      "\<forall>i < n. ks ! i \<le> key" "\<forall>i. n \<le> i \<longrightarrow> i < length ks \<longrightarrow> key < ks ! i"
    using loop [of GreatestLower] by (auto simp: not_le)
  have *: "n - Suc 0 < length ks" if "0 < n" using n(1) that by simp
  have "case binary_search_by_key_with_bounds values key key_fn LeastUpper of
            Inr i \<Rightarrow> i < length ks \<and> key \<le> ks ! i \<and> (\<forall>j < i. ks ! j < key)
          | Inl e \<Rightarrow> e = OutOfRange \<and> (\<forall>k \<in> set ks. k < key)"
    unfolding binary_search_by_key_with_bounds_def m(2) all_set_conv_all_nth
    using m(1,3,4) len by simp
  moreover have "case binary_search_by_key_with_bounds values key key_fn GreatestLower of
            Inr i \<Rightarrow> i < length ks \<and> ks ! i \<le> key \<and> (\<forall>j. i < j \<longrightarrow> j < length ks \<longrightarrow> key < ks ! j)
          | Inl e \<Rightarrow> e = OutOfRange \<and> (\<forall>k \<in> set ks. key < k)"
    unfolding binary_search_by_key_with_bounds_def n(2) all_set_conv_all_nth
    using n(1,3,4) * by simp
  ultimately show ?thesis ..
qed

theorem binary_search_bounds_witness:
  "map (Inr :: int \<Rightarrow> unit + int) [10, 20, 30] = map Inr [10, 20, 30 :: int] \<and> sorted [10, 20, 30 :: int] \<and>
   (case binary_search_by_key_with_bounds [10, 20, 30 :: int] 25 (Inr :: int \<Rightarrow> unit + int) LeastUpper of
      Inr i \<Rightarrow> i < 3 \<and> 25 \<le> [10, 20, 30 :: int] ! i | Inl e \<Rightarrow> False)"
proof -
  have s: "sorted [10, 20, 30 :: int]" by simp
  have "binary_search_by_key_with_bounds [10, 20, 30 :: int] 25 (Inr :: int \<Rightarrow> unit + int) LeastUpper = Inr 2"
    by code_simp
  then show ?thesis
    using binary_search_bounds [of "Inr :: int \<Rightarrow> unit + int" "[10, 20, 30]" "[10, 20, 30]" 25] s
    by simp
qed

text \<open>
  When the search fails with the key function's error, that error is the one the key
  function returned for an element of the slice.
\<close>

theorem binary_search_key_error:
  assumes "binary_search_by_key_with_bounds values key key_fn b = Inl (KeyFunctionError e)"
  shows "\<exists>i < length values. key_fn (values ! i) = Inl e"
proof (cases "search_loop values key key_fn b 0 (length values)")
  case (Inl x)
  with assms search_loop_key_error [OF Inl] show ?thesis
    by (auto simp: binary_search_by_key_with_bounds_def)
next
  case (Inr p)
  with assms show ?thesis
    by (cases p) (auto simp: binary_search_by_key_with_bounds_def split: bound.splits if_splits)
qed

theorem binary_search_key_error_witness:
  "binary_search_by_key_with_bounds [()] (5::int) (\<lambda>_. Inl ''bad'') LeastUpper = Inl (KeyFunctionError ''bad'') \<and>
   (\<exists>i < length [()]. (\<lambda>_. Inl ''bad'' :: string + int) ([()] ! i) = Inl ''bad'')"
proof -
  have h: "binary_search_by_key_with_bounds [()] (5::int) (\<lambda>_. Inl ''bad'') LeastUpper = Inl (KeyFunctionError ''bad'')"
    by (simp add: binary_search_by_key_with_bounds_def search_loop.simps)
  show ?thesis using h binary_search_key_error [OF h] by simp
qed

end
