(* ===== verification/LogPath.thy ===== *)
theory LogPath
  imports Prelude
begin

text \<open>
  \<open>kernel/src/path.rs\<close>: the names of the files of a table's \<open>_delta_log\<close> directory. A location
  is parsed into a version, an extension and a file type (\<open>try_from\<close>); the constructors build
  the location of a new file and parse it back. URLs belong to the \<open>url\<close> crate: the operations
  of it that the code calls are the fields of a record that every definition takes as an
  argument.
\<close>

section \<open>Strings: splitting, printing and parsing numbers\<close>

text \<open>\<open>str::split\<close> on a character: always at least one item.\<close>

fun split_on :: "char \<Rightarrow> string \<Rightarrow> string list" where
  "split_on c [] = [[]]"
| "split_on c (x # xs) =
     (if x = c then [] # split_on c xs
      else (case split_on c xs of [] \<Rightarrow> [[x]] | y # ys \<Rightarrow> (x # y) # ys))"

definition digit_char :: "nat \<Rightarrow> char" where
  "digit_char d = char_of (48 + d)"

definition is_digit :: "char \<Rightarrow> bool" where
  "is_digit c = (48 \<le> (of_char c :: nat) \<and> (of_char c :: nat) \<le> 57)"

definition digit_value :: "char \<Rightarrow> nat" where
  "digit_value c = of_char c - 48"

text \<open>Decimal printing of an unsigned integer, and \<open>{:0w}\<close>, which pads it with zeros.\<close>

fun show_nat :: "nat \<Rightarrow> string" where
  "show_nat n = (if n < 10 then [digit_char n] else show_nat (n div 10) @ [digit_char (n mod 10)])"

declare show_nat.simps [simp del]

definition pad_zeros :: "nat \<Rightarrow> string \<Rightarrow> string" where
  "pad_zeros w s = replicate (w - length s) (CHR ''0'') @ s"

definition format_u64 :: "nat \<Rightarrow> u64 \<Rightarrow> string" where
  "format_u64 w n = pad_zeros w (show_nat (unat n))"

definition nat_of_digits :: "string \<Rightarrow> nat" where
  "nat_of_digits s = foldl (\<lambda>acc c. acc * 10 + digit_value c) 0 s"

text \<open>
  \<open>str::parse\<close> for an unsigned integer type: an optional leading \<open>+\<close>, then at least one digit;
  a value that does not fit the type is an error.
\<close>

definition parse_uint :: "string \<Rightarrow> 'a::len word option" where
  "parse_uint s =
     (let ds = (case s of c # d # r \<Rightarrow> if c = CHR ''+'' then d # r else s | _ \<Rightarrow> s) in
      if ds = [] \<or> \<not> list_all is_digit ds then None
      else if nat_of_digits ds < 2 ^ LENGTH('a) then Some (of_nat (nat_of_digits ds)) else None)"

section \<open>File types and parsed paths\<close>

datatype log_path_file_type =
    Commit
  | StagedCommit
  | SinglePartCheckpoint
  | UuidCheckpoint
  | MultiPartCheckpoint (part_num: u32) (num_parts: u32)
  | CompactedCommit (hi: version)
  | Crc
  | UnknownType

record 'loc parsed_log_path =
  location :: 'loc
  filename :: string
  extension :: string
  version :: version
  file_type :: log_path_file_type

definition VERSION_LEN :: nat where "VERSION_LEN = 20"
definition MULTIPART_PART_LEN :: nat where "MULTIPART_PART_LEN = 10"
definition UUID_PART_LEN :: nat where "UUID_PART_LEN = 36"
definition DELTA_LOG_DIR :: string where "DELTA_LOG_DIR = ''_delta_log''"
definition DELTA_LOG_DIR_WITH_SLASH :: string where "DELTA_LOG_DIR_WITH_SLASH = ''_delta_log/''"
definition STAGED_COMMITS_DIR :: string where "STAGED_COMMITS_DIR = ''_staged_commits/''"

text \<open>The operations of \<open>url::Url\<close> that \<open>path.rs\<close> calls.\<close>

record 'url url_ops =
  path_segments :: "'url \<Rightarrow> string list option"
  url_path :: "'url \<Rightarrow> string"
  set_path :: "'url \<Rightarrow> string \<Rightarrow> 'url"
  url_join :: "'url \<Rightarrow> string \<Rightarrow> delta_error + 'url"

text \<open>
  \<open>parse_path_part\<close> at the two instances the code uses: a number and a \<open>String\<close> (whose
  \<open>FromStr\<close> never fails).
\<close>

definition parse_path_part :: "string \<Rightarrow> nat \<Rightarrow> 'a::len word option" where
  "parse_path_part s expect_len =
     (case parse_uint s of
        Some r \<Rightarrow> if length s = expect_len then Some r else None
      | None \<Rightarrow> None)"

definition parse_path_part_string :: "string \<Rightarrow> nat \<Rightarrow> string option" where
  "parse_path_part_string s expect_len = (if length s = expect_len then Some s else None)"

definition path_contains_delta_log_dir :: "string list \<Rightarrow> bool" where
  "path_contains_delta_log_dir segments = list_ex (\<lambda>p. p = DELTA_LOG_DIR) segments"

text \<open>
  Where the file is: \<open>rest\<close> are the path segments before the file name, and the
  iterator's \<open>next_back\<close> takes them from the end. The result says whether the file is directly
  in the log directory and whether it is in the staged-commits directory.
\<close>

definition log_dir_position :: "string list \<Rightarrow> bool \<times> bool" where
  "log_dir_position rest =
     (let subdir = last_opt rest; above = butlast rest in
      if subdir = Some ''_staged_commits'' then
        (if last_opt above = Some DELTA_LOG_DIR \<and> \<not> path_contains_delta_log_dir (butlast above)
         then (False, True) else (False, False))
      else (subdir = Some DELTA_LOG_DIR \<and> \<not> path_contains_delta_log_dir above, False))"

text \<open>
  The match on the parts after the version, in the order of its arms. \<open>None\<close> is the early
  return \<open>Ok(None)\<close>.
\<close>

definition classify_parts :: "bool \<Rightarrow> bool \<Rightarrow> string list \<Rightarrow> log_path_file_type option" where
  "classify_parts in_delta_log_dir in_staged_commits_dir parts =
     (if parts = [''json''] \<and> in_delta_log_dir then Some Commit
      else if length parts = 2 \<and> parts ! 1 = ''json'' \<and> in_staged_commits_dir then
        (case parse_path_part_string (parts ! 0) UUID_PART_LEN of
           Some _ \<Rightarrow> Some StagedCommit | None \<Rightarrow> Some UnknownType)
      else if parts = [''crc''] \<and> in_delta_log_dir then Some Crc
      else if parts = [''checkpoint'', ''parquet''] \<and> in_delta_log_dir then Some SinglePartCheckpoint
      else if length parts = 3 \<and> parts ! 0 = ''checkpoint'' \<and>
              (parts ! 2 = ''json'' \<or> parts ! 2 = ''parquet'') \<and> in_delta_log_dir then
        (case parse_path_part_string (parts ! 1) UUID_PART_LEN of
           Some _ \<Rightarrow> Some UuidCheckpoint | None \<Rightarrow> None)
      else if length parts = 3 \<and> parts ! 1 = ''compacted'' \<and> parts ! 2 = ''json'' \<and> in_delta_log_dir then
        (case parse_path_part (parts ! 0) VERSION_LEN of
           Some h \<Rightarrow> Some (CompactedCommit h) | None \<Rightarrow> None)
      else if length parts = 4 \<and> parts ! 0 = ''checkpoint'' \<and> parts ! 3 = ''parquet'' \<and>
              in_delta_log_dir then
        (case parse_path_part (parts ! 1) MULTIPART_PART_LEN of
           None \<Rightarrow> None
         | Some p \<Rightarrow>
             (case parse_path_part (parts ! 2) MULTIPART_PART_LEN of
                None \<Rightarrow> None
              | Some n \<Rightarrow> if 0 < p \<and> p \<le> n then Some (MultiPartCheckpoint p n) else None))
      else Some UnknownType)"

text \<open>
  \<open>ParsedLogPath::try_from\<close>. The iterator of path segments "always contains at least one
  string", so the \<open>unwrap\<close> of an empty iterator is the branch that cannot be taken; the model
  returns \<open>None\<close> there.
\<close>

definition try_from ::
  "'url url_ops \<Rightarrow> ('loc \<Rightarrow> 'url) \<Rightarrow> 'loc \<Rightarrow> 'loc parsed_log_path option delta_result" where
  "try_from U as_url loc =
     (case path_segments U (as_url loc) of
        None \<Rightarrow> Inr None
      | Some segs \<Rightarrow>
          (case last_opt segs of
             None \<Rightarrow> Inr None
           | Some fname \<Rightarrow>
               if fname = '''' then Inr None
               else
                 (let parts = split_on (CHR ''.'') fname; vpart = hd parts; rest = tl parts in
                  case parse_uint vpart of
                    None \<Rightarrow> Inr None
                  | Some v \<Rightarrow>
                      if length vpart \<noteq> VERSION_LEN then Inr None
                      else
                        (case last_opt rest of
                           None \<Rightarrow> Inr None
                         | Some ext \<Rightarrow>
                             (case classify_parts (fst (log_dir_position (butlast segs)))
                                     (snd (log_dir_position (butlast segs))) rest of
                                None \<Rightarrow> Inr None
                              | Some t \<Rightarrow>
                                  Inr (Some \<lparr> location = loc, filename = fname, extension = ext,
                                             version = v, file_type = t \<rparr>))))))"

definition is_commit :: "'loc parsed_log_path \<Rightarrow> bool" where
  "is_commit p = (case file_type p of Commit \<Rightarrow> True | StagedCommit \<Rightarrow> True | _ \<Rightarrow> False)"

definition is_checkpoint :: "'loc parsed_log_path \<Rightarrow> bool" where
  "is_checkpoint p =
     (case file_type p of
        SinglePartCheckpoint \<Rightarrow> True | MultiPartCheckpoint _ _ \<Rightarrow> True | UuidCheckpoint \<Rightarrow> True
      | _ \<Rightarrow> False)"

definition is_unknown :: "'loc parsed_log_path \<Rightarrow> bool" where
  "is_unknown p = (case file_type p of UnknownType \<Rightarrow> True | _ \<Rightarrow> False)"

definition should_list :: "'loc parsed_log_path \<Rightarrow> bool" where
  "should_list p = (case file_type p of StagedCommit \<Rightarrow> False | _ \<Rightarrow> True)"

definition parse_commit ::
  "'url url_ops \<Rightarrow> ('loc \<Rightarrow> 'url) \<Rightarrow> 'loc \<Rightarrow> 'loc parsed_log_path delta_result" where
  "parse_commit U as_url loc =
     rbind (try_from U as_url loc) (\<lambda>po.
     rbind (ok_or po (InvalidLogPath ''url'')) (\<lambda>p.
     rbind (require (is_commit p) (Generic ''Expected a commit path'')) (\<lambda>_.
     Inr p)))"

section \<open>Constructors\<close>

definition create_path :: "'url url_ops \<Rightarrow> 'url \<Rightarrow> string \<Rightarrow> 'url parsed_log_path delta_result" where
  "create_path U table_root fname =
     rbind (url_join U table_root DELTA_LOG_DIR_WITH_SLASH) (\<lambda>d.
     rbind (url_join U d fname) (\<lambda>loc.
     rbind (try_from U id loc) (\<lambda>po.
     ok_or po (InternalError ''Attempted to create an invalid path''))))"

definition new_commit :: "'url url_ops \<Rightarrow> 'url \<Rightarrow> version \<Rightarrow> 'url parsed_log_path delta_result" where
  "new_commit U table_root v =
     rbind (create_path U table_root (format_u64 20 v @ ''.json'')) (\<lambda>p.
     if \<not> is_commit p
     then Inl (InternalError ''ParsedLogPath::new_commit created a non-commit path'') else Inr p)"

definition new_classic_parquet_checkpoint ::
  "'url url_ops \<Rightarrow> 'url \<Rightarrow> version \<Rightarrow> 'url parsed_log_path delta_result" where
  "new_classic_parquet_checkpoint U table_root v =
     rbind (create_path U table_root (format_u64 20 v @ ''.checkpoint.parquet'')) (\<lambda>p.
     if \<not> is_checkpoint p
     then Inl (InternalError ''ParsedLogPath::new_classic_parquet_checkpoint created a non-checkpoint path'')
     else Inr p)"

text \<open>\<open>uuid\<close> is the text of the fresh UUID.\<close>

definition new_uuid_parquet_checkpoint ::
  "'url url_ops \<Rightarrow> 'url \<Rightarrow> version \<Rightarrow> string \<Rightarrow> 'url parsed_log_path delta_result" where
  "new_uuid_parquet_checkpoint U table_root v uuid =
     rbind (create_path U table_root (format_u64 20 v @ ''.checkpoint.'' @ uuid @ ''.parquet'')) (\<lambda>p.
     if \<not> is_checkpoint p
     then Inl (InternalError ''ParsedLogPath::new_uuid_parquet_checkpoint created a non-checkpoint path'')
     else Inr p)"

definition new_crc :: "'url url_ops \<Rightarrow> 'url \<Rightarrow> version \<Rightarrow> 'url parsed_log_path delta_result" where
  "new_crc U table_root v =
     rbind (create_path U table_root (format_u64 20 v @ ''.crc'')) (\<lambda>p.
     if file_type p \<noteq> Crc
     then Inl (InternalError ''ParsedLogPath::new_crc created a non-CRC path'') else Inr p)"

definition new_log_compaction ::
  "'url url_ops \<Rightarrow> 'url \<Rightarrow> version \<Rightarrow> version \<Rightarrow> 'url parsed_log_path delta_result" where
  "new_log_compaction U table_root start_version end_version =
     rbind (create_path U table_root
              (format_u64 20 start_version @ ''.'' @ format_u64 20 end_version @ ''.compacted.json'')) (\<lambda>p.
     case file_type p of
       CompactedCommit _ \<Rightarrow> Inr p
     | _ \<Rightarrow> Inl (InternalError ''ParsedLogPath::new_log_compaction created a non-compaction path''))"

section \<open>Log roots\<close>

record 'url log_root =
  table_root_of :: 'url
  log_root_of :: 'url

definition ends_with_slash :: "string \<Rightarrow> bool" where
  "ends_with_slash s = (last_opt s = Some (CHR ''/''))"

definition log_root_new :: "'url url_ops \<Rightarrow> 'url \<Rightarrow> 'url log_root delta_result" where
  "log_root_new U table_root =
     (let table_root' = (if \<not> ends_with_slash (url_path U table_root)
                         then set_path U table_root (url_path U table_root @ ''/'') else table_root) in
      rbind (url_join U table_root' DELTA_LOG_DIR_WITH_SLASH) (\<lambda>l.
      Inr \<lparr> table_root_of = table_root', log_root_of = l \<rparr>))"

definition new_commit_path :: "'url url_ops \<Rightarrow> 'url log_root \<Rightarrow> version \<Rightarrow> 'url parsed_log_path delta_result" where
  "new_commit_path U r v =
     rbind (url_join U (log_root_of r) (format_u64 20 v @ ''.json'')) (\<lambda>loc.
     rbind (try_from U id loc) (\<lambda>po.
     ok_or po (InternalError ''Attempted to create an invalid path'')))"

definition new_staged_commit_path ::
  "'url url_ops \<Rightarrow> 'url log_root \<Rightarrow> version \<Rightarrow> string \<Rightarrow> 'url parsed_log_path delta_result" where
  "new_staged_commit_path U r v uuid =
     rbind (url_join U (log_root_of r) STAGED_COMMITS_DIR) (\<lambda>d.
     rbind (url_join U d (format_u64 20 v @ ''.'' @ uuid @ ''.json'')) (\<lambda>loc.
     rbind (try_from U id loc) (\<lambda>po.
     ok_or po (InternalError ''Attempted to create an invalid path''))))"


section \<open>Numbers and strings: lemmas\<close>

lemma split_on_no_sep: "c \<notin> set s \<Longrightarrow> split_on c s = [s]"
  by (induction s) auto

lemma split_on_append [simp]:
  "c \<notin> set s \<Longrightarrow> split_on c (s @ c # t) = s # split_on c t"
  by (induction s) auto

lemma split_on_not_Nil [simp]: "split_on c s \<noteq> []"
  by (induction s) (auto split: list.splits)

lemma split_on_no_sep_in_parts: "p \<in> set (split_on c s) \<Longrightarrow> c \<notin> set p"
  by (induction s arbitrary: p) (auto split: list.splits if_splits)

fun join_with :: "char \<Rightarrow> string list \<Rightarrow> string" where
  "join_with c [] = []"
| "join_with c [x] = x"
| "join_with c (x # y # zs) = x @ c # join_with c (y # zs)"

lemma join_split: "join_with c (split_on c s) = s"
proof (induction s)
  case (Cons x xs)
  obtain y ys where "split_on c xs = y # ys" by (cases "split_on c xs") auto
  with Cons show ?case by (cases ys) auto
qed simp

lemma of_char_digit_char [simp]: "d < 10 \<Longrightarrow> (of_char (digit_char d) :: nat) = 48 + d"
  by (simp add: digit_char_def)

lemma digit_char_props [simp]:
  assumes "d < 10"
  shows "is_digit (digit_char d)" "digit_value (digit_char d) = d"
  using assms by (simp_all add: is_digit_def digit_value_def)

lemma is_digit_not_special [simp]:
  "\<not> is_digit (CHR ''.'')" "\<not> is_digit (CHR ''+'')" "\<not> is_digit (CHR ''/'')" "is_digit (CHR ''0'')"
  "digit_value (CHR ''0'') = 0"
  by (simp_all add: is_digit_def digit_value_def)

lemma nat_of_digits_append:
  "nat_of_digits (s @ [c]) = nat_of_digits s * 10 + digit_value c"
  by (simp add: nat_of_digits_def)

lemma nat_of_digits_zeros [simp]: "nat_of_digits (replicate k (CHR ''0'') @ s) = nat_of_digits s"
  by (induction k) (simp_all add: nat_of_digits_def)

lemma show_nat_props:
  "nat_of_digits (show_nat n) = n \<and> list_all is_digit (show_nat n) \<and> show_nat n \<noteq> []"
proof (induction n rule: show_nat.induct)
  case (1 n)
  show ?case
  proof (cases "n < 10")
    case True
    then show ?thesis
      by (subst (1 2 3) show_nat.simps) (simp add: nat_of_digits_def)
  next
    case False
    with 1 show ?thesis
      by (subst (1 2 3) show_nat.simps) (simp add: nat_of_digits_append)
  qed
qed

lemma length_show_nat: "n < 10 ^ Suc k \<Longrightarrow> length (show_nat n) \<le> Suc k"
proof (induction k arbitrary: n)
  case 0
  then show ?case by (subst show_nat.simps) simp
next
  case (Suc k)
  show ?case
  proof (cases "n < 10")
    case True
    then show ?thesis by (subst show_nat.simps) simp
  next
    case False
    have "n div 10 < 10 ^ Suc k" using Suc.prems by (simp add: less_mult_imp_div_less)
    from Suc.IH [OF this] False show ?thesis by (subst show_nat.simps) simp
  qed
qed

lemma format_u64_length [simp]: "length (format_u64 20 v) = 20"
proof -
  have "unat v < 2 ^ 64" using unsigned_less [of v] by simp
  also have "\<dots> < 10 ^ Suc 19" by simp
  finally show ?thesis
    using length_show_nat [of "unat v" 19] by (simp add: format_u64_def pad_zeros_def)
qed

lemma format_u64_digits: "list_all is_digit (format_u64 w v)"
  using show_nat_props [of "unat v"] by (auto simp: format_u64_def pad_zeros_def list_all_iff)

lemma format_u64_value [simp]: "nat_of_digits (format_u64 w v) = unat v"
  using show_nat_props [of "unat v"] by (simp add: format_u64_def pad_zeros_def)

lemma parse_uint_digits:
  assumes "list_all is_digit s" "s \<noteq> []" "nat_of_digits s < 2 ^ LENGTH('a)"
  shows "(parse_uint s :: 'a::len word option) = Some (of_nat (nat_of_digits s))"
proof -
  have "hd s \<noteq> CHR ''+''" using assms(1,2) by (cases s) auto
  then have "(case s of c # d # r \<Rightarrow> if c = CHR ''+'' then d # r else s | _ \<Rightarrow> s) = s"
    by (auto split: list.splits)
  with assms show ?thesis by (simp add: parse_uint_def)
qed

lemma parse_format_u64 [simp]: "parse_uint (format_u64 20 v) = Some (v :: u64)"
proof -
  have "format_u64 20 v \<noteq> []" using format_u64_length [of v] by (metis list.size(3) zero_neq_numeral)
  then show ?thesis
    using parse_uint_digits [of "format_u64 20 v", where 'a = 64] format_u64_digits [of 20 v] unsigned_less [of v, where ?'a = nat]
    by simp
qed

lemma format_u64_no_sep [simp]:
  "CHR ''.'' \<notin> set (format_u64 w v)" "CHR ''/'' \<notin> set (format_u64 w v)"
  using format_u64_digits [of w v] by (auto simp: list_all_iff)

section \<open>What a parsed path says about its location\<close>

lemma classify_parts_total_outside:
  "classify_parts False False parts = Some UnknownType"
  by (simp add: classify_parts_def)

lemma classify_parts_staged:
  "classify_parts False True parts = Some t \<Longrightarrow> t = StagedCommit \<or> t = UnknownType"
  by (auto simp: classify_parts_def split: if_splits option.splits)

lemma classify_parts_not_staged:
  "classify_parts b False parts = Some t \<Longrightarrow> t \<noteq> StagedCommit"
  by (auto simp: classify_parts_def split: if_splits option.splits)

lemma classify_parts_multi:
  "classify_parts b c parts = Some (MultiPartCheckpoint p n) \<Longrightarrow> 0 < p \<and> p \<le> n"
  by (auto simp: classify_parts_def split: if_splits option.splits)

lemma classify_parts_Commit:
  "classify_parts b c parts = Some Commit \<longleftrightarrow> parts = [''json''] \<and> b"
  by (auto simp: classify_parts_def split: if_splits option.splits)

lemma log_dir_position_log:
  "log_dir_position rest = (True, c) \<longleftrightarrow>
   \<not> c \<and> (\<exists>ps. rest = ps @ [DELTA_LOG_DIR] \<and> DELTA_LOG_DIR \<notin> set ps)"
  by (cases rest rule: rev_cases)
     (auto simp: log_dir_position_def Let_def path_contains_delta_log_dir_def list_ex_iff
        DELTA_LOG_DIR_def)

lemma log_dir_position_staged:
  "log_dir_position rest = (b, True) \<longleftrightarrow>
   \<not> b \<and> (\<exists>ps. rest = ps @ [DELTA_LOG_DIR, ''_staged_commits''] \<and> DELTA_LOG_DIR \<notin> set ps)"
proof (cases rest rule: rev_cases)
  case (snoc ys y)
  then show ?thesis
    by (cases ys rule: rev_cases)
       (auto simp: log_dir_position_def Let_def path_contains_delta_log_dir_def list_ex_iff
          last_opt_def butlast_append)
qed (simp add: log_dir_position_def)

lemma log_dir_position_projs:
  "fst (log_dir_position ps) \<Longrightarrow> \<exists>qs. ps = qs @ [DELTA_LOG_DIR] \<and> DELTA_LOG_DIR \<notin> set qs"
  "snd (log_dir_position ps) \<Longrightarrow> \<not> fst (log_dir_position ps) \<and>
     (\<exists>qs. ps = qs @ [DELTA_LOG_DIR, ''_staged_commits''] \<and> DELTA_LOG_DIR \<notin> set qs)"
  using log_dir_position_log [of ps "snd (log_dir_position ps)"]
    log_dir_position_staged [of ps "fst (log_dir_position ps)"]
  by (cases "log_dir_position ps"; auto)+

lemma try_from_Some_iff:
  "try_from U as_url loc = Inr (Some p) \<longleftrightarrow>
   (\<exists>ps vpart rest t.
      path_segments U (as_url loc) = Some (ps @ [filename p]) \<and>
      split_on (CHR ''.'') (filename p) = vpart # rest \<and> rest \<noteq> [] \<and>
      length vpart = VERSION_LEN \<and> parse_uint vpart = Some (version p) \<and>
      classify_parts (fst (log_dir_position ps)) (snd (log_dir_position ps)) rest = Some t \<and>
      p = \<lparr> location = loc, filename = filename p, extension = last rest,
            version = version p, file_type = t \<rparr>)" (is "?L \<longleftrightarrow> ?R")
proof
  assume ?L
  then obtain segs fname v ext t where *:
      "path_segments U (as_url loc) = Some segs" "last_opt segs = Some fname"
      "parse_uint (hd (split_on (CHR ''.'') fname)) = Some v"
      "length (hd (split_on (CHR ''.'') fname)) = VERSION_LEN"
      "last_opt (tl (split_on (CHR ''.'') fname)) = Some ext"
      "classify_parts (fst (log_dir_position (butlast segs))) (snd (log_dir_position (butlast segs)))
         (tl (split_on (CHR ''.'') fname)) = Some t"
      "p = \<lparr> location = loc, filename = fname, extension = ext, version = v, file_type = t \<rparr>"
    by (auto simp: try_from_def Let_def split: option.splits if_splits)
  have "segs = butlast segs @ [fname]"
    using last_opt_SomeD [OF *(2)] by (metis append_butlast_last_id)
  moreover have "split_on (CHR ''.'') fname =
      hd (split_on (CHR ''.'') fname) # tl (split_on (CHR ''.'') fname)" by simp
  ultimately show ?R
    using * last_opt_SomeD [OF *(5)]
    by (intro exI [of _ "butlast segs"] exI [of _ "hd (split_on (CHR ''.'') fname)"]
        exI [of _ "tl (split_on (CHR ''.'') fname)"] exI [of _ t]) simp
next
  assume ?R
  then obtain ps vpart rest t where *:
      "path_segments U (as_url loc) = Some (ps @ [filename p])"
      "split_on (CHR ''.'') (filename p) = vpart # rest" "rest \<noteq> []"
      "length vpart = VERSION_LEN" "parse_uint vpart = Some (version p)"
      "classify_parts (fst (log_dir_position ps)) (snd (log_dir_position ps)) rest = Some t"
      "p = \<lparr> location = loc, filename = filename p, extension = last rest,
            version = version p, file_type = t \<rparr>"
    by blast
  have "filename p \<noteq> ''''" using *(2,4) by (auto simp: VERSION_LEN_def)
  with * show ?L by (simp add: try_from_def Let_def last_opt_def)
qed

lemma try_from_SomeE:
  assumes "try_from U as_url loc = Inr (Some p)"
  obtains ps vpart rest where
    "path_segments U (as_url loc) = Some (ps @ [filename p])"
    "split_on (CHR ''.'') (filename p) = vpart # rest" "rest \<noteq> []"
    "length vpart = VERSION_LEN" "parse_uint vpart = Some (version p)"
    "classify_parts (fst (log_dir_position ps)) (snd (log_dir_position ps)) rest = Some (file_type p)"
    "location p = loc" "extension p = last rest"
  using assms unfolding try_from_Some_iff
  by (elim exE conjE) (metis parsed_log_path.select_convs(1,3,5))

lemma try_from_total: "\<exists>po. try_from U as_url loc = Inr po"
  by (auto simp: try_from_def Let_def split: option.splits)

text \<open>
  A location is parsed as a published commit exactly when its last path segment is a
  20-character version followed by \<open>.json\<close>, its directory is \<open>_delta_log\<close>, and no directory
  above is named \<open>_delta_log\<close>; the parsed path then carries that version.
\<close>

theorem try_from_commit_iff:
  "(\<exists>p. try_from U as_url loc = Inr (Some p) \<and> file_type p = Commit \<and> version p = v) \<longleftrightarrow>
   (\<exists>ps vpart. path_segments U (as_url loc) = Some (ps @ [DELTA_LOG_DIR, vpart @ ''.json'']) \<and>
      DELTA_LOG_DIR \<notin> set ps \<and> length vpart = 20 \<and> CHR ''.'' \<notin> set vpart \<and> parse_uint vpart = Some v)"
  (is "?L \<longleftrightarrow> ?R")
proof
  assume ?L
  then obtain p where p: "try_from U as_url loc = Inr (Some p)" "file_type p = Commit" "version p = v"
    by blast
  obtain ps vpart rest where q:
      "path_segments U (as_url loc) = Some (ps @ [filename p])"
      "split_on (CHR ''.'') (filename p) = vpart # rest"
      "length vpart = VERSION_LEN" "parse_uint vpart = Some (version p)"
      "classify_parts (fst (log_dir_position ps)) (snd (log_dir_position ps)) rest = Some (file_type p)"
    by (rule try_from_SomeE [OF p(1)])
  then have rest: "rest = [''json'']" "fst (log_dir_position ps)"
    using p(2) by (simp_all add: classify_parts_Commit)
  have f: "filename p = vpart @ ''.json''"
    using join_split [of "CHR ''.''" "filename p"] q(2) rest(1) by simp
  obtain qs where "ps = qs @ [DELTA_LOG_DIR]" "DELTA_LOG_DIR \<notin> set qs"
    using rest(2) log_dir_position_projs(1) by blast
  then show ?R
    using p q f split_on_no_sep_in_parts [of vpart "CHR ''.''" "filename p"]
    by (auto simp: VERSION_LEN_def)
next
  assume ?R
  then obtain ps vpart where r:
      "path_segments U (as_url loc) = Some (ps @ [DELTA_LOG_DIR, vpart @ ''.json''])"
      "DELTA_LOG_DIR \<notin> set ps" "length vpart = 20" "CHR ''.'' \<notin> set vpart" "parse_uint vpart = Some v"
    by blast
  have "log_dir_position (ps @ [DELTA_LOG_DIR]) = (True, False)"
    using r(2) by (simp add: log_dir_position_log)
  moreover have "split_on (CHR ''.'') (vpart @ ''.json'') = [vpart, ''json'']"
    using split_on_append [OF r(4), of "''json''"] by simp
  ultimately show ?L
    using r by (intro exI [of _ "\<lparr> location = loc, filename = vpart @ ''.json'', extension = ''json'',
        version = v, file_type = Commit \<rparr>"])
      (simp add: try_from_Some_iff VERSION_LEN_def classify_parts_def)
qed

text \<open>
  A path that is recognised as anything but \<open>Unknown\<close> lies directly in a \<open>_delta_log\<close>
  directory with no other \<open>_delta_log\<close> above it, or, exactly for staged commits, in its
  \<open>_staged_commits\<close> subdirectory, so staged commits are the only files that listing drops; a
  multi-part checkpoint has a part number between 1 and the number of parts.
\<close>

theorem try_from_location:
  assumes "try_from U as_url loc = Inr (Some p)" and "file_type p \<noteq> UnknownType"
  shows "(\<exists>ps. DELTA_LOG_DIR \<notin> set ps \<and>
           path_segments U (as_url loc) =
             Some (ps @ [DELTA_LOG_DIR] @ (if should_list p then [] else [''_staged_commits'']) @ [filename p]))
       \<and> (\<forall>k n. file_type p = MultiPartCheckpoint k n \<longrightarrow> 0 < k \<and> k \<le> n)"
proof -
  obtain ps rest where q:
      "path_segments U (as_url loc) = Some (ps @ [filename p])"
      "classify_parts (fst (log_dir_position ps)) (snd (log_dir_position ps)) rest = Some (file_type p)"
    by (rule try_from_SomeE [OF assms(1)])
  have "\<exists>ps. DELTA_LOG_DIR \<notin> set ps \<and>
           path_segments U (as_url loc) =
             Some (ps @ [DELTA_LOG_DIR] @ (if should_list p then [] else [''_staged_commits'']) @ [filename p])"
  proof (cases "snd (log_dir_position ps)")
    case True
    then obtain qs where "\<not> fst (log_dir_position ps)"
        "ps = qs @ [DELTA_LOG_DIR, ''_staged_commits'']" "DELTA_LOG_DIR \<notin> set qs"
      using log_dir_position_projs(2) by blast
    moreover from this True q assms(2) have "file_type p = StagedCommit"
      using classify_parts_staged by auto
    ultimately show ?thesis using q(1) by (auto simp: should_list_def)
  next
    case False
    then have ns: "file_type p \<noteq> StagedCommit" using q(2) classify_parts_not_staged by metis
    have "fst (log_dir_position ps)"
      using q(2) False assms(2) by (metis classify_parts_total_outside option.inject)
    then obtain qs where "ps = qs @ [DELTA_LOG_DIR]" "DELTA_LOG_DIR \<notin> set qs"
      using log_dir_position_projs(1) by blast
    with q(1) ns show ?thesis by (auto simp: should_list_def split: log_path_file_type.splits)
  qed
  moreover have "\<forall>k n. file_type p = MultiPartCheckpoint k n \<longrightarrow> 0 < k \<and> k \<le> n"
    using q(2) classify_parts_multi by auto
  ultimately show ?thesis by blast
qed

section \<open>Constructed paths parse back\<close>

text \<open>
  What the code relies on of \<open>Url::join\<close> (resolution of a relative reference, RFC 3986): a
  reference of plain characters that does not start with a slash and has no dot segments
  replaces the last path segment of the base.
\<close>

definition plain_char :: "char \<Rightarrow> bool" where
  "plain_char c = (is_digit c \<or> (97 \<le> (of_char c :: nat) \<and> (of_char c :: nat) \<le> 122) \<or> c = CHR ''.'' \<or> c = CHR ''-''
     \<or> c = CHR ''_'' \<or> c = CHR ''/'')"

definition plain_reference :: "string \<Rightarrow> bool" where
  "plain_reference rel =
     (rel \<noteq> [] \<and> hd rel \<noteq> CHR ''/'' \<and> list_all plain_char rel \<and>
      list_all (\<lambda>seg. seg \<noteq> ''.'' \<and> seg \<noteq> ''..'') (split_on (CHR ''/'') rel))"

definition url_join_law :: "'url url_ops \<Rightarrow> bool" where
  "url_join_law U =
     (\<forall>u ps x rel. path_segments U u = Some (ps @ [x]) \<longrightarrow> plain_reference rel \<longrightarrow>
        (\<exists>u'. url_join U u rel = Inr u' \<and> path_segments U u' = Some (ps @ split_on (CHR ''/'') rel)))"

text \<open>
  What it relies on of \<open>path\<close> and \<open>set_path\<close>: the path of a URL with segments is its segments,
  each after a slash, and setting the path to itself with a slash added adds an empty segment.
\<close>

definition url_path_law :: "'url url_ops \<Rightarrow> bool" where
  "url_path_law U =
     (\<forall>u ps x. path_segments U u = Some (ps @ [x]) \<longrightarrow>
        (ends_with_slash (url_path U u) \<longleftrightarrow> x = '''') \<and>
        path_segments U (set_path U u (url_path U u @ ''/'')) = Some (ps @ [x, '''']))"

lemma plain_reference_dirs:
  "plain_reference DELTA_LOG_DIR_WITH_SLASH" "plain_reference STAGED_COMMITS_DIR"
  "split_on (CHR ''/'') DELTA_LOG_DIR_WITH_SLASH = [DELTA_LOG_DIR, '''']"
  "split_on (CHR ''/'') STAGED_COMMITS_DIR = [''_staged_commits'', '''']"
  by code_simp+

lemma plain_reference_file:
  assumes "CHR ''/'' \<notin> set f" "list_all plain_char f" "2 < length f"
  shows "plain_reference f" "split_on (CHR ''/'') f = [f]"
proof -
  show s: "split_on (CHR ''/'') f = [f]" using assms(1) by (rule split_on_no_sep)
  have "hd f \<noteq> CHR ''/''" "f \<noteq> []" using assms by (cases f; auto)+
  then show "plain_reference f" using assms s by (auto simp: plain_reference_def)
qed

lemma plain_char_format [simp]: "list_all plain_char (format_u64 w v)"
  using format_u64_digits [of w v] by (auto simp: list_all_iff plain_char_def)

lemma join_dir:
  assumes "url_join_law U" "path_segments U u = Some (ps @ [x])"
  obtains d where "url_join U u DELTA_LOG_DIR_WITH_SLASH = Inr d"
      "path_segments U d = Some ((ps @ [DELTA_LOG_DIR]) @ [''''])"
  using assms plain_reference_dirs(1,3) unfolding url_join_law_def by fastforce

lemma join_file:
  assumes "url_join_law U" "path_segments U u = Some (ps @ [x])"
    "CHR ''/'' \<notin> set f" "list_all plain_char f" "2 < length f"
  obtains loc where "url_join U u f = Inr loc" "path_segments U loc = Some (ps @ [f])"
  using assms(1,2) plain_reference_file [OF assms(3-5)] unfolding url_join_law_def by metis

lemma try_from_log_file_eq:
  assumes "path_segments U (as_url loc) = Some (ps @ [DELTA_LOG_DIR, format_u64 20 v @ CHR ''.'' # r])"
    and "DELTA_LOG_DIR \<notin> set ps" and "classify_parts True False (split_on (CHR ''.'') r) = Some t"
  shows "try_from U as_url loc = Inr (Some \<lparr> location = loc, filename = format_u64 20 v @ CHR ''.'' # r,
           extension = last (split_on (CHR ''.'') r), version = v, file_type = t \<rparr>)"
proof -
  have "log_dir_position (ps @ [DELTA_LOG_DIR]) = (True, False)"
    using assms(2) by (simp add: log_dir_position_log)
  then show ?thesis using assms by (simp add: try_from_Some_iff VERSION_LEN_def)
qed

lemma try_from_log_file:
  assumes "path_segments U loc = Some (ps @ [DELTA_LOG_DIR, format_u64 20 v @ CHR ''.'' # r])"
    and "DELTA_LOG_DIR \<notin> set ps" and "classify_parts True False (split_on (CHR ''.'') r) = Some t"
  shows "\<exists>p. try_from U id loc = Inr (Some p) \<and> version p = v \<and> file_type p = t \<and> location p = loc"
  using try_from_log_file_eq [of U id loc] assms by simp

lemma create_path_ok:
  assumes law: "url_join_law U" and root: "path_segments U root = Some (ps @ [''''])"
    and nd: "DELTA_LOG_DIR \<notin> set ps"
    and r: "list_all plain_char r" "CHR ''/'' \<notin> set r"
      "classify_parts True False (split_on (CHR ''.'') r) = Some t"
  shows "\<exists>p. create_path U root (format_u64 20 v @ CHR ''.'' # r) = Inr p \<and> version p = v \<and> file_type p = t"
proof -
  obtain d where d: "url_join U root DELTA_LOG_DIR_WITH_SLASH = Inr d"
      "path_segments U d = Some ((ps @ [DELTA_LOG_DIR]) @ [''''])"
    using join_dir [OF law root] .
  obtain loc where loc: "url_join U d (format_u64 20 v @ CHR ''.'' # r) = Inr loc"
      "path_segments U loc = Some ((ps @ [DELTA_LOG_DIR]) @ [format_u64 20 v @ CHR ''.'' # r])"
    using join_file [OF law d(2), of "format_u64 20 v @ CHR ''.'' # r"] r
    by (auto simp: plain_char_def)
  obtain p where "try_from U id loc = Inr (Some p)" "version p = v" "file_type p = t"
    using try_from_log_file [of U loc ps v r t] loc(2) nd r(3) by auto
  with d loc show ?thesis by (simp add: create_path_def)
qed

text \<open>The text of a UUID: 36 characters, hexadecimal digits and hyphens.\<close>

definition uuid_text :: "string \<Rightarrow> bool" where
  "uuid_text s = (length s = 36 \<and>
     list_all (\<lambda>c. is_digit c \<or> (97 \<le> (of_char c :: nat) \<and> (of_char c :: nat) \<le> 102) \<or> c = CHR ''-'') s)"

lemma uuid_text_props:
  assumes "uuid_text s"
  shows "length s = 36" "list_all plain_char s" "CHR ''.'' \<notin> set s" "CHR ''/'' \<notin> set s"
  using assms by (auto simp: uuid_text_def plain_char_def list_all_iff)

lemma split_suffixes [simp]:
  "split_on (CHR ''.'') ''json'' = [''json'']" "split_on (CHR ''.'') ''crc'' = [''crc'']"
  "split_on (CHR ''.'') ''checkpoint.parquet'' = [''checkpoint'', ''parquet'']"
  "split_on (CHR ''.'') ''compacted.json'' = [''compacted'', ''json'']"
  "split_on (CHR ''.'') ''parquet'' = [''parquet'']"
  by code_simp+

lemma split_uuid_checkpoint:
  "uuid_text s \<Longrightarrow> split_on (CHR ''.'') (''checkpoint.'' @ s @ ''.parquet'') = [''checkpoint'', s, ''parquet'']"
  using split_on_append [of "CHR ''.''" "''checkpoint''" "s @ ''.parquet''"]
    split_on_append [of "CHR ''.''" s "''parquet''"] by (simp add: uuid_text_props)

lemma split_compacted:
  "split_on (CHR ''.'') (format_u64 20 b @ ''.compacted.json'') = [format_u64 20 b, ''compacted'', ''json'']"
  using split_on_append [of "CHR ''.''" "format_u64 20 b" "''compacted.json''"] by simp

lemma split_staged:
  "uuid_text s \<Longrightarrow> split_on (CHR ''.'') (s @ ''.json'') = [s, ''json'']"
  using split_on_append [of "CHR ''.''" s "''json''"] by (simp add: uuid_text_props)

lemma classify_suffixes:
  "classify_parts True False [''json''] = Some Commit"
  "classify_parts True False [''crc''] = Some Crc"
  "classify_parts True False [''checkpoint'', ''parquet''] = Some SinglePartCheckpoint"
  "uuid_text s \<Longrightarrow> classify_parts True False [''checkpoint'', s, ''parquet''] = Some UuidCheckpoint"
  "classify_parts True False [format_u64 20 b, ''compacted'', ''json''] = Some (CompactedCommit b)"
  "uuid_text s \<Longrightarrow> classify_parts False True [s, ''json''] = Some StagedCommit"
proof -
  have "length (format_u64 20 b) \<noteq> length ''checkpoint''" by simp
  then have "format_u64 20 b \<noteq> ''checkpoint''" by metis
  then show "classify_parts True False [format_u64 20 b, ''compacted'', ''json''] = Some (CompactedCommit b)"
    by (simp add: classify_parts_def parse_path_part_def VERSION_LEN_def)
qed (simp_all add: classify_parts_def parse_path_part_string_def uuid_text_props UUID_PART_LEN_def)

text \<open>
  C34. The constructors of log paths succeed on every table root that is a directory outside any
  \<open>_delta_log\<close>, for every version, and the path they return parses to the file type asked for
  and to the same version numbers: printing a version on 20 digits and parsing it back is the
  identity on all of \<open>u64\<close>.
\<close>

theorem new_paths_roundtrip:
  assumes law: "url_join_law U" and root: "path_segments U root = Some (ps @ [''''])"
    and nd: "DELTA_LOG_DIR \<notin> set ps" and uuid: "uuid_text uuid"
  shows "(\<exists>p. new_commit U root v = Inr p \<and> version p = v \<and> file_type p = Commit)
       \<and> (\<exists>p. new_crc U root v = Inr p \<and> version p = v \<and> file_type p = Crc)
       \<and> (\<exists>p. new_classic_parquet_checkpoint U root v = Inr p \<and> version p = v \<and> file_type p = SinglePartCheckpoint)
       \<and> (\<exists>p. new_uuid_parquet_checkpoint U root v uuid = Inr p \<and> version p = v \<and> file_type p = UuidCheckpoint)
       \<and> (\<exists>p. new_log_compaction U root v w = Inr p \<and> version p = v \<and> file_type p = CompactedCommit w)"
proof -
  note ok = create_path_ok [OF law root nd]
  have "\<exists>p. new_commit U root v = Inr p \<and> version p = v \<and> file_type p = Commit"
    using ok [of "''json''" Commit v] by (auto simp: new_commit_def is_commit_def classify_suffixes plain_char_def)
  moreover have "\<exists>p. new_crc U root v = Inr p \<and> version p = v \<and> file_type p = Crc"
    using ok [of "''crc''" Crc v] by (auto simp: new_crc_def classify_suffixes plain_char_def)
  moreover have "\<exists>p. new_classic_parquet_checkpoint U root v = Inr p \<and> version p = v \<and> file_type p = SinglePartCheckpoint"
    using ok [of "''checkpoint.parquet''" SinglePartCheckpoint v]
    by (auto simp: new_classic_parquet_checkpoint_def is_checkpoint_def classify_suffixes plain_char_def)
  moreover have "\<exists>p. new_uuid_parquet_checkpoint U root v uuid = Inr p \<and> version p = v \<and> file_type p = UuidCheckpoint"
    using ok [of "''checkpoint.'' @ uuid @ ''.parquet''" UuidCheckpoint v]
      split_uuid_checkpoint [OF uuid] classify_suffixes(4) [OF uuid] uuid_text_props [OF uuid]
    by (auto simp: new_uuid_parquet_checkpoint_def is_checkpoint_def plain_char_def)
  moreover have "\<exists>p. new_log_compaction U root v w = Inr p \<and> version p = v \<and> file_type p = CompactedCommit w"
    using ok [of "format_u64 20 w @ ''.compacted.json''" "CompactedCommit w" v]
    by (auto simp: new_log_compaction_def split_compacted classify_suffixes plain_char_def)
  ultimately show ?thesis by blast
qed

text \<open>
  A log root built from any table root (with or without a trailing slash) yields commit
  paths that are published commits of the given version, and staged-commit paths that are
  recognised as staged commits of that version and that a listing of the log never returns.
\<close>

theorem log_root_paths_roundtrip:
  assumes law: "url_join_law U" and plaw: "url_path_law U"
    and root: "path_segments U root = Some (ps @ [x])"
    and nd: "DELTA_LOG_DIR \<notin> set (ps @ [x])" and uuid: "uuid_text uuid"
  shows "\<exists>r. log_root_new U root = Inr r \<and>
           (\<exists>p. new_commit_path U r v = Inr p \<and> version p = v \<and> file_type p = Commit) \<and>
           (\<exists>p. new_staged_commit_path U r v uuid = Inr p \<and> version p = v \<and>
                file_type p = StagedCommit \<and> \<not> should_list p)"
proof -
  define root' where "root' = (if \<not> ends_with_slash (url_path U root)
    then set_path U root (url_path U root @ ''/'') else root)"
  obtain qs where root': "path_segments U root' = Some (qs @ [''''])" and nq: "DELTA_LOG_DIR \<notin> set qs"
  proof (cases "x = ''''")
    case True
    then have "root' = root" using plaw root by (auto simp: root'_def url_path_law_def)
    with True root nd that [of ps] show ?thesis by simp
  next
    case False
    then have "path_segments U root' = Some (ps @ [x, ''''])"
      using plaw root by (auto simp: root'_def url_path_law_def)
    with nd that [of "ps @ [x]"] show ?thesis by simp
  qed
  obtain d where d: "url_join U root' DELTA_LOG_DIR_WITH_SLASH = Inr d"
      "path_segments U d = Some ((qs @ [DELTA_LOG_DIR]) @ [''''])"
    using join_dir [OF law root'] .
  define r where "r = \<lparr> table_root_of = root', log_root_of = d \<rparr>"
  have new: "log_root_new U root = Inr r"
    using d(1) by (simp add: log_root_new_def root'_def [symmetric] r_def)
  obtain c where c: "url_join U d (format_u64 20 v @ ''.json'') = Inr c"
      "path_segments U c = Some ((qs @ [DELTA_LOG_DIR]) @ [format_u64 20 v @ ''.json''])"
    by (rule join_file [OF law d(2), of "format_u64 20 v @ ''.json''"]) (auto simp: plain_char_def)
  have commit: "\<exists>p. new_commit_path U r v = Inr p \<and> version p = v \<and> file_type p = Commit"
    using try_from_log_file [of U c qs v "''json''" Commit] c nq
    by (auto simp: new_commit_path_def r_def classify_suffixes)
  obtain sd where sd: "url_join U d STAGED_COMMITS_DIR = Inr sd"
      "path_segments U sd = Some ((qs @ [DELTA_LOG_DIR, ''_staged_commits'']) @ [''''])"
    using law d(2) plain_reference_dirs(2,4) unfolding url_join_law_def by fastforce
  obtain s where s: "url_join U sd (format_u64 20 v @ ''.'' @ uuid @ ''.json'') = Inr s"
      "path_segments U s = Some ((qs @ [DELTA_LOG_DIR, ''_staged_commits'']) @ [format_u64 20 v @ ''.'' @ uuid @ ''.json''])"
    by (rule join_file [OF law sd(2), of "format_u64 20 v @ ''.'' @ uuid @ ''.json''"])
       (auto simp: plain_char_def uuid_text_props [OF uuid])
  have "log_dir_position (qs @ [DELTA_LOG_DIR, ''_staged_commits'']) = (False, True)"
    using nq by (simp add: log_dir_position_staged)
  then have "try_from U id s = Inr (Some \<lparr> location = s, filename = format_u64 20 v @ ''.'' @ uuid @ ''.json'',
      extension = ''json'', version = v, file_type = StagedCommit \<rparr>)"
    using s(2) split_on_append [of "CHR ''.''" "format_u64 20 v" "uuid @ ''.json''"]
    by (simp add: try_from_Some_iff split_staged [OF uuid] classify_suffixes(6) [OF uuid] VERSION_LEN_def)
  then have "\<exists>p. new_staged_commit_path U r v uuid = Inr p \<and> version p = v \<and>
      file_type p = StagedCommit \<and> \<not> should_list p"
    using sd s by (simp add: new_staged_commit_path_def r_def should_list_def)
  with new commit show ?thesis by blast
qed

section \<open>A concrete instance of the URL operations\<close>

text \<open>
  URLs given by their list of path segments, with a slash inside a segment escaped in the
  path; the laws above hold of it.
\<close>

definition list_url_ops :: "string list url_ops" where
  "list_url_ops = \<lparr> path_segments = Some,
     url_path = (\<lambda>u. concat (map (\<lambda>s. CHR ''/'' # map (\<lambda>c. if c = CHR ''/'' then CHR ''-'' else c) s) u)),
     set_path = (\<lambda>u s. u @ ['''']),
     url_join = (\<lambda>u rel. Inr (butlast u @ split_on (CHR ''/'') rel)) \<rparr>"

lemma list_url_ops_join: "url_join_law list_url_ops"
  by (simp add: url_join_law_def list_url_ops_def)

lemma list_url_ops_path: "url_path_law list_url_ops"
  by (auto simp: url_path_law_def list_url_ops_def ends_with_slash_def last_opt_def last_map)

theorem try_from_location_witness:
  "\<exists>p. try_from list_url_ops id [''t'', DELTA_LOG_DIR, format_u64 20 7 @ ''.json''] = Inr (Some p) \<and>
       file_type p = Commit \<and>
       (\<exists>ps. DELTA_LOG_DIR \<notin> set ps \<and>
          [''t'', DELTA_LOG_DIR, format_u64 20 7 @ ''.json''] = ps @ [DELTA_LOG_DIR, filename p])"
proof -
  have segs: "path_segments list_url_ops [''t'', DELTA_LOG_DIR, format_u64 20 7 @ ''.json''] =
      Some ([''t''] @ [DELTA_LOG_DIR, format_u64 20 7 @ ''.json''])" by (simp add: list_url_ops_def)
  have "DELTA_LOG_DIR \<notin> set [''t'']" by (simp add: DELTA_LOG_DIR_def)
  from try_from_log_file [OF segs this, of Commit] obtain p where
    p: "try_from list_url_ops id [''t'', DELTA_LOG_DIR, format_u64 20 7 @ ''.json''] = Inr (Some p)"
      "file_type p = Commit"
    by (auto simp: classify_suffixes)
  from try_from_location [OF p(1)] p show ?thesis
    by (auto simp: should_list_def list_url_ops_def)
qed

theorem new_paths_roundtrip_witness:
  "url_join_law list_url_ops \<and> path_segments list_url_ops [''t'', ''''] = Some [''t'', ''''] \<and>
   (\<exists>p. new_commit list_url_ops [''t'', ''''] 7 = Inr p \<and> version p = 7 \<and> file_type p = Commit)"
proof -
  have u: "uuid_text ''3a0d65cd-4056-49b8-937b-95f9e3ee90e5''" by code_simp
  have r: "path_segments list_url_ops [''t'', ''''] = Some ([''t''] @ [''''])" by (simp add: list_url_ops_def)
  have d: "DELTA_LOG_DIR \<notin> set [''t'']" by (simp add: DELTA_LOG_DIR_def)
  show ?thesis
    using new_paths_roundtrip [OF list_url_ops_join r d u] list_url_ops_join r by simp
qed

theorem log_root_paths_roundtrip_witness:
  "\<exists>r. log_root_new list_url_ops [''t''] = Inr r \<and>
     (\<exists>p. new_staged_commit_path list_url_ops r 7 ''3a0d65cd-4056-49b8-937b-95f9e3ee90e5'' = Inr p \<and>
        version p = 7 \<and> \<not> should_list p)"
proof -
  have u: "uuid_text ''3a0d65cd-4056-49b8-937b-95f9e3ee90e5''" by code_simp
  have r: "path_segments list_url_ops [''t''] = Some ([] @ [''t''])"
    by (simp add: list_url_ops_def)
  have d: "DELTA_LOG_DIR \<notin> set ([] @ [''t''])" by (simp add: DELTA_LOG_DIR_def)
  show ?thesis
    using log_root_paths_roundtrip [OF list_url_ops_join list_url_ops_path r d u, of 7] by blast
qed

end
