(* ===== verification/LogListing.thy ===== *)
theory LogListing
  imports LogPath
begin

text \<open>
  \<open>kernel/src/log_segment_files.rs\<close> and \<open>kernel/src/last_checkpoint_hint.rs\<close>: listing the log
  directory. Files arrive from storage in ascending order, one version after the other; the
  listing groups the files of a version, finds the complete checkpoints and keeps what a reader
  of the table needs: the latest complete checkpoint and the commits, compactions and checksum
  after it. A caller may add a \<open>log_tail\<close> of commits, which replaces the commits of storage from
  its first version on.
\<close>

section \<open>Model\<close>

record 'loc log_segment_files =
  ascending_commit_files :: "'loc parsed_log_path list"
  ascending_compaction_files :: "'loc parsed_log_path list"
  checkpoint_parts :: "'loc parsed_log_path list"
  latest_crc_file :: "'loc parsed_log_path option"
  latest_commit_file :: "'loc parsed_log_path option"
  max_published_version :: "version option"

definition log_segment_files_default :: "'loc log_segment_files" where
  "log_segment_files_default =
     \<lparr> ascending_commit_files = [], ascending_compaction_files = [], checkpoint_parts = [],
       latest_crc_file = None, latest_commit_file = None, max_published_version = None \<rparr>"

text \<open>
  The storage handler: \<open>list_from\<close> yields the files of the directory from a start URL on, lazily
  and with an error per item. \<open>filter_map_ok\<close> maps and filters the items that are no errors.
\<close>

type_synonym ('url, 'loc) list_from = "'url \<Rightarrow> 'loc delta_result list delta_result"

fun filter_map_ok :: "('a \<Rightarrow> 'b option) \<Rightarrow> 'a delta_result list \<Rightarrow> 'b delta_result list" where
  "filter_map_ok f [] = []"
| "filter_map_ok f (Inl e # rs) = Inl e # filter_map_ok f rs"
| "filter_map_ok f (Inr x # rs) =
     (case f x of None \<Rightarrow> filter_map_ok f rs | Some y \<Rightarrow> Inr y # filter_map_ok f rs)"

definition listable :: "'loc parsed_log_path option \<Rightarrow> 'loc parsed_log_path option" where
  "listable po = (case po of Some p \<Rightarrow> if should_list p then Some p else None | None \<Rightarrow> None)"

definition up_to_version :: "version \<Rightarrow> 'loc parsed_log_path delta_result \<Rightarrow> bool" where
  "up_to_version end_version r = (case r of Inr p \<Rightarrow> version p \<le> end_version | Inl _ \<Rightarrow> True)"

definition list_from_storage ::
  "'url url_ops \<Rightarrow> ('loc \<Rightarrow> 'url) \<Rightarrow> ('url, 'loc) list_from \<Rightarrow> 'url \<Rightarrow> version \<Rightarrow> version \<Rightarrow>
   'loc parsed_log_path delta_result list delta_result" where
  "list_from_storage U as_url list_from log_root start_version end_version =
     rbind (url_join U log_root (format_u64 20 start_version)) (\<lambda>start_from.
     rbind (list_from start_from) (\<lambda>metas.
     Inr (takeWhile (up_to_version end_version)
            (filter_map_ok listable (map (\<lambda>m. rbind m (try_from U as_url)) metas)))))"

subsection \<open>Grouping checkpoint parts\<close>

text \<open>
  \<open>group_checkpoint_parts\<close>. The \<open>HashMap\<close> from the number of parts to the parts seen so far is an
  association list with at most one entry per key; the order in which it is iterated is the
  \<open>hash_order\<close> argument of \<open>flush_checkpoint_group\<close>.
\<close>

definition group_step ::
  "(u32 \<times> 'loc parsed_log_path list) list \<Rightarrow> 'loc parsed_log_path \<Rightarrow> (u32 \<times> 'loc parsed_log_path list) list" where
  "group_step checkpoints part_file =
     (case file_type part_file of
        SinglePartCheckpoint \<Rightarrow> AList.update 1 [part_file] checkpoints
      | UuidCheckpoint \<Rightarrow> AList.update 1 [part_file] checkpoints
      | MultiPartCheckpoint p n \<Rightarrow>
          (if p = 1 \<and> n = 1 then AList.update 1 [part_file] checkpoints
           else if p = 1 then AList.update n [part_file] checkpoints
           else
             (case map_of checkpoints n of
                Some part_files \<Rightarrow>
                  (if unat p = 1 + length part_files
                   then AList.update n (part_files @ [part_file]) checkpoints else checkpoints)
              | None \<Rightarrow> checkpoints))
      | _ \<Rightarrow> checkpoints)"

definition group_checkpoint_parts ::
  "'loc parsed_log_path list \<Rightarrow> (u32 \<times> 'loc parsed_log_path list) list" where
  "group_checkpoint_parts parts = foldl group_step [] parts"

type_synonym 'loc hash_order =
  "(u32 \<times> 'loc parsed_log_path list) list \<Rightarrow> (u32 \<times> 'loc parsed_log_path list) list"

text \<open>The first complete checkpoint among the groups, in iteration order.\<close>

definition complete_checkpoint ::
  "'loc hash_order \<Rightarrow> 'loc parsed_log_path list \<Rightarrow> 'loc parsed_log_path list option" where
  "complete_checkpoint hash_order parts =
     map_option snd
       (find (\<lambda>(n, part_files). length part_files = unat n) (hash_order (group_checkpoint_parts parts)))"

subsection \<open>The listing accumulator\<close>

record 'loc listing_accumulator =
  acc_output :: "'loc log_segment_files"
  new_checkpoint_parts :: "'loc parsed_log_path list"
  acc_end_version :: "version option"

definition process_file :: "'loc parsed_log_path \<Rightarrow> 'loc listing_accumulator \<Rightarrow> 'loc listing_accumulator" where
  "process_file file acc =
     (let out = acc_output acc in
      case file_type file of
        Commit \<Rightarrow> acc \<lparr> acc_output := out \<lparr> ascending_commit_files := ascending_commit_files out @ [file] \<rparr> \<rparr>
      | StagedCommit \<Rightarrow> acc \<lparr> acc_output := out \<lparr> ascending_commit_files := ascending_commit_files out @ [file] \<rparr> \<rparr>
      | CompactedCommit h \<Rightarrow>
          (if (case acc_end_version acc of None \<Rightarrow> True | Some e \<Rightarrow> h \<le> e)
           then acc \<lparr> acc_output := out \<lparr> ascending_compaction_files := ascending_compaction_files out @ [file] \<rparr> \<rparr>
           else acc)
      | SinglePartCheckpoint \<Rightarrow> acc \<lparr> new_checkpoint_parts := new_checkpoint_parts acc @ [file] \<rparr>
      | UuidCheckpoint \<Rightarrow> acc \<lparr> new_checkpoint_parts := new_checkpoint_parts acc @ [file] \<rparr>
      | MultiPartCheckpoint _ _ \<Rightarrow> acc \<lparr> new_checkpoint_parts := new_checkpoint_parts acc @ [file] \<rparr>
      | Crc \<Rightarrow> acc \<lparr> acc_output := out \<lparr> latest_crc_file := Some file \<rparr> \<rparr>
      | UnknownType \<Rightarrow> acc)"

text \<open>\<open>Vec::pop\<close> then \<open>Option::filter\<close> is the \<open>latest_commit_file\<close> of the flush.\<close>

definition flush_checkpoint_group ::
  "'loc hash_order \<Rightarrow> version \<Rightarrow> 'loc listing_accumulator \<Rightarrow> 'loc listing_accumulator" where
  "flush_checkpoint_group hash_order v acc =
     (let parts = new_checkpoint_parts acc; acc = acc \<lparr> new_checkpoint_parts := [] \<rparr>; out = acc_output acc in
      case complete_checkpoint hash_order parts of
        None \<Rightarrow> acc
      | Some complete \<Rightarrow>
          acc \<lparr> acc_output := out \<lparr>
            checkpoint_parts := complete,
            latest_commit_file :=
              (case last_opt (ascending_commit_files out) of
                 Some commit \<Rightarrow> if version commit = v then Some commit else None
               | None \<Rightarrow> None),
            ascending_commit_files := [],
            ascending_compaction_files := [],
            latest_crc_file :=
              (case latest_crc_file out of
                 Some crc \<Rightarrow> if version crc < v then None else Some crc
               | None \<Rightarrow> None) \<rparr> \<rparr>)"

definition maybe_flush_and_advance ::
  "'loc hash_order \<Rightarrow> version \<Rightarrow> 'loc listing_accumulator \<times> version option \<Rightarrow>
   'loc listing_accumulator \<times> version option" where
  "maybe_flush_and_advance hash_order file_version st =
     (case st of (acc, group_version) \<Rightarrow>
        (case group_version of
           Some gv \<Rightarrow>
             if file_version \<noteq> gv then (flush_checkpoint_group hash_order gv acc, Some file_version)
             else (acc, Some gv)
         | None \<Rightarrow> (acc, Some file_version)))"

definition track_published ::
  "'loc parsed_log_path \<Rightarrow> 'loc listing_accumulator \<Rightarrow> 'loc listing_accumulator" where
  "track_published file acc =
     (if file_type file = Commit
      then acc \<lparr> acc_output := acc_output acc \<lparr> max_published_version :=
             option_max (max_published_version (acc_output acc)) (Some (version file)) \<rparr> \<rparr>
      else acc)"

definition add_file ::
  "'loc hash_order \<Rightarrow> 'loc parsed_log_path \<Rightarrow> 'loc listing_accumulator \<times> version option \<Rightarrow>
   'loc listing_accumulator \<times> version option" where
  "add_file hash_order file st =
     (case maybe_flush_and_advance hash_order (version file) st of
        (acc, gv) \<Rightarrow> (process_file file acc, gv))"

text \<open>Phase 1: the files of storage; phase 2: the commits of the log tail.\<close>

definition phase1_step ::
  "'loc hash_order \<Rightarrow> version option \<Rightarrow> 'loc listing_accumulator \<times> version option \<Rightarrow>
   'loc parsed_log_path \<Rightarrow> 'loc listing_accumulator \<times> version option" where
  "phase1_step hash_order log_tail_start_version st file =
     (let st = (track_published file (fst st), snd st) in
      if is_commit file \<and>
         (case log_tail_start_version of Some tail_start \<Rightarrow> tail_start \<le> version file | None \<Rightarrow> False)
      then st
      else add_file hash_order file st)"

fun list_phase1 ::
  "'loc hash_order \<Rightarrow> version option \<Rightarrow> 'loc listing_accumulator \<times> version option \<Rightarrow>
   'loc parsed_log_path delta_result list \<Rightarrow> ('loc listing_accumulator \<times> version option) delta_result" where
  "list_phase1 hash_order tail_start st [] = Inr st"
| "list_phase1 hash_order tail_start st (Inl e # rs) = Inl e"
| "list_phase1 hash_order tail_start st (Inr file # rs) =
     list_phase1 hash_order tail_start (phase1_step hash_order tail_start st file) rs"

definition phase2_step ::
  "'loc hash_order \<Rightarrow> 'loc listing_accumulator \<times> version option \<Rightarrow> 'loc parsed_log_path \<Rightarrow>
   'loc listing_accumulator \<times> version option" where
  "phase2_step hash_order st file = add_file hash_order file (track_published file (fst st), snd st)"

definition finish_listing ::
  "'loc hash_order \<Rightarrow> 'loc listing_accumulator \<times> version option \<Rightarrow> 'loc log_segment_files" where
  "finish_listing hash_order st =
     (let acc = (case snd st of Some gv \<Rightarrow> flush_checkpoint_group hash_order gv (fst st) | None \<Rightarrow> fst st);
          out = acc_output acc in
      case last_opt (ascending_commit_files out) of
        Some c \<Rightarrow> out \<lparr> latest_commit_file := Some c \<rparr>
      | None \<Rightarrow> out)"

definition list_log ::
  "'loc hash_order \<Rightarrow> 'url url_ops \<Rightarrow> ('loc \<Rightarrow> 'url) \<Rightarrow> ('url, 'loc) list_from \<Rightarrow> 'url \<Rightarrow>
   'loc parsed_log_path list \<Rightarrow> version option \<Rightarrow> version option \<Rightarrow> 'loc log_segment_files delta_result" where
  "list_log hash_order U as_url list_from log_root log_tail start_version end_version =
     (let start = (case start_version of Some v \<Rightarrow> v | None \<Rightarrow> 0);
          end_v = (case end_version of Some v \<Rightarrow> v | None \<Rightarrow> - 1);
          tail_start = map_option version (first_opt log_tail);
          init = (\<lparr> acc_output = log_segment_files_default, new_checkpoint_parts = [],
                     acc_end_version = end_version \<rparr>, None) in
      rbind (list_from_storage U as_url list_from log_root start end_v) (\<lambda>fs.
      rbind (list_phase1 hash_order tail_start init fs) (\<lambda>st.
      Inr (finish_listing hash_order
             (foldl (phase2_step hash_order) st
                (filter (\<lambda>entry. start \<le> version entry \<and> version entry \<le> end_v) log_tail))))))"

subsection \<open>Listing commits only\<close>

fun list_commits_loop ::
  "'loc parsed_log_path list \<Rightarrow> version option \<Rightarrow> 'loc parsed_log_path delta_result list \<Rightarrow>
   ('loc parsed_log_path list \<times> version option) delta_result" where
  "list_commits_loop listed max_pub [] = Inr (listed, max_pub)"
| "list_commits_loop listed max_pub (Inl e # rs) = Inl e"
| "list_commits_loop listed max_pub (Inr file # rs) =
     (if file_type file = Commit
      then list_commits_loop (listed @ [file]) (option_max max_pub (Some (version file))) rs
      else list_commits_loop listed max_pub rs)"

definition list_commits ::
  "'url url_ops \<Rightarrow> ('loc \<Rightarrow> 'url) \<Rightarrow> ('url, 'loc) list_from \<Rightarrow> 'url \<Rightarrow> version option \<Rightarrow> version option \<Rightarrow>
   'loc log_segment_files delta_result" where
  "list_commits U as_url list_from log_root start_version end_version =
     (let start = (case start_version of Some v \<Rightarrow> v | None \<Rightarrow> 0);
          end_v = (case end_version of Some v \<Rightarrow> v | None \<Rightarrow> - 1) in
      rbind (list_from_storage U as_url list_from log_root start end_v) (\<lambda>fs.
      rbind (list_commits_loop [] None fs) (\<lambda>(listed, max_pub).
      Inr (log_segment_files_default \<lparr> ascending_commit_files := listed,
             latest_commit_file := last_opt listed, max_published_version := max_pub \<rparr>))))"

subsection \<open>The last-checkpoint hint\<close>

text \<open>The fields of \<open>LastCheckpointHint\<close>; the schema is opaque here.\<close>

record 'schema last_checkpoint_hint =
  hint_version :: version
  hint_size :: int
  hint_parts :: "nat option"
  hint_size_in_bytes :: "int option"
  hint_num_of_add_files :: "int option"
  hint_checkpoint_schema :: "'schema option"
  hint_checksum :: "string option"
  hint_tags :: "(string \<times> string) list option"

text \<open>
  \<open>LastCheckpointHint::try_read\<close>: \<open>read_files\<close> is the storage handler and \<open>from_slice\<close> the JSON
  deserialiser, both outside the crate's own logic.
\<close>

definition try_read ::
  "'url url_ops \<Rightarrow> ('url \<Rightarrow> 'bytes delta_result list delta_result) \<Rightarrow>
   ('bytes \<Rightarrow> 'schema last_checkpoint_hint delta_result) \<Rightarrow> 'url \<Rightarrow>
   'schema last_checkpoint_hint option delta_result" where
  "try_read U read_files from_slice log_root =
     rbind (url_join U log_root ''_last_checkpoint'') (\<lambda>file_path.
     rbind (read_files file_path) (\<lambda>datas.
     case datas of
       [] \<Rightarrow> Inr None
     | Inr d # _ \<Rightarrow> Inr (case from_slice d of Inr h \<Rightarrow> Some h | Inl _ \<Rightarrow> None)
     | Inl e # _ \<Rightarrow> (case e of FileNotFound _ \<Rightarrow> Inr None | _ \<Rightarrow> Inl e)))"

definition list_with_checkpoint_hint ::
  "'loc hash_order \<Rightarrow> 'url url_ops \<Rightarrow> ('loc \<Rightarrow> 'url) \<Rightarrow> ('url, 'loc) list_from \<Rightarrow>
   'schema last_checkpoint_hint \<Rightarrow> 'url \<Rightarrow> 'loc parsed_log_path list \<Rightarrow> version option \<Rightarrow>
   'loc log_segment_files delta_result" where
  "list_with_checkpoint_hint hash_order U as_url list_from hint log_root log_tail end_version =
     rbind (list_log hash_order U as_url list_from log_root log_tail (Some (hint_version hint)) end_version) (\<lambda>listed.
     case last_opt (checkpoint_parts listed) of
       None \<Rightarrow> Inl (InvalidCheckpoint ''Had a _last_checkpoint hint but didn't find any checkpoints'')
     | Some latest_checkpoint \<Rightarrow>
         if version latest_checkpoint \<noteq> hint_version hint then Inr listed
         else if length (checkpoint_parts listed) \<noteq> (case hint_parts hint of Some n \<Rightarrow> n | None \<Rightarrow> 1)
         then Inl (InvalidCheckpoint ''_last_checkpoint indicated a different number of parts'')
         else Inr listed)"

section \<open>Complete checkpoints\<close>

text \<open>
  What the parser guarantees of a part (C4), what the iteration of a \<open>HashMap\<close> guarantees, and
  when a list of parts makes a complete checkpoint.
\<close>

definition valid_part :: "'loc parsed_log_path \<Rightarrow> bool" where
  "valid_part f = (case file_type f of MultiPartCheckpoint p n \<Rightarrow> 0 < p \<and> p \<le> n | _ \<Rightarrow> True)"

definition hash_order_ok :: "'loc hash_order \<Rightarrow> bool" where
  "hash_order_ok ho = (\<forall>m. set (ho m) = set m)"

definition single_file_checkpoint :: "'loc parsed_log_path \<Rightarrow> bool" where
  "single_file_checkpoint f =
     (case file_type f of
        SinglePartCheckpoint \<Rightarrow> True | UuidCheckpoint \<Rightarrow> True | MultiPartCheckpoint p n \<Rightarrow> p = 1 \<and> n = 1
      | _ \<Rightarrow> False)"

definition part_of :: "u32 \<Rightarrow> 'loc parsed_log_path \<Rightarrow> bool" where
  "part_of n f = (case file_type f of MultiPartCheckpoint _ m \<Rightarrow> m = n | _ \<Rightarrow> False)"

definition ordered_parts :: "u32 \<Rightarrow> 'loc parsed_log_path list \<Rightarrow> bool" where
  "ordered_parts n fs = (\<forall>i < length fs. \<exists>p. file_type (fs ! i) = MultiPartCheckpoint p n \<and> unat p = Suc i)"

text \<open>One file that is a whole checkpoint, or the parts 1 to \<open>n\<close> of an \<open>n\<close>-part checkpoint in order.\<close>

definition is_complete_checkpoint :: "'loc parsed_log_path list \<Rightarrow> bool" where
  "is_complete_checkpoint cs =
     ((\<exists>f. cs = [f] \<and> single_file_checkpoint f) \<or>
      (\<exists>n. cs \<noteq> [] \<and> length cs = unat n \<and> ordered_parts n cs))"

lemma hash_order_ok_set: "hash_order_ok ho \<Longrightarrow> set (ho m) = set m"
  by (simp add: hash_order_ok_def)

lemma group_step_other_key:
  "n \<noteq> 1 \<Longrightarrow> \<not> part_of n f \<Longrightarrow> map_of (group_step m f) n = map_of m n"
  by (auto simp: group_step_def part_of_def update_conv' split: log_path_file_type.splits option.splits)

text \<open>The entry of a key other than 1 depends on the parts of that key alone.\<close>

definition part_step :: "'loc parsed_log_path list option \<Rightarrow> 'loc parsed_log_path \<Rightarrow> 'loc parsed_log_path list option" where
  "part_step st f =
     (if part_num (file_type f) = 1 then Some [f]
      else (case st of
              Some fs \<Rightarrow> if unat (part_num (file_type f)) = 1 + length fs then Some (fs @ [f]) else Some fs
            | None \<Rightarrow> None))"

lemma group_step_key:
  "n \<noteq> 1 \<Longrightarrow> part_of n f \<Longrightarrow> map_of (group_step m f) n = part_step (map_of m n) f"
  by (auto simp: group_step_def part_of_def part_step_def update_conv'
      split: log_path_file_type.splits option.splits)

lemma group_fold_key:
  "n \<noteq> 1 \<Longrightarrow> map_of (foldl group_step m fs) n = foldl part_step (map_of m n) (filter (part_of n) fs)"
  by (induction fs arbitrary: m) (simp_all add: group_step_other_key group_step_key)

lemma part_steps_ordered:
  "ordered_parts n fs \<Longrightarrow> fs \<noteq> [] \<Longrightarrow> foldl part_step None fs = Some fs"
proof (induction fs rule: rev_induct)
  case (snoc f fs)
  obtain p where p: "file_type f = MultiPartCheckpoint p n" "unat p = Suc (length fs)"
    using snoc.prems by (auto simp: ordered_parts_def dest: spec [of _ "length fs"])
  have o: "ordered_parts n fs"
    using snoc.prems by (auto simp: ordered_parts_def nth_append split: if_splits)
  show ?case
  proof (cases "fs = []")
    case True
    then have "p = 1" using p(2) by (metis One_nat_def length_0_conv unsigned_1 word_unat_eq_iff)
    then show ?thesis using True p by (simp add: part_step_def)
  next
    case False
    then have "p \<noteq> 1" using p(2) by auto
    then show ?thesis using snoc.IH [OF o False] p by (simp add: part_step_def)
  qed
qed simp

text \<open>Every group is a run of parts from the first on.\<close>

definition group_ok :: "'loc parsed_log_path set \<Rightarrow> u32 \<times> 'loc parsed_log_path list \<Rightarrow> bool" where
  "group_ok S e =
     (case e of (n, fs) \<Rightarrow> fs \<noteq> [] \<and> set fs \<subseteq> S \<and>
        (if n = 1 then (\<exists>f. fs = [f] \<and> single_file_checkpoint f) else ordered_parts n fs))"

lemma set_update_subset: "set (AList.update k v m) \<subseteq> insert (k, v) (set m)"
  by (induction m) auto

lemma group_step_ok:
  assumes "\<forall>e \<in> set m. group_ok S e" and "valid_part f" and "f \<in> S"
  shows "\<forall>e \<in> set (group_step m f). group_ok S e"
proof (cases "file_type f")
  case (MultiPartCheckpoint p n)
  have v: "0 < p" "p \<le> n" using assms(2) MultiPartCheckpoint by (simp_all add: valid_part_def)
  have new: "group_ok S (n, fs @ [f])"
    if "map_of m n = Some fs" "p \<noteq> 1" "unat p = 1 + length fs" for fs
  proof -
    have "n \<noteq> 1" using v that(2) by (metis order.antisym word_gt_0 word_less_1 word_le_less_eq)
    moreover have "group_ok S (n, fs)" using assms(1) map_of_SomeD [OF that(1)] by blast
    ultimately show ?thesis
      using that MultiPartCheckpoint assms(3)
      by (auto simp: group_ok_def ordered_parts_def nth_append less_Suc_eq)
  qed
  have first: "group_ok S (n, [f])" if "p = 1"
    using that MultiPartCheckpoint assms(3)
    by (auto simp: group_ok_def ordered_parts_def single_file_checkpoint_def)
  show ?thesis
    using MultiPartCheckpoint assms(1) new first set_update_subset
    by (auto simp: group_step_def split: option.splits dest!: subsetD [OF set_update_subset])
qed (use assms set_update_subset in \<open>auto simp: group_step_def group_ok_def single_file_checkpoint_def
       dest!: subsetD [OF set_update_subset]\<close>)

lemma group_fold_ok:
  "\<forall>e \<in> set m. group_ok S e \<Longrightarrow> \<forall>f \<in> set fs. valid_part f \<Longrightarrow> set fs \<subseteq> S \<Longrightarrow>
   \<forall>e \<in> set (foldl group_step m fs). group_ok S e"
proof (induction fs arbitrary: m)
  case (Cons f fs)
  have "\<forall>e \<in> set (group_step m f). group_ok S e" using Cons.prems by (intro group_step_ok) auto
  from Cons.IH [OF this] Cons.prems show ?case by simp
qed simp

lemma group_checkpoint_parts_ok:
  assumes "\<forall>f \<in> set parts. valid_part f"
  shows "\<forall>e \<in> set (group_checkpoint_parts parts). group_ok (set parts) e"
  using group_fold_ok [of "[]" "set parts" parts] assms by (simp add: group_checkpoint_parts_def)

lemma group_step_keeps_keys: "map_of m k \<noteq> None \<Longrightarrow> map_of (group_step m f) k \<noteq> None"
  by (auto simp: group_step_def update_conv' split: log_path_file_type.splits option.splits)

lemma group_fold_keeps_keys: "map_of m k \<noteq> None \<Longrightarrow> map_of (foldl group_step m fs) k \<noteq> None"
proof (induction fs arbitrary: m)
  case (Cons f fs)
  from Cons.IH [OF group_step_keeps_keys [OF Cons.prems]] show ?case by simp
qed simp

lemma group_has_single:
  assumes "f \<in> set parts" and "single_file_checkpoint f"
  shows "map_of (group_checkpoint_parts parts) 1 \<noteq> None"
proof -
  obtain as bs where "parts = as @ f # bs" using assms(1) by (meson split_list)
  moreover have "map_of (group_step m f) 1 \<noteq> None" for m
    using assms(2) by (auto simp: group_step_def single_file_checkpoint_def update_conv'
        split: log_path_file_type.splits)
  ultimately show ?thesis
    using group_fold_keeps_keys [of "group_step (foldl group_step [] as) f" 1 bs]
    by (simp add: group_checkpoint_parts_def)
qed

text \<open>A listing in name order has the parts of an \<open>n\<close>-part checkpoint in ascending order.\<close>

definition ascending_parts :: "'loc parsed_log_path list \<Rightarrow> bool" where
  "ascending_parts fs =
     (\<forall>n. sorted_wrt (\<lambda>f g. part_num (file_type f) < part_num (file_type g)) (filter (part_of n) fs))"

definition all_parts_present :: "u32 \<Rightarrow> 'loc parsed_log_path list \<Rightarrow> bool" where
  "all_parts_present n fs =
     (\<forall>k. 0 < k \<longrightarrow> k \<le> n \<longrightarrow> (\<exists>f \<in> set fs. file_type f = MultiPartCheckpoint k n))"

lemma part_nums_are_range:
  assumes "\<forall>f \<in> set fs. valid_part f" and "ascending_parts fs" and "all_parts_present n fs"
  shows "map (\<lambda>f. unat (part_num (file_type f))) (filter (part_of n) fs) = [1..<Suc (unat n)]"
proof (rule sorted_distinct_set_unique)
  let ?pn = "\<lambda>f. unat (part_num (file_type f))"
  have s: "sorted_wrt (\<lambda>f g. ?pn f < ?pn g) (filter (part_of n) fs)"
    using assms(2) by (simp add: ascending_parts_def word_less_nat_alt)
  then have "sorted_wrt (<) (map ?pn (filter (part_of n) fs))" by (simp add: sorted_wrt_map)
  then show "sorted (map ?pn (filter (part_of n) fs))" "distinct (map ?pn (filter (part_of n) fs))"
    by (simp_all add: strict_sorted_iff)
  show "sorted [1..<Suc (unat n)]" "distinct [1..<Suc (unat n)]" by (simp_all del: upt_Suc)
  show "set (map ?pn (filter (part_of n) fs)) = set [1..<Suc (unat n)]"
  proof
    show "set (map ?pn (filter (part_of n) fs)) \<subseteq> set [1..<Suc (unat n)]"
    proof
      fix k assume "k \<in> set (map ?pn (filter (part_of n) fs))"
      then obtain f where f: "f \<in> set fs" "part_of n f" "k = ?pn f" by auto
      then obtain p where "file_type f = MultiPartCheckpoint p n"
        by (auto simp: part_of_def split: log_path_file_type.splits)
      with f assms(1) show "k \<in> set [1..<Suc (unat n)]"
        by (auto simp: valid_part_def word_less_nat_alt word_le_nat_alt)
    qed
    show "set [1..<Suc (unat n)] \<subseteq> set (map ?pn (filter (part_of n) fs))"
    proof
      fix k assume "k \<in> set [1..<Suc (unat n)]"
      then have k: "0 < k" "k \<le> unat n" by auto
      then have u: "unat (of_nat k :: u32) = k"
        using unsigned_less [of n, where ?'a = nat] by (simp add: unat_of_nat)
      then have "0 < (of_nat k :: u32)" "(of_nat k :: u32) \<le> n"
        using k by (simp_all add: word_less_nat_alt word_le_nat_alt)
      then obtain f where "f \<in> set fs" "file_type f = MultiPartCheckpoint (of_nat k) n"
        using assms(3) by (auto simp: all_parts_present_def)
      then show "k \<in> set (map ?pn (filter (part_of n) fs))"
        using u by (force simp: part_of_def)
    qed
  qed
qed

lemma all_parts_ordered:
  assumes "\<forall>f \<in> set fs. valid_part f" and "ascending_parts fs" and "all_parts_present n fs"
  shows "length (filter (part_of n) fs) = unat n" "ordered_parts n (filter (part_of n) fs)"
proof -
  let ?L = "filter (part_of n) fs"
  note r = part_nums_are_range [OF assms]
  show len: "length ?L = unat n" using arg_cong [OF r, of length] by (simp del: upt_Suc)
  have "\<exists>p. file_type (?L ! i) = MultiPartCheckpoint p n \<and> unat p = Suc i" if i: "i < length ?L" for i
  proof -
    have "unat (part_num (file_type (?L ! i))) = Suc i"
      using arg_cong [OF r, of "\<lambda>l. l ! i"] i len by (simp del: upt_Suc)
    moreover have "part_of n (?L ! i)" using nth_mem [OF i] by simp
    ultimately show ?thesis by (auto simp: part_of_def split: log_path_file_type.splits)
  qed
  then show "ordered_parts n ?L" by (simp add: ordered_parts_def)
qed

lemma complete_checkpoint_sound:
  assumes "hash_order_ok ho" and "\<forall>f \<in> set parts. valid_part f"
    and "complete_checkpoint ho parts = Some cs"
  shows "is_complete_checkpoint cs \<and> set cs \<subseteq> set parts"
proof -
  obtain n where n: "(n, cs) \<in> set (group_checkpoint_parts parts)" "length cs = unat n"
    using assms(3) hash_order_ok_set [OF assms(1)]
    by (auto simp: complete_checkpoint_def find_Some_iff) (metis nth_mem)
  then show ?thesis
    using group_checkpoint_parts_ok [OF assms(2)]
    by (auto simp: group_ok_def is_complete_checkpoint_def split: if_splits)
qed

lemma complete_checkpoint_present:
  assumes "hash_order_ok ho" and "\<forall>f \<in> set parts. valid_part f" and "ascending_parts parts"
    and "(\<exists>f \<in> set parts. single_file_checkpoint f) \<or> (\<exists>n > 1. all_parts_present n parts)"
  shows "complete_checkpoint ho parts \<noteq> None"
proof -
  have "\<exists>n cs. (n, cs) \<in> set (group_checkpoint_parts parts) \<and> length cs = unat n"
    using assms(4)
  proof
    assume "\<exists>f \<in> set parts. single_file_checkpoint f"
    then obtain cs where "(1, cs) \<in> set (group_checkpoint_parts parts)"
      using group_has_single map_of_SomeD by fastforce
    then show ?thesis
      using group_checkpoint_parts_ok [OF assms(2)] by (force simp: group_ok_def)
  next
    assume "\<exists>n > 1. all_parts_present n parts"
    then obtain n where n: "n > 1" "all_parts_present n parts" by blast
    note o = all_parts_ordered [OF assms(2,3) n(2)]
    have "filter (part_of n) parts \<noteq> []" using o(1) n(1)
      by (metis length_0_conv not_less_zero unat_0 word_less_nat_alt)
    then have "map_of (group_checkpoint_parts parts) n = Some (filter (part_of n) parts)"
      using part_steps_ordered [OF o(2)] n(1) group_fold_key [of n "[]" parts]
      by (auto simp: group_checkpoint_parts_def)
    then show ?thesis using o(1) map_of_SomeD by fast
  qed
  then show ?thesis
    using hash_order_ok_set [OF assms(1)] by (auto simp: complete_checkpoint_def find_None_iff)
qed

lemma complete_checkpoint_Nil [simp]: "hash_order_ok ho \<Longrightarrow> complete_checkpoint ho [] = None"
  using hash_order_ok_set [of ho "[]"] by (simp add: complete_checkpoint_def group_checkpoint_parts_def)

text \<open>
  Whatever order the hash map is iterated in, the parts listed at a version yield a
  checkpoint exactly when one is there: a single-file checkpoint, or all parts 1 to \<open>n\<close> of a
  multi-part checkpoint; and the files chosen form a complete checkpoint, in part order.
\<close>

theorem complete_checkpoint_iff:
  assumes "hash_order_ok ho" and "\<forall>f \<in> set parts. valid_part f" and "ascending_parts parts"
  shows "(complete_checkpoint ho parts \<noteq> None \<longleftrightarrow>
            (\<exists>f \<in> set parts. single_file_checkpoint f) \<or> (\<exists>n > 1. all_parts_present n parts))
       \<and> (\<forall>cs. complete_checkpoint ho parts = Some cs \<longrightarrow> is_complete_checkpoint cs \<and> set cs \<subseteq> set parts)"
proof -
  have "(\<exists>f \<in> set parts. single_file_checkpoint f) \<or> (\<exists>n > 1. all_parts_present n parts)"
    if cs: "complete_checkpoint ho parts = Some cs" for cs
  proof -
    have "is_complete_checkpoint cs" and sub: "set cs \<subseteq> set parts"
      using complete_checkpoint_sound [OF assms(1,2) cs] by simp_all
    then consider f where "cs = [f]" "single_file_checkpoint f"
      | n where "cs \<noteq> []" "length cs = unat n" "ordered_parts n cs"
      by (auto simp: is_complete_checkpoint_def)
    then show ?thesis
    proof cases
      case 1
      then show ?thesis using sub by auto
    next
      case 2
      have all: "all_parts_present n parts"
        unfolding all_parts_present_def
      proof (intro allI impI)
        fix k :: u32 assume k: "0 < k" "k \<le> n"
        then have "unat k - 1 < length cs" using 2(2) by (simp add: word_less_nat_alt word_le_nat_alt)
        then obtain p where "file_type (cs ! (unat k - 1)) = MultiPartCheckpoint p n" "unat p = Suc (unat k - 1)"
          using 2(3) by (auto simp: ordered_parts_def)
        moreover from this k have "p = k" by (simp add: word_less_nat_alt word_unat_eq_iff)
        ultimately show "\<exists>f \<in> set parts. file_type f = MultiPartCheckpoint k n"
          using sub nth_mem [OF \<open>unat k - 1 < length cs\<close>] by blast
      qed
      have "0 < n" using 2(1,2) by (metis length_0_conv unat_0 word_gt_0)
      show ?thesis
      proof (cases "n = 1")
        case True
        with all obtain f where "f \<in> set parts" "file_type f = MultiPartCheckpoint 1 1"
          by (auto simp: all_parts_present_def dest: spec [of _ 1])
        then show ?thesis by (auto simp: single_file_checkpoint_def intro!: bexI [of _ f])
      next
        case False
        with \<open>0 < n\<close> have "1 < n" by (simp add: word_less_nat_alt word_unat_eq_iff)
        with all show ?thesis by blast
      qed
    qed
  qed
  then show ?thesis
    using complete_checkpoint_present [OF assms] complete_checkpoint_sound [OF assms(1,2)] by blast
qed

theorem complete_checkpoint_iff_witness:
  "complete_checkpoint id
     [\<lparr> location = (), filename = '''', extension = ''parquet'', version = 3, file_type = MultiPartCheckpoint 1 2 \<rparr>,
      \<lparr> location = (), filename = '''', extension = ''parquet'', version = 3, file_type = MultiPartCheckpoint 2 2 \<rparr>] \<noteq> None"
proof -
  let ?ps = "[\<lparr> location = (), filename = '''', extension = ''parquet'', version = 3, file_type = MultiPartCheckpoint 1 2 \<rparr>,
      \<lparr> location = (), filename = '''', extension = ''parquet'', version = 3, file_type = MultiPartCheckpoint 2 2 \<rparr>]"
  have "k = 1 \<or> k = 2" if "0 < k" "k \<le> 2" for k :: u32
    using that by (auto simp: word_less_nat_alt word_le_nat_alt word_unat_eq_iff)
  then have "all_parts_present 2 ?ps" by (auto simp: all_parts_present_def)
  then show ?thesis
    using complete_checkpoint_iff [of id ?ps]
    by (auto simp: hash_order_ok_def valid_part_def ascending_parts_def part_of_def intro!: exI [of _ 2])
qed

section \<open>What a listing returns\<close>

text \<open>
  The abstract view of a listing: the files \<open>ks\<close> seen so far and the version \<open>cp\<close> of the latest
  complete checkpoint among them determine every field of the result.
\<close>

definition after_cp :: "version option \<Rightarrow> 'loc parsed_log_path \<Rightarrow> bool" where
  "after_cp cp f = (case cp of None \<Rightarrow> True | Some v \<Rightarrow> v < version f)"

definition from_cp :: "version option \<Rightarrow> 'loc parsed_log_path \<Rightarrow> bool" where
  "from_cp cp f = (case cp of None \<Rightarrow> True | Some v \<Rightarrow> v \<le> version f)"

definition parts_at :: "'loc parsed_log_path list \<Rightarrow> version \<Rightarrow> 'loc parsed_log_path list" where
  "parts_at ks v = filter (\<lambda>f. is_checkpoint f \<and> version f = v) ks"

definition latest_cp :: "'loc hash_order \<Rightarrow> 'loc parsed_log_path list \<Rightarrow> version option" where
  "latest_cp ho ks = map_option version (last_opt
     (filter (\<lambda>f. is_checkpoint f \<and> complete_checkpoint ho (parts_at ks (version f)) \<noteq> None) ks))"

definition compaction_within :: "version option \<Rightarrow> 'loc parsed_log_path \<Rightarrow> bool" where
  "compaction_within e f =
     (case file_type f of
        CompactedCommit h \<Rightarrow> (case e of None \<Rightarrow> True | Some v \<Rightarrow> h \<le> v) | _ \<Rightarrow> False)"

definition spec_files ::
  "'loc hash_order \<Rightarrow> version option \<Rightarrow> version option \<Rightarrow> 'loc parsed_log_path list \<Rightarrow> version option \<Rightarrow>
   'loc log_segment_files" where
  "spec_files ho e mp ks cp =
     \<lparr> ascending_commit_files = filter (\<lambda>f. is_commit f \<and> after_cp cp f) ks,
       ascending_compaction_files = filter (\<lambda>f. compaction_within e f \<and> after_cp cp f) ks,
       checkpoint_parts = (case cp of None \<Rightarrow> [] | Some v \<Rightarrow> the (complete_checkpoint ho (parts_at ks v))),
       latest_crc_file = last_opt (filter (\<lambda>f. file_type f = Crc \<and> from_cp cp f) ks),
       latest_commit_file =
         (case cp of None \<Rightarrow> None | Some v \<Rightarrow> last_opt (filter (\<lambda>f. is_commit f \<and> version f = v) ks)),
       max_published_version = mp \<rparr>"

definition spec_acc ::
  "'loc hash_order \<Rightarrow> version option \<Rightarrow> version option \<Rightarrow> 'loc parsed_log_path list \<Rightarrow> version option \<Rightarrow>
   'loc parsed_log_path list \<Rightarrow> 'loc listing_accumulator" where
  "spec_acc ho e mp ks cp parts =
     \<lparr> acc_output = spec_files ho e mp ks cp, new_checkpoint_parts = parts, acc_end_version = e \<rparr>"

definition listing_inv ::
  "'loc hash_order \<Rightarrow> version option \<Rightarrow> version option \<Rightarrow> 'loc parsed_log_path list \<Rightarrow>
   'loc listing_accumulator \<times> version option \<Rightarrow> bool" where
  "listing_inv ho e mp ks st =
     (if ks = [] then st = (spec_acc ho e mp [] None [], None)
      else \<exists>prev cur g. ks = prev @ cur \<and> cur \<noteq> [] \<and> (\<forall>f \<in> set prev. version f < g) \<and>
             (\<forall>f \<in> set cur. version f = g) \<and>
             st = (spec_acc ho e mp ks (latest_cp ho prev) (parts_at ks g), Some g))"

lemma parts_at_append [simp]: "parts_at (xs @ ys) v = parts_at xs v @ parts_at ys v"
  by (simp add: parts_at_def)

lemma parts_at_other: "\<forall>f \<in> set xs. version f \<noteq> v \<Longrightarrow> parts_at xs v = []"
  by (auto simp: parts_at_def filter_empty_conv)

lemma latest_cp_SomeD:
  assumes "latest_cp ho ks = Some v"
  shows "\<exists>f \<in> set ks. version f = v" "complete_checkpoint ho (parts_at ks v) \<noteq> None"
  using assms by (auto simp: latest_cp_def dest!: last_opt_in_set)

lemma latest_cp_step:
  assumes ho: "hash_order_ok ho" and prev: "\<forall>f \<in> set prev. version f < g"
    and cur: "\<forall>f \<in> set cur. version f = g"
  shows "latest_cp ho (prev @ cur) =
    (if complete_checkpoint ho (parts_at (prev @ cur) g) \<noteq> None then Some g else latest_cp ho prev)"
proof -
  let ?P = "\<lambda>ks f. is_checkpoint f \<and> complete_checkpoint ho (parts_at ks (version f)) \<noteq> None"
  have pg: "parts_at prev g = []" using prev by (intro parts_at_other) auto
  have "parts_at cur (version f) = []" if "f \<in> set prev" for f
    using that prev cur by (intro parts_at_other) auto
  then have fp: "filter (?P (prev @ cur)) prev = filter (?P prev) prev"
    by (intro filter_cong) simp_all
  show ?thesis
  proof (cases "complete_checkpoint ho (parts_at (prev @ cur) g)")
    case None
    then have "filter (?P (prev @ cur)) cur = []" using cur by (auto simp: filter_empty_conv)
    with fp None show ?thesis by (simp add: latest_cp_def)
  next
    case (Some cs)
    then have "parts_at cur g \<noteq> []" using ho pg by auto
    then obtain f where "f \<in> set cur" "is_checkpoint f" by (auto simp: parts_at_def filter_empty_conv)
    then have ne: "filter (?P (prev @ cur)) cur \<noteq> []" using Some cur by (auto simp: filter_empty_conv)
    then have "last_opt (filter (?P (prev @ cur)) (prev @ cur)) = Some (last (filter (?P (prev @ cur)) cur))"
      by (simp add: last_opt_def)
    moreover have "version (last (filter (?P (prev @ cur)) cur)) = g"
      using last_in_set [OF ne] cur by simp
    ultimately show ?thesis using Some by (simp add: latest_cp_def)
  qed
qed

lemma process_file_spec:
  assumes "after_cp cp f" and "version f = g"
  shows "process_file f (spec_acc ho e mp ks cp (parts_at ks g)) =
         spec_acc ho e mp (ks @ [f]) cp (parts_at (ks @ [f]) g)"
proof -
  have "cp = Some v \<Longrightarrow> parts_at [f] v = [] \<and> version f \<noteq> v" for v
    using assms by (auto simp: after_cp_def parts_at_def)
  moreover have "from_cp cp f" using assms(1) by (auto simp: after_cp_def from_cp_def split: option.splits)
  ultimately show ?thesis
    using assms
    by (cases "file_type f"; cases cp)
       (simp_all add: process_file_def spec_acc_def spec_files_def Let_def is_commit_def is_checkpoint_def
         compaction_within_def parts_at_def)
qed

lemma last_of_group:
  assumes "\<forall>f \<in> set prev. version f < g" and "\<forall>f \<in> set cur. version f = g \<and> Q f"
  shows "(case last_opt (filter (\<lambda>f. P f \<and> Q f) (prev @ cur)) of
            Some c \<Rightarrow> if version c = g then Some c else None | None \<Rightarrow> None) =
         last_opt (filter (\<lambda>f. P f \<and> version f = g) (prev @ cur))"
proof -
  have c: "filter (\<lambda>f. P f \<and> Q f) cur = filter P cur" "filter (\<lambda>f. P f \<and> version f = g) cur = filter P cur"
    using assms(2) by (auto intro!: filter_cong)
  have p: "filter (\<lambda>f. P f \<and> version f = g) prev = []" using assms(1) by (auto simp: filter_empty_conv)
  show ?thesis
  proof (cases "filter P cur = []")
    case True
    have "last_opt (filter (\<lambda>f. P f \<and> Q f) prev) = Some x \<Longrightarrow> version x < g" for x
      using assms(1) by (auto dest!: last_opt_in_set)
    with True c p show ?thesis by (auto split: option.splits)
  next
    case False
    then have "version (last (filter P cur)) = g" using last_in_set [OF False] assms(2) by simp
    with False c p show ?thesis by (simp add: last_opt_def)
  qed
qed

lemma flush_spec:
  assumes ho: "hash_order_ok ho" and prev: "\<forall>f \<in> set prev. version f < g"
    and cur: "\<forall>f \<in> set cur. version f = g" and ks: "ks = prev @ cur"
  shows "flush_checkpoint_group ho g (spec_acc ho e mp ks (latest_cp ho prev) (parts_at ks g)) =
         spec_acc ho e mp ks (latest_cp ho ks) []"
proof (cases "complete_checkpoint ho (parts_at ks g)")
  case None
  then show ?thesis
    using latest_cp_step [OF ho prev cur] ks
    by (simp add: flush_checkpoint_group_def spec_acc_def Let_def)
next
  case (Some cs)
  let ?cp = "latest_cp ho prev"
  have after: "\<forall>f \<in> set cur. version f = g \<and> after_cp ?cp f" "\<forall>f \<in> set cur. version f = g \<and> from_cp ?cp f"
    using cur prev latest_cp_SomeD(1) [of ho prev]
    by (fastforce simp: after_cp_def from_cp_def split: option.splits)+
  have new: "latest_cp ho ks = Some g" using latest_cp_step [OF ho prev cur] ks Some by simp
  have none: "filter (\<lambda>f. P f \<and> after_cp (Some g) f) ks = []" for P
    using prev cur ks by (auto simp: filter_empty_conv after_cp_def)
  have crc: "filter (\<lambda>f. file_type f = Crc \<and> from_cp (Some g) f) ks =
      filter (\<lambda>f. file_type f = Crc \<and> version f = g) ks"
    by (rule filter_cong) (use prev cur ks in \<open>auto simp: from_cp_def\<close>)
  have drop: "(case last_opt (filter (\<lambda>f. file_type f = Crc \<and> from_cp ?cp f) ks) of
      None \<Rightarrow> None | Some c \<Rightarrow> if version c < g then None else Some c) =
    (case last_opt (filter (\<lambda>f. file_type f = Crc \<and> from_cp ?cp f) ks) of
      None \<Rightarrow> None | Some c \<Rightarrow> if version c = g then Some c else None)"
    using prev cur ks by (auto split: option.splits dest!: last_opt_in_set)
  show ?thesis
    using Some new none crc drop
      last_of_group [OF prev after(1), of is_commit] last_of_group [OF prev after(2), of "\<lambda>f. file_type f = Crc"]
    by (simp add: flush_checkpoint_group_def spec_acc_def spec_files_def Let_def ks [symmetric])
qed

lemma add_file_inv:
  assumes ho: "hash_order_ok ho" and inv: "listing_inv ho e mp ks st"
    and le: "\<forall>x \<in> set ks. version x \<le> version f"
  shows "listing_inv ho e mp (ks @ [f]) (add_file ho f st)"
proof (cases "ks = []")
  case True
  then have st: "st = (spec_acc ho e mp [] None (parts_at [] (version f)), None)"
    using inv by (simp add: listing_inv_def parts_at_def)
  have "add_file ho f st = (spec_acc ho e mp [f] None (parts_at [f] (version f)), Some (version f))"
    using process_file_spec [of None f "version f" ho e mp "[]"] st
    by (simp add: add_file_def maybe_flush_and_advance_def after_cp_def)
  then show ?thesis
    using True by (simp add: listing_inv_def latest_cp_def exI [of _ "[]"])
next
  case False
  then obtain prev cur g where k: "ks = prev @ cur" "cur \<noteq> []" "\<forall>f \<in> set prev. version f < g"
      "\<forall>f \<in> set cur. version f = g"
      "st = (spec_acc ho e mp ks (latest_cp ho prev) (parts_at ks g), Some g)"
    using inv unfolding listing_inv_def if_not_P [OF False] by blast
  show ?thesis
  proof (cases "version f = g")
    case True
    have "after_cp (latest_cp ho prev) f"
      using True k(3) latest_cp_SomeD(1) [of ho prev] by (fastforce simp: after_cp_def split: option.splits)
    then have "add_file ho f st =
        (spec_acc ho e mp (ks @ [f]) (latest_cp ho prev) (parts_at (ks @ [f]) g), Some g)"
      using process_file_spec [of "latest_cp ho prev" f g ho e mp ks] k(5) True
      by (simp add: add_file_def maybe_flush_and_advance_def)
    then show ?thesis
      unfolding listing_inv_def using k True by fastforce
  next
    case diff: False
    have lt: "\<forall>x \<in> set ks. version x < version f"
    proof
      fix x assume "x \<in> set ks"
      then have "version x \<le> g" using k by auto
      moreover have "g \<le> version f" using le k(1,2,4) by (metis UnI2 last_in_set set_append)
      ultimately show "version x < version f" using diff by simp
    qed
    have a: "after_cp (latest_cp ho ks) f"
      using lt latest_cp_SomeD(1) [of ho ks] by (fastforce simp: after_cp_def split: option.splits)
    have none: "parts_at ks (version f) = []" using lt by (intro parts_at_other) auto
    have "add_file ho f st = (spec_acc ho e mp (ks @ [f]) (latest_cp ho ks) (parts_at (ks @ [f]) (version f)),
        Some (version f))"
      using process_file_spec [OF a refl, of ho e mp ks] flush_spec [OF ho k(3,4,1), of e mp] k(5) diff none
      by (simp add: add_file_def maybe_flush_and_advance_def)
    then show ?thesis
      unfolding listing_inv_def using lt by fastforce
  qed
qed

definition published_max :: "version option \<Rightarrow> 'loc parsed_log_path list \<Rightarrow> version option" where
  "published_max mp fs =
     foldl (\<lambda>m f. if file_type f = Commit then option_max m (Some (version f)) else m) mp fs"

lemma published_max_simps [simp]:
  "published_max mp [] = mp"
  "published_max mp (f # fs) =
     published_max (if file_type f = Commit then option_max mp (Some (version f)) else mp) fs"
  by (simp_all add: published_max_def)

lemma published_max_append [simp]: "published_max mp (xs @ ys) = published_max (published_max mp xs) ys"
  by (simp add: published_max_def)

lemma published_max_props:
  "(published_max None fs = None \<longleftrightarrow> (\<forall>f \<in> set fs. file_type f \<noteq> Commit)) \<and>
   (\<forall>v. published_max None fs = Some v \<longrightarrow>
      (\<exists>f \<in> set fs. file_type f = Commit \<and> version f = v) \<and>
      (\<forall>f \<in> set fs. file_type f = Commit \<longrightarrow> version f \<le> v))"
proof (induction fs rule: rev_induct)
  case (snoc f fs)
  then show ?case
    by (cases "published_max None fs") (auto simp: max_def intro: order_trans)
qed simp

lemma track_published_spec:
  "track_published f (spec_acc ho e mp ks cp parts) = spec_acc ho e (published_max mp [f]) ks cp parts"
  by (simp add: track_published_def spec_acc_def spec_files_def)

lemma track_published_inv:
  assumes "listing_inv ho e mp ks st"
  shows "listing_inv ho e (published_max mp [f]) ks (track_published f (fst st), snd st)"
proof (cases "ks = []")
  case True
  then show ?thesis using assms by (simp add: listing_inv_def track_published_spec)
next
  case False
  with assms obtain prev cur g where "ks = prev @ cur" "cur \<noteq> []" "\<forall>f \<in> set prev. version f < g"
      "\<forall>f \<in> set cur. version f = g"
      "st = (spec_acc ho e mp ks (latest_cp ho prev) (parts_at ks g), Some g)"
    unfolding listing_inv_def if_not_P [OF False] by blast
  then show ?thesis
    unfolding listing_inv_def if_not_P [OF False]
    by (intro exI [of _ prev] exI [of _ cur] exI [of _ g]) (simp add: track_published_spec)
qed

definition covered_by_tail :: "version option \<Rightarrow> 'loc parsed_log_path \<Rightarrow> bool" where
  "covered_by_tail tail_start f =
     (is_commit f \<and> (case tail_start of Some s \<Rightarrow> s \<le> version f | None \<Rightarrow> False))"

lemma phase1_inv:
  assumes ho: "hash_order_ok ho"
  shows "listing_inv ho e mp ks st \<Longrightarrow>
    sorted_wrt (\<lambda>f g. version f \<le> version g) (ks @ filter (\<lambda>f. \<not> covered_by_tail tail_start f) fs) \<Longrightarrow>
    listing_inv ho e (published_max mp fs) (ks @ filter (\<lambda>f. \<not> covered_by_tail tail_start f) fs)
      (foldl (phase1_step ho tail_start) st fs)"
proof (induction fs arbitrary: ks st mp)
  case (Cons f fs)
  note t = track_published_inv [OF Cons.prems(1), of f]
  show ?case
  proof (cases "covered_by_tail tail_start f")
    case True
    then have "phase1_step ho tail_start st f = (track_published f (fst st), snd st)"
      by (auto simp: phase1_step_def covered_by_tail_def)
    then show ?thesis using Cons.IH [OF t] Cons.prems(2) True by simp
  next
    case False
    then have s: "phase1_step ho tail_start st f = add_file ho f (track_published f (fst st), snd st)"
      by (auto simp: phase1_step_def covered_by_tail_def)
    have "\<forall>x \<in> set ks. version x \<le> version f" using Cons.prems(2) False by (simp add: sorted_wrt_append)
    from Cons.IH [OF add_file_inv [OF ho t this]] Cons.prems(2) False s show ?thesis by simp
  qed
qed simp

lemma list_phase1_ok: "list_phase1 ho tail_start st (map Inr fs) = Inr (foldl (phase1_step ho tail_start) st fs)"
  by (induction fs arbitrary: st) simp_all

text \<open>After the last group of storage is flushed, the commits of the tail are appended.\<close>

definition tail_state ::
  "'loc hash_order \<Rightarrow> version option \<Rightarrow> version option \<Rightarrow> 'loc parsed_log_path list \<Rightarrow>
   'loc parsed_log_path list \<Rightarrow> 'loc listing_accumulator" where
  "tail_state ho e mp ks ts =
     \<lparr> acc_output = (spec_files ho e mp ks (latest_cp ho ks))
         \<lparr> ascending_commit_files := filter (\<lambda>f. is_commit f \<and> after_cp (latest_cp ho ks) f) ks @ ts \<rparr>,
       new_checkpoint_parts = [], acc_end_version = e \<rparr>"

lemma flush_tail_state:
  "hash_order_ok ho \<Longrightarrow> flush_checkpoint_group ho v (tail_state ho e mp ks ts) = tail_state ho e mp ks ts"
  by (simp add: flush_checkpoint_group_def tail_state_def)

lemma process_commit_tail_state:
  "is_commit t \<Longrightarrow> process_file t (tail_state ho e mp ks ts) = tail_state ho e mp ks (ts @ [t])"
  by (auto simp: process_file_def tail_state_def spec_files_def is_commit_def Let_def
      split: log_path_file_type.splits)

lemma track_published_tail_state:
  "track_published u (tail_state ho e mp ks ts) = tail_state ho e (published_max mp [u]) ks ts"
  by (simp add: track_published_def tail_state_def spec_files_def)

lemma phase2_tail_state:
  assumes "hash_order_ok ho"
  shows "\<forall>t \<in> set us. is_commit t \<Longrightarrow>
    fst (foldl (phase2_step ho) (tail_state ho e mp ks ts, gv) us) =
    tail_state ho e (published_max mp us) ks (ts @ us)"
proof (induction us arbitrary: ts mp gv)
  case (Cons u us)
  have "\<exists>gv'. phase2_step ho (tail_state ho e mp ks ts, gv) u =
      (tail_state ho e (published_max mp [u]) ks (ts @ [u]), gv')"
    using Cons.prems assms
    by (auto simp: phase2_step_def add_file_def maybe_flush_and_advance_def flush_tail_state
        track_published_tail_state process_commit_tail_state split: option.splits)
  then show ?case using Cons by (elim exE) simp
qed simp

lemma finish_tail_state:
  assumes "hash_order_ok ho" and "ts \<noteq> []"
  shows "finish_listing ho (tail_state ho e mp ks ts, gv) =
    (spec_files ho e mp ks (latest_cp ho ks))
      \<lparr> ascending_commit_files := filter (\<lambda>f. is_commit f \<and> after_cp (latest_cp ho ks) f) ks @ ts,
        latest_commit_file := Some (last ts) \<rparr>"
proof -
  have "(case gv of Some g \<Rightarrow> flush_checkpoint_group ho g (tail_state ho e mp ks ts)
         | None \<Rightarrow> tail_state ho e mp ks ts) = tail_state ho e mp ks ts"
    using flush_tail_state [OF assms(1)] by (auto split: option.splits)
  then show ?thesis
    using assms(2) unfolding finish_listing_def Let_def fst_conv snd_conv
    by (simp add: tail_state_def last_opt_def)
qed

subsection \<open>The files of storage\<close>

definition parsed_files :: "'url url_ops \<Rightarrow> ('loc \<Rightarrow> 'url) \<Rightarrow> 'loc list \<Rightarrow> 'loc parsed_log_path list" where
  "parsed_files U as_url metas =
     List.map_filter (\<lambda>m. case try_from U as_url m of Inr po \<Rightarrow> listable po | Inl _ \<Rightarrow> None) metas"

abbreviation by_version :: "'loc parsed_log_path \<Rightarrow> 'loc parsed_log_path \<Rightarrow> bool" where
  "by_version f g \<equiv> version f \<le> version g"

lemma filter_map_ok_parsed:
  "filter_map_ok listable (map (\<lambda>m. rbind m (try_from U as_url)) (map Inr metas)) =
   map Inr (parsed_files U as_url metas)"
proof (induction metas)
  case (Cons m metas)
  obtain po where "try_from U as_url m = Inr po" using try_from_total [of U as_url m] by blast
  with Cons show ?case
    by (cases "listable po") (simp_all add: parsed_files_def List.map_filter_def)
qed (simp add: parsed_files_def List.map_filter_def)

lemma takeWhile_up_to:
  "sorted_wrt by_version fs \<Longrightarrow>
   takeWhile (up_to_version v) (map Inr fs) = map Inr (filter (\<lambda>f. version f \<le> v) fs)"
  by (induction fs) (fastforce simp: up_to_version_def filter_empty_conv)+

lemma list_from_storage_ok:
  assumes "url_join U log_root (format_u64 20 s) = Inr u" and "list_from u = Inr (map Inr metas)"
    and "sorted_wrt by_version (parsed_files U as_url metas)"
  shows "list_from_storage U as_url list_from log_root s e =
    Inr (map Inr (filter (\<lambda>f. version f \<le> e) (parsed_files U as_url metas)))"
  using assms by (simp only: list_from_storage_def rbind_simps filter_map_ok_parsed takeWhile_up_to)

subsection \<open>The result of a listing\<close>

lemma filter_from_cp:
  "sorted_wrt by_version ks \<Longrightarrow>
   filter (\<lambda>f. P f \<and> from_cp (Some v) f) ks =
   filter (\<lambda>f. P f \<and> version f = v) ks @ filter (\<lambda>f. P f \<and> after_cp (Some v) f) ks"
proof (induction ks)
  case (Cons k ks)
  have "filter (\<lambda>f. P f \<and> version f = v) ks = []" if "v < version k"
    using that Cons.prems by (auto simp: filter_empty_conv)
  with Cons show ?case by (auto simp: from_cp_def after_cp_def)
qed simp

lemma latest_cp_snoc_commit:
  assumes "is_commit t"
  shows "latest_cp ho (ks @ [t]) = latest_cp ho ks" "parts_at (ks @ [t]) v = parts_at ks v"
proof -
  have t: "\<not> is_checkpoint t" using assms by (simp add: is_commit_def is_checkpoint_def split: log_path_file_type.splits)
  then have "parts_at [t] w = []" for w by (simp add: parts_at_def)
  then show "parts_at (ks @ [t]) v = parts_at ks v" "latest_cp ho (ks @ [t]) = latest_cp ho ks"
    using t by (simp_all add: latest_cp_def)
qed

text \<open>What the result must be, given the files of storage, the tail and the checkpoint found.\<close>

definition listing_result ::
  "'loc hash_order \<Rightarrow> version option \<Rightarrow> 'loc parsed_log_path list \<Rightarrow> 'loc parsed_log_path list \<Rightarrow>
   'loc log_segment_files \<Rightarrow> bool" where
  "listing_result ho e ks ts out =
     (let cp = latest_cp ho ks in
      checkpoint_parts out = (case cp of None \<Rightarrow> [] | Some v \<Rightarrow> the (complete_checkpoint ho (parts_at ks v))) \<and>
      filter (after_cp cp) (ascending_commit_files out) = filter (\<lambda>f. is_commit f \<and> after_cp cp f) (ks @ ts) \<and>
      subseq (ascending_commit_files out) (filter is_commit (ks @ ts)) \<and>
      ascending_compaction_files out = filter (\<lambda>f. compaction_within e f \<and> after_cp cp f) ks \<and>
      latest_crc_file out = last_opt (filter (\<lambda>f. file_type f = Crc \<and> from_cp cp f) ks) \<and>
      latest_commit_file out = last_opt (filter (\<lambda>f. is_commit f \<and> from_cp cp f) (ks @ ts)))"

lemma subseq_filter_conj: "subseq (filter (\<lambda>f. P f \<and> Q f) xs) (filter P xs)"
  using subseq_filter_left [of Q "filter P xs"] by (simp add: conj_commute)

lemma finish_no_tail:
  assumes ho: "hash_order_ok ho" and inv: "listing_inv ho e mp ks st" and s: "sorted_wrt by_version ks"
  shows "listing_result ho e ks [] (finish_listing ho st)"
    and "max_published_version (finish_listing ho st) = mp"
proof -
  have fin: "finish_listing ho st =
    (case last_opt (filter (\<lambda>f. is_commit f \<and> after_cp (latest_cp ho ks) f) ks) of
       Some c \<Rightarrow> (spec_files ho e mp ks (latest_cp ho ks)) \<lparr> latest_commit_file := Some c \<rparr>
     | None \<Rightarrow> spec_files ho e mp ks (latest_cp ho ks))"
  proof (cases "ks = []")
    case True
    then show ?thesis using inv
      by (simp add: listing_inv_def finish_listing_def spec_acc_def spec_files_def latest_cp_def)
  next
    case False
    with inv obtain prev cur g where k: "\<forall>f \<in> set prev. version f < g" "\<forall>f \<in> set cur. version f = g"
        "ks = prev @ cur" "st = (spec_acc ho e mp ks (latest_cp ho prev) (parts_at ks g), Some g)"
      unfolding listing_inv_def if_not_P [OF False] by blast
    show ?thesis
      unfolding finish_listing_def k(4) Let_def snd_conv fst_conv option.case flush_spec [OF ho k(1-3)]
      by (auto simp: spec_acc_def spec_files_def split: option.splits)
  qed
  show "max_published_version (finish_listing ho st) = mp"
    unfolding fin by (simp add: spec_files_def split: option.splits)
  have "filter (\<lambda>f. is_commit f \<and> from_cp None f) ks = filter (\<lambda>f. is_commit f \<and> after_cp None f) ks"
    by (simp add: from_cp_def after_cp_def)
  then show "listing_result ho e ks [] (finish_listing ho st)"
    unfolding fin listing_result_def Let_def
    by (cases "latest_cp ho ks")
       (auto simp: spec_files_def filter_from_cp [OF s] last_opt_def conj_commute conj_left_commute
          subseq_filter_conj [of is_commit, simplified conj_commute] split: option.splits)
qed

lemma spec_acc_tail: "spec_acc ho e mp ks (latest_cp ho ks) [] = tail_state ho e mp ks []"
  by (simp add: spec_acc_def tail_state_def spec_files_def)

lemma enter_tail:
  assumes ho: "hash_order_ok ho" and inv: "listing_inv ho e mp ks st" and t: "is_commit t"
    and new: "ks = [] \<or> version t \<noteq> version (last ks)"
  shows "\<exists>gv. phase2_step ho st t = (tail_state ho e (published_max mp [t]) ks [t], gv)"
proof (cases "ks = []")
  case True
  then have "st = (spec_acc ho e mp [] (latest_cp ho []) [], None)"
    using inv by (simp add: listing_inv_def latest_cp_def)
  then show ?thesis
    using True process_commit_tail_state [OF t, of ho e "published_max mp [t]" "[]" "[]"]
    by (simp add: phase2_step_def track_published_tail_state add_file_def maybe_flush_and_advance_def
        spec_acc_tail del: published_max_simps(2))
next
  case False
  with inv obtain prev cur g where k: "\<forall>f \<in> set prev. version f < g" "\<forall>f \<in> set cur. version f = g"
      "ks = prev @ cur" "cur \<noteq> []" "st = (spec_acc ho e mp ks (latest_cp ho prev) (parts_at ks g), Some g)"
    unfolding listing_inv_def if_not_P [OF False] by blast
  then have "version t \<noteq> g" using new False by auto
  then show ?thesis
    using k(5) flush_spec [OF ho k(1-3), of e "published_max mp [t]"]
      process_commit_tail_state [OF t, of ho e "published_max mp [t]" ks "[]"]
    by (simp add: phase2_step_def track_published_spec add_file_def maybe_flush_and_advance_def
        spec_acc_tail del: published_max_simps(2))
qed

lemma from_cp_above:
  "\<forall>f \<in> set ks. version f \<le> version t \<Longrightarrow> from_cp (latest_cp ho ks) t"
  using latest_cp_SomeD(1) [of ho ks] by (fastforce simp: from_cp_def split: option.splits)

lemma finish_with_tail:
  assumes ho: "hash_order_ok ho" and inv: "listing_inv ho e mp ks st"
    and ts: "\<forall>t \<in> set ts. is_commit t" "ts \<noteq> []" and new: "ks = [] \<or> version (hd ts) \<noteq> version (last ks)"
    and cover: "\<forall>f \<in> set ks. version f \<le> version (last ts)"
  shows "listing_result ho e ks ts (finish_listing ho (foldl (phase2_step ho) st ts))"
    and "max_published_version (finish_listing ho (foldl (phase2_step ho) st ts)) = published_max mp ts"
proof -
  obtain t us where t: "ts = t # us" using ts(2) by (cases ts) auto
  obtain gv where "phase2_step ho st t = (tail_state ho e (published_max mp [t]) ks [t], gv)"
    using enter_tail [OF ho inv, of t] ts(1) new t by auto
  then have "fst (foldl (phase2_step ho) st ts) = tail_state ho e (published_max mp ts) ks ts"
    using phase2_tail_state [OF ho, of us e "published_max mp [t]" ks "[t]" gv] ts(1) t by simp
  then have fin: "finish_listing ho (foldl (phase2_step ho) st ts) =
    (spec_files ho e (published_max mp ts) ks (latest_cp ho ks))
      \<lparr> ascending_commit_files := filter (\<lambda>f. is_commit f \<and> after_cp (latest_cp ho ks) f) ks @ ts,
        latest_commit_file := Some (last ts) \<rparr>"
    using finish_tail_state [OF ho ts(2), of e "published_max mp ts" ks "snd (foldl (phase2_step ho) st ts)"]
    by (cases "foldl (phase2_step ho) st ts") (simp only: fst_conv snd_conv)
  show "max_published_version (finish_listing ho (foldl (phase2_step ho) st ts)) = published_max mp ts"
    unfolding fin by (simp add: spec_files_def)
  obtain bs l where "ts = bs @ [l]" using ts(2) by (cases ts rule: rev_cases) auto
  then have last: "last_opt (filter (\<lambda>f. is_commit f \<and> from_cp (latest_cp ho ks) f) (ks @ ts)) = Some (last ts)"
    using from_cp_above [OF cover, of ho] ts(1) by (simp add: last_opt_def)
  have "filter (after_cp (latest_cp ho ks)) ts = filter (\<lambda>f. is_commit f \<and> after_cp (latest_cp ho ks) f) ts"
    using ts(1) by (intro filter_cong) auto
  moreover have "subseq (filter (\<lambda>f. is_commit f \<and> after_cp (latest_cp ho ks) f) ks @ ts) (filter is_commit (ks @ ts))"
    using ts(1) subseq_filter_conj [of is_commit "after_cp (latest_cp ho ks)" ks]
    by (simp add: list_emb_append_mono filter_True)
  ultimately show "listing_result ho e ks ts (finish_listing ho (foldl (phase2_step ho) st ts))"
    unfolding fin listing_result_def Let_def last
    by (simp add: spec_files_def conj_commute conj_left_commute)
qed

lemma listing_result_shift:
  assumes "is_commit t"
  shows "listing_result ho e (ks @ [t]) us out = listing_result ho e ks (t # us) out"
proof -
  have "\<not> compaction_within e t" "file_type t \<noteq> Crc"
    using assms by (auto simp: is_commit_def compaction_within_def split: log_path_file_type.splits)
  then show ?thesis
    unfolding listing_result_def Let_def latest_cp_snoc_commit [OF assms] by simp
qed

lemma finish_listing_result:
  assumes ho: "hash_order_ok ho" and inv: "listing_inv ho e mp ks st" and s: "sorted_wrt by_version ks"
    and ts: "\<forall>t \<in> set ts. is_commit t" "sorted_wrt (\<lambda>f g. version f < version g) ts"
    and cover: "\<And>t. last_opt ts = Some t \<Longrightarrow> \<forall>f \<in> set ks. version f \<le> version t"
  shows "listing_result ho e ks ts (finish_listing ho (foldl (phase2_step ho) st ts)) \<and>
    max_published_version (finish_listing ho (foldl (phase2_step ho) st ts)) = published_max mp ts"
proof (cases ts)
  case Nil
  then show ?thesis using finish_no_tail [OF ho inv s] by simp
next
  case (Cons t us)
  have c: "\<forall>f \<in> set ks. version f \<le> version (last ts)" using cover Cons by (simp add: last_opt_def)
  show ?thesis
  proof (cases "ks = [] \<or> version t \<noteq> version (last ks)")
    case True
    then show ?thesis using finish_with_tail [OF ho inv ts(1) _ _ c] Cons by simp
  next
    case False
    have le: "\<forall>f \<in> set ks. version f \<le> version t"
    proof
      fix f assume f: "f \<in> set ks"
      obtain bs l where "ks = bs @ [l]" using False by (cases ks rule: rev_cases) auto
      with f s False show "version f \<le> version t" by (auto simp: sorted_wrt_append)
    qed
    have t: "is_commit t" using ts(1) Cons by simp
    have inv': "listing_inv ho e (published_max mp [t]) (ks @ [t]) (phase2_step ho st t)"
      using add_file_inv [OF ho track_published_inv [OF inv, of t] le] by (simp add: phase2_step_def)
    have s': "sorted_wrt by_version (ks @ [t])" using s le by (simp add: sorted_wrt_append)
    show ?thesis
    proof (cases "us = []")
      case True
      then show ?thesis
        using finish_no_tail [OF ho inv' s'] Cons listing_result_shift [OF t, of ho e ks us] by simp
    next
      case ne: False
      have lt: "version t < version (hd us)" "version t < version (last us)" using ts(2) Cons ne by auto
      moreover have "\<forall>f \<in> set (ks @ [t]). version f \<le> version (last us)" using c Cons ne lt by auto
      ultimately show ?thesis
        using finish_with_tail [OF ho inv', of us] ts(1) Cons ne listing_result_shift [OF t, of ho e ks us] by simp
    qed
  qed
qed

text \<open>The files of storage in range, those the tail does not replace, and the tail in range.\<close>

definition range_start :: "version option \<Rightarrow> version" where
  "range_start s = (case s of Some v \<Rightarrow> v | None \<Rightarrow> 0)"

definition range_end :: "version option \<Rightarrow> version" where
  "range_end e = (case e of Some v \<Rightarrow> v | None \<Rightarrow> - 1)"

definition storage_files ::
  "'url url_ops \<Rightarrow> ('loc \<Rightarrow> 'url) \<Rightarrow> 'loc list \<Rightarrow> version option \<Rightarrow> 'loc parsed_log_path list" where
  "storage_files U as_url metas e = filter (\<lambda>f. version f \<le> range_end e) (parsed_files U as_url metas)"

definition kept_files :: "'loc parsed_log_path list \<Rightarrow> 'loc parsed_log_path list \<Rightarrow> 'loc parsed_log_path list" where
  "kept_files log_tail fs = filter (\<lambda>f. \<not> covered_by_tail (map_option version (first_opt log_tail)) f) fs"

definition tail_files :: "'loc parsed_log_path list \<Rightarrow> version option \<Rightarrow> version option \<Rightarrow> 'loc parsed_log_path list" where
  "tail_files log_tail s e = filter (\<lambda>t. range_start s \<le> version t \<and> version t \<le> range_end e) log_tail"

lemma list_log_all:
  assumes ho: "hash_order_ok ho"
    and join: "url_join U log_root (format_u64 20 (range_start start_version)) = Inr u"
    and files: "list_from u = Inr (map Inr metas)"
    and sorted: "sorted_wrt by_version (parsed_files U as_url metas)"
    and tail: "\<forall>t \<in> set log_tail. is_commit t" "sorted_wrt (\<lambda>f g. version f < version g) log_tail"
    and cover: "\<forall>t. last_opt (tail_files log_tail start_version end_version) = Some t \<longrightarrow>
      (\<forall>f \<in> set (kept_files log_tail (storage_files U as_url metas end_version)). version f \<le> version t)"
  shows "\<exists>out. list_log ho U as_url list_from log_root log_tail start_version end_version = Inr out \<and>
           listing_result ho end_version (kept_files log_tail (storage_files U as_url metas end_version))
             (tail_files log_tail start_version end_version) out \<and>
           max_published_version out = published_max None (storage_files U as_url metas end_version @
             tail_files log_tail start_version end_version)"
proof -
  define fs where fs: "fs = storage_files U as_url metas end_version"
  define ks where ks: "ks = kept_files log_tail fs"
  define ts where ts: "ts = tail_files log_tail start_version end_version"
  let ?ts = "map_option version (first_opt log_tail)"
  let ?init = "(\<lparr> acc_output = log_segment_files_default, new_checkpoint_parts = [],
                  acc_end_version = end_version \<rparr>, None)"
  have "listing_inv ho end_version None [] ?init"
    by (simp add: listing_inv_def spec_acc_def spec_files_def log_segment_files_default_def)
  moreover have s: "sorted_wrt by_version ks"
    using sorted by (simp add: ks fs kept_files_def storage_files_def list_simps)
  ultimately have inv: "listing_inv ho end_version (published_max None fs) ks (foldl (phase1_step ho ?ts) ?init fs)"
    using phase1_inv [OF ho, of end_version None "[]" ?init ?ts fs] by (simp add: ks kept_files_def)
  have t: "\<forall>t \<in> set ts. is_commit t" "sorted_wrt (\<lambda>f g. version f < version g) ts"
    using tail by (simp_all add: ts tail_files_def list_simps)
  have "list_log ho U as_url list_from log_root log_tail start_version end_version =
      Inr (finish_listing ho (foldl (phase2_step ho) (foldl (phase1_step ho ?ts) ?init fs) ts))"
    using list_from_storage_ok [where list_from = list_from and U = U and as_url = as_url
        and e = "range_end end_version", OF join files sorted]
    by (simp add: list_log_def Let_def list_phase1_ok fs ts storage_files_def tail_files_def
        range_start_def [symmetric] range_end_def [symmetric])
  with finish_listing_result [OF ho inv s t] cover show ?thesis by (simp add: fs ks ts)
qed



subsection \<open>Listing commits, and errors of storage\<close>

lemma list_commits_loop_ok:
  "list_commits_loop cs mp (map Inr fs) =
   Inr (cs @ filter (\<lambda>f. file_type f = Commit) fs, published_max mp fs)"
  by (induction fs arbitrary: cs mp) simp_all

lemma list_commits_ok:
  assumes "url_join U log_root (format_u64 20 (range_start s)) = Inr u"
    and "list_from u = Inr (map Inr metas)" and "sorted_wrt by_version (parsed_files U as_url metas)"
  shows "list_commits U as_url list_from log_root s e =
    Inr (log_segment_files_default
      \<lparr> ascending_commit_files := filter (\<lambda>f. file_type f = Commit) (storage_files U as_url metas e),
        latest_commit_file := last_opt (filter (\<lambda>f. file_type f = Commit) (storage_files U as_url metas e)),
        max_published_version := published_max None (storage_files U as_url metas e) \<rparr>)"
  using list_from_storage_ok [where list_from = list_from and U = U and as_url = as_url
      and e = "range_end e", OF assms]
  by (simp add: list_commits_def Let_def list_commits_loop_ok storage_files_def
      range_start_def [symmetric] range_end_def [symmetric])

lemma filter_map_ok_append: "filter_map_ok f (xs @ ys) = filter_map_ok f xs @ filter_map_ok f ys"
  by (induction f xs rule: filter_map_ok.induct) (auto split: option.splits)

lemma list_from_storage_error:
  assumes "url_join U log_root (format_u64 20 s) = Inr u" and "list_from u = Inr (map Inr metas @ Inl x # rs)"
    and "\<forall>f \<in> set (parsed_files U as_url metas). version f \<le> e"
  shows "\<exists>rs'. list_from_storage U as_url list_from log_root s e =
    Inr (map Inr (parsed_files U as_url metas) @ Inl x # rs')"
proof -
  have "takeWhile (up_to_version e) (map Inr fs @ Inl x # ys) = map Inr fs @ Inl x # takeWhile (up_to_version e) ys"
    if "\<forall>f \<in> set fs. version f \<le> e" for fs :: "'b parsed_log_path list" and ys
    using that by (induction fs) (simp_all add: up_to_version_def)
  from this [OF assms(3)] show ?thesis
    using assms(1,2) filter_map_ok_parsed [of U as_url metas]
    by (simp add: list_from_storage_def filter_map_ok_append comp_def)
qed

lemma list_phase1_error: "list_phase1 ho tail_start st (map Inr fs @ Inl x # rs) = Inl x"
  by (induction fs arbitrary: st) simp_all

lemma list_commits_loop_error: "list_commits_loop cs mp (map Inr fs @ Inl x # rs) = Inl x"
  by (induction fs arbitrary: cs mp) simp_all

text \<open>
  An error that the storage handler reports within the requested range ends the listing
  with that error: neither \<open>list\<close> nor \<open>list_commits\<close> returns a partial listing.
\<close>

theorem listing_storage_error:
  assumes join: "url_join U log_root (format_u64 20 (range_start start_version)) = Inr u"
    and files: "list_from u = Inr (map Inr metas @ Inl x # rs)"
    and range: "\<forall>f \<in> set (parsed_files U as_url metas). version f \<le> range_end end_version"
  shows "list_log ho U as_url list_from log_root log_tail start_version end_version = Inl x \<and>
         list_commits U as_url list_from log_root start_version end_version = Inl x"
proof -
  obtain rs' where "list_from_storage U as_url list_from log_root (range_start start_version) (range_end end_version) =
      Inr (map Inr (parsed_files U as_url metas) @ Inl x # rs')"
    using list_from_storage_error [where list_from = list_from, OF join files range] by blast
  then show ?thesis
    by (simp add: list_log_def list_commits_def Let_def list_phase1_error list_commits_loop_error
        range_start_def [symmetric] range_end_def [symmetric])
qed

theorem listing_storage_error_witness:
  "list_log id list_url_ops id (\<lambda>_. Inr [Inl (IOError ''disk'')]) [DELTA_LOG_DIR, ''''] [] None None = Inl (IOError ''disk'') \<and>
   list_commits list_url_ops id (\<lambda>_. Inr [Inl (IOError ''disk'')]) [DELTA_LOG_DIR, ''''] None None = Inl (IOError ''disk'')"
  by (rule listing_storage_error [where u = "[DELTA_LOG_DIR, format_u64 20 0]" and metas = "[]" and rs = "[]"])
     (simp_all add: list_url_ops_def range_start_def split_on_no_sep parsed_files_def List.map_filter_def)

end
