(* ===== verification/LogSegment.thy ===== *)
theory LogSegment
  imports LogListing
begin

text \<open>
  \<open>kernel/src/log_segment.rs\<close> and \<open>kernel/src/committer/publish_types.rs\<close>: a log segment is a
  contiguous section of the log (zero or one checkpoint and the commits after it) that has been
  validated. The theory models its construction for snapshots, for table changes and for
  timestamp conversion, the extension by a commit, the pruning around a checksum file, the
  choice of the files that cover the commits, and the catalog commits still to be published.
\<close>

section \<open>Model\<close>

record ('url, 'loc, 'schema) log_segment =
  end_version :: version
  checkpoint_version :: "version option"
  segment_log_root :: 'url
  checkpoint_schema :: "'schema option"
  listed :: "'loc log_segment_files"

definition for_pre_commit :: "'url \<Rightarrow> ('url, 'loc, 'schema) log_segment" where
  "for_pre_commit log_root =
     \<lparr> end_version = PRE_COMMIT_VERSION, checkpoint_version = None, segment_log_root = log_root,
       checkpoint_schema = None, listed = log_segment_files_default \<rparr>"

subsection \<open>Validation\<close>

fun validate_compaction_files :: "'loc parsed_log_path list \<Rightarrow> unit delta_result" where
  "validate_compaction_files [] = Inr ()"
| "validate_compaction_files (f # rest) =
     (case file_type f of
        CompactedCommit h \<Rightarrow>
          if h < version f then Inl (Generic ''compaction file has start version > end version'')
          else
            (case rest of
               next_f # _ \<Rightarrow>
                 (case file_type next_f of
                    CompactedCommit next_hi \<Rightarrow>
                      if version f < version next_f \<or> (version f = version next_f \<and> h \<le> next_hi)
                      then validate_compaction_files rest
                      else Inl (Generic ''ascending_compaction_files is not sorted'')
                  | _ \<Rightarrow> validate_compaction_files rest)
             | [] \<Rightarrow> Inr ())
      | _ \<Rightarrow> Inl (Generic ''ascending_compaction_files contains non-compaction file''))"

fun validate_parts_loop :: "nat \<Rightarrow> version \<Rightarrow> 'loc parsed_log_path list \<Rightarrow> unit delta_result" where
  "validate_parts_loop n first_version [] = Inr ()"
| "validate_parts_loop n first_version (p # ps) =
     (if \<not> is_checkpoint p then Inl (Generic ''checkpoint_parts contains non-checkpoint file'')
      else if version p \<noteq> first_version
      then Inl (Generic ''multi-part checkpoint parts have different versions'')
      else
        (case file_type p of
           MultiPartCheckpoint _ m \<Rightarrow>
             if unat m = n then validate_parts_loop n first_version ps
             else Inl (Generic ''multi-part checkpoint part count mismatch'')
         | _ \<Rightarrow>
             if 1 < n then Inl (Generic ''multi-part checkpoint part count mismatch'')
             else validate_parts_loop n first_version ps))"

definition validate_checkpoint_parts :: "'loc parsed_log_path list \<Rightarrow> unit delta_result" where
  "validate_checkpoint_parts parts =
     (case parts of [] \<Rightarrow> Inr () | p # _ \<Rightarrow> validate_parts_loop (length parts) (version p) parts)"

fun validate_commit_file_types :: "'loc parsed_log_path list \<Rightarrow> unit delta_result" where
  "validate_commit_file_types [] = Inr ()"
| "validate_commit_file_types (f # fs) =
     (if is_commit f then validate_commit_file_types fs
      else Inl (Generic ''ascending_commit_files contains non-commit file''))"

fun validate_commit_files_contiguous :: "'loc parsed_log_path list \<Rightarrow> unit delta_result" where
  "validate_commit_files_contiguous (a # b # rest) =
     (if version a + 1 \<noteq> version b
      then Inl (Generic ''Expected contiguous commit files, but found gap'')
      else validate_commit_files_contiguous (b # rest))"
| "validate_commit_files_contiguous _ = Inr ()"

definition validate_checkpoint_commit_gap ::
  "version option \<Rightarrow> 'loc parsed_log_path list \<Rightarrow> unit delta_result" where
  "validate_checkpoint_commit_gap cp commits =
     (case (cp, first_opt commits) of
        (Some v, Some first_commit) \<Rightarrow>
          require (v + 1 = version first_commit) (InvalidCheckpoint ''Gap between checkpoint version and next commit'')
      | _ \<Rightarrow> Inr ())"

definition validate_end_version ::
  "'loc parsed_log_path list \<Rightarrow> 'loc parsed_log_path list \<Rightarrow> version option \<Rightarrow> version delta_result" where
  "validate_end_version commits parts end_v =
     rbind (ok_or (case last_opt commits of Some c \<Rightarrow> Some c | None \<Rightarrow> first_opt parts)
              (Generic ''No files in log segment'')) (\<lambda>f.
     case end_v of
       Some e \<Rightarrow> rbind (require (version f = e)
                   (Generic ''LogSegment end version not the same as the specified end version'')) (\<lambda>_. Inr (version f))
     | None \<Rightarrow> Inr (version f))"

subsection \<open>Construction\<close>

definition try_new ::
  "'loc log_segment_files \<Rightarrow> 'url \<Rightarrow> version option \<Rightarrow> 'schema option \<Rightarrow>
   ('url, 'loc, 'schema) log_segment delta_result" where
  "try_new listed_files log_root end_v schema =
     rbind (validate_compaction_files (ascending_compaction_files listed_files)) (\<lambda>_.
     rbind (validate_checkpoint_parts (checkpoint_parts listed_files)) (\<lambda>_.
     rbind (validate_commit_file_types (ascending_commit_files listed_files)) (\<lambda>_.
     rbind (validate_commit_files_contiguous (ascending_commit_files listed_files)) (\<lambda>_.
     let cp = map_option version (first_opt (checkpoint_parts listed_files));
         listed_files =
           (case cp of
              Some v \<Rightarrow> listed_files \<lparr> ascending_commit_files :=
                          filter (\<lambda>p. v < version p) (ascending_commit_files listed_files) \<rparr>
            | None \<Rightarrow> listed_files) in
     rbind (validate_checkpoint_commit_gap cp (ascending_commit_files listed_files)) (\<lambda>_.
     rbind (validate_end_version (ascending_commit_files listed_files) (checkpoint_parts listed_files) end_v)
       (\<lambda>effective_version.
     Inr \<lparr> end_version = effective_version, checkpoint_version = cp, segment_log_root = log_root,
           checkpoint_schema = schema, listed = listed_files \<rparr>))))))"

definition for_snapshot_impl ::
  "'loc hash_order \<Rightarrow> 'url url_ops \<Rightarrow> ('loc \<Rightarrow> 'url) \<Rightarrow> ('url, 'loc) list_from \<Rightarrow> 'url \<Rightarrow>
   'loc parsed_log_path list \<Rightarrow> 'schema last_checkpoint_hint option \<Rightarrow> version option \<Rightarrow>
   ('url, 'loc, 'schema) log_segment delta_result" where
  "for_snapshot_impl ho U as_url list_from log_root log_tail checkpoint_hint time_travel_version =
     (let schema = (case checkpoint_hint of Some h \<Rightarrow> hint_checkpoint_schema h | None \<Rightarrow> None) in
      rbind
        (case checkpoint_hint of
           Some cp \<Rightarrow>
             (case time_travel_version of
                None \<Rightarrow> list_with_checkpoint_hint ho U as_url list_from cp log_root log_tail None
              | Some e \<Rightarrow>
                  if hint_version cp \<le> e
                  then list_with_checkpoint_hint ho U as_url list_from cp log_root log_tail (Some e)
                  else list_log ho U as_url list_from log_root log_tail None time_travel_version)
         | None \<Rightarrow> list_log ho U as_url list_from log_root log_tail None time_travel_version)
        (\<lambda>listed_files. try_new listed_files log_root time_travel_version schema))"

text \<open>\<open>for_snapshot\<close> reads the hint first; the metrics it reports do not affect its result.\<close>

definition for_snapshot ::
  "'loc hash_order \<Rightarrow> 'url url_ops \<Rightarrow> ('loc \<Rightarrow> 'url) \<Rightarrow> ('url, 'loc) list_from \<Rightarrow>
   ('url \<Rightarrow> 'bytes delta_result list delta_result) \<Rightarrow> ('bytes \<Rightarrow> 'schema last_checkpoint_hint delta_result) \<Rightarrow>
   'url \<Rightarrow> 'loc parsed_log_path list \<Rightarrow> version option \<Rightarrow> ('url, 'loc, 'schema) log_segment delta_result" where
  "for_snapshot ho U as_url list_from read_files from_slice log_root log_tail time_travel_version =
     rbind (try_read U read_files from_slice log_root) (\<lambda>checkpoint_hint.
     for_snapshot_impl ho U as_url list_from log_root log_tail checkpoint_hint time_travel_version)"

definition for_table_changes ::
  "'url url_ops \<Rightarrow> ('loc \<Rightarrow> 'url) \<Rightarrow> ('url, 'loc) list_from \<Rightarrow> 'url \<Rightarrow> version \<Rightarrow> version option \<Rightarrow>
   ('url, 'loc, 'schema) log_segment delta_result" where
  "for_table_changes U as_url list_from log_root start_version end_v =
     (if (case end_v of Some e \<Rightarrow> e < start_version | None \<Rightarrow> False)
      then Inl (Generic ''Failed to build LogSegment: start_version cannot be greater than end_version'')
      else
        rbind (list_commits U as_url list_from log_root (Some start_version) end_v) (\<lambda>listed_files.
        rbind (require (case first_opt (ascending_commit_files listed_files) of
                          Some c \<Rightarrow> version c = start_version | None \<Rightarrow> False)
                 (Generic ''Expected the first commit to have the start version'')) (\<lambda>_.
        try_new listed_files log_root end_v None)))"

text \<open>The loop that walks back over contiguous commits.\<close>

fun contiguous_start :: "'loc parsed_log_path list \<Rightarrow> nat \<Rightarrow> nat" where
  "contiguous_start commits 0 = 0"
| "contiguous_start commits (Suc i) =
     (if version (commits ! Suc i) = 1 + version (commits ! i)
      then contiguous_start commits i else Suc i)"

definition remove_gaps :: "'loc parsed_log_path list \<Rightarrow> 'loc parsed_log_path list" where
  "remove_gaps commits =
     (if commits = [] then [] else drop (contiguous_start commits (length commits - 1)) commits)"

text \<open>
  \<open>limit\<close> is a \<open>NonZero<usize>\<close>; on a 64-bit target its conversion to \<open>NonZero<u64>\<close> always
  succeeds, so it is a (nonzero) \<open>u64\<close> here.
\<close>

definition for_timestamp_conversion ::
  "'url url_ops \<Rightarrow> ('loc \<Rightarrow> 'url) \<Rightarrow> ('url, 'loc) list_from \<Rightarrow> 'url \<Rightarrow> version \<Rightarrow> u64 option \<Rightarrow>
   ('url, 'loc, 'schema) log_segment delta_result" where
  "for_timestamp_conversion U as_url list_from log_root end_v limit =
     (let start_from = map_option (\<lambda>l. saturating_sub end_v (l - 1)) limit in
      rbind (list_commits U as_url list_from log_root start_from (Some end_v)) (\<lambda>listed_commits.
      try_new (listed_commits \<lparr> ascending_commit_files :=
                 remove_gaps (ascending_commit_files listed_commits) \<rparr>) log_root (Some end_v) None))"

subsection \<open>Extension and publication\<close>

definition new_with_commit_appended ::
  "('url, 'loc, 'schema) log_segment \<Rightarrow> 'loc parsed_log_path \<Rightarrow> ('url, 'loc, 'schema) log_segment delta_result" where
  "new_with_commit_appended seg tail_commit_file =
     rbind (require (is_commit tail_commit_file)
              (InternalError ''Cannot extend and create new LogSegment. Tail log file is not a commit file.'')) (\<lambda>_.
     rbind (require (version tail_commit_file = end_version seg + 1)
              (InternalError ''Cannot extend and create new LogSegment. Tail commit file version does not equal LogSegment end_version + 1.'')) (\<lambda>_.
     Inr (seg \<lparr> end_version := version tail_commit_file,
           listed := (listed seg)
             \<lparr> ascending_commit_files := ascending_commit_files (listed seg) @ [tail_commit_file],
               latest_commit_file := Some tail_commit_file,
               max_published_version :=
                 (case file_type tail_commit_file of
                    Commit \<Rightarrow> Some (version tail_commit_file)
                  | _ \<Rightarrow> max_published_version (listed seg)) \<rparr> \<rparr>)))"

definition new_as_published ::
  "('url, 'loc, 'schema) log_segment \<Rightarrow> ('url, 'loc, 'schema) log_segment delta_result" where
  "new_as_published seg =
     Inr (seg \<lparr> listed := (listed seg) \<lparr> max_published_version := Some (end_version seg) \<rparr> \<rparr>)"

definition validate_published :: "('url, 'loc, 'schema) log_segment \<Rightarrow> unit delta_result" where
  "validate_published seg =
     require (case max_published_version (listed seg) of Some v \<Rightarrow> v = end_version seg | None \<Rightarrow> False)
       (Generic ''Log segment is not published'')"

record 'url catalog_commit =
  cc_version :: version
  cc_location :: 'url
  cc_published_location :: 'url

definition catalog_commit_try_new ::
  "'url url_ops \<Rightarrow> ('loc \<Rightarrow> 'url) \<Rightarrow> 'url \<Rightarrow> 'loc parsed_log_path \<Rightarrow> 'url catalog_commit delta_result" where
  "catalog_commit_try_new U as_url log_root f =
     rbind (require (file_type f = StagedCommit)
              (Generic ''Cannot construct CatalogCommit. Expected a StagedCommit'')) (\<lambda>_.
     rbind (url_join U log_root (format_u64 20 (version f) @ ''.json'')) (\<lambda>published.
     Inr \<lparr> cc_version = version f, cc_location = as_url (location f), cc_published_location = published \<rparr>))"

definition get_unpublished_catalog_commits ::
  "'url url_ops \<Rightarrow> ('loc \<Rightarrow> 'url) \<Rightarrow> ('url, 'loc, 'schema) log_segment \<Rightarrow> 'url catalog_commit list delta_result" where
  "get_unpublished_catalog_commits U as_url seg =
     collect_results
       (map (catalog_commit_try_new U as_url (segment_log_root seg))
          (filter (\<lambda>f. case max_published_version (listed seg) of None \<Rightarrow> True | Some v \<Rightarrow> v < version f)
             (filter (\<lambda>f. file_type f = StagedCommit) (ascending_commit_files (listed seg)))))"

record 'url publish_metadata =
  publish_to_version :: version
  commits_to_publish :: "'url catalog_commit list"

fun catalog_contiguous :: "'url catalog_commit list \<Rightarrow> bool" where
  "catalog_contiguous (a # b # rest) = (cc_version a + 1 = cc_version b \<and> catalog_contiguous (b # rest))"
| "catalog_contiguous _ = True"

definition publish_metadata_try_new ::
  "version \<Rightarrow> 'url catalog_commit list \<Rightarrow> 'url publish_metadata delta_result" where
  "publish_metadata_try_new v commits =
     rbind (require (catalog_contiguous commits) (Generic ''Catalog commits must be contiguous'')) (\<lambda>_.
     rbind (case last_opt commits of
              Some c \<Rightarrow> if cc_version c = v then Inr ()
                        else Inl (Generic ''Catalog commits must end with snapshot version'')
            | None \<Rightarrow> Inl (Generic ''Catalog commits are empty'')) (\<lambda>_.
     Inr \<lparr> publish_to_version = v, commits_to_publish = commits \<rparr>))"

subsection \<open>Covering the commits\<close>

text \<open>\<open>itertools::merge_by\<close>: the left head goes first when the predicate holds of the two heads.\<close>

fun merge_by :: "('a \<Rightarrow> 'a \<Rightarrow> bool) \<Rightarrow> 'a list \<Rightarrow> 'a list \<Rightarrow> 'a list" where
  "merge_by is_first [] ys = ys"
| "merge_by is_first xs [] = xs"
| "merge_by is_first (x # xs) (y # ys) =
     (if is_first x y then x # merge_by is_first xs (y # ys) else y # merge_by is_first (x # xs) ys)"

definition cover_step ::
  "'loc parsed_log_path option \<times> 'loc list \<Rightarrow> 'loc parsed_log_path \<Rightarrow> 'loc parsed_log_path option \<times> 'loc list" where
  "cover_step st next_f =
     (case st of (last_pushed, selected_files) \<Rightarrow>
        (case last_pushed of
           None \<Rightarrow> (Some next_f, selected_files @ [location next_f])
         | Some prev \<Rightarrow>
             if version prev = version next_f then (Some next_f, butlast selected_files @ [location next_f])
             else
               (case file_type prev of
                  CompactedCommit h \<Rightarrow>
                    if version next_f \<le> h then st
                    else (Some next_f, selected_files @ [location next_f])
                | _ \<Rightarrow> (Some next_f, selected_files @ [location next_f]))))"

definition find_commit_cover :: "('url, 'loc, 'schema) log_segment \<Rightarrow> 'loc list" where
  "find_commit_cover seg =
     (let all_files = merge_by (\<lambda>a b. version a \<le> version b)
                        (ascending_commit_files (listed seg)) (ascending_compaction_files (listed seg)) in
      rev (snd (foldl cover_step (None, []) all_files)))"

subsection \<open>Pruning around a checksum file, and counts\<close>

definition filtered_commits_and_compactions ::
  "('url, 'loc, 'schema) log_segment \<Rightarrow> version option \<Rightarrow> version \<Rightarrow>
   'loc parsed_log_path list \<times> 'loc parsed_log_path list" where
  "filtered_commits_and_compactions seg lo_exclusive hi_inclusive =
     (let above_lo = (\<lambda>v. case lo_exclusive of None \<Rightarrow> True | Some lo \<Rightarrow> lo < v) in
      (filter (\<lambda>c. above_lo (version c) \<and> version c \<le> hi_inclusive) (ascending_commit_files (listed seg)),
       filter (\<lambda>c. case file_type c of
                     CompactedCommit h \<Rightarrow> above_lo (version c) \<and> h \<le> hi_inclusive | _ \<Rightarrow> False)
         (ascending_compaction_files (listed seg))))"

definition segment_after_crc ::
  "('url, 'loc, 'schema) log_segment \<Rightarrow> version \<Rightarrow> ('url, 'loc, 'schema) log_segment" where
  "segment_after_crc seg start_v_exclusive =
     (case filtered_commits_and_compactions seg (Some start_v_exclusive) (end_version seg) of
        (commits, compactions) \<Rightarrow>
          \<lparr> end_version = end_version seg, checkpoint_version = None,
            segment_log_root = segment_log_root seg, checkpoint_schema = None,
            listed = \<lparr> ascending_commit_files = commits, ascending_compaction_files = compactions,
                       checkpoint_parts = [], latest_crc_file = None, latest_commit_file = None,
                       max_published_version = None \<rparr> \<rparr>)"

definition segment_through_crc ::
  "('url, 'loc, 'schema) log_segment \<Rightarrow> version \<Rightarrow> ('url, 'loc, 'schema) log_segment" where
  "segment_through_crc seg end_v_inclusive =
     (case filtered_commits_and_compactions seg (checkpoint_version seg) end_v_inclusive of
        (commits, compactions) \<Rightarrow>
          \<lparr> end_version = end_version seg, checkpoint_version = checkpoint_version seg,
            segment_log_root = segment_log_root seg, checkpoint_schema = checkpoint_schema seg,
            listed = \<lparr> ascending_commit_files = commits, ascending_compaction_files = compactions,
                       checkpoint_parts = checkpoint_parts (listed seg), latest_crc_file = None,
                       latest_commit_file = None, max_published_version = None \<rparr> \<rparr>)"

definition commits_since_checkpoint :: "('url, 'loc, 'schema) log_segment \<Rightarrow> u64" where
  "commits_since_checkpoint seg =
     (if end_version seg = PRE_COMMIT_VERSION then 0
      else end_version seg - (case checkpoint_version seg of Some v \<Rightarrow> v | None \<Rightarrow> 0))"

definition commits_since_log_compaction_or_checkpoint :: "('url, 'loc, 'schema) log_segment \<Rightarrow> u64" where
  "commits_since_log_compaction_or_checkpoint seg =
     (if end_version seg = PRE_COMMIT_VERSION then 0
      else
        (let max_compaction_end =
               foldl (\<lambda>cur f. case file_type f of CompactedCommit h \<Rightarrow> max cur h | _ \<Rightarrow> cur) 0
                 (ascending_compaction_files (listed seg));
             to_sub = max (case checkpoint_version seg of Some v \<Rightarrow> v | None \<Rightarrow> 0) max_compaction_end in
         end_version seg - to_sub))"

section \<open>What validation accepts\<close>

definition contiguous :: "'loc parsed_log_path list \<Rightarrow> bool" where
  "contiguous fs = (\<forall>i. Suc i < length fs \<longrightarrow> version (fs ! Suc i) = version (fs ! i) + 1)"

definition hi_version :: "'loc parsed_log_path \<Rightarrow> version" where
  "hi_version f = (case file_type f of CompactedCommit h \<Rightarrow> h | _ \<Rightarrow> version f)"

definition is_compaction :: "'loc parsed_log_path \<Rightarrow> bool" where
  "is_compaction f = (case file_type f of CompactedCommit _ \<Rightarrow> True | _ \<Rightarrow> False)"

definition before_compaction :: "'loc parsed_log_path \<Rightarrow> 'loc parsed_log_path \<Rightarrow> bool" where
  "before_compaction f g =
     (version f < version g \<or> (version f = version g \<and> hi_version f \<le> hi_version g))"

definition valid_compactions :: "'loc parsed_log_path list \<Rightarrow> bool" where
  "valid_compactions cs =
     ((\<forall>f \<in> set cs. is_compaction f \<and> version f \<le> hi_version f) \<and> sorted_wrt before_compaction cs)"

definition valid_checkpoint_parts :: "'loc parsed_log_path list \<Rightarrow> bool" where
  "valid_checkpoint_parts ps =
     (\<forall>p \<in> set ps. is_checkpoint p \<and> version p = version (hd ps) \<and>
        (case file_type p of MultiPartCheckpoint _ m \<Rightarrow> unat m = length ps | _ \<Rightarrow> length ps = 1))"

lemma before_compaction_trans: "transp before_compaction"
  by (rule transpI) (auto simp: before_compaction_def)

lemma validate_compaction_files_iff:
  "validate_compaction_files cs = Inr () \<longleftrightarrow> valid_compactions cs"
proof (induction cs rule: validate_compaction_files.induct)
  case (2 f rest)
  show ?case
  proof (cases rest)
    case Nil
    then show ?thesis
      by (auto simp: valid_compactions_def is_compaction_def hi_version_def not_less
          split: log_path_file_type.splits)
  next
    case (Cons g gs)
    have step: "valid_compactions (f # g # gs) \<longleftrightarrow>
        is_compaction f \<and> version f \<le> hi_version f \<and> before_compaction f g \<and> valid_compactions (g # gs)"
      using before_compaction_trans
      by (auto simp: valid_compactions_def dest: transpD)
    show ?thesis
    proof (cases "is_compaction g")
      case True
      then obtain h where "file_type g = CompactedCommit h"
        by (auto simp: is_compaction_def split: log_path_file_type.splits)
      with 2 Cons show ?thesis
        unfolding Cons step
        by (auto simp: is_compaction_def hi_version_def before_compaction_def not_less
            split: log_path_file_type.splits if_splits)
    next
      case False
      then have "validate_compaction_files rest \<noteq> Inr ()"
        using Cons by (auto simp: is_compaction_def split: log_path_file_type.splits)
      with False Cons show ?thesis
        unfolding Cons step
        by (auto simp: is_compaction_def valid_compactions_def split: log_path_file_type.splits)
    qed
  qed
qed (simp add: valid_compactions_def)

lemma validate_parts_loop_iff:
  "0 < n \<Longrightarrow> validate_parts_loop n v ps = Inr () \<longleftrightarrow>
   (\<forall>p \<in> set ps. is_checkpoint p \<and> version p = v \<and>
      (case file_type p of MultiPartCheckpoint _ m \<Rightarrow> unat m = n | _ \<Rightarrow> n = 1))"
  by (induction n v ps rule: validate_parts_loop.induct) (auto split: log_path_file_type.splits)

lemma validate_checkpoint_parts_iff:
  "validate_checkpoint_parts ps = Inr () \<longleftrightarrow> valid_checkpoint_parts ps"
proof (cases ps)
  case (Cons p qs)
  show ?thesis
    unfolding validate_checkpoint_parts_def valid_checkpoint_parts_def Cons list.case list.sel
    by (rule validate_parts_loop_iff) simp
qed (simp add: validate_checkpoint_parts_def valid_checkpoint_parts_def)

lemma validate_commit_file_types_iff:
  "validate_commit_file_types fs = Inr () \<longleftrightarrow> (\<forall>f \<in> set fs. is_commit f)"
  by (induction fs) simp_all

lemma contiguous_Cons: "contiguous (a # b # fs) \<longleftrightarrow> version b = version a + 1 \<and> contiguous (b # fs)"
  unfolding contiguous_def
  by (auto simp: nth_Cons split: nat.splits)

lemma validate_commit_files_contiguous_iff:
  "validate_commit_files_contiguous fs = Inr () \<longleftrightarrow> contiguous fs"
proof (induction fs rule: validate_commit_files_contiguous.induct)
  case (1 a b rest)
  then show ?case by (auto simp: contiguous_Cons)
qed (simp_all add: contiguous_def)

text \<open>The commits after the checkpoint, and the version the segment ends at.\<close>

definition retained_commits :: "'loc log_segment_files \<Rightarrow> 'loc parsed_log_path list" where
  "retained_commits l =
     filter (after_cp (map_option version (first_opt (checkpoint_parts l)))) (ascending_commit_files l)"

definition effective_version :: "'loc log_segment_files \<Rightarrow> version option" where
  "effective_version l =
     map_option version (case last_opt (retained_commits l) of Some c \<Rightarrow> Some c | None \<Rightarrow> first_opt (checkpoint_parts l))"

definition valid_listing :: "'loc log_segment_files \<Rightarrow> version option \<Rightarrow> bool" where
  "valid_listing l e =
     (valid_compactions (ascending_compaction_files l) \<and> valid_checkpoint_parts (checkpoint_parts l) \<and>
      (\<forall>f \<in> set (ascending_commit_files l). is_commit f) \<and> contiguous (ascending_commit_files l) \<and>
      (case (map_option version (first_opt (checkpoint_parts l)), first_opt (retained_commits l)) of
         (Some v, Some c) \<Rightarrow> version c = v + 1 | _ \<Rightarrow> True) \<and>
      effective_version l \<noteq> None \<and> (e = None \<or> e = effective_version l))"

definition segment_of :: "'loc log_segment_files \<Rightarrow> 'url \<Rightarrow> 'schema option \<Rightarrow> ('url, 'loc, 'schema) log_segment" where
  "segment_of l log_root schema =
     \<lparr> end_version = the (effective_version l),
       checkpoint_version = map_option version (first_opt (checkpoint_parts l)),
       segment_log_root = log_root, checkpoint_schema = schema,
       listed = l \<lparr> ascending_commit_files := retained_commits l \<rparr> \<rparr>"

lemma rbind_unit_Inr: "rbind m (\<lambda>_ :: unit. f) = Inr y \<longleftrightarrow> m = Inr () \<and> f = Inr y"
  by (auto simp: result_simps)

lemma validate_end_version_Inr:
  "validate_end_version cs ps e = Inr v \<longleftrightarrow>
   map_option version (case last_opt cs of Some c \<Rightarrow> Some c | None \<Rightarrow> first_opt ps) = Some v \<and> (e = None \<or> e = Some v)"
  by (cases e) (auto simp: validate_end_version_def result_simps split: option.splits)

lemma validate_gap_Inr:
  "validate_checkpoint_commit_gap cp cs = Inr () \<longleftrightarrow>
   (case (cp, first_opt cs) of (Some v, Some c) \<Rightarrow> version c = v + 1 | _ \<Rightarrow> True)"
  by (auto simp: validate_checkpoint_commit_gap_def result_simps split: option.splits)

lemma try_new_accepts:
  "try_new l log_root e schema = Inr seg \<longleftrightarrow> valid_listing l e \<and> seg = segment_of l log_root schema"
proof -
  let ?cp = "map_option version (first_opt (checkpoint_parts l))"
  have ret: "(case ?cp of Some v \<Rightarrow> l \<lparr> ascending_commit_files := filter (\<lambda>p. v < version p) (ascending_commit_files l) \<rparr>
      | None \<Rightarrow> l) = l \<lparr> ascending_commit_files := retained_commits l \<rparr>"
    by (cases "first_opt (checkpoint_parts l)") (simp_all add: retained_commits_def after_cp_def cong: filter_cong)
  have v: "validate_end_version (retained_commits l) (checkpoint_parts l) e = Inr v \<longleftrightarrow>
      effective_version l = Some v \<and> (e = None \<or> e = effective_version l)" for v
    by (auto simp: validate_end_version_Inr effective_version_def)
  have "try_new l log_root e schema = Inr seg \<longleftrightarrow>
      valid_compactions (ascending_compaction_files l) \<and> valid_checkpoint_parts (checkpoint_parts l) \<and>
      (\<forall>f \<in> set (ascending_commit_files l). is_commit f) \<and> contiguous (ascending_commit_files l) \<and>
      validate_checkpoint_commit_gap ?cp (retained_commits l) = Inr () \<and>
      (\<exists>v. (effective_version l = Some v \<and> (e = None \<or> e = effective_version l)) \<and>
         seg = \<lparr> end_version = v, checkpoint_version = ?cp, segment_log_root = log_root,
           checkpoint_schema = schema, listed = l \<lparr> ascending_commit_files := retained_commits l \<rparr> \<rparr>)"
    unfolding try_new_def Let_def ret rbind_unit_Inr validate_compaction_files_iff validate_checkpoint_parts_iff
      validate_commit_file_types_iff validate_commit_files_contiguous_iff
    by (auto simp: rbind_Inr_iff v)
  then show ?thesis
    by (cases "effective_version l") (auto simp: valid_listing_def segment_of_def validate_gap_Inr)
qed

text \<open>
  C22. Building a log segment from listed files succeeds exactly when the compactions are
  sorted and well-formed, the checkpoint parts are of one version and as many as they claim,
  the commits are commits without gaps, no commit is missing between the checkpoint and the
  first commit after it, and the segment is nonempty and ends at the requested version; the
  segment then holds the commits after the checkpoint only.
\<close>

theorem try_new_iff:
  "try_new l log_root e schema = Inr seg \<longleftrightarrow> valid_listing l e \<and> seg = segment_of l log_root schema"
  by (rule try_new_accepts)

section \<open>The invariant of a log segment\<close>

text \<open>
  The three guarantees of the type: commits without gaps and in order; commits strictly after
  the checkpoint, starting right after it; checkpoint parts of one version, as many as they
  claim. Besides, the segment ends at its last commit, or at its checkpoint when it has none.
\<close>

definition segment_inv :: "('url, 'loc, 'schema) log_segment \<Rightarrow> bool" where
  "segment_inv seg =
     (let l = listed seg; commits = ascending_commit_files l; cp = checkpoint_version seg in
      (\<forall>f \<in> set commits. is_commit f) \<and> contiguous commits \<and> sorted_wrt by_version commits \<and>
      valid_compactions (ascending_compaction_files l) \<and> valid_checkpoint_parts (checkpoint_parts l) \<and>
      cp = map_option version (first_opt (checkpoint_parts l)) \<and>
      (\<forall>f \<in> set commits. after_cp cp f) \<and>
      (case (cp, first_opt commits) of (Some v, Some c) \<Rightarrow> version c = v + 1 | _ \<Rightarrow> True) \<and>
      Some (end_version seg) = (case last_opt commits of Some c \<Rightarrow> Some (version c) | None \<Rightarrow> cp))"

abbreviation commit_versions :: "('url, 'loc, 'schema) log_segment \<Rightarrow> nat list" where
  "commit_versions seg \<equiv> map (\<lambda>f. unat (version f)) (ascending_commit_files (listed seg))"

lemma segment_invD:
  assumes "segment_inv seg"
  shows "\<forall>f \<in> set (ascending_commit_files (listed seg)). is_commit f"
    "contiguous (ascending_commit_files (listed seg))"
    "sorted_wrt by_version (ascending_commit_files (listed seg))"
    "valid_compactions (ascending_compaction_files (listed seg))"
    "valid_checkpoint_parts (checkpoint_parts (listed seg))"
    "checkpoint_version seg = map_option version (first_opt (checkpoint_parts (listed seg)))"
    "\<forall>f \<in> set (ascending_commit_files (listed seg)). after_cp (checkpoint_version seg) f"
    "case (checkpoint_version seg, first_opt (ascending_commit_files (listed seg))) of
       (Some v, Some c) \<Rightarrow> version c = v + 1 | _ \<Rightarrow> True"
    "Some (end_version seg) = (case last_opt (ascending_commit_files (listed seg)) of
       Some c \<Rightarrow> Some (version c) | None \<Rightarrow> checkpoint_version seg)"
  using assms unfolding segment_inv_def Let_def by blast+

lemma filter_after_is_drop:
  "sorted_wrt by_version fs \<Longrightarrow> \<exists>k. filter (after_cp cp) fs = drop k fs"
proof (induction fs)
  case (Cons f fs)
  show ?case
  proof (cases "after_cp cp f")
    case True
    then have "\<forall>g \<in> set fs. after_cp cp g" using Cons.prems by (auto simp: after_cp_def split: option.splits)
    then have "filter (after_cp cp) (f # fs) = drop 0 (f # fs)" using True by simp
    then show ?thesis by blast
  next
    case False
    obtain k where "filter (after_cp cp) fs = drop k fs" using Cons by auto
    then have "filter (after_cp cp) (f # fs) = drop (Suc k) (f # fs)" using False by simp
    then show ?thesis by blast
  qed
qed simp

lemma contiguous_drop: "contiguous fs \<Longrightarrow> contiguous (drop k fs)"
  by (auto simp: contiguous_def)

lemma contiguous_upt:
  "contiguous fs \<Longrightarrow> sorted_wrt by_version fs \<Longrightarrow> fs \<noteq> [] \<Longrightarrow>
   map (\<lambda>f. unat (version f)) fs = [unat (version (hd fs))..<Suc (unat (version (last fs)))]"
proof (induction fs)
  case (Cons a fs)
  show ?case
  proof (cases fs)
    case (Cons b rest)
    have s: "version b = version a + 1" "version a \<le> version b" and c: "contiguous fs"
      using \<open>contiguous (a # fs)\<close> \<open>sorted_wrt by_version (a # fs)\<close> Cons by (simp_all add: contiguous_Cons)
    then have "version a \<noteq> - 1" by auto
    then have b: "unat (version b) = Suc (unat (version a))" using s(1) unat_Suc_no_wrap by simp
    have "map (\<lambda>f. unat (version f)) fs = [Suc (unat (version a))..<Suc (unat (version (last fs)))]"
      using Cons.IH [OF c] \<open>sorted_wrt by_version (a # fs)\<close> Cons b by simp
    moreover have "version a \<le> version (last fs)"
      using \<open>sorted_wrt by_version (a # fs)\<close> Cons by simp
    ultimately show ?thesis using Cons by (simp add: upt_conv_Cons word_le_nat_alt del: upt_Suc)
  qed simp
qed simp

lemma try_new_inv:
  assumes "try_new l log_root e schema = Inr seg" and "sorted_wrt by_version (ascending_commit_files l)"
  shows "segment_inv seg"
proof -
  have v: "valid_listing l e" and seg: "seg = segment_of l log_root schema"
    using assms(1) by (simp_all add: try_new_accepts)
  obtain k where k: "retained_commits l = drop k (ascending_commit_files l)"
    using filter_after_is_drop [OF assms(2)] by (auto simp: retained_commits_def)
  have "contiguous (retained_commits l)" "sorted_wrt by_version (retained_commits l)"
    using v assms(2) contiguous_drop unfolding k valid_listing_def by (auto simp: sorted_wrt_drop)
  moreover have "\<forall>f \<in> set (retained_commits l). is_commit f \<and> after_cp (map_option version (first_opt (checkpoint_parts l))) f"
    using v by (auto simp: valid_listing_def retained_commits_def)
  moreover have "Some (the (effective_version l)) =
      (case last_opt (retained_commits l) of Some c \<Rightarrow> Some (version c)
       | None \<Rightarrow> map_option version (first_opt (checkpoint_parts l)))"
    using v by (auto simp: valid_listing_def effective_version_def split: option.splits)
  ultimately show ?thesis
    using v unfolding seg segment_inv_def Let_def segment_of_def valid_listing_def log_segment.select_convs by simp
qed

lemma segment_commit_versions:
  assumes "segment_inv seg" and "checkpoint_version seg = Some v"
  shows "commit_versions seg = [Suc (unat v)..<Suc (unat (end_version seg))]"
proof (cases "ascending_commit_files (listed seg)")
  case Nil
  then have "end_version seg = v" using segment_invD(9) [OF assms(1)] assms(2) by simp
  then show ?thesis using Nil by simp
next
  case (Cons c cs)
  note inv = segment_invD [OF assms(1)]
  have c: "version c = v + 1" "v < version c" using inv(7,8) assms(2) Cons by (simp_all add: after_cp_def)
  then have "unat (version c) = Suc (unat v)" using word_less_succ by metis
  moreover have "end_version seg = version (last (ascending_commit_files (listed seg)))"
    using inv(9) Cons by (simp add: last_opt_def)
  ultimately show ?thesis using contiguous_upt [OF inv(2,3)] Cons by simp
qed

section \<open>The commit cover\<close>

abbreviation lo_nat :: "'loc parsed_log_path \<Rightarrow> nat" where
  "lo_nat f \<equiv> unat (version f)"

abbreviation hi_nat :: "'loc parsed_log_path \<Rightarrow> nat" where
  "hi_nat f \<equiv> unat (hi_version f)"

text \<open>Files whose version ranges follow each other without gap or overlap from \<open>a\<close> up to below \<open>e\<close>.\<close>

fun covers :: "nat \<Rightarrow> 'loc parsed_log_path list \<Rightarrow> nat \<Rightarrow> bool" where
  "covers a [] e = (a = e)"
| "covers a (f # fs) e = (lo_nat f = a \<and> lo_nat f \<le> hi_nat f \<and> covers (Suc (hi_nat f)) fs e)"

lemma covers_append: "covers a (fs @ [f]) e \<longleftrightarrow> covers a fs (lo_nat f) \<and> lo_nat f \<le> hi_nat f \<and> e = Suc (hi_nat f)"
  by (induction a fs e rule: covers.induct) auto

text \<open>The loop on the files themselves; the code keeps their locations and the last file.\<close>

definition select_step :: "'loc parsed_log_path list \<Rightarrow> 'loc parsed_log_path \<Rightarrow> 'loc parsed_log_path list" where
  "select_step sel f =
     (case last_opt sel of
        None \<Rightarrow> [f]
      | Some prev \<Rightarrow>
          if version prev = version f then butlast sel @ [f]
          else if is_compaction prev \<and> version f \<le> hi_version prev then sel
          else sel @ [f])"

lemma cover_step_select:
  "cover_step (last_opt sel, map location sel) f = (last_opt (select_step sel f), map location (select_step sel f))"
proof (cases sel rule: rev_cases)
  case (snoc ys y)
  then show ?thesis
    by (auto simp: cover_step_def select_step_def is_compaction_def hi_version_def last_opt_def
        split: log_path_file_type.splits)
qed (simp add: cover_step_def select_step_def)

lemma cover_fold_select:
  "foldl cover_step (last_opt sel, map location sel) fs =
   (last_opt (foldl select_step sel fs), map location (foldl select_step sel fs))"
  by (induction fs arbitrary: sel) (simp_all only: foldl.simps cover_step_select)

text \<open>
  The invariant of the loop: the selected files cover \<open>a\<close> up to the end of the last one, which
  is past every commit below the next commit \<open>c\<close>; \<open>ks\<close> are the compactions still to come.
\<close>

definition cover_state ::
  "nat \<Rightarrow> nat \<Rightarrow> nat \<Rightarrow> 'loc parsed_log_path list \<Rightarrow> 'loc parsed_log_path list \<Rightarrow> bool" where
  "cover_state a b c ks sel =
     (if sel = [] then c = a
      else covers a sel (Suc (hi_nat (last sel))) \<and> lo_nat (last sel) < c \<and> c \<le> Suc (hi_nat (last sel)) \<and>
           hi_nat (last sel) \<le> b \<and>
           (\<forall>k \<in> set ks. lo_nat (last sel) \<le> lo_nat k \<and>
              (lo_nat (last sel) = lo_nat k \<longrightarrow> hi_nat (last sel) \<le> hi_nat k)))"

lemma not_compaction_hi: "\<not> is_compaction f \<Longrightarrow> hi_version f = version f"
  by (auto simp: is_compaction_def hi_version_def split: log_path_file_type.splits)

lemma cover_commit:
  assumes st: "cover_state a b c ks sel" and f: "lo_nat f = c" "c \<le> b" "\<not> is_compaction f"
    and ks: "\<forall>k \<in> set ks. c \<le> lo_nat k \<and> lo_nat k \<le> hi_nat k"
  shows "cover_state a b (Suc c) ks (select_step sel f)"
proof (cases sel rule: rev_cases)
  case Nil
  then show ?thesis
    using st f ks not_compaction_hi [OF f(3)] by (auto simp: cover_state_def select_step_def)
next
  case (snoc ys y)
  have ne: "version y \<noteq> version f" using st f(1) snoc by (auto simp: cover_state_def)
  have lt: "lo_nat y < c" "c \<le> Suc (hi_nat y)" using st snoc by (simp_all add: cover_state_def)
  show ?thesis
  proof (cases "is_compaction y \<and> version f \<le> hi_version y")
    case True
    then show ?thesis
      using st snoc ne f(1) by (auto simp: cover_state_def select_step_def word_le_nat_alt)
  next
    case False
    then have "hi_nat y < c"
      using lt f(1) not_compaction_hi [of y] by (cases "is_compaction y") (auto simp: word_le_nat_alt)
    then show ?thesis
      using st snoc ne False lt f ks not_compaction_hi [OF f(3)] covers_append [of a "ys @ [y]" f]
      by (auto simp: cover_state_def select_step_def covers_append)
  qed
qed

lemma cover_compaction:
  assumes st: "cover_state a b c (k # ks) sel" and k: "a \<le> lo_nat k" "lo_nat k < c" "lo_nat k \<le> hi_nat k" "hi_nat k \<le> b"
    and ks: "\<forall>k' \<in> set ks. before_compaction k k'"
  shows "cover_state a b c ks (select_step sel k)"
proof (cases sel rule: rev_cases)
  case Nil
  then show ?thesis using st k by (simp add: cover_state_def)
next
  case (snoc ys y)
  have y: "covers a ys (lo_nat y)" "lo_nat y < c" "c \<le> Suc (hi_nat y)" "hi_nat y \<le> b"
      "lo_nat y \<le> lo_nat k" "lo_nat y = lo_nat k \<longrightarrow> hi_nat y \<le> hi_nat k"
    using st snoc by (simp_all add: cover_state_def covers_append)
  have after: "\<forall>k' \<in> set ks. lo_nat k \<le> lo_nat k' \<and> (lo_nat k = lo_nat k' \<longrightarrow> hi_nat k \<le> hi_nat k')"
    using ks by (auto simp: before_compaction_def word_less_nat_alt word_le_nat_alt word_unat_eq_iff)
  show ?thesis
  proof (cases "version y = version k")
    case True
    then show ?thesis
      using snoc y k after by (auto simp: cover_state_def select_step_def covers_append)
  next
    case False
    then have "is_compaction y \<and> version k \<le> hi_version y"
      using y k(2) not_compaction_hi [of y] by (cases "is_compaction y") (auto simp: word_le_nat_alt word_unat_eq_iff)
    then show ?thesis
      using False st snoc by (auto simp: cover_state_def select_step_def)
  qed
qed

lemma upt_head: "x # xs = [c..<Suc b] \<Longrightarrow> x = c \<and> c \<le> b \<and> xs = [Suc c..<Suc b]"
  using upt_eq_Cons_conv [of c "Suc b" x xs] by auto

lemma cover_merge:
  "cover_state a b c ks sel \<Longrightarrow> a \<le> b \<Longrightarrow>
   map lo_nat cs = [c..<Suc b] \<Longrightarrow> c \<le> Suc b \<Longrightarrow> \<forall>f \<in> set cs. \<not> is_compaction f \<Longrightarrow>
   sorted_wrt before_compaction ks \<Longrightarrow>
   \<forall>k \<in> set ks. a \<le> lo_nat k \<and> lo_nat k \<le> hi_nat k \<and> hi_nat k \<le> b \<Longrightarrow>
   covers a (foldl select_step sel (merge_by by_version cs ks)) (Suc b)"
proof (induction "length cs + length ks" arbitrary: cs ks sel c)
  case 0
  then have "c = Suc b" by (auto split: if_splits)
  with 0 show ?case by (auto simp: cover_state_def split: if_splits)
next
  case (Suc n)
  have commit: ?case if cs: "cs = f # fs" and m: "merge_by by_version cs ks = f # merge_by by_version fs ks"
      and le: "\<forall>k \<in> set ks. lo_nat f \<le> lo_nat k" for f fs
  proof -
    have f: "lo_nat f = c" "c \<le> b" "map lo_nat fs = [Suc c..<Suc b]"
      using upt_head [of "lo_nat f" "map lo_nat fs" c b] Suc.prems(3) cs by simp_all
    have "cover_state a b (Suc c) ks (select_step sel f)"
      using Suc.prems le f cs by (intro cover_commit) auto
    from Suc.hyps(1) [OF _ this] Suc.prems Suc.hyps(2) f cs m show ?thesis by simp
  qed
  have compaction: ?case if ks: "ks = k # kr" and m: "merge_by by_version cs ks = k # merge_by by_version cs kr"
      and lt: "lo_nat k < c" for k kr
  proof -
    have "cover_state a b c kr (select_step sel k)"
      using Suc.prems ks lt by (intro cover_compaction) auto
    from Suc.hyps(1) [OF _ this] Suc.prems Suc.hyps(2) ks m show ?thesis by simp
  qed
  show ?case
  proof (cases cs)
    case Nil
    with Suc.hyps(2) obtain k kr where k: "ks = k # kr" by (cases ks) auto
    have "c = Suc b" using Suc.prems(3,4) Nil by (auto split: if_splits)
    with compaction [OF k] Nil k Suc.prems(7) show ?thesis by (cases kr) auto
  next
    case (Cons f fs)
    show ?thesis
    proof (cases ks)
      case Nil
      then show ?thesis using commit [OF Cons] Cons by (cases fs) auto
    next
      case k: (Cons k kr)
      have c: "lo_nat f = c"
        using upt_head [of "lo_nat f" "map lo_nat fs" c b] Suc.prems(3) Cons by simp
      show ?thesis
      proof (cases "version f \<le> version k")
        case True
        have "\<forall>k' \<in> set ks. lo_nat f \<le> lo_nat k'"
          using True Suc.prems(6) k by (auto simp: before_compaction_def word_le_nat_alt word_less_nat_alt)
        then show ?thesis using commit [OF Cons] True Cons k by simp
      next
        case False
        then have "lo_nat k < c" using c by (simp add: word_le_nat_alt)
        then show ?thesis using compaction [OF k] False Cons k by simp
      qed
    qed
  qed
qed

lemma set_merge_by [simp]: "set (merge_by R xs ys) = set xs \<union> set ys"
  by (induction R xs ys rule: merge_by.induct) auto

lemma set_select_step: "set (select_step sel f) \<subseteq> insert f (set sel)"
  by (auto simp: select_step_def split: option.splits dest: in_set_butlastD)

lemma set_select_fold: "set (foldl select_step sel fs) \<subseteq> set sel \<union> set fs"
proof (induction fs arbitrary: sel)
  case (Cons f fs)
  then show ?case using set_select_step [of sel f] by fastforce
qed simp

lemma find_commit_cover_select:
  "find_commit_cover seg = rev (map location (foldl select_step []
     (merge_by by_version (ascending_commit_files (listed seg)) (ascending_compaction_files (listed seg)))))"
  unfolding find_commit_cover_def Let_def
  using cover_fold_select [of "[]" "merge_by by_version (ascending_commit_files (listed seg))
      (ascending_compaction_files (listed seg))"] by simp

text \<open>The compactions of a segment lie within its commits.\<close>

definition compactions_in_range :: "('url, 'loc, 'schema) log_segment \<Rightarrow> bool" where
  "compactions_in_range seg =
     (\<forall>k \<in> set (ascending_compaction_files (listed seg)).
        (case first_opt (ascending_commit_files (listed seg)) of
           Some c \<Rightarrow> version c \<le> version k \<and> hi_version k \<le> end_version seg | None \<Rightarrow> False))"

lemma segment_cover:
  assumes inv: "segment_inv seg" and range: "compactions_in_range seg"
    and c: "first_opt (ascending_commit_files (listed seg)) = Some c"
  shows "\<exists>fs. find_commit_cover seg = rev (map location fs) \<and>
           set fs \<subseteq> set (ascending_commit_files (listed seg)) \<union> set (ascending_compaction_files (listed seg)) \<and>
           covers (unat (version c)) fs (Suc (unat (end_version seg)))"
proof -
  let ?cs = "ascending_commit_files (listed seg)" and ?ks = "ascending_compaction_files (listed seg)"
  note i = segment_invD [OF inv]
  have ne: "?cs \<noteq> []" "hd ?cs = c" using c first_opt_SomeD by fastforce+
  have e: "end_version seg = version (last ?cs)" using i(9) ne by (simp add: last_opt_def)
  have v: "map lo_nat ?cs = [unat (version c)..<Suc (unat (end_version seg))]"
    using contiguous_upt [OF i(2,3) ne(1)] ne(2) e by simp
  have le: "unat (version c) \<le> unat (end_version seg)"
    using arg_cong [OF v, of length] ne(1) by (cases "unat (version c) \<le> unat (end_version seg)") (simp_all del: upt_Suc)
  have "\<forall>k \<in> set ?ks. unat (version c) \<le> lo_nat k \<and> lo_nat k \<le> hi_nat k \<and> hi_nat k \<le> unat (end_version seg)"
    using i(4) range c by (auto simp: valid_compactions_def compactions_in_range_def word_le_nat_alt)
  moreover have "\<forall>f \<in> set ?cs. \<not> is_compaction f"
    using i(1) by (auto simp: is_commit_def is_compaction_def split: log_path_file_type.splits)
  moreover have "sorted_wrt before_compaction ?ks" using i(4) by (simp add: valid_compactions_def)
  ultimately have "covers (unat (version c)) (foldl select_step [] (merge_by by_version ?cs ?ks))
      (Suc (unat (end_version seg)))"
    using v le by (intro cover_merge [where c = "unat (version c)"]) (simp_all add: cover_state_def)
  then show ?thesis
    using find_commit_cover_select [of seg] set_select_fold [of "[]" "merge_by by_version ?cs ?ks"] by auto
qed

section \<open>Builders of segments\<close>

text \<open>
  The interface of the constructors: under its precondition a builder returns only segments
  that satisfy the invariant. What clients use of a segment is proved once from it.
\<close>

locale segment_builder =
  fixes build :: "'x \<Rightarrow> ('url, 'loc, 'schema) log_segment delta_result"
    and pre :: "'x \<Rightarrow> bool"
  assumes build_inv: "pre x \<Longrightarrow> build x = Inr seg \<Longrightarrow> segment_inv seg"
begin

lemma built_versions:
  "pre x \<Longrightarrow> build x = Inr seg \<Longrightarrow> checkpoint_version seg = Some v \<Longrightarrow>
   commit_versions seg = [Suc (unat v)..<Suc (unat (end_version seg))]"
  using build_inv segment_commit_versions by blast

lemma built_since_checkpoint:
  assumes "pre x" and "build x = Inr seg" and "checkpoint_version seg = Some v"
    and "end_version seg \<noteq> PRE_COMMIT_VERSION"
  shows "unat (commits_since_checkpoint seg) = length (ascending_commit_files (listed seg))"
proof -
  have m: "commit_versions seg = [Suc (unat v)..<Suc (unat (end_version seg))]"
    using built_versions assms by blast
  have len: "length (ascending_commit_files (listed seg)) = unat (end_version seg) - unat v"
    using arg_cong [OF m, of length] by (simp del: upt_Suc)
  have "v \<le> end_version seg"
  proof (cases "last_opt (ascending_commit_files (listed seg))")
    case None
    then show ?thesis using segment_invD(9) [OF build_inv [OF assms(1,2)]] assms(3) by simp
  next
    case (Some c)
    then show ?thesis
      using segment_invD(7,9) [OF build_inv [OF assms(1,2)]] assms(3)
      by (auto simp: after_cp_def dest!: last_opt_in_set)
  qed
  then show ?thesis
    using len assms(3,4) by (simp add: commits_since_checkpoint_def unat_sub)
qed

lemma built_cover:
  "pre x \<Longrightarrow> build x = Inr seg \<Longrightarrow> compactions_in_range seg \<Longrightarrow>
   first_opt (ascending_commit_files (listed seg)) = Some c \<Longrightarrow>
   \<exists>fs. find_commit_cover seg = rev (map location fs) \<and>
        set fs \<subseteq> set (ascending_commit_files (listed seg)) \<union> set (ascending_compaction_files (listed seg)) \<and>
        covers (unat (version c)) fs (Suc (unat (end_version seg)))"
  using build_inv segment_cover by blast

end

subsection \<open>The storage contract and the listings behind the builders\<close>

text \<open>
  The documented behaviour of the storage handler that the builders rely on: it lists the files
  from the start URL on, without errors, in version order.
\<close>

definition storage_lists ::
  "'url url_ops \<Rightarrow> ('loc \<Rightarrow> 'url) \<Rightarrow> ('url, 'loc) list_from \<Rightarrow> 'url \<Rightarrow> version option \<Rightarrow> 'loc list \<Rightarrow> bool" where
  "storage_lists U as_url list_from log_root s metas =
     ((\<exists>u. url_join U log_root (format_u64 20 (range_start s)) = Inr u \<and> list_from u = Inr (map Inr metas)) \<and>
      sorted_wrt by_version (parsed_files U as_url metas))"

lemma list_commits_sorted:
  assumes "storage_lists U as_url list_from log_root s metas"
    and "list_commits U as_url list_from log_root s e = Inr l"
  shows "sorted_wrt by_version (ascending_commit_files l)"
proof -
  obtain u where u: "url_join U log_root (format_u64 20 (range_start s)) = Inr u" "list_from u = Inr (map Inr metas)"
      "sorted_wrt by_version (parsed_files U as_url metas)"
    using assms(1) by (auto simp: storage_lists_def)
  then show ?thesis
    using list_commits_ok [where list_from = list_from, OF u, of e] assms(2)
    by (auto simp: storage_files_def list_simps)
qed

lemma sorted_wrt_subseq: "subseq xs ys \<Longrightarrow> sorted_wrt R ys \<Longrightarrow> sorted_wrt R xs"
proof (induction rule: list_emb.induct)
  case (list_emb_Cons2 x y xs ys)
  then show ?case using list_emb_set [of "(=)" xs ys] by auto
qed auto

text \<open>
  The precondition of a snapshot's listing: storage as above, a tail of commits in strictly
  ascending order, and a tail that reaches the newest version of storage.
\<close>

definition snapshot_pre ::
  "'loc hash_order \<Rightarrow> 'url url_ops \<Rightarrow> ('loc \<Rightarrow> 'url) \<Rightarrow> ('url, 'loc) list_from \<Rightarrow> 'url \<Rightarrow>
   'loc parsed_log_path list \<Rightarrow> version option \<Rightarrow> version option \<Rightarrow> 'loc list \<Rightarrow> bool" where
  "snapshot_pre ho U as_url list_from log_root log_tail s e metas =
     (hash_order_ok ho \<and> storage_lists U as_url list_from log_root s metas \<and>
      (\<forall>t \<in> set log_tail. is_commit t) \<and> sorted_wrt (\<lambda>f g. version f < version g) log_tail \<and>
      (\<forall>t. last_opt (tail_files log_tail s e) = Some t \<longrightarrow>
         (\<forall>f \<in> set (kept_files log_tail (storage_files U as_url metas e)). version f \<le> version t)))"

lemma snapshot_listing:
  assumes "snapshot_pre ho U as_url list_from log_root log_tail s e metas"
  obtains out where "list_log ho U as_url list_from log_root log_tail s e = Inr out"
    "listing_result ho e (kept_files log_tail (storage_files U as_url metas e)) (tail_files log_tail s e) out"
proof -
  obtain u where u: "url_join U log_root (format_u64 20 (range_start s)) = Inr u" "list_from u = Inr (map Inr metas)"
      "sorted_wrt by_version (parsed_files U as_url metas)"
    using assms by (auto simp: snapshot_pre_def storage_lists_def)
  show ?thesis
    using list_log_all [where list_from = list_from, OF _ u] assms that
    by (auto simp: snapshot_pre_def)
qed

lemma kept_commits_sorted:
  assumes "snapshot_pre ho U as_url list_from log_root log_tail s e metas"
    and "ks = kept_files log_tail (storage_files U as_url metas e)" and "ts = tail_files log_tail s e"
  shows "sorted_wrt by_version (filter is_commit (ks @ ts))"
proof -
  have ks: "sorted_wrt by_version ks"
    using assms by (simp add: snapshot_pre_def storage_lists_def kept_files_def storage_files_def list_simps)
  have tail: "sorted_wrt (\<lambda>f g. version f < version g) log_tail" using assms(1) by (simp add: snapshot_pre_def)
  then have ts: "sorted_wrt by_version ts"
    unfolding assms(3) tail_files_def by (intro sorted_wrt_filterI) (auto intro: sorted_wrt_mono_rel [rotated])
  have "version f \<le> version t" if f: "f \<in> set ks" "is_commit f" and t: "t \<in> set ts" for f t
  proof -
    have "t \<in> set log_tail" using t assms(3) by (simp add: tail_files_def)
    then obtain h rest where h: "log_tail = h # rest" by (cases log_tail) auto
    have "version f < version h"
      using f h assms(2) by (auto simp: kept_files_def covered_by_tail_def)
    moreover have "version h \<le> version t" using \<open>t \<in> set log_tail\<close> h tail by auto
    ultimately show ?thesis by simp
  qed
  then show ?thesis using ks ts by (auto simp: sorted_wrt_append list_simps)
qed

definition snapshot_start :: "'schema last_checkpoint_hint option \<Rightarrow> version option \<Rightarrow> version option" where
  "snapshot_start hint ttv =
     (case hint of
        Some h \<Rightarrow> (case ttv of None \<Rightarrow> Some (hint_version h)
                   | Some e \<Rightarrow> if hint_version h \<le> e then Some (hint_version h) else None)
      | None \<Rightarrow> None)"

lemma list_with_hint_Inr:
  "list_with_checkpoint_hint ho U as_url list_from h log_root log_tail e = Inr l \<Longrightarrow>
   list_log ho U as_url list_from log_root log_tail (Some (hint_version h)) e = Inr l"
  by (cases "list_log ho U as_url list_from log_root log_tail (Some (hint_version h)) e")
     (auto simp: list_with_checkpoint_hint_def split: option.splits if_splits)

lemma for_snapshot_impl_Inr:
  assumes "for_snapshot_impl ho U as_url list_from log_root log_tail hint ttv = Inr seg"
  obtains l schema where "list_log ho U as_url list_from log_root log_tail (snapshot_start hint ttv) ttv = Inr l"
    "try_new l log_root ttv schema = Inr seg"
  using assms
  by (auto simp: for_snapshot_impl_def snapshot_start_def Let_def result_simps
      split: option.splits if_splits dest!: list_with_hint_Inr)

lemma for_snapshot_impl_inv:
  assumes pre: "snapshot_pre ho U as_url list_from log_root log_tail (snapshot_start hint ttv) ttv metas"
    and seg: "for_snapshot_impl ho U as_url list_from log_root log_tail hint ttv = Inr seg"
  shows "segment_inv seg"
proof -
  obtain l schema where l: "list_log ho U as_url list_from log_root log_tail (snapshot_start hint ttv) ttv = Inr l"
      "try_new l log_root ttv schema = Inr seg"
    using for_snapshot_impl_Inr [OF seg] .
  obtain out where out: "list_log ho U as_url list_from log_root log_tail (snapshot_start hint ttv) ttv = Inr out"
      "listing_result ho ttv (kept_files log_tail (storage_files U as_url metas ttv))
         (tail_files log_tail (snapshot_start hint ttv) ttv) out"
    using snapshot_listing [OF pre] .
  then have "sorted_wrt by_version (ascending_commit_files l)"
    using l(1) kept_commits_sorted [OF pre refl refl] sorted_wrt_subseq
    by (auto simp: listing_result_def Let_def)
  then show ?thesis using try_new_inv [OF l(2)] by simp
qed

lemma for_table_changes_inv:
  assumes "storage_lists U as_url list_from log_root (Some s) metas"
    and "for_table_changes U as_url list_from log_root s e = Inr seg"
  shows "segment_inv seg"
proof -
  obtain l where l: "list_commits U as_url list_from log_root (Some s) e = Inr l" "try_new l log_root e None = Inr seg"
    using assms(2) by (auto simp: for_table_changes_def result_simps rbind_unit_Inr split: if_splits)
  show ?thesis by (rule try_new_inv [OF l(2) list_commits_sorted [OF assms(1) l(1)]])
qed

lemma for_timestamp_conversion_inv:
  assumes "storage_lists U as_url list_from log_root (map_option (\<lambda>l. saturating_sub e (l - 1)) limit) metas"
    and "for_timestamp_conversion U as_url list_from log_root e limit = Inr seg"
  shows "segment_inv seg"
proof -
  obtain l where l: "list_commits U as_url list_from log_root (map_option (\<lambda>l. saturating_sub e (l - 1)) limit) (Some e) = Inr l"
      "try_new (l \<lparr> ascending_commit_files := remove_gaps (ascending_commit_files l) \<rparr>) log_root (Some e) None = Inr seg"
    using assms(2) by (auto simp: for_timestamp_conversion_def result_simps)
  have "sorted_wrt by_version (remove_gaps (ascending_commit_files l))"
    using list_commits_sorted [OF assms(1) l(1)] by (simp add: remove_gaps_def sorted_wrt_drop)
  then show ?thesis using try_new_inv [OF l(2)] by simp
qed

interpretation snapshot: segment_builder
  "\<lambda>(ho, U, as_url, list_from, log_root, log_tail, hint, ttv, metas :: 'loc list).
     for_snapshot_impl ho U as_url list_from log_root log_tail hint ttv"
  "\<lambda>(ho, U, as_url, list_from, log_root, log_tail, hint, ttv, metas).
     snapshot_pre ho U as_url list_from log_root log_tail (snapshot_start hint ttv) ttv metas"
  by unfold_locales (auto dest: for_snapshot_impl_inv)

interpretation table_changes: segment_builder
  "\<lambda>(U, as_url, list_from, log_root, s, e, metas :: 'loc list).
     for_table_changes U as_url list_from log_root s e"
  "\<lambda>(U, as_url, list_from, log_root, s, e, metas). storage_lists U as_url list_from log_root (Some s) metas"
  by unfold_locales (auto dest: for_table_changes_inv)

interpretation timestamp_conversion: segment_builder
  "\<lambda>(U, as_url, list_from, log_root, e, limit, metas :: 'loc list).
     for_timestamp_conversion U as_url list_from log_root e limit"
  "\<lambda>(U, as_url, list_from, log_root, e, limit, metas).
     storage_lists U as_url list_from log_root (map_option (\<lambda>l. saturating_sub e (l - 1)) limit) metas"
  by unfold_locales (auto dest: for_timestamp_conversion_inv)

section \<open>What the builders return\<close>

lemma parsed_files_valid: "f \<in> set (parsed_files U as_url metas) \<Longrightarrow> valid_part f"
proof -
  assume "f \<in> set (parsed_files U as_url metas)"
  then obtain m where "(case try_from U as_url m of Inr po \<Rightarrow> listable po | Inl _ \<Rightarrow> None) = Some f"
    unfolding parsed_files_def by (induction metas) (auto simp: List.map_filter_simps split: option.splits)
  then have "try_from U as_url m = Inr (Some f)"
    by (auto simp: listable_def split: sum.splits option.splits if_splits)
  then obtain ps rest where
    "classify_parts (fst (log_dir_position ps)) (snd (log_dir_position ps)) rest = Some (file_type f)"
    by (rule try_from_SomeE)
  then show "valid_part f"
    using classify_parts_multi by (fastforce simp: valid_part_def split: log_path_file_type.splits)
qed

lemma complete_checkpoint_version:
  assumes "hash_order_ok ho" and "\<forall>f \<in> set ks. valid_part f"
    and "complete_checkpoint ho (parts_at ks v) = Some cs"
  shows "is_complete_checkpoint cs" "map_option version (first_opt cs) = Some v"
proof -
  have "\<forall>f \<in> set (parts_at ks v). valid_part f" using assms(2) by (simp add: parts_at_def)
  from complete_checkpoint_sound [OF assms(1) this assms(3)]
  have c: "is_complete_checkpoint cs" and sub: "set cs \<subseteq> set (parts_at ks v)" by simp_all
  then obtain c rest where cs: "cs = c # rest" by (cases cs) (auto simp: is_complete_checkpoint_def)
  with sub have "version c = v" by (auto simp: parts_at_def)
  then show "is_complete_checkpoint cs" "map_option version (first_opt cs) = Some v" using c cs by simp_all
qed



subsection \<open>A small log\<close>

text \<open>A checkpoint at version 3, commits 4 and 5, and a compaction of the two.\<close>

definition ex_file :: "version \<Rightarrow> string \<Rightarrow> string \<Rightarrow> log_path_file_type \<Rightarrow> string list parsed_log_path" where
  "ex_file v sfx ext t =
     \<lparr> location = [DELTA_LOG_DIR, format_u64 20 v @ CHR ''.'' # sfx],
       filename = format_u64 20 v @ CHR ''.'' # sfx, extension = ext, version = v, file_type = t \<rparr>"

definition ex_files :: "string list parsed_log_path list" where
  "ex_files = [ex_file 3 ''checkpoint.parquet'' ''parquet'' SinglePartCheckpoint,
     ex_file 4 (format_u64 20 5 @ ''.compacted.json'') ''json'' (CompactedCommit 5),
     ex_file 4 ''json'' ''json'' Commit, ex_file 5 ''json'' ''json'' Commit]"

abbreviation ex_root :: "string list" where
  "ex_root \<equiv> [DELTA_LOG_DIR, '''']"

abbreviation ex_list_from :: "(string list, string list) list_from" where
  "ex_list_from \<equiv> (\<lambda>_. Inr (map Inr (map location ex_files)))"

lemma ex_file_try_from:
  "classify_parts True False (split_on (CHR ''.'') sfx) = Some t \<Longrightarrow>
   ext = last (split_on (CHR ''.'') sfx) \<Longrightarrow>
   try_from list_url_ops id (location (ex_file v sfx ext t)) = Inr (Some (ex_file v sfx ext t))"
  using try_from_log_file_eq [of list_url_ops id "[DELTA_LOG_DIR, format_u64 20 v @ CHR ''.'' # sfx]" "[]" v sfx t]
  by (simp add: ex_file_def list_url_ops_def)

lemma ex_parsed: "parsed_files list_url_ops id (map location ex_files) = ex_files"
  by (simp add: parsed_files_def List.map_filter_simps ex_files_def ex_file_try_from split_compacted
      classify_suffixes listable_def) (simp add: ex_file_def should_list_def)

lemma ex_join: "url_join list_url_ops ex_root (format_u64 20 v) = Inr [DELTA_LOG_DIR, format_u64 20 v]"
  by (simp add: list_url_ops_def split_on_no_sep)

lemma ex_file_simps [simp]:
  "version (ex_file v sfx ext t) = v" "file_type (ex_file v sfx ext t) = t"
  by (simp_all add: ex_file_def)

lemma ex_sorted: "sorted_wrt by_version ex_files"
  by (simp add: ex_files_def)

lemma ex_storage: "storage_lists list_url_ops id ex_list_from ex_root s (map location ex_files)"
  using ex_join ex_sorted by (simp add: storage_lists_def ex_parsed)

lemma ex_snapshot_pre: "snapshot_pre id list_url_ops id ex_list_from ex_root [] None None (map location ex_files)"
  using ex_storage by (simp add: snapshot_pre_def hash_order_ok_def tail_files_def)

definition ex_segment :: "(string list, string list, unit) log_segment" where
  "ex_segment = \<lparr> end_version = 5, checkpoint_version = Some 3, segment_log_root = ex_root,
     checkpoint_schema = None,
     listed = \<lparr> ascending_commit_files = [ex_file 4 ''json'' ''json'' Commit, ex_file 5 ''json'' ''json'' Commit],
       ascending_compaction_files = [ex_file 4 (format_u64 20 5 @ ''.compacted.json'') ''json'' (CompactedCommit 5)],
       checkpoint_parts = [ex_file 3 ''checkpoint.parquet'' ''parquet'' SinglePartCheckpoint],
       latest_crc_file = None, latest_commit_file = Some (ex_file 5 ''json'' ''json'' Commit),
       max_published_version = Some 5 \<rparr> \<rparr>"

lemma ex_storage_listing:
  "list_from_storage list_url_ops id ex_list_from ex_root s (- 1) = Inr (map Inr ex_files)"
  using list_from_storage_ok [where list_from = ex_list_from and metas = "map location ex_files"
      and U = list_url_ops and as_url = id and s = s and e = "- 1" and log_root = ex_root, OF ex_join]
    ex_sorted
  by (simp add: ex_parsed)

lemma ex_complete: "single_file_checkpoint f \<Longrightarrow> complete_checkpoint id [f] = Some [f]"
  by (auto simp: complete_checkpoint_def group_checkpoint_parts_def group_step_def single_file_checkpoint_def
      split: log_path_file_type.splits)

lemma ex_snapshot:
  "for_snapshot_impl id list_url_ops id ex_list_from ex_root [] (None :: unit last_checkpoint_hint option) None = Inr ex_segment"
proof -
  have "list_log id list_url_ops id ex_list_from ex_root [] None None = Inr (listed ex_segment)"
    unfolding list_log_def Let_def option.case ex_storage_listing rbind_simps
    using complete_checkpoint_Nil [of id] ex_complete [of "ex_file 3 ''checkpoint.parquet'' ''parquet'' SinglePartCheckpoint"]
    by (simp add: ex_files_def phase1_step_def add_file_def
        maybe_flush_and_advance_def process_file_def track_published_def is_commit_def flush_checkpoint_group_def
        finish_listing_def log_segment_files_default_def ex_segment_def single_file_checkpoint_def hash_order_ok_def)
  then show ?thesis
    by (simp add: for_snapshot_impl_def try_new_def Let_def ex_segment_def validate_checkpoint_parts_def
        is_checkpoint_def is_commit_def validate_checkpoint_commit_gap_def validate_end_version_def)
qed



section \<open>Table changes and timestamp conversion\<close>

abbreviation storage_commits ::
  "'url url_ops \<Rightarrow> ('loc \<Rightarrow> 'url) \<Rightarrow> 'loc list \<Rightarrow> version option \<Rightarrow> 'loc parsed_log_path list" where
  "storage_commits U as_url metas e \<equiv> filter (\<lambda>f. file_type f = Commit) (storage_files U as_url metas e)"

lemma list_commits_listed:
  assumes "storage_lists U as_url list_from log_root s metas"
  obtains l where "list_commits U as_url list_from log_root s e = Inr l"
    "ascending_commit_files l = storage_commits U as_url metas e" "checkpoint_parts l = []"
    "ascending_compaction_files l = []"
proof -
  obtain u where u: "url_join U log_root (format_u64 20 (range_start s)) = Inr u" "list_from u = Inr (map Inr metas)"
      "sorted_wrt by_version (parsed_files U as_url metas)"
    using assms by (auto simp: storage_lists_def)
  show ?thesis
    using that list_commits_ok [where list_from = list_from, OF u, of e]
    by (simp add: log_segment_files_default_def)
qed

lemma valid_listing_commits_only:
  assumes "checkpoint_parts l = []" and "ascending_compaction_files l = []"
    and "\<forall>f \<in> set (ascending_commit_files l). is_commit f"
  shows "valid_listing l e \<longleftrightarrow> contiguous (ascending_commit_files l) \<and> ascending_commit_files l \<noteq> [] \<and>
      (e = None \<or> e = Some (version (last (ascending_commit_files l))))"
    and "ascending_commit_files l \<noteq> [] \<Longrightarrow> segment_of l log_root schema =
      \<lparr> end_version = version (last (ascending_commit_files l)), checkpoint_version = None,
        segment_log_root = log_root, checkpoint_schema = schema, listed = l \<rparr>"
proof -
  have ret: "retained_commits l = ascending_commit_files l"
    using assms(1) by (simp add: retained_commits_def after_cp_def)
  then have eff: "effective_version l = map_option version (last_opt (ascending_commit_files l))"
    using assms(1) by (simp add: effective_version_def split: option.splits)
  show "valid_listing l e \<longleftrightarrow> contiguous (ascending_commit_files l) \<and> ascending_commit_files l \<noteq> [] \<and>
      (e = None \<or> e = Some (version (last (ascending_commit_files l))))"
    using assms by (auto simp: valid_listing_def eff valid_compactions_def valid_checkpoint_parts_def last_opt_def)
  show "ascending_commit_files l \<noteq> [] \<Longrightarrow> segment_of l log_root schema =
      \<lparr> end_version = version (last (ascending_commit_files l)), checkpoint_version = None,
        segment_log_root = log_root, checkpoint_schema = schema, listed = l \<rparr>"
    using assms(1) by (simp add: segment_of_def eff ret last_opt_def)
qed

lemma Commit_is_commit: "file_type f = Commit \<Longrightarrow> is_commit f"
  by (simp add: is_commit_def)

text \<open>
  C33. The segment for table changes over a version range is built exactly when the range is
  not empty and storage holds a published commit for every version from its start to its end
  (or to the newest version); it then consists of exactly these commits.
\<close>

theorem for_table_changes_iff:
  fixes log_root :: 'url and metas :: "'loc list"
  assumes st: "storage_lists U as_url list_from log_root (Some s) metas"
    and cs: "cs = storage_commits U as_url metas e"
  shows "((\<exists>seg :: ('url, 'loc, 'schema) log_segment. for_table_changes U as_url list_from log_root s e = Inr seg) \<longleftrightarrow>
           (\<forall>v. e = Some v \<longrightarrow> s \<le> v \<and> version (last cs) = v) \<and> cs \<noteq> [] \<and> version (hd cs) = s \<and> contiguous cs)
       \<and> (\<forall>seg :: ('url, 'loc, 'schema) log_segment. for_table_changes U as_url list_from log_root s e = Inr seg \<longrightarrow>
            ascending_commit_files (listed seg) = cs \<and>
            commit_versions seg = [unat s..<Suc (unat (end_version seg))] \<and>
            checkpoint_version seg = None \<and> (\<forall>v. e = Some v \<longrightarrow> end_version seg = v))"
proof -
  obtain l where l: "list_commits U as_url list_from log_root (Some s) e = Inr l"
      "ascending_commit_files l = cs" "checkpoint_parts l = []" "ascending_compaction_files l = []"
    using list_commits_listed [OF st] cs by metis
  have c: "\<forall>f \<in> set (ascending_commit_files l). is_commit f"
    using Commit_is_commit unfolding l(2) cs by auto
  note v = valid_listing_commits_only [OF l(3,4) c]
  have run: "for_table_changes U as_url list_from log_root s e = Inr seg \<longleftrightarrow>
      (\<forall>w. e = Some w \<longrightarrow> s \<le> w) \<and> cs \<noteq> [] \<and> version (hd cs) = s \<and> contiguous cs \<and>
      (e = None \<or> e = Some (version (last cs))) \<and> seg = segment_of l log_root None" for seg :: "('url, 'loc, 'schema) log_segment"
    using v(1) l(2)
    by (cases cs) (auto simp: for_table_changes_def l(1) rbind_unit_Inr result_simps try_new_accepts not_less
        split: option.splits)
  have "ascending_commit_files (listed seg) = cs \<and> commit_versions seg = [unat s..<Suc (unat (end_version seg))] \<and>
      checkpoint_version seg = None \<and> (\<forall>v. e = Some v \<longrightarrow> end_version seg = v)"
    if b: "for_table_changes U as_url list_from log_root s e = Inr seg" for seg :: "('url, 'loc, 'schema) log_segment"
  proof -
    have i: "segment_inv seg"
      using table_changes.build_inv [of "(U, as_url, list_from, log_root, s, e, metas)" seg] st b by simp
    have seg: "seg = \<lparr> end_version = version (last cs), checkpoint_version = None,
        segment_log_root = log_root, checkpoint_schema = None, listed = l \<rparr>" "cs \<noteq> []" "version (hd cs) = s"
      using b v(2) l(2) by (auto simp: run)
    have "\<forall>v. e = Some v \<longrightarrow> version (last cs) = v" using b by (auto simp: run)
    then show ?thesis
      using contiguous_upt [OF segment_invD(2,3) [OF i]] seg(2,3) l(2) unfolding seg(1) by (simp del: upt_Suc)
  qed
  moreover have "(\<exists>seg :: ('url, 'loc, 'schema) log_segment. for_table_changes U as_url list_from log_root s e = Inr seg) \<longleftrightarrow>
      (\<forall>v. e = Some v \<longrightarrow> s \<le> v \<and> version (last cs) = v) \<and> cs \<noteq> [] \<and> version (hd cs) = s \<and> contiguous cs"
    unfolding run by (cases e) auto
  ultimately show ?thesis by blast
qed

lemma ex_storage_commits:
  "storage_commits list_url_ops id (map location ex_files) (Some 5) =
   [ex_file 4 ''json'' ''json'' Commit, ex_file 5 ''json'' ''json'' Commit]"
  unfolding storage_files_def ex_parsed by (simp add: ex_files_def range_end_def)

theorem for_table_changes_iff_witness:
  "\<exists>seg :: (string list, string list, unit) log_segment.
     for_table_changes list_url_ops id ex_list_from ex_root 4 (Some 5) = Inr seg \<and>
     commit_versions seg = [4..<Suc 5] \<and> end_version seg = 5"
proof -
  note t = for_table_changes_iff [OF ex_storage [of "Some 4"] ex_storage_commits [symmetric], where 'schema = unit]
  have "contiguous [ex_file 4 ''json'' ''json'' Commit, ex_file 5 ''json'' ''json'' Commit]"
    by (simp add: contiguous_Cons) (simp add: contiguous_def)
  then obtain seg :: "(string list, string list, unit) log_segment"
    where seg: "for_table_changes list_url_ops id ex_list_from ex_root 4 (Some 5) = Inr seg"
    using conjunct1 [OF t] by auto
  from conjunct2 [OF t, rule_format, OF seg] have e: "end_version seg = 5"
    and c: "commit_versions seg = [unat (4 :: version)..<Suc (unat (end_version seg))]" by blast+
  have "commit_versions seg = [4..<Suc 5]" using c unfolding e by (simp del: upt_Suc)
  with seg e show ?thesis by blast
qed

lemma remove_gaps_drop:
  assumes "cs \<noteq> []"
  shows "\<exists>k < length cs. remove_gaps cs = drop k cs \<and> contiguous (drop k cs) \<and>
    (0 < k \<longrightarrow> version (cs ! k) \<noteq> version (cs ! (k - 1)) + 1)"
proof -
  have step: "n < length cs \<Longrightarrow> contiguous (drop n cs) \<Longrightarrow>
      contiguous_start cs n \<le> n \<and> contiguous (drop (contiguous_start cs n) cs) \<and>
      (0 < contiguous_start cs n \<longrightarrow>
         version (cs ! contiguous_start cs n) \<noteq> version (cs ! (contiguous_start cs n - 1)) + 1)" for n
  proof (induction cs n rule: contiguous_start.induct)
    case (2 cs i)
    show ?case
    proof (cases "version (cs ! Suc i) = 1 + version (cs ! i)")
      case True
      have "drop i cs = cs ! i # cs ! Suc i # drop (Suc (Suc i)) cs"
        using "2.prems"(1) by (simp add: Cons_nth_drop_Suc)
      moreover have "contiguous (cs ! Suc i # drop (Suc (Suc i)) cs)"
        using "2.prems" by (simp add: Cons_nth_drop_Suc)
      ultimately have "contiguous (drop i cs)" using True by (simp add: contiguous_Cons add.commute)
      with True "2.IH" "2.prems"(1) show ?thesis by simp
    next
      case False
      with "2.prems" show ?thesis by (simp add: add.commute)
    qed
  qed simp
  have "drop (length cs - 1) cs = [last cs]" using assms by (cases cs rule: rev_cases) simp_all
  then have "contiguous (drop (length cs - 1) cs)" by (simp add: contiguous_def)
  moreover have lt: "length cs - 1 < length cs" using assms by simp
  ultimately show ?thesis
    using step [OF lt] assms le_less_trans [OF _ lt]
    by (intro exI [of _ "contiguous_start cs (length cs - 1)"]) (simp add: remove_gaps_def)
qed

lemma contiguous_run_length:
  fixes m :: u64
  assumes "contiguous fs" and "sorted_wrt by_version fs" and "fs \<noteq> []" and "version (last fs) = e"
    and m: "m \<noteq> 0" "\<forall>c \<in> set fs. saturating_sub e (m - 1) \<le> version c"
  shows "length fs \<le> unat m"
proof -
  have "map lo_nat fs = [lo_nat (hd fs)..<Suc (unat e)]"
    using contiguous_upt [OF assms(1-3)] assms(4) by simp
  from arg_cong [OF this, of length]
  have len: "length fs = Suc (unat e) - lo_nat (hd fs)" by (simp del: upt_Suc)
  have "unat (saturating_sub e (m - 1)) \<le> lo_nat (hd fs)"
    using m(2) assms(3) by (simp add: word_le_nat_alt)
  then have "unat e - unat (m - 1) \<le> lo_nat (hd fs)" by (simp add: unat_saturating_sub)
  moreover have "unat (m - 1) = unat m - 1" using m(1) by (simp add: unat_minus_one)
  moreover have "0 < unat m" using m(1) by (simp add: unat_gt_0)
  ultimately show ?thesis using len by simp
qed

text \<open>
  The segment for timestamp conversion exists exactly when the newest published commit
  that storage lists up to the end version is at the end version. Its commits are the longest
  contiguous run of commits that ends there: a suffix of the listed commits that cannot be
  extended to the left; and when storage lists nothing below the start version that the limit
  gives, there are at most as many commits as the limit says.
\<close>

theorem for_timestamp_conversion_suffix:
  fixes log_root :: 'url and metas :: "'loc list"
  assumes st: "storage_lists U as_url list_from log_root (map_option (\<lambda>l. saturating_sub e (l - 1)) limit) metas"
    and cs: "cs = storage_commits U as_url metas (Some e)"
  shows "((\<exists>seg :: ('url, 'loc, 'schema) log_segment. for_timestamp_conversion U as_url list_from log_root e limit = Inr seg)
            \<longleftrightarrow> cs \<noteq> [] \<and> version (last cs) = e)
       \<and> (\<forall>seg :: ('url, 'loc, 'schema) log_segment. for_timestamp_conversion U as_url list_from log_root e limit = Inr seg \<longrightarrow>
            (\<exists>k < length cs. ascending_commit_files (listed seg) = drop k cs \<and> contiguous (drop k cs) \<and>
               (0 < k \<longrightarrow> version (cs ! k) \<noteq> version (cs ! (k - 1)) + 1)) \<and>
            end_version seg = e \<and>
            (\<forall>l. limit = Some l \<longrightarrow> l \<noteq> 0 \<longrightarrow> (\<forall>c \<in> set cs. saturating_sub e (l - 1) \<le> version c) \<longrightarrow>
               length (ascending_commit_files (listed seg)) \<le> unat l))"
proof -
  let ?s = "map_option (\<lambda>l. saturating_sub e (l - 1)) limit"
  obtain l0 where l0: "list_commits U as_url list_from log_root ?s (Some e) = Inr l0"
      "ascending_commit_files l0 = cs" "checkpoint_parts l0 = []" "ascending_compaction_files l0 = []"
    using list_commits_listed [OF st] cs by metis
  define l where "l = l0 \<lparr> ascending_commit_files := remove_gaps cs \<rparr>"
  have l: "ascending_commit_files l = remove_gaps cs" "checkpoint_parts l = []" "ascending_compaction_files l = []"
    using l0 by (simp_all add: l_def)
  have c: "\<forall>f \<in> set (ascending_commit_files l). is_commit f"
    unfolding l(1) remove_gaps_def cs by (auto dest!: in_set_dropD intro: Commit_is_commit)
  note v = valid_listing_commits_only [OF l(2,3) c]
  have run: "for_timestamp_conversion U as_url list_from log_root e limit = Inr seg \<longleftrightarrow>
      contiguous (remove_gaps cs) \<and> remove_gaps cs \<noteq> [] \<and> version (last (remove_gaps cs)) = e \<and>
      seg = segment_of l log_root None" for seg :: "('url, 'loc, 'schema) log_segment"
    unfolding for_timestamp_conversion_def Let_def l0(1) rbind_simps l0(2) l_def [symmetric] try_new_accepts v(1) l(1)
    by auto
  show ?thesis
  proof (cases "cs = []")
    case True
    then have "remove_gaps cs = []" by (simp add: remove_gaps_def)
    with True show ?thesis by (simp add: run)
  next
    case False
    obtain k where k: "k < length cs" "remove_gaps cs = drop k cs" "contiguous (drop k cs)"
        "0 < k \<longrightarrow> version (cs ! k) \<noteq> version (cs ! (k - 1)) + 1"
      using remove_gaps_drop [OF False] by blast
    have last: "drop k cs \<noteq> []" "last (drop k cs) = last cs" using k(1) by simp_all
    have sorted: "sorted_wrt by_version (drop k cs)"
      using list_commits_sorted [OF st l0(1)] l0(2) by (simp add: sorted_wrt_drop)
    have len: "length (drop k cs) \<le> unat m"
      if "m \<noteq> 0" "\<forall>c \<in> set cs. saturating_sub e (m - 1) \<le> version c" "version (last cs) = e" for m :: u64
      using contiguous_run_length [OF k(3) sorted last(1)] that last(2) in_set_dropD by metis
    have seg: "segment_of l log_root (None :: 'schema option) = \<lparr> end_version = version (last (drop k cs)),
        checkpoint_version = None, segment_log_root = log_root, checkpoint_schema = None, listed = l \<rparr>"
      using v(2) last(1) k(2) l(1) by simp
    have run': "for_timestamp_conversion U as_url list_from log_root e limit = Inr seg \<longleftrightarrow>
        version (last cs) = e \<and> seg = \<lparr> end_version = version (last cs), checkpoint_version = None,
          segment_log_root = log_root, checkpoint_schema = None, listed = l \<rparr>" for seg :: "('url, 'loc, 'schema) log_segment"
      unfolding run k(2) seg last(2) using k(3) last(1) by blast
    show ?thesis
      unfolding run' using False k len l(1) by (auto simp del: length_drop)
  qed
qed

theorem for_timestamp_conversion_suffix_witness:
  "\<exists>seg :: (string list, string list, unit) log_segment.
     for_timestamp_conversion list_url_ops id ex_list_from ex_root 5 (Some 2) = Inr seg \<and>
     length (ascending_commit_files (listed seg)) \<le> 2"
proof -
  note t = for_timestamp_conversion_suffix [where e = 5 and limit = "Some 2" and 'schema = unit,
      OF ex_storage ex_storage_commits [symmetric]]
  have "\<exists>seg :: (string list, string list, unit) log_segment.
      for_timestamp_conversion list_url_ops id ex_list_from ex_root 5 (Some 2) = Inr seg"
    using conjunct1 [OF t] by simp
  then obtain seg :: "(string list, string list, unit) log_segment"
    where seg: "for_timestamp_conversion list_url_ops id ex_list_from ex_root 5 (Some 2) = Inr seg" by blast
  have "\<forall>c \<in> set [ex_file 4 ''json'' ''json'' Commit, ex_file 5 ''json'' ''json'' Commit].
      saturating_sub 5 (2 - 1) \<le> version c" by (simp add: saturating_sub_def)
  then have "length (ascending_commit_files (listed seg)) \<le> unat (2 :: u64)"
    using conjunct2 [OF conjunct2 [OF conjunct2 [OF t, THEN spec, THEN mp, OF seg]], THEN spec, of 2] by simp
  with seg show ?thesis by auto
qed

section \<open>Extension by a commit\<close>

lemma contiguous_snoc:
  "contiguous (fs @ [f]) \<longleftrightarrow> contiguous fs \<and> (fs \<noteq> [] \<longrightarrow> version f = version (last fs) + 1)"
proof (induction fs)
  case (Cons a fs)
  have "contiguous [b]" for b :: "'a parsed_log_path" by (simp add: contiguous_def)
  with Cons show ?case by (cases fs) (auto simp: contiguous_Cons)
qed (simp add: contiguous_def)

lemma new_with_commit_appended_Inr:
  "new_with_commit_appended seg f = Inr seg' \<longleftrightarrow>
   is_commit f \<and> version f = end_version seg + 1 \<and>
   seg' = seg \<lparr> end_version := version f,
     listed := (listed seg) \<lparr> ascending_commit_files := ascending_commit_files (listed seg) @ [f],
       latest_commit_file := Some f,
       max_published_version := (case file_type f of Commit \<Rightarrow> Some (version f)
         | _ \<Rightarrow> max_published_version (listed seg)) \<rparr> \<rparr>"
  by (auto simp: new_with_commit_appended_def rbind_unit_Inr result_simps)

lemma segment_inv_appended:
  assumes inv: "segment_inv seg" and max: "end_version seg \<noteq> - 1"
    and new: "new_with_commit_appended seg f = Inr seg'"
  shows "segment_inv seg'"
proof -
  note i = segment_invD [OF inv]
  let ?cs = "ascending_commit_files (listed seg)"
  have f: "is_commit f" "version f = end_version seg + 1"
    and s: "ascending_commit_files (listed seg') = ?cs @ [f]" "end_version seg' = version f"
      "checkpoint_version seg' = checkpoint_version seg"
      "ascending_compaction_files (listed seg') = ascending_compaction_files (listed seg)"
      "checkpoint_parts (listed seg') = checkpoint_parts (listed seg)"
    using new by (auto simp: new_with_commit_appended_Inr)
  have lt: "end_version seg < version f"
    using f(2) unat_Suc_no_wrap [OF max] by (simp add: word_less_nat_alt)
  have le: "\<forall>c \<in> set ?cs. version c \<le> end_version seg"
  proof
    fix c assume c: "c \<in> set ?cs"
    then obtain bs l where "?cs = bs @ [l]" by (cases ?cs rule: rev_cases) auto
    then show "version c \<le> end_version seg" using c i(3,9) by (auto simp: sorted_wrt_append last_opt_def)
  qed
  have cont: "contiguous (?cs @ [f])" using i(2,9) f(2) by (auto simp: contiguous_snoc last_opt_def)
  have sorted: "sorted_wrt by_version (?cs @ [f])" using i(3) le lt by (auto simp: sorted_wrt_append)
  have after: "after_cp (checkpoint_version seg) f"
    using i(7,9) lt le by (cases ?cs) (auto simp: after_cp_def last_opt_def split: option.splits)
  have gap: "case (checkpoint_version seg, first_opt (?cs @ [f])) of (Some v, Some c) \<Rightarrow> version c = v + 1 | _ \<Rightarrow> True"
    using i(8,9) f(2) by (cases ?cs) (auto split: option.splits)
  show ?thesis
    unfolding segment_inv_def Let_def s
    using i(1,4-7) f(1) cont sorted after gap by simp
qed

lemma pre_commit_appended:
  assumes "new_with_commit_appended (for_pre_commit r) f = Inr seg'"
  shows "segment_inv seg' \<and> end_version seg' = 0"
  using assms
  by (simp add: new_with_commit_appended_Inr for_pre_commit_def PRE_COMMIT_VERSION_def segment_inv_def
      log_segment_files_default_def contiguous_def valid_compactions_def valid_checkpoint_parts_def after_cp_def)

text \<open>
  Appending a commit to a segment succeeds exactly for a commit of the next version, and
  then keeps the invariant of log segments; the synthetic segment of a table that is being
  created accepts exactly a commit of version 0, and becomes a proper segment with it.
\<close>

theorem new_with_commit_appended_inv:
  fixes seg :: "('url, 'loc, 'schema) log_segment"
  assumes "segment_inv seg" and "end_version seg \<noteq> PRE_COMMIT_VERSION"
  shows "((\<exists>seg'. new_with_commit_appended seg f = Inr seg') \<longleftrightarrow> is_commit f \<and> unat (version f) = Suc (unat (end_version seg)))
       \<and> (\<forall>seg'. new_with_commit_appended seg f = Inr seg' \<longrightarrow>
            segment_inv seg' \<and> end_version seg' = version f \<and> checkpoint_version seg' = checkpoint_version seg \<and>
            ascending_commit_files (listed seg') = ascending_commit_files (listed seg) @ [f])
       \<and> ((\<exists>seg' :: ('url, 'loc, 'schema) log_segment. new_with_commit_appended (for_pre_commit r) f = Inr seg') \<longleftrightarrow>
            is_commit f \<and> version f = 0)
       \<and> (\<forall>seg' :: ('url, 'loc, 'schema) log_segment.
            new_with_commit_appended (for_pre_commit r) f = Inr seg' \<longrightarrow> segment_inv seg' \<and> end_version seg' = 0)"
proof -
  have max: "end_version seg \<noteq> - 1" using assms(2) by (simp add: PRE_COMMIT_VERSION_def)
  have "version f = end_version seg + 1 \<longleftrightarrow> unat (version f) = Suc (unat (end_version seg))"
    using unat_Suc_no_wrap [OF max] by (simp add: word_unat_eq_iff)
  then have ok: "(\<exists>seg'. new_with_commit_appended seg f = Inr seg') \<longleftrightarrow>
      is_commit f \<and> unat (version f) = Suc (unat (end_version seg))"
    by (simp add: new_with_commit_appended_Inr)
  have "end_version seg' = version f \<and> checkpoint_version seg' = checkpoint_version seg \<and>
      ascending_commit_files (listed seg') = ascending_commit_files (listed seg) @ [f]"
    if "new_with_commit_appended seg f = Inr seg'" for seg'
    using that by (simp add: new_with_commit_appended_Inr)
  moreover have "end_version (for_pre_commit r :: ('url, 'loc, 'schema) log_segment) + 1 = 0"
    by (simp add: for_pre_commit_def PRE_COMMIT_VERSION_def)
  then have "((\<exists>seg' :: ('url, 'loc, 'schema) log_segment. new_with_commit_appended (for_pre_commit r) f = Inr seg') \<longleftrightarrow>
      is_commit f \<and> version f = 0)"
    by (simp add: new_with_commit_appended_Inr)
  moreover have "segment_inv seg' \<and> end_version seg' = 0"
    if "new_with_commit_appended (for_pre_commit r) f = Inr seg'" for seg' :: "('url, 'loc, 'schema) log_segment"
    using that by (rule pre_commit_appended)
  ultimately show ?thesis
    using ok segment_inv_appended [OF assms(1) max] by blast
qed

lemma ex_segment_inv: "segment_inv ex_segment"
  using for_snapshot_impl_inv [OF _ ex_snapshot] ex_snapshot_pre by (simp add: snapshot_start_def)

theorem new_with_commit_appended_inv_witness:
  "segment_inv ex_segment \<and>
   (\<exists>seg'. new_with_commit_appended ex_segment (ex_file 6 ''json'' ''json'' Commit) = Inr seg' \<and>
      segment_inv seg' \<and> end_version seg' = 6)"
proof -
  have "end_version ex_segment \<noteq> PRE_COMMIT_VERSION"
    by (simp add: ex_segment_def PRE_COMMIT_VERSION_def)
  note t = new_with_commit_appended_inv [OF ex_segment_inv this, of "ex_file 6 ''json'' ''json'' Commit"]
  obtain seg' where seg': "new_with_commit_appended ex_segment (ex_file 6 ''json'' ''json'' Commit) = Inr seg'"
    using conjunct1 [OF t] by (auto simp: ex_segment_def is_commit_def)
  then show ?thesis using t ex_segment_inv by simp
qed

section \<open>Replay around a checksum file\<close>

lemma filter_le_take:
  "sorted_wrt by_version fs \<Longrightarrow> filter (\<lambda>f. version f \<le> w) fs @ filter (\<lambda>f. w < version f) fs = fs"
proof (induction fs)
  case (Cons f fs)
  show ?case
  proof (cases "version f \<le> w")
    case False
    then have "filter (\<lambda>f. version f \<le> w) fs = []" "filter (\<lambda>f. w < version f) fs = fs"
      using Cons.prems by (auto simp: filter_empty_conv not_le filter_id_conv)
    with False show ?thesis by (simp add: not_le)
  qed (use Cons in auto)
qed simp

lemma commits_le_end:
  assumes "segment_inv seg" and "f \<in> set (ascending_commit_files (listed seg))"
  shows "version f \<le> end_version seg"
proof -
  note i = segment_invD [OF assms(1)]
  obtain bs l where "ascending_commit_files (listed seg) = bs @ [l]"
    using assms(2) by (cases "ascending_commit_files (listed seg)" rule: rev_cases) auto
  then show ?thesis using assms(2) i(3,9) by (auto simp: sorted_wrt_append last_opt_def)
qed

lemma filter_gt_upt: "a \<le> Suc w \<Longrightarrow> w \<le> b \<Longrightarrow> filter (\<lambda>n. w < n) [a..<Suc b] = [Suc w..<Suc b]" for a w b :: nat
proof -
  assume "a \<le> Suc w" "w \<le> b"
  then have "[a..<Suc b] = [a..<Suc w] @ [Suc w..<Suc b]"
    by (metis Suc_le_mono le_Suc_ex upt_add_eq_append)
  moreover have "filter (\<lambda>n. w < n) [a..<Suc w] = []" by (auto simp: filter_empty_conv simp del: upt_Suc)
  moreover have "filter (\<lambda>n. w < n) [Suc w..<Suc b] = [Suc w..<Suc b]" by (auto simp: filter_id_conv simp del: upt_Suc)
  ultimately show ?thesis by simp
qed

lemma crc_commits:
  assumes inv: "segment_inv seg" and "w \<le> end_version seg"
  shows "ascending_commit_files (listed (segment_after_crc seg w)) =
      filter (\<lambda>f. w < version f) (ascending_commit_files (listed seg))"
    and "ascending_commit_files (listed (segment_through_crc seg w)) =
      filter (\<lambda>f. version f \<le> w) (ascending_commit_files (listed seg))"
  using commits_le_end [OF inv] segment_invD(7) [OF inv]
  by (auto simp: segment_after_crc_def segment_through_crc_def filtered_commits_and_compactions_def Let_def
      after_cp_def intro!: filter_cong split: option.splits)

lemma valid_compactions_filter: "valid_compactions ks \<Longrightarrow> valid_compactions (filter P ks)"
  by (auto simp: valid_compactions_def list_simps)

lemma after_crc_versions:
  assumes w: "w < end_version seg"
    and c: "commit_versions seg = [a..<Suc (unat (end_version seg))]" "a \<le> Suc (unat w)"
  shows "map lo_nat (filter (\<lambda>f. w < version f) (ascending_commit_files (listed seg))) =
    [Suc (unat w)..<Suc (unat (end_version seg))]"
proof -
  have "map lo_nat (filter (\<lambda>f. w < version f) (ascending_commit_files (listed seg))) =
      filter (\<lambda>n. unat w < n) (commit_versions seg)"
    by (simp add: filter_map comp_def word_less_nat_alt)
  also have "\<dots> = [Suc (unat w)..<Suc (unat (end_version seg))]"
    unfolding c(1) using c(2) w by (intro filter_gt_upt) (simp_all add: word_less_nat_alt)
  finally show ?thesis .
qed

lemma segment_after_crc_inv:
  assumes inv: "segment_inv seg" and w: "w < end_version seg"
    and c: "commit_versions seg = [a..<Suc (unat (end_version seg))]" "a \<le> Suc (unat w)"
  shows "segment_inv (segment_after_crc seg w)"
    and "first_opt (ascending_commit_files (listed (segment_after_crc seg w))) = Some d \<Longrightarrow> version d = w + 1"
    and "ascending_commit_files (listed (segment_after_crc seg w)) \<noteq> []"
    and "compactions_in_range (segment_after_crc seg w)"
proof -
  note i = segment_invD [OF inv]
  let ?cs = "ascending_commit_files (listed seg)" and ?as = "filter (\<lambda>f. w < version f) (ascending_commit_files (listed seg))"
  have as: "ascending_commit_files (listed (segment_after_crc seg w)) = ?as"
    using crc_commits(1) [OF inv] w by simp
  have "a \<le> unat (end_version seg)" using c(2) w by (simp add: word_less_nat_alt)
  then have ne: "?cs \<noteq> []" using arg_cong [OF c(1), of length] by auto
  then have l: "version (last ?cs) = end_version seg" using i(9) by (simp add: last_opt_def)
  then have lst: "last ?cs \<in> set ?as" using ne w by simp
  then show ne': "ascending_commit_files (listed (segment_after_crc seg w)) \<noteq> []"
    unfolding as by (metis empty_iff empty_set)
  obtain k where k: "?as = drop k ?cs"
    using filter_after_is_drop [OF i(3), of "Some w"] by (auto simp: after_cp_def cong: filter_cong)
  have cont: "contiguous ?as" "sorted_wrt by_version ?as"
    using i(2,3) contiguous_drop unfolding k by (simp_all add: sorted_wrt_drop)
  have kl: "k < length ?cs" using lst unfolding k by (metis drop_eq_Nil empty_iff empty_set not_less)
  have last: "last_opt ?as = Some (last ?cs)" using kl unfolding k by (simp add: last_opt_def)
  show "segment_inv (segment_after_crc seg w)"
    unfolding segment_inv_def Let_def as using i(1) cont last l valid_compactions_filter [OF i(4)]
    by (auto simp: segment_after_crc_def filtered_commits_and_compactions_def Let_def after_cp_def valid_checkpoint_parts_def)
  note v = after_crc_versions [OF w c]
  show first: "version d = w + 1" if d: "first_opt (ascending_commit_files (listed (segment_after_crc seg w))) = Some d" for d
  proof -
    obtain ds where "?as = d # ds" using d unfolding as by (cases ?as) auto
    then have "lo_nat d # map lo_nat ds = [Suc (unat w)..<Suc (unat (end_version seg))]"
      using v by (simp del: upt_Suc)
    then have "lo_nat d = Suc (unat w)" using upt_head by blast
    then show ?thesis using word_less_succ [OF w] by (simp add: word_unat_eq_iff)
  qed
  obtain d where d: "first_opt (ascending_commit_files (listed (segment_after_crc seg w))) = Some d"
    using ne' by (cases "ascending_commit_files (listed (segment_after_crc seg w))") auto
  have "w + 1 \<le> version f" if "w < version f" for f :: "'b parsed_log_path"
    using word_not_max_succ_le [OF that] .
  then show "compactions_in_range (segment_after_crc seg w)"
    unfolding compactions_in_range_def d option.case first [OF d]
    by (auto simp: segment_after_crc_def filtered_commits_and_compactions_def Let_def hi_version_def
        split: log_path_file_type.splits)
qed

text \<open>
  Splitting a segment at a checksum file between its checkpoint and its end: the part up
  to the checksum and the part after it hold the commits of the segment, each once and in
  order, and the files chosen to replay the part after it cover exactly the versions after the
  checksum, whatever compactions straddle it.
\<close>

theorem crc_split:
  assumes inv: "segment_inv seg" and c: "checkpoint_version seg = Some v" "v \<le> w" and w: "w < end_version seg"
  shows "ascending_commit_files (listed (segment_through_crc seg w)) @
           ascending_commit_files (listed (segment_after_crc seg w)) = ascending_commit_files (listed seg)
       \<and> checkpoint_parts (listed (segment_through_crc seg w)) = checkpoint_parts (listed seg)
       \<and> (\<exists>fs. find_commit_cover (segment_after_crc seg w) = rev (map location fs) \<and>
            covers (Suc (unat w)) fs (Suc (unat (end_version seg))))"
proof -
  have v: "Suc (unat v) \<le> Suc (unat w)" using c(2) by (simp add: word_le_nat_alt)
  note a = segment_after_crc_inv [OF inv w segment_commit_versions [OF inv c(1)] v]
  obtain d where d: "first_opt (ascending_commit_files (listed (segment_after_crc seg w))) = Some d"
    using a(3) by (cases "ascending_commit_files (listed (segment_after_crc seg w))") auto
  have e: "end_version (segment_after_crc seg w) = end_version seg" "unat (version d) = Suc (unat w)"
    using a(2) [OF d] word_less_succ [OF w]
    by (simp_all add: segment_after_crc_def filtered_commits_and_compactions_def Let_def)
  have "\<exists>fs. find_commit_cover (segment_after_crc seg w) = rev (map location fs) \<and>
      covers (Suc (unat w)) fs (Suc (unat (end_version seg)))"
    using segment_cover [OF a(1,4) d] unfolding e by blast
  moreover have "checkpoint_parts (listed (segment_through_crc seg w)) = checkpoint_parts (listed seg)"
    by (simp add: segment_through_crc_def filtered_commits_and_compactions_def Let_def)
  ultimately show ?thesis
    using crc_commits [OF inv] w filter_le_take [OF segment_invD(3) [OF inv]] by simp
qed

theorem crc_split_witness:
  "segment_inv ex_segment \<and>
   (\<exists>fs. find_commit_cover (segment_after_crc ex_segment 4) = rev (map location fs) \<and> covers 5 fs 6)"
  using crc_split [OF ex_segment_inv, of 3 4] ex_segment_inv by (simp add: ex_segment_def)

section \<open>Publishing catalog commits\<close>

lemma collect_results_map_Inr:
  "(\<And>x. x \<in> set xs \<Longrightarrow> f x = Inr (g x)) \<Longrightarrow> collect_results (map f xs) = Inr (map g xs)"
  by (induction xs) simp_all

lemma catalog_contiguous_iff:
  "catalog_contiguous cs \<longleftrightarrow> (\<forall>i. Suc i < length cs \<longrightarrow> cc_version (cs ! Suc i) = cc_version (cs ! i) + 1)"
  by (induction cs rule: catalog_contiguous.induct) (auto simp: nth_Cons split: nat.splits)

text \<open>
  The catalog commits of a segment that still have to be published are its staged commits
  above the highest published version, in order, each with its location and the location of
  the published file; when every commit of the segment above that version is staged (which is
  what the highest published version means) and there is one, they are accepted for
  publication up to the segment's end version.
\<close>

theorem unpublished_commits_publishable:
  assumes inv: "segment_inv seg"
    and join: "\<forall>w. url_join U (segment_log_root seg) (format_u64 20 w @ ''.json'') = Inr (pub w)"
    and staged: "\<forall>f \<in> set (ascending_commit_files (listed seg)).
      file_type f = StagedCommit \<longleftrightarrow> after_cp (max_published_version (listed seg)) f"
    and some: "max_published_version (listed seg) = Some p" "p < end_version seg"
      "ascending_commit_files (listed seg) \<noteq> []"
  shows "\<exists>ccs. get_unpublished_catalog_commits U as_url seg = Inr ccs \<and>
           ccs = map (\<lambda>f. \<lparr> cc_version = version f, cc_location = as_url (location f), cc_published_location = pub (version f) \<rparr>)
                   (filter (\<lambda>f. p < version f) (ascending_commit_files (listed seg))) \<and>
           publish_metadata_try_new (end_version seg) ccs =
             Inr \<lparr> publish_to_version = end_version seg, commits_to_publish = ccs \<rparr>"
proof -
  note i = segment_invD [OF inv]
  let ?cs = "ascending_commit_files (listed seg)"
  let ?us = "filter (\<lambda>f. p < version f) ?cs"
  let ?cc = "\<lambda>f. \<lparr> cc_version = version f, cc_location = as_url (location f), cc_published_location = pub (version f) \<rparr>"
  have us: "filter (\<lambda>f. case max_published_version (listed seg) of None \<Rightarrow> True | Some v \<Rightarrow> v < version f)
      (filter (\<lambda>f. file_type f = StagedCommit) ?cs) = ?us"
    using staged some(1) by (auto simp: after_cp_def intro!: filter_cong)
  have "catalog_commit_try_new U as_url (segment_log_root seg) f = Inr (?cc f)" if "f \<in> set ?us" for f
    using that staged some(1) join by (auto simp: catalog_commit_try_new_def after_cp_def)
  then have get: "get_unpublished_catalog_commits U as_url seg = Inr (map ?cc ?us)"
    unfolding get_unpublished_catalog_commits_def us by (rule collect_results_map_Inr)
  obtain k where k: "?us = drop k ?cs"
    using filter_after_is_drop [OF i(3), of "Some p"] by (auto simp: after_cp_def cong: filter_cong)
  have l: "version (last ?cs) = end_version seg" using i(9) some(3) by (simp add: last_opt_def)
  then have "last ?cs \<in> set ?us" using some(2,3) by simp
  then have ne: "?us \<noteq> []" by (metis empty_iff empty_set)
  have "last_opt (map ?cc ?us) = Some (?cc (last ?cs))"
    using ne unfolding k by (simp add: last_opt_def last_map)
  moreover have "catalog_contiguous (map ?cc ?us)"
    using contiguous_drop [OF i(2), of k] unfolding k by (simp add: catalog_contiguous_iff contiguous_def)
  ultimately have "publish_metadata_try_new (end_version seg) (map ?cc ?us) =
      Inr \<lparr> publish_to_version = end_version seg, commits_to_publish = map ?cc ?us \<rparr>"
    using l by (simp add: publish_metadata_try_new_def)
  with get show ?thesis by blast
qed

definition ex_staged_segment :: "(string list, string list, unit) log_segment" where
  "ex_staged_segment = ex_segment \<lparr> listed := (listed ex_segment)
     \<lparr> ascending_commit_files := [ex_file 4 ''json'' ''json'' Commit, ex_file 5 ''u.json'' ''json'' StagedCommit],
       ascending_compaction_files := [], max_published_version := Some 4 \<rparr> \<rparr>"

theorem unpublished_commits_publishable_witness:
  "\<exists>ccs. get_unpublished_catalog_commits list_url_ops id ex_staged_segment = Inr ccs \<and> length ccs = 1 \<and>
     publish_metadata_try_new 5 ccs = Inr \<lparr> publish_to_version = 5, commits_to_publish = ccs \<rparr>"
proof -
  have c: "contiguous [ex_file 4 ''json'' ''json'' Commit, ex_file 5 ''u.json'' ''json'' StagedCommit]"
    by (simp add: contiguous_Cons) (simp add: contiguous_def)
  have inv: "segment_inv ex_staged_segment"
    using c by (simp add: segment_inv_def ex_staged_segment_def ex_segment_def is_commit_def after_cp_def
        valid_compactions_def valid_checkpoint_parts_def is_checkpoint_def)
  have "url_join list_url_ops (segment_log_root ex_staged_segment) (format_u64 20 w @ ''.json'') =
      Inr [DELTA_LOG_DIR, format_u64 20 w @ ''.json'']" for w
    by (simp add: ex_staged_segment_def ex_segment_def list_url_ops_def split_on_no_sep)
  note t = unpublished_commits_publishable [OF inv, of list_url_ops "\<lambda>w. [DELTA_LOG_DIR, format_u64 20 w @ ''.json'']" 4 id]
  show ?thesis
    using t \<open>\<And>w. url_join list_url_ops (segment_log_root ex_staged_segment) (format_u64 20 w @ ''.json'') = _\<close>
    by (simp add: ex_staged_segment_def ex_segment_def after_cp_def)
qed

end
