(* ===== verification/Schema.thy ===== *)
theory Schema
  imports Prelude
begin

text \<open>
  The table schema of \<open>schema/mod.rs\<close> (data types, struct fields, struct types and the
  operations that build and edit them) and the schema compatibility check of
  \<open>schema/compare.rs\<close>. An \<open>IndexMap\<close> is an association list in insertion order, a \<open>HashMap\<close>
  an association list whose order never matters (it is read by key and compared by key). The
  \<open>type_name\<close> fields of arrays, structs and maps hold the constant tag of their variant and are
  left out. \<open>str::to_lowercase\<close> follows the Unicode tables of the standard library and is a
  parameter of the definitions that use it; every lemma holds for whatever it computes.
\<close>

section \<open>Data types\<close>

datatype metadata_value =
    MetaNumber int
  | MetaString string
  | MetaBoolean bool
  | MetaOther string

datatype metadata_column_spec = RowIndex | RowId | RowCommitVersion | FilePath

datatype decimal_type = DecimalType (dt_precision: nat) (dt_scale: nat)

datatype primitive_type =
    PString | PLong | PInteger | PShort | PByte | PFloat | PDouble | PBoolean | PBinary
  | PDate | PTimestamp | PTimestampNtz | PDecimal decimal_type

datatype data_type =
    Primitive primitive_type
  | ArrayType (element_type: data_type) (contains_null: bool)
  | StructT struct_type
  | MapType (key_type: data_type) (value_type: data_type) (value_contains_null: bool)
  | Variant struct_type
and struct_type =
    StructType (st_fields: "(string \<times> struct_field) list")
      (st_metadata_columns: "(metadata_column_spec \<times> nat) list")
and struct_field =
    StructField (sf_name: string) (sf_data_type: data_type) (sf_nullable: bool)
      (sf_metadata: "(string \<times> metadata_value) list")

text \<open>\<open>DecimalType::try_new\<close>; precision and scale are \<open>u8\<close> and only compared.\<close>

definition decimal_type_try_new :: "nat \<Rightarrow> nat \<Rightarrow> decimal_type delta_result" where
  "decimal_type_try_new precision scale =
     rbind (require (0 < precision \<and> precision \<le> 38)
              (InvalidDecimal ''precision must be in range 1..38 inclusive''))
       (\<lambda>_. rbind (require (scale \<le> precision)
              (InvalidDecimal ''scale must be in range 0..precision inclusive''))
       (\<lambda>_. Inr (DecimalType precision scale)))"

fun can_widen_to :: "primitive_type \<Rightarrow> primitive_type \<Rightarrow> bool" where
  "can_widen_to PByte t = (t = PShort \<or> t = PInteger \<or> t = PLong)"
| "can_widen_to PShort t = (t = PInteger \<or> t = PLong)"
| "can_widen_to PInteger t = (t = PLong)"
| "can_widen_to PFloat t = (t = PDouble)"
| "can_widen_to PTimestamp t = (t = PTimestampNtz)"
| "can_widen_to PTimestampNtz t = (t = PTimestamp)"
| "can_widen_to _ t = False"

section \<open>Metadata columns\<close>

definition METADATA_SPEC_KEY :: string where
  "METADATA_SPEC_KEY = ''delta.metadataSpec''"

fun spec_text_value :: "metadata_column_spec \<Rightarrow> string" where
  "spec_text_value RowIndex = ''row_index''"
| "spec_text_value RowId = ''row_id''"
| "spec_text_value RowCommitVersion = ''row_commit_version''"
| "spec_text_value FilePath = ''_file''"

fun spec_data_type :: "metadata_column_spec \<Rightarrow> data_type" where
  "spec_data_type FilePath = Primitive PString"
| "spec_data_type _ = Primitive PLong"

fun spec_nullable :: "metadata_column_spec \<Rightarrow> bool" where
  "spec_nullable _ = False"

definition spec_from_str :: "string \<Rightarrow> metadata_column_spec delta_result" where
  "spec_from_str s =
     (if s = ''row_index'' then Inr RowIndex
      else if s = ''row_id'' then Inr RowId
      else if s = ''row_commit_version'' then Inr RowCommitVersion
      else if s = ''_file'' then Inr FilePath
      else Inl (SchemaError ''Unknown metadata column spec''))"

definition create_metadata_column :: "string \<Rightarrow> metadata_column_spec \<Rightarrow> struct_field" where
  "create_metadata_column name spec =
     StructField name (spec_data_type spec) (spec_nullable spec)
       [(METADATA_SPEC_KEY, MetaString (spec_text_value spec))]"

definition is_metadata_column :: "struct_field \<Rightarrow> bool" where
  "is_metadata_column f = (map_of (sf_metadata f) METADATA_SPEC_KEY \<noteq> None)"

definition get_metadata_column_spec :: "struct_field \<Rightarrow> metadata_column_spec option" where
  "get_metadata_column_spec f =
     (case map_of (sf_metadata f) METADATA_SPEC_KEY of
        Some (MetaString s) \<Rightarrow> (case spec_from_str s of Inr spec \<Rightarrow> Some spec | Inl _ \<Rightarrow> None)
      | _ \<Rightarrow> None)"

section \<open>Struct types\<close>

text \<open>A \<open>for\<close> loop whose body ends in \<^verbatim>\<open>?\<close>: the first error leaves it.\<close>

fun try_for_each :: "('a \<Rightarrow> 'e + unit) \<Rightarrow> 'a list \<Rightarrow> 'e + unit" where
  "try_for_each f [] = Inr ()"
| "try_for_each f (x # xs) = rbind (f x) (\<lambda>_. try_for_each f xs)"

lemma try_for_each_Inr [result_simps]:
  "try_for_each f xs = Inr u \<longleftrightarrow> (\<forall>x \<in> set xs. f x = Inr ())"
  by (induction xs) (auto simp: result_simps)

lemma try_for_each_cong [fundef_cong]:
  "xs = ys \<Longrightarrow> (\<And>x. x \<in> set ys \<Longrightarrow> f x = g x) \<Longrightarrow> try_for_each f xs = try_for_each g ys"
proof (induction ys arbitrary: xs)
  case (Cons y ys)
  then show ?case by (cases "g y") auto
qed simp

definition fields_of :: "struct_type \<Rightarrow> struct_field list" where
  "fields_of st = map snd (st_fields st)"

definition struct_field_named :: "struct_type \<Rightarrow> string \<Rightarrow> struct_field option" where
  "struct_field_named st name = map_of (st_fields st) name"

definition contains_field :: "struct_type \<Rightarrow> string \<Rightarrow> bool" where
  "contains_field st name = (map_of (st_fields st) name \<noteq> None)"

text \<open>\<open>IndexMap::get_index_of\<close>: the position of a key.\<close>

fun get_index_of :: "('k \<times> 'v) list \<Rightarrow> 'k \<Rightarrow> nat option" where
  "get_index_of [] k = None"
| "get_index_of ((k', _) # m) k =
     (if k' = k then Some 0 else map_option Suc (get_index_of m k))"

definition index_of :: "struct_type \<Rightarrow> string \<Rightarrow> nat option" where
  "index_of st name = get_index_of (st_fields st) name"

definition field_at_index :: "struct_type \<Rightarrow> nat \<Rightarrow> struct_field option" where
  "field_at_index st i = (if i < length (st_fields st) then Some (snd (st_fields st ! i)) else None)"

definition metadata_column :: "struct_type \<Rightarrow> metadata_column_spec \<Rightarrow> struct_field option" where
  "metadata_column st spec =
     (case map_of (st_metadata_columns st) spec of
        None \<Rightarrow> None
      | Some i \<Rightarrow> field_at_index st i)"

definition is_primitive :: "data_type \<Rightarrow> bool" where
  "is_primitive dt = (case dt of Primitive _ \<Rightarrow> True | _ \<Rightarrow> False)"

definition is_struct_or_variant :: "data_type \<Rightarrow> bool" where
  "is_struct_or_variant dt = (case dt of StructT _ \<Rightarrow> True | Variant _ \<Rightarrow> True | _ \<Rightarrow> False)"

text \<open>
  \<open>ensure_no_metadata_columns_in_field\<close>: the field itself, the leaf fields of a struct, every
  field of a struct that is an array element, a map key or a map value. The check recurses into
  the fields it selects.
\<close>

function ensure_no_metadata_columns_in_field :: "struct_field \<Rightarrow> unit delta_result" where
  "ensure_no_metadata_columns_in_field f =
     (if is_metadata_column f
      then Inl (SchemaError ''Metadata columns are only allowed at the top level of a schema'')
      else (case sf_data_type f of
        StructT st \<Rightarrow>
          try_for_each ensure_no_metadata_columns_in_field
            (filter (\<lambda>g. \<not> is_struct_or_variant (sf_data_type g)) (map snd (st_fields st)))
      | ArrayType (StructT st) _ \<Rightarrow>
          try_for_each ensure_no_metadata_columns_in_field (map snd (st_fields st))
      | MapType k v _ \<Rightarrow>
          rbind (case k of
              StructT st \<Rightarrow> try_for_each ensure_no_metadata_columns_in_field (map snd (st_fields st))
            | _ \<Rightarrow> Inr ())
          (\<lambda>_. case v of
              StructT st \<Rightarrow> try_for_each ensure_no_metadata_columns_in_field (map snd (st_fields st))
            | _ \<Rightarrow> Inr ())
      | _ \<Rightarrow> Inr ()))"
  by pat_completeness auto

lemma size_struct_fields:
  assumes "f \<in> snd ` set fs"
  shows "size f < size (StructType fs mc)"
proof -
  obtain n where "(n, f) \<in> set fs" using assms by auto
  then have "size f < size_list (size_prod (\<lambda>_. 0) size) fs + 1"
    by (induction fs) auto
  then show ?thesis by simp
qed

lemma size_st_fields: "(n, f) \<in> set (st_fields st) \<Longrightarrow> size f < size st"
  by (cases st) (auto intro!: size_struct_fields simp del: struct_type.size simp: rev_image_eqI)

lemma size_fields_list:
  "(n, f) \<in> set fs \<Longrightarrow> size f \<le> size_list (size_prod (\<lambda>_. 0) size) fs"
  by (induction fs) auto

lemma size_field_type [termination_simp]:
  assumes "(n, f) \<in> set fs"
  shows "size (sf_data_type f) < Suc (size_list (size_prod (\<lambda>_. 0) size) fs)"
  using size_fields_list [OF assms] by (cases f) simp

lemma size_field_data_type: "size (sf_data_type f) < size f"
  by (cases f) simp

lemma size_nested_field:
  assumes "(n, g) \<in> set (st_fields st)" "size st < size (sf_data_type f)"
  shows "size g < size f"
  using assms size_st_fields [of n g st] by (cases f) simp

termination ensure_no_metadata_columns_in_field
proof (relation "measure size")
qed (auto intro!: size_nested_field)

declare ensure_no_metadata_columns_in_field.simps [simp del]

text \<open>
  \<open>StructType::try_new\<close>: the loop over the fields with its index \<open>i\<close>, the field map, the
  metadata column index and the lower-cased names seen so far.
\<close>

fun struct_try_new_loop ::
  "(string \<Rightarrow> string) \<Rightarrow> nat \<Rightarrow> (string \<times> struct_field) list \<Rightarrow>
   (metadata_column_spec \<times> nat) list \<Rightarrow> string list \<Rightarrow> struct_field list \<Rightarrow>
   struct_type delta_result" where
  "struct_try_new_loop to_lowercase i field_map metadata_columns seen [] =
     Inr (StructType field_map metadata_columns)"
| "struct_try_new_loop to_lowercase i field_map metadata_columns seen (f # fs) =
     rbind (if is_primitive (sf_data_type f) then Inr ()
            else ensure_no_metadata_columns_in_field f)
     (\<lambda>_. rbind
        (case get_metadata_column_spec f of
           None \<Rightarrow> Inr metadata_columns
         | Some spec \<Rightarrow>
             (if map_of metadata_columns spec \<noteq> None
              then Inl (SchemaError ''Duplicate metadata column'')
              else Inr (AList.update spec i metadata_columns)))
     (\<lambda>metadata_columns'.
        if to_lowercase (sf_name f) \<in> set seen
        then Inl (SchemaError ''Duplicate field name (case-insensitive)'')
        else struct_try_new_loop to_lowercase (Suc i)
               (AList.update (sf_name f) f field_map) metadata_columns'
               (to_lowercase (sf_name f) # seen) fs))"

definition struct_try_new ::
  "(string \<Rightarrow> string) \<Rightarrow> struct_field list \<Rightarrow> struct_type delta_result" where
  "struct_try_new to_lowercase fs = struct_try_new_loop to_lowercase 0 [] [] [] fs"

text \<open>
  \<open>process_results\<close> hands \<open>try_new\<close> the fields up to the first error; an error of \<open>try_new\<close> on
  that prefix is returned before the erroneous item is ever pulled.
\<close>

fun process_results :: "('e + 'a) list \<Rightarrow> 'a list \<times> 'e option" where
  "process_results [] = ([], None)"
| "process_results (Inl e # rs) = ([], Some e)"
| "process_results (Inr x # rs) = (case process_results rs of (xs, err) \<Rightarrow> (x # xs, err))"

definition try_from_results ::
  "(string \<Rightarrow> string) \<Rightarrow> struct_field delta_result list \<Rightarrow> struct_type delta_result" where
  "try_from_results to_lowercase rs =
     (case process_results rs of (fs, err) \<Rightarrow>
        rbind (struct_try_new to_lowercase fs)
          (\<lambda>st. case err of Some e \<Rightarrow> Inl e | None \<Rightarrow> Inr st))"

fun new_unchecked_loop ::
  "nat \<Rightarrow> (string \<times> struct_field) list \<Rightarrow> (metadata_column_spec \<times> nat) list \<Rightarrow>
   struct_field list \<Rightarrow> struct_type" where
  "new_unchecked_loop i field_map metadata_columns [] = StructType field_map metadata_columns"
| "new_unchecked_loop i field_map metadata_columns (f # fs) =
     new_unchecked_loop (Suc i) (AList.update (sf_name f) f field_map)
       (case get_metadata_column_spec f of
          None \<Rightarrow> metadata_columns
        | Some spec \<Rightarrow> AList.update spec i metadata_columns) fs"

definition new_unchecked :: "struct_field list \<Rightarrow> struct_type" where
  "new_unchecked fs = new_unchecked_loop 0 [] [] fs"

definition project_as_struct ::
  "(string \<Rightarrow> string) \<Rightarrow> struct_type \<Rightarrow> string list \<Rightarrow> struct_type delta_result" where
  "project_as_struct to_lowercase st names =
     try_from_results to_lowercase
       (map (\<lambda>name. ok_or (map_of (st_fields st) name) (MissingColumn name)) names)"

definition add_fields ::
  "(string \<Rightarrow> string) \<Rightarrow> struct_type \<Rightarrow> struct_field list \<Rightarrow> struct_type delta_result" where
  "add_fields to_lowercase st fs = struct_try_new to_lowercase (map snd (st_fields st) @ fs)"

definition add_metadata_column ::
  "(string \<Rightarrow> string) \<Rightarrow> struct_type \<Rightarrow> string \<Rightarrow> metadata_column_spec \<Rightarrow>
   struct_type delta_result" where
  "add_metadata_column to_lowercase st name spec =
     add_fields to_lowercase st [create_metadata_column name spec]"

text \<open>\<open>walk_column_fields\<close>: resolve a column path through nested structs.\<close>

fun walk_fields :: "struct_type \<Rightarrow> string list \<Rightarrow> struct_field list delta_result" where
  "walk_fields st [] = Inr []"
| "walk_fields st (name # path) =
     rbind (ok_or (struct_field_named st name)
              (Generic ''Could not resolve column: field not found in schema''))
     (\<lambda>f. if path = [] then Inr [f]
          else (case sf_data_type f of
                  StructT inner \<Rightarrow> rbind (walk_fields inner path) (\<lambda>fs. Inr (f # fs))
                | _ \<Rightarrow> Inl (Generic ''Cannot resolve column: intermediate field is not a struct type'')))"

definition walk_column_fields :: "struct_type \<Rightarrow> string list \<Rightarrow> struct_field list delta_result" where
  "walk_column_fields st path =
     (if path = [] then Inl (Generic ''Column path cannot be empty'') else walk_fields st path)"

function total_struct_fields :: "struct_type \<Rightarrow> nat" and count_data_type :: "data_type \<Rightarrow> nat" where
  "total_struct_fields (StructType fs mc) =
     sum_list (map (\<lambda>(_, f). 1 + count_data_type (sf_data_type f)) fs)"
| "count_data_type (StructT inner) = total_struct_fields inner"
| "count_data_type (ArrayType e _) = count_data_type e"
| "count_data_type (MapType k v _) = count_data_type k + count_data_type v"
| "count_data_type (Primitive _) = 0"
| "count_data_type (Variant _) = 0"
  by pat_completeness auto

termination
  by (relation "measure (case_sum size size)") (auto intro: size_field_type simp del: struct_field.size)

section \<open>Editing a struct type\<close>

text \<open>
  \<open>IndexMap::insert_before\<close> of a key that is not yet in the map, \<open>shift_remove\<close>, and the write
  through \<open>get_mut\<close>. The editing operations leave the metadata column index as it was.
\<close>

definition insert_at :: "nat \<Rightarrow> 'a \<Rightarrow> 'a list \<Rightarrow> 'a list" where
  "insert_at i x xs = take i xs @ x # drop i xs"

definition with_field_inserted_after ::
  "struct_type \<Rightarrow> string option \<Rightarrow> struct_field \<Rightarrow> struct_type delta_result" where
  "with_field_inserted_after st after new_field =
     (if contains_field st (sf_name new_field) then Inl (Generic ''Field already exists'')
      else rbind
        (case after of
           None \<Rightarrow> Inr (length (st_fields st))
         | Some a \<Rightarrow> ok_or (map_option (\<lambda>i. i + 1) (get_index_of (st_fields st) a))
                       (Generic ''Field not found''))
        (\<lambda>i. Inr (StructType (insert_at i (sf_name new_field, new_field) (st_fields st))
                     (st_metadata_columns st))))"

definition with_field_inserted_before ::
  "struct_type \<Rightarrow> string option \<Rightarrow> struct_field \<Rightarrow> struct_type delta_result" where
  "with_field_inserted_before st before new_field =
     (if contains_field st (sf_name new_field) then Inl (Generic ''Field already exists'')
      else rbind
        (case before of
           None \<Rightarrow> Inr 0
         | Some b \<Rightarrow> ok_or (get_index_of (st_fields st) b) (Generic ''Field not found''))
        (\<lambda>i. Inr (StructType (insert_at i (sf_name new_field, new_field) (st_fields st))
                     (st_metadata_columns st))))"

definition with_field_removed :: "struct_type \<Rightarrow> string \<Rightarrow> struct_type" where
  "with_field_removed st name =
     StructType (AList.delete name (st_fields st)) (st_metadata_columns st)"

definition with_fields_filtered ::
  "(string \<Rightarrow> string) \<Rightarrow> struct_type \<Rightarrow> (struct_field \<Rightarrow> bool) \<Rightarrow> struct_type delta_result" where
  "with_fields_filtered to_lowercase st predicate =
     struct_try_new to_lowercase (filter predicate (map snd (st_fields st)))"

definition with_field_replaced ::
  "struct_type \<Rightarrow> string \<Rightarrow> struct_field \<Rightarrow> struct_type delta_result" where
  "with_field_replaced st name new_field =
     (if contains_field st name
      then Inr (StructType (AList.update name new_field (st_fields st)) (st_metadata_columns st))
      else Inl (Generic ''Field not found''))"

section \<open>Equality of schemas\<close>

text \<open>
  The derived \<open>PartialEq\<close>. Two \<open>IndexMap\<close>s or \<open>HashMap\<close>s are equal when they have the same
  length and every entry of one is an entry of the other, whatever their order.
\<close>

definition map_eq :: "('v \<Rightarrow> 'w \<Rightarrow> bool) \<Rightarrow> ('k \<times> 'v) list \<Rightarrow> ('k \<times> 'w) list \<Rightarrow> bool" where
  "map_eq eq m n \<longleftrightarrow> length m = length n \<and>
     list_all (\<lambda>(k, v). case map_of n k of None \<Rightarrow> False | Some w \<Rightarrow> eq v w) m"

lemma map_eq_cong [fundef_cong]:
  assumes "m = m'" "n = n'" "\<And>k v w. (k, v) \<in> set m' \<Longrightarrow> (k, w) \<in> set n' \<Longrightarrow> eq v w = eq' v w"
  shows "map_eq eq m n = map_eq eq' m' n'"
proof -
  have "(case map_of n' k of None \<Rightarrow> False | Some w \<Rightarrow> eq v w) =
        (case map_of n' k of None \<Rightarrow> False | Some w \<Rightarrow> eq' v w)"
    if "(k, v) \<in> set m'" for k v
    by (cases "map_of n' k") (auto simp: assms(3) [OF that] dest: map_of_SomeD)
  then show ?thesis unfolding map_eq_def assms(1,2)
    by (intro conj_cong refl list.pred_cong) auto
qed

function data_type_eq :: "data_type \<Rightarrow> data_type \<Rightarrow> bool"
  and struct_type_eq :: "struct_type \<Rightarrow> struct_type \<Rightarrow> bool"
  and struct_field_eq :: "struct_field \<Rightarrow> struct_field \<Rightarrow> bool" where
  "data_type_eq a b =
     (case (a, b) of
        (Primitive p, Primitive q) \<Rightarrow> p = q
      | (ArrayType e n, ArrayType e' n') \<Rightarrow> data_type_eq e e' \<and> n = n'
      | (StructT s, StructT s') \<Rightarrow> struct_type_eq s s'
      | (MapType k v n, MapType k' v' n') \<Rightarrow> data_type_eq k k' \<and> data_type_eq v v' \<and> n = n'
      | (Variant s, Variant s') \<Rightarrow> struct_type_eq s s'
      | _ \<Rightarrow> False)"
| "struct_type_eq (StructType fs mc) (StructType fs' mc') =
     (map_eq struct_field_eq fs fs' \<and> map_eq (=) mc mc')"
| "struct_field_eq (StructField n t nu md) (StructField n' t' nu' md') =
     (n = n' \<and> data_type_eq t t' \<and> nu = nu' \<and> map_eq (=) md md')"
  by pat_completeness auto

termination
  by (relation "measure (\<lambda>x. case x of Inl (a, _) \<Rightarrow> size a
        | Inr (Inl (s, _)) \<Rightarrow> size s | Inr (Inr (f, _)) \<Rightarrow> size f)")
    (auto dest: size_fields_list)

section \<open>Schema compatibility\<close>

datatype schema_compare_error =
    NullabilityTightening
  | FieldNameMismatch
  | InvalidSchema
  | MissingReadColumn
  | NewNonNullableColumn
  | TypeMismatch

definition nullable_can_read_as :: "bool \<Rightarrow> bool \<Rightarrow> schema_compare_error + unit" where
  "nullable_can_read_as nullable read_nullable =
     require (read_nullable \<or> \<not> nullable) NullabilityTightening"

text \<open>The \<open>HashMap\<close> from lower-cased names to fields; a repeated key keeps the last field.\<close>

fun lowercase_field_map ::
  "(string \<Rightarrow> string) \<Rightarrow> (string \<times> struct_field) list \<Rightarrow> (string \<times> struct_field) list" where
  "lowercase_field_map to_lowercase [] = []"
| "lowercase_field_map to_lowercase ((name, f) # fs) =
     (let m = lowercase_field_map to_lowercase fs in
      if map_of m (to_lowercase name) = None then (to_lowercase name, f) # m else m)"

function struct_field_can_read_as ::
    "(string \<Rightarrow> string) \<Rightarrow> struct_field \<Rightarrow> struct_field \<Rightarrow> schema_compare_error + unit"
  and struct_type_can_read_as ::
    "(string \<Rightarrow> string) \<Rightarrow> struct_type \<Rightarrow> struct_type \<Rightarrow> schema_compare_error + unit"
  and data_type_can_read_as ::
    "(string \<Rightarrow> string) \<Rightarrow> data_type \<Rightarrow> data_type \<Rightarrow> schema_compare_error + unit" where
  "struct_field_can_read_as low f read_field =
     rbind (nullable_can_read_as (sf_nullable f) (sf_nullable read_field))
     (\<lambda>_. rbind (require (sf_name f = sf_name read_field) FieldNameMismatch)
     (\<lambda>_. data_type_can_read_as low (sf_data_type f) (sf_data_type read_field)))"
| "struct_type_can_read_as low st read_type =
     (let field_map = lowercase_field_map low (st_fields st);
          read_names = remdups (map (low \<circ> fst) (st_fields read_type))
      in rbind (require (length field_map = length (st_fields st)) InvalidSchema)
      (\<lambda>_. rbind (require (length read_names = length (st_fields read_type)) InvalidSchema)
      (\<lambda>_. if list_ex (\<lambda>name. name \<notin> set read_names) (map fst field_map)
           then Inl MissingReadColumn
           else try_for_each (\<lambda>read_field.
             case map_of field_map (low (sf_name read_field)) of
               Some existing \<Rightarrow> struct_field_can_read_as low existing read_field
             | None \<Rightarrow> require (sf_nullable read_field) NewNonNullableColumn)
             (map snd (st_fields read_type)))))"
| "data_type_can_read_as low a b =
     (case (a, b) of
        (ArrayType e n, ArrayType e' n') \<Rightarrow>
          rbind (nullable_can_read_as n n') (\<lambda>_. data_type_can_read_as low e e')
      | (StructT s, StructT s') \<Rightarrow> struct_type_can_read_as low s s'
      | (MapType k v n, MapType k' v' n') \<Rightarrow>
          rbind (nullable_can_read_as n n')
          (\<lambda>_. rbind (data_type_can_read_as low k k') (\<lambda>_. data_type_can_read_as low v v'))
      | (Primitive p, Primitive q) \<Rightarrow>
          (if data_type_eq a b \<or> can_widen_to p q then Inr () else Inl TypeMismatch)
      | _ \<Rightarrow> (if data_type_eq a b then Inr () else Inl TypeMismatch))"
  by pat_completeness auto

termination
  by (relation "measure (\<lambda>x. case x of Inl (_, _, f) \<Rightarrow> size f
        | Inr (Inl (_, _, s)) \<Rightarrow> size s | Inr (Inr (_, _, t)) \<Rightarrow> size t)")
    (auto intro: size_st_fields simp: size_field_data_type)

section \<open>Statistics of a checkpoint schema\<close>

text \<open>
  \<open>LogSegment::structs_have_compatible_types\<close> and its two callers, which decide whether the
  parsed statistics and partition values of a checkpoint can be used. The \<open>context\<close> string is
  only logged and left out.
\<close>

function structs_have_compatible_types :: "(string \<Rightarrow> string) \<Rightarrow> struct_type \<Rightarrow> struct_type \<Rightarrow> bool" where
  "structs_have_compatible_types low available needed =
     list_all (\<lambda>needed_field.
       case struct_field_named available (sf_name needed_field) of
         None \<Rightarrow> True
       | Some available_field \<Rightarrow>
           (case (sf_data_type available_field, sf_data_type needed_field) of
              (StructT avail_struct, StructT need_struct) \<Rightarrow>
                structs_have_compatible_types low avail_struct need_struct
            | (avail_type, need_type) \<Rightarrow> \<not> isl (data_type_can_read_as low avail_type need_type)))
       (map snd (st_fields needed))"
  by pat_completeness auto

lemma size_nested_struct:
  assumes "(k, f) \<in> set (st_fields s)" "sf_data_type f = StructT n"
  shows "size n < size s"
proof -
  have "size n < size f" using assms(2) by (cases f) simp
  then show ?thesis using size_st_fields [OF assms(1)] by simp
qed

termination structs_have_compatible_types
  by (relation "measure (\<lambda>(_, _, needed). size needed)") (auto intro: size_nested_struct)

declare structs_have_compatible_types.simps [simp del]

definition add_substruct :: "struct_type \<Rightarrow> string \<Rightarrow> struct_type option" where
  "add_substruct checkpoint_schema name =
     (case struct_field_named checkpoint_schema ''add'' of
        None \<Rightarrow> None
      | Some f \<Rightarrow> (case sf_data_type f of
          StructT s \<Rightarrow> (case struct_field_named s name of
              None \<Rightarrow> None
            | Some g \<Rightarrow> (case sf_data_type g of StructT t \<Rightarrow> Some t | _ \<Rightarrow> None))
        | _ \<Rightarrow> None))"

definition stats_field_compatible ::
  "(string \<Rightarrow> string) \<Rightarrow> struct_type \<Rightarrow> struct_type \<Rightarrow> string \<Rightarrow> bool" where
  "stats_field_compatible low stats_struct stats_schema field_name =
     (case struct_field_named stats_struct field_name of
        None \<Rightarrow> True
      | Some checkpoint_field \<Rightarrow> (case sf_data_type checkpoint_field of
          StructT checkpoint_values \<Rightarrow>
            (case struct_field_named stats_schema field_name of
               None \<Rightarrow> True
             | Some stats_field \<Rightarrow> (case sf_data_type stats_field of
                 StructT stats_values \<Rightarrow>
                   structs_have_compatible_types low checkpoint_values stats_values
               | _ \<Rightarrow> True))
        | _ \<Rightarrow> False))"

definition schema_has_compatible_stats_parsed ::
  "(string \<Rightarrow> string) \<Rightarrow> struct_type \<Rightarrow> struct_type \<Rightarrow> bool" where
  "schema_has_compatible_stats_parsed low checkpoint_schema stats_schema =
     (case add_substruct checkpoint_schema ''stats_parsed'' of
        None \<Rightarrow> False
      | Some stats_struct \<Rightarrow>
          list_all (stats_field_compatible low stats_struct stats_schema)
            [''minValues'', ''maxValues''])"

definition schema_has_compatible_partition_values_parsed ::
  "(string \<Rightarrow> string) \<Rightarrow> struct_type \<Rightarrow> struct_type \<Rightarrow> bool" where
  "schema_has_compatible_partition_values_parsed low checkpoint_schema partition_schema =
     (case add_substruct checkpoint_schema ''partitionValues_parsed'' of
        None \<Rightarrow> False
      | Some partition_struct \<Rightarrow>
          structs_have_compatible_types low partition_struct partition_schema)"

section \<open>Construction of struct types\<close>

declare struct_field_can_read_as.simps [simp del] struct_type_can_read_as.simps [simp del]
  data_type_can_read_as.simps [simp del] data_type_eq.simps [simp del]

text \<open>The metadata columns of a list of fields with their positions, from index \<open>i\<close> on.\<close>

fun spec_index :: "nat \<Rightarrow> struct_field list \<Rightarrow> (metadata_column_spec \<times> nat) list" where
  "spec_index i [] = []"
| "spec_index i (f # fs) =
     (case get_metadata_column_spec f of
        None \<Rightarrow> spec_index (Suc i) fs
      | Some spec \<Rightarrow> (spec, i) # spec_index (Suc i) fs)"

definition nested_ok :: "struct_field \<Rightarrow> bool" where
  "nested_ok f \<longleftrightarrow> is_primitive (sf_data_type f) \<or> ensure_no_metadata_columns_in_field f = Inr ()"

definition by_name :: "struct_field list \<Rightarrow> (string \<times> struct_field) list" where
  "by_name fs = map (\<lambda>f. (sf_name f, f)) fs"

lemma by_name_simps [simp]:
  "by_name [] = []" "by_name (f # fs) = (sf_name f, f) # by_name fs"
  "map snd (by_name fs) = fs" "map fst (by_name fs) = map sf_name fs" "length (by_name fs) = length fs"
  by (simp_all add: by_name_def comp_def)

lemma update_fresh: "k \<notin> fst ` set m \<Longrightarrow> AList.update k v m = m @ [(k, v)]"
  by (induction m) auto

lemma map_of_None_iff: "map_of m k \<noteq> None \<longleftrightarrow> k \<in> fst ` set m"
  by (metis map_of_eq_None_iff)

lemma struct_try_new_loop_iff:
  assumes "\<forall>k \<in> fst ` set fm. low k \<in> set seen"
  shows "struct_try_new_loop low i fm mc seen fs = Inr st \<longleftrightarrow>
     (\<forall>f \<in> set fs. nested_ok f) \<and> distinct (map (low \<circ> sf_name) fs) \<and>
     set (map (low \<circ> sf_name) fs) \<inter> set seen = {} \<and>
     distinct (map fst (spec_index i fs)) \<and> fst ` set (spec_index i fs) \<inter> fst ` set mc = {} \<and>
     st = StructType (fm @ by_name fs) (mc @ spec_index i fs)"
  using assms
proof (induction fs arbitrary: i fm mc seen)
  case (Cons f fs)
  let ?l = "low (sf_name f)"
  have guard: "(if is_primitive (sf_data_type f) then Inr ()
      else ensure_no_metadata_columns_in_field f) = Inr u \<longleftrightarrow> nested_ok f" for u
    by (simp add: nested_ok_def)
  show ?case
  proof (cases "?l \<in> set seen")
    case True
    then show ?thesis by (auto simp: result_simps)
  next
    case False
    then have fresh: "AList.update (sf_name f) f fm = fm @ [(sf_name f, f)]"
      using Cons.prems by (intro update_fresh) auto
    have inv: "\<forall>k \<in> fst ` set (fm @ [(sf_name f, f)]). low k \<in> set (?l # seen)"
      using Cons.prems by auto
    note IH = Cons.IH [OF inv]
    show ?thesis
    proof (cases "get_metadata_column_spec f")
      case None
      then show ?thesis using False
        by (auto simp: rbind_Inr_iff guard fresh IH simp del: update.simps)
    next
      case (Some spec)
      show ?thesis
      proof (cases "map_of mc spec")
        case None
        then have "spec \<notin> fst ` set mc" by (simp add: map_of_eq_None_iff)
        then show ?thesis using False Some None
          by (auto simp: rbind_Inr_iff guard fresh IH update_fresh simp del: update.simps)
      next
        case (Some j)
        then have "spec \<in> fst ` set mc" using map_of_None_iff [of mc spec] by simp
        then show ?thesis using False Some \<open>get_metadata_column_spec f = Some spec\<close>
          by (auto simp: rbind_Inr_iff guard)
      qed
    qed
  qed
qed auto

lemma spec_index_specs: "map fst (spec_index i fs) = List.map_filter get_metadata_column_spec fs"
  by (induction fs arbitrary: i) (auto simp: map_filter_simps split: option.splits)

text \<open>What \<open>try_new\<close> demands of a list of fields.\<close>

definition valid_fields :: "(string \<Rightarrow> string) \<Rightarrow> struct_field list \<Rightarrow> bool" where
  "valid_fields low fs \<longleftrightarrow> (\<forall>f \<in> set fs. nested_ok f) \<and> distinct (map (low \<circ> sf_name) fs) \<and>
     distinct (List.map_filter get_metadata_column_spec fs)"

lemma struct_try_new_Inr [result_simps]:
  "struct_try_new low fs = Inr st \<longleftrightarrow>
     valid_fields low fs \<and> st = StructType (by_name fs) (spec_index 0 fs)"
  by (auto simp: struct_try_new_def struct_try_new_loop_iff valid_fields_def
      spec_index_specs)

lemma struct_try_new_loop_error:
  "struct_try_new_loop low i fm mc seen fs = Inl e \<Longrightarrow> \<exists>m. e = SchemaError m"
proof (induction fs arbitrary: i fm mc seen)
  case (Cons f fs)
  have nested: "\<exists>m. e = SchemaError m" if "ensure_no_metadata_columns_in_field f = Inl e" for f e
    using that
  proof (induction f arbitrary: e rule: ensure_no_metadata_columns_in_field.induct)
    case (1 f)
    have loop: "\<exists>m. e = SchemaError m"
      if "try_for_each ensure_no_metadata_columns_in_field gs = Inl e"
         "\<And>g e. g \<in> set gs \<Longrightarrow> ensure_no_metadata_columns_in_field g = Inl e \<Longrightarrow> \<exists>m. e = SchemaError m"
      for gs e
      using that by (induction gs) (auto simp: rbind_Inl_iff)
    show ?case
      using "1.prems" "1.IH"
      by (subst (asm) ensure_no_metadata_columns_in_field.simps)
        (auto simp: rbind_Inl_iff split: if_splits data_type.splits elim!: loop)
  qed
  show ?case using Cons
    by (auto simp: rbind_Inl_iff dest: nested split: if_splits option.splits)
qed simp

lemma map_of_by_name:
  "distinct (map sf_name fs) \<Longrightarrow> f \<in> set fs \<Longrightarrow> map_of (by_name fs) (sf_name f) = Some f"
  by (rule map_of_is_SomeI) (auto simp: by_name_def comp_def)

lemma map_of_by_name_SomeD: "map_of (by_name fs) n = Some f \<Longrightarrow> f \<in> set fs \<and> sf_name f = n"
  by (auto simp: by_name_def dest!: map_of_SomeD)

lemma distinct_lower_names: "distinct (map (low \<circ> sf_name) fs) \<Longrightarrow> distinct (map sf_name fs)"
  by (metis distinct_map map_map)

lemma spec_index_lookup:
  "case map_of (spec_index i fs) spec of
     None \<Rightarrow> find (\<lambda>f. get_metadata_column_spec f = Some spec) fs = None
   | Some j \<Rightarrow> i \<le> j \<and> j - i < length fs \<and>
       find (\<lambda>f. get_metadata_column_spec f = Some spec) fs = Some (fs ! (j - i))"
proof (induction fs arbitrary: i)
  case (Cons f fs)
  have Suc_diff: "Suc i \<le> j \<Longrightarrow> j - i = Suc (j - Suc i)" for j by simp
  show ?case using Cons.IH [of "Suc i"]
    by (auto split: option.splits simp: Suc_diff)
qed simp

lemma metadata_column_find:
  "metadata_column (StructType (by_name fs) (spec_index 0 fs)) spec =
     find (\<lambda>f. get_metadata_column_spec f = Some spec) fs"
  using spec_index_lookup [where i = 0 and fs = fs and spec = spec]
  by (auto simp: metadata_column_def field_at_index_def by_name_def split: option.splits)

lemma new_unchecked_loop_valid:
  assumes "distinct (map sf_name fs)" "distinct (map fst (spec_index i fs))"
    and "set (map sf_name fs) \<inter> fst ` set fm = {}" "fst ` set (spec_index i fs) \<inter> fst ` set mc = {}"
  shows "new_unchecked_loop i fm mc fs = StructType (fm @ by_name fs) (mc @ spec_index i fs)"
  using assms
proof (induction fs arbitrary: i fm mc)
  case (Cons f fs)
  then show ?case by (auto simp: update_fresh simp del: update.simps split: option.splits)
qed simp

text \<open>
  Building a schema: \<open>StructType::try_new\<close> succeeds exactly when no field hides a nested
  metadata column from its check, no two names agree up to case and no metadata column occurs
  twice. The schema then holds the fields in order under their names, agrees with what
  \<open>new_unchecked\<close> builds, finds each field by its name and each metadata column by its
  specification; every failure is a schema error.
\<close>

theorem struct_try_new_iff:
  "case struct_try_new low fs of
     Inl e \<Rightarrow> \<not> valid_fields low fs \<and> (\<exists>m. e = SchemaError m)
   | Inr st \<Rightarrow> valid_fields low fs \<and>
       fields_of st = fs \<and> map fst (st_fields st) = map sf_name fs \<and> st = new_unchecked fs \<and>
       list_all (\<lambda>f. struct_field_named st (sf_name f) = Some f) fs \<and>
       (\<forall>spec. metadata_column st spec = find (\<lambda>f. get_metadata_column_spec f = Some spec) fs)"
proof (cases "struct_try_new low fs")
  case (Inl e)
  then show ?thesis
    using struct_try_new_Inr [of low fs] struct_try_new_loop_error [of low 0 "[]" "[]" "[]" fs e]
    by (auto simp: struct_try_new_def)
next
  case (Inr st)
  then have v: "valid_fields low fs" and st: "st = StructType (by_name fs) (spec_index 0 fs)"
    by (auto simp: struct_try_new_Inr)
  have d: "distinct (map sf_name fs)"
    using v distinct_lower_names [of low fs] by (simp add: valid_fields_def)
  have "new_unchecked fs = st"
    using v d by (simp add: st new_unchecked_def new_unchecked_loop_valid valid_fields_def spec_index_specs)
  then show ?thesis
    using v Inr map_of_by_name [OF d]
    by (simp add: st fields_of_def struct_field_named_def metadata_column_find list_all_iff)
qed

section \<open>Schema compatibility is a preorder\<close>

lemma lowercase_field_map_set: "fst ` set (lowercase_field_map low fs) = (low \<circ> fst) ` set fs"
proof (induction fs)
  case (Cons x fs)
  then show ?case
    by (cases x) (auto simp: Let_def map_of_eq_None_iff image_iff split: if_splits)
qed simp

lemma lowercase_field_map_length_le: "length (lowercase_field_map low fs) \<le> length fs"
  by (induction low fs rule: lowercase_field_map.induct) (auto simp: Let_def)

lemma lowercase_field_map_length:
  "length (lowercase_field_map low fs) = length fs \<longleftrightarrow> distinct (map (low \<circ> fst) fs)"
proof (induction fs)
  case (Cons x fs)
  obtain n f where x: "x = (n, f)" by (cases x)
  have "map_of (lowercase_field_map low fs) (low n) = None \<longleftrightarrow> low n \<notin> (low \<circ> fst) ` set fs"
    by (simp add: map_of_eq_None_iff lowercase_field_map_set)
  then show ?case
    using Cons lowercase_field_map_length_le [of low fs] by (auto simp: x Let_def)
qed simp

lemma lowercase_field_map_distinct:
  "distinct (map (low \<circ> fst) fs) \<Longrightarrow> lowercase_field_map low fs = map (\<lambda>(n, f). (low n, f)) fs"
proof (induction fs)
  case (Cons x fs)
  then show ?case
    by (cases x) (force simp: Let_def map_of_eq_None_iff image_iff)
qed simp

lemma length_remdups_distinct: "length (remdups xs) = length xs \<longleftrightarrow> distinct xs"
  by (metis distinct_remdups length_remdups_eq remdups_id_iff_distinct)

definition lower_lookup :: "(string \<Rightarrow> string) \<Rightarrow> struct_type \<Rightarrow> string \<Rightarrow> struct_field option" where
  "lower_lookup low st name = map_of (map (\<lambda>(n, f). (low n, f)) (st_fields st)) (low name)"

definition lower_names :: "(string \<Rightarrow> string) \<Rightarrow> struct_type \<Rightarrow> string list" where
  "lower_names low st = map (low \<circ> fst) (st_fields st)"

lemma lower_lookup_None: "lower_lookup low st name = None \<longleftrightarrow> low name \<notin> set (lower_names low st)"
  by (force simp: lower_lookup_def lower_names_def map_of_eq_None_iff)

lemma lower_lookup_SomeD: "lower_lookup low st name = Some f \<Longrightarrow> f \<in> set (fields_of st)"
  by (force simp: lower_lookup_def fields_of_def dest!: map_of_SomeD)

lemma struct_type_can_read_as_iff:
  "struct_type_can_read_as low s r = Inr () \<longleftrightarrow>
     distinct (lower_names low s) \<and> distinct (lower_names low r) \<and>
     set (lower_names low s) \<subseteq> set (lower_names low r) \<and>
     (\<forall>f \<in> set (fields_of r).
        case lower_lookup low s (sf_name f) of
          Some g \<Rightarrow> struct_field_can_read_as low g f = Inr ()
        | None \<Rightarrow> sf_nullable f)"
proof (cases "distinct (lower_names low s)")
  case True
  then have m: "lowercase_field_map low (st_fields s) = map (\<lambda>(n, f). (low n, f)) (st_fields s)"
    by (simp add: lower_names_def lowercase_field_map_distinct)
  have keys: "map fst (map (\<lambda>(n, f). (low n, f)) (st_fields s)) = lower_names low s"
    by (simp add: lower_names_def case_prod_beta comp_def)
  have body: "(case lower_lookup low s (sf_name f) of
          Some g \<Rightarrow> struct_field_can_read_as low g f
        | None \<Rightarrow> require (sf_nullable f) NewNonNullableColumn) = Inr () \<longleftrightarrow>
      (case lower_lookup low s (sf_name f) of
          Some g \<Rightarrow> struct_field_can_read_as low g f = Inr () | None \<Rightarrow> sf_nullable f)" for f
    by (simp add: require_Inr split: option.splits)
  have len: "length (remdups (map (low \<circ> fst) (st_fields r))) = length (st_fields r) \<longleftrightarrow>
      distinct (lower_names low r)"
    using length_remdups_distinct [of "lower_names low r"] by (simp add: lower_names_def)
  have missing: "list_ex (\<lambda>name. name \<notin> (\<lambda>x. low (fst x)) ` set (st_fields r)) (lower_names low s)
      \<longleftrightarrow> \<not> set (lower_names low s) \<subseteq> set (lower_names low r)"
    by (auto simp: list_ex_iff lower_names_def)
  show ?thesis using True
    unfolding struct_type_can_read_as.simps [of low s r]
    by (auto simp: Let_def m keys len missing rbind_Inr_iff require_Inr try_for_each_Inr fields_of_def
        body lower_lookup_def [symmetric] simp del: map_map)
next
  case False
  then show ?thesis
    by (subst struct_type_can_read_as.simps)
      (auto simp: Let_def rbind_Inr_iff require_Inr lowercase_field_map_length lower_names_def)
qed

lemma struct_field_can_read_as_iff:
  "struct_field_can_read_as low f g = Inr () \<longleftrightarrow>
     (sf_nullable f \<longrightarrow> sf_nullable g) \<and> sf_name f = sf_name g \<and>
     data_type_can_read_as low (sf_data_type f) (sf_data_type g) = Inr ()"
  by (subst struct_field_can_read_as.simps)
    (auto simp: rbind_Inr_iff require_Inr nullable_can_read_as_def)


lemma map_eq_trans:
  assumes "map_eq e1 m n" "map_eq e2 n p"
    and "\<And>k u v w. (k, u) \<in> set m \<Longrightarrow> e1 u v \<Longrightarrow> e2 v w \<Longrightarrow> e3 u w"
  shows "map_eq e3 m p"
  using assms unfolding map_eq_def list_all_iff
  by (fastforce split: option.splits dest: map_of_SomeD)

lemma data_type_eq_iff:
  "data_type_eq (Primitive p) b \<longleftrightarrow> b = Primitive p"
  "data_type_eq (ArrayType e n) b \<longleftrightarrow> (\<exists>e'. b = ArrayType e' n \<and> data_type_eq e e')"
  "data_type_eq (StructT s) b \<longleftrightarrow> (\<exists>s'. b = StructT s' \<and> struct_type_eq s s')"
  "data_type_eq (MapType k v n) b \<longleftrightarrow>
     (\<exists>k' v'. b = MapType k' v' n \<and> data_type_eq k k' \<and> data_type_eq v v')"
  "data_type_eq (Variant s) b \<longleftrightarrow> (\<exists>s'. b = Variant s' \<and> struct_type_eq s s')"
  by (cases b; auto simp: data_type_eq.simps)+

lemma eq_trans:
  "data_type_eq a b \<Longrightarrow> data_type_eq b c \<Longrightarrow> data_type_eq a c"
  "struct_type_eq s t \<Longrightarrow> struct_type_eq t u \<Longrightarrow> struct_type_eq s u"
  "struct_field_eq f g \<Longrightarrow> struct_field_eq g h \<Longrightarrow> struct_field_eq f h"
proof (induction a and s and f arbitrary: b c and t u and g h)
  case (StructType fs mc)
  obtain fs' mc' fs'' mc'' where *: "t = StructType fs' mc'" "u = StructType fs'' mc''"
    by (cases t; cases u) auto
  have "map_eq struct_field_eq fs fs''"
    using StructType.prems StructType.IH unfolding *
    by (auto intro!: map_eq_trans [of struct_field_eq fs fs' struct_field_eq fs'']
        simp: fsts.simps snds.simps)
  moreover have "map_eq (=) mc mc''"
    using StructType.prems unfolding * by (auto intro!: map_eq_trans [of "(=)" mc mc' "(=)" mc''])
  ultimately show ?case by (simp add: *)
next
  case (StructField n ty nu md)
  then show ?case
    by (cases g; cases h) (auto intro: map_eq_trans [where ?e1.0 = "(=)" and ?e2.0 = "(=)"])
qed (auto simp: data_type_eq_iff)


lemma can_widen_to_trans:
  "can_widen_to p q \<Longrightarrow> can_widen_to q r \<Longrightarrow> p = r \<or> can_widen_to p r"
  by (cases p; cases q; cases r; simp)

text \<open>The compatibility check on data types, one line for each shape of the source type.\<close>

lemma data_type_can_read_as_iff:
  "data_type_can_read_as low (Primitive p) b = Inr () \<longleftrightarrow>
     (\<exists>q. b = Primitive q \<and> (p = q \<or> can_widen_to p q))"
  "data_type_can_read_as low (ArrayType e n) b = Inr () \<longleftrightarrow>
     (\<exists>e' n'. b = ArrayType e' n' \<and> (n \<longrightarrow> n') \<and> data_type_can_read_as low e e' = Inr ())"
  "data_type_can_read_as low (StructT s) b = Inr () \<longleftrightarrow>
     (\<exists>s'. b = StructT s' \<and> struct_type_can_read_as low s s' = Inr ())"
  "data_type_can_read_as low (MapType k v n) b = Inr () \<longleftrightarrow>
     (\<exists>k' v' n'. b = MapType k' v' n' \<and> (n \<longrightarrow> n') \<and>
        data_type_can_read_as low k k' = Inr () \<and> data_type_can_read_as low v v' = Inr ())"
  "data_type_can_read_as low (Variant s) b = Inr () \<longleftrightarrow>
     (\<exists>s'. b = Variant s' \<and> struct_type_eq s s')"
  unfolding data_type_can_read_as.simps [of low "Primitive p" b]
    data_type_can_read_as.simps [of low "ArrayType e n" b] data_type_can_read_as.simps [of low "StructT s" b]
    data_type_can_read_as.simps [of low "MapType k v n" b] data_type_can_read_as.simps [of low "Variant s" b]
  by (cases b; auto simp: data_type_eq_iff rbind_Inr_iff require_Inr nullable_can_read_as_def)+

lemma struct_can_read_as_trans:
  assumes st: "struct_type_can_read_as low s t = Inr ()" and tu: "struct_type_can_read_as low t u = Inr ()"
    and fields: "\<And>f g h. f \<in> set (fields_of s) \<Longrightarrow> struct_field_can_read_as low f g = Inr () \<Longrightarrow>
       struct_field_can_read_as low g h = Inr () \<Longrightarrow> struct_field_can_read_as low f h = Inr ()"
  shows "struct_type_can_read_as low s u = Inr ()"
proof -
  have "case lower_lookup low s (sf_name h) of
          Some f \<Rightarrow> struct_field_can_read_as low f h = Inr () | None \<Rightarrow> sf_nullable h"
    if h: "h \<in> set (fields_of u)" for h
  proof (cases "lower_lookup low t (sf_name h)")
    case None
    then have "lower_lookup low s (sf_name h) = None"
      using st by (auto simp: lower_lookup_None struct_type_can_read_as_iff)
    then show ?thesis using tu h None by (fastforce simp: struct_type_can_read_as_iff)
  next
    case (Some g)
    then have gh: "struct_field_can_read_as low g h = Inr ()"
      using tu h by (fastforce simp: struct_type_can_read_as_iff)
    then have name: "sf_name g = sf_name h" and null: "sf_nullable g \<Longrightarrow> sf_nullable h"
      by (auto simp: struct_field_can_read_as_iff)
    have "g \<in> set (fields_of t)" using Some by (rule lower_lookup_SomeD)
    then have "case lower_lookup low s (sf_name g) of
          Some f \<Rightarrow> struct_field_can_read_as low f g = Inr () | None \<Rightarrow> sf_nullable g"
      using st by (simp add: struct_type_can_read_as_iff)
    then show ?thesis using gh null fields lower_lookup_SomeD [of low s "sf_name h"]
      by (auto simp: name split: option.splits)
  qed
  moreover have "set (lower_names low s) \<subseteq> set (lower_names low u)"
    using st tu unfolding struct_type_can_read_as_iff by (elim conjE) (rule subset_trans)
  moreover have "distinct (lower_names low s)" "distinct (lower_names low u)"
    using st tu by (simp_all only: struct_type_can_read_as_iff)
  ultimately show ?thesis by (simp add: struct_type_can_read_as_iff)
qed

lemma can_read_as_trans:
  "data_type_can_read_as low a b = Inr () \<Longrightarrow> data_type_can_read_as low b c = Inr () \<Longrightarrow>
     data_type_can_read_as low a c = Inr ()"
  "struct_type_can_read_as low s t = Inr () \<Longrightarrow> struct_type_can_read_as low t u = Inr () \<Longrightarrow>
     struct_type_can_read_as low s u = Inr ()"
  "struct_field_can_read_as low f g = Inr () \<Longrightarrow> struct_field_can_read_as low g h = Inr () \<Longrightarrow>
     struct_field_can_read_as low f h = Inr ()"
proof (induction a and s and f arbitrary: b c and t u and g h)
  case (StructType fs mc)
  have "struct_field_can_read_as low f h = Inr ()"
    if f: "f \<in> set (fields_of (StructType fs mc))" and c: "struct_field_can_read_as low f g = Inr ()"
       "struct_field_can_read_as low g h = Inr ()" for f g h
  proof -
    obtain n where n: "(n, f) \<in> set fs" using f by (auto simp: fields_of_def)
    show ?thesis by (rule StructType.IH [OF n _ c]) (simp add: snds.simps)
  qed
  then show ?case by (rule struct_can_read_as_trans [OF StructType.prems])
next
  case (Primitive p)
  then show ?case using can_widen_to_trans by (auto simp: data_type_can_read_as_iff)
next
  case (Variant s)
  then show ?case using eq_trans(2) by (auto simp: data_type_can_read_as_iff)
qed (auto simp: data_type_can_read_as_iff struct_field_can_read_as_iff, blast+)


text \<open>
  A well-formed schema: every struct is keyed by the names of its fields, its names differ by
  more than case, and its maps have no repeated key, at every level.
\<close>

fun wf_data_type :: "(string \<Rightarrow> string) \<Rightarrow> data_type \<Rightarrow> bool"
  and wf_struct_type :: "(string \<Rightarrow> string) \<Rightarrow> struct_type \<Rightarrow> bool"
  and wf_struct_field :: "(string \<Rightarrow> string) \<Rightarrow> struct_field \<Rightarrow> bool" where
  "wf_data_type low (Primitive p) = True"
| "wf_data_type low (ArrayType e n) = wf_data_type low e"
| "wf_data_type low (StructT s) = wf_struct_type low s"
| "wf_data_type low (MapType k v n) = (wf_data_type low k \<and> wf_data_type low v)"
| "wf_data_type low (Variant s) = wf_struct_type low s"
| "wf_struct_type low (StructType fs mc) =
     (list_all (\<lambda>(n, f). n = sf_name f \<and> wf_struct_field low f) fs \<and>
      distinct (map (low \<circ> fst) fs) \<and> distinct (map fst mc))"
| "wf_struct_field low (StructField n t nu md) = (wf_data_type low t \<and> distinct (map fst md))"

lemma map_eq_refl:
  assumes "distinct (map fst m)" "\<And>k v. (k, v) \<in> set m \<Longrightarrow> eq v v"
  shows "map_eq eq m m"
  using assms by (auto simp: map_eq_def list_all_iff)

lemma wf_eq_refl:
  "wf_data_type low a \<Longrightarrow> data_type_eq a a"
  "wf_struct_type low s \<Longrightarrow> struct_type_eq s s"
  "wf_struct_field low f \<Longrightarrow> struct_field_eq f f"
proof (induction a and s and f)
  case (StructType fs mc)
  have "distinct (map fst fs)"
    using StructType.prems by (metis distinct_map map_map wf_struct_type.simps)
  then show ?case
    using StructType by (auto intro!: map_eq_refl simp: list_all_iff snds.simps)
qed (auto simp: data_type_eq_iff intro: map_eq_refl)

lemma wf_can_read_as_refl:
  "wf_data_type low a \<Longrightarrow> data_type_can_read_as low a a = Inr ()"
  "wf_struct_type low s \<Longrightarrow> struct_type_can_read_as low s s = Inr ()"
  "wf_struct_field low f \<Longrightarrow> struct_field_can_read_as low f f = Inr ()"
proof (induction a and s and f)
  case (StructType fs mc)
  let ?s = "StructType fs mc"
  have "lower_lookup low ?s (sf_name f) = Some f \<and> struct_field_can_read_as low f f = Inr ()"
    if f: "f \<in> set (fields_of ?s)" for f
  proof -
    obtain n where n: "(n, f) \<in> set fs" using f by (auto simp: fields_of_def)
    then have wf: "n = sf_name f" "wf_struct_field low f" "distinct (map (low \<circ> fst) fs)"
      using StructType.prems by (auto simp: list_all_iff)
    have "distinct (map fst (map (\<lambda>(n, f). (low n, f)) fs))"
      using wf(3) by (simp add: case_prod_beta comp_def)
    then have "lower_lookup low ?s (sf_name f) = Some f"
      unfolding lower_lookup_def using n wf(1) by (intro map_of_is_SomeI) force+
    then show ?thesis using StructType.IH [OF n _ wf(2)] by (simp add: snds.simps)
  qed
  then show ?case using StructType.prems
    by (auto simp: struct_type_can_read_as_iff lower_names_def)
qed (auto simp: data_type_can_read_as_iff struct_field_can_read_as_iff wf_eq_refl)


text \<open>
  C37. Schema compatibility is a preorder: a well-formed schema can be read as itself, and if a
  schema can be read as a second one and that as a third, the first can be read as the third,
  so a chain of accepted schema changes is an accepted change.
\<close>

theorem can_read_as_preorder:
  "wf_struct_type low s \<Longrightarrow>
     struct_type_can_read_as low s s = Inr () \<and>
     (\<forall>t u. struct_type_can_read_as low s t = Inr () \<longrightarrow>
        struct_type_can_read_as low t u = Inr () \<longrightarrow> struct_type_can_read_as low s u = Inr ())"
  using wf_can_read_as_refl(2) can_read_as_trans(2) by blast

definition ex_schema :: struct_type where
  "ex_schema = StructType
     [(''id'', StructField ''id'' (Primitive PInteger) False []),
      (''tags'', StructField ''tags'' (ArrayType (Primitive PString) True) True [])] []"

theorem can_read_as_preorder_witness:
  "struct_type_can_read_as id ex_schema ex_schema = Inr ()"
proof -
  have "wf_struct_type id ex_schema" by (simp add: ex_schema_def)
  then show ?thesis using can_read_as_preorder by blast
qed

section \<open>Column paths\<close>

text \<open>The struct a column path passes through before its \<open>i\<close>-th name.\<close>

definition enclosing :: "struct_type \<Rightarrow> struct_field list \<Rightarrow> nat \<Rightarrow> struct_type option" where
  "enclosing st fs i =
     (if i = 0 then Some st
      else (case sf_data_type (fs ! (i - 1)) of StructT inner \<Rightarrow> Some inner | _ \<Rightarrow> None))"

lemma enclosing_Cons:
  "enclosing st (f # gs) (Suc i) =
     (case sf_data_type f of
        StructT inner \<Rightarrow> enclosing inner gs i
      | _ \<Rightarrow> if i = 0 then None else enclosing st gs i)"
  by (cases i) (auto simp: enclosing_def split: data_type.splits)

definition resolves :: "struct_type \<Rightarrow> string list \<Rightarrow> struct_field list \<Rightarrow> bool" where
  "resolves st path fs \<longleftrightarrow> length fs = length path \<and>
     (\<forall>i < length path. \<exists>s. enclosing st fs i = Some s \<and> struct_field_named s (path ! i) = Some (fs ! i))"

lemma resolves_Cons:
  "resolves st (name # path) fs \<longleftrightarrow>
     (\<exists>g gs. fs = g # gs \<and> struct_field_named st name = Some g \<and>
        (if path = [] then gs = []
         else \<exists>inner. sf_data_type g = StructT inner \<and> resolves inner path gs))"
proof (cases fs)
  case Nil
  then show ?thesis by (simp add: resolves_def)
next
  case (Cons g gs)
  have zero: "enclosing st (g # gs) 0 = Some st" by (simp add: enclosing_def)
  show ?thesis
  proof (cases "path = []")
    case True
    then show ?thesis by (auto simp: Cons resolves_def zero)
  next
    case False
    then have ne: "0 < length path" by simp
    show ?thesis
    proof (cases "\<exists>inner. sf_data_type g = StructT inner")
      case True
      then obtain inner where "sf_data_type g = StructT inner" by blast
      then show ?thesis using False
        by (simp add: Cons resolves_def zero All_less_Suc2 enclosing_Cons) blast
    next
      case not_struct: False
      then have "enclosing st (g # gs) (Suc 0) = None"
        by (simp add: enclosing_def split: data_type.splits)
      then show ?thesis using False not_struct ne
        by (auto simp: Cons resolves_def All_less_Suc2)
    qed
  qed
qed

lemma walk_fields_iff: "walk_fields st path = Inr fs \<longleftrightarrow> resolves st path fs"
proof (induction st path arbitrary: fs rule: walk_fields.induct)
  case (2 st name path)
  show ?case
  proof (cases "struct_field_named st name")
    case (Some g)
    then show ?thesis using "2.IH" [of g]
      by (cases "sf_data_type g") (auto simp: resolves_Cons rbind_Inr_iff)
  qed (simp add: resolves_Cons)
qed (auto simp: resolves_def)

text \<open>
  Column resolution: \<open>walk_column_fields\<close> returns one field for each name of a non-empty
  path, each found under its name in the struct the path has reached: the schema itself at the
  start, afterwards the struct type of the field before it. No other path resolves.
\<close>

theorem walk_column_fields_iff:
  "walk_column_fields st path = Inr fs \<longleftrightarrow>
     path \<noteq> [] \<and> length fs = length path \<and>
     (\<forall>i < length path. \<exists>s. enclosing st fs i = Some s \<and> struct_field_named s (path ! i) = Some (fs ! i))"
  by (simp add: walk_column_fields_def walk_fields_iff resolves_def)

section \<open>Compatible statistics\<close>

definition both_structs :: "data_type \<Rightarrow> data_type \<Rightarrow> bool" where
  "both_structs a b \<longleftrightarrow> (case (a, b) of (StructT _, StructT _) \<Rightarrow> True | _ \<Rightarrow> False)"

lemma wf_field_named:
  assumes "wf_struct_type low st" "struct_field_named st name = Some f"
  shows "name = sf_name f" "wf_struct_field low f" "f \<in> set (map snd (st_fields st))"
proof -
  have "(name, f) \<in> set (st_fields st)"
    using assms(2) by (auto simp: struct_field_named_def dest: map_of_SomeD)
  then show "name = sf_name f" "wf_struct_field low f" "f \<in> set (map snd (st_fields st))"
    using assms(1) by (cases st; force simp: list_all_iff)+
qed

lemma wf_field_in:
  assumes "wf_struct_type low st" "f \<in> set (map snd (st_fields st))"
  shows "struct_field_named st (sf_name f) = Some f"
proof -
  obtain fs mc where st: "st = StructType fs mc" by (cases st)
  have "(sf_name f, f) \<in> set fs" "distinct (map fst fs)"
    using assms by (auto simp: st list_all_iff distinct_map intro: inj_on_imageI2 comp_inj_on)
  then show ?thesis by (simp add: st struct_field_named_def)
qed

lemma structs_compatible_step:
  assumes "wf_struct_type low needed"
  shows "structs_have_compatible_types low available needed \<longleftrightarrow>
    (\<forall>name fn fa. struct_field_named needed name = Some fn \<longrightarrow>
       struct_field_named available name = Some fa \<longrightarrow>
       (case (sf_data_type fa, sf_data_type fn) of
          (StructT a, StructT n) \<Rightarrow> structs_have_compatible_types low a n
        | (a, n) \<Rightarrow> data_type_can_read_as low a n = Inr ()))"
proof -
  have ok: "(\<not> isl r) = (r = Inr ())" for r :: "schema_compare_error + unit" by (cases r) auto
  have split: "(case (sf_data_type fa, sf_data_type fn) of
          (StructT a, StructT n) \<Rightarrow> structs_have_compatible_types low a n
        | (a, n) \<Rightarrow> \<not> isl (data_type_can_read_as low a n)) =
      (case (sf_data_type fa, sf_data_type fn) of
          (StructT a, StructT n) \<Rightarrow> structs_have_compatible_types low a n
        | (a, n) \<Rightarrow> data_type_can_read_as low a n = Inr ())" for fa fn
    by (simp add: ok split: data_type.splits)
  show ?thesis
    unfolding structs_have_compatible_types.simps [of low available needed] split list_all_iff
    using wf_field_named [OF assms] wf_field_in [OF assms]
    by (fastforce split: option.splits)
qed

definition path_readable :: "(string \<Rightarrow> string) \<Rightarrow> struct_field list \<Rightarrow> struct_field list \<Rightarrow> bool" where
  "path_readable low fa fn \<longleftrightarrow>
     both_structs (sf_data_type (last fa)) (sf_data_type (last fn)) \<or>
     data_type_can_read_as low (sf_data_type (last fa)) (sf_data_type (last fn)) = Inr ()"

lemma compatible_path:
  assumes "structs_have_compatible_types low a n" "wf_struct_type low n"
    "path \<noteq> []" "resolves a path fa" "resolves n path fn"
  shows "path_readable low fa fn"
  using assms
proof (induction path arbitrary: a n fa fn)
  case (Cons name path)
  obtain f g fs gs where *: "fa = f # fs" "fn = g # gs"
    "struct_field_named a name = Some f" "struct_field_named n name = Some g"
    using Cons.prems by (auto simp: resolves_Cons)
  note step = Cons.prems(1) [unfolded structs_compatible_step [OF Cons.prems(2)], rule_format, OF *(4,3)]
  show ?case
  proof (cases "path = []")
    case True
    then show ?thesis using step Cons.prems(4,5)
      by (auto simp: * resolves_Cons path_readable_def both_structs_def split: data_type.splits)
  next
    case False
    then obtain s t where st: "sf_data_type f = StructT s" "sf_data_type g = StructT t"
      "resolves s path fs" "resolves t path gs"
      using Cons.prems(4,5) by (auto simp: * resolves_Cons)
    have "wf_struct_type low t"
      using wf_field_named(2) [OF Cons.prems(2) *(4)] st(2) by (cases g) auto
    moreover have "fs \<noteq> []" "gs \<noteq> []" using st(3,4) False by (auto simp: resolves_def)
    ultimately show ?thesis
      using Cons.IH [OF _ _ False st(3,4)] step st(1,2) by (simp add: * path_readable_def)
  qed
qed simp

lemma compatible_if_paths:
  assumes "\<forall>path fa fn. path \<noteq> [] \<longrightarrow> resolves available path fa \<longrightarrow> resolves needed path fn \<longrightarrow>
      path_readable low fa fn"
    and "wf_struct_type low needed"
  shows "structs_have_compatible_types low available needed"
  using assms
proof (induction low available needed rule: structs_have_compatible_types.induct)
  case (1 low available needed)
  show ?case unfolding structs_compatible_step [OF "1.prems"(2)]
  proof (intro allI impI)
    fix name fn fa
    assume fn: "struct_field_named needed name = Some fn" and fa: "struct_field_named available name = Some fa"
    note wf = wf_field_named [OF "1.prems"(2) fn]
    have leaf: "both_structs (sf_data_type fa) (sf_data_type fn) \<or>
        data_type_can_read_as low (sf_data_type fa) (sf_data_type fn) = Inr ()"
      using "1.prems"(1) [rule_format, of "[name]" "[fa]" "[fn]"] fn fa by (simp add: resolves_Cons path_readable_def)
    have inner: "structs_have_compatible_types low a n"
      if an: "sf_data_type fa = StructT a" "sf_data_type fn = StructT n" for a n
    proof (rule "1.IH" [OF wf(3) fa [unfolded wf(1)]])
      show "wf_struct_type low n" using wf(2) an(2) by (cases fn) auto
      show "\<forall>path fs gs. path \<noteq> [] \<longrightarrow> resolves a path fs \<longrightarrow> resolves n path gs \<longrightarrow>
        path_readable low fs gs"
      proof (intro allI impI)
        fix path fs gs assume p: "path \<noteq> []" "resolves a path fs" "resolves n path gs"
        then have "fs \<noteq> []" "gs \<noteq> []" by (auto simp: resolves_def)
        then show "path_readable low fs gs"
          using "1.prems"(1) [rule_format, of "name # path" "fa # fs" "fn # gs"] p fn fa an
          by (simp add: resolves_Cons path_readable_def)
      qed
    qed (use an in auto)
    show "case (sf_data_type fa, sf_data_type fn) of
        (StructT a, StructT n) \<Rightarrow> structs_have_compatible_types low a n
      | (a, n) \<Rightarrow> data_type_can_read_as low a n = Inr ()"
      using leaf inner by (auto simp: both_structs_def split: data_type.splits)
  qed
qed

lemma compatible_paths:
  assumes "wf_struct_type low needed"
  shows "structs_have_compatible_types low available needed \<longleftrightarrow>
    (\<forall>path fa fn. path \<noteq> [] \<longrightarrow> resolves available path fa \<longrightarrow> resolves needed path fn \<longrightarrow>
       path_readable low fa fn)"
  using compatible_path compatible_if_paths assms by blast

lemma add_substruct_iff:
  "add_substruct cs name = Some s \<longleftrightarrow>
     (\<exists>fs. walk_column_fields cs [''add'', name] = Inr fs \<and> sf_data_type (last fs) = StructT s)"
  by (auto simp: add_substruct_def walk_column_fields_def rbind_Inr_iff ok_or_Inr
      split: option.splits data_type.splits)

lemma stats_field_compatible_iff:
  assumes "wf_struct_type low n"
  shows "stats_field_compatible low s n m \<longleftrightarrow>
    (\<forall>f. struct_field_named s m = Some f \<longrightarrow> (\<exists>v. sf_data_type f = StructT v)) \<and>
    (\<forall>path fa fn. path \<noteq> [] \<longrightarrow> walk_column_fields s (m # path) = Inr fa \<longrightarrow>
       walk_column_fields n (m # path) = Inr fn \<longrightarrow> path_readable low fa fn)"
proof -
  have wf: "wf_struct_type low v" if "struct_field_named n m = Some f" "sf_data_type f = StructT v" for f v
    using wf_field_named(2) [OF assms that(1)] that(2) by (cases f) auto
  have shift: "path_readable low (f # fa) (g # fn) \<longleftrightarrow> path_readable low fa fn"
    if "path \<noteq> []" "resolves u path fa" "resolves v path fn" for u v path f g fa fn
    using that by (auto simp: path_readable_def resolves_def)
  show ?thesis
    unfolding stats_field_compatible_def
    by (auto simp: walk_column_fields_def walk_fields_iff resolves_Cons compatible_paths wf
        split: option.splits data_type.splits simp del: walk_fields.simps) (metis shift)+
qed

text \<open>
  Using the parsed statistics of a checkpoint: they are accepted exactly when
  \<open>add.stats_parsed\<close> resolves to a struct whose \<open>minValues\<close> and \<open>maxValues\<close>, where present,
  are structs, and every column path under them that the needed statistics schema has too ends
  in two structs or in a type that can be read as the needed one. Columns missing on either
  side never disqualify a checkpoint.
\<close>

theorem stats_parsed_compatible_iff:
  "wf_struct_type low stats_schema \<Longrightarrow>
     schema_has_compatible_stats_parsed low checkpoint_schema stats_schema \<longleftrightarrow>
     (\<exists>fs s. walk_column_fields checkpoint_schema [''add'', ''stats_parsed''] = Inr fs \<and>
        sf_data_type (last fs) = StructT s \<and>
        list_all (\<lambda>m.
          (\<forall>f. struct_field_named s m = Some f \<longrightarrow> (\<exists>v. sf_data_type f = StructT v)) \<and>
          (\<forall>path fa fn. path \<noteq> [] \<longrightarrow> walk_column_fields s (m # path) = Inr fa \<longrightarrow>
             walk_column_fields stats_schema (m # path) = Inr fn \<longrightarrow> path_readable low fa fn))
          [''minValues'', ''maxValues''])"
proof -
  assume wf: "wf_struct_type low stats_schema"
  have "schema_has_compatible_stats_parsed low checkpoint_schema stats_schema \<longleftrightarrow>
      (\<exists>s. add_substruct checkpoint_schema ''stats_parsed'' = Some s \<and>
         list_all (stats_field_compatible low s stats_schema) [''minValues'', ''maxValues''])"
    by (simp add: schema_has_compatible_stats_parsed_def split: option.splits)
  then show ?thesis
    unfolding add_substruct_iff stats_field_compatible_iff [OF wf, abs_def] by blast
qed


definition ex_checkpoint_schema :: struct_type where
  "ex_checkpoint_schema = StructType
     [(''add'', StructField ''add'' (StructT (StructType
        [(''stats_parsed'', StructField ''stats_parsed'' (StructT (StructType
           [(''minValues'', StructField ''minValues'' (StructT ex_schema) True [])] [])) True [])]
        [])) True [])] []"

definition ex_stats_schema :: struct_type where
  "ex_stats_schema = StructType
     [(''minValues'', StructField ''minValues'' (StructT (StructType
        [(''id'', StructField ''id'' (Primitive PLong) True [])] [])) True [])] []"

theorem stats_parsed_compatible_iff_witness:
  "walk_column_fields ex_checkpoint_schema [''add'', ''stats_parsed''] \<noteq> Inr [] \<and>
   schema_has_compatible_stats_parsed id ex_checkpoint_schema ex_stats_schema =
     (\<exists>fs s. walk_column_fields ex_checkpoint_schema [''add'', ''stats_parsed''] = Inr fs \<and>
        sf_data_type (last fs) = StructT s \<and>
        list_all (\<lambda>m.
          (\<forall>f. struct_field_named s m = Some f \<longrightarrow> (\<exists>v. sf_data_type f = StructT v)) \<and>
          (\<forall>path fa fn. path \<noteq> [] \<longrightarrow> walk_column_fields s (m # path) = Inr fa \<longrightarrow>
             walk_column_fields ex_stats_schema (m # path) = Inr fn \<longrightarrow> path_readable id fa fn))
          [''minValues'', ''maxValues''])"
proof -
  have "wf_struct_type id ex_stats_schema" by (simp add: ex_stats_schema_def)
  moreover have "walk_column_fields ex_checkpoint_schema [''add'', ''stats_parsed''] \<noteq> Inr []"
    by (simp add: walk_column_fields_def ex_checkpoint_schema_def struct_field_named_def)
  ultimately show ?thesis using stats_parsed_compatible_iff by blast
qed

section \<open>Editing operations\<close>

lemma get_index_of_iff:
  "get_index_of m k = Some i \<Longrightarrow> i < length m \<and> fst (m ! i) = k"
  by (induction m k arbitrary: i rule: get_index_of.induct) (auto split: if_splits)

lemma get_index_of_append_fresh:
  "k \<notin> fst ` set xs \<Longrightarrow> get_index_of (xs @ (k, v) # ys) k = Some (length xs)"
  by (induction xs) auto

lemma map_of_insert_at:
  assumes "k \<notin> fst ` set m"
  shows "map_of (insert_at i (k, v) m) = (map_of m)(k \<mapsto> v)"
proof -
  have "map_of m = map_of (drop i m) ++ map_of (take i m)"
    by (metis append_take_drop_id map_of_append)
  moreover have "map_of (take i m) k = None"
    using assms by (metis (no_types) image_mono map_of_eq_None_iff set_take_subset subsetD)
  ultimately show ?thesis
    by (auto simp: insert_at_def map_add_def fun_eq_iff split: option.splits)
qed

text \<open>
  The editing operations: an accepted insertion adds the new field, under its own name and
  directly after (or before) the anchor, and leaves every other lookup alone; it is rejected
  exactly when the name is taken or the anchor is missing. Removal deletes that one name and
  replacement changes that one entry.
\<close>

theorem edit_operations:
  "(\<forall>a. case with_field_inserted_after st (Some a) f of
     Inl _ \<Rightarrow> contains_field st (sf_name f) \<or> index_of st a = None
   | Inr st' \<Rightarrow> \<not> contains_field st (sf_name f) \<and>
       struct_field_named st' = (struct_field_named st)(sf_name f \<mapsto> f) \<and>
       index_of st' (sf_name f) = map_option Suc (index_of st a)) \<and>
   (\<forall>b. case with_field_inserted_before st (Some b) f of
     Inl _ \<Rightarrow> contains_field st (sf_name f) \<or> index_of st b = None
   | Inr st' \<Rightarrow> \<not> contains_field st (sf_name f) \<and>
       struct_field_named st' = (struct_field_named st)(sf_name f \<mapsto> f) \<and>
       index_of st' (sf_name f) = index_of st b) \<and>
   struct_field_named (with_field_removed st name) = (struct_field_named st)(name := None) \<and>
   (case with_field_replaced st name f of
     Inl _ \<Rightarrow> \<not> contains_field st name
   | Inr st' \<Rightarrow> contains_field st name \<and>
       struct_field_named st' = (struct_field_named st)(name \<mapsto> f))"
proof -
  have idx: "get_index_of (insert_at i (k, f) m) k = Some i"
    if "i \<le> length m" "k \<notin> fst ` set m" for i k and m :: "(string \<times> struct_field) list"
  proof -
    have "k \<notin> fst ` set (take i m)" using that(2) set_take_subset by fastforce
    then show ?thesis using that(1) by (simp add: insert_at_def get_index_of_append_fresh)
  qed
  have fresh: "\<not> contains_field st k \<longleftrightarrow> k \<notin> fst ` set (st_fields st)" for k
    by (simp add: contains_field_def map_of_eq_None_iff)
  have snf: "struct_field_named (StructType m mc) = map_of m" for m mc
    by (simp add: fun_eq_iff struct_field_named_def)
  have snf0: "struct_field_named st = map_of (st_fields st)"
    by (simp add: fun_eq_iff struct_field_named_def)
  note facts = with_field_inserted_after_def with_field_inserted_before_def index_of_def
    snf snf0 map_of_insert_at
  have after: "case with_field_inserted_after st (Some a) f of
     Inl _ \<Rightarrow> contains_field st (sf_name f) \<or> index_of st a = None
   | Inr st' \<Rightarrow> \<not> contains_field st (sf_name f) \<and>
       struct_field_named st' = (struct_field_named st)(sf_name f \<mapsto> f) \<and>
       index_of st' (sf_name f) = map_option Suc (index_of st a)" for a
    using get_index_of_iff [of "st_fields st" a]
    by (cases "get_index_of (st_fields st) a") (auto simp: facts fresh idx)
  have before: "case with_field_inserted_before st (Some b) f of
     Inl _ \<Rightarrow> contains_field st (sf_name f) \<or> index_of st b = None
   | Inr st' \<Rightarrow> \<not> contains_field st (sf_name f) \<and>
       struct_field_named st' = (struct_field_named st)(sf_name f \<mapsto> f) \<and>
       index_of st' (sf_name f) = index_of st b" for b
    using get_index_of_iff [of "st_fields st" b]
    by (cases "get_index_of (st_fields st) b") (auto simp: facts fresh idx)
  show ?thesis using after before
    by (auto simp: with_field_removed_def with_field_replaced_def snf snf0 delete_conv' update_conv')
qed

text \<open>
  The metadata column index is not maintained by the editing operations: after an insertion
  before a metadata column the index points at the field that moved into its place.
\<close>

lemma inserted_before_stale_metadata_index:
  "\<exists>st st'. struct_try_new id [create_metadata_column ''pos'' RowIndex] = Inr st \<and>
     with_field_inserted_before st None (StructField ''a'' (Primitive PString) True []) = Inr st' \<and>
     metadata_column st' RowIndex = Some (StructField ''a'' (Primitive PString) True [])"
  by (simp add: struct_try_new_def create_metadata_column_def is_primitive_def
      get_metadata_column_spec_def METADATA_SPEC_KEY_def spec_from_str_def
      with_field_inserted_before_def contains_field_def insert_at_def metadata_column_def
      field_at_index_def)

text \<open>
  The nested metadata check looks at a struct that is an array element, but not at one below an
  array of arrays, so a metadata column can be nested there.
\<close>

lemma nested_metadata_below_array_of_arrays:
  "\<exists>inner. struct_try_new id [create_metadata_column ''pos'' RowIndex] = Inr inner \<and>
     \<not> isl (struct_try_new id
        [StructField ''a'' (ArrayType (ArrayType (StructT inner) False) False) True []])"
  by (simp add: struct_try_new_def create_metadata_column_def is_primitive_def
      get_metadata_column_spec_def METADATA_SPEC_KEY_def spec_from_str_def
      ensure_no_metadata_columns_in_field.simps is_metadata_column_def)

theorem walk_column_fields_iff_witness:
  "\<exists>fs. walk_column_fields ex_checkpoint_schema [''add'', ''stats_parsed''] = Inr fs \<and>
     length fs = 2 \<and> (\<exists>s. enclosing ex_checkpoint_schema fs 1 = Some s \<and>
       struct_field_named s ''stats_parsed'' = Some (fs ! 1))"
proof -
  obtain fs where fs: "walk_column_fields ex_checkpoint_schema [''add'', ''stats_parsed''] = Inr fs"
    by (simp add: walk_column_fields_def ex_checkpoint_schema_def struct_field_named_def)
  then have "length fs = length [''add'', ''stats_parsed''] \<and>
     (\<forall>i < length [''add'', ''stats_parsed'']. \<exists>s. enclosing ex_checkpoint_schema fs i = Some s \<and>
       struct_field_named s ([''add'', ''stats_parsed''] ! i) = Some (fs ! i))"
    using walk_column_fields_iff by blast
  then show ?thesis using fs by (intro exI [of _ fs]) (auto simp: less_Suc_eq)
qed

end
