(* ===== verification/Scalars.thy ===== *)
theory Scalars
  imports Schema LogPath "HOL-Library.Char_ord" "HOL-Library.List_Lexorder" "HOL-Library.Signed_Division"
begin

text \<open>
  Literal values: \<open>expressions/scalars.rs\<close>. Signed integers are words read with \<open>sint\<close>, the
  floating point types are their IEEE bit patterns, a string is its sequence of bytes and a
  decimal holds its unscaled \<open>i128\<close> value as an integer. The model has the checked constructors
  of compound values, the checked arithmetic, the logical (SQL) comparison, the printing of
  decimals and the parsing of partition values. The parsers of \<open>f32\<close> and \<open>f64\<close> in the standard
  library and of dates and timestamps in \<open>chrono\<close> are parameters.
\<close>

section \<open>Values\<close>

text \<open>\<open>DecimalData\<close>, \<open>ArrayData\<close>, \<open>MapData\<close> and \<open>StructData\<close> are the arguments of their variants.\<close>

datatype decimal_data = DecimalData (dd_bits: int) (dd_ty: decimal_type)

datatype scalar =
    Integer "32 word"
  | Long "64 word"
  | Short "16 word"
  | Byte "8 word"
  | Float "32 word"
  | Double "64 word"
  | String string
  | Boolean bool
  | Timestamp "64 word"
  | TimestampNtz "64 word"
  | Date "32 word"
  | Binary "8 word list"
  | Decimal decimal_data
  | Null data_type
  | StructS "struct_field list" "scalar list"
  | ArrayS data_type bool "scalar list"
  | MapS data_type data_type bool "(scalar \<times> scalar) list"

fun scalar_data_type :: "scalar \<Rightarrow> data_type" where
  "scalar_data_type (Integer _) = Primitive PInteger"
| "scalar_data_type (Long _) = Primitive PLong"
| "scalar_data_type (Short _) = Primitive PShort"
| "scalar_data_type (Byte _) = Primitive PByte"
| "scalar_data_type (Float _) = Primitive PFloat"
| "scalar_data_type (Double _) = Primitive PDouble"
| "scalar_data_type (String _) = Primitive PString"
| "scalar_data_type (Boolean _) = Primitive PBoolean"
| "scalar_data_type (Timestamp _) = Primitive PTimestamp"
| "scalar_data_type (TimestampNtz _) = Primitive PTimestampNtz"
| "scalar_data_type (Date _) = Primitive PDate"
| "scalar_data_type (Binary _) = Primitive PBinary"
| "scalar_data_type (Decimal d) = Primitive (PDecimal (dd_ty d))"
| "scalar_data_type (Null dt) = dt"
| "scalar_data_type (StructS fs vs) = StructT (new_unchecked fs)"
| "scalar_data_type (ArrayS e n es) = ArrayType e n"
| "scalar_data_type (MapS k v n ps) = MapType k v n"

fun scalar_is_null :: "scalar \<Rightarrow> bool" where
  "scalar_is_null (Null _) = True"
| "scalar_is_null _ = False"

section \<open>Checked constructors\<close>

text \<open>
  \<open>get_decimal_precision\<close>: the number of decimal digits of the magnitude, 0 for 0
  (\<open>checked_ilog10\<close> plus one).
\<close>

fun decimal_digits :: "nat \<Rightarrow> nat" where
  "decimal_digits n = (if n = 0 then 0 else Suc (decimal_digits (n div 10)))"

declare decimal_digits.simps [simp del]

definition get_decimal_precision :: "int \<Rightarrow> nat" where
  "get_decimal_precision bits = decimal_digits (nat \<bar>bits\<bar>)"

definition decimal_data_try_new :: "int \<Rightarrow> decimal_type \<Rightarrow> decimal_data delta_result" where
  "decimal_data_try_new bits ty =
     rbind (require (dt_precision ty \<ge> get_decimal_precision bits)
              (InvalidDecimal ''Decimal value exceeds precision''))
       (\<lambda>_. Inr (DecimalData bits ty))"

definition scalar_decimal :: "int \<Rightarrow> nat \<Rightarrow> nat \<Rightarrow> scalar delta_result" where
  "scalar_decimal bits precision scale =
     rbind (decimal_type_try_new precision scale) (\<lambda>dtype.
     rbind (decimal_data_try_new bits dtype) (\<lambda>dval. Inr (Decimal dval)))"

definition check_array_element :: "data_type \<Rightarrow> bool \<Rightarrow> scalar \<Rightarrow> scalar delta_result" where
  "check_array_element elem cn v =
     (if \<not> cn \<and> scalar_is_null v
      then Inl (SchemaError ''Array element cannot be null for non-nullable array'')
      else if \<not> data_type_eq elem (scalar_data_type v)
      then Inl (SchemaError ''Array scalar type mismatch'')
      else Inr v)"

definition array_data_try_new :: "data_type \<Rightarrow> bool \<Rightarrow> scalar list \<Rightarrow> scalar delta_result" where
  "array_data_try_new elem cn elements =
     rbind (collect_results (map (check_array_element elem cn) elements))
       (\<lambda>es. Inr (ArrayS elem cn es))"

definition check_map_pair ::
  "data_type \<Rightarrow> data_type \<Rightarrow> bool \<Rightarrow> scalar \<times> scalar \<Rightarrow> (scalar \<times> scalar) delta_result" where
  "check_map_pair kt vt vcn = (\<lambda>(k, v).
     if \<not> data_type_eq (scalar_data_type k) kt
     then Inl (SchemaError ''Map scalar type mismatch: key type'')
     else if scalar_is_null k then Inl (SchemaError ''Map key cannot be null'')
     else if \<not> data_type_eq (scalar_data_type v) vt
     then Inl (SchemaError ''Map scalar type mismatch: value type'')
     else if scalar_is_null v \<and> \<not> vcn
     then Inl (SchemaError ''Null map value disallowed if map value_contains_null is false'')
     else Inr (k, v))"

definition map_data_try_new ::
  "data_type \<Rightarrow> data_type \<Rightarrow> bool \<Rightarrow> (scalar \<times> scalar) list \<Rightarrow> scalar delta_result" where
  "map_data_try_new kt vt vcn pairs =
     rbind (collect_results (map (check_map_pair kt vt vcn) pairs)) (\<lambda>ps. Inr (MapS kt vt vcn ps))"

definition check_struct_value :: "struct_field \<times> scalar \<Rightarrow> unit delta_result" where
  "check_struct_value = (\<lambda>(f, a).
     rbind (require (data_type_eq (sf_data_type f) (scalar_data_type a))
              (InvalidStructData ''Incorrect datatype for Struct field''))
     (\<lambda>_. require (sf_nullable f \<or> \<not> scalar_is_null a)
              (InvalidStructData ''Value for non-nullable field cannot be null'')))"

definition struct_data_try_new :: "struct_field list \<Rightarrow> scalar list \<Rightarrow> scalar delta_result" where
  "struct_data_try_new fs vals =
     rbind (require (length fs = length vals)
              (InvalidStructData ''Incorrect number of values for Struct fields''))
     (\<lambda>_. rbind (try_for_each check_struct_value (zip fs vals))
     (\<lambda>_. Inr (StructS fs vals)))"

section \<open>Checked arithmetic\<close>

text \<open>\<open>checked_add\<close> and friends: the exact result when it fits the type.\<close>

definition fit_signed :: "int \<Rightarrow> 'a::len word option" where
  "fit_signed r =
     (if - (2 ^ (LENGTH('a) - 1)) \<le> r \<and> r < 2 ^ (LENGTH('a) - 1) then Some (word_of_int r) else None)"

definition checked_add :: "'a::len word \<Rightarrow> 'a word \<Rightarrow> 'a word option" where
  "checked_add a b = fit_signed (sint a + sint b)"

definition checked_sub :: "'a::len word \<Rightarrow> 'a word \<Rightarrow> 'a word option" where
  "checked_sub a b = fit_signed (sint a - sint b)"

definition checked_mul :: "'a::len word \<Rightarrow> 'a word \<Rightarrow> 'a word option" where
  "checked_mul a b = fit_signed (sint a * sint b)"

definition checked_div :: "'a::len word \<Rightarrow> 'a word \<Rightarrow> 'a word option" where
  "checked_div a b = (if b = 0 then None else fit_signed (sint a sdiv sint b))"

definition try_add :: "scalar \<Rightarrow> scalar \<Rightarrow> scalar option" where
  "try_add s t =
     (case s of
        Integer a \<Rightarrow> (case t of Integer b \<Rightarrow> map_option Integer (checked_add a b) | _ \<Rightarrow> None)
      | Long a \<Rightarrow> (case t of Long b \<Rightarrow> map_option Long (checked_add a b) | _ \<Rightarrow> None)
      | Short a \<Rightarrow> (case t of Short b \<Rightarrow> map_option Short (checked_add a b) | _ \<Rightarrow> None)
      | Byte a \<Rightarrow> (case t of Byte b \<Rightarrow> map_option Byte (checked_add a b) | _ \<Rightarrow> None)
      | _ \<Rightarrow> None)"

definition try_sub :: "scalar \<Rightarrow> scalar \<Rightarrow> scalar option" where
  "try_sub s t =
     (case s of
        Integer a \<Rightarrow> (case t of Integer b \<Rightarrow> map_option Integer (checked_sub a b) | _ \<Rightarrow> None)
      | Long a \<Rightarrow> (case t of Long b \<Rightarrow> map_option Long (checked_sub a b) | _ \<Rightarrow> None)
      | Short a \<Rightarrow> (case t of Short b \<Rightarrow> map_option Short (checked_sub a b) | _ \<Rightarrow> None)
      | Byte a \<Rightarrow> (case t of Byte b \<Rightarrow> map_option Byte (checked_sub a b) | _ \<Rightarrow> None)
      | _ \<Rightarrow> None)"

definition try_mul :: "scalar \<Rightarrow> scalar \<Rightarrow> scalar option" where
  "try_mul s t =
     (case s of
        Integer a \<Rightarrow> (case t of Integer b \<Rightarrow> map_option Integer (checked_mul a b) | _ \<Rightarrow> None)
      | Long a \<Rightarrow> (case t of Long b \<Rightarrow> map_option Long (checked_mul a b) | _ \<Rightarrow> None)
      | Short a \<Rightarrow> (case t of Short b \<Rightarrow> map_option Short (checked_mul a b) | _ \<Rightarrow> None)
      | Byte a \<Rightarrow> (case t of Byte b \<Rightarrow> map_option Byte (checked_mul a b) | _ \<Rightarrow> None)
      | _ \<Rightarrow> None)"

definition try_div :: "scalar \<Rightarrow> scalar \<Rightarrow> scalar option" where
  "try_div s t =
     (case s of
        Integer a \<Rightarrow> (case t of Integer b \<Rightarrow> map_option Integer (checked_div a b) | _ \<Rightarrow> None)
      | Long a \<Rightarrow> (case t of Long b \<Rightarrow> map_option Long (checked_div a b) | _ \<Rightarrow> None)
      | Short a \<Rightarrow> (case t of Short b \<Rightarrow> map_option Short (checked_div a b) | _ \<Rightarrow> None)
      | Byte a \<Rightarrow> (case t of Byte b \<Rightarrow> map_option Byte (checked_div a b) | _ \<Rightarrow> None)
      | _ \<Rightarrow> None)"

section \<open>Logical comparison\<close>

text \<open>
  \<open>f32::partial_cmp\<close> and \<open>f64::partial_cmp\<close> on bit patterns with \<open>m\<close> mantissa bits: a NaN is
  incomparable; every other value is ordered by sign and magnitude, and the two zeros are equal.
\<close>

definition float_magnitude :: "'a::len word \<Rightarrow> nat" where
  "float_magnitude w = unat w mod 2 ^ (LENGTH('a) - 1)"

definition float_is_nan :: "nat \<Rightarrow> 'a::len word \<Rightarrow> bool" where
  "float_is_nan m w = ((2 ^ (LENGTH('a) - 1) - 2 ^ m) < float_magnitude w)"

definition float_key :: "'a::len word \<Rightarrow> int" where
  "float_key w = (if unat w \<ge> 2 ^ (LENGTH('a) - 1) then - int (float_magnitude w)
                  else int (float_magnitude w))"

definition float_partial_cmp :: "nat \<Rightarrow> 'a::len word \<Rightarrow> 'a word \<Rightarrow> ordering option" where
  "float_partial_cmp m a b =
     (if float_is_nan m a \<or> float_is_nan m b then None else Some (cmp (float_key a) (float_key b)))"

definition logical_partial_cmp :: "scalar \<Rightarrow> scalar \<Rightarrow> ordering option" where
  "logical_partial_cmp s t =
     (case s of
        Integer a \<Rightarrow> (case t of Integer b \<Rightarrow> Some (cmp (sint a) (sint b)) | _ \<Rightarrow> None)
      | Long a \<Rightarrow> (case t of Long b \<Rightarrow> Some (cmp (sint a) (sint b)) | _ \<Rightarrow> None)
      | Short a \<Rightarrow> (case t of Short b \<Rightarrow> Some (cmp (sint a) (sint b)) | _ \<Rightarrow> None)
      | Byte a \<Rightarrow> (case t of Byte b \<Rightarrow> Some (cmp (sint a) (sint b)) | _ \<Rightarrow> None)
      | Float a \<Rightarrow> (case t of Float b \<Rightarrow> float_partial_cmp 23 a b | _ \<Rightarrow> None)
      | Double a \<Rightarrow> (case t of Double b \<Rightarrow> float_partial_cmp 52 a b | _ \<Rightarrow> None)
      | String a \<Rightarrow> (case t of String b \<Rightarrow> Some (cmp a b) | _ \<Rightarrow> None)
      | Boolean a \<Rightarrow> (case t of Boolean b \<Rightarrow> Some (cmp a b) | _ \<Rightarrow> None)
      | Timestamp a \<Rightarrow> (case t of Timestamp b \<Rightarrow> Some (cmp (sint a) (sint b)) | _ \<Rightarrow> None)
      | TimestampNtz a \<Rightarrow> (case t of TimestampNtz b \<Rightarrow> Some (cmp (sint a) (sint b)) | _ \<Rightarrow> None)
      | Date a \<Rightarrow> (case t of Date b \<Rightarrow> Some (cmp (sint a) (sint b)) | _ \<Rightarrow> None)
      | Binary a \<Rightarrow> (case t of Binary b \<Rightarrow> Some (cmp a b) | _ \<Rightarrow> None)
      | Decimal a \<Rightarrow> (case t of Decimal b \<Rightarrow> (if dd_ty a = dd_ty b then Some (cmp (dd_bits a) (dd_bits b)) else None) | _ \<Rightarrow> None)
      | _ \<Rightarrow> None)"

definition logical_eq :: "scalar \<Rightarrow> scalar \<Rightarrow> bool" where
  "logical_eq a b = (logical_partial_cmp a b = Some Equal)"

section \<open>Printing and parsing\<close>

definition show_int :: "int \<Rightarrow> string" where
  "show_int i = (if i < 0 then CHR ''-'' # show_nat (nat (- i)) else show_nat (nat i))"

text \<open>
  The \<open>Decimal\<close> case of \<open>Display for Scalar\<close>: integer part, point, and the remainder printed
  with \<open>{:0>scale$}\<close>, both with Rust's division towards zero. The scale is unsigned, so the
  third arm of the match is never taken.
\<close>

definition display_decimal :: "decimal_data \<Rightarrow> string" where
  "display_decimal d =
     (let scale = dt_scale (dd_ty d) in
      if scale = 0 then show_int (dd_bits d)
      else show_int (dd_bits d sdiv 10 ^ scale) @ ''.'' @
           pad_zeros scale (show_int (dd_bits d smod 10 ^ scale)))"

text \<open>\<open>str::parse\<close> for a signed integer type of \<open>w\<close> bits.\<close>

definition parse_sint :: "nat \<Rightarrow> string \<Rightarrow> int option" where
  "parse_sint w s =
     (let (neg, ds) = (case s of
            c # d # r \<Rightarrow> if c = CHR ''-'' then (True, d # r)
                        else if c = CHR ''+'' then (False, d # r) else (False, s)
          | _ \<Rightarrow> (False, s));
          v = (if neg then - int (nat_of_digits ds) else int (nat_of_digits ds))
      in if ds = [] \<or> \<not> list_all is_digit ds then None
         else if - (2 ^ (w - 1)) \<le> v \<and> v < 2 ^ (w - 1) then Some v else None)"

text \<open>The external parsers \<open>parse_scalar\<close> calls.\<close>

record ('d, 'dt) scalar_parsers =
  parse_f32 :: "string \<Rightarrow> 32 word option"
  parse_f64 :: "string \<Rightarrow> 64 word option"
  date_parse_from_str :: "string \<Rightarrow> string \<Rightarrow> 'd option"
  and_hms_opt :: "'d \<Rightarrow> 'dt option"
  datetime_parse_from_str :: "string \<Rightarrow> string \<Rightarrow> 'dt option"
  num_days_since_epoch :: "'dt \<Rightarrow> int"
  num_microseconds_since_epoch :: "'dt \<Rightarrow> 64 word option"

definition parse_str_as_scalar :: "('a \<Rightarrow> scalar) \<Rightarrow> string \<Rightarrow> 'a option \<Rightarrow> scalar delta_result" where
  "parse_str_as_scalar f raw parsed =
     (case parsed of Some val \<Rightarrow> Inr (f val) | None \<Rightarrow> Inl (ParseError raw))"

definition split_exponent :: "string \<Rightarrow> string \<times> string option" where
  "split_exponent raw =
     (let base = takeWhile (\<lambda>c. c \<noteq> CHR ''e'' \<and> c \<noteq> CHR ''E'') raw;
          rest = dropWhile (\<lambda>c. c \<noteq> CHR ''e'' \<and> c \<noteq> CHR ''E'') raw
      in (base, if rest = [] then None else Some (tl rest)))"

definition split_fraction :: "string \<Rightarrow> string \<times> string option" where
  "split_fraction base =
     (let int_part = takeWhile (\<lambda>c. c \<noteq> CHR ''.'') base;
          rest = dropWhile (\<lambda>c. c \<noteq> CHR ''.'') base
      in (int_part, if rest = [] \<or> tl rest = [] then None else Some (tl rest)))"

text \<open>
  \<open>parse_decimal\<close>. The difference \<open>frac_digits - exp\<close> leaves the range of \<open>i128\<close> only for the
  smallest exponent; the wrapped value is negative and the exact one too large for \<open>u8\<close>, so both
  end in the same parse error.
\<close>

definition parse_decimal :: "string \<Rightarrow> decimal_type \<Rightarrow> scalar delta_result" where
  "parse_decimal raw dtype =
     (case split_exponent raw of (base, exp_str) \<Rightarrow>
      rbind (case exp_str of None \<Rightarrow> Inr 0 | Some e \<Rightarrow> ok_or (parse_sint 128 e) ParseIntError) (\<lambda>exp.
      rbind (require (base \<noteq> []) (ParseError raw)) (\<lambda>_.
      case split_fraction base of (int_part, frac_part) \<Rightarrow>
        (let frac_digits = (case frac_part of None \<Rightarrow> 0 | Some f \<Rightarrow> int (length f));
             scale = frac_digits - exp
         in rbind (require (0 \<le> scale \<and> scale < 256) (ParseError raw)) (\<lambda>_.
            rbind (require (nat scale = dt_scale dtype) (ParseError raw)) (\<lambda>_.
            rbind (ok_or (parse_sint 128 (case frac_part of None \<Rightarrow> int_part | Some f \<Rightarrow> int_part @ f))
                     ParseIntError) (\<lambda>i.
            rbind (decimal_data_try_new i dtype) (\<lambda>d. Inr (Decimal d)))))))))"

text \<open>\<open>eq_ignore_ascii_case\<close>.\<close>

definition ascii_lower :: "char \<Rightarrow> char" where
  "ascii_lower c = (let n = (of_char c :: nat) in if 65 \<le> n \<and> n \<le> 90 then char_of (n + 32) else c)"

definition eq_ignore_ascii_case :: "string \<Rightarrow> string \<Rightarrow> bool" where
  "eq_ignore_ascii_case a b = (map ascii_lower a = map ascii_lower b)"

definition parse_scalar ::
  "('d, 'dt) scalar_parsers \<Rightarrow> primitive_type \<Rightarrow> string \<Rightarrow> scalar delta_result" where
  "parse_scalar P ty raw =
     (if raw = [] then Inr (Null (Primitive ty))
      else (case ty of
        PString \<Rightarrow> Inr (String raw)
      | PBinary \<Rightarrow> Inr (Binary (map of_char raw))
      | PByte \<Rightarrow> parse_str_as_scalar (Byte \<circ> word_of_int) raw (parse_sint 8 raw)
      | PDecimal dtype \<Rightarrow> parse_decimal raw dtype
      | PShort \<Rightarrow> parse_str_as_scalar (Short \<circ> word_of_int) raw (parse_sint 16 raw)
      | PInteger \<Rightarrow> parse_str_as_scalar (Integer \<circ> word_of_int) raw (parse_sint 32 raw)
      | PLong \<Rightarrow> parse_str_as_scalar (Long \<circ> word_of_int) raw (parse_sint 64 raw)
      | PFloat \<Rightarrow> parse_str_as_scalar Float raw (parse_f32 P raw)
      | PDouble \<Rightarrow> parse_str_as_scalar Double raw (parse_f64 P raw)
      | PBoolean \<Rightarrow>
          (if eq_ignore_ascii_case raw ''true'' then Inr (Boolean True)
           else if eq_ignore_ascii_case raw ''false'' then Inr (Boolean False)
           else Inl (ParseError raw))
      | PDate \<Rightarrow>
          rbind (ok_or (date_parse_from_str P raw ''%Y-%m-%d'') (ParseError raw)) (\<lambda>d.
          rbind (ok_or (and_hms_opt P d) (ParseError raw)) (\<lambda>dt.
          Inr (Date (word_of_int (num_days_since_epoch P dt)))))
      | _ \<Rightarrow>
          (let first = datetime_parse_from_str P raw ''%Y-%m-%d %H:%M:%S%.f'';
               parsed = (if first = None \<and> ty = PTimestamp
                         then datetime_parse_from_str P raw ''%+'' else first)
           in rbind (ok_or parsed (ParseError raw)) (\<lambda>dt.
              rbind (ok_or (num_microseconds_since_epoch P dt) (ParseError raw)) (\<lambda>micros.
              Inr (if ty = PTimestamp then Timestamp micros else TimestampNtz micros))))))"

section \<open>Comparison laws\<close>

fun reverse :: "ordering \<Rightarrow> ordering" where
  "reverse Less = Greater"
| "reverse Equal = Equal"
| "reverse Greater = Less"

text \<open>
  What the evaluators rely on: a comparison is antisymmetric, equality is a congruence and the
  strict order is transitive wherever the comparison is defined.
\<close>

locale partial_comparison =
  fixes pcmp :: "'a \<Rightarrow> 'a \<Rightarrow> ordering option"
  assumes flip: "pcmp b a = map_option reverse (pcmp a b)"
    and chain: "pcmp a b = Some x \<Longrightarrow> pcmp b c = Some y \<Longrightarrow> x = y \<or> x = Equal \<or> y = Equal \<Longrightarrow>
      pcmp a c = Some (if x = Equal then y else x)"
begin

definition below :: "'a \<Rightarrow> 'a \<Rightarrow> bool" where
  "below a b \<longleftrightarrow> pcmp a b = Some Less \<or> pcmp a b = Some Equal"

lemma below_trans: "below a b \<Longrightarrow> below b c \<Longrightarrow> below a c"
  using chain [of a b _ c] by (fastforce simp: below_def)

lemma below_less: "below a b \<Longrightarrow> pcmp b c = Some Less \<Longrightarrow> pcmp a c = Some Less"
  using chain [of a b _ c Less] by (fastforce simp: below_def)

lemma greater_below: "pcmp b a = Some Greater \<Longrightarrow> below b c \<Longrightarrow> pcmp c a = Some Greater"
  using chain [of c b _ a Greater] flip [of c b] by (fastforce simp: below_def)

lemma equal_sandwich:
  assumes "below a b" "below b c" "pcmp b d = Some Equal"
  shows "below a d" "below d c"
proof -
  show "below a d" using assms chain [of a b _ d Equal] by (fastforce simp: below_def)
  have "pcmp d b = Some Equal" using flip [of d b] assms(3) by simp
  then show "below d c" using assms(2) chain [of d b Equal c] by (fastforce simp: below_def)
qed

end

lemma cmp_flip: "cmp b a = reverse (cmp a b)"
  by (auto simp: cmp_def)

lemma cmp_chain: "x = cmp a b \<Longrightarrow> y = cmp b c \<Longrightarrow> x = y \<or> x = Equal \<or> y = Equal \<Longrightarrow>
    cmp a c = (if x = Equal then y else x)"
  by (auto simp: cmp_def split: if_splits)

lemma logical_partial_cmp_iff:
  "logical_partial_cmp (Integer a) t = Some r \<longleftrightarrow> (\<exists>b. t = Integer b \<and> r = cmp (sint a) (sint b))"
  "logical_partial_cmp (Long a') t = Some r \<longleftrightarrow> (\<exists>b. t = Long b \<and> r = cmp (sint a') (sint b))"
  "logical_partial_cmp (Short a'') t = Some r \<longleftrightarrow> (\<exists>b. t = Short b \<and> r = cmp (sint a'') (sint b))"
  "logical_partial_cmp (Byte a''') t = Some r \<longleftrightarrow> (\<exists>b. t = Byte b \<and> r = cmp (sint a''') (sint b))"
  "logical_partial_cmp (Float f) t = Some r \<longleftrightarrow> (\<exists>b. t = Float b \<and> float_partial_cmp 23 f b = Some r)"
  "logical_partial_cmp (Double g) t = Some r \<longleftrightarrow> (\<exists>b. t = Double b \<and> float_partial_cmp 52 g b = Some r)"
  "logical_partial_cmp (String s) t = Some r \<longleftrightarrow> (\<exists>b. t = String b \<and> r = cmp s b)"
  "logical_partial_cmp (Boolean p) t = Some r \<longleftrightarrow> (\<exists>b. t = Boolean b \<and> r = cmp p b)"
  "logical_partial_cmp (Timestamp ts) t = Some r \<longleftrightarrow> (\<exists>b. t = Timestamp b \<and> r = cmp (sint ts) (sint b))"
  "logical_partial_cmp (TimestampNtz ts) t = Some r \<longleftrightarrow> (\<exists>b. t = TimestampNtz b \<and> r = cmp (sint ts) (sint b))"
  "logical_partial_cmp (Date d) t = Some r \<longleftrightarrow> (\<exists>b. t = Date b \<and> r = cmp (sint d) (sint b))"
  "logical_partial_cmp (Binary bs) t = Some r \<longleftrightarrow> (\<exists>b. t = Binary b \<and> r = cmp bs b)"
  "logical_partial_cmp (Decimal m) t = Some r \<longleftrightarrow>
     (\<exists>b. t = Decimal b \<and> dd_ty m = dd_ty b \<and> r = cmp (dd_bits m) (dd_bits b))"
  "logical_partial_cmp (Null dt) t = Some r \<longleftrightarrow> False"
  "logical_partial_cmp (StructS fs vs) t = Some r \<longleftrightarrow> False"
  "logical_partial_cmp (ArrayS et cn es) t = Some r \<longleftrightarrow> False"
  "logical_partial_cmp (MapS kt vt vn ps) t = Some r \<longleftrightarrow> False"
  by (cases t; auto simp: logical_partial_cmp_def)+

lemma float_partial_cmp_flip: "float_partial_cmp m b a = map_option reverse (float_partial_cmp m a b)"
  by (auto simp: float_partial_cmp_def intro: cmp_flip)

lemma float_partial_cmp_reverse:
  "float_partial_cmp m a b = Some r \<Longrightarrow> float_partial_cmp m b a = Some (reverse r)"
  using float_partial_cmp_flip [of m b a] by simp

lemma float_partial_cmp_chain:
  "float_partial_cmp m a b = Some x \<Longrightarrow> float_partial_cmp m b c = Some y \<Longrightarrow>
     x = y \<or> x = Equal \<or> y = Equal \<Longrightarrow> float_partial_cmp m a c = Some (if x = Equal then y else x)"
  using cmp_chain [of x "float_key a" "float_key b" y "float_key c"]
  by (auto simp: float_partial_cmp_def split: if_splits)

lemma logical_partial_cmp_reverse:
  "logical_partial_cmp s t = Some r \<Longrightarrow> logical_partial_cmp t s = Some (reverse r)"
  by (cases s) (auto simp: logical_partial_cmp_iff simp del: cmp_iff
      intro: cmp_flip [symmetric] cmp_flip float_partial_cmp_reverse)

lemma logical_partial_cmp_flip: "logical_partial_cmp t s = map_option reverse (logical_partial_cmp s t)"
proof (cases "logical_partial_cmp s t")
  case None
  then show ?thesis using logical_partial_cmp_reverse [of t s] by (cases "logical_partial_cmp t s") auto
qed (simp add: logical_partial_cmp_reverse)

lemma logical_partial_cmp_chain:
  "logical_partial_cmp a b = Some x \<Longrightarrow> logical_partial_cmp b c = Some y \<Longrightarrow>
     x = y \<or> x = Equal \<or> y = Equal \<Longrightarrow>
     logical_partial_cmp a c = Some (if x = Equal then y else x)"
  by (cases a; simp only: logical_partial_cmp_iff simp_thms; clarify; simp only: logical_partial_cmp_iff;
      clarify; intro exI conjI refl;
      (erule cmp_chain [OF refl refl, symmetric] | erule (2) float_partial_cmp_chain | simp))

interpretation lcmp: partial_comparison logical_partial_cmp
  by unfold_locales (rule logical_partial_cmp_flip, rule logical_partial_cmp_chain)

text \<open>
  The SQL comparison of scalars is a partial order: swapping the operands reverses the
  outcome, equal values compare alike with every third value, less and greater are transitive,
  and NULL is comparable to nothing, itself included.
\<close>

theorem logical_comparison_laws:
  "logical_partial_cmp b a = map_option reverse (logical_partial_cmp a b) \<and>
   (logical_partial_cmp a b = Some x \<longrightarrow> logical_partial_cmp b c = Some y \<longrightarrow>
      x = y \<or> x = Equal \<or> y = Equal \<longrightarrow>
      logical_partial_cmp a c = Some (if x = Equal then y else x)) \<and>
   logical_partial_cmp (Null dt) a = None \<and> \<not> logical_eq a (Null dt)"
proof -
  have "logical_partial_cmp (Null dt) a = None" by (simp add: logical_partial_cmp_def)
  moreover from this have "logical_partial_cmp a (Null dt) = None"
    using lcmp.flip [of a "Null dt"] by simp
  ultimately show ?thesis
    using lcmp.flip [of b a] lcmp.chain [of a b x c y] unfolding logical_eq_def by simp
qed

theorem logical_comparison_laws_witness:
  "logical_partial_cmp (String ''a'') (String ''c'') = Some Less"
proof -
  have ab: "logical_partial_cmp (String ''a'') (String ''b'') = Some Less"
    "logical_partial_cmp (String ''b'') (String ''c'') = Some Less"
    by (simp_all add: logical_partial_cmp_def less_char_def)
  then show ?thesis
    using logical_comparison_laws [of "String ''b''" "String ''a''" Less "String ''c''" Less "Primitive PString"]
    by simp
qed

section \<open>Arithmetic is exact or refused\<close>

text \<open>The width and value of an integer scalar.\<close>

definition signed_value :: "scalar \<Rightarrow> (nat \<times> int) option" where
  "signed_value s =
     (case s of
        Integer a \<Rightarrow> Some (32, sint a)
      | Long a \<Rightarrow> Some (64, sint a)
      | Short a \<Rightarrow> Some (16, sint a)
      | Byte a \<Rightarrow> Some (8, sint a)
      | _ \<Rightarrow> None)"

definition signed_range :: "nat \<Rightarrow> int \<Rightarrow> bool" where
  "signed_range w r \<longleftrightarrow> - (2 ^ (w - 1)) \<le> r \<and> r < 2 ^ (w - 1)"

definition exact_result :: "scalar option \<Rightarrow> nat \<Rightarrow> int \<Rightarrow> bool" where
  "exact_result res w r \<longleftrightarrow>
     (case res of Some s \<Rightarrow> signed_range w r \<and> signed_value s = Some (w, r) | None \<Rightarrow> \<not> signed_range w r)"

lemma fit_signed_cases:
  "case fit_signed r of
     Some (v :: 'a::len word) \<Rightarrow> signed_range LENGTH('a) r \<and> sint v = r
   | None \<Rightarrow> \<not> signed_range LENGTH('a) r"
  by (auto simp: fit_signed_def signed_range_def sint_sbintrunc'
      signed_take_bit_int_eq_self simp del: of_int_sint)

lemma fit_signed_exact:
  "exact_result (map_option Integer (fit_signed r)) 32 r"
  "exact_result (map_option Long (fit_signed r)) 64 r"
  "exact_result (map_option Short (fit_signed r)) 16 r"
  "exact_result (map_option Byte (fit_signed r)) 8 r"
  using fit_signed_cases [of r, where 'a = 32] fit_signed_cases [of r, where 'a = 64]
    fit_signed_cases [of r, where 'a = 16] fit_signed_cases [of r, where 'a = 8]
  by (auto simp: exact_result_def signed_value_def split: option.splits)

lemma signed_value_iff:
  "signed_value s = Some (w, a) \<longleftrightarrow>
     (\<exists>v. s = Integer v \<and> w = 32 \<and> a = sint v) \<or> (\<exists>v. s = Long v \<and> w = 64 \<and> a = sint v) \<or>
     (\<exists>v. s = Short v \<and> w = 16 \<and> a = sint v) \<or> (\<exists>v. s = Byte v \<and> w = 8 \<and> a = sint v)"
  by (cases s) (auto simp: signed_value_def)

text \<open>
  C38. Integer arithmetic on scalars of the same type never wraps: addition, subtraction,
  multiplication and division (towards zero) return the exact mathematical result with the
  operands' type, or nothing when that result does not fit the type or the divisor is zero;
  operands of different widths are refused.
\<close>

theorem checked_arithmetic_exact:
  "signed_value s = Some (w, a) \<Longrightarrow> signed_value t = Some (v, b) \<Longrightarrow>
     (if w = v
      then exact_result (try_add s t) w (a + b) \<and> exact_result (try_sub s t) w (a - b) \<and>
        exact_result (try_mul s t) w (a * b) \<and>
        (if b = 0 then try_div s t = None else exact_result (try_div s t) w (a sdiv b))
      else try_add s t = None \<and> try_sub s t = None \<and> try_mul s t = None \<and> try_div s t = None)"
  unfolding signed_value_iff
  by (elim disjE exE conjE; simp add: try_add_def try_sub_def try_mul_def try_div_def
      checked_add_def checked_sub_def checked_mul_def checked_div_def fit_signed_exact signed_eq_0_iff)

theorem checked_arithmetic_exact_witness:
  "exact_result (try_add (Byte 100) (Byte 28)) 8 128 \<and> try_add (Byte 100) (Byte 28) = None \<and>
   exact_result (try_div (Byte (- 128)) (Byte 3)) 8 (- 42)"
proof -
  have "signed_value (Byte 100) = Some (8, 100)" "signed_value (Byte 28) = Some (8, 28)"
    "signed_value (Byte (- 128)) = Some (8, - 128)" "signed_value (Byte 3) = Some (8, 3)"
    by (simp_all add: signed_value_def)
  then have "exact_result (try_add (Byte 100) (Byte 28)) 8 (100 + 28)"
    "exact_result (try_div (Byte (- 128)) (Byte 3)) 8 (- 128 sdiv 3)"
    using checked_arithmetic_exact [of "Byte 100" 8 100 "Byte 28" 8 28]
      checked_arithmetic_exact [of "Byte (- 128)" 8 "- 128" "Byte 3" 8 3] by simp_all
  moreover have "(- 128) sdiv 3 = (- 42 :: int)" by (simp add: signed_divide_int_def)
  moreover have "try_add (Byte 100) (Byte 28) = None"
    by (simp add: try_add_def checked_add_def fit_signed_def)
  ultimately show ?thesis by simp
qed

section \<open>Typing of parsed and constructed values\<close>

lemma decimal_digits_le: "decimal_digits n \<le> p \<longleftrightarrow> n < 10 ^ p"
proof (induction p arbitrary: n)
  case 0
  then show ?case by (subst decimal_digits.simps) simp
next
  case (Suc p)
  then show ?case by (subst decimal_digits.simps) (auto simp: div_less_iff_less_mult ac_simps)
qed

lemma get_decimal_precision_le: "get_decimal_precision bits \<le> p \<longleftrightarrow> \<bar>bits\<bar> < 10 ^ p"
  by (simp add: get_decimal_precision_def decimal_digits_le nat_less_iff)

lemma decimal_data_try_new_Inr [result_simps]:
  "decimal_data_try_new bits ty = Inr d \<longleftrightarrow> \<bar>bits\<bar> < 10 ^ dt_precision ty \<and> d = DecimalData bits ty"
  by (auto simp: decimal_data_try_new_def rbind_Inr_iff require_Inr get_decimal_precision_le)

lemma parse_decimal_typed:
  "parse_decimal raw dtype = Inr s \<Longrightarrow>
     \<exists>bits. s = Decimal (DecimalData bits dtype) \<and> \<bar>bits\<bar> < 10 ^ dt_precision dtype"
  by (cases "split_exponent raw"; cases "split_fraction (fst (split_exponent raw))")
    (auto simp: parse_decimal_def Let_def result_simps)

text \<open>
  A parsed partition value has the type it was parsed for, is NULL exactly for the empty
  string, and a parsed decimal fits the precision of its type.
\<close>

theorem parse_scalar_typed:
  "parse_scalar P ty raw = Inr s \<Longrightarrow>
     scalar_data_type s = Primitive ty \<and> (scalar_is_null s \<longleftrightarrow> raw = []) \<and>
     (\<forall>d. s = Decimal d \<longrightarrow> \<bar>dd_bits d\<bar> < 10 ^ dt_precision (dd_ty d))"
  using parse_decimal_typed [of raw]
  by (fastforce simp: parse_scalar_def parse_str_as_scalar_def result_simps Let_def
      split: if_splits primitive_type.splits option.splits)

definition no_parsers :: "(unit, unit) scalar_parsers" where
  "no_parsers = \<lparr> parse_f32 = \<lambda>_. None, parse_f64 = \<lambda>_. None, date_parse_from_str = \<lambda>_ _. None,
     and_hms_opt = \<lambda>_. None, datetime_parse_from_str = \<lambda>_ _. None,
     num_days_since_epoch = \<lambda>_. 0, num_microseconds_since_epoch = \<lambda>_. None \<rparr>"

theorem parse_scalar_typed_witness:
  "parse_scalar no_parsers (PDecimal (DecimalType 5 2)) ''1.50'' =
     Inr (Decimal (DecimalData 150 (DecimalType 5 2))) \<and>
   scalar_data_type (Decimal (DecimalData 150 (DecimalType 5 2))) =
     Primitive (PDecimal (DecimalType 5 2))"
proof -
  have "parse_scalar no_parsers (PDecimal (DecimalType 5 2)) ''1.50'' =
     Inr (Decimal (DecimalData 150 (DecimalType 5 2)))"
    by code_simp
  then show ?thesis using parse_scalar_typed [of no_parsers "PDecimal (DecimalType 5 2)" "''1.50''"] by blast
qed

lemma collect_results_checks:
  assumes "\<And>x y. f x = Inr y \<Longrightarrow> y = x"
  shows "collect_results (map f xs) = Inr ys \<longleftrightarrow> ys = xs \<and> (\<forall>x \<in> set xs. f x = Inr x)"
proof -
  have "map f xs = map Inr ys \<longleftrightarrow> ys = xs \<and> (\<forall>x \<in> set xs. f x = Inr x)"
    using assms
  proof (induction xs arbitrary: ys)
    case (Cons x xs)
    then show ?case by (cases ys) fastforce+
  qed simp
  then show ?thesis by (simp add: collect_results_Inr)
qed

text \<open>
  The constructors of array, map and struct values accept exactly the well-typed arguments:
  element, key, value and field types agree with the declared ones, keys are never NULL and
  NULL occurs only where the type allows it; the value built then has the declared type.
\<close>

theorem compound_constructors_typed:
  "(array_data_try_new et cn es = Inr a \<longleftrightarrow>
      a = ArrayS et cn es \<and>
      (\<forall>v \<in> set es. data_type_eq et (scalar_data_type v) \<and> (scalar_is_null v \<longrightarrow> cn))) \<and>
   (map_data_try_new kt vt vn ps = Inr m \<longleftrightarrow>
      m = MapS kt vt vn ps \<and>
      (\<forall>(k, v) \<in> set ps. data_type_eq (scalar_data_type k) kt \<and> \<not> scalar_is_null k \<and>
         data_type_eq (scalar_data_type v) vt \<and> (scalar_is_null v \<longrightarrow> vn))) \<and>
   (struct_data_try_new fs vs = Inr s \<longleftrightarrow>
      s = StructS fs vs \<and> length fs = length vs \<and>
      (\<forall>(f, v) \<in> set (zip fs vs). data_type_eq (sf_data_type f) (scalar_data_type v) \<and>
         (scalar_is_null v \<longrightarrow> sf_nullable f)))"
proof -
  have arr: "check_array_element et cn v = Inr w \<longleftrightarrow>
      w = v \<and> data_type_eq et (scalar_data_type v) \<and> (scalar_is_null v \<longrightarrow> cn)" for v w
    by (auto simp: check_array_element_def)
  have mp: "check_map_pair kt vt vn p = Inr q \<longleftrightarrow>
      q = p \<and> (case p of (k, v) \<Rightarrow> data_type_eq (scalar_data_type k) kt \<and> \<not> scalar_is_null k \<and>
         data_type_eq (scalar_data_type v) vt \<and> (scalar_is_null v \<longrightarrow> vn))" for p q
    by (cases p) (auto simp: check_map_pair_def)
  have "array_data_try_new et cn es = Inr a \<longleftrightarrow> a = ArrayS et cn es \<and>
      (\<forall>v \<in> set es. data_type_eq et (scalar_data_type v) \<and> (scalar_is_null v \<longrightarrow> cn))"
    using collect_results_checks [of "check_array_element et cn" es]
    by (auto simp: array_data_try_new_def rbind_Inr_iff arr)
  moreover have "map_data_try_new kt vt vn ps = Inr m \<longleftrightarrow> m = MapS kt vt vn ps \<and>
      (\<forall>(k, v) \<in> set ps. data_type_eq (scalar_data_type k) kt \<and> \<not> scalar_is_null k \<and>
         data_type_eq (scalar_data_type v) vt \<and> (scalar_is_null v \<longrightarrow> vn))"
    using collect_results_checks [of "check_map_pair kt vt vn" ps]
    by (auto simp: map_data_try_new_def rbind_Inr_iff mp)
  moreover have "struct_data_try_new fs vs = Inr s \<longleftrightarrow> s = StructS fs vs \<and> length fs = length vs \<and>
      (\<forall>(f, v) \<in> set (zip fs vs). data_type_eq (sf_data_type f) (scalar_data_type v) \<and>
         (scalar_is_null v \<longrightarrow> sf_nullable f))"
    by (auto simp: struct_data_try_new_def check_struct_value_def rbind_Inr_iff require_Inr
        try_for_each_Inr)
  ultimately show ?thesis by blast
qed

theorem compound_constructors_typed_witness:
  "array_data_try_new (Primitive PString) False [String ''a'', String ''b''] =
     Inr (ArrayS (Primitive PString) False [String ''a'', String ''b''])"
proof -
  have "\<forall>v \<in> set [String ''a'', String ''b''].
      data_type_eq (Primitive PString) (scalar_data_type v) \<and> (scalar_is_null v \<longrightarrow> False)"
    by (simp add: data_type_eq_iff)
  then show ?thesis using compound_constructors_typed by blast
qed

section \<open>Printing and parsing decimals\<close>

lemma nat_of_digits_concat: "nat_of_digits (a @ b) = nat_of_digits a * 10 ^ length b + nat_of_digits b"
proof (induction b rule: rev_induct)
  case (snoc c b)
  then show ?case
    using nat_of_digits_append [of "a @ b" c] nat_of_digits_append [of b c]
    by (simp add: algebra_simps)
qed (simp add: nat_of_digits_def)

lemma is_digit_not_letter [simp]:
  "\<not> is_digit (CHR ''e'')" "\<not> is_digit (CHR ''E'')" "\<not> is_digit (CHR ''-'')"
  by (simp_all add: is_digit_def)

lemma parse_sint_digits:
  assumes "list_all is_digit s" "s \<noteq> []" "nat_of_digits s < 2 ^ (w - 1)"
  shows "parse_sint w s = Some (int (nat_of_digits s))"
proof -
  have "(case s of c # d # r \<Rightarrow> if c = CHR ''-'' then (True, d # r)
          else if c = CHR ''+'' then (False, d # r) else (False, s) | _ \<Rightarrow> (False, s)) = (False, s)"
    using assms(1) by (auto split: list.splits)
  moreover have "int (nat_of_digits s) < 2 ^ (w - 1)"
    using assms(3) by (metis of_nat_less_iff of_nat_numeral of_nat_power)
  moreover have "- (2 ^ (w - 1)) \<le> int (nat_of_digits s)"
    by (rule order_trans [of _ 0]) simp_all
  ultimately show ?thesis using assms(1,2) by (simp add: parse_sint_def)
qed

lemma takeWhile_digits:
  assumes "list_all is_digit s" "\<not> is_digit c"
  shows "c \<notin> set s"
  using assms by (auto simp: list_all_iff)

lemma pad_zeros_digits:
  assumes "n < 10 ^ k" "0 < k"
  shows "length (pad_zeros k (show_nat n)) = k" "list_all is_digit (pad_zeros k (show_nat n))"
    "nat_of_digits (pad_zeros k (show_nat n)) = n"
proof -
  have "length (show_nat n) \<le> k"
    using assms length_show_nat [of n "k - 1"] by simp
  then show "length (pad_zeros k (show_nat n)) = k" by (simp add: pad_zeros_def)
  show "list_all is_digit (pad_zeros k (show_nat n))"
    using show_nat_props [of n] by (auto simp: pad_zeros_def list_all_iff)
  show "nat_of_digits (pad_zeros k (show_nat n)) = n"
    using show_nat_props [of n] by (simp add: pad_zeros_def)
qed

lemma split_exponent_none:
  "CHR ''e'' \<notin> set s \<Longrightarrow> CHR ''E'' \<notin> set s \<Longrightarrow> split_exponent s = (s, None)"
  unfolding split_exponent_def Let_def by (auto simp: takeWhile_eq_all_conv)

lemma split_fraction_none: "CHR ''.'' \<notin> set s \<Longrightarrow> split_fraction s = (s, None)"
  unfolding split_fraction_def Let_def by (auto simp: takeWhile_eq_all_conv)

lemma split_fraction_some:
  "CHR ''.'' \<notin> set a \<Longrightarrow> b \<noteq> [] \<Longrightarrow> split_fraction (a @ CHR ''.'' # b) = (a, Some b)"
  unfolding split_fraction_def Let_def by (auto simp: takeWhile_append dropWhile_append)

lemma parse_display_digits:
  assumes "list_all is_digit a" "a \<noteq> []" "list_all is_digit b" "length b < 256"
    and n: "n = nat_of_digits (a @ b)" "n < 10 ^ 38" "n < 10 ^ dt_precision ty" "dt_scale ty = length b"
    and s: "s = (if b = [] then a else a @ CHR ''.'' # b)"
  shows "parse_decimal s ty = Inr (Decimal (DecimalData (int n) ty))"
proof -
  have no: "CHR ''e'' \<notin> set s" "CHR ''E'' \<notin> set s" "CHR ''.'' \<notin> set a"
    using assms(1,3) by (auto simp: s list_all_iff)
  have frac: "split_fraction s = (a, if b = [] then None else Some b)"
    using no(3) by (simp add: s split_fraction_none split_fraction_some)
  have "n < 2 ^ (128 - 1)" using n(2) by simp
  then have parse: "parse_sint 128 (a @ b) = Some (int n)"
    using assms(1-3) by (simp only: n(1)) (rule parse_sint_digits; simp)
  have fits: "\<bar>int n\<bar> < 10 ^ dt_precision ty"
    using n(3) by (metis abs_of_nat of_nat_less_iff of_nat_numeral of_nat_power)
  have "s \<noteq> []" using assms(2) by (simp add: s)
  have tail: "decimal_data_try_new (int n) ty = Inr (DecimalData (int n) ty)"
    using fits by (simp add: decimal_data_try_new_Inr)
  show ?thesis
    using parse tail \<open>s \<noteq> []\<close> n(4) assms(4)
    by (cases "b = []") (simp_all add: parse_decimal_def split_exponent_none no frac Let_def)
qed

lemma nonneg_sdiv: "0 \<le> (n :: int) \<Longrightarrow> 0 < m \<Longrightarrow> n sdiv m = n div m \<and> n smod m = n mod m"
  by (simp add: signed_divide_int_def signed_modulo_int_def sgn_if minus_div_mult_eq_mod)

text \<open>
  Printing and parsing of decimals: a non-negative decimal that fits its type is read back
  unchanged from its printed form, for every precision and scale.
\<close>

theorem decimal_roundtrip:
  "0 \<le> bits \<Longrightarrow> decimal_type_try_new p s = Inr ty \<Longrightarrow> decimal_data_try_new bits ty = Inr d \<Longrightarrow>
     parse_decimal (display_decimal d) ty = Inr (Decimal d)"
proof -
  assume nonneg: "0 \<le> bits" and ty: "decimal_type_try_new p s = Inr ty"
    and d: "decimal_data_try_new bits ty = Inr d"
  let ?n = "nat bits" let ?k = "dt_scale ty"
  have k: "?k \<le> dt_precision ty" "dt_precision ty \<le> 38"
    using ty by (auto simp: decimal_type_try_new_def result_simps)
  have d': "d = DecimalData bits ty" and "bits < 10 ^ dt_precision ty"
    using d nonneg by (auto simp: decimal_data_try_new_Inr)
  then have n: "?n < 10 ^ dt_precision ty" using nonneg by (simp add: nat_less_iff)
  also have "(10 :: nat) ^ dt_precision ty \<le> 10 ^ 38" using k(2) by (rule power_increasing) simp
  finally have n38: "?n < 10 ^ 38" .
  let ?a = "show_nat (?n div 10 ^ ?k)"
  let ?b = "if ?k = 0 then [] else pad_zeros ?k (show_nat (?n mod 10 ^ ?k))"
  have a: "list_all is_digit ?a" "?a \<noteq> []" "nat_of_digits ?a = ?n div 10 ^ ?k"
    using show_nat_props by blast+
  have b: "list_all is_digit ?b" "length ?b = ?k" "nat_of_digits ?b = ?n mod 10 ^ ?k"
    using pad_zeros_digits [of "?n mod 10 ^ ?k" ?k] by (auto simp: nat_of_digits_def)
  have "nat_of_digits (?a @ ?b) = ?n"
    by (simp only: nat_of_digits_concat a(3) b(2,3) div_mult_mod_eq)
  moreover have "bits sdiv 10 ^ ?k = int (?n div 10 ^ ?k)" "bits smod 10 ^ ?k = int (?n mod 10 ^ ?k)"
    using nonneg nonneg_sdiv [of bits "10 ^ ?k"] by (simp_all add: zdiv_int zmod_int)
  then have "display_decimal d = (if ?b = [] then ?a else ?a @ CHR ''.'' # ?b)"
    using b(2) nonneg by (auto simp: display_decimal_def d' Let_def show_int_def)
  ultimately show ?thesis
    using parse_display_digits [of ?a ?b ?n ty "display_decimal d"] a b n n38 k nonneg
    by (simp add: d')
qed

theorem decimal_roundtrip_witness:
  "parse_decimal (display_decimal (DecimalData 1507 (DecimalType 6 3))) (DecimalType 6 3) =
     Inr (Decimal (DecimalData 1507 (DecimalType 6 3)))"
proof -
  have "decimal_type_try_new 6 3 = Inr (DecimalType 6 3)"
    by (simp add: decimal_type_try_new_def)
  moreover have "decimal_data_try_new 1507 (DecimalType 6 3) = Inr (DecimalData 1507 (DecimalType 6 3))"
    by (simp add: decimal_data_try_new_Inr)
  ultimately show ?thesis
    using decimal_roundtrip [of 1507 6 3 "DecimalType 6 3" "DecimalData 1507 (DecimalType 6 3)"] by simp
qed

text \<open>
  For a negative value with a scale the remainder is negative as well and is printed with its
  sign, so the text is not a number and cannot be read back.
\<close>

lemma negative_decimal_display:
  "display_decimal (DecimalData (- 150) (DecimalType 5 2)) = ''-1.-50'' \<and>
   isl (parse_decimal (display_decimal (DecimalData (- 150) (DecimalType 5 2))) (DecimalType 5 2))"
  by (rule conjI; code_simp)

end
