(* ===== verification/ColumnNames.thy ===== *)
theory ColumnNames
  imports LogPath
begin

text \<open>
  Column names: \<open>expressions/column_names.rs\<close>. A column name is a path of field names; it prints
  with dots between fields and backticks around fields that are not plain identifiers, and is
  parsed back character by character. A \<open>Peekable<Chars>\<close> is the list of the characters still to
  come. \<open>char::is_whitespace\<close> follows the Unicode tables of the standard library and is a
  parameter; the lemmas only need it to reject identifier characters and the three delimiters.
\<close>

type_synonym column_name = "string list"

datatype field_ending = InputExhausted | NextField | NextColumn

definition FIELD_ESCAPE_CHAR :: char where "FIELD_ESCAPE_CHAR = CHR 0x60"
definition FIELD_SEPARATOR :: char where "FIELD_SEPARATOR = CHR ''.''"
definition COLUMN_SEPARATOR :: char where "COLUMN_SEPARATOR = CHR '',''"

definition from_naive_str_split :: "string \<Rightarrow> column_name" where
  "from_naive_str_split name = split_on FIELD_SEPARATOR name"

definition column_join :: "column_name \<Rightarrow> column_name \<Rightarrow> column_name" where
  "column_join left right = left @ right"

definition column_parent :: "column_name \<Rightarrow> column_name option" where
  "column_parent path = (if length path > 1 then Some (take (length path - 1) path) else None)"

text \<open>\<open>is_ascii_alphanumeric\<close> or underscore.\<close>

definition is_simple_char :: "char \<Rightarrow> bool" where
  "is_simple_char c =
     (let n = (of_char c :: nat) in
      (48 \<le> n \<and> n \<le> 57) \<or> (65 \<le> n \<and> n \<le> 90) \<or> (97 \<le> n \<and> n \<le> 122) \<or> n = 95)"

definition display_field :: "string \<Rightarrow> string" where
  "display_field s =
     (if s = [] \<or> is_digit (hd s) \<or> list_ex (\<lambda>c. \<not> is_simple_char c) s
      then FIELD_ESCAPE_CHAR #
           concat (map (\<lambda>c. if c = FIELD_ESCAPE_CHAR then [c, c] else [c]) s) @ [FIELD_ESCAPE_CHAR]
      else s)"

definition display_column_name :: "column_name \<Rightarrow> string" where
  "display_column_name path = join_with FIELD_SEPARATOR (map display_field path)"

definition drop_leading_whitespace :: "(char \<Rightarrow> bool) \<Rightarrow> string \<Rightarrow> string" where
  "drop_leading_whitespace ws chars = dropWhile ws chars"

fun parse_simple_loop :: "bool \<Rightarrow> string \<Rightarrow> string \<Rightarrow> (string \<times> string) delta_result" where
  "parse_simple_loop first name [] = Inr (name, [])"
| "parse_simple_loop first name (c # cs) =
     (if is_simple_char c
      then (if first \<and> is_digit c
            then Inl (Generic ''Unescaped field name cannot start with a digit'')
            else parse_simple_loop False (name @ [c]) cs)
      else Inr (name, c # cs))"

definition parse_simple_field_name :: "string \<Rightarrow> (string \<times> string) delta_result" where
  "parse_simple_field_name chars = parse_simple_loop True [] chars"

fun parse_escaped_loop :: "string \<Rightarrow> string \<Rightarrow> (string \<times> string) delta_result" where
  "parse_escaped_loop name [] = Inl (Generic ''No closing backtick after field'')"
| "parse_escaped_loop name (c # cs) =
     (if c = FIELD_ESCAPE_CHAR
      then (case cs of
              d # ds \<Rightarrow> if d = FIELD_ESCAPE_CHAR then parse_escaped_loop (name @ [c]) ds
                       else Inr (name, cs)
            | [] \<Rightarrow> Inr (name, []))
      else parse_escaped_loop (name @ [c]) cs)"

definition parse_escaped_field_name :: "string \<Rightarrow> (string \<times> string) delta_result" where
  "parse_escaped_field_name chars = parse_escaped_loop [] chars"

text \<open>One field name, escaped or simple, and what remains of the input.\<close>

definition parse_field_name :: "(char \<Rightarrow> bool) \<Rightarrow> string \<Rightarrow> (string \<times> string) delta_result" where
  "parse_field_name ws chars =
     (case drop_leading_whitespace ws chars of
        [] \<Rightarrow> parse_simple_field_name []
      | c # cs \<Rightarrow> if c = FIELD_ESCAPE_CHAR then parse_escaped_field_name cs
                 else parse_simple_field_name (c # cs))"

lemma parse_simple_loop_length:
  "parse_simple_loop first name cs = Inr (n, rest) \<Longrightarrow> length rest \<le> length cs"
  by (induction first name cs rule: parse_simple_loop.induct) (auto split: if_splits)

lemma parse_escaped_loop_length:
  "parse_escaped_loop name cs = Inr (n, rest) \<Longrightarrow> length rest \<le> length cs"
  by (induction name cs rule: parse_escaped_loop.induct) (auto split: if_splits list.splits)

lemma parse_field_name_length:
  assumes "parse_field_name ws chars = Inr (n, rest)"
  shows "length rest \<le> length chars"
proof -
  have "length (dropWhile ws chars) \<le> length chars" by (rule length_dropWhile_le)
  then show ?thesis using assms
    unfolding parse_field_name_def parse_simple_field_name_def parse_escaped_field_name_def
      drop_leading_whitespace_def
    by (cases "dropWhile ws chars")
      (force split: if_splits dest!: parse_simple_loop_length parse_escaped_loop_length
        simp del: parse_simple_loop.simps)+
qed

lemma dropWhile_Cons_length: "dropWhile P xs = y # ys \<Longrightarrow> length ys < length xs"
  using length_dropWhile_le [of P xs] by simp

text \<open>The loop of \<open>parse_column_name\<close> over the fields of one column.\<close>

function parse_fields ::
  "(char \<Rightarrow> bool) \<Rightarrow> column_name \<Rightarrow> string \<Rightarrow> (column_name \<times> field_ending \<times> string) delta_result" where
  "parse_fields ws path chars =
     rbind (parse_field_name ws chars) (\<lambda>(field_name, rest).
       case dropWhile ws rest of
         [] \<Rightarrow> Inr (path @ [field_name], InputExhausted, [])
       | c # cs \<Rightarrow>
           if c = FIELD_SEPARATOR then parse_fields ws (path @ [field_name]) cs
           else if c = COLUMN_SEPARATOR then Inr (path @ [field_name], NextColumn, cs)
           else Inl (Generic ''Invalid character after field''))"
  by pat_completeness auto

termination
  by (relation "measure (\<lambda>(_, _, chars). length chars)")
    (auto dest!: parse_field_name_length dropWhile_Cons_length)

declare parse_fields.simps [simp del]

definition parse_column_name ::
  "(char \<Rightarrow> bool) \<Rightarrow> string \<Rightarrow> (column_name \<times> field_ending \<times> string) delta_result" where
  "parse_column_name ws chars =
     (case drop_leading_whitespace ws chars of
        [] \<Rightarrow> Inr ([], InputExhausted, [])
      | c # cs \<Rightarrow> if c = COLUMN_SEPARATOR then Inr ([], NextColumn, cs)
                 else parse_fields ws [] (c # cs))"

definition column_name_from_str :: "(char \<Rightarrow> bool) \<Rightarrow> string \<Rightarrow> column_name delta_result" where
  "column_name_from_str ws s =
     rbind (parse_column_name ws s) (\<lambda>(col, ending, _).
       if ending = NextColumn then Inl (Generic ''Trailing comma in column name'') else Inr col)"

lemma parse_fields_length:
  "parse_fields ws path chars = Inr (col, e, rest) \<Longrightarrow>
     length rest \<le> length chars \<and> (e = NextColumn \<longrightarrow> length rest < length chars)"
proof (induction ws path chars rule: parse_fields.induct)
  case (1 ws path chars)
  obtain name r where r: "parse_field_name ws chars = Inr (name, r)"
    using "1.prems" by (subst (asm) parse_fields.simps) (auto simp: rbind_Inr_iff)
  have le: "length r \<le> length chars" using r by (rule parse_field_name_length)
  show ?case
  proof (cases "dropWhile ws r")
    case Nil
    then show ?thesis using "1.prems" r
      by (subst (asm) parse_fields.simps) (auto simp del: dropWhile_eq_Nil_conv)
  next
    case (Cons c cs)
    then have "length cs < length r" by (rule dropWhile_Cons_length)
    then show ?thesis
      using "1.prems" [unfolded parse_fields.simps [of ws path chars]] "1.IH" [OF r refl Cons] r Cons le
      by (auto split: if_splits)
  qed
qed

lemma parse_column_name_length:
  "parse_column_name ws chars = Inr (col, NextColumn, rest) \<Longrightarrow> length rest < length chars"
  using length_dropWhile_le [of ws chars]
  by (auto simp: parse_column_name_def drop_leading_whitespace_def split: list.splits if_splits
      dest!: parse_fields_length)

text \<open>\<open>parse_column_name_list\<close>: columns as long as the last one ended in a comma.\<close>

function parse_columns ::
  "(char \<Rightarrow> bool) \<Rightarrow> column_name list \<Rightarrow> string \<Rightarrow> column_name list delta_result" where
  "parse_columns ws cols chars =
     rbind (parse_column_name ws chars) (\<lambda>(col, ending, rest).
       if ending = NextColumn then parse_columns ws (cols @ [col]) rest
       else Inr (cols @ [col]))"
  by pat_completeness auto

termination
  by (relation "measure (\<lambda>(_, _, chars). length chars)") (auto dest!: parse_column_name_length)

declare parse_columns.simps [simp del]

definition parse_column_name_list :: "(char \<Rightarrow> bool) \<Rightarrow> string \<Rightarrow> column_name list delta_result" where
  "parse_column_name_list ws names =
     (case drop_leading_whitespace ws names of
        [] \<Rightarrow> Inr []
      | chars \<Rightarrow> parse_columns ws [] chars)"

section \<open>Round trips\<close>

lemma delims [simp]:
  "FIELD_SEPARATOR \<noteq> COLUMN_SEPARATOR" "COLUMN_SEPARATOR \<noteq> FIELD_SEPARATOR"
  "FIELD_ESCAPE_CHAR \<noteq> FIELD_SEPARATOR" "FIELD_ESCAPE_CHAR \<noteq> COLUMN_SEPARATOR"
  "FIELD_SEPARATOR \<noteq> FIELD_ESCAPE_CHAR" "COLUMN_SEPARATOR \<noteq> FIELD_ESCAPE_CHAR"
  "\<not> is_simple_char FIELD_SEPARATOR" "\<not> is_simple_char COLUMN_SEPARATOR"
  "\<not> is_simple_char FIELD_ESCAPE_CHAR"
  by (simp_all add: FIELD_SEPARATOR_def COLUMN_SEPARATOR_def FIELD_ESCAPE_CHAR_def is_simple_char_def)

text \<open>What the parser needs of the whitespace test.\<close>

definition whitespace_ok :: "(char \<Rightarrow> bool) \<Rightarrow> bool" where
  "whitespace_ok ws \<longleftrightarrow> (\<forall>c. is_simple_char c \<longrightarrow> \<not> ws c) \<and>
     \<not> ws FIELD_SEPARATOR \<and> \<not> ws COLUMN_SEPARATOR \<and> \<not> ws FIELD_ESCAPE_CHAR"

definition at_delimiter :: "string \<Rightarrow> bool" where
  "at_delimiter rest \<longleftrightarrow> rest = [] \<or> hd rest = FIELD_SEPARATOR \<or> hd rest = COLUMN_SEPARATOR"

lemma parse_escaped_loop_display:
  assumes "at_delimiter rest"
  shows "parse_escaped_loop name
    (concat (map (\<lambda>c. if c = FIELD_ESCAPE_CHAR then [c, c] else [c]) s) @ FIELD_ESCAPE_CHAR # rest) =
    Inr (name @ s, rest)"
proof (induction s arbitrary: name)
  case Nil
  then show ?case using assms by (cases rest) (auto simp: at_delimiter_def)
qed auto

lemma parse_simple_loop_display:
  assumes "at_delimiter rest" "list_all is_simple_char s" "first \<Longrightarrow> s = [] \<or> \<not> is_digit (hd s)"
  shows "parse_simple_loop first name (s @ rest) = Inr (name @ s, rest)"
  using assms
proof (induction s arbitrary: first name)
  case Nil
  then show ?case by (cases rest) (auto simp: at_delimiter_def)
qed auto

lemma display_field_head:
  assumes "whitespace_ok ws"
  shows "\<exists>c cs. display_field s = c # cs \<and> \<not> ws c \<and> c \<noteq> COLUMN_SEPARATOR"
  using assms
  by (cases s) (auto simp: display_field_def whitespace_ok_def list_ex_iff)

lemma parse_field_name_display:
  assumes ws: "whitespace_ok ws" and rest: "at_delimiter rest"
  shows "parse_field_name ws (display_field s @ rest) = Inr (s, rest)"
proof -
  obtain c cs where c: "display_field s = c # cs" "\<not> ws c"
    using display_field_head [OF ws] by blast
  have drop: "dropWhile ws (display_field s @ rest) = display_field s @ rest"
    using c by simp
  show ?thesis
  proof (cases "s = [] \<or> is_digit (hd s) \<or> list_ex (\<lambda>c. \<not> is_simple_char c) s")
    case True
    then have "display_field s @ rest = FIELD_ESCAPE_CHAR #
        (concat (map (\<lambda>c. if c = FIELD_ESCAPE_CHAR then [c, c] else [c]) s) @ FIELD_ESCAPE_CHAR # rest)"
      by (simp add: display_field_def)
    then show ?thesis
      using drop parse_escaped_loop_display [OF rest, of "[]" s]
      by (simp add: parse_field_name_def drop_leading_whitespace_def parse_escaped_field_name_def)
  next
    case False
    then have s: "display_field s = s" "list_all is_simple_char s" "\<not> is_digit (hd s)" "s \<noteq> []"
      by (auto simp: display_field_def list_ex_iff list_all_iff)
    then have "hd s \<noteq> FIELD_ESCAPE_CHAR" by (cases s) auto
    then show ?thesis
      using drop parse_simple_loop_display [OF rest s(2), of True "[]"] s
      by (cases s) (simp_all add: parse_field_name_def drop_leading_whitespace_def
          parse_simple_field_name_def)
  qed
qed

lemma dropWhile_at_delimiter:
  "whitespace_ok ws \<Longrightarrow> at_delimiter rest \<Longrightarrow> dropWhile ws rest = rest"
  by (cases rest) (auto simp: whitespace_ok_def at_delimiter_def)

lemma parse_fields_display:
  assumes ws: "whitespace_ok ws" and rest: "rest = [] \<or> hd rest = COLUMN_SEPARATOR" and ne: "fs \<noteq> []"
  shows "parse_fields ws path (display_column_name fs @ rest) =
    Inr (path @ fs, if rest = [] then InputExhausted else NextColumn, tl rest)"
  using ne
proof (induction fs arbitrary: path rule: list_nonempty_induct)
  case (single f)
  have "at_delimiter rest" using rest by (auto simp: at_delimiter_def)
  then have "parse_field_name ws (display_field f @ rest) = Inr (f, rest)" "dropWhile ws rest = rest"
    using ws by (simp_all add: parse_field_name_display dropWhile_at_delimiter)
  then show ?case using rest
    unfolding parse_fields.simps [of ws path] by (cases rest) (auto simp: display_column_name_def)
next
  case (cons f fs)
  let ?rest = "FIELD_SEPARATOR # display_column_name fs @ rest"
  have "display_column_name (f # fs) @ rest = display_field f @ ?rest"
    using cons.hyps by (cases fs) (simp_all add: display_column_name_def)
  moreover have "parse_field_name ws (display_field f @ ?rest) = Inr (f, ?rest)"
    by (rule parse_field_name_display [OF ws]) (simp add: at_delimiter_def)
  moreover have "dropWhile ws ?rest = ?rest" using ws by (simp add: whitespace_ok_def)
  ultimately show ?case using cons.IH [of "path @ [f]"] by (simp add: parse_fields.simps [of ws path])
qed

lemma parse_column_name_display:
  assumes ws: "whitespace_ok ws" and rest: "rest = [] \<or> hd rest = COLUMN_SEPARATOR"
  shows "parse_column_name ws (display_column_name col @ rest) =
    Inr (col, if rest = [] then InputExhausted else NextColumn, tl rest)"
proof (cases col)
  case Nil
  then show ?thesis using rest ws
    by (cases rest) (auto simp: display_column_name_def parse_column_name_def
        drop_leading_whitespace_def whitespace_ok_def)
next
  case (Cons f fs)
  obtain c cs where c: "display_field f = c # cs" "\<not> ws c" "c \<noteq> COLUMN_SEPARATOR"
    using display_field_head [OF ws] by blast
  have "\<exists>ds. display_column_name col @ rest = c # ds"
    using c(1) Cons by (cases fs) (auto simp: display_column_name_def)
  then show ?thesis
    using parse_fields_display [OF ws rest, of col "[]"] Cons c(2,3)
    by (auto simp: parse_column_name_def drop_leading_whitespace_def)
qed

text \<open>
  C39. The text of a column name is lossless: whatever characters its fields hold, the empty
  field and the empty path included, parsing the printed form gives the column back.
\<close>

theorem column_name_roundtrip:
  "whitespace_ok ws \<Longrightarrow> column_name_from_str ws (display_column_name col) = Inr col"
  using parse_column_name_display [of ws "[]" col] by (simp add: column_name_from_str_def)

theorem column_name_roundtrip_witness:
  "column_name_from_str (\<lambda>c. c = CHR '' '') (display_column_name [''a'', ''b.c'', []]) =
     Inr [''a'', ''b.c'', []]"
proof -
  have "whitespace_ok (\<lambda>c. c = CHR '' '')"
    by (auto simp: whitespace_ok_def is_simple_char_def FIELD_SEPARATOR_def COLUMN_SEPARATOR_def
        FIELD_ESCAPE_CHAR_def)
  then show ?thesis using column_name_roundtrip by blast
qed

definition display_column_list :: "column_name list \<Rightarrow> string" where
  "display_column_list cols = join_with COLUMN_SEPARATOR (map display_column_name cols)"

lemma parse_columns_display:
  assumes ws: "whitespace_ok ws" and ne: "cols \<noteq> []"
  shows "parse_columns ws acc (display_column_list cols) = Inr (acc @ cols)"
  using ne
proof (induction cols arbitrary: acc rule: list_nonempty_induct)
  case (single col)
  have "parse_column_name ws (display_column_name col) = Inr (col, InputExhausted, [])"
    using parse_column_name_display [OF ws, of "[]" col] by simp
  then show ?case unfolding parse_columns.simps [of ws acc] by (simp add: display_column_list_def)
next
  case (cons col cols)
  let ?rest = "COLUMN_SEPARATOR # display_column_list cols"
  have "display_column_list (col # cols) = display_column_name col @ ?rest"
    using cons.hyps by (cases cols) (simp_all add: display_column_list_def)
  moreover have "parse_column_name ws (display_column_name col @ ?rest) =
      Inr (col, NextColumn, display_column_list cols)"
    using parse_column_name_display [OF ws, of ?rest col] by simp
  ultimately show ?case
    unfolding parse_columns.simps [of ws acc] using cons.IH [of "acc @ [col]"] by simp
qed

lemma display_column_list_drop:
  assumes ws: "whitespace_ok ws"
  shows "dropWhile ws (display_column_list cols) = display_column_list cols"
proof (cases cols)
  case (Cons col rest)
  show ?thesis
  proof (cases col)
    case Nil
    then show ?thesis using Cons ws
      by (cases rest) (simp_all add: display_column_list_def display_column_name_def whitespace_ok_def)
  next
    case (Cons f fs)
    obtain c cs where c: "display_field f = c # cs" "\<not> ws c"
      using display_field_head [OF ws] by blast
    then have "\<exists>ds. display_column_list cols = c # ds"
      using Cons \<open>cols = col # rest\<close>
      by (cases fs; cases rest) (auto simp: display_column_list_def display_column_name_def)
    then show ?thesis using c(2) by auto
  qed
qed (simp add: display_column_list_def)

lemma display_column_list_Nil: "display_column_list cols = [] \<longleftrightarrow> cols = [] \<or> cols = [[]]"
proof -
  have "display_field f \<noteq> []" for f by (simp add: display_field_def)
  then have "display_column_name col = [] \<longleftrightarrow> col = []" for col
    by (cases col rule: remdups_adj.cases) (auto simp: display_column_name_def)
  then show ?thesis by (cases cols rule: remdups_adj.cases) (auto simp: display_column_list_def)
qed

text \<open>
  A comma-separated list of column names is read back unchanged, empty columns at the start,
  in the middle and at the end included; the only ambiguous text is the empty one, which is read
  as the empty list and not as one empty column.
\<close>

theorem column_list_roundtrip:
  "whitespace_ok ws \<Longrightarrow>
     parse_column_name_list ws (display_column_list cols) = Inr (if cols = [[]] then [] else cols)"
proof -
  assume ws: "whitespace_ok ws"
  show ?thesis
  proof (cases "display_column_list cols")
    case Nil
    then show ?thesis
      using display_column_list_Nil [of cols]
      by (auto simp: parse_column_name_list_def drop_leading_whitespace_def)
  next
    case (Cons c cs)
    then have "cols \<noteq> []" "cols \<noteq> [[]]" using display_column_list_Nil [of cols] by auto
    then show ?thesis
      using parse_columns_display [OF ws, of cols "[]"] display_column_list_drop [OF ws, of cols] Cons
      by (simp add: parse_column_name_list_def drop_leading_whitespace_def)
  qed
qed

theorem column_list_roundtrip_witness:
  "parse_column_name_list (\<lambda>c. c = CHR '' '') (display_column_list [[], [''a'', ''b.c''], []]) =
     Inr [[], [''a'', ''b.c''], []]"
proof -
  have "whitespace_ok (\<lambda>c. c = CHR '' '')"
    by (auto simp: whitespace_ok_def is_simple_char_def FIELD_SEPARATOR_def COLUMN_SEPARATOR_def
        FIELD_ESCAPE_CHAR_def)
  then show ?thesis
    using column_list_roundtrip [of "\<lambda>c. c = CHR '' ''" "[[], [''a'', ''b.c''], []]"] by simp
qed

end
