(* ===== verification/Expressions.thy ===== *)
theory Expressions
  imports Scalars ColumnNames
begin

text \<open>
  Expressions and predicates: the data of \<open>expressions/mod.rs\<close> and the constructors that build
  and normalise them. An engine-defined operator (\<open>OpaqueExpressionOp\<close>, \<open>OpaquePredicateOp\<close>) is
  an element of the type parameter \<open>'op\<close>; what it computes is a parameter of the evaluators.
\<close>

section \<open>Operators\<close>

datatype unary_predicate_op = IsNull

datatype binary_predicate_op = LessThan | GreaterThan | EqualTo | Distinct | In

datatype unary_expression_op = ToJson

datatype binary_expression_op = Plus | Minus | Multiply | Divide

datatype variadic_expression_op = Coalesce

datatype junction_predicate_op = And | Or

fun is_null_intolerant :: "binary_predicate_op \<Rightarrow> bool" where
  "is_null_intolerant LessThan = True"
| "is_null_intolerant GreaterThan = True"
| "is_null_intolerant EqualTo = True"
| "is_null_intolerant Distinct = False"
| "is_null_intolerant In = False"

fun invert_junction :: "junction_predicate_op \<Rightarrow> junction_predicate_op" where
  "invert_junction And = Or"
| "invert_junction Or = And"

section \<open>Expressions and predicates\<close>

datatype 'op expression =
    Literal scalar
  | Column column_name
  | PredicateE "'op predicate"
  | StructE "'op expression list" "'op expression option"
  | TransformE "column_name option" "(string \<times> 'op field_transform) list" "'op expression list"
  | UnaryE unary_expression_op "'op expression"
  | BinaryE binary_expression_op "'op expression" "'op expression"
  | VariadicE variadic_expression_op "'op expression list"
  | OpaqueE 'op "'op expression list"
  | UnknownE string
  | ParseJson "'op expression" struct_type
  | MapToStruct "'op expression"
and 'op predicate =
    BooleanExpression "'op expression"
  | NotP "'op predicate"
  | UnaryP unary_predicate_op "'op expression"
  | BinaryP binary_predicate_op "'op expression" "'op expression"
  | Junction junction_predicate_op "'op predicate list"
  | OpaqueP 'op "'op expression list"
  | UnknownP string
and 'op field_transform =
    FieldTransform (ft_exprs: "'op expression list") (ft_is_replace: bool) (ft_optional: bool)

section \<open>Constructors\<close>

definition expr_null_literal :: "data_type \<Rightarrow> 'op expression" where
  "expr_null_literal dt = Literal (Null dt)"

definition from_pred :: "'op predicate \<Rightarrow> 'op expression" where
  "from_pred p = (case p of BooleanExpression e \<Rightarrow> e | _ \<Rightarrow> PredicateE p)"

definition pred_literal :: "bool \<Rightarrow> 'op predicate" where
  "pred_literal b = BooleanExpression (Literal (Boolean b))"

definition pred_null_literal :: "'op predicate" where
  "pred_null_literal = BooleanExpression (Literal (Null (Primitive PBoolean)))"

definition from_expr :: "'op expression \<Rightarrow> 'op predicate" where
  "from_expr e = (case e of PredicateE p \<Rightarrow> p | _ \<Rightarrow> BooleanExpression e)"

definition pred_is_null :: "'op expression \<Rightarrow> 'op predicate" where
  "pred_is_null e = UnaryP IsNull e"

definition pred_is_not_null :: "'op expression \<Rightarrow> 'op predicate" where
  "pred_is_not_null e = NotP (pred_is_null e)"

definition pred_eq :: "'op expression \<Rightarrow> 'op expression \<Rightarrow> 'op predicate" where
  "pred_eq a b = BinaryP EqualTo a b"

definition pred_ne :: "'op expression \<Rightarrow> 'op expression \<Rightarrow> 'op predicate" where
  "pred_ne a b = NotP (BinaryP EqualTo a b)"

definition pred_le :: "'op expression \<Rightarrow> 'op expression \<Rightarrow> 'op predicate" where
  "pred_le a b = NotP (BinaryP GreaterThan a b)"

definition pred_lt :: "'op expression \<Rightarrow> 'op expression \<Rightarrow> 'op predicate" where
  "pred_lt a b = BinaryP LessThan a b"

definition pred_ge :: "'op expression \<Rightarrow> 'op expression \<Rightarrow> 'op predicate" where
  "pred_ge a b = NotP (BinaryP LessThan a b)"

definition pred_gt :: "'op expression \<Rightarrow> 'op expression \<Rightarrow> 'op predicate" where
  "pred_gt a b = BinaryP GreaterThan a b"

definition pred_distinct :: "'op expression \<Rightarrow> 'op expression \<Rightarrow> 'op predicate" where
  "pred_distinct a b = BinaryP Distinct a b"

text \<open>\<open>Predicate::junction\<close> normalises the empty and the one-element junction.\<close>

definition pred_junction :: "junction_predicate_op \<Rightarrow> 'op predicate list \<Rightarrow> 'op predicate" where
  "pred_junction op preds =
     (case preds of
        [] \<Rightarrow> (case op of And \<Rightarrow> pred_literal True | Or \<Rightarrow> pred_literal False)
      | [p] \<Rightarrow> p
      | _ \<Rightarrow> Junction op preds)"

definition pred_and :: "'op predicate \<Rightarrow> 'op predicate \<Rightarrow> 'op predicate" where
  "pred_and a b = pred_junction And [a, b]"

definition pred_or :: "'op predicate \<Rightarrow> 'op predicate \<Rightarrow> 'op predicate" where
  "pred_or a b = pred_junction Or [a, b]"

lemmas pred_constructors =
  pred_literal_def pred_null_literal_def pred_is_null_def pred_is_not_null_def pred_eq_def
  pred_ne_def pred_le_def pred_lt_def pred_ge_def pred_gt_def pred_distinct_def pred_and_def pred_or_def

end
