(* ===== verification/KernelPredicates.thy ===== *)
theory KernelPredicates
  imports Expressions
begin

text \<open>
  \<open>kernel_predicates/mod.rs\<close>: the evaluation of a predicate by an arbitrary evaluator. The trait
  \<open>KernelPredicateEvaluator\<close> is a record of its required methods, polymorphic in the output
  type; its provided methods are functions of that record. The direct evaluator over scalars
  (\<open>DefaultKernelPredicateEvaluator\<close>) is the reference semantics of predicates. An
  engine-defined operator computes from the row's columns and its arguments; what it computes
  is a parameter.
\<close>

section \<open>The evaluator interface\<close>

record ('op, 'o) predicate_evaluator =
  ev_scalar :: "scalar \<Rightarrow> bool \<Rightarrow> 'o option"
  ev_scalar_is_null :: "scalar \<Rightarrow> bool \<Rightarrow> 'o option"
  ev_is_null :: "column_name \<Rightarrow> bool \<Rightarrow> 'o option"
  ev_lt :: "column_name \<Rightarrow> scalar \<Rightarrow> bool \<Rightarrow> 'o option"
  ev_gt :: "column_name \<Rightarrow> scalar \<Rightarrow> bool \<Rightarrow> 'o option"
  ev_eq :: "column_name \<Rightarrow> scalar \<Rightarrow> bool \<Rightarrow> 'o option"
  ev_binary_scalars :: "binary_predicate_op \<Rightarrow> scalar \<Rightarrow> scalar \<Rightarrow> bool \<Rightarrow> 'o option"
  ev_binary_columns :: "binary_predicate_op \<Rightarrow> column_name \<Rightarrow> column_name \<Rightarrow> bool \<Rightarrow> 'o option"
  ev_opaque :: "'op \<Rightarrow> 'op expression list \<Rightarrow> bool \<Rightarrow> 'o option"
  ev_expr_opaque :: "'op \<Rightarrow> 'op expression list \<Rightarrow> bool \<Rightarrow> 'o option"
  ev_finish_junction :: "junction_predicate_op \<Rightarrow> 'o option list \<Rightarrow> bool \<Rightarrow> 'o option"

section \<open>Provided methods\<close>

definition eval_pred_column :: "('op, 'o) predicate_evaluator \<Rightarrow> column_name \<Rightarrow> bool \<Rightarrow> 'o option" where
  "eval_pred_column E col inverted = ev_eq E col (Boolean inverted) True"

definition eval_pred_unary ::
  "('op, 'o) predicate_evaluator \<Rightarrow> unary_predicate_op \<Rightarrow> 'op expression \<Rightarrow> bool \<Rightarrow> 'o option" where
  "eval_pred_unary E op expr inverted =
     (case op of IsNull \<Rightarrow>
        (case expr of
           Literal val \<Rightarrow> ev_scalar_is_null E val inverted
         | Column col \<Rightarrow> ev_is_null E col inverted
         | _ \<Rightarrow> None))"

definition eval_pred_distinct ::
  "('op, 'o) predicate_evaluator \<Rightarrow> column_name \<Rightarrow> scalar \<Rightarrow> bool \<Rightarrow> 'o option" where
  "eval_pred_distinct E col val inverted =
     (if scalar_is_null val then ev_is_null E col (\<not> inverted)
      else ev_finish_junction E Or
             [ev_is_null E col inverted, ev_eq E col val (\<not> inverted)] inverted)"

definition eval_pred_in ::
  "('op, 'o) predicate_evaluator \<Rightarrow> column_name \<Rightarrow> scalar \<Rightarrow> bool \<Rightarrow> 'o option" where
  "eval_pred_in E col val inverted = None"

definition eval_pred_binary ::
  "('op, 'o) predicate_evaluator \<Rightarrow> binary_predicate_op \<Rightarrow> 'op expression \<Rightarrow> 'op expression \<Rightarrow>
   bool \<Rightarrow> 'o option" where
  "eval_pred_binary E op left right inverted =
     (case left of
        Column a \<Rightarrow>
          (case right of
             Column b \<Rightarrow> ev_binary_columns E op a b inverted
           | Literal val \<Rightarrow>
               (case op of
                  LessThan \<Rightarrow> ev_lt E a val inverted
                | GreaterThan \<Rightarrow> ev_gt E a val inverted
                | EqualTo \<Rightarrow> ev_eq E a val inverted
                | Distinct \<Rightarrow> eval_pred_distinct E a val inverted
                | In \<Rightarrow> eval_pred_in E a val inverted)
           | _ \<Rightarrow> None)
      | Literal val \<Rightarrow>
          (case right of
             Literal b \<Rightarrow> ev_binary_scalars E op val b inverted
           | Column col \<Rightarrow>
               (case op of
                  LessThan \<Rightarrow> ev_gt E col val inverted
                | GreaterThan \<Rightarrow> ev_lt E col val inverted
                | EqualTo \<Rightarrow> ev_eq E col val inverted
                | Distinct \<Rightarrow> eval_pred_distinct E col val inverted
                | In \<Rightarrow> None)
           | _ \<Rightarrow> None)
      | _ \<Rightarrow> None)"

text \<open>\<open>eval_pred\<close> with \<open>eval_pred_expr\<close>, \<open>eval_pred_not\<close> and \<open>eval_pred_junction\<close>.\<close>

fun eval_pred :: "('op, 'o) predicate_evaluator \<Rightarrow> 'op predicate \<Rightarrow> bool \<Rightarrow> 'o option"
  and eval_pred_expr :: "('op, 'o) predicate_evaluator \<Rightarrow> 'op expression \<Rightarrow> bool \<Rightarrow> 'o option" where
  "eval_pred E (BooleanExpression expr) inverted = eval_pred_expr E expr inverted"
| "eval_pred E (NotP p) inverted = eval_pred E p (\<not> inverted)"
| "eval_pred E (UnaryP op expr) inverted = eval_pred_unary E op expr inverted"
| "eval_pred E (BinaryP op left right) inverted = eval_pred_binary E op left right inverted"
| "eval_pred E (Junction op preds) inverted =
     ev_finish_junction E op (map (\<lambda>p. eval_pred E p inverted) preds) inverted"
| "eval_pred E (OpaqueP op exprs) inverted = ev_opaque E op exprs inverted"
| "eval_pred E (UnknownP name) inverted = None"
| "eval_pred_expr E (Literal val) inverted = ev_scalar E val inverted"
| "eval_pred_expr E (Column col) inverted = eval_pred_column E col inverted"
| "eval_pred_expr E (PredicateE p) inverted = eval_pred E p inverted"
| "eval_pred_expr E (OpaqueE op exprs) inverted = ev_expr_opaque E op exprs inverted"
| "eval_pred_expr E _ inverted = None"

text \<open>\<open>eval_pred_sql_where\<close>; \<open>eval_sql_where\<close> is its non-inverted form.\<close>

fun eval_pred_sql_where :: "('op, 'o) predicate_evaluator \<Rightarrow> 'op predicate \<Rightarrow> bool \<Rightarrow> 'o option"
  and sql_where_expr :: "('op, 'o) predicate_evaluator \<Rightarrow> 'op expression \<Rightarrow> bool \<Rightarrow> 'o option" where
  "eval_pred_sql_where E (Junction op preds) inverted =
     ev_finish_junction E op (map (\<lambda>p. eval_pred_sql_where E p inverted) preds) inverted"
| "eval_pred_sql_where E (BinaryP op left right) inverted =
     (if is_null_intolerant op
      then ev_finish_junction E And
             [eval_pred_unary E IsNull left True, eval_pred_unary E IsNull right True,
              eval_pred_binary E op left right inverted] False
      else eval_pred E (BinaryP op left right) inverted)"
| "eval_pred_sql_where E (NotP p) inverted = eval_pred_sql_where E p (\<not> inverted)"
| "eval_pred_sql_where E (BooleanExpression expr) inverted = sql_where_expr E expr inverted"
| "eval_pred_sql_where E p inverted = eval_pred E p inverted"
| "sql_where_expr E (Column col) inverted =
     ev_finish_junction E And [ev_is_null E col True, eval_pred_column E col inverted] False"
| "sql_where_expr E (Literal val) inverted =
     (if scalar_is_null val then ev_scalar E (Boolean False) False
      else eval_pred_expr E (Literal val) inverted)"
| "sql_where_expr E (PredicateE p) inverted = eval_pred_sql_where E p inverted"
| "sql_where_expr E expr inverted = eval_pred_expr E expr inverted"

definition eval_sql_where :: "('op, 'o) predicate_evaluator \<Rightarrow> 'op predicate \<Rightarrow> 'o option" where
  "eval_sql_where E p = eval_pred_sql_where E p False"

section \<open>Boolean defaults\<close>

definition default_eval_pred_scalar :: "scalar \<Rightarrow> bool \<Rightarrow> bool option" where
  "default_eval_pred_scalar val inverted =
     (case val of Boolean b \<Rightarrow> Some (b \<noteq> inverted) | _ \<Rightarrow> None)"

definition default_eval_pred_scalar_is_null :: "scalar \<Rightarrow> bool \<Rightarrow> bool option" where
  "default_eval_pred_scalar_is_null val inverted = Some (scalar_is_null val \<noteq> inverted)"

definition partial_cmp_scalars :: "ordering \<Rightarrow> scalar \<Rightarrow> scalar \<Rightarrow> bool \<Rightarrow> bool option" where
  "partial_cmp_scalars ord a b inverted =
     (case logical_partial_cmp a b of
        None \<Rightarrow> None
      | Some c \<Rightarrow> Some ((c = ord) \<noteq> inverted))"

definition default_eval_pred_binary_scalars ::
  "binary_predicate_op \<Rightarrow> scalar \<Rightarrow> scalar \<Rightarrow> bool \<Rightarrow> bool option" where
  "default_eval_pred_binary_scalars op left right inverted =
     (case op of
        EqualTo \<Rightarrow> partial_cmp_scalars Equal left right inverted
      | LessThan \<Rightarrow> partial_cmp_scalars Less left right inverted
      | GreaterThan \<Rightarrow> partial_cmp_scalars Greater left right inverted
      | _ \<Rightarrow> None)"

text \<open>The loop of \<open>finish_eval_pred_junction\<close> with its flag \<open>found_null\<close>.\<close>

fun junction_loop :: "bool \<Rightarrow> bool \<Rightarrow> bool option list \<Rightarrow> bool option" where
  "junction_loop dominator found_null [] = (if found_null then None else Some (\<not> dominator))"
| "junction_loop dominator found_null (v # vs) =
     (case v of
        None \<Rightarrow> junction_loop dominator True vs
      | Some b \<Rightarrow> if b = dominator then Some dominator else junction_loop dominator found_null vs)"

definition default_finish_junction ::
  "junction_predicate_op \<Rightarrow> bool option list \<Rightarrow> bool \<Rightarrow> bool option" where
  "default_finish_junction op preds inverted =
     junction_loop (case op of And \<Rightarrow> inverted | Or \<Rightarrow> \<not> inverted) False preds"

section \<open>Direct evaluation over scalars\<close>

text \<open>
  What engine-defined operators compute: from the row (the resolver of column names) and their
  arguments, a scalar or a possibly inverted truth value, or an error.
\<close>

record 'op opaque_ops =
  eval_expr_scalar :: "(column_name \<Rightarrow> scalar option) \<Rightarrow> 'op \<Rightarrow> 'op expression list \<Rightarrow> scalar delta_result"
  opaque_eval_pred_scalar ::
    "(column_name \<Rightarrow> scalar option) \<Rightarrow> 'op \<Rightarrow> 'op expression list \<Rightarrow> bool \<Rightarrow> bool option delta_result"

definition resolve_binary ::
  "(column_name \<Rightarrow> scalar option) \<Rightarrow> binary_predicate_op \<Rightarrow> column_name \<Rightarrow> scalar \<Rightarrow> bool \<Rightarrow> bool option" where
  "resolve_binary resolver op col val inverted =
     (case resolver col of None \<Rightarrow> None | Some c \<Rightarrow> default_eval_pred_binary_scalars op c val inverted)"

definition default_evaluator ::
  "'op opaque_ops \<Rightarrow> (column_name \<Rightarrow> scalar option) \<Rightarrow> ('op, bool) predicate_evaluator" where
  "default_evaluator ops resolver =
     \<lparr> ev_scalar = default_eval_pred_scalar,
       ev_scalar_is_null = default_eval_pred_scalar_is_null,
       ev_is_null = (\<lambda>col inverted.
         case resolver col of None \<Rightarrow> None | Some c \<Rightarrow> default_eval_pred_scalar_is_null c inverted),
       ev_lt = resolve_binary resolver LessThan,
       ev_gt = resolve_binary resolver GreaterThan,
       ev_eq = resolve_binary resolver EqualTo,
       ev_binary_scalars = default_eval_pred_binary_scalars,
       ev_binary_columns = (\<lambda>op left right inverted.
         case resolver left of None \<Rightarrow> None
         | Some l \<Rightarrow> (case resolver right of None \<Rightarrow> None
             | Some r \<Rightarrow> default_eval_pred_binary_scalars op l r inverted)),
       ev_opaque = (\<lambda>op exprs inverted.
         case opaque_eval_pred_scalar ops resolver op exprs inverted of Inr r \<Rightarrow> r | Inl _ \<Rightarrow> None),
       ev_expr_opaque = (\<lambda>op exprs inverted.
         case eval_expr_scalar ops resolver op exprs of
           Inr (Boolean b) \<Rightarrow> Some (b \<noteq> inverted)
         | _ \<Rightarrow> None),
       ev_finish_junction = default_finish_junction \<rparr>"

fun eval_expr :: "'op opaque_ops \<Rightarrow> (column_name \<Rightarrow> scalar option) \<Rightarrow> 'op expression \<Rightarrow> scalar option" where
  "eval_expr ops resolver (Literal val) = Some val"
| "eval_expr ops resolver (Column name) = resolver name"
| "eval_expr ops resolver (PredicateE p) =
     map_option Boolean (eval_pred (default_evaluator ops resolver) p False)"
| "eval_expr ops resolver (BinaryE op left right) =
     (case eval_expr ops resolver left of
        None \<Rightarrow> None
      | Some l \<Rightarrow>
          (case eval_expr ops resolver right of
             None \<Rightarrow> None
           | Some r \<Rightarrow>
               (case op of
                  Plus \<Rightarrow> try_add l r
                | Minus \<Rightarrow> try_sub l r
                | Multiply \<Rightarrow> try_mul l r
                | Divide \<Rightarrow> try_div l r)))"
| "eval_expr ops resolver (OpaqueE op exprs) =
     (case eval_expr_scalar ops resolver op exprs of Inr s \<Rightarrow> Some s | Inl _ \<Rightarrow> None)"
| "eval_expr ops resolver _ = None"

section \<open>Three-valued junctions\<close>

lemma junction_loop_iff:
  "junction_loop d fn vs =
     (if Some d \<in> set vs then Some d else if fn \<or> None \<in> set vs then None else Some (\<not> d))"
  by (induction vs arbitrary: fn) (auto split: option.splits)

lemma default_finish_junction_True:
  "default_finish_junction op vs inverted = Some True \<longleftrightarrow>
     (if (op = And) = inverted then (\<exists>v \<in> set vs. v = Some True) else (\<forall>v \<in> set vs. v = Some True))"
proof -
  have "(\<forall>v \<in> set vs. v = Some True) \<longleftrightarrow> Some False \<notin> set vs \<and> None \<notin> set vs"
    by (metis (full_types) not_None_eq option.distinct(1) option.inject)
  then show ?thesis
    by (cases op; cases inverted) (auto simp: default_finish_junction_def junction_loop_iff)
qed

lemma default_finish_junction_False:
  "default_finish_junction op vs inverted = Some False \<longleftrightarrow>
     (if (op = And) = inverted then (\<forall>v \<in> set vs. v = Some False) else (\<exists>v \<in> set vs. v = Some False))"
proof -
  have "(\<forall>v \<in> set vs. v = Some False) \<longleftrightarrow> Some True \<notin> set vs \<and> None \<notin> set vs"
    by (metis (full_types) not_None_eq option.distinct(1) option.inject)
  then show ?thesis
    by (cases op; cases inverted) (auto simp: default_finish_junction_def junction_loop_iff)
qed

lemma default_evaluator_simps [simp]:
  "ev_scalar (default_evaluator ops r) = default_eval_pred_scalar"
  "ev_scalar_is_null (default_evaluator ops r) = default_eval_pred_scalar_is_null"
  "ev_is_null (default_evaluator ops r) col inverted =
     (case r col of None \<Rightarrow> None | Some c \<Rightarrow> default_eval_pred_scalar_is_null c inverted)"
  "ev_lt (default_evaluator ops r) = resolve_binary r LessThan"
  "ev_gt (default_evaluator ops r) = resolve_binary r GreaterThan"
  "ev_eq (default_evaluator ops r) = resolve_binary r EqualTo"
  "ev_binary_scalars (default_evaluator ops r) = default_eval_pred_binary_scalars"
  "ev_binary_columns (default_evaluator ops r) bop a b inverted =
     (case r a of None \<Rightarrow> None
      | Some l \<Rightarrow> (case r b of None \<Rightarrow> None
          | Some r \<Rightarrow> default_eval_pred_binary_scalars bop l r inverted))"
  "ev_opaque (default_evaluator ops r) op exprs inverted =
     (case opaque_eval_pred_scalar ops r op exprs inverted of Inr x \<Rightarrow> x | Inl _ \<Rightarrow> None)"
  "ev_finish_junction (default_evaluator ops r) = default_finish_junction"
  by (simp_all add: default_evaluator_def)

lemma cmp_Some_not_null:
  "logical_partial_cmp a b = Some c \<Longrightarrow> \<not> scalar_is_null a \<and> \<not> scalar_is_null b"
  using lcmp.flip [of b a] by (cases a; cases b) (auto simp: logical_partial_cmp_def)

lemma binary_scalars_not_null:
  "default_eval_pred_binary_scalars op a b inverted = Some x \<Longrightarrow>
     \<not> scalar_is_null a \<and> \<not> scalar_is_null b"
  by (auto simp: default_eval_pred_binary_scalars_def partial_cmp_scalars_def
      split: binary_predicate_op.splits option.splits dest: cmp_Some_not_null)

text \<open>A comparison that yields a truth value had two non-NULL operands, columns or literals.\<close>

lemma binary_operands_not_null:
  assumes "is_null_intolerant op"
    and "eval_pred_binary (default_evaluator ops r) op left right inverted = Some x"
  shows "eval_pred_unary (default_evaluator ops r) IsNull left True = Some True \<and>
    eval_pred_unary (default_evaluator ops r) IsNull right True = Some True"
  using assms
  by (cases op)
    (auto simp: eval_pred_binary_def eval_pred_unary_def resolve_binary_def
      default_eval_pred_scalar_is_null_def split: expression.splits option.splits
      dest: binary_scalars_not_null)

lemma sql_where_true:
  "eval_pred_sql_where (default_evaluator ops r) p inverted = Some True \<longleftrightarrow>
     eval_pred (default_evaluator ops r) p inverted = Some True"
  "sql_where_expr (default_evaluator ops r) e inverted = Some True \<longleftrightarrow>
     eval_pred_expr (default_evaluator ops r) e inverted = Some True"
proof (induction "default_evaluator ops r" p inverted and "default_evaluator ops r" e inverted
    rule: eval_pred_sql_where_sql_where_expr.induct)
  case (1 op preds inverted)
  then show ?case by (simp add: default_finish_junction_True image_iff eq_commute [of "Some True"])
next
  case (2 op left right inverted)
  then show ?case
    using binary_operands_not_null [of op ops r left right inverted True]
    by (auto simp: default_finish_junction_True)
next
  case (6 col inverted)
  have "r col = Some c \<Longrightarrow> resolve_binary r EqualTo col v i = Some x \<Longrightarrow> \<not> scalar_is_null c" for c v i x
    by (auto simp: resolve_binary_def dest: binary_scalars_not_null)
  then show ?case
    by (auto simp: default_finish_junction_True eval_pred_column_def default_eval_pred_scalar_is_null_def
        resolve_binary_def split: option.splits)
next
  case (7 val inverted)
  then show ?case
    by (cases val) (simp_all add: default_eval_pred_scalar_def)
qed simp_all
text \<open>
  SQL WHERE semantics select the same rows: in the reference evaluator the null-safe
  evaluation of a predicate is true exactly when the plain three-valued evaluation is true, for
  every predicate, inverted or not; the two differ only in telling NULL from FALSE.
\<close>

theorem sql_where_same_rows:
  "eval_pred_sql_where (default_evaluator ops r) p inverted = Some True \<longleftrightarrow>
     eval_pred (default_evaluator ops r) p inverted = Some True"
  by (rule sql_where_true)

section \<open>Inversion\<close>

lemma default_finish_junction_inverted:
  "default_finish_junction op (map (map_option Not) vs) (\<not> inverted) =
     map_option Not (default_finish_junction op vs inverted)"
proof -
  have mem: "Some b \<in> map_option Not ` set vs \<longleftrightarrow> Some (\<not> b) \<in> set vs" for b
  proof -
    have "Some b = map_option Not x \<longleftrightarrow> x = Some (\<not> b)" for x by (cases x) auto
    then show ?thesis by (auto simp: image_iff)
  qed
  have none: "None \<in> map_option Not ` set vs \<longleftrightarrow> None \<in> set vs"
  proof -
    have "None = map_option Not x \<longleftrightarrow> x = None" for x by (cases x) auto
    then show ?thesis by (auto simp: image_iff)
  qed
  show ?thesis
    by (cases op; cases inverted) (simp_all add: default_finish_junction_def junction_loop_iff mem none)
qed

definition opaque_invertible :: "'op opaque_ops \<Rightarrow> (column_name \<Rightarrow> scalar option) \<Rightarrow> bool" where
  "opaque_invertible ops r \<longleftrightarrow>
     (\<forall>op exprs i. ev_opaque (default_evaluator ops r) op exprs (\<not> i) =
        map_option Not (ev_opaque (default_evaluator ops r) op exprs i))"

lemma partial_cmp_scalars_inverted:
  "partial_cmp_scalars ord a b (\<not> i) = map_option Not (partial_cmp_scalars ord a b i)"
  by (auto simp: partial_cmp_scalars_def split: option.splits)

lemma binary_scalars_inverted:
  "default_eval_pred_binary_scalars op a b (\<not> i) = map_option Not (default_eval_pred_binary_scalars op a b i)"
  by (cases op) (simp_all add: default_eval_pred_binary_scalars_def partial_cmp_scalars_inverted)

lemma resolve_binary_inverted:
  "resolve_binary r op c v (\<not> i) = map_option Not (resolve_binary r op c v i)"
  by (simp add: resolve_binary_def binary_scalars_inverted split: option.splits)

lemma is_null_inverted:
  "default_eval_pred_scalar_is_null v (\<not> i) = map_option Not (default_eval_pred_scalar_is_null v i)"
  by (auto simp: default_eval_pred_scalar_is_null_def)

lemma column_inverted:
  "eval_pred_column (default_evaluator ops r) c (\<not> i) =
     map_option Not (eval_pred_column (default_evaluator ops r) c i)"
  by (auto simp: eval_pred_column_def resolve_binary_def default_eval_pred_binary_scalars_def
      partial_cmp_scalars_def logical_partial_cmp_def cmp_def split: option.splits scalar.splits)

lemma distinct_inverted:
  "eval_pred_distinct (default_evaluator ops r) c v (\<not> i) =
     map_option Not (eval_pred_distinct (default_evaluator ops r) c v i)"
proof (cases "scalar_is_null v")
  case True
  then show ?thesis
    using is_null_inverted [of _ "\<not> i"] is_null_inverted [of _ i]
    by (auto simp: eval_pred_distinct_def default_eval_pred_scalar_is_null_def split: option.splits)
next
  case False
  let ?n = "\<lambda>j. ev_is_null (default_evaluator ops r) c j"
  let ?e = "\<lambda>j. ev_eq (default_evaluator ops r) c v j"
  have "?n (\<not> i) = map_option Not (?n i)" by (simp add: is_null_inverted split: option.splits)
  moreover have "?e i = map_option Not (?e (\<not> i))"
    using resolve_binary_inverted [of r EqualTo c v "\<not> i"] by simp
  ultimately show ?thesis
    using default_finish_junction_inverted [of Or "[?n i, ?e (\<not> i)]" i] False
    by (simp add: eval_pred_distinct_def)
qed

lemma binary_inverted:
  "eval_pred_binary (default_evaluator ops r) op a b (\<not> i) =
     map_option Not (eval_pred_binary (default_evaluator ops r) op a b i)"
  by (cases a; cases b; cases op)
    (simp_all add: eval_pred_binary_def resolve_binary_inverted binary_scalars_inverted
      distinct_inverted eval_pred_in_def split: option.splits)

lemma unary_inverted:
  "eval_pred_unary (default_evaluator ops r) op a (\<not> i) =
     map_option Not (eval_pred_unary (default_evaluator ops r) op a i)"
  by (cases op; cases a) (simp_all add: eval_pred_unary_def is_null_inverted split: option.splits)

lemma eval_pred_inverted_all:
  assumes "opaque_invertible ops r"
  shows "eval_pred (default_evaluator ops r) p (\<not> i) =
      map_option Not (eval_pred (default_evaluator ops r) p i)"
    and "eval_pred_expr (default_evaluator ops r) e (\<not> i) =
      map_option Not (eval_pred_expr (default_evaluator ops r) e i)"
proof (induction "default_evaluator ops r" p i and "default_evaluator ops r" e i
    rule: eval_pred_eval_pred_expr.induct)
  case (5 op preds i)
  then have "map (\<lambda>p. eval_pred (default_evaluator ops r) p (\<not> i)) preds =
      map (map_option Not) (map (\<lambda>p. eval_pred (default_evaluator ops r) p i) preds)"
    by simp
  then show ?case
    using default_finish_junction_inverted
      [of op "map (\<lambda>p. eval_pred (default_evaluator ops r) p i) preds" i]
    by (simp del: map_map map_eq_conv)
next
  case (6 op exprs i)
  then show ?case using assms by (simp add: opaque_invertible_def)
next
  case (11 op exprs i)
  then show ?case
    by (auto simp: default_evaluator_def split: sum.splits scalar.splits)
qed (simp_all add: unary_inverted binary_inverted column_inverted,
    auto simp: default_eval_pred_scalar_def split: scalar.splits)

text \<open>
  Pushing NOT down is exact: evaluating a predicate with the inverted flag gives the logical
  negation of its value, NULL staying NULL, through every operator, comparisons, DISTINCT, NULL
  tests and nested AND/OR (De Morgan) included, given that engine-defined predicates invert
  the same way.
\<close>

theorem eval_pred_inverted:
  "opaque_invertible ops r \<Longrightarrow>
     eval_pred (default_evaluator ops r) p True =
       map_option Not (eval_pred (default_evaluator ops r) p False)"
  using eval_pred_inverted_all(1) [of ops r p False] by simp

definition no_opaque :: "unit opaque_ops" where
  "no_opaque = \<lparr> eval_expr_scalar = \<lambda>_ _ _. Inl (Unsupported ''''),
     opaque_eval_pred_scalar = \<lambda>_ _ _ _. Inr None \<rparr>"

definition ex_row :: "column_name \<Rightarrow> scalar option" where
  "ex_row col = (if col = [''a''] then Some (Byte 7) else None)"

theorem eval_pred_inverted_witness:
  "eval_pred (default_evaluator no_opaque ex_row)
     (Junction And [pred_gt (Column [''a'']) (Literal (Byte 5)), pred_literal True]) True =
   map_option Not (eval_pred (default_evaluator no_opaque ex_row)
     (Junction And [pred_gt (Column [''a'']) (Literal (Byte 5)), pred_literal True]) False)"
proof -
  have "opaque_invertible no_opaque ex_row" by (simp add: opaque_invertible_def no_opaque_def)
  then show ?thesis using eval_pred_inverted by blast
qed

end
