(* ===== verification/DataSkipping.thy ===== *)
theory DataSkipping
  imports KernelPredicates
begin

text \<open>
  Data skipping: the generic part of \<open>DataSkippingPredicateEvaluator\<close>
  (\<open>kernel_predicates/mod.rs\<close>), evaluation over parquet footer statistics
  (\<open>kernel_predicates/parquet_stats_skipping.rs\<close>, \<open>engine/parquet_row_group_skipping.rs\<close>), and
  the rewriting of a predicate into one over file statistics (\<open>scan/data_skipping.rs\<close>). The
  locale \<open>skipping_simulation\<close> states when a skipping evaluator never contradicts the row
  evaluator, operation by operation; its lemmas lift that to whole predicates once, and it is
  interpreted for row group skipping and for both predicate rewriters.
\<close>

section \<open>The skipping interface\<close>

record ('op, 'o, 's) skipping_evaluator =
  get_min_stat :: "column_name \<Rightarrow> data_type \<Rightarrow> 's option"
  get_max_stat :: "column_name \<Rightarrow> data_type \<Rightarrow> 's option"
  get_nullcount_stat :: "column_name \<Rightarrow> 's option"
  get_rowcount_stat :: "'s option"
  sk_scalar :: "scalar \<Rightarrow> bool \<Rightarrow> 'o option"
  sk_scalar_is_null :: "scalar \<Rightarrow> bool \<Rightarrow> 'o option"
  sk_is_null :: "column_name \<Rightarrow> bool \<Rightarrow> 'o option"
  sk_binary_scalars :: "binary_predicate_op \<Rightarrow> scalar \<Rightarrow> scalar \<Rightarrow> bool \<Rightarrow> 'o option"
  sk_opaque :: "'op \<Rightarrow> 'op expression list \<Rightarrow> bool \<Rightarrow> 'o option"
  sk_finish_junction :: "junction_predicate_op \<Rightarrow> 'o option list \<Rightarrow> bool \<Rightarrow> 'o option"
  sk_partial_cmp :: "ordering \<Rightarrow> 's \<Rightarrow> scalar \<Rightarrow> bool \<Rightarrow> 'o option"

definition partial_cmp_min_stat ::
  "('op, 'o, 's) skipping_evaluator \<Rightarrow> column_name \<Rightarrow> scalar \<Rightarrow> ordering \<Rightarrow> bool \<Rightarrow> 'o option" where
  "partial_cmp_min_stat K col val ord inverted =
     (case get_min_stat K col (scalar_data_type val) of
        None \<Rightarrow> None
      | Some mn \<Rightarrow> sk_partial_cmp K ord mn val inverted)"

definition partial_cmp_max_stat ::
  "('op, 'o, 's) skipping_evaluator \<Rightarrow> column_name \<Rightarrow> scalar \<Rightarrow> ordering \<Rightarrow> bool \<Rightarrow> 'o option" where
  "partial_cmp_max_stat K col val ord inverted =
     (case get_max_stat K col (scalar_data_type val) of
        None \<Rightarrow> None
      | Some mx \<Rightarrow> sk_partial_cmp K ord mx val inverted)"

definition skipping_lt ::
  "('op, 'o, 's) skipping_evaluator \<Rightarrow> column_name \<Rightarrow> scalar \<Rightarrow> bool \<Rightarrow> 'o option" where
  "skipping_lt K col val inverted =
     (if inverted then partial_cmp_max_stat K col val Less True
      else partial_cmp_min_stat K col val Less False)"

definition skipping_gt ::
  "('op, 'o, 's) skipping_evaluator \<Rightarrow> column_name \<Rightarrow> scalar \<Rightarrow> bool \<Rightarrow> 'o option" where
  "skipping_gt K col val inverted =
     (if inverted then partial_cmp_min_stat K col val Greater True
      else partial_cmp_max_stat K col val Greater False)"

definition skipping_eq ::
  "('op, 'o, 's) skipping_evaluator \<Rightarrow> column_name \<Rightarrow> scalar \<Rightarrow> bool \<Rightarrow> 'o option" where
  "skipping_eq K col val inverted =
     (if inverted
      then sk_finish_junction K Or
             [partial_cmp_min_stat K col val Equal True, partial_cmp_max_stat K col val Equal True] False
      else sk_finish_junction K And
             [partial_cmp_min_stat K col val Greater True, partial_cmp_max_stat K col val Less True] False)"

text \<open>The blanket implementation of the predicate evaluator for every skipping evaluator.\<close>

definition kernel_evaluator :: "('op, 'o, 's) skipping_evaluator \<Rightarrow> ('op, 'o) predicate_evaluator" where
  "kernel_evaluator K =
     \<lparr> ev_scalar = sk_scalar K, ev_scalar_is_null = sk_scalar_is_null K, ev_is_null = sk_is_null K,
       ev_lt = skipping_lt K, ev_gt = skipping_gt K, ev_eq = skipping_eq K,
       ev_binary_scalars = sk_binary_scalars K,
       ev_binary_columns = (\<lambda>_ _ _ _. None),
       ev_opaque = sk_opaque K,
       ev_expr_opaque = (\<lambda>_ _ _. None),
       ev_finish_junction = sk_finish_junction K \<rparr>"

section \<open>Parquet footer statistics\<close>

record parquet_stats =
  get_parquet_min_stat :: "column_name \<Rightarrow> data_type \<Rightarrow> scalar option"
  get_parquet_max_stat :: "column_name \<Rightarrow> data_type \<Rightarrow> scalar option"
  get_parquet_nullcount_stat :: "column_name \<Rightarrow> 64 word option"
  get_parquet_rowcount_stat :: "64 word"

definition parquet_is_null :: "parquet_stats \<Rightarrow> column_name \<Rightarrow> bool \<Rightarrow> bool option" where
  "parquet_is_null S col inverted =
     (let safe_to_skip = (if inverted then Long (get_parquet_rowcount_stat S) else Long 0) in
      case get_parquet_nullcount_stat S col of
        None \<Rightarrow> None
      | Some n \<Rightarrow> Some (Long n \<noteq> safe_to_skip))"

text \<open>
  \<open>opaque_skip\<close> is \<open>eval_as_data_skipping_predicate\<close> of the engine-defined operators.
\<close>

definition parquet_evaluator ::
  "(parquet_stats \<Rightarrow> 'op \<Rightarrow> 'op expression list \<Rightarrow> bool \<Rightarrow> bool option) \<Rightarrow> parquet_stats \<Rightarrow>
   ('op, bool, scalar) skipping_evaluator" where
  "parquet_evaluator opaque_skip S =
     \<lparr> get_min_stat = get_parquet_min_stat S, get_max_stat = get_parquet_max_stat S,
       get_nullcount_stat = (\<lambda>col. map_option Long (get_parquet_nullcount_stat S col)),
       get_rowcount_stat = Some (Long (get_parquet_rowcount_stat S)),
       sk_scalar = default_eval_pred_scalar, sk_scalar_is_null = default_eval_pred_scalar_is_null,
       sk_is_null = parquet_is_null S,
       sk_binary_scalars = default_eval_pred_binary_scalars,
       sk_opaque = opaque_skip S,
       sk_finish_junction = default_finish_junction,
       sk_partial_cmp = partial_cmp_scalars \<rparr>"

text \<open>\<open>RowGroupFilter::apply\<close>: false means that the row group is skipped.\<close>

definition row_group_apply ::
  "(parquet_stats \<Rightarrow> 'op \<Rightarrow> 'op expression list \<Rightarrow> bool \<Rightarrow> bool option) \<Rightarrow> parquet_stats \<Rightarrow>
   'op predicate \<Rightarrow> bool" where
  "row_group_apply opaque_skip S p =
     (eval_sql_where (kernel_evaluator (parquet_evaluator opaque_skip S)) p \<noteq> Some False)"

text \<open>\<open>with_row_group_filter\<close>: the ordinals of the row groups that survive.\<close>

definition with_row_group_filter ::
  "(parquet_stats \<Rightarrow> 'op \<Rightarrow> 'op expression list \<Rightarrow> bool \<Rightarrow> bool option) \<Rightarrow> parquet_stats list \<Rightarrow>
   'op predicate \<Rightarrow> nat list" where
  "with_row_group_filter opaque_skip groups p =
     map fst (filter (\<lambda>(_, S). row_group_apply opaque_skip S p) (enumerate 0 groups))"

section \<open>Simulation\<close>

text \<open>
  A skipping result is sound for a row when it is not FALSE while the row's result is TRUE.
\<close>

definition sound :: "bool option \<Rightarrow> bool option \<Rightarrow> bool" where
  "sound x y \<longleftrightarrow> (x = Some False \<longrightarrow> y \<noteq> Some True)"

lemma sound_simps [simp]:
  "sound None y" "sound (Some True) y" "sound x None" "sound x (Some False)"
  "sound x (Some True) \<longleftrightarrow> x \<noteq> Some False"
  by (simp_all add: sound_def)

lemma sound_refl [simp]: "sound x x"
  by (simp add: sound_def)

lemma sound_junction:
  assumes "list_all2 sound xs ys"
  shows "sound (default_finish_junction op xs inverted) (default_finish_junction op ys inverted)"
  using assms unfolding sound_def list_all2_conv_all_nth
  by (auto simp: default_finish_junction_True default_finish_junction_False in_set_conv_nth
      split: if_splits) (metis nth_mem)+

text \<open>
  The interface between a skipping evaluator \<open>E\<close> and the row evaluator \<open>F\<close>, both indexed by a
  situation \<open>x\<close> (statistics and a row) that is admissible when \<open>ok x\<close>. \<open>sem\<close> reads an output of
  \<open>E\<close> as a truth value: the identity for direct evaluation, evaluation over the statistics for
  a rewritten predicate.
\<close>

locale skipping_simulation =
  fixes ok :: "'x \<Rightarrow> bool"
    and E :: "'x \<Rightarrow> ('op, 'o) predicate_evaluator"
    and sem :: "'x \<Rightarrow> 'o \<Rightarrow> bool option"
    and F :: "'x \<Rightarrow> ('op, bool) predicate_evaluator"
  assumes scalar: "ok x \<Longrightarrow> sound (Option.bind (ev_scalar (E x) v i) (sem x)) (ev_scalar (F x) v i)"
    and scalar_is_null: "ok x \<Longrightarrow>
      sound (Option.bind (ev_scalar_is_null (E x) v i) (sem x)) (ev_scalar_is_null (F x) v i)"
    and is_null: "ok x \<Longrightarrow> sound (Option.bind (ev_is_null (E x) c i) (sem x)) (ev_is_null (F x) c i)"
    and lt: "ok x \<Longrightarrow> sound (Option.bind (ev_lt (E x) c v i) (sem x)) (ev_lt (F x) c v i)"
    and gt: "ok x \<Longrightarrow> sound (Option.bind (ev_gt (E x) c v i) (sem x)) (ev_gt (F x) c v i)"
    and eq: "ok x \<Longrightarrow> sound (Option.bind (ev_eq (E x) c v i) (sem x)) (ev_eq (F x) c v i)"
    and binary_scalars: "ok x \<Longrightarrow>
      sound (Option.bind (ev_binary_scalars (E x) bop v w i) (sem x)) (ev_binary_scalars (F x) bop v w i)"
    and binary_columns: "ok x \<Longrightarrow>
      sound (Option.bind (ev_binary_columns (E x) bop c d i) (sem x)) (ev_binary_columns (F x) bop c d i)"
    and opaque: "ok x \<Longrightarrow>
      sound (Option.bind (ev_opaque (E x) op exprs i) (sem x)) (ev_opaque (F x) op exprs i)"
    and expr_opaque: "ok x \<Longrightarrow>
      sound (Option.bind (ev_expr_opaque (E x) op exprs i) (sem x)) (ev_expr_opaque (F x) op exprs i)"
    and junction: "ok x \<Longrightarrow> list_all2 (\<lambda>y z. sound (Option.bind y (sem x)) z) ys zs \<Longrightarrow>
      sound (Option.bind (ev_finish_junction (E x) jop ys i) (sem x)) (ev_finish_junction (F x) jop zs i)"
begin

lemma unary:
  "ok x \<Longrightarrow> sound (Option.bind (eval_pred_unary (E x) uop e i) (sem x)) (eval_pred_unary (F x) uop e i)"
  by (cases uop; cases e) (simp_all add: eval_pred_unary_def scalar_is_null is_null)

lemma dist:
  "ok x \<Longrightarrow> sound (Option.bind (eval_pred_distinct (E x) c v i) (sem x)) (eval_pred_distinct (F x) c v i)"
  by (simp add: eval_pred_distinct_def is_null junction eq)

lemma binary:
  "ok x \<Longrightarrow> sound (Option.bind (eval_pred_binary (E x) bop a b i) (sem x)) (eval_pred_binary (F x) bop a b i)"
  by (cases a; cases b; cases bop)
    (simp_all add: eval_pred_binary_def binary_columns binary_scalars lt gt eq dist eval_pred_in_def)

lemma column:
  "ok x \<Longrightarrow> sound (Option.bind (eval_pred_column (E x) c i) (sem x)) (eval_pred_column (F x) c i)"
  by (simp add: eval_pred_column_def eq)

lemma junction_map:
  assumes "ok x" "\<And>p. p \<in> set ps \<Longrightarrow> sound (Option.bind (f p) (sem x)) (g p)"
  shows "sound (Option.bind (ev_finish_junction (E x) jop (map f ps) i) (sem x))
    (ev_finish_junction (F x) jop (map g ps) i)"
  by (rule junction [OF assms(1)]) (simp add: list_all2_map1 list_all2_map2 list_all2_same assms(2))

lemma eval_pred_sound_aux:
  "ok x \<Longrightarrow> E' = E x \<Longrightarrow> sound (Option.bind (eval_pred E' p i) (sem x)) (eval_pred (F x) p i)"
  "ok x \<Longrightarrow> E' = E x \<Longrightarrow> sound (Option.bind (eval_pred_expr E' e i) (sem x)) (eval_pred_expr (F x) e i)"
  by (induction E' p i and E' e i rule: eval_pred_eval_pred_expr.induct)
    (simp_all add: unary binary column scalar opaque expr_opaque junction_map)

lemmas eval_pred_sound = eval_pred_sound_aux [OF _ refl]

lemma sql_where_sound_aux:
  "ok x \<Longrightarrow> E' = E x \<Longrightarrow>
     sound (Option.bind (eval_pred_sql_where E' p i) (sem x)) (eval_pred_sql_where (F x) p i)"
  "ok x \<Longrightarrow> E' = E x \<Longrightarrow>
     sound (Option.bind (sql_where_expr E' e i) (sem x)) (sql_where_expr (F x) e i)"
  by (induction E' p i and E' e i rule: eval_pred_sql_where_sql_where_expr.induct)
    (simp_all add: unary binary column is_null scalar opaque expr_opaque junction junction_map
      eval_pred_sound)

lemmas sql_where_sound = sql_where_sound_aux [OF _ refl]

end

section \<open>Row group skipping is sound\<close>

text \<open>
  Footer statistics that describe a row group: a minimum or maximum of a type bounds every
  comparable value of that type, a null count counts the NULLs of a column present in every
  row, and the row count is the number of rows.
\<close>

definition null_rows :: "column_name \<Rightarrow> (column_name \<Rightarrow> scalar option) list \<Rightarrow> nat" where
  "null_rows c rows = length (filter (\<lambda>r. \<exists>v. r c = Some v \<and> scalar_is_null v) rows)"

definition stats_cover :: "parquet_stats \<Rightarrow> (column_name \<Rightarrow> scalar option) list \<Rightarrow> bool" where
  "stats_cover S rows \<longleftrightarrow>
     (\<forall>r \<in> set rows. \<forall>c v. r c = Some v \<longrightarrow> logical_partial_cmp v v = Some Equal \<longrightarrow>
        (\<forall>m. get_parquet_min_stat S c (scalar_data_type v) = Some m \<longrightarrow> lcmp.below m v) \<and>
        (\<forall>m. get_parquet_max_stat S c (scalar_data_type v) = Some m \<longrightarrow> lcmp.below v m)) \<and>
     (\<forall>c n. get_parquet_nullcount_stat S c = Some n \<longrightarrow>
        (\<forall>r \<in> set rows. r c \<noteq> None) \<and> unat n = null_rows c rows) \<and>
     unat (get_parquet_rowcount_stat S) = length rows"

text \<open>The contract of an engine-defined predicate: its skipping form never contradicts a row.\<close>

definition opaque_skip_ok where
  "opaque_skip_ok ops opaque_skip S r \<longleftrightarrow>
     (\<forall>op exprs i. sound (opaque_skip S op exprs i) (ev_opaque (default_evaluator ops r) op exprs i))"

lemma cmp_same_type:
  "logical_partial_cmp a b = Some x \<Longrightarrow> scalar_data_type a = scalar_data_type b"
  by (cases a) (auto simp: logical_partial_cmp_iff)

lemma cmp_self: "logical_partial_cmp a b = Some x \<Longrightarrow> logical_partial_cmp a a = Some Equal"
  by (cases a) (auto simp: logical_partial_cmp_iff float_partial_cmp_def cmp_def split: if_splits)

text \<open>
  The bounds the skipping comparisons need, for one column of one row: every stat the evaluator
  sees with the literal's type bounds the row's value.
\<close>

definition bounded_by :: "scalar option \<Rightarrow> scalar option \<Rightarrow> scalar \<Rightarrow> bool" where
  "bounded_by mn mx v \<longleftrightarrow>
     (\<forall>m. mn = Some m \<longrightarrow> lcmp.below m v) \<and> (\<forall>m. mx = Some m \<longrightarrow> lcmp.below v m)"

definition stat_cmp :: "ordering \<Rightarrow> scalar option \<Rightarrow> scalar \<Rightarrow> bool \<Rightarrow> bool option" where
  "stat_cmp ord stat val inverted =
     (case stat of None \<Rightarrow> None | Some m \<Rightarrow> partial_cmp_scalars ord m val inverted)"

lemma stat_cmp_sound:
  assumes b: "bounded_by mn mx v"
  shows "sound (stat_cmp Less mn val False) (partial_cmp_scalars Less v val False)"
    "sound (stat_cmp Less mx val True) (partial_cmp_scalars Less v val True)"
    "sound (stat_cmp Greater mx val False) (partial_cmp_scalars Greater v val False)"
    "sound (stat_cmp Greater mn val True) (partial_cmp_scalars Greater v val True)"
proof -
  note simps = stat_cmp_def partial_cmp_scalars_def sound_def
  have mn: "lcmp.below m v" if "mn = Some m" for m using b that by (simp add: bounded_by_def)
  have mx: "lcmp.below v m" if "mx = Some m" for m using b that by (simp add: bounded_by_def)
  show "sound (stat_cmp Less mn val False) (partial_cmp_scalars Less v val False)"
    using lcmp.below_less [OF mn] by (cases mn) (auto simp: simps split: option.splits)
  show "sound (stat_cmp Less mx val True) (partial_cmp_scalars Less v val True)"
    using lcmp.below_less [OF mx] by (cases mx) (auto simp: simps split: option.splits)
  show "sound (stat_cmp Greater mx val False) (partial_cmp_scalars Greater v val False)"
    using lcmp.greater_below [OF _ mx] by (cases mx) (auto simp: simps split: option.splits)
  show "sound (stat_cmp Greater mn val True) (partial_cmp_scalars Greater v val True)"
    using lcmp.greater_below [OF _ mn] by (cases mn) (auto simp: simps split: option.splits)
qed

lemma stat_cmp_eq_sound:
  assumes b: "bounded_by mn mx v"
  shows "sound (default_finish_junction And [stat_cmp Greater mn val True, stat_cmp Less mx val True] False)
      (partial_cmp_scalars Equal v val False)"
    "sound (default_finish_junction Or [stat_cmp Equal mn val True, stat_cmp Equal mx val True] False)
      (partial_cmp_scalars Equal v val True)"
proof -
  have "v_eq \<noteq> Some Equal" if "mn = Some m" "logical_partial_cmp m val = Some Greater"
    "v_eq = logical_partial_cmp v val" for m v_eq
    using that b lcmp.greater_below [of m val v] by (auto simp: bounded_by_def)
  moreover have "v_eq \<noteq> Some Equal" if "mx = Some m" "logical_partial_cmp m val = Some Less"
    "v_eq = logical_partial_cmp v val" for m v_eq
    using that b lcmp.below_less [of v m val] by (auto simp: bounded_by_def)
  ultimately show "sound (default_finish_junction And
      [stat_cmp Greater mn val True, stat_cmp Less mx val True] False) (partial_cmp_scalars Equal v val False)"
    by (auto simp: sound_def default_finish_junction_False stat_cmp_def partial_cmp_scalars_def
        split: option.splits)
  have "logical_partial_cmp v val = Some Equal"
    if "mn = Some m" "logical_partial_cmp m val = Some Equal" "mx = Some n"
      "logical_partial_cmp n val = Some Equal" for m n
  proof -
    have mv: "lcmp.below m v" "lcmp.below v n" using b that by (auto simp: bounded_by_def)
    have le: "lcmp.below v val"
      using lcmp.chain [of v n _ val Equal] mv(2) that(4) by (fastforce simp: lcmp.below_def)
    have "lcmp.below val v"
      using lcmp.chain [of val m Equal v] lcmp.flip [of val m] mv(1) that(2)
      by (fastforce simp: lcmp.below_def)
    then show ?thesis using le lcmp.flip [of v val] by (auto simp: lcmp.below_def)
  qed
  then show "sound (default_finish_junction Or
      [stat_cmp Equal mn val True, stat_cmp Equal mx val True] False) (partial_cmp_scalars Equal v val True)"
    by (auto simp: sound_def default_finish_junction_False stat_cmp_def partial_cmp_scalars_def
        split: option.splits)
qed

text \<open>
  A skipping comparison may be weaker than the comparison with the statistic itself (a guard
  may turn it into TRUE), but not stronger.
\<close>

definition weaker :: "bool option \<Rightarrow> bool option \<Rightarrow> bool" where
  "weaker x y \<longleftrightarrow> (x = Some False \<longrightarrow> y = Some False)"

lemma weaker_refl [simp]: "weaker x x" "weaker None y"
  by (simp_all add: weaker_def)

lemma weaker_sound: "weaker x y \<Longrightarrow> sound y z \<Longrightarrow> sound x z"
  by (simp add: weaker_def sound_def)

lemma weaker_junction:
  "weaker x y \<Longrightarrow> weaker x' y' \<Longrightarrow>
     weaker (default_finish_junction op [x, x'] False) (default_finish_junction op [y, y'] False)"
  by (auto simp: weaker_def default_finish_junction_False)

text \<open>
  Skipping evaluators that work through minimum and maximum statistics. \<open>mn\<close> and \<open>mx\<close> are the
  values behind the statistics; \<open>row\<close> is the row evaluated.
\<close>

locale stat_semantics =
  fixes ok :: "'x \<Rightarrow> bool"
    and K :: "'x \<Rightarrow> ('op, 'o, 's) skipping_evaluator"
    and sem :: "'x \<Rightarrow> 'o \<Rightarrow> bool option"
    and ops :: "'x \<Rightarrow> 'op opaque_ops"
    and row :: "'x \<Rightarrow> column_name \<Rightarrow> scalar option"
    and mn mx :: "'x \<Rightarrow> column_name \<Rightarrow> data_type \<Rightarrow> scalar option"
  assumes cmp_min: "ok x \<Longrightarrow> weaker (Option.bind (partial_cmp_min_stat (K x) c v ord i) (sem x))
      (stat_cmp ord (mn x c (scalar_data_type v)) v i)"
    and cmp_max: "ok x \<Longrightarrow> weaker (Option.bind (partial_cmp_max_stat (K x) c v ord i) (sem x))
      (stat_cmp ord (mx x c (scalar_data_type v)) v i)"
    and finish: "ok x \<Longrightarrow> Option.bind (sk_finish_junction (K x) jop ys i) (sem x) =
      default_finish_junction jop (map (\<lambda>y. Option.bind y (sem x)) ys) i"
    and sk_scalar: "ok x \<Longrightarrow> Option.bind (sk_scalar (K x) v i) (sem x) = default_eval_pred_scalar v i"
    and sk_scalar_is_null: "ok x \<Longrightarrow>
      Option.bind (sk_scalar_is_null (K x) v i) (sem x) = default_eval_pred_scalar_is_null v i"
    and sk_binary_scalars: "ok x \<Longrightarrow>
      Option.bind (sk_binary_scalars (K x) bop v w i) (sem x) = default_eval_pred_binary_scalars bop v w i"
    and sk_is_null: "ok x \<Longrightarrow> sound (Option.bind (sk_is_null (K x) c i) (sem x))
      (ev_is_null (default_evaluator (ops x) (row x)) c i)"
    and sk_opaque: "ok x \<Longrightarrow> sound (Option.bind (sk_opaque (K x) op exprs i) (sem x))
      (ev_opaque (default_evaluator (ops x) (row x)) op exprs i)"
    and bounds: "ok x \<Longrightarrow> row x c = Some v \<Longrightarrow> logical_partial_cmp v v = Some Equal \<Longrightarrow>
      bounded_by (mn x c (scalar_data_type v)) (mx x c (scalar_data_type v)) v"
begin

text \<open>
  A comparison with the row's value is only defined for a value of the literal's type, which the
  statistics of that type bound.
\<close>

lemma resolve_sound:
  assumes x: "ok x"
    and s: "\<And>v. bounded_by (mn x c (scalar_data_type val)) (mx x c (scalar_data_type val)) v \<Longrightarrow>
      sound y (default_eval_pred_binary_scalars bop v val i)"
  shows "sound y (resolve_binary (row x) bop c val i)"
proof (cases "row x c")
  case (Some v)
  show ?thesis
  proof (cases "logical_partial_cmp v val")
    case None
    then show ?thesis
      by (cases bop) (simp_all add: resolve_binary_def Some default_eval_pred_binary_scalars_def
          partial_cmp_scalars_def)
  next
    case (Some o')
    have "bounded_by (mn x c (scalar_data_type val)) (mx x c (scalar_data_type val)) v"
      using bounds [OF x \<open>row x c = Some v\<close> cmp_self [OF Some]] cmp_same_type [OF Some] by simp
    then show ?thesis using s \<open>row x c = Some v\<close> by (simp add: resolve_binary_def)
  qed
qed (simp add: resolve_binary_def)

lemma lt_sound:
  assumes "ok x"
  shows "sound (Option.bind (skipping_lt (K x) c val i) (sem x)) (resolve_binary (row x) LessThan c val i)"
  by (rule resolve_sound [OF assms])
    (auto simp: skipping_lt_def default_eval_pred_binary_scalars_def
      intro: weaker_sound [OF cmp_min [OF assms]] weaker_sound [OF cmp_max [OF assms]] stat_cmp_sound)

lemma gt_sound:
  assumes "ok x"
  shows "sound (Option.bind (skipping_gt (K x) c val i) (sem x)) (resolve_binary (row x) GreaterThan c val i)"
  by (rule resolve_sound [OF assms])
    (auto simp: skipping_gt_def default_eval_pred_binary_scalars_def
      intro: weaker_sound [OF cmp_min [OF assms]] weaker_sound [OF cmp_max [OF assms]] stat_cmp_sound)

lemma eq_sound:
  assumes "ok x"
  shows "sound (Option.bind (skipping_eq (K x) c val i) (sem x)) (resolve_binary (row x) EqualTo c val i)"
  by (rule resolve_sound [OF assms])
    (auto simp: skipping_eq_def default_eval_pred_binary_scalars_def finish [OF assms]
      intro: weaker_sound [OF weaker_junction [OF cmp_min [OF assms] cmp_max [OF assms]]] stat_cmp_eq_sound)

end

sublocale stat_semantics \<subseteq> skipping_simulation
  ok "\<lambda>x. kernel_evaluator (K x)" sem "\<lambda>x. default_evaluator (ops x) (row x)"
  by unfold_locales
    (simp_all add: kernel_evaluator_def sk_scalar sk_scalar_is_null sk_is_null lt_sound gt_sound eq_sound
      sk_binary_scalars sk_opaque finish sound_junction list_all2_map1 del: default_evaluator_simps(3,9))

section \<open>Row group skipping\<close>

text \<open>The situation of row group skipping: operators, their skipping form, statistics, rows, a row.\<close>

record 'op row_group_situation =
  rg_ops :: "'op opaque_ops"
  rg_opaque_skip :: "parquet_stats \<Rightarrow> 'op \<Rightarrow> 'op expression list \<Rightarrow> bool \<Rightarrow> bool option"
  rg_stats :: parquet_stats
  rg_rows :: "(column_name \<Rightarrow> scalar option) list"
  rg_row :: "column_name \<Rightarrow> scalar option"

definition row_group_ok :: "'op row_group_situation \<Rightarrow> bool" where
  "row_group_ok x \<longleftrightarrow> stats_cover (rg_stats x) (rg_rows x) \<and> rg_row x \<in> set (rg_rows x) \<and>
     opaque_skip_ok (rg_ops x) (rg_opaque_skip x) (rg_stats x) (rg_row x)"

lemma bind_Some_id [simp]: "Option.bind y Some = y"
  by (cases y) simp_all

lemma parquet_is_null_sound:
  assumes "stats_cover S rows" "r \<in> set rows"
  shows "sound (parquet_is_null S c i) (ev_is_null (default_evaluator ops r) c i)"
proof (cases "get_parquet_nullcount_stat S c")
  case (Some n)
  then have n: "unat n = null_rows c rows" and present: "\<And>r. r \<in> set rows \<Longrightarrow> r c \<noteq> None"
    and total: "unat (get_parquet_rowcount_stat S) = length rows"
    using assms(1) by (auto simp: stats_cover_def)
  obtain v where v: "r c = Some v" using present [OF assms(2)] by blast
  have "\<not> scalar_is_null v" if "n = 0"
    using n that v assms(2) by (auto simp: null_rows_def filter_empty_conv)
  moreover have "scalar_is_null v" if "n = get_parquet_rowcount_stat S"
  proof -
    have "null_rows c rows = length rows" using n total that by simp
    then have "\<forall>r \<in> set rows. \<exists>v. r c = Some v \<and> scalar_is_null v"
      using length_filter_less [of _ rows "\<lambda>r. \<exists>v. r c = Some v \<and> scalar_is_null v"]
      unfolding null_rows_def by (metis less_irrefl)
    then show ?thesis using v assms(2) by auto
  qed
  ultimately show ?thesis
    by (auto simp: parquet_is_null_def Some v sound_def default_eval_pred_scalar_is_null_def)
qed (simp add: parquet_is_null_def)

interpretation row_group: stat_semantics row_group_ok
  "\<lambda>x. parquet_evaluator (rg_opaque_skip x) (rg_stats x)" "\<lambda>_. Some" rg_ops rg_row
  "\<lambda>x. get_parquet_min_stat (rg_stats x)" "\<lambda>x. get_parquet_max_stat (rg_stats x)"
proof
  fix x :: "'op row_group_situation" and c v
  assume "row_group_ok x" "rg_row x c = Some v" "logical_partial_cmp v v = Some Equal"
  then show "bounded_by (get_parquet_min_stat (rg_stats x) c (scalar_data_type v))
      (get_parquet_max_stat (rg_stats x) c (scalar_data_type v)) v"
    by (auto simp: row_group_ok_def stats_cover_def bounded_by_def)
next
  fix x :: "'op row_group_situation" and c i
  assume "row_group_ok x"
  then show "sound (Option.bind (sk_is_null (parquet_evaluator (rg_opaque_skip x) (rg_stats x)) c i) Some)
      (ev_is_null (default_evaluator (rg_ops x) (rg_row x)) c i)"
    using parquet_is_null_sound [of "rg_stats x" "rg_rows x" "rg_row x"]
    by (simp add: parquet_evaluator_def row_group_ok_def del: default_evaluator_simps(3))
qed (simp_all add: parquet_evaluator_def partial_cmp_min_stat_def partial_cmp_max_stat_def stat_cmp_def
    row_group_ok_def opaque_skip_ok_def del: default_evaluator_simps(9) cong: option.case_cong)

text \<open>
  C28. Row group skipping never loses a row: when the footer statistics describe the rows of a
  row group and engine-defined predicates keep their contract, a row group whose ordinal is
  dropped by the filter contains no row that satisfies the predicate, whatever NULLs, NaNs,
  missing columns or missing statistics it holds.
\<close>

theorem row_group_skipping_sound:
  assumes "n < length groups" "n \<notin> set (with_row_group_filter opaque_skip groups p)"
    and "stats_cover (groups ! n) rows" "r \<in> set rows"
    and "opaque_skip_ok ops opaque_skip (groups ! n) r"
  shows "eval_pred (default_evaluator ops r) p False \<noteq> Some True"
proof -
  let ?x = "\<lparr> rg_ops = ops, rg_opaque_skip = opaque_skip, rg_stats = groups ! n, rg_rows = rows, rg_row = r \<rparr>"
  have ok: "row_group_ok ?x" using assms(3-5) by (simp add: row_group_ok_def)
  have "(n, groups ! n) \<in> set (enumerate 0 groups)"
    using assms(1) by (auto simp: in_set_enumerate_eq)
  then have "\<not> row_group_apply opaque_skip (groups ! n) p"
    using assms(2) by (force simp: with_row_group_filter_def)
  then have "eval_pred_sql_where (kernel_evaluator (parquet_evaluator opaque_skip (groups ! n))) p False = Some False"
    by (simp add: row_group_apply_def eval_sql_where_def)
  then have "eval_pred_sql_where (default_evaluator ops r) p False \<noteq> Some True"
    using row_group.sql_where_sound(1) [OF ok, of p False] by (simp add: sound_def)
  then show ?thesis using sql_where_true(1) by blast
qed

definition ex_stats :: parquet_stats where
  "ex_stats = \<lparr> get_parquet_min_stat = \<lambda>c t. if c = [''a''] \<and> t = Primitive PByte then Some (Byte 3) else None,
     get_parquet_max_stat = \<lambda>c t. if c = [''a''] \<and> t = Primitive PByte then Some (Byte 9) else None,
     get_parquet_nullcount_stat = \<lambda>_. None, get_parquet_rowcount_stat = 1 \<rparr>"

lemma ex_stats_cover: "stats_cover ex_stats [ex_row]"
  by (auto simp: stats_cover_def ex_stats_def ex_row_def lcmp.below_def logical_partial_cmp_def cmp_def)

theorem row_group_skipping_sound_witness:
  "0 \<notin> set (with_row_group_filter (\<lambda>_ _ _ _. None) [ex_stats]
      (pred_gt (Column [''a'']) (Literal (Byte 20)) :: unit predicate)) \<and>
   eval_pred (default_evaluator no_opaque ex_row) (pred_gt (Column [''a'']) (Literal (Byte 20))) False \<noteq> Some True"
proof -
  let ?p = "pred_gt (Column [''a'']) (Literal (Byte 20)) :: unit predicate"
  have drop: "0 \<notin> set (with_row_group_filter (\<lambda>_ _ _ _. None) [ex_stats] ?p)"
    by (simp add: with_row_group_filter_def row_group_apply_def eval_sql_where_def pred_gt_def
        kernel_evaluator_def parquet_evaluator_def eval_pred_unary_def eval_pred_binary_def
        skipping_gt_def partial_cmp_max_stat_def ex_stats_def default_finish_junction_def
        default_eval_pred_scalar_is_null_def partial_cmp_scalars_def logical_partial_cmp_def
        parquet_is_null_def cmp_def)
  moreover have "opaque_skip_ok no_opaque (\<lambda>_ _ _ _. None) ex_stats ex_row"
    by (simp add: opaque_skip_ok_def)
  ultimately show ?thesis
    using row_group_skipping_sound [of 0 "[ex_stats]" "\<lambda>_ _ _ _. None" ?p "[ex_row]" ex_row no_opaque]
      ex_stats_cover by simp
qed

section \<open>Rewriting predicates over file statistics\<close>

definition comparison_predicate ::
  "ordering \<Rightarrow> 'op expression \<Rightarrow> scalar \<Rightarrow> bool \<Rightarrow> 'op predicate" where
  "comparison_predicate ord col val inverted =
     (case ord of
        Less \<Rightarrow> (if inverted then pred_ge col (Literal val) else pred_lt col (Literal val))
      | Equal \<Rightarrow> (if inverted then pred_ne col (Literal val) else pred_eq col (Literal val))
      | Greater \<Rightarrow> (if inverted then pred_le col (Literal val) else pred_gt col (Literal val)))"

text \<open>The \<open>flat_map\<close> of \<open>collect_junction_preds\<close> with its flag \<open>keep_null\<close>.\<close>

fun keep_one_null :: "bool \<Rightarrow> 'op predicate option list \<Rightarrow> 'op predicate list" where
  "keep_one_null keep_null [] = []"
| "keep_one_null keep_null (Some p # ps) = p # keep_one_null keep_null ps"
| "keep_one_null keep_null (None # ps) =
     (if keep_null then pred_null_literal # keep_one_null False ps else keep_one_null False ps)"

definition collect_junction_preds ::
  "junction_predicate_op \<Rightarrow> 'op predicate option list \<Rightarrow> bool \<Rightarrow> 'op predicate" where
  "collect_junction_preds op preds inverted =
     pred_junction (if inverted then invert_junction op else op) (keep_one_null True preds)"

definition is_partition_column :: "string list \<Rightarrow> column_name \<Rightarrow> bool" where
  "is_partition_column partition_columns col =
     (length col = 1 \<and> hd col \<in> set partition_columns)"

definition is_timestamp_type :: "data_type \<Rightarrow> bool" where
  "is_timestamp_type dt = (dt = Primitive PTimestamp \<or> dt = Primitive PTimestampNtz)"

definition creator_min_stat :: "string list \<Rightarrow> column_name \<Rightarrow> data_type \<Rightarrow> 'op expression option" where
  "creator_min_stat pcols col dt =
     (if is_partition_column pcols col then Some (Column (column_join [''partitionValues_parsed''] col))
      else Some (Column (column_join [''stats_parsed'', ''minValues''] col)))"

definition creator_max_stat :: "string list \<Rightarrow> column_name \<Rightarrow> data_type \<Rightarrow> 'op expression option" where
  "creator_max_stat pcols col dt =
     (if is_partition_column pcols col then Some (Column (column_join [''partitionValues_parsed''] col))
      else if is_timestamp_type dt then None
      else Some (Column (column_join [''stats_parsed'', ''maxValues''] col)))"

definition creator_nullcount_stat :: "string list \<Rightarrow> column_name \<Rightarrow> 'op expression option" where
  "creator_nullcount_stat pcols col =
     (if is_partition_column pcols col then None
      else Some (Column (column_join [''stats_parsed'', ''nullCount''] col)))"

definition creator_rowcount_stat :: "'op expression option" where
  "creator_rowcount_stat = Some (Column [''stats_parsed'', ''numRecords''])"

definition creator_is_null :: "string list \<Rightarrow> column_name \<Rightarrow> bool \<Rightarrow> 'op predicate option" where
  "creator_is_null pcols col inverted =
     (if is_partition_column pcols col
      then (let pv_expr = Column (column_join [''partitionValues_parsed''] col) in
            if inverted then Some (pred_is_not_null pv_expr) else Some (pred_is_null pv_expr))
      else (case (if inverted then creator_rowcount_stat else Some (Literal (Long 0))) of
              None \<Rightarrow> None
            | Some safe_to_skip \<Rightarrow>
                (case creator_nullcount_stat pcols col of
                   None \<Rightarrow> None
                 | Some n \<Rightarrow> Some (pred_ne n safe_to_skip))))"

text \<open>\<open>opaque_rewrite\<close> is \<open>as_data_skipping_predicate\<close> of the engine-defined operators.\<close>

definition skipping_creator ::
  "('op \<Rightarrow> 'op expression list \<Rightarrow> bool \<Rightarrow> 'op predicate option) \<Rightarrow> string list \<Rightarrow>
   ('op, 'op predicate, 'op expression) skipping_evaluator" where
  "skipping_creator opaque_rewrite pcols =
     \<lparr> get_min_stat = creator_min_stat pcols, get_max_stat = creator_max_stat pcols,
       get_nullcount_stat = creator_nullcount_stat pcols, get_rowcount_stat = creator_rowcount_stat,
       sk_scalar = (\<lambda>val inverted. map_option pred_literal (default_eval_pred_scalar val inverted)),
       sk_scalar_is_null = (\<lambda>val inverted.
         map_option pred_literal (default_eval_pred_scalar_is_null val inverted)),
       sk_is_null = creator_is_null pcols,
       sk_binary_scalars = (\<lambda>op left right inverted.
         map_option pred_literal (default_eval_pred_binary_scalars op left right inverted)),
       sk_opaque = opaque_rewrite,
       sk_finish_junction = (\<lambda>op preds inverted. Some (collect_junction_preds op preds inverted)),
       sk_partial_cmp = (\<lambda>ord col val inverted. Some (comparison_predicate ord col val inverted)) \<rparr>"

definition as_sql_data_skipping_predicate ::
  "('op \<Rightarrow> 'op expression list \<Rightarrow> bool \<Rightarrow> 'op predicate option) \<Rightarrow> 'op predicate \<Rightarrow> string list \<Rightarrow>
   'op predicate option" where
  "as_sql_data_skipping_predicate opaque_rewrite p pcols =
     eval_sql_where (kernel_evaluator (skipping_creator opaque_rewrite pcols)) p"

section \<open>Null-guarded rewriting for checkpoints\<close>

definition guarded_min_stat :: "string list \<Rightarrow> column_name \<Rightarrow> data_type \<Rightarrow> 'op expression option" where
  "guarded_min_stat pcols col dt =
     (if is_partition_column pcols col then None else Some (Column (column_join [''minValues''] col)))"

definition guarded_max_stat :: "string list \<Rightarrow> column_name \<Rightarrow> data_type \<Rightarrow> 'op expression option" where
  "guarded_max_stat pcols col dt =
     (if is_partition_column pcols col then None
      else if is_timestamp_type dt then None
      else Some (Column (column_join [''maxValues''] col)))"

definition guarded_nullcount_stat :: "string list \<Rightarrow> column_name \<Rightarrow> 'op expression option" where
  "guarded_nullcount_stat pcols col =
     (if is_partition_column pcols col then None else Some (Column (column_join [''nullCount''] col)))"

definition guarded_partial_cmp ::
  "ordering \<Rightarrow> 'op expression \<Rightarrow> scalar \<Rightarrow> bool \<Rightarrow> 'op predicate option" where
  "guarded_partial_cmp ord col val inverted =
     Some (pred_or (pred_is_null col) (comparison_predicate ord col val inverted))"

definition guarded_is_null :: "string list \<Rightarrow> column_name \<Rightarrow> bool \<Rightarrow> 'op predicate option" where
  "guarded_is_null pcols col inverted =
     (if inverted then None
      else (case guarded_nullcount_stat pcols col of
              None \<Rightarrow> None
            | Some n \<Rightarrow> Some (pred_or (pred_is_null n) (pred_ne n (Literal (Long 0))))))"

definition guarded_creator :: "string list \<Rightarrow> ('op, 'op predicate, 'op expression) skipping_evaluator" where
  "guarded_creator pcols =
     \<lparr> get_min_stat = guarded_min_stat pcols, get_max_stat = guarded_max_stat pcols,
       get_nullcount_stat = guarded_nullcount_stat pcols,
       get_rowcount_stat = Some (Column [''numRecords'']),
       sk_scalar = (\<lambda>val inverted. map_option pred_literal (default_eval_pred_scalar val inverted)),
       sk_scalar_is_null = (\<lambda>val inverted.
         map_option pred_literal (default_eval_pred_scalar_is_null val inverted)),
       sk_is_null = guarded_is_null pcols,
       sk_binary_scalars = (\<lambda>op left right inverted.
         map_option pred_literal (default_eval_pred_binary_scalars op left right inverted)),
       sk_opaque = (\<lambda>_ _ _. None),
       sk_finish_junction = (\<lambda>op preds inverted. Some (collect_junction_preds op preds inverted)),
       sk_partial_cmp = guarded_partial_cmp \<rparr>"

definition as_checkpoint_skipping_predicate :: "'op predicate \<Rightarrow> string list \<Rightarrow> 'op predicate option" where
  "as_checkpoint_skipping_predicate p pcols =
     eval_pred (kernel_evaluator (guarded_creator pcols)) p False"

section \<open>The file filter\<close>

definition filter_predicate :: "'op predicate" where
  "filter_predicate = pred_distinct (Column [''output'']) (Literal (Boolean False))"

text \<open>
  \<open>build_unified_schema_and_expr\<close>: the statistics and the partition values, each under its own
  struct column, with the names of the partition columns.
\<close>

definition build_unified_schema_and_expr ::
  "struct_type option \<Rightarrow> 'op expression \<Rightarrow> struct_type option \<Rightarrow> 'op expression \<Rightarrow>
   (struct_type \<times> 'op expression \<times> string list) option" where
  "build_unified_schema_and_expr stats_schema stats_expr partition_schema partition_expr =
     (let partition_columns = (case partition_schema of None \<Rightarrow> [] | Some ps \<Rightarrow> map sf_name (fields_of ps));
          stats_field = (\<lambda>stats. StructField ''stats_parsed'' (StructT stats) True []);
          partition_field = (\<lambda>ps. StructField ''partitionValues_parsed'' (StructT ps) True []) in
      case (stats_schema, partition_schema) of
        (Some stats, Some ps) \<Rightarrow>
          Some (new_unchecked [stats_field stats, partition_field ps],
                StructE [stats_expr, partition_expr] None, partition_columns)
      | (Some stats, None) \<Rightarrow>
          Some (new_unchecked [stats_field stats], StructE [stats_expr] None, partition_columns)
      | (None, Some ps) \<Rightarrow>
          Some (new_unchecked [partition_field ps], StructE [partition_expr] None, partition_columns)
      | (None, None) \<Rightarrow> None)"

text \<open>
  \<open>DataSkippingFilter::new\<close>: what the three evaluators evaluate. \<open>expr_ok\<close> and \<open>pred_ok\<close> say which
  evaluators the engine can create.
\<close>

record 'op data_skipping_filter =
  df_stats_expr :: "'op expression"
  df_schema :: struct_type
  df_skipping :: "'op predicate"
  df_filter :: "'op predicate"

definition new_data_skipping_filter ::
  "(struct_type \<Rightarrow> 'op expression \<Rightarrow> struct_type \<Rightarrow> bool) \<Rightarrow> (struct_type \<Rightarrow> 'op predicate \<Rightarrow> bool) \<Rightarrow>
   ('op \<Rightarrow> 'op expression list \<Rightarrow> bool \<Rightarrow> 'op predicate option) \<Rightarrow> 'op predicate option \<Rightarrow>
   struct_type option \<Rightarrow> 'op expression \<Rightarrow> struct_type option \<Rightarrow> 'op expression \<Rightarrow> struct_type \<Rightarrow>
   'op data_skipping_filter option" where
  "new_data_skipping_filter expr_ok pred_ok opaque_rewrite p stats_schema stats_expr
     partition_schema partition_expr input_schema =
     (case p of None \<Rightarrow> None | Some predicate \<Rightarrow>
      (case build_unified_schema_and_expr stats_schema stats_expr partition_schema partition_expr of
         None \<Rightarrow> None
       | Some (unified_schema, unified_expr, partition_columns) \<Rightarrow>
           if \<not> expr_ok input_schema unified_expr unified_schema then None
           else (case as_sql_data_skipping_predicate opaque_rewrite predicate partition_columns of
                   None \<Rightarrow> None
                 | Some skipping \<Rightarrow>
                     if \<not> pred_ok unified_schema skipping then None
                     else if \<not> pred_ok unified_schema filter_predicate then None
                     else Some \<lparr> df_stats_expr = unified_expr, df_schema = unified_schema,
                                 df_skipping = skipping, df_filter = filter_predicate \<rparr>)))"

text \<open>\<open>SelectionVectorVisitor::visit\<close>: a non-nullable boolean column; a NULL is an error.\<close>

definition visit_selection_vector :: "bool option list \<Rightarrow> bool list delta_result" where
  "visit_selection_vector col =
     collect_results (map (\<lambda>b. ok_or b (MissingData ''selectionvector.output'')) col)"

text \<open>
  \<open>DataSkippingFilter::apply\<close>: the engine's three evaluators are the parameters
  \<open>eval_stats\<close>, \<open>eval_skipping\<close> and \<open>eval_filter\<close>, each from a batch to a batch.
\<close>

definition skipping_filter_apply ::
  "('b list \<Rightarrow> 'r list delta_result) \<Rightarrow> ('r list \<Rightarrow> bool option list delta_result) \<Rightarrow>
   (bool option list \<Rightarrow> bool option list delta_result) \<Rightarrow> 'b list \<Rightarrow> bool list delta_result" where
  "skipping_filter_apply eval_stats eval_skipping eval_filter batch =
     rbind (eval_stats batch) (\<lambda>file_stats.
     rbind (require (length file_stats = length batch)
              (InternalError ''stats evaluator output length != batch length'')) (\<lambda>_.
     rbind (eval_skipping file_stats) (\<lambda>skipping.
     rbind (require (length skipping = length batch)
              (InternalError ''skipping evaluator output length != batch length'')) (\<lambda>_.
     rbind (eval_filter skipping) (\<lambda>selection.
     rbind (require (length selection = length batch)
              (InternalError ''filter evaluator output length != batch length'')) (\<lambda>_.
     visit_selection_vector selection))))))"

section \<open>File skipping is sound\<close>

text \<open>
  What the statistics of a file say about its rows. \<open>pre\<close> is the path of the statistics struct;
  a statistic that is NULL or missing says nothing. A partition value is the value of its column
  in every row.
\<close>

definition usable :: "scalar \<Rightarrow> bool" where
  "usable m \<longleftrightarrow> logical_partial_cmp m m = Some Equal"

definition file_stats_ok ::
  "column_name \<Rightarrow> string list \<Rightarrow> (column_name \<Rightarrow> scalar option) \<Rightarrow> (column_name \<Rightarrow> scalar option) list \<Rightarrow> bool" where
  "file_stats_ok pre pcols stats rows \<longleftrightarrow>
     (\<forall>c. \<not> is_partition_column pcols c \<longrightarrow>
        (\<forall>r \<in> set rows. \<forall>v m. r c = Some v \<longrightarrow> usable v \<longrightarrow> usable m \<longrightarrow>
           scalar_data_type m = scalar_data_type v \<longrightarrow>
           (stats (pre @ ''minValues'' # c) = Some m \<longrightarrow> lcmp.below m v) \<and>
           (stats (pre @ ''maxValues'' # c) = Some m \<longrightarrow> \<not> is_timestamp_type (scalar_data_type v) \<longrightarrow>
              lcmp.below v m)) \<and>
        (\<forall>s. stats (pre @ ''nullCount'' # c) = Some s \<longrightarrow> \<not> scalar_is_null s \<longrightarrow>
           (\<forall>r \<in> set rows. r c \<noteq> None) \<and> (\<exists>n. s = Long n \<and> unat n = null_rows c rows))) \<and>
     (\<forall>s. stats (pre @ [''numRecords'']) = Some s \<longrightarrow> \<not> scalar_is_null s \<longrightarrow>
        (\<exists>n. s = Long n \<and> unat n = length rows))"

definition partition_values_ok ::
  "string list \<Rightarrow> (column_name \<Rightarrow> scalar option) \<Rightarrow> (column_name \<Rightarrow> scalar option) list \<Rightarrow> bool" where
  "partition_values_ok pcols stats rows \<longleftrightarrow>
     (\<forall>c. is_partition_column pcols c \<longrightarrow> (\<forall>r \<in> set rows. r c = stats (''partitionValues_parsed'' # c)))"

record 'op file_situation =
  fs_ops :: "'op opaque_ops"
  fs_rewrite :: "'op \<Rightarrow> 'op expression list \<Rightarrow> bool \<Rightarrow> 'op predicate option"
  fs_pcols :: "string list"
  fs_stats :: "column_name \<Rightarrow> scalar option"
  fs_rows :: "(column_name \<Rightarrow> scalar option) list"
  fs_row :: "column_name \<Rightarrow> scalar option"

definition stats_sem :: "'op file_situation \<Rightarrow> 'op predicate \<Rightarrow> bool option" where
  "stats_sem x p = eval_pred (default_evaluator (fs_ops x) (fs_stats x)) p False"

definition opaque_rewrite_ok :: "'op file_situation \<Rightarrow> bool" where
  "opaque_rewrite_ok x \<longleftrightarrow>
     (\<forall>op exprs i. sound (Option.bind (fs_rewrite x op exprs i) (stats_sem x))
        (ev_opaque (default_evaluator (fs_ops x) (fs_row x)) op exprs i))"

definition file_ok :: "'op file_situation \<Rightarrow> bool" where
  "file_ok x \<longleftrightarrow> file_stats_ok [''stats_parsed''] (fs_pcols x) (fs_stats x) (fs_rows x) \<and>
     partition_values_ok (fs_pcols x) (fs_stats x) (fs_rows x) \<and> fs_row x \<in> set (fs_rows x) \<and>
     opaque_rewrite_ok x"

definition guarded_ok :: "'op file_situation \<Rightarrow> bool" where
  "guarded_ok x \<longleftrightarrow> file_stats_ok [] (fs_pcols x) (fs_stats x) (fs_rows x) \<and> fs_row x \<in> set (fs_rows x)"

lemma comparison_sem:
  "eval_pred (default_evaluator ops stats) (comparison_predicate ord (Column c) v i) False =
     stat_cmp ord (stats c) v i"
  by (cases ord; cases i; cases "stats c")
    (simp_all add: comparison_predicate_def pred_constructors eval_pred_binary_def resolve_binary_def
      default_eval_pred_binary_scalars_def stat_cmp_def)

lemma literal_sem [simp]: "eval_pred (default_evaluator ops stats) (pred_literal b) False = Some b"
  by (simp add: pred_literal_def default_eval_pred_scalar_def)

lemma bind_map_literal:
  "Option.bind (map_option pred_literal y) (stats_sem x) = y"
  by (cases y) (simp_all add: stats_sem_def)

lemma set_keep_one_null:
  assumes "sem pred_null_literal = None"
  shows "set (map sem (keep_one_null True ps)) = set (map (\<lambda>p. Option.bind p sem) ps)"
    and "insert None (set (map sem (keep_one_null False ps))) = insert None (set (map (\<lambda>p. Option.bind p sem) ps))"
proof (induction ps)
  case (Cons p ps)
  {
    case 1
    then show ?case using Cons.IH assms by (cases p) auto
  next
    case 2
    then show ?case using Cons.IH assms by (cases p) (auto simp: insert_commute)
  }
qed simp_all

lemma junction_cong_set:
  "set xs = set ys \<Longrightarrow> default_finish_junction op xs i = default_finish_junction op ys i"
  by (simp add: default_finish_junction_def junction_loop_iff)

lemma finish_invert:
  "default_finish_junction (if i then invert_junction op else op) xs False = default_finish_junction op xs i"
  by (cases op; cases i) (simp_all add: default_finish_junction_def)

lemma pred_junction_sem:
  "eval_pred (default_evaluator ops stats) (pred_junction op ps) False =
     default_finish_junction op (map (\<lambda>p. eval_pred (default_evaluator ops stats) p False) ps) False"
proof (cases ps rule: remdups_adj.cases)
  case (2 p)
  then show ?thesis
    by (cases op; cases "eval_pred (default_evaluator ops stats) p False")
      (auto simp: pred_junction_def default_finish_junction_def)
qed (cases op; simp add: pred_junction_def default_finish_junction_def)+

text \<open>
  The rewritten junction means the three-valued junction of the meanings of its parts, with an
  unsupported part counted as NULL: one NULL literal stands for all of them.
\<close>

lemma collect_junction_sem:
  "stats_sem x (collect_junction_preds op ys i) =
     default_finish_junction op (map (\<lambda>y. Option.bind y (stats_sem x)) ys) i"
proof -
  have null: "stats_sem x pred_null_literal = None"
    by (simp add: stats_sem_def pred_null_literal_def default_eval_pred_scalar_def)
  have "stats_sem x (collect_junction_preds op ys i) =
      default_finish_junction op (map (stats_sem x) (keep_one_null True ys)) i"
    by (simp add: collect_junction_preds_def stats_sem_def [abs_def] pred_junction_sem finish_invert)
  also have "\<dots> = default_finish_junction op (map (\<lambda>y. Option.bind y (stats_sem x)) ys) i"
    by (rule junction_cong_set) (rule set_keep_one_null(1) [where sem = "stats_sem x", OF null])
  finally show ?thesis .
qed

text \<open>The statistic behind a stats column, when it is usable for literals of the given type.\<close>

definition typed_stat :: "scalar option \<Rightarrow> data_type \<Rightarrow> scalar option" where
  "typed_stat s dt =
     (case s of Some m \<Rightarrow> if usable m \<and> scalar_data_type m = dt then Some m else None | None \<Rightarrow> None)"

lemma typed_stat_Some: "typed_stat s dt = Some m \<longleftrightarrow> s = Some m \<and> usable m \<and> scalar_data_type m = dt"
  by (auto simp: typed_stat_def split: option.splits)

lemma stat_cmp_typed: "weaker (stat_cmp ord s v i) (stat_cmp ord (typed_stat s (scalar_data_type v)) v i)"
proof (cases s)
  case (Some m)
  then show ?thesis
    using cmp_self [of m v] cmp_same_type [of m v]
    by (cases "logical_partial_cmp m v")
      (auto simp: weaker_def stat_cmp_def typed_stat_def usable_def partial_cmp_scalars_def)
qed (simp add: stat_cmp_def weaker_def)

subsection \<open>The statistics rewriter\<close>

definition file_min :: "'op file_situation \<Rightarrow> column_name \<Rightarrow> data_type \<Rightarrow> scalar option" where
  "file_min x c dt =
     typed_stat (fs_stats x (if is_partition_column (fs_pcols x) c then ''partitionValues_parsed'' # c
       else ''stats_parsed'' # ''minValues'' # c)) dt"

definition file_max :: "'op file_situation \<Rightarrow> column_name \<Rightarrow> data_type \<Rightarrow> scalar option" where
  "file_max x c dt =
     (if is_partition_column (fs_pcols x) c then typed_stat (fs_stats x (''partitionValues_parsed'' # c)) dt
      else if is_timestamp_type dt then None
      else typed_stat (fs_stats x (''stats_parsed'' # ''maxValues'' # c)) dt)"

lemma Long_cmp_Equal: "logical_partial_cmp (Long a) t = Some Equal \<longleftrightarrow> t = Long a"
  by (auto simp: logical_partial_cmp_iff eq_commute [of Equal] dest: signed_word_eqI)

lemma Long_cmp: "partial_cmp_scalars Equal (Long a) (Long b) True = Some (a \<noteq> b)"
  using Long_cmp_Equal [of a "Long b"]
  by (cases "logical_partial_cmp (Long a) (Long b)")
    (auto simp: partial_cmp_scalars_def logical_partial_cmp_def)

text \<open>A count of NULLs in the statistics of a file that is 0, or the number of rows, decides.\<close>

lemma null_count_decides:
  assumes ok: "file_stats_ok pre pcols stats rows" and c: "\<not> is_partition_column pcols c"
    and s: "stats (pre @ ''nullCount'' # c) = Some s" "\<not> scalar_is_null s" and r: "r \<in> set rows"
  obtains n v where "s = Long n" "r c = Some v" "n = 0 \<Longrightarrow> \<not> scalar_is_null v"
    "\<And>m. stats (pre @ [''numRecords'']) = Some m \<Longrightarrow> m = Long n \<Longrightarrow> scalar_is_null v"
proof -
  have "(\<forall>r \<in> set rows. r c \<noteq> None) \<and> (\<exists>n. s = Long n \<and> unat n = null_rows c rows)"
    using ok c s unfolding file_stats_ok_def by blast
  then obtain n v where n: "s = Long n" "unat n = null_rows c rows" and v: "r c = Some v"
    using r by blast
  have "\<not> scalar_is_null v" if "n = 0"
    using n(2) that v r by (auto simp: null_rows_def filter_empty_conv)
  moreover have "scalar_is_null v" if m: "stats (pre @ [''numRecords'']) = Some m" "m = Long n" for m
  proof -
    have "\<not> scalar_is_null m" using m(2) by simp
    then have "\<exists>n. m = Long n \<and> unat n = length rows"
      using ok m(1) unfolding file_stats_ok_def by blast
    then have "null_rows c rows = length rows" using n(2) m(2) by auto
    then have "\<forall>r \<in> set rows. \<exists>v. r c = Some v \<and> scalar_is_null v"
      using length_filter_less [of _ rows "\<lambda>r. \<exists>v. r c = Some v \<and> scalar_is_null v"]
      unfolding null_rows_def by (metis less_irrefl)
    then show ?thesis using v r by auto
  qed
  ultimately show ?thesis using that n(1) v by blast
qed

lemma null_cmp: "scalar_is_null s \<Longrightarrow> partial_cmp_scalars ord s t i = None"
  "scalar_is_null t \<Longrightarrow> partial_cmp_scalars ord s t i = None"
  using cmp_Some_not_null [of s t]
  by (cases "logical_partial_cmp s t"; simp add: partial_cmp_scalars_def)+

lemma creator_is_null_sound:
  assumes ok: "file_ok x"
  shows "sound (Option.bind (creator_is_null (fs_pcols x) c i) (stats_sem x))
    (ev_is_null (default_evaluator (fs_ops x) (fs_row x)) c i)"
proof (cases "is_partition_column (fs_pcols x) c")
  case True
  then have "fs_row x c = fs_stats x (''partitionValues_parsed'' # c)"
    using ok by (auto simp: file_ok_def partition_values_ok_def)
  then show ?thesis using True
    by (cases i) (auto simp: creator_is_null_def pred_constructors stats_sem_def eval_pred_unary_def
        column_join_def)
next
  case False
  have stats: "file_stats_ok [''stats_parsed''] (fs_pcols x) (fs_stats x) (fs_rows x)"
    and r: "fs_row x \<in> set (fs_rows x)" using ok by (auto simp: file_ok_def)
  let ?null = "fs_stats x (''stats_parsed'' # ''nullCount'' # c)"
  let ?total = "fs_stats x [''stats_parsed'', ''numRecords'']"
  have sem: "Option.bind (creator_is_null (fs_pcols x) c i) (stats_sem x) =
      (case ?null of None \<Rightarrow> None | Some s \<Rightarrow>
         (case (if i then ?total else Some (Long 0)) of None \<Rightarrow> None
          | Some t \<Rightarrow> partial_cmp_scalars Equal s t True))"
    using False
    by (cases i; cases ?null; cases ?total)
      (simp_all add: creator_is_null_def creator_rowcount_stat_def creator_nullcount_stat_def pred_ne_def
        stats_sem_def eval_pred_binary_def column_join_def default_eval_pred_binary_scalars_def
        resolve_binary_def)
  show ?thesis
  proof (cases ?null)
    case (Some s)
    show ?thesis
    proof (cases "scalar_is_null s")
      case False
      have null: "fs_stats x ([''stats_parsed''] @ ''nullCount'' # c) = Some s" using Some by simp
      obtain n v where nv: "s = Long n" "fs_row x c = Some v" "n = 0 \<Longrightarrow> \<not> scalar_is_null v"
        "\<And>m. fs_stats x ([''stats_parsed''] @ [''numRecords'']) = Some m \<Longrightarrow> m = Long n \<Longrightarrow> scalar_is_null v"
        by (rule null_count_decides [OF stats \<open>\<not> is_partition_column (fs_pcols x) c\<close> null False r]) blast
      have "\<not> scalar_is_null v" if "\<not> i" "partial_cmp_scalars Equal s (Long 0) True = Some False"
        using that nv by (simp add: Long_cmp)
      moreover have "scalar_is_null v" if "partial_cmp_scalars Equal s t True = Some False" "?total = Some t" for t
      proof -
        have "logical_partial_cmp s t = Some Equal"
          using that(1) by (auto simp: partial_cmp_scalars_def split: option.splits)
        then have "t = Long n" using nv(1) by (simp add: Long_cmp_Equal)
        then show ?thesis using nv(4) that(2) by simp
      qed
      ultimately show ?thesis
        using Some nv(2) unfolding sem sound_def
        by (auto simp: default_eval_pred_scalar_is_null_def split: option.splits if_splits)
    qed (use Some in \<open>simp add: sem null_cmp split: option.splits\<close>)
  qed (simp add: sem)
qed

interpretation file_skip: stat_semantics file_ok "\<lambda>x. skipping_creator (fs_rewrite x) (fs_pcols x)"
  stats_sem fs_ops fs_row file_min file_max
proof
  fix x :: "'op file_situation" and c v ord i
  show "weaker (Option.bind (partial_cmp_min_stat (skipping_creator (fs_rewrite x) (fs_pcols x)) c v ord i)
      (stats_sem x)) (stat_cmp ord (file_min x c (scalar_data_type v)) v i)"
    by (simp add: partial_cmp_min_stat_def skipping_creator_def creator_min_stat_def column_join_def
        stats_sem_def comparison_sem file_min_def stat_cmp_typed)
  show "weaker (Option.bind (partial_cmp_max_stat (skipping_creator (fs_rewrite x) (fs_pcols x)) c v ord i)
      (stats_sem x)) (stat_cmp ord (file_max x c (scalar_data_type v)) v i)"
    by (simp add: partial_cmp_max_stat_def skipping_creator_def creator_max_stat_def column_join_def
        stats_sem_def comparison_sem file_max_def stat_cmp_typed)
next
  fix x :: "'op file_situation" and c i
  assume "file_ok x"
  then show "sound (Option.bind (sk_is_null (skipping_creator (fs_rewrite x) (fs_pcols x)) c i) (stats_sem x))
      (ev_is_null (default_evaluator (fs_ops x) (fs_row x)) c i)"
    using creator_is_null_sound by (simp add: skipping_creator_def del: default_evaluator_simps(3))
next
  fix x :: "'op file_situation" and c v
  assume "file_ok x" and v: "fs_row x c = Some v" "logical_partial_cmp v v = Some Equal"
  then have st: "file_stats_ok [''stats_parsed''] (fs_pcols x) (fs_stats x) (fs_rows x)"
    and pv: "is_partition_column (fs_pcols x) c \<Longrightarrow> fs_stats x (''partitionValues_parsed'' # c) = Some v"
    and r: "fs_row x \<in> set (fs_rows x)"
    by (auto simp: file_ok_def partition_values_ok_def)
  show "bounded_by (file_min x c (scalar_data_type v)) (file_max x c (scalar_data_type v)) v"
  proof (cases "is_partition_column (fs_pcols x) c")
    case True
    then show ?thesis
      using pv v(2) by (auto simp: bounded_by_def file_min_def file_max_def typed_stat_Some lcmp.below_def)
  next
    case False
    then show ?thesis
      using st v r unfolding bounded_by_def file_min_def file_max_def file_stats_ok_def usable_def
      by (auto simp: typed_stat_Some usable_def)
  qed
qed (simp_all add: skipping_creator_def bind_map_literal collect_junction_sem file_ok_def
    opaque_rewrite_ok_def del: default_evaluator_simps(9))

subsection \<open>The file filter keeps every file that may match\<close>

text \<open>
  The documented behaviour of the engine's evaluators: the skipping predicate is evaluated with
  the reference semantics on the statistics of each file, the filter predicate on a batch with
  the one column \<open>output\<close>.
\<close>

definition engine_evaluates ::
  "'op opaque_ops \<Rightarrow> ((column_name \<Rightarrow> scalar option) list \<Rightarrow> bool option list delta_result) \<Rightarrow>
   'op predicate \<Rightarrow> bool" where
  "engine_evaluates ops ev q \<longleftrightarrow>
     (\<forall>ss. ev ss = Inr (map (\<lambda>s. eval_pred (default_evaluator ops s) q False) ss))"

definition output_row :: "bool option \<Rightarrow> column_name \<Rightarrow> scalar option" where
  "output_row b c =
     (if c = [''output''] then Some (case b of None \<Rightarrow> Null (Primitive PBoolean) | Some b \<Rightarrow> Boolean b)
      else None)"

definition engine_filters ::
  "'op opaque_ops \<Rightarrow> (bool option list \<Rightarrow> bool option list delta_result) \<Rightarrow> 'op predicate \<Rightarrow> bool" where
  "engine_filters ops ev q \<longleftrightarrow>
     (\<forall>bs. ev bs = Inr (map (\<lambda>b. eval_pred (default_evaluator ops (output_row b)) q False) bs))"

lemma filter_predicate_sem:
  "eval_pred (default_evaluator ops (output_row b)) filter_predicate False = Some (b \<noteq> Some False)"
  by (cases b)
    (auto simp: filter_predicate_def pred_distinct_def eval_pred_binary_def eval_pred_distinct_def
      output_row_def resolve_binary_def default_eval_pred_binary_scalars_def partial_cmp_scalars_def
      logical_partial_cmp_def default_eval_pred_scalar_is_null_def default_finish_junction_def cmp_def)

lemma visit_selection_vector_Some: "visit_selection_vector (map Some bs) = Inr bs"
  by (induction bs) (simp_all add: visit_selection_vector_def ok_or_def result_simps)

text \<open>Applied to a batch, the filter keeps exactly the files whose skipping predicate is not FALSE.\<close>

lemma skipping_filter_apply_exact:
  assumes "engine_evaluates ops eval_skipping q" "engine_filters ops eval_filter filter_predicate"
    and "eval_stats batch = Inr stats" "length stats = length batch"
  shows "skipping_filter_apply eval_stats eval_skipping eval_filter batch =
    Inr (map (\<lambda>s. eval_pred (default_evaluator ops s) q False \<noteq> Some False) stats)"
  using assms visit_selection_vector_Some
    [of "map (\<lambda>s. eval_pred (default_evaluator ops s) q False \<noteq> Some False) stats"]
  by (simp add: skipping_filter_apply_def engine_evaluates_def engine_filters_def filter_predicate_sem
      require_def rbind_def comp_def)

lemma new_data_skipping_filter_Some:
  assumes "new_data_skipping_filter expr_ok pred_ok opaque_rewrite p stats_schema stats_expr
    partition_schema partition_expr input_schema = Some f"
  obtains q where "p = Some q" "as_sql_data_skipping_predicate opaque_rewrite q
      (case partition_schema of None \<Rightarrow> [] | Some ps \<Rightarrow> map sf_name (fields_of ps)) = Some (df_skipping f)"
    "df_filter f = filter_predicate"
  using assms
  by (auto simp: new_data_skipping_filter_def build_unified_schema_and_expr_def Let_def
      split: option.splits if_splits)

text \<open>
  C4. File skipping never loses a row: a file that the data skipping filter deselects holds no
  row that satisfies the predicate, given that its statistics and partition values describe it,
  whatever statistics are missing or NULL, and that engine-defined predicates keep their
  contract. The engine evaluates the rewritten predicate and the filter with the reference
  semantics.
\<close>

theorem file_skipping_sound:
  fixes f :: "'op data_skipping_filter"
  assumes f: "new_data_skipping_filter expr_ok pred_ok opaque_rewrite (Some p) stats_schema stats_expr
      partition_schema partition_expr input_schema = Some f"
    and pcols: "pcols = (case partition_schema of None \<Rightarrow> [] | Some ps \<Rightarrow> map sf_name (fields_of ps))"
    and ev: "engine_evaluates ops eval_skipping (df_skipping f)" "engine_filters ops eval_filter (df_filter f)"
    and stats: "eval_stats batch = Inr stats"
    and sel: "skipping_filter_apply eval_stats eval_skipping eval_filter batch = Inr selection"
    and i: "i < length batch" "\<not> selection ! i"
    and good: "file_stats_ok [''stats_parsed''] pcols (stats ! i) rows" "partition_values_ok pcols (stats ! i) rows"
    and r: "r \<in> set rows"
    and opq: "opaque_rewrite_ok \<lparr> fs_ops = ops, fs_rewrite = opaque_rewrite, fs_pcols = pcols,
      fs_stats = stats ! i, fs_rows = rows, fs_row = r \<rparr>"
  shows "eval_pred (default_evaluator ops r) p False \<noteq> Some True"
proof -
  let ?x = "\<lparr> fs_ops = ops, fs_rewrite = opaque_rewrite, fs_pcols = pcols,
    fs_stats = stats ! i, fs_rows = rows, fs_row = r \<rparr>"
  have q: "as_sql_data_skipping_predicate opaque_rewrite p pcols = Some (df_skipping f)"
    and flt: "df_filter f = filter_predicate"
    using new_data_skipping_filter_Some [OF f] pcols by auto
  have len: "length stats = length batch"
    using sel stats by (auto simp: skipping_filter_apply_def require_def rbind_def split: if_splits)
  have "selection = map (\<lambda>s. eval_pred (default_evaluator ops s) (df_skipping f) False \<noteq> Some False) stats"
    using skipping_filter_apply_exact [where ops = ops and q = "df_skipping f" and eval_stats = eval_stats
        and batch = batch and stats = stats and eval_skipping = eval_skipping and eval_filter = eval_filter]
      ev stats len flt sel by simp
  then have "stats_sem ?x (df_skipping f) = Some False"
    using i len by (simp add: stats_sem_def)
  moreover have "file_ok ?x" using good r opq by (simp add: file_ok_def)
  ultimately have "eval_pred_sql_where (default_evaluator ops r) p False \<noteq> Some True"
    using file_skip.sql_where_sound(1) [of ?x p False] q
    by (simp add: as_sql_data_skipping_predicate_def eval_sql_where_def sound_def)
  then show ?thesis using sql_where_true(1) by blast
qed

definition ex_file_stats :: "column_name \<Rightarrow> scalar option" where
  "ex_file_stats c =
     (if c = [''stats_parsed'', ''minValues'', ''a''] then Some (Byte 3)
      else if c = [''stats_parsed'', ''maxValues'', ''a''] then Some (Byte 9) else None)"

definition ex_filter :: "unit data_skipping_filter" where
  "ex_filter = the (new_data_skipping_filter (\<lambda>_ _ _. True) (\<lambda>_ _. True) (\<lambda>_ _ _. None)
     (Some (pred_gt (Column [''a'']) (Literal (Byte 20)))) (Some (StructType [] []))
     (Column [''stats_parsed'']) None (Literal (Boolean True)) (StructType [] []))"

lemma ex_filter_skips:
  "eval_pred (default_evaluator no_opaque ex_file_stats) (df_skipping ex_filter) False = Some False"
  by (simp add: ex_filter_def new_data_skipping_filter_def build_unified_schema_and_expr_def
      as_sql_data_skipping_predicate_def eval_sql_where_def pred_constructors kernel_evaluator_def
      skipping_creator_def eval_pred_unary_def eval_pred_binary_def skipping_gt_def
      partial_cmp_max_stat_def creator_max_stat_def is_partition_column_def is_timestamp_type_def
      creator_is_null_def creator_rowcount_stat_def creator_nullcount_stat_def column_join_def
      collect_junction_preds_def pred_junction_def comparison_predicate_def
      default_eval_pred_scalar_is_null_def default_finish_junction_def ex_file_stats_def
      default_eval_pred_binary_scalars_def resolve_binary_def partial_cmp_scalars_def
      logical_partial_cmp_def default_eval_pred_scalar_def cmp_def)

lemma ex_filter_built:
  "new_data_skipping_filter (\<lambda>_ _ _. True) (\<lambda>_ _. True) (\<lambda>_ _ _. None)
     (Some (pred_gt (Column [''a'']) (Literal (Byte 20)))) (Some (StructType [] []))
     (Column [''stats_parsed'']) None (Literal (Boolean True)) (StructType [] []) = Some ex_filter"
  by (simp add: ex_filter_def new_data_skipping_filter_def build_unified_schema_and_expr_def
      as_sql_data_skipping_predicate_def eval_sql_where_def pred_gt_def kernel_evaluator_def
      skipping_creator_def)

lemma ex_file_stats_ok: "file_stats_ok [''stats_parsed''] [] ex_file_stats [ex_row]"
  by (auto simp: file_stats_ok_def ex_file_stats_def ex_row_def lcmp.below_def logical_partial_cmp_def
      cmp_def split: if_splits)

theorem file_skipping_sound_witness:
  "df_skipping ex_filter \<noteq> pred_literal True \<and>
   eval_pred (default_evaluator no_opaque ex_row) (pred_gt (Column [''a'']) (Literal (Byte 20))) False \<noteq> Some True"
proof -
  let ?ev = "\<lambda>ss. Inr (map (\<lambda>s. eval_pred (default_evaluator no_opaque s) (df_skipping ex_filter) False) ss)"
  let ?flt = "\<lambda>bs. Inr (map (\<lambda>b. eval_pred (default_evaluator no_opaque (output_row b)) filter_predicate False) bs)"
  have ev: "engine_evaluates no_opaque ?ev (df_skipping ex_filter)"
    by (simp add: engine_evaluates_def)
  have "df_filter ex_filter = filter_predicate"
    by (rule new_data_skipping_filter_Some [OF ex_filter_built])
  then have flt: "engine_filters no_opaque ?flt (df_filter ex_filter)"
    by (simp add: engine_filters_def)
  have apply_ex: "skipping_filter_apply Inr ?ev ?flt [ex_file_stats] = Inr [False]"
    by (simp add: skipping_filter_apply_def rbind_def require_def filter_predicate_sem ex_filter_skips
        visit_selection_vector_def ok_or_def)
  have "df_skipping ex_filter \<noteq> pred_literal True"
    using ex_filter_skips literal_sem [of no_opaque ex_file_stats True] by auto
  moreover have "partition_values_ok [] ex_file_stats [ex_row]"
    by (simp add: partition_values_ok_def is_partition_column_def)
  ultimately show ?thesis
    using file_skipping_sound [OF ex_filter_built _ ev flt, of "[]" Inr "[ex_file_stats]" "[ex_file_stats]" "[False]" 0
        "[ex_row]" ex_row] apply_ex ex_file_stats_ok
    by (simp add: opaque_rewrite_ok_def)
qed

section \<open>The null-guarded rewriter\<close>

definition guarded_min :: "'op file_situation \<Rightarrow> column_name \<Rightarrow> data_type \<Rightarrow> scalar option" where
  "guarded_min x c dt =
     (if is_partition_column (fs_pcols x) c then None else typed_stat (fs_stats x (''minValues'' # c)) dt)"

definition guarded_max :: "'op file_situation \<Rightarrow> column_name \<Rightarrow> data_type \<Rightarrow> scalar option" where
  "guarded_max x c dt =
     (if is_partition_column (fs_pcols x) c \<or> is_timestamp_type dt then None
      else typed_stat (fs_stats x (''maxValues'' # c)) dt)"

lemma guard_weaker:
  assumes "eval_pred (default_evaluator ops stats) q False = y"
  shows "weaker (eval_pred (default_evaluator ops stats) (pred_or g q) False) y"
  using assms
  by (auto simp: pred_or_def pred_junction_sem weaker_def default_finish_junction_False)

lemma guarded_cmp_weaker:
  "weaker (Option.bind (guarded_partial_cmp ord (Column c) v i) (stats_sem x)) (stat_cmp ord (fs_stats x c) v i)"
  using guard_weaker [OF comparison_sem, of "fs_ops x" "fs_stats x" "pred_is_null (Column c)" ord c v i]
  by (simp add: guarded_partial_cmp_def stats_sem_def)

lemma weaker_trans: "weaker x y \<Longrightarrow> weaker y z \<Longrightarrow> weaker x z"
  by (simp add: weaker_def)

lemma guarded_is_null_sound:
  assumes ok: "guarded_ok x"
  shows "sound (Option.bind (guarded_is_null (fs_pcols x) c i) (stats_sem x))
    (ev_is_null (default_evaluator (fs_ops x) (fs_row x)) c i)"
proof (cases "i \<or> is_partition_column (fs_pcols x) c")
  case False
  have stats: "file_stats_ok [] (fs_pcols x) (fs_stats x) (fs_rows x)"
    and r: "fs_row x \<in> set (fs_rows x)" using ok by (auto simp: guarded_ok_def)
  let ?n = "fs_stats x (''nullCount'' # c)"
  have w: "weaker (Option.bind (guarded_is_null (fs_pcols x) c i) (stats_sem x))
      (stat_cmp Equal ?n (Long 0) True)"
    using guard_weaker [OF comparison_sem, of "fs_ops x" "fs_stats x" "pred_is_null (Column (''nullCount'' # c))"
        Equal "''nullCount'' # c" "Long 0" True] False
    by (simp add: guarded_is_null_def guarded_nullcount_stat_def column_join_def stats_sem_def
        comparison_predicate_def)
  have "sound (stat_cmp Equal ?n (Long 0) True) (ev_is_null (default_evaluator (fs_ops x) (fs_row x)) c i)"
  proof (cases "\<exists>s. ?n = Some s \<and> \<not> scalar_is_null s")
    case True
    then obtain s where null: "fs_stats x ([] @ ''nullCount'' # c) = Some s" "\<not> scalar_is_null s" by auto
    obtain n v where "s = Long n" "fs_row x c = Some v" "n = 0 \<Longrightarrow> \<not> scalar_is_null v"
      by (rule null_count_decides [OF stats _ null r]) (use False in blast)+
    then show ?thesis
      using null(1) False by (auto simp: stat_cmp_def Long_cmp sound_def default_eval_pred_scalar_is_null_def)
  qed (auto simp: stat_cmp_def null_cmp split: option.splits)
  then show ?thesis using w weaker_sound by blast
qed (auto simp: guarded_is_null_def guarded_nullcount_stat_def)

interpretation guarded: stat_semantics guarded_ok "\<lambda>x. guarded_creator (fs_pcols x)"
  stats_sem fs_ops fs_row guarded_min guarded_max
proof
  fix x :: "'op file_situation" and c v ord i
  show "weaker (Option.bind (partial_cmp_min_stat (guarded_creator (fs_pcols x)) c v ord i) (stats_sem x))
      (stat_cmp ord (guarded_min x c (scalar_data_type v)) v i)"
    by (simp add: weaker_trans [OF guarded_cmp_weaker stat_cmp_typed] partial_cmp_min_stat_def guarded_creator_def guarded_min_stat_def column_join_def
        guarded_min_def)
  show "weaker (Option.bind (partial_cmp_max_stat (guarded_creator (fs_pcols x)) c v ord i) (stats_sem x))
      (stat_cmp ord (guarded_max x c (scalar_data_type v)) v i)"
    by (simp add: weaker_trans [OF guarded_cmp_weaker stat_cmp_typed] partial_cmp_max_stat_def guarded_creator_def guarded_max_stat_def column_join_def
        guarded_max_def)
next
  fix x :: "'op file_situation" and c i
  assume "guarded_ok x"
  then show "sound (Option.bind (sk_is_null (guarded_creator (fs_pcols x)) c i) (stats_sem x))
      (ev_is_null (default_evaluator (fs_ops x) (fs_row x)) c i)"
    using guarded_is_null_sound by (simp add: guarded_creator_def del: default_evaluator_simps(3))
next
  fix x :: "'op file_situation" and c v
  assume "guarded_ok x" and v: "fs_row x c = Some v" "logical_partial_cmp v v = Some Equal"
  then show "bounded_by (guarded_min x c (scalar_data_type v)) (guarded_max x c (scalar_data_type v)) v"
    unfolding bounded_by_def guarded_min_def guarded_max_def guarded_ok_def file_stats_ok_def usable_def
    by (auto simp: typed_stat_Some usable_def)
qed (simp_all add: guarded_creator_def bind_map_literal collect_junction_sem del: default_evaluator_simps(9))

text \<open>
  The null-guarded rewriting for checkpoint files is conservative: when the rewritten
  predicate, evaluated with the plain three-valued semantics on the statistics of a file, is
  FALSE, no row of the file satisfies the original predicate.
\<close>

theorem guarded_rewrite_sound:
  fixes ops :: "'op opaque_ops"
  assumes q: "as_checkpoint_skipping_predicate p pcols = Some q"
    and "eval_pred (default_evaluator ops stats) q False = Some False"
    and "file_stats_ok [] pcols stats rows" "r \<in> set rows"
  shows "eval_pred (default_evaluator ops r) p False \<noteq> Some True"
proof -
  let ?x = "\<lparr> fs_ops = ops, fs_rewrite = \<lambda>_ _ _. None, fs_pcols = pcols, fs_stats = stats,
    fs_rows = rows, fs_row = r \<rparr>"
  have "guarded_ok ?x" using assms by (simp add: guarded_ok_def)
  then show ?thesis
    using guarded.eval_pred_sound(1) [of ?x p False] assms
    by (auto simp: as_checkpoint_skipping_predicate_def stats_sem_def sound_def)
qed

definition ex_guarded :: "unit predicate" where
  "ex_guarded = the (as_checkpoint_skipping_predicate (pred_gt (Column [''a'']) (Literal (Byte 20))) [])"

theorem guarded_rewrite_sound_witness:
  "ex_guarded = Junction Or [pred_is_null (Column [''maxValues'', ''a'']),
       pred_gt (Column [''maxValues'', ''a'']) (Literal (Byte 20))] \<and>
   eval_pred (default_evaluator no_opaque ex_row) (pred_gt (Column [''a'']) (Literal (Byte 20))) False \<noteq> Some True"
proof -
  let ?stats = "\<lambda>c. ex_file_stats (''stats_parsed'' # c)"
  let ?p = "pred_gt (Column [''a'']) (Literal (Byte 20)) :: unit predicate"
  have q: "as_checkpoint_skipping_predicate ?p [] = Some ex_guarded"
    by (simp add: ex_guarded_def as_checkpoint_skipping_predicate_def pred_gt_def kernel_evaluator_def
        eval_pred_binary_def skipping_gt_def partial_cmp_max_stat_def guarded_creator_def
        guarded_max_stat_def is_partition_column_def is_timestamp_type_def guarded_partial_cmp_def)
  have shape: "ex_guarded = Junction Or [pred_is_null (Column [''maxValues'', ''a'']),
       pred_gt (Column [''maxValues'', ''a'']) (Literal (Byte 20))]"
    by (simp add: ex_guarded_def as_checkpoint_skipping_predicate_def pred_gt_def kernel_evaluator_def
        eval_pred_binary_def skipping_gt_def partial_cmp_max_stat_def guarded_creator_def
        guarded_max_stat_def is_partition_column_def is_timestamp_type_def guarded_partial_cmp_def
        comparison_predicate_def pred_or_def pred_junction_def column_join_def)
  have "eval_pred (default_evaluator no_opaque ?stats) ex_guarded False = Some False"
    by (simp add: shape pred_is_null_def pred_gt_def eval_pred_unary_def eval_pred_binary_def
        ex_file_stats_def default_eval_pred_scalar_is_null_def resolve_binary_def
        default_eval_pred_binary_scalars_def partial_cmp_scalars_def logical_partial_cmp_def cmp_def
        default_finish_junction_def)
  moreover have "file_stats_ok [] [] ?stats [ex_row]"
    using ex_file_stats_ok by (simp add: file_stats_ok_def)
  ultimately show ?thesis
    using guarded_rewrite_sound [OF q, of no_opaque ?stats "[ex_row]" ex_row] shape by simp
qed

text \<open>
  The row group filter evaluates the guarded predicate with SQL WHERE semantics, where the NULL
  literal that stands for an unsupported part is FALSE. A conjunct \<open>c IS NOT NULL\<close>, which the
  guarded rewriter does not support, therefore skips every row group of a checkpoint, whatever
  the footer statistics say and whatever the other conjunct is.
\<close>

lemma null_literal_sql_where:
  "eval_pred_sql_where (kernel_evaluator (parquet_evaluator opaque_skip S)) pred_null_literal False = Some False"
  by (simp add: pred_null_literal_def kernel_evaluator_def parquet_evaluator_def default_eval_pred_scalar_def)

lemma is_not_null_conjunct_skips_all:
  "\<exists>g. as_checkpoint_skipping_predicate (pred_and (pred_is_not_null (Column c)) p) pcols = Some g \<and>
     \<not> row_group_apply opaque_skip S g"
proof -
  let ?E = "kernel_evaluator (guarded_creator pcols)"
  obtain ps where ps: "keep_one_null True [None, eval_pred ?E p False] = pred_null_literal # ps" by simp
  have "as_checkpoint_skipping_predicate (pred_and (pred_is_not_null (Column c)) p) pcols =
      Some (collect_junction_preds And [None, eval_pred ?E p False] False)"
    by (simp add: as_checkpoint_skipping_predicate_def pred_and_def pred_junction_def pred_is_not_null_def
        pred_is_null_def kernel_evaluator_def guarded_creator_def eval_pred_unary_def guarded_is_null_def)
  moreover have "eval_pred_sql_where (kernel_evaluator (parquet_evaluator opaque_skip S))
      (pred_junction And (pred_null_literal # ps)) False = Some False"
  proof (cases ps)
    case Nil
    then show ?thesis using null_literal_sql_where by (simp add: pred_junction_def)
  next
    case (Cons r rs)
    have fin: "ev_finish_junction (kernel_evaluator (parquet_evaluator opaque_skip S)) = default_finish_junction"
      by (simp add: kernel_evaluator_def parquet_evaluator_def)
    show ?thesis
      using Cons null_literal_sql_where [of opaque_skip S]
      by (simp add: pred_junction_def fin default_finish_junction_False)
  qed
  ultimately show ?thesis
    using ps by (simp add: collect_junction_preds_def row_group_apply_def eval_sql_where_def)
qed

end
