(* ===== verification/CheckpointSkipping.thy ===== *)
theory CheckpointSkipping
  imports DataSkipping
begin

text \<open>
  Properties of whole rewritten predicates. The locale \<open>output_invariant\<close> lifts an invariant of the
  outputs of an evaluator's methods to the outputs of whole predicates. It is interpreted twice:
  the statistics rewriter yields predicates that are monotone in the known statistics, so that
  data skipping never deselects a remove unless it deselects everything; the null-guarded
  rewriter yields predicates of a guarded shape, whose evaluation over the footer statistics of
  a checkpoint row group decides the predicate for every file of the row group.
\<close>

section \<open>Invariants of evaluator outputs\<close>

locale output_invariant =
  fixes ok :: "'x \<Rightarrow> bool"
    and E :: "'x \<Rightarrow> ('op, 'o) predicate_evaluator"
    and Q :: "'x \<Rightarrow> 'o \<Rightarrow> bool"
  assumes scalar: "ok x \<Longrightarrow> pred_option (Q x) (ev_scalar (E x) v i)"
    and scalar_is_null: "ok x \<Longrightarrow> pred_option (Q x) (ev_scalar_is_null (E x) v i)"
    and is_null: "ok x \<Longrightarrow> pred_option (Q x) (ev_is_null (E x) c i)"
    and lt: "ok x \<Longrightarrow> pred_option (Q x) (ev_lt (E x) c v i)"
    and gt: "ok x \<Longrightarrow> pred_option (Q x) (ev_gt (E x) c v i)"
    and eq: "ok x \<Longrightarrow> pred_option (Q x) (ev_eq (E x) c v i)"
    and binary_scalars: "ok x \<Longrightarrow> pred_option (Q x) (ev_binary_scalars (E x) bop v w i)"
    and binary_columns: "ok x \<Longrightarrow> pred_option (Q x) (ev_binary_columns (E x) bop c d i)"
    and opaque: "ok x \<Longrightarrow> pred_option (Q x) (ev_opaque (E x) op exprs i)"
    and expr_opaque: "ok x \<Longrightarrow> pred_option (Q x) (ev_expr_opaque (E x) op exprs i)"
    and junction: "ok x \<Longrightarrow> list_all (pred_option (Q x)) ys \<Longrightarrow>
      pred_option (Q x) (ev_finish_junction (E x) jop ys i)"
begin

lemma unary: "ok x \<Longrightarrow> pred_option (Q x) (eval_pred_unary (E x) uop e i)"
  by (cases uop; cases e) (simp_all add: eval_pred_unary_def scalar_is_null is_null)

lemma dist: "ok x \<Longrightarrow> pred_option (Q x) (eval_pred_distinct (E x) c v i)"
  by (simp add: eval_pred_distinct_def is_null junction eq)

lemma binary: "ok x \<Longrightarrow> pred_option (Q x) (eval_pred_binary (E x) bop a b i)"
  by (cases a; cases b; cases bop)
    (simp_all add: eval_pred_binary_def binary_columns binary_scalars lt gt eq dist eval_pred_in_def)

lemma column: "ok x \<Longrightarrow> pred_option (Q x) (eval_pred_column (E x) c i)"
  by (simp add: eval_pred_column_def eq)

lemma eval_pred_inv_aux:
  "ok x \<Longrightarrow> E' = E x \<Longrightarrow> pred_option (Q x) (eval_pred E' p i)"
  "ok x \<Longrightarrow> E' = E x \<Longrightarrow> pred_option (Q x) (eval_pred_expr E' e i)"
  by (induction E' p i and E' e i rule: eval_pred_eval_pred_expr.induct)
    (simp_all add: unary binary column scalar opaque expr_opaque junction list_all_iff)

lemmas eval_pred_inv = eval_pred_inv_aux [OF _ refl]

lemma sql_where_inv_aux:
  "ok x \<Longrightarrow> E' = E x \<Longrightarrow> pred_option (Q x) (eval_pred_sql_where E' p i)"
  "ok x \<Longrightarrow> E' = E x \<Longrightarrow> pred_option (Q x) (sql_where_expr E' e i)"
  by (induction E' p i and E' e i rule: eval_pred_sql_where_sql_where_expr.induct)
    (simp_all add: unary binary column is_null scalar opaque expr_opaque junction list_all_iff eval_pred_inv)

lemmas sql_where_inv = sql_where_inv_aux [OF _ refl]

end

section \<open>Rows without statistics\<close>

text \<open>
  A resolver of statistics that knows nothing: every column is missing or NULL, as for a remove.
  \<open>informative q\<close> says that a truth value of \<open>q\<close> found without statistics holds for all statistics.
\<close>

definition no_statistics :: "(column_name \<Rightarrow> scalar option) \<Rightarrow> bool" where
  "no_statistics s \<longleftrightarrow> (\<forall>c v. s c = Some v \<longrightarrow> scalar_is_null v)"

definition informative ::
  "'op opaque_ops \<Rightarrow> (column_name \<Rightarrow> scalar option) \<Rightarrow> (column_name \<Rightarrow> scalar option) \<Rightarrow> 'op predicate \<Rightarrow> bool" where
  "informative ops s stats q \<longleftrightarrow>
     (\<forall>b. eval_pred (default_evaluator ops s) q False = Some b \<longrightarrow>
        eval_pred (default_evaluator ops stats) q False = Some b)"

record 'op remove_situation =
  rs_ops :: "'op opaque_ops"
  rs_rewrite :: "'op \<Rightarrow> 'op expression list \<Rightarrow> bool \<Rightarrow> 'op predicate option"
  rs_none :: "column_name \<Rightarrow> scalar option"
  rs_stats :: "column_name \<Rightarrow> scalar option"

definition remove_ok :: "'op remove_situation \<Rightarrow> bool" where
  "remove_ok x \<longleftrightarrow> no_statistics (rs_none x) \<and>
     (\<forall>op exprs i. pred_option (informative (rs_ops x) (rs_none x) (rs_stats x)) (rs_rewrite x op exprs i))"

lemma resolve_no_statistics: "no_statistics s \<Longrightarrow> resolve_binary s op c v i = None"
  by (cases "s c"; cases op)
    (auto simp: resolve_binary_def no_statistics_def default_eval_pred_binary_scalars_def null_cmp)

lemma informative_literal: "informative ops s stats (pred_literal b)"
  by (simp add: informative_def)

lemma informative_comparison:
  "no_statistics s \<Longrightarrow> informative ops s stats (comparison_predicate ord (Column c) v i)"
  using null_cmp(1)
  by (auto simp: informative_def comparison_sem stat_cmp_def no_statistics_def split: option.splits)

lemma informative_is_null:
  assumes "no_statistics s"
  shows "pred_option (informative ops s stats) (creator_is_null [] c i)"
proof -
  have "eval_pred (default_evaluator ops s) (pred_ne (Column d) e) False = None"
    if "e = Literal v \<or> e = Column d'" for d e v d'
    using that assms
    by (auto simp: pred_ne_def eval_pred_binary_def resolve_no_statistics default_evaluator_def
        no_statistics_def default_eval_pred_binary_scalars_def null_cmp split: option.splits)
  then show ?thesis
    by (simp add: creator_is_null_def creator_rowcount_stat_def creator_nullcount_stat_def
        is_partition_column_def informative_def)
qed

lemma junction_informative:
  assumes "list_all2 (\<lambda>x y. \<forall>b. x = Some b \<longrightarrow> y = Some b) xs ys" "default_finish_junction op xs i = Some b"
  shows "default_finish_junction op ys i = Some b"
proof -
  have mem: "Some b \<in> set ys" if b: "Some b \<in> set xs" for b
  proof -
    obtain k where "k < length xs" "xs ! k = Some b" using b by (auto simp: in_set_conv_nth)
    then show ?thesis using assms(1) nth_mem [of k ys] by (auto simp: list_all2_conv_all_nth)
  qed
  have "xs = ys" if none: "None \<notin> set xs"
  proof (rule nth_equalityI)
    show "length xs = length ys" using assms(1) by (rule list_all2_lengthD)
    show "xs ! k = ys ! k" if k: "k < length xs" for k
    proof -
      obtain b where "xs ! k = Some b" using none k nth_mem [OF k] by (cases "xs ! k") auto
      then show ?thesis using assms(1) k by (simp add: list_all2_conv_all_nth)
    qed
  qed
  then show ?thesis
    using assms(2) mem by (auto simp: default_finish_junction_def junction_loop_iff split: if_splits)
qed

lemma informative_junction:
  assumes "list_all (pred_option (informative ops s stats)) ys"
  shows "informative ops s stats (collect_junction_preds op ys i)"
proof -
  let ?x = "\<lambda>s. \<lparr> fs_ops = ops, fs_rewrite = \<lambda>_ _ _. None, fs_pcols = [], fs_stats = s, fs_rows = [], fs_row = s \<rparr>"
  have sem: "eval_pred (default_evaluator ops s) (collect_junction_preds op ys i) False =
      default_finish_junction op (map (\<lambda>y. Option.bind y (\<lambda>q. eval_pred (default_evaluator ops s) q False)) ys) i" for s
    using collect_junction_sem [of "?x s" op ys i] by (simp add: stats_sem_def [abs_def])
  have "list_all2 (\<lambda>x y. \<forall>b. x = Some b \<longrightarrow> y = Some b)
      (map (\<lambda>y. Option.bind y (\<lambda>q. eval_pred (default_evaluator ops s) q False)) ys)
      (map (\<lambda>y. Option.bind y (\<lambda>q. eval_pred (default_evaluator ops stats) q False)) ys)"
    using assms by (auto simp: list_all2_map1 list_all2_map2 list_all2_same list_all_iff informative_def
        split: option.splits bind_splits)
  then show ?thesis
    unfolding informative_def sem by (blast intro: junction_informative)
qed

interpretation removes: output_invariant remove_ok
  "\<lambda>x. kernel_evaluator (skipping_creator (rs_rewrite x) [])"
  "\<lambda>x. informative (rs_ops x) (rs_none x) (rs_stats x)"
proof
  fix x :: "'op remove_situation"
  assume x: "remove_ok x"
  then have none: "no_statistics (rs_none x)" by (simp add: remove_ok_def)
  let ?K = "skipping_creator (rs_rewrite x) []" and ?I = "informative (rs_ops x) (rs_none x) (rs_stats x)"
  have min: "pred_option ?I (partial_cmp_min_stat ?K c v ord i)" for c v ord i
    by (simp add: partial_cmp_min_stat_def skipping_creator_def creator_min_stat_def informative_comparison none)
  have max: "pred_option ?I (partial_cmp_max_stat ?K c v ord i)" for c v ord i
    by (simp add: partial_cmp_max_stat_def skipping_creator_def creator_max_stat_def informative_comparison none)
  show junction: "pred_option ?I (ev_finish_junction (kernel_evaluator ?K) jop ys i)"
    if "list_all (pred_option ?I) ys" for jop ys i
    using that by (simp add: kernel_evaluator_def skipping_creator_def informative_junction)
  show "pred_option ?I (ev_lt (kernel_evaluator ?K) c v i)" for c v i
    by (simp add: kernel_evaluator_def skipping_lt_def min max)
  show "pred_option ?I (ev_gt (kernel_evaluator ?K) c v i)" for c v i
    by (simp add: kernel_evaluator_def skipping_gt_def min max)
  show "pred_option ?I (ev_eq (kernel_evaluator ?K) c v i)" for c v i
    using junction [of "[_, _]"] min max by (simp add: kernel_evaluator_def skipping_eq_def)
  show "pred_option ?I (ev_opaque (kernel_evaluator ?K) op exprs i)" for op exprs i
    using x by (simp add: kernel_evaluator_def skipping_creator_def remove_ok_def)
qed (simp_all add: kernel_evaluator_def skipping_creator_def informative_is_null remove_ok_def
    option.pred_map informative_literal comp_def option.pred_True)

text \<open>
  Data skipping keeps removes: the predicate that decides which rows of a log batch to drop is
  FALSE on a row without statistics, which a remove is, only when it is FALSE on every row. So
  either every row is dropped, or no remove is, and a removed file cannot come back because its
  remove was skipped.
\<close>

theorem skipping_keeps_removes:
  assumes "as_sql_data_skipping_predicate opaque_rewrite p [] = Some q"
    and "no_statistics s" "eval_pred (default_evaluator ops s) q False = Some False"
    and "\<And>op exprs i. pred_option (informative ops s stats) (opaque_rewrite op exprs i)"
  shows "eval_pred (default_evaluator ops stats) q False = Some False"
proof -
  let ?x = "\<lparr> rs_ops = ops, rs_rewrite = opaque_rewrite, rs_none = s, rs_stats = stats \<rparr>"
  have "remove_ok ?x" using assms(2,4) by (simp add: remove_ok_def)
  then have "informative ops s stats q"
    using removes.sql_where_inv(1) [of ?x p False] assms(1)
    by (simp add: as_sql_data_skipping_predicate_def eval_sql_where_def)
  then show ?thesis using assms(3) unfolding informative_def by blast
qed

theorem skipping_keeps_removes_witness:
  "eval_pred (default_evaluator no_opaque ex_file_stats)
     (the (as_sql_data_skipping_predicate (\<lambda>_ _ _. None)
        (pred_gt (Column [''a'']) (Literal (Null (Primitive PByte)))) [])) False = Some False"
proof -
  let ?p = "pred_gt (Column [''a'']) (Literal (Null (Primitive PByte))) :: unit predicate"
  let ?q = "Junction And
     [pred_ne (Column [''stats_parsed'', ''nullCount'', ''a'']) (Column [''stats_parsed'', ''numRecords'']),
      pred_literal False,
      pred_gt (Column [''stats_parsed'', ''maxValues'', ''a'']) (Literal (Null (Primitive PByte)))] :: unit predicate"
  have q: "as_sql_data_skipping_predicate (\<lambda>_ _ _. None) ?p [] = Some ?q"
    by (simp add: as_sql_data_skipping_predicate_def eval_sql_where_def pred_gt_def kernel_evaluator_def
        skipping_creator_def eval_pred_unary_def eval_pred_binary_def skipping_gt_def
        partial_cmp_max_stat_def creator_max_stat_def is_partition_column_def is_timestamp_type_def
        creator_is_null_def creator_rowcount_stat_def creator_nullcount_stat_def column_join_def
        collect_junction_preds_def pred_junction_def comparison_predicate_def
        default_eval_pred_scalar_is_null_def)
  have "eval_pred (default_evaluator no_opaque Map.empty) ?q False = Some False"
    by (simp add: default_finish_junction_False)
  then show ?thesis
    using skipping_keeps_removes [OF q, of Map.empty no_opaque ex_file_stats] q
    by (simp add: no_statistics_def)
qed

section \<open>The shape of guarded predicates\<close>

inductive guarded_pred :: "'op predicate \<Rightarrow> bool" where
  literal: "guarded_pred (pred_literal b)"
| null: "guarded_pred pred_null_literal"
| guard: "guarded_pred (Junction Or [pred_is_null (Column c), comparison_predicate ord (Column c) v i])"
| junction: "(\<And>q. q \<in> set qs \<Longrightarrow> guarded_pred q) \<Longrightarrow> guarded_pred (Junction op qs)"

lemma guarded_keep_one_null:
  "list_all (pred_option guarded_pred) ys \<Longrightarrow> q \<in> set (keep_one_null n ys) \<Longrightarrow> guarded_pred q"
  by (induction n ys rule: keep_one_null.induct) (auto split: if_splits intro: guarded_pred.null)

lemma guarded_collect:
  assumes "list_all (pred_option guarded_pred) ys"
  shows "guarded_pred (collect_junction_preds op ys i)"
proof -
  have "guarded_pred (pred_junction op' qs)" if "\<And>q. q \<in> set qs \<Longrightarrow> guarded_pred q" for op' and qs :: "'a predicate list"
    using that
    by (cases qs rule: remdups_adj.cases; cases op')
      (auto simp: pred_junction_def intro: guarded_pred.intros)
  then show ?thesis
    using guarded_keep_one_null [OF assms] by (simp add: collect_junction_preds_def)
qed

lemma guarded_cmp: "pred_option guarded_pred (guarded_partial_cmp ord (Column c) v i)"
  by (simp add: guarded_partial_cmp_def pred_or_def pred_junction_def guarded_pred.guard)

lemma guarded_parts:
  "pred_option guarded_pred (partial_cmp_min_stat (guarded_creator pcols) c v ord i)"
  "pred_option guarded_pred (partial_cmp_max_stat (guarded_creator pcols) c v ord i)"
  "list_all (pred_option guarded_pred) ys \<Longrightarrow>
     pred_option guarded_pred (sk_finish_junction (guarded_creator pcols) jop ys i)"
  by (simp_all add: partial_cmp_min_stat_def partial_cmp_max_stat_def guarded_creator_def
      guarded_min_stat_def guarded_max_stat_def guarded_cmp guarded_collect)

lemma guarded_is_null_shape: "pred_option guarded_pred (guarded_is_null pcols c i)"
  by (simp add: guarded_is_null_def guarded_nullcount_stat_def pred_or_def pred_junction_def
      guarded_pred.guard [where ord = Equal and i = True, unfolded comparison_predicate_def, simplified])

lemma guarded_methods:
  "sk_scalar (guarded_creator pcols) v i = map_option pred_literal (default_eval_pred_scalar v i)"
  "sk_scalar_is_null (guarded_creator pcols) v i = map_option pred_literal (default_eval_pred_scalar_is_null v i)"
  "sk_binary_scalars (guarded_creator pcols) bop v w i =
     map_option pred_literal (default_eval_pred_binary_scalars bop v w i)"
  "sk_is_null (guarded_creator pcols) = guarded_is_null pcols"
  "sk_opaque (guarded_creator pcols) op exprs i = None"
  by (simp_all add: guarded_creator_def)

interpretation guarded_shape: output_invariant "\<lambda>_. True" "\<lambda>pcols. kernel_evaluator (guarded_creator pcols)"
  "\<lambda>_. guarded_pred"
  by unfold_locales
    (simp_all add: kernel_evaluator_def skipping_lt_def skipping_gt_def skipping_eq_def guarded_parts
      guarded_methods guarded_is_null_shape option.pred_map comp_def guarded_pred.literal option.pred_True)

section \<open>Checkpoint row groups\<close>

text \<open>No NULL literal occurs: every part of the predicate was supported by the rewriter.\<close>

definition literal_not_null :: "'op expression \<Rightarrow> bool" where
  "literal_not_null e = (case e of Literal v \<Rightarrow> \<not> scalar_is_null v | _ \<Rightarrow> True)"

fun no_null_literal :: "'op predicate \<Rightarrow> bool" where
  "no_null_literal (BooleanExpression e) = literal_not_null e"
| "no_null_literal (NotP p) = no_null_literal p"
| "no_null_literal (BinaryP _ a b) = (literal_not_null a \<and> literal_not_null b)"
| "no_null_literal (Junction _ ps) = (\<forall>p \<in> set ps. no_null_literal p)"
| "no_null_literal _ = True"

text \<open>
  The statistics columns of a checkpoint have one type, which the footer's minimum and maximum
  have too, and hold no NaN.
\<close>

definition footer_typed :: "parquet_stats \<Rightarrow> (column_name \<Rightarrow> scalar option) \<Rightarrow> bool" where
  "footer_typed S s \<longleftrightarrow>
     (\<forall>c w dt m. s c = Some w \<longrightarrow> \<not> scalar_is_null w \<longrightarrow>
        get_parquet_min_stat S c dt = Some m \<or> get_parquet_max_stat S c dt = Some m \<longrightarrow>
        usable w \<and> scalar_data_type w = dt)"

lemma comparable:
  "usable a \<Longrightarrow> usable b \<Longrightarrow> scalar_data_type a = scalar_data_type b \<Longrightarrow> \<exists>c. logical_partial_cmp a b = Some c"
  by (cases a; cases b) (auto simp: usable_def logical_partial_cmp_def float_partial_cmp_def split: if_splits)

lemma cmp_usable: "logical_partial_cmp m v = Some c \<Longrightarrow> usable m \<and> usable v"
  using cmp_self [of m v c] cmp_self [of v m "reverse c"] lcmp.flip [of v m] by (simp add: usable_def)

lemma weaker_junction_list:
  "list_all2 weaker xs ys \<Longrightarrow> weaker (default_finish_junction op xs i) (default_finish_junction op ys i)"
  unfolding weaker_def list_all2_conv_all_nth
  by (auto simp: default_finish_junction_False in_set_conv_nth split: if_splits) (metis nth_mem)+

fun comparison_op :: "ordering \<Rightarrow> binary_predicate_op" where
  "comparison_op Less = LessThan"
| "comparison_op Equal = EqualTo"
| "comparison_op Greater = GreaterThan"

lemma comparison_sql_where:
  "eval_pred_sql_where E (comparison_predicate ord (Column c) v i) False =
     ev_finish_junction E And [ev_is_null E c True, ev_scalar_is_null E v True,
       eval_pred_binary E (comparison_op ord) (Column c) (Literal v) i] False"
  by (cases ord; cases i) (simp_all add: comparison_predicate_def pred_constructors eval_pred_unary_def)

lemma resolve_stat_cmp: "resolve_binary s (comparison_op ord) c v i = stat_cmp ord (s c) v i"
  by (cases ord; cases "s c")
    (simp_all add: resolve_binary_def stat_cmp_def default_eval_pred_binary_scalars_def)

lemma parquet_methods:
  "ev_is_null (kernel_evaluator (parquet_evaluator os S)) = parquet_is_null S"
  "ev_scalar_is_null (kernel_evaluator (parquet_evaluator os S)) = default_eval_pred_scalar_is_null"
  "ev_scalar (kernel_evaluator (parquet_evaluator os S)) = default_eval_pred_scalar"
  "ev_finish_junction (kernel_evaluator (parquet_evaluator os S)) = default_finish_junction"
  "sk_finish_junction (parquet_evaluator os S) = default_finish_junction"
  by (simp_all add: kernel_evaluator_def parquet_evaluator_def)

lemma parquet_stat_cmp:
  "partial_cmp_min_stat (parquet_evaluator os S) c v ord i =
     stat_cmp ord (get_parquet_min_stat S c (scalar_data_type v)) v i"
  "partial_cmp_max_stat (parquet_evaluator os S) c v ord i =
     stat_cmp ord (get_parquet_max_stat S c (scalar_data_type v)) v i"
  by (simp_all add: partial_cmp_min_stat_def partial_cmp_max_stat_def parquet_evaluator_def stat_cmp_def
      cong: option.case_cong)

lemma stat_cmp_defined: "stat_cmp ord st v i = Some b \<Longrightarrow> \<exists>m o'. st = Some m \<and> logical_partial_cmp m v = Some o'"
  by (auto simp: stat_cmp_def partial_cmp_scalars_def split: option.splits)

text \<open>A comparison over the footer that yields FALSE used a statistic comparable with the literal.\<close>

lemma parquet_comparison_defined:
  assumes "eval_pred_binary (kernel_evaluator (parquet_evaluator os S)) (comparison_op ord) (Column c) (Literal v) i =
    Some False"
  shows "\<exists>m o'. (get_parquet_min_stat S c (scalar_data_type v) = Some m \<or>
      get_parquet_max_stat S c (scalar_data_type v) = Some m) \<and> logical_partial_cmp m v = Some o'"
  using assms
  by (cases ord; cases i)
    (auto simp: eval_pred_binary_def kernel_evaluator_def skipping_lt_def skipping_gt_def skipping_eq_def
      parquet_methods parquet_stat_cmp default_finish_junction_False
      dest!: stat_cmp_defined stat_cmp_defined [OF sym])

lemma parquet_comparison_sound:
  assumes "stats_cover S files" "s \<in> set files"
  shows "sound (eval_pred_binary (kernel_evaluator (parquet_evaluator os S)) (comparison_op ord) (Column c) (Literal v) i)
    (stat_cmp ord (s c) v i)"
proof -
  let ?os = "(\<lambda>_ _ _ _. None) :: parquet_stats \<Rightarrow> unit \<Rightarrow> unit expression list \<Rightarrow> bool \<Rightarrow> bool option"
  let ?x = "\<lparr> rg_ops = no_opaque, rg_opaque_skip = ?os, rg_stats = S, rg_rows = files, rg_row = s \<rparr>"
  have "row_group_ok ?x" using assms by (simp add: row_group_ok_def opaque_skip_ok_def)
  then have "sound (eval_pred_binary (kernel_evaluator (parquet_evaluator ?os S)) (comparison_op ord) (Column c) (Literal v) i)
      (resolve_binary s (comparison_op ord) c v i)"
    using row_group.binary [of ?x "comparison_op ord" "Column c" "Literal v" i]
    by (cases ord) (simp_all add: eval_pred_binary_def)
  moreover have "eval_pred_binary (kernel_evaluator (parquet_evaluator os S)) (comparison_op ord) (Column c) (Literal v) i =
      eval_pred_binary (kernel_evaluator (parquet_evaluator ?os S)) (comparison_op ord) (Column c) (Literal v) i"
    by (cases ord) (simp_all add: eval_pred_binary_def kernel_evaluator_def skipping_lt_def skipping_gt_def
        skipping_eq_def parquet_methods parquet_stat_cmp)
  ultimately show ?thesis by (simp add: resolve_stat_cmp)
qed

text \<open>When the footer refutes a guard, no statistic of the row group is NULL and all refute it.\<close>

lemma guard_refuted:
  assumes cover: "stats_cover S files" "s \<in> set files" and typed: "footer_typed S s" and v: "\<not> scalar_is_null v"
    and n: "parquet_is_null S c False = Some False"
    and cmp: "eval_pred_sql_where (kernel_evaluator (parquet_evaluator os S))
      (comparison_predicate ord (Column c) v i) False = Some False"
  shows "ev_is_null (default_evaluator ops s) c False = Some False" "stat_cmp ord (s c) v i = Some False"
proof -
  let ?bin = "eval_pred_binary (kernel_evaluator (parquet_evaluator os S)) (comparison_op ord) (Column c) (Literal v) i"
  have zero: "get_parquet_nullcount_stat S c = Some 0"
    using n by (auto simp: parquet_is_null_def split: option.splits)
  then have "s c \<noteq> None \<and> unat (0 :: 64 word) = null_rows c files"
    using cover unfolding stats_cover_def by blast
  then have present: "s c \<noteq> None" and nulls: "null_rows c files = 0" by auto
  then obtain w where w: "s c = Some w" "\<not> scalar_is_null w"
    using cover(2) by (auto simp: null_rows_def filter_empty_conv)
  then show "ev_is_null (default_evaluator ops s) c False = Some False"
    by (simp add: default_eval_pred_scalar_is_null_def)
  have "get_parquet_rowcount_stat S \<noteq> 0"
    using cover by (auto simp: stats_cover_def)
  then have "parquet_is_null S c True = Some True" using zero by (simp add: parquet_is_null_def)
  then have bin: "?bin = Some False"
    using cmp v
    by (simp add: comparison_sql_where parquet_methods default_finish_junction_False
        default_eval_pred_scalar_is_null_def)
  obtain m o' where m: "get_parquet_min_stat S c (scalar_data_type v) = Some m \<or>
      get_parquet_max_stat S c (scalar_data_type v) = Some m" "logical_partial_cmp m v = Some o'"
    using parquet_comparison_defined [OF bin] by blast
  then have "usable w" "scalar_data_type w = scalar_data_type v" "usable v"
    using typed w cmp_usable [OF m(2)] by (auto simp: footer_typed_def)
  then have "stat_cmp ord (s c) v i \<noteq> None"
    using comparable [of w v] w by (auto simp: stat_cmp_def partial_cmp_scalars_def)
  then show "stat_cmp ord (s c) v i = Some False"
    using parquet_comparison_sound [OF cover, of os ord c v i] bin by (auto simp: sound_def)
qed

lemma guarded_pred_footer:
  fixes os :: "parquet_stats \<Rightarrow> 'op \<Rightarrow> 'op expression list \<Rightarrow> bool \<Rightarrow> bool option" and q :: "'op predicate"
  assumes cover: "stats_cover S files" "s \<in> set files" "footer_typed S s"
    and "guarded_pred q" "no_null_literal q"
  shows "weaker (eval_pred_sql_where (kernel_evaluator (parquet_evaluator os S)) q False)
    (eval_pred (default_evaluator ops s) q False)"
  using assms(4,5)
proof (induction rule: guarded_pred.induct)
  case (literal b)
  then show ?case by (simp add: pred_literal_def parquet_methods)
next
  case null
  then show ?case by (simp add: pred_null_literal_def literal_not_null_def)
next
  case (guard c ord v i)
  then have v: "\<not> scalar_is_null v"
    by (cases ord; cases i) (simp_all add: comparison_predicate_def pred_constructors literal_not_null_def)
  show ?case
    using guard_refuted [OF cover v, of c os ord i]
    by (auto simp: weaker_def pred_is_null_def parquet_methods default_finish_junction_False
        eval_pred_unary_def comparison_sem simp del: default_evaluator_simps(3))
next
  case (junction qs op)
  then have "list_all2 weaker (map (\<lambda>q. eval_pred_sql_where (kernel_evaluator (parquet_evaluator os S)) q False) qs)
      (map (\<lambda>q. eval_pred (default_evaluator ops s) q False) qs)"
    by (simp add: list_all2_map1 list_all2_map2 list_all2_same)
  then show ?case
    by (simp add: parquet_methods weaker_junction_list)
qed

text \<open>
  C5. Skipping row groups of a checkpoint is sound for supported predicates: let the guarded
  predicate of a query have no NULL literal. When the row group filter drops a row group of the
  checkpoint whose footer describes the statistics of the files listed in it, no row of any of
  these files satisfies the query's predicate.
\<close>

theorem checkpoint_skipping_sound:
  assumes q: "as_checkpoint_skipping_predicate p pcols = Some q" "no_null_literal q"
    and drop: "\<not> row_group_apply opaque_skip S q"
    and cover: "stats_cover S files" "stats \<in> set files" "footer_typed S stats"
    and data: "file_stats_ok [] pcols stats rows" "r \<in> set rows"
  shows "eval_pred (default_evaluator ops r) p False \<noteq> Some True"
proof -
  let ?x = "\<lparr> fs_ops = ops, fs_rewrite = \<lambda>_ _ _. None, fs_pcols = pcols, fs_stats = stats,
    fs_rows = rows, fs_row = r \<rparr>"
  have "guarded_pred q"
    using guarded_shape.eval_pred_inv(1) [of pcols p False] q(1) by (simp add: as_checkpoint_skipping_predicate_def)
  then have "eval_pred (default_evaluator ops stats) q False = Some False"
    using guarded_pred_footer [OF cover, of q opaque_skip ops] q(2) drop
    by (simp add: row_group_apply_def eval_sql_where_def weaker_def)
  moreover have "guarded_ok ?x" using data by (simp add: guarded_ok_def)
  ultimately show ?thesis
    using guarded.eval_pred_sound(1) [of ?x p False] q(1)
    by (auto simp: as_checkpoint_skipping_predicate_def stats_sem_def sound_def)
qed

definition ex_checkpoint_row :: "column_name \<Rightarrow> scalar option" where
  "ex_checkpoint_row c = ex_file_stats (''stats_parsed'' # c)"

definition ex_footer :: parquet_stats where
  "ex_footer = \<lparr> get_parquet_min_stat = \<lambda>_ _. None,
     get_parquet_max_stat = \<lambda>c t. if c = [''maxValues'', ''a''] \<and> t = Primitive PByte then Some (Byte 9) else None,
     get_parquet_nullcount_stat = \<lambda>c. if c = [''maxValues'', ''a''] then Some 0 else None,
     get_parquet_rowcount_stat = 1 \<rparr>"

lemma ex_footer_cover: "stats_cover ex_footer [ex_checkpoint_row]" "footer_typed ex_footer ex_checkpoint_row"
  by (auto simp: stats_cover_def ex_footer_def ex_checkpoint_row_def ex_file_stats_def null_rows_def
      lcmp.below_def logical_partial_cmp_def cmp_def footer_typed_def usable_def split: if_splits)

lemma ex_guarded_shape:
  "as_checkpoint_skipping_predicate (pred_gt (Column [''a'']) (Literal (Byte 20))) [] =
     Some (Junction Or [pred_is_null (Column [''maxValues'', ''a'']),
       pred_gt (Column [''maxValues'', ''a'']) (Literal (Byte 20))])"
  by (simp add: as_checkpoint_skipping_predicate_def pred_gt_def kernel_evaluator_def
      eval_pred_binary_def skipping_gt_def partial_cmp_max_stat_def guarded_creator_def
      guarded_max_stat_def is_partition_column_def is_timestamp_type_def guarded_partial_cmp_def
      comparison_predicate_def pred_or_def pred_junction_def column_join_def)

theorem checkpoint_skipping_sound_witness:
  "\<not> row_group_apply (\<lambda>_ _ _ _. None) ex_footer (Junction Or [pred_is_null (Column [''maxValues'', ''a'']),
       pred_gt (Column [''maxValues'', ''a'']) (Literal (Byte 20))] :: unit predicate) \<and>
   eval_pred (default_evaluator no_opaque ex_row) (pred_gt (Column [''a'']) (Literal (Byte 20))) False \<noteq> Some True"
proof -
  let ?q = "Junction Or [pred_is_null (Column [''maxValues'', ''a'']),
    pred_gt (Column [''maxValues'', ''a'']) (Literal (Byte 20))] :: unit predicate"
  have drop: "\<not> row_group_apply (\<lambda>_ _ _ _. None) ex_footer ?q"
    by (simp add: row_group_apply_def eval_sql_where_def pred_is_null_def pred_gt_def eval_pred_unary_def
        eval_pred_binary_def parquet_methods kernel_evaluator_def parquet_evaluator_def skipping_gt_def
        partial_cmp_max_stat_def ex_footer_def parquet_is_null_def default_eval_pred_scalar_is_null_def
        partial_cmp_scalars_def logical_partial_cmp_def cmp_def default_finish_junction_def)
  have "no_null_literal ?q"
    by (simp add: pred_is_null_def pred_gt_def literal_not_null_def)
  moreover have "file_stats_ok [] [] ex_checkpoint_row [ex_row]"
    using ex_file_stats_ok by (simp add: file_stats_ok_def ex_checkpoint_row_def)
  ultimately show ?thesis
    using checkpoint_skipping_sound [OF ex_guarded_shape _ drop ex_footer_cover(1) _ ex_footer_cover(2),
        of "[ex_row]" ex_row no_opaque] drop
    by simp
qed

end
