(* ===== verification/TransformSpec.thy ===== *)
theory TransformSpec
  imports Expressions
begin

text \<open>
  Row transforms of a scan: the builder of \<open>Transform\<close> (\<open>expressions/mod.rs\<close>), the parsing of
  partition values and the construction of the per-file transform expression
  (\<open>scan/transform_spec.rs\<close>). A \<open>HashMap\<close> is an association list with at most one entry per key.
\<close>

section \<open>Building transforms\<close>

record 'op transform =
  input_path :: "column_name option"
  field_transforms :: "(string \<times> 'op field_transform) list"
  prepended_fields :: "'op expression list"

definition new_top_level :: "'op transform" where
  "new_top_level = \<lparr> input_path = None, field_transforms = [], prepended_fields = [] \<rparr>"

definition new_nested :: "column_name \<Rightarrow> 'op transform" where
  "new_nested path = new_top_level\<lparr> input_path := Some path \<rparr>"

text \<open>\<open>field_transform\<close>: the entry of a field, created when it is missing, is updated in place.\<close>

definition default_field_transform :: "'op field_transform" where
  "default_field_transform = FieldTransform [] False False"

definition get_field_transform :: "'op transform \<Rightarrow> string \<Rightarrow> 'op field_transform" where
  "get_field_transform t name =
     (case map_of (field_transforms t) name of None \<Rightarrow> default_field_transform | Some ft \<Rightarrow> ft)"

definition update_field_transform ::
  "string \<Rightarrow> ('op field_transform \<Rightarrow> 'op field_transform) \<Rightarrow> 'op transform \<Rightarrow> 'op transform" where
  "update_field_transform name f t =
     t\<lparr> field_transforms := AList.update name (f (get_field_transform t name)) (field_transforms t) \<rparr>"

definition with_dropped_field :: "string \<Rightarrow> 'op transform \<Rightarrow> 'op transform" where
  "with_dropped_field name =
     update_field_transform name (\<lambda>ft. FieldTransform (ft_exprs ft) True (ft_optional ft))"

definition with_dropped_field_if_exists :: "string \<Rightarrow> 'op transform \<Rightarrow> 'op transform" where
  "with_dropped_field_if_exists name =
     update_field_transform name (\<lambda>ft. FieldTransform (ft_exprs ft) True True)"

definition with_replaced_field :: "string \<Rightarrow> 'op expression \<Rightarrow> 'op transform \<Rightarrow> 'op transform" where
  "with_replaced_field name expr =
     update_field_transform name (\<lambda>ft. FieldTransform (ft_exprs ft @ [expr]) True (ft_optional ft))"

definition with_inserted_field :: "string option \<Rightarrow> 'op expression \<Rightarrow> 'op transform \<Rightarrow> 'op transform" where
  "with_inserted_field after expr t =
     (case after of
        Some name \<Rightarrow> update_field_transform name
          (\<lambda>ft. FieldTransform (ft_exprs ft @ [expr]) (ft_is_replace ft) (ft_optional ft)) t
      | None \<Rightarrow> t\<lparr> prepended_fields := prepended_fields t @ [expr] \<rparr>)"

definition is_identity :: "'op transform \<Rightarrow> bool" where
  "is_identity t = (prepended_fields t = [] \<and> field_transforms t = [])"

definition transform_expression :: "'op transform \<Rightarrow> 'op expression" where
  "transform_expression t = TransformE (input_path t) (field_transforms t) (prepended_fields t)"

section \<open>Partition values\<close>

datatype column_mapping_mode = NoMapping | IdMapping | NameMapping

definition physical_name :: "column_mapping_mode \<Rightarrow> struct_field \<Rightarrow> string" where
  "physical_name mode f =
     (case mode of
        NoMapping \<Rightarrow> sf_name f
      | _ \<Rightarrow> (case map_of (sf_metadata f) ''delta.columnMapping.physicalName'' of
                Some (MetaString s) \<Rightarrow> s
              | _ \<Rightarrow> sf_name f))"

datatype 'op field_transform_spec =
    StaticInsert "string option" "'op expression"
  | StaticDrop string
  | GenerateRowId string string
  | MetadataDerivedColumn nat "string option"
  | DynamicColumn nat string "string option"

definition parse_partition_value_raw ::
  "('d, 'dt) scalar_parsers \<Rightarrow> string option \<Rightarrow> data_type \<Rightarrow> scalar delta_result" where
  "parse_partition_value_raw P raw dt =
     (case raw of
        Some v \<Rightarrow>
          (case dt of
             Primitive ty \<Rightarrow> parse_scalar P ty v
           | _ \<Rightarrow> Inl (Generic ''Unexpected partition column type''))
      | None \<Rightarrow> Inr (Null dt))"

definition parse_partition_value ::
  "('d, 'dt) scalar_parsers \<Rightarrow> nat \<Rightarrow> struct_type \<Rightarrow> (string \<times> string) list \<Rightarrow> column_mapping_mode \<Rightarrow>
   (nat \<times> string \<times> scalar) delta_result" where
  "parse_partition_value P field_idx logical_schema partition_values mode =
     (case field_at_index logical_schema field_idx of
        None \<Rightarrow> Inl (InternalError ''out of bounds partition column field index'')
      | Some field \<Rightarrow>
          (let name = physical_name mode field in
           rbind (parse_partition_value_raw P (map_of partition_values name) (sf_data_type field))
             (\<lambda>v. Inr (field_idx, name, v))))"

text \<open>The \<open>filter_map\<close> of \<open>parse_partition_values\<close>: the metadata-derived columns of a spec.\<close>

fun metadata_indices :: "'op field_transform_spec list \<Rightarrow> nat list" where
  "metadata_indices [] = []"
| "metadata_indices (MetadataDerivedColumn i _ # spec) = i # metadata_indices spec"
| "metadata_indices (_ # spec) = metadata_indices spec"

definition parse_partition_values ::
  "('d, 'dt) scalar_parsers \<Rightarrow> struct_type \<Rightarrow> 'op field_transform_spec list \<Rightarrow> (string \<times> string) list \<Rightarrow>
   column_mapping_mode \<Rightarrow> (nat \<times> string \<times> scalar) list delta_result" where
  "parse_partition_values P logical_schema spec partition_values mode =
     rbind (collect_results (map (\<lambda>i. parse_partition_value P i logical_schema partition_values mode)
              (metadata_indices spec)))
       (\<lambda>vs. Inr (foldl (\<lambda>m (i, v). AList.update i v m) [] vs))"

section \<open>The transform of a file\<close>

text \<open>
  The loop of \<open>get_transform_expr\<close>; \<open>metadata_values.remove\<close> takes a partition value out of the
  map, so that each is used once.
\<close>

fun transform_loop ::
  "'op field_transform_spec list \<Rightarrow> struct_type \<Rightarrow> 64 word option \<Rightarrow> (nat \<times> string \<times> scalar) list \<Rightarrow>
   'op transform \<Rightarrow> 'op transform delta_result" where
  "transform_loop [] physical_schema base_row_id metadata t = Inr t"
| "transform_loop (StaticInsert after expr # spec) physical_schema base_row_id metadata t =
     transform_loop spec physical_schema base_row_id metadata (with_inserted_field after expr t)"
| "transform_loop (StaticDrop name # spec) physical_schema base_row_id metadata t =
     transform_loop spec physical_schema base_row_id metadata (with_dropped_field name t)"
| "transform_loop (GenerateRowId name row_index # spec) physical_schema base_row_id metadata t =
     (case base_row_id of
        None \<Rightarrow> Inl (Generic ''Asked to generate RowIds, but no baseRowId found.'')
      | Some b \<Rightarrow>
          transform_loop spec physical_schema base_row_id metadata
            (with_replaced_field name
               (VariadicE Coalesce [Column [name], BinaryE Plus (Literal (Long b)) (Column [row_index])]) t))"
| "transform_loop (MetadataDerivedColumn i after # spec) physical_schema base_row_id metadata t =
     (case map_of metadata i of
        None \<Rightarrow> Inl (MissingData ''missing partition value for field index'')
      | Some (_, v) \<Rightarrow>
          transform_loop spec physical_schema base_row_id (AList.delete i metadata)
            (with_inserted_field after (Literal v) t))"
| "transform_loop (DynamicColumn i name after # spec) physical_schema base_row_id metadata t =
     (if struct_field_named physical_schema name \<noteq> None
      then transform_loop spec physical_schema base_row_id metadata
             (with_inserted_field after (Column [name]) (with_dropped_field name t))
      else (case map_of metadata i of
              None \<Rightarrow> Inl (MissingData ''missing partition value for dynamic column'')
            | Some (_, v) \<Rightarrow>
                transform_loop spec physical_schema base_row_id (AList.delete i metadata)
                  (with_inserted_field after (Literal v) t)))"

definition get_transform_expr ::
  "'op field_transform_spec list \<Rightarrow> (nat \<times> string \<times> scalar) list \<Rightarrow> struct_type \<Rightarrow> 64 word option \<Rightarrow>
   'op expression delta_result" where
  "get_transform_expr spec metadata physical_schema base_row_id =
     rbind (transform_loop spec physical_schema base_row_id metadata new_top_level)
       (\<lambda>t. Inr (transform_expression t))"

end
