(* ===== verification/LogReplay.thy ===== *)
theory LogReplay
  imports TransformSpec
begin

text \<open>
  Log replay: the keys of file actions, the two deduplicators and the iteration of a processor
  over batches (\<open>log_replay.rs\<close>, \<open>log_replay/deduplicator.rs\<close>). Batches come newest first. The
  locale \<open>deduplicator_laws\<close> is the contract the replay visitors rely on; the reference
  \<open>newest_first\<close> says which file actions survive, and \<open>table_state\<close> is the state an oldest-first
  application of the same actions reaches.
\<close>

section \<open>Engine data\<close>

text \<open>
  A column as the row visitors see it (\<open>GetData\<close>): a getter may fail, and a NULL is \<open>None\<close>. What
  an engine's batch gives for a list of column names is part of the batch.
\<close>

record getter =
  get_str :: "nat \<Rightarrow> string option delta_result"
  get_int :: "nat \<Rightarrow> 32 word option delta_result"
  get_long :: "nat \<Rightarrow> 64 word option delta_result"
  get_bool :: "nat \<Rightarrow> bool option delta_result"
  get_map :: "nat \<Rightarrow> (string \<times> string) list option delta_result"
  get_list :: "nat \<Rightarrow> string list option delta_result"

record engine_data =
  ed_len :: nat
  ed_getters :: "column_name list \<Rightarrow> getter list delta_result"

text \<open>\<open>TypedGetData::get\<close>: a NULL in a required column is an error.\<close>

definition get_required :: "'a option delta_result \<Rightarrow> 'a delta_result" where
  "get_required r = rbind r (\<lambda>x. ok_or x (MissingData ''Data missing for field''))"

record filtered_data =
  fd_data :: engine_data
  fd_selection :: "bool list"

definition filtered_data_try_new :: "engine_data \<Rightarrow> bool list \<Rightarrow> filtered_data delta_result" where
  "filtered_data_try_new d sel =
     (if ed_len d < length sel
      then Inl (InvalidSelectionVector ''Selection vector is larger than data length'')
      else Inr \<lparr> fd_data = d, fd_selection = sel \<rparr>)"

definition filtered_has_selected_rows :: "filtered_data \<Rightarrow> bool" where
  "filtered_has_selected_rows fd \<longleftrightarrow>
     length (fd_selection fd) < ed_len (fd_data fd) \<or> True \<in> set (fd_selection fd)"

section \<open>File action keys\<close>

datatype file_action_key = FileActionKey (key_path: string) (key_dv_unique_id: "string option")

definition unique_id_from_parts :: "string \<Rightarrow> string \<Rightarrow> 32 word option \<Rightarrow> string" where
  "unique_id_from_parts storage_type path_or_inline offset =
     (case offset of
        Some off \<Rightarrow> storage_type @ path_or_inline @ ''@'' @ show_int (sint off)
      | None \<Rightarrow> storage_type @ path_or_inline)"

definition extract_dv_unique_id :: "getter list \<Rightarrow> nat \<Rightarrow> nat \<Rightarrow> string option delta_result" where
  "extract_dv_unique_id getters i dv_start_index =
     rbind (get_str (getters ! dv_start_index) i) (\<lambda>st.
       case st of
         None \<Rightarrow> Inr None
       | Some storage_type \<Rightarrow>
           rbind (get_required (get_str (getters ! (dv_start_index + 1)) i)) (\<lambda>path_or_inline.
           rbind (get_int (getters ! (dv_start_index + 2)) i) (\<lambda>offset.
           Inr (Some (unique_id_from_parts storage_type path_or_inline offset)))))"

section \<open>Deduplicators\<close>

text \<open>The trait \<open>Deduplicator\<close>; its mutable state is the set of keys seen so far.\<close>

record deduplicator =
  extract_file_action :: "nat \<Rightarrow> getter list \<Rightarrow> bool \<Rightarrow> (file_action_key \<times> bool) option delta_result"
  check_and_record_seen :: "file_action_key \<Rightarrow> file_action_key set \<Rightarrow> bool \<times> file_action_key set"
  is_log_batch :: bool

definition extract_add_or_remove ::
  "nat \<Rightarrow> nat \<Rightarrow> nat \<Rightarrow> nat \<Rightarrow> nat \<Rightarrow> getter list \<Rightarrow> bool \<Rightarrow> (file_action_key \<times> bool) option delta_result" where
  "extract_add_or_remove add_path remove_path add_dv_start remove_dv_start i getters skip_removes =
     rbind (get_str (getters ! add_path) i) (\<lambda>add.
       case add of
         Some p \<Rightarrow> rbind (extract_dv_unique_id getters i add_dv_start) (\<lambda>dv. Inr (Some (FileActionKey p dv, True)))
       | None \<Rightarrow>
           if skip_removes then Inr None
           else rbind (get_str (getters ! remove_path) i) (\<lambda>remove.
             case remove of
               Some p \<Rightarrow> rbind (extract_dv_unique_id getters i remove_dv_start)
                           (\<lambda>dv. Inr (Some (FileActionKey p dv, False)))
             | None \<Rightarrow> Inr None))"

definition file_action_deduplicator :: "bool \<Rightarrow> nat \<Rightarrow> nat \<Rightarrow> nat \<Rightarrow> nat \<Rightarrow> deduplicator" where
  "file_action_deduplicator is_log add_path remove_path add_dv_start remove_dv_start =
     \<lparr> extract_file_action = extract_add_or_remove add_path remove_path add_dv_start remove_dv_start,
       check_and_record_seen = (\<lambda>key seen.
         if key \<in> seen then (True, seen) else (False, if is_log then insert key seen else seen)),
       is_log_batch = is_log \<rparr>"

definition checkpoint_deduplicator :: "nat \<Rightarrow> nat \<Rightarrow> deduplicator" where
  "checkpoint_deduplicator add_path add_dv_start =
     \<lparr> extract_file_action = (\<lambda>i getters _.
         rbind (get_str (getters ! add_path) i) (\<lambda>add.
           case add of
             None \<Rightarrow> Inr None
           | Some p \<Rightarrow> rbind (extract_dv_unique_id getters i add_dv_start)
                         (\<lambda>dv. Inr (Some (FileActionKey p dv, True))))),
       check_and_record_seen = (\<lambda>key seen. (key \<in> seen, seen)),
       is_log_batch = False \<rparr>"

text \<open>The contract: duplicates are the keys seen, and only a log batch records new keys.\<close>

locale deduplicator_laws =
  fixes D :: deduplicator
  assumes duplicate: "fst (check_and_record_seen D key seen) \<longleftrightarrow> key \<in> seen"
    and recorded: "snd (check_and_record_seen D key seen) = (if is_log_batch D then insert key seen else seen)"
    and checkpoint_adds_only:
      "\<not> is_log_batch D \<Longrightarrow> extract_file_action D i getters True = Inr (Some (key, is_add)) \<Longrightarrow> is_add"

lemma extract_skip_removes:
  "extract_add_or_remove a r ad rd i getters True = Inr (Some (key, is_add)) \<Longrightarrow> is_add"
  by (auto simp: extract_add_or_remove_def result_simps split: option.splits)

interpretation log_dedup: deduplicator_laws "file_action_deduplicator is_log a r ad rd" for is_log a r ad rd
  by unfold_locales
    (auto simp: file_action_deduplicator_def insert_absorb dest: extract_skip_removes)

interpretation checkpoint_dedup: deduplicator_laws "checkpoint_deduplicator a ad" for a ad
  by unfold_locales
    (auto simp: checkpoint_deduplicator_def result_simps split: option.splits)

section \<open>Processing batches\<close>

record actions_batch =
  ab_actions :: engine_data
  ab_is_log_batch :: bool

text \<open>
  \<open>process_actions_iter\<close>: the processor's state goes from batch to batch, an error of the input
  or of a batch is passed on, a result without selected rows is dropped.
\<close>

fun process_actions_iter ::
  "('s \<Rightarrow> 'b \<Rightarrow> 'o delta_result \<times> 's) \<Rightarrow> ('o \<Rightarrow> bool) \<Rightarrow> 's \<Rightarrow> 'b delta_result list \<Rightarrow> 'o delta_result list" where
  "process_actions_iter f has_selected s [] = []"
| "process_actions_iter f has_selected s (Inl e # bs) = Inl e # process_actions_iter f has_selected s bs"
| "process_actions_iter f has_selected s (Inr b # bs) =
     (case f s b of
        (r, s') \<Rightarrow>
          (if (case r of Inl _ \<Rightarrow> True | Inr out \<Rightarrow> has_selected out)
           then r # process_actions_iter f has_selected s' bs
           else process_actions_iter f has_selected s' bs))"

definition build_selection_vector ::
  "(engine_data \<Rightarrow> bool list delta_result) option \<Rightarrow> engine_data \<Rightarrow> bool list delta_result" where
  "build_selection_vector flt batch =
     (case flt of Some apply_filter \<Rightarrow> apply_filter batch | None \<Rightarrow> Inr (replicate (ed_len batch) True))"

section \<open>Newest first and oldest first\<close>

text \<open>
  A file event of a row: whether the row is from a log batch, and its key with \<open>True\<close> for an add.
  \<open>newest_first\<close> is what deduplication selects and the keys it has seen at the end.
\<close>

type_synonym file_event = "bool \<times> (file_action_key \<times> bool) option"

fun newest_first :: "file_action_key set \<Rightarrow> file_event list \<Rightarrow> bool list \<times> file_action_key set" where
  "newest_first seen [] = ([], seen)"
| "newest_first seen ((is_log, None) # es) =
     (case newest_first seen es of (sel, seen') \<Rightarrow> (False # sel, seen'))"
| "newest_first seen ((is_log, Some (k, is_add)) # es) =
     (case newest_first (if is_log then insert k seen else seen) es of
        (sel, seen') \<Rightarrow> ((is_add \<and> k \<notin> seen) # sel, seen'))"

definition logged_keys :: "file_event list \<Rightarrow> file_action_key set" where
  "logged_keys es = {k. \<exists>is_add. (True, Some (k, is_add)) \<in> set es}"

lemma logged_keys_simps [simp]:
  "logged_keys [] = {}"
  "logged_keys ((l, None) # es) = logged_keys es"
  "logged_keys ((l, Some (k, a)) # es) = (if l then insert k (logged_keys es) else logged_keys es)"
  by (auto simp: logged_keys_def)

lemma logged_keys_append [simp]: "logged_keys (es @ fs) = logged_keys es \<union> logged_keys fs"
  by (auto simp: logged_keys_def)

lemma newest_first_parts [simp]:
  "fst (newest_first seen []) = []"
  "fst (newest_first seen ((l, None) # es)) = False # fst (newest_first seen es)"
  "fst (newest_first seen ((l, Some (k, a)) # es)) =
     (a \<and> k \<notin> seen) # fst (newest_first (if l then insert k seen else seen) es)"
  "snd (newest_first seen []) = seen"
  "snd (newest_first seen ((l, None) # es)) = snd (newest_first seen es)"
  "snd (newest_first seen ((l, Some (k, a)) # es)) =
     snd (newest_first (if l then insert k seen else seen) es)"
  by (simp_all split: prod.splits)

declare newest_first.simps [simp del]

lemma newest_first_seen: "snd (newest_first seen es) = seen \<union> logged_keys es"
  by (induction seen es rule: newest_first.induct) simp_all

lemma newest_first_length [simp]: "length (fst (newest_first seen es)) = length es"
  by (induction seen es rule: newest_first.induct) simp_all

lemma newest_first_append:
  "fst (newest_first seen (es @ fs)) =
     fst (newest_first seen es) @ fst (newest_first (seen \<union> logged_keys es) fs)"
  by (induction seen es rule: newest_first.induct) simp_all

text \<open>A row is selected when it is an add whose key no newer logged action has.\<close>

lemma newest_first_nth:
  "i < length es \<Longrightarrow> fst (newest_first seen es) ! i \<longleftrightarrow>
     (\<exists>l k. es ! i = (l, Some (k, True)) \<and> k \<notin> seen \<and> k \<notin> logged_keys (take i es))"
proof (induction seen es arbitrary: i rule: newest_first.induct)
  case (2 seen is_log es)
  then show ?case by (cases i) auto
next
  case (3 seen is_log k is_add es)
  then show ?case by (cases i) auto
qed simp

text \<open>
  The state of the table: the actions applied oldest first, an add registers its row under its
  key, a remove deletes the key. The list is newest first, so the recursion applies its tail
  before its head.
\<close>

fun table_state :: "((file_action_key \<times> bool) option \<times> 'r) list \<Rightarrow> file_action_key \<Rightarrow> 'r option" where
  "table_state [] = Map.empty"
| "table_state ((None, r) # es) = table_state es"
| "table_state ((Some (k, is_add), r) # es) = (table_state es)(k := if is_add then Some r else None)"

text \<open>
  A well-formed log: log batches before checkpoint batches, and a checkpoint that is reconciled:
  adds only, each key once.
\<close>

definition checkpoint_reconciled :: "(file_action_key \<times> bool) option list \<Rightarrow> bool" where
  "checkpoint_reconciled es \<longleftrightarrow>
     (\<forall>k. (Some (k, False)) \<notin> set es) \<and>
     (\<forall>i < length es. \<forall>j < length es. \<forall>k. es ! i = Some (k, True) \<longrightarrow> es ! j = Some (k, True) \<longrightarrow> i = j)"

lemma table_state_Some:
  "table_state es k = Some r \<longleftrightarrow>
     (\<exists>i < length es. es ! i = (Some (k, True), r) \<and> (\<forall>j < i. \<forall>a. fst (es ! j) \<noteq> Some (k, a)))"
proof (induction es rule: table_state.induct)
  case (2 r' es)
  then show ?case by (auto simp: Ex_less_Suc2 All_less_Suc2)
next
  case (3 k' is_add r' es)
  show ?case
  proof (cases "k' = k")
    case True
    then show ?thesis by (auto simp: Ex_less_Suc2 All_less_Suc2)
  next
    case False
    then show ?thesis using 3 by (auto simp: Ex_less_Suc2 All_less_Suc2)
  qed
qed simp

lemma logged_keys_take:
  "k \<in> logged_keys (take i es) \<longleftrightarrow> (\<exists>j < i. j < length es \<and> (\<exists>a. es ! j = (True, Some (k, a))))"
  by (auto simp: logged_keys_def in_set_conv_nth) (metis nth_take)

lemma table_state_indexed:
  assumes "i < length xs"
  shows "table_state (zip xs [0..<length xs]) k = Some i \<longleftrightarrow>
    xs ! i = Some (k, True) \<and> (\<forall>j < i. \<forall>a. xs ! j \<noteq> Some (k, a))"
proof -
  have "zip xs [0..<length xs] ! j = (xs ! j, j)" if "j < length xs" for j
    using that by simp
  then show ?thesis using assms by (auto simp: table_state_Some)
qed

text \<open>
  Deduplicating newest first reaches the same files as applying the log oldest first: a row is
  selected exactly when it is the add that the table state holds for its key.
\<close>

lemma newest_first_table_state:
  assumes cp: "checkpoint_reconciled cps" and es: "es = map (Pair True) logs @ map (Pair False) cps"
    and i: "i < length es"
  shows "fst (newest_first {} es) ! i \<longleftrightarrow>
    (\<exists>k. table_state (zip (logs @ cps) [0..<length es]) k = Some i)"
proof -
  let ?all = "logs @ cps"
  have nth: "es ! j = (j < length logs, ?all ! j)" if "j < length es" for j
    using that es by (auto simp: nth_append)
  have len: "length es = length ?all" using es by simp
  have "(\<exists>a. ?all ! j = Some (k, a)) \<longrightarrow> (\<exists>a. es ! j = (True, Some (k, a)))"
    if "j < i" "?all ! i = Some (k, True)" for j k
  proof (cases "j < length logs")
    case False
    then have "cps ! (j - length logs) = ?all ! j" "cps ! (i - length logs) = ?all ! i"
      using that(1) by (simp_all add: nth_append)
    moreover have "j - length logs < length cps" "i - length logs < length cps"
      "j - length logs \<noteq> i - length logs"
      using False that(1) i len by auto
    moreover have "?all ! j \<in> set cps"
      using calculation(1,3) by (metis nth_mem)
    ultimately show ?thesis
      using cp that(2) unfolding checkpoint_reconciled_def by (metis (full_types))
  qed (use that nth i in auto)
  then have "k \<notin> logged_keys (take i es) \<longleftrightarrow> (\<forall>j < i. \<forall>a. ?all ! j \<noteq> Some (k, a))"
    if "?all ! i = Some (k, True)" for k
    using that i nth by (fastforce simp: logged_keys_take)
  then show ?thesis
    using i nth [OF i] len table_state_indexed [of i ?all] by (auto simp: newest_first_nth)
qed

text \<open>
  Pruning before deduplication. \<open>full\<close> are the file actions of the log, \<open>kept\<close> what remains after
  pruning: an action is kept or dropped, and removes are always kept. Then no file that the
  table state lacks is selected, every file of the table state whose newest add is kept is
  selected, and no file is selected twice.
\<close>

definition pruned_log ::
  "(file_action_key \<times> bool) option list \<Rightarrow> (file_action_key \<times> bool) option list \<Rightarrow> bool" where
  "pruned_log full kept \<longleftrightarrow> length kept = length full \<and>
     (\<forall>i < length full. kept ! i = None \<or> kept ! i = full ! i) \<and>
     (\<forall>i < length full. \<forall>k. full ! i = Some (k, False) \<longrightarrow> kept ! i = Some (k, False))"

lemma pruned_log_table_state:
  assumes pr: "pruned_log (logs @ cps) (klogs @ kcps)" and len: "length klogs = length logs"
    and cp: "checkpoint_reconciled cps" and es: "es = map (Pair True) klogs @ map (Pair False) kcps"
    and n: "n = length (logs @ cps)"
  shows "i < n \<Longrightarrow> fst (newest_first {} es) ! i \<Longrightarrow>
      \<exists>k j. (logs @ cps) ! i = Some (k, True) \<and> table_state (zip (logs @ cps) [0..<n]) k = Some j"
    and "i < n \<Longrightarrow> table_state (zip (logs @ cps) [0..<n]) k = Some i \<Longrightarrow>
      (klogs @ kcps) ! i = Some (k, True) \<Longrightarrow> fst (newest_first {} es) ! i"
    and "i < n \<Longrightarrow> j < n \<Longrightarrow> fst (newest_first {} es) ! i \<Longrightarrow> fst (newest_first {} es) ! j \<Longrightarrow>
      (logs @ cps) ! i = (logs @ cps) ! j \<Longrightarrow> i = j"
proof -
  let ?full = "logs @ cps" and ?kept = "klogs @ kcps"
  have les: "length es = n" using es n pr by (simp add: pruned_log_def)
  have nth: "es ! i = (i < length logs, ?kept ! i)" if "i < n" for i
    using that es n len pr by (auto simp: nth_append pruned_log_def)
  have kept: "?kept ! i = None \<or> ?kept ! i = ?full ! i" if "i < n" for i
    using pr that n by (auto simp: pruned_log_def)
  have selected: "fst (newest_first {} es) ! i \<longleftrightarrow> (\<exists>k. ?kept ! i = Some (k, True) \<and>
      (\<forall>j < i. j < length logs \<longrightarrow> (\<forall>a. ?kept ! j \<noteq> Some (k, a))))" if "i < n" for i
    using that nth les by (fastforce simp: newest_first_nth logged_keys_take)
  have no_remove: "?full ! j \<noteq> Some (k, False)" if "j < n" "length logs \<le> j" for j k
    using that cp n by (auto simp: checkpoint_reconciled_def nth_append in_set_conv_nth)
  show "\<exists>k j. ?full ! i = Some (k, True) \<and> table_state (zip ?full [0..<n]) k = Some j"
    if i: "i < n" "fst (newest_first {} es) ! i"
  proof -
    obtain k where k: "?kept ! i = Some (k, True)"
      and newer: "\<And>j a. j < i \<Longrightarrow> j < length logs \<Longrightarrow> ?kept ! j \<noteq> Some (k, a)"
      using selected [OF i(1)] i(2) by auto
    have full: "?full ! i = Some (k, True)" using kept [OF i(1)] k by auto
    let ?P = "\<lambda>j. j < n \<and> (\<exists>a. ?full ! j = Some (k, a))"
    define j where "j = (LEAST j. ?P j)"
    have "?P j" using LeastI [of ?P i] full i(1) j_def by auto
    have "j \<le> i" using Least_le [of ?P i] full i(1) j_def by auto
    have least: "?full ! j' \<noteq> Some (k, a)" if "j' < j" for j' a
      using not_less_Least [of j' ?P] that \<open>?P j\<close> j_def by auto
    have "?full ! j \<noteq> Some (k, False)"
    proof (cases "j < i \<and> j < length logs")
      case True
      then show ?thesis using newer [of j False] pr \<open>?P j\<close> n by (auto simp: pruned_log_def)
    next
      case False
      then show ?thesis using no_remove [of j k] full \<open>j \<le> i\<close> \<open>?P j\<close> by (cases "j = i") auto
    qed
    then have "?full ! j = Some (k, True)" using \<open>?P j\<close> by (metis (full_types))
    then have "table_state (zip ?full [0..<n]) k = Some j"
      using table_state_indexed [of j ?full k] least \<open>?P j\<close> n by auto
    then show ?thesis using full by blast
  qed
  show "fst (newest_first {} es) ! i"
    if "i < n" "table_state (zip ?full [0..<n]) k = Some i" "?kept ! i = Some (k, True)"
  proof -
    have "?full ! j \<noteq> Some (k, a)" if "j < i" for j a
      using that \<open>table_state _ k = Some i\<close> table_state_indexed [of i ?full k] \<open>i < n\<close> n by auto
    then show ?thesis using selected [OF that(1)] that(1,3) kept by (metis (no_types, lifting) less_trans option.distinct(1))
  qed
  show "i = j"
    if ij: "i < n" "j < n" "fst (newest_first {} es) ! i" "fst (newest_first {} es) ! j" "?full ! i = ?full ! j"
  proof -
    have lt: False if l: "i < j" "i < n" "j < n" "fst (newest_first {} es) ! i" "fst (newest_first {} es) ! j"
      "?full ! i = ?full ! j" for i j
    proof -
      obtain k where ki: "?kept ! i = Some (k, True)" using selected [OF l(2)] l(4) by auto
      obtain k' where kj: "?kept ! j = Some (k', True)"
        and newer: "\<And>j' a. j' < j \<Longrightarrow> j' < length logs \<Longrightarrow> ?kept ! j' \<noteq> Some (k', a)"
        using selected [OF l(3)] l(5) by auto
      have full: "?full ! i = Some (k, True)" "?full ! j = Some (k, True)"
        using kept [OF l(2)] ki l(6) by auto
      moreover have "k' = k" using kept [OF l(3)] kj full(2) by simp
      ultimately have li: "length logs \<le> i" using newer [OF l(1), of True] ki by (meson linorder_not_le)
      then have "cps ! (i - length logs) = Some (k, True)" "cps ! (j - length logs) = Some (k, True)"
        "i - length logs < length cps" "j - length logs < length cps"
        using full l(1-3) n by (auto simp: nth_append)
      then have "i - length logs = j - length logs"
        using cp unfolding checkpoint_reconciled_def by blast
      then show False using l(1) li by simp
    qed
    show ?thesis
      using lt [of i j] lt [of j i] ij by (metis linorder_neqE_nat)
  qed
qed

end
