(* ===== verification/ScanReplay.thy ===== *)
theory ScanReplay
  imports LogReplay DataSkipping
begin

text \<open>
  Log replay for scans (\<open>scan/log_replay.rs\<close>): partition pruning, the visitor that turns a batch of
  adds and removes into the selected adds with their row transforms, and the processing of
  batches, sequential and parallel. The main result is that replaying the log newest first
  selects exactly the files of the table state that the pruning keeps.
\<close>

section \<open>State\<close>

datatype 'op physical_predicate =
    PredicateSome "'op predicate" struct_type
  | StaticSkipAll
  | PredicateNone

record 'op state_info =
  logical_schema :: struct_type
  physical_schema :: struct_type
  si_physical_predicate :: "'op physical_predicate"
  transform_spec :: "'op field_transform_spec list option"
  mapping_mode :: column_mapping_mode
  physical_stats_schema :: "struct_type option"
  physical_partition_schema :: "struct_type option"

text \<open>
  \<open>ScanLogReplayProcessor\<close>. The engine's evaluators are functions on batches; the data skipping
  filter is its \<open>apply\<close>.
\<close>

record 'op scan_processor =
  partition_filter :: "'op predicate option"
  data_skipping :: "(engine_data \<Rightarrow> bool list delta_result) option"
  log_transform :: "engine_data \<Rightarrow> engine_data delta_result"
  checkpoint_transform :: "engine_data \<Rightarrow> engine_data delta_result"
  sp_state_info :: "'op state_info"
  seen_file_keys :: "file_action_key set"

definition ADD_PATH_INDEX :: nat where "ADD_PATH_INDEX = 0"
definition ADD_PARTITION_VALUES_INDEX :: nat where "ADD_PARTITION_VALUES_INDEX = 1"
definition ADD_DV_START_INDEX :: nat where "ADD_DV_START_INDEX = 2"
definition BASE_ROW_ID_INDEX :: nat where "BASE_ROW_ID_INDEX = 5"
definition REMOVE_PATH_INDEX :: nat where "REMOVE_PATH_INDEX = 6"
definition REMOVE_DV_START_INDEX :: nat where "REMOVE_DV_START_INDEX = 7"

lemmas scan_indices = ADD_PATH_INDEX_def ADD_PARTITION_VALUES_INDEX_def ADD_DV_START_INDEX_def
  BASE_ROW_ID_INDEX_def REMOVE_PATH_INDEX_def REMOVE_DV_START_INDEX_def

definition scan_column_names :: "bool \<Rightarrow> column_name list" where
  "scan_column_names is_log =
     (let names =
        [[''add'', ''path''], [''add'', ''partitionValues''],
         [''add'', ''deletionVector'', ''storageType''],
         [''add'', ''deletionVector'', ''pathOrInlineDv''],
         [''add'', ''deletionVector'', ''offset''], [''add'', ''baseRowId''],
         [''remove'', ''path''],
         [''remove'', ''deletionVector'', ''storageType''],
         [''remove'', ''deletionVector'', ''pathOrInlineDv''],
         [''remove'', ''deletionVector'', ''offset'']]
      in if is_log then names else take 6 names)"

section \<open>The visitor\<close>

definition is_file_partition_pruned ::
  "'op opaque_ops \<Rightarrow> 'op predicate option \<Rightarrow> (nat \<times> string \<times> scalar) list \<Rightarrow> bool" where
  "is_file_partition_pruned ops flt partition_values =
     (if partition_values = [] then False
      else (case flt of
              None \<Rightarrow> False
            | Some p \<Rightarrow>
                eval_sql_where (default_evaluator ops
                  (map_of (map (\<lambda>(_, k, v). ([k], v)) partition_values))) p = Some False))"

text \<open>
  The partition step of \<open>is_valid_add\<close>: \<open>None\<close> when the add is pruned, otherwise the values for
  the row transform. Removes are never pruned.
\<close>

definition partition_step ::
  "('d, 'dt) scalar_parsers \<Rightarrow> 'op opaque_ops \<Rightarrow> 'op state_info \<Rightarrow> 'op predicate option \<Rightarrow>
   nat \<Rightarrow> getter list \<Rightarrow> bool \<Rightarrow> (nat \<times> string \<times> scalar) list option delta_result" where
  "partition_step P ops info flt i getters is_add =
     (case transform_spec info of
        Some spec \<Rightarrow>
          if is_add
          then rbind (get_required (get_map (getters ! ADD_PARTITION_VALUES_INDEX) i)) (\<lambda>raw.
               rbind (parse_partition_values P (logical_schema info) spec raw (mapping_mode info)) (\<lambda>vals.
               Inr (if is_file_partition_pruned ops flt vals then None else Some vals)))
          else Inr (Some [])
      | None \<Rightarrow> Inr (Some []))"

text \<open>\<open>Vec::resize_with\<close> with the default \<open>None\<close>.\<close>

definition resize_with_none :: "nat \<Rightarrow> 'a option list \<Rightarrow> 'a option list" where
  "resize_with_none n xs = take n xs @ replicate (n - length xs) None"

definition is_valid_add ::
  "('d, 'dt) scalar_parsers \<Rightarrow> 'op opaque_ops \<Rightarrow> deduplicator \<Rightarrow> 'op state_info \<Rightarrow> 'op predicate option \<Rightarrow>
   getter list \<Rightarrow> nat \<Rightarrow> 'op expression option list \<Rightarrow> file_action_key set \<Rightarrow>
   (bool \<times> 'op expression option list) delta_result \<times> file_action_key set" where
  "is_valid_add P ops D info flt getters i exprs seen =
     (case extract_file_action D i getters (\<not> is_log_batch D) of
        Inl e \<Rightarrow> (Inl e, seen)
      | Inr None \<Rightarrow> (Inr (False, exprs), seen)
      | Inr (Some (key, is_add)) \<Rightarrow>
          (case partition_step P ops info flt i getters is_add of
             Inl e \<Rightarrow> (Inl e, seen)
           | Inr None \<Rightarrow> (Inr (False, exprs), seen)
           | Inr (Some partition_values) \<Rightarrow>
               (case check_and_record_seen D key seen of
                  (dup, seen') \<Rightarrow>
                    if dup \<or> \<not> is_add then (Inr (False, exprs), seen')
                    else
                      (rbind (get_long (getters ! BASE_ROW_ID_INDEX) i) (\<lambda>base_row_id.
                        case transform_spec info of
                          None \<Rightarrow> Inr (True, exprs)
                        | Some spec \<Rightarrow>
                            rbind (get_transform_expr spec partition_values (physical_schema info) base_row_id)
                              (\<lambda>t. Inr (True, resize_with_none i exprs @ [Some t]))),
                       seen'))))"

text \<open>The row loop of \<open>visit\<close>; an error ends it and leaves the keys recorded so far.\<close>

fun dedup_loop ::
  "(nat \<Rightarrow> 'e list \<Rightarrow> file_action_key set \<Rightarrow> (bool \<times> 'e list) delta_result \<times> file_action_key set) \<Rightarrow> nat list \<Rightarrow>
   bool list \<Rightarrow> 'e list \<Rightarrow> file_action_key set \<Rightarrow> (bool list \<times> 'e list) delta_result \<times> file_action_key set" where
  "dedup_loop f [] sel exprs seen = (Inr (sel, exprs), seen)"
| "dedup_loop f (i # is) sel exprs seen =
     (if sel ! i
      then (case f i exprs seen of
              (Inl e, seen') \<Rightarrow> (Inl e, seen')
            | (Inr (valid, exprs'), seen') \<Rightarrow> dedup_loop f is (sel[i := valid]) exprs' seen')
      else dedup_loop f is sel exprs seen)"

definition visit_add_remove ::
  "('d, 'dt) scalar_parsers \<Rightarrow> 'op opaque_ops \<Rightarrow> deduplicator \<Rightarrow> 'op state_info \<Rightarrow> 'op predicate option \<Rightarrow>
   engine_data \<Rightarrow> bool list \<Rightarrow> file_action_key set \<Rightarrow>
   (bool list \<times> 'op expression option list) delta_result \<times> file_action_key set" where
  "visit_add_remove P ops D info flt actions sel seen =
     (case ed_getters actions (scan_column_names (is_log_batch D)) of
        Inl e \<Rightarrow> (Inl e, seen)
      | Inr getters \<Rightarrow>
          if length getters \<noteq> (if is_log_batch D then 10 else 6)
          then (Inl (InternalError ''Wrong number of AddRemoveDedupVisitor getters''), seen)
          else dedup_loop (is_valid_add P ops D info flt getters) [0..<ed_len actions] sel [] seen)"

section \<open>Processing a batch\<close>

record 'op scan_metadata =
  scan_files :: filtered_data
  scan_file_transforms :: "'op expression option list"

definition scan_metadata_try_new ::
  "engine_data \<Rightarrow> bool list \<Rightarrow> 'op expression option list \<Rightarrow> 'op scan_metadata delta_result" where
  "scan_metadata_try_new d sel transforms =
     rbind (filtered_data_try_new d sel) (\<lambda>fd. Inr \<lparr> scan_files = fd, scan_file_transforms = transforms \<rparr>)"

definition scan_has_selected_rows :: "'op scan_metadata \<Rightarrow> bool" where
  "scan_has_selected_rows m \<longleftrightarrow> True \<in> set (fd_selection (scan_files m))"

text \<open>Steps 1 and 2, shared by both processors: transform the batch, then apply data skipping.\<close>

definition transform_and_skip ::
  "(engine_data \<Rightarrow> engine_data delta_result) \<Rightarrow> (engine_data \<Rightarrow> bool list delta_result) option \<Rightarrow>
   engine_data \<Rightarrow> (engine_data \<times> bool list) delta_result" where
  "transform_and_skip tr flt actions =
     rbind (tr actions) (\<lambda>transformed.
     rbind (require (ed_len transformed = ed_len actions)
              (InternalError ''transform output length != actions length'')) (\<lambda>_.
     rbind (build_selection_vector flt transformed) (\<lambda>sel.
     rbind (require (length sel = ed_len actions)
              (InternalError ''selection vector length != actions length'')) (\<lambda>_.
     Inr (transformed, sel)))))"

definition scan_process_actions_batch ::
  "('d, 'dt) scalar_parsers \<Rightarrow> 'op opaque_ops \<Rightarrow> 'op scan_processor \<Rightarrow> actions_batch \<Rightarrow>
   'op scan_metadata delta_result \<times> 'op scan_processor" where
  "scan_process_actions_batch P ops self batch =
     (let actions = ab_actions batch; is_log = ab_is_log_batch batch;
          tr = (if is_log then log_transform self else checkpoint_transform self) in
      case transform_and_skip tr (data_skipping self) actions of
        Inl e \<Rightarrow> (Inl e, self)
      | Inr (transformed, sel) \<Rightarrow>
          (case visit_add_remove P ops
                  (file_action_deduplicator is_log ADD_PATH_INDEX REMOVE_PATH_INDEX
                     ADD_DV_START_INDEX REMOVE_DV_START_INDEX)
                  (sp_state_info self) (partition_filter self) actions sel (seen_file_keys self) of
             (r, seen') \<Rightarrow>
               (rbind r (\<lambda>(sel', exprs). scan_metadata_try_new transformed sel' exprs),
                self\<lparr> seen_file_keys := seen' \<rparr>)))"

definition parallel_process_actions_batch ::
  "('d, 'dt) scalar_parsers \<Rightarrow> 'op opaque_ops \<Rightarrow> 'op scan_processor \<Rightarrow> actions_batch \<Rightarrow>
   'op scan_metadata delta_result" where
  "parallel_process_actions_batch P ops self batch =
     rbind (require (\<not> ab_is_log_batch batch)
              (Generic ''Parallel checkpoint processor may only be applied to checkpoint files'')) (\<lambda>_.
     rbind (transform_and_skip (checkpoint_transform self) (data_skipping self) (ab_actions batch))
       (\<lambda>(transformed, sel).
     rbind (fst (visit_add_remove P ops (checkpoint_deduplicator ADD_PATH_INDEX ADD_DV_START_INDEX)
              (sp_state_info self) (partition_filter self) (ab_actions batch) sel (seen_file_keys self)))
       (\<lambda>(sel', exprs). scan_metadata_try_new transformed sel' exprs)))"

definition scan_action_iter ::
  "('d, 'dt) scalar_parsers \<Rightarrow> 'op opaque_ops \<Rightarrow> 'op scan_processor \<Rightarrow> actions_batch delta_result list \<Rightarrow>
   'op scan_metadata delta_result list" where
  "scan_action_iter P ops self batches =
     process_actions_iter (scan_process_actions_batch P ops) scan_has_selected_rows self batches"

section \<open>The parallel processor\<close>

text \<open>Without removes the two deduplicators are the same.\<close>

lemma checkpoint_extract:
  "extract_file_action (file_action_deduplicator False a r ad rd) i getters True =
     extract_file_action (checkpoint_deduplicator a ad) i getters b"
  by (simp add: file_action_deduplicator_def checkpoint_deduplicator_def extract_add_or_remove_def
      cong: option.case_cong)

lemma checkpoint_check:
  "check_and_record_seen (file_action_deduplicator False a r ad rd) =
     check_and_record_seen (checkpoint_deduplicator a ad)"
  by (auto simp: file_action_deduplicator_def checkpoint_deduplicator_def fun_eq_iff)

lemma dedup_is_log [simp]:
  "is_log_batch (file_action_deduplicator l a r ad rd) = l"
  "is_log_batch (checkpoint_deduplicator a ad) = False"
  by (simp_all add: file_action_deduplicator_def checkpoint_deduplicator_def)

lemma is_valid_add_checkpoint:
  "is_valid_add P ops (file_action_deduplicator False a r ad rd) info flt =
     is_valid_add P ops (checkpoint_deduplicator a ad) info flt"
  by (intro ext) (simp only: is_valid_add_def checkpoint_extract [where b = True] checkpoint_check dedup_is_log
      simp_thms)

lemma visit_checkpoint:
  "visit_add_remove P ops (file_action_deduplicator False a r ad rd) info flt =
     visit_add_remove P ops (checkpoint_deduplicator a ad) info flt"
  by (intro ext) (simp only: visit_add_remove_def is_valid_add_checkpoint dedup_is_log)

lemma dedup_loop_read_only:
  assumes "\<And>i exprs seen. snd (f i exprs seen) = seen"
  shows "snd (dedup_loop f is sel exprs seen) = seen"
proof (induction "is" arbitrary: sel exprs)
  case (Cons i "is")
  then show ?case using assms [of i exprs seen] by (auto split: sum.splits prod.splits)
qed simp

context deduplicator_laws
begin

lemma is_valid_add_read_only:
  "\<not> is_log_batch D \<Longrightarrow> snd (is_valid_add P ops D info flt getters i exprs seen) = seen"
  using recorded
  by (auto simp: is_valid_add_def split: sum.splits option.splits prod.splits) (metis snd_conv)+

lemma visit_read_only:
  assumes "\<not> is_log_batch D"
  shows "snd (visit_add_remove P ops D info flt actions sel seen) = seen"
  by (simp add: visit_add_remove_def dedup_loop_read_only [OF is_valid_add_read_only [OF assms]] split: sum.splits)

end

lemma transform_and_skip_len:
  "transform_and_skip tr flt actions = Inr (transformed, sel) \<Longrightarrow>
     ed_len transformed = ed_len actions \<and> length sel = ed_len actions"
  by (auto simp: transform_and_skip_def result_simps)

lemma sequential_checkpoint_batch:
  assumes "\<not> ab_is_log_batch b"
  shows "scan_process_actions_batch P ops self b = (parallel_process_actions_batch P ops self b, self)"
proof -
  let ?D = "checkpoint_deduplicator ADD_PATH_INDEX ADD_DV_START_INDEX"
  have ro: "visit_add_remove P ops ?D info flt actions sel seen = (r, seen') \<Longrightarrow> seen' = seen"
    for info flt actions sel seen r seen'
    using checkpoint_dedup.visit_read_only [of ADD_PATH_INDEX ADD_DV_START_INDEX P ops info flt actions sel seen] by simp
  show ?thesis
    using assms
    by (cases "transform_and_skip (checkpoint_transform self) (data_skipping self) (ab_actions b)")
      (auto simp: scan_process_actions_batch_def parallel_process_actions_batch_def visit_checkpoint Let_def
        split: prod.splits dest!: ro)
qed

text \<open>The results of a run of batches before the empty ones are dropped, and the final state.\<close>

fun scan_run ::
  "('d, 'dt) scalar_parsers \<Rightarrow> 'op opaque_ops \<Rightarrow> 'op scan_processor \<Rightarrow> actions_batch list \<Rightarrow>
   'op scan_metadata delta_result list \<times> 'op scan_processor" where
  "scan_run P ops self [] = ([], self)"
| "scan_run P ops self (b # bs) =
     (case scan_process_actions_batch P ops self b of
        (r, self') \<Rightarrow> (case scan_run P ops self' bs of (rs, self'') \<Rightarrow> (r # rs, self'')))"

definition keep_result :: "'op scan_metadata delta_result \<Rightarrow> bool" where
  "keep_result r = (case r of Inl _ \<Rightarrow> True | Inr m \<Rightarrow> scan_has_selected_rows m)"

lemma scan_action_iter_run:
  "scan_action_iter P ops self (map Inr bs) = filter keep_result (fst (scan_run P ops self bs))"
  by (induction P ops self bs rule: scan_run.induct)
    (auto simp: scan_action_iter_def keep_result_def split: prod.splits)

lemma scan_run_append:
  "scan_run P ops self (as @ bs) =
     (fst (scan_run P ops self as) @ fst (scan_run P ops (snd (scan_run P ops self as)) bs),
      snd (scan_run P ops (snd (scan_run P ops self as)) bs))"
  by (induction P ops self as rule: scan_run.induct) (auto split: prod.splits)

lemma scan_run_checkpoint:
  "list_all (\<lambda>b. \<not> ab_is_log_batch b) cps \<Longrightarrow>
     scan_run P ops self cps = (map (parallel_process_actions_batch P ops self) cps, self)"
  by (induction cps) (simp_all add: sequential_checkpoint_batch)

text \<open>
  C30. The distributed replay equals the sequential one: after the commit batches have been
  replayed, processing the checkpoint batches one by one with the parallel processor, in the
  state the commits left, yields batch for batch the results (selections, transforms and
  errors) of the sequential iterator, and no checkpoint batch changes the state.
\<close>

theorem parallel_replay_equals_sequential:
  assumes "list_all (\<lambda>b. \<not> ab_is_log_batch b) cps"
  shows "scan_action_iter P ops self (map Inr (logs @ cps)) =
      scan_action_iter P ops self (map Inr logs) @
      filter keep_result (map (parallel_process_actions_batch P ops (snd (scan_run P ops self logs))) cps) \<and>
    snd (scan_run P ops self (logs @ cps)) = snd (scan_run P ops self logs)"
  by (simp add: scan_action_iter_run scan_run_append scan_run_checkpoint [OF assms] del: map_append)

section \<open>What the visitor selects\<close>

text \<open>
  The event of a row as the visitor treats it: its file action, unless it is a pruned add; and
  the file action as the log has it.
\<close>

definition row_event ::
  "('d, 'dt) scalar_parsers \<Rightarrow> 'op opaque_ops \<Rightarrow> deduplicator \<Rightarrow> 'op state_info \<Rightarrow> 'op predicate option \<Rightarrow>
   getter list \<Rightarrow> nat \<Rightarrow> (file_action_key \<times> bool) option" where
  "row_event P ops D info flt getters i =
     (case extract_file_action D i getters (\<not> is_log_batch D) of
        Inr (Some (key, is_add)) \<Rightarrow>
          (case partition_step P ops info flt i getters is_add of
             Inr (Some _) \<Rightarrow> Some (key, is_add)
           | _ \<Rightarrow> None)
      | _ \<Rightarrow> None)"

context deduplicator_laws
begin

lemma check_eq:
  "check_and_record_seen D key seen = (key \<in> seen, if is_log_batch D then insert key seen else seen)"
  using duplicate recorded by (simp add: prod_eq_iff)

lemma is_valid_add_Inr:
  assumes "is_valid_add P ops D info flt getters i exprs seen = (Inr (valid, exprs'), seen')"
  shows "([valid], seen') = newest_first seen [(is_log_batch D, row_event P ops D info flt getters i)]"
  using assms
  by (auto simp: is_valid_add_def row_event_def newest_first.simps result_simps check_eq
      split: sum.splits option.splits prod.splits if_splits)

lemma dedup_loop_Inr:
  fixes P ops info flt getters
  defines "f \<equiv> is_valid_add P ops D info flt getters"
    and "ev \<equiv> \<lambda>sel i. (is_log_batch D, if sel ! i then row_event P ops D info flt getters i else None)"
  assumes "dedup_loop f [m..<n] sel exprs seen = (Inr (sel', exprs'), seen')" "n \<le> length sel" "m \<le> n"
  shows "sel' = take m sel @ fst (newest_first seen (map (ev sel) [m..<n])) @ drop n sel \<and>
    seen' = snd (newest_first seen (map (ev sel) [m..<n]))"
  using assms(3-)
proof (induction "n - m" arbitrary: m sel exprs seen)
  case 0
  then show ?case by (simp add: newest_first.simps)
next
  case (Suc d)
  then have mn: "m < n" and up: "[m..<n] = m # [Suc m..<n]" by (simp_all add: upt_rec)
  show ?case
  proof (cases "sel ! m")
    case True
    obtain valid exprs1 seen1 where step: "f m exprs seen = (Inr (valid, exprs1), seen1)"
      using Suc.prems(1) True by (auto simp: up split: prod.splits sum.splits)
    have first: "([valid], seen1) = newest_first seen [ev sel m]"
      using is_valid_add_Inr [of P ops info flt getters m exprs seen] step True by (simp add: f_def ev_def)
    have ev: "map (ev (sel[m := valid])) [Suc m..<n] = map (ev sel) [Suc m..<n]"
      by (auto simp: ev_def)
    have rest: "dedup_loop f [Suc m..<n] (sel[m := valid]) exprs1 seen1 = (Inr (sel', exprs'), seen')"
      using Suc.prems(1) True step by (simp add: up)
    have IH: "sel' = take (Suc m) (sel[m := valid]) @ fst (newest_first seen1 (map (ev sel) [Suc m..<n])) @
        drop n (sel[m := valid]) \<and> seen' = snd (newest_first seen1 (map (ev sel) [Suc m..<n]))"
      using Suc.hyps(1) [of "Suc m" "sel[m := valid]"] rest Suc.hyps(2) Suc.prems(2) mn
      unfolding ev by simp
    have "seen1 = seen \<union> logged_keys [ev sel m]" "[valid] = fst (newest_first seen [ev sel m])"
      using first newest_first_seen [of seen "[ev sel m]"] by (metis fst_conv snd_conv)+
    then show ?thesis
      using IH mn Suc.prems(2) newest_first_append [of seen "[ev sel m]" "map (ev sel) [Suc m..<n]"]
      by (simp add: up newest_first_seen take_Suc_conv_app_nth Un_assoc flip: logged_keys_append)
  next
    case False
    then have none: "ev sel m = (is_log_batch D, None)" by (simp add: ev_def)
    have "sel' = take (Suc m) sel @ fst (newest_first seen (map (ev sel) [Suc m..<n])) @ drop n sel \<and>
        seen' = snd (newest_first seen (map (ev sel) [Suc m..<n]))"
      using Suc.hyps(1) [of "Suc m" sel] Suc.hyps(2) Suc.prems mn False by (simp add: up)
    then show ?thesis
      using False mn Suc.prems(2) by (simp add: up none take_Suc_conv_app_nth)
  qed
qed

end

section \<open>Replaying a log\<close>

definition scan_dedup :: "bool \<Rightarrow> deduplicator" where
  "scan_dedup is_log =
     file_action_deduplicator is_log ADD_PATH_INDEX REMOVE_PATH_INDEX ADD_DV_START_INDEX REMOVE_DV_START_INDEX"

text \<open>The events of a batch after data skipping and pruning, and its file actions as logged.\<close>

definition batch_events ::
  "('d, 'dt) scalar_parsers \<Rightarrow> 'op opaque_ops \<Rightarrow> 'op scan_processor \<Rightarrow> actions_batch \<Rightarrow>
   (file_action_key \<times> bool) option list" where
  "batch_events P ops self b =
     (let is_log = ab_is_log_batch b in
      case (transform_and_skip (if is_log then log_transform self else checkpoint_transform self)
              (data_skipping self) (ab_actions b), ed_getters (ab_actions b) (scan_column_names is_log)) of
        (Inr (_, sel), Inr getters) \<Rightarrow>
          map (\<lambda>i. if sel ! i
                   then row_event P ops (scan_dedup is_log) (sp_state_info self) (partition_filter self) getters i
                   else None) [0..<ed_len (ab_actions b)]
      | _ \<Rightarrow> [])"

definition batch_file_actions :: "actions_batch \<Rightarrow> (file_action_key \<times> bool) option list" where
  "batch_file_actions b =
     (case ed_getters (ab_actions b) (scan_column_names (ab_is_log_batch b)) of
        Inr getters \<Rightarrow>
          map (\<lambda>i. case extract_file_action (scan_dedup (ab_is_log_batch b)) i getters (\<not> ab_is_log_batch b) of
                     Inr a \<Rightarrow> a | Inl _ \<Rightarrow> None) [0..<ed_len (ab_actions b)]
      | Inl _ \<Rightarrow> [])"

lemma batch_events_seen [simp]:
  "batch_events P ops (self\<lparr>seen_file_keys := s\<rparr>) b = batch_events P ops self b"
  by (simp add: batch_events_def Let_def cong: if_cong sum.case_cong prod.case_cong)

lemma scan_batch_Inr:
  assumes "scan_process_actions_batch P ops self b = (Inr m, self')"
  shows "fd_selection (scan_files m) =
      fst (newest_first (seen_file_keys self) (map (Pair (ab_is_log_batch b)) (batch_events P ops self b)))"
    and "self' = self\<lparr> seen_file_keys := seen_file_keys self \<union>
      logged_keys (map (Pair (ab_is_log_batch b)) (batch_events P ops self b)) \<rparr>"
    and "length (batch_events P ops self b) = ed_len (ab_actions b)"
    and "length (batch_file_actions b) = ed_len (ab_actions b)"
proof -
  let ?log = "ab_is_log_batch b" and ?acts = "ab_actions b" and ?seen = "seen_file_keys self"
  obtain transformed sel where ts: "transform_and_skip
      (if ?log then log_transform self else checkpoint_transform self) (data_skipping self) ?acts = Inr (transformed, sel)"
    using assms by (auto simp: scan_process_actions_batch_def Let_def split: sum.splits)
  obtain sel' exprs seen' where vis: "visit_add_remove P ops (scan_dedup ?log) (sp_state_info self)
      (partition_filter self) ?acts sel ?seen = (Inr (sel', exprs), seen')"
    and m: "fd_selection (scan_files m) = sel'" "self' = self\<lparr> seen_file_keys := seen' \<rparr>"
    using assms ts
    by (auto simp: scan_process_actions_batch_def Let_def scan_dedup_def scan_metadata_try_new_def
        filtered_data_try_new_def result_simps split: prod.splits if_splits)
  have log: "is_log_batch (scan_dedup ?log) = ?log" by (simp add: scan_dedup_def)
  obtain getters where g: "ed_getters ?acts (scan_column_names ?log) = Inr getters"
    and loop: "dedup_loop (is_valid_add P ops (scan_dedup ?log) (sp_state_info self) (partition_filter self) getters)
      [0..<ed_len ?acts] sel [] ?seen = (Inr (sel', exprs), seen')"
    using vis by (auto simp: visit_add_remove_def log split: sum.splits if_splits)
  have len: "length sel = ed_len ?acts" using transform_and_skip_len [OF ts] by simp
  have ev: "batch_events P ops self b = map (\<lambda>i. if sel ! i then row_event P ops (scan_dedup ?log)
      (sp_state_info self) (partition_filter self) getters i else None) [0..<ed_len ?acts]"
    using ts g by (simp add: batch_events_def Let_def)
  have *: "sel' = fst (newest_first ?seen (map (Pair ?log) (batch_events P ops self b))) \<and>
      seen' = snd (newest_first ?seen (map (Pair ?log) (batch_events P ops self b)))"
    using log_dedup.dedup_loop_Inr [OF loop [unfolded scan_dedup_def]] len
    unfolding ev scan_dedup_def by (simp add: comp_def)
  show "fd_selection (scan_files m) =
      fst (newest_first ?seen (map (Pair ?log) (batch_events P ops self b)))"
    using m(1) * by simp
  show "self' = self\<lparr> seen_file_keys := ?seen \<union> logged_keys (map (Pair ?log) (batch_events P ops self b)) \<rparr>"
    using m(2) * by (simp add: newest_first_seen)
  show "length (batch_events P ops self b) = ed_len ?acts" by (simp add: ev)
  show "length (batch_file_actions b) = ed_len ?acts" using g by (simp add: batch_file_actions_def)
qed

definition run_events where
  "run_events P ops self bs = concat (map (\<lambda>b. map (Pair (ab_is_log_batch b)) (batch_events P ops self b)) bs)"

lemma run_events_simps [simp]:
  "run_events P ops self [] = []"
  "run_events P ops self (b # bs) =
     map (Pair (ab_is_log_batch b)) (batch_events P ops self b) @ run_events P ops self bs"
  "run_events P ops (self\<lparr>seen_file_keys := s\<rparr>) bs = run_events P ops self bs"
  by (simp_all add: run_events_def)

lemma scan_run_Inr:
  assumes "fst (scan_run P ops self bs) = map Inr ms"
  shows "concat (map (fd_selection \<circ> scan_files) ms) =
      fst (newest_first (seen_file_keys self) (run_events P ops self bs)) \<and>
    list_all (\<lambda>b. length (batch_events P ops self b) = length (batch_file_actions b)) bs"
  using assms
proof (induction bs arbitrary: self ms)
  case (Cons b bs)
  obtain r self1 where step: "scan_process_actions_batch P ops self b = (r, self1)" by fastforce
  obtain m ms' where ms: "ms = m # ms'" and r: "r = Inr m" and rest: "fst (scan_run P ops self1 bs) = map Inr ms'"
    using Cons.prems step by (cases ms) (auto split: prod.splits)
  show ?case
    using Cons.IH [OF rest] scan_batch_Inr [OF step [unfolded r]] by (simp add: ms newest_first_append)
qed (simp add: newest_first.simps)

text \<open>
  Data skipping runs on the statistics of a row, which a remove does not have; \<open>keeps_removes\<close> says
  that it deselects no remove of a log batch.
\<close>

definition keeps_removes :: "'op scan_processor \<Rightarrow> actions_batch \<Rightarrow> bool" where
  "keeps_removes self b \<longleftrightarrow>
     (\<forall>transformed sel getters i k.
        transform_and_skip (log_transform self) (data_skipping self) (ab_actions b) = Inr (transformed, sel) \<longrightarrow>
        ed_getters (ab_actions b) (scan_column_names True) = Inr getters \<longrightarrow> i < ed_len (ab_actions b) \<longrightarrow>
        extract_file_action (scan_dedup True) i getters False = Inr (Some (k, False)) \<longrightarrow> sel ! i)"

lemma keeps_removes_no_filter: "data_skipping self = None \<Longrightarrow> keeps_removes self b"
  by (auto simp: keeps_removes_def transform_and_skip_def build_selection_vector_def result_simps)

lemma batch_pruned:
  assumes "length (batch_events P ops self b) = length (batch_file_actions b)"
    and "ab_is_log_batch b \<Longrightarrow> keeps_removes self b"
  shows "pruned_log (batch_file_actions b) (batch_events P ops self b)"
proof (cases "batch_events P ops self b = []")
  case False
  let ?log = "ab_is_log_batch b" and ?acts = "ab_actions b"
  obtain transformed sel getters where ts: "transform_and_skip
      (if ?log then log_transform self else checkpoint_transform self) (data_skipping self) ?acts = Inr (transformed, sel)"
    and g: "ed_getters ?acts (scan_column_names ?log) = Inr getters"
    using False by (auto simp: batch_events_def Let_def split: sum.splits prod.splits)
  define x where "x = (\<lambda>i. extract_file_action (scan_dedup ?log) i getters (\<not> ?log))"
  have full: "batch_file_actions b = map (\<lambda>i. case x i of Inr a \<Rightarrow> a | Inl _ \<Rightarrow> None) [0..<ed_len ?acts]"
    using g by (simp add: batch_file_actions_def x_def)
  have kept: "batch_events P ops self b = map (\<lambda>i. if sel ! i then row_event P ops (scan_dedup ?log)
      (sp_state_info self) (partition_filter self) getters i else None) [0..<ed_len ?acts]"
    using ts g by (simp add: batch_events_def Let_def)
  have log: "is_log_batch (scan_dedup ?log) = ?log" by (simp add: scan_dedup_def)
  have ev: "row_event P ops (scan_dedup ?log) info flt getters i = None \<or>
      x i = Inr (row_event P ops (scan_dedup ?log) info flt getters i)" for info flt i
    unfolding row_event_def log x_def by (auto split: sum.splits option.splits)
  have removes: "sel ! i \<and> row_event P ops (scan_dedup ?log) info flt getters i = Some (k, False)"
    if "x i = Inr (Some (k, False))" "i < ed_len ?acts" for i k info flt
  proof -
    have "?log"
    proof (rule ccontr)
      assume "\<not> ?log"
      then show False
        using log_dedup.checkpoint_adds_only [of False] that(1) unfolding x_def scan_dedup_def by fastforce
    qed
    then show ?thesis
      using that assms(2) ts g unfolding keeps_removes_def row_event_def log
      by (auto simp: x_def partition_step_def split: option.splits)
  qed
  show ?thesis
    unfolding pruned_log_def
  proof (intro conjI allI impI)
    show "length (batch_events P ops self b) = length (batch_file_actions b)" by (rule assms(1))
    show "batch_events P ops self b ! i = None \<or> batch_events P ops self b ! i = batch_file_actions b ! i"
      if "i < length (batch_file_actions b)" for i
      using that ev [of "sp_state_info self" "partition_filter self" i] by (auto simp: full kept)
    show "batch_events P ops self b ! i = Some (k, False)"
      if "i < length (batch_file_actions b)" "batch_file_actions b ! i = Some (k, False)" for i k
      using that removes [of i k "sp_state_info self" "partition_filter self"]
      by (auto simp: full kept split: sum.splits)
  qed
qed (use assms(1) in \<open>simp add: pruned_log_def\<close>)

lemma pruned_log_append:
  "pruned_log full kept \<Longrightarrow> pruned_log full' kept' \<Longrightarrow> pruned_log (full @ full') (kept @ kept')"
  by (auto simp: pruned_log_def nth_append)

lemma pruned_log_concat:
  "list_all (\<lambda>b. pruned_log (f b) (g b)) bs \<Longrightarrow> pruned_log (concat (map f bs)) (concat (map g bs))"
  by (induction bs) (auto simp: pruned_log_append, simp add: pruned_log_def)

lemma run_events_flags:
  "list_all (\<lambda>b. ab_is_log_batch b = l) bs \<Longrightarrow>
     run_events P ops self bs = map (Pair l) (concat (map (batch_events P ops self) bs))"
  by (induction bs) auto

lemma run_events_append: "run_events P ops self (as @ bs) = run_events P ops self as @ run_events P ops self bs"
  by (simp add: run_events_def)

text \<open>
  C2. Log replay for a scan finds the files of the table. For commit batches (newest first)
  followed by the batches of a reconciled checkpoint, replayed without errors from a fresh
  processor whose data skipping keeps removes: every selected row is an add of a file that is
  in the table state reached by applying all actions oldest first (no removed file comes
  back); every file of the table state whose newest add is neither skipped nor pruned is
  selected (no file is lost); no file is selected twice; and the iterator yields these
  selections, batch by batch.
\<close>

theorem scan_replay_live_files:
  assumes run: "fst (scan_run P ops self (logs @ cps)) = map Inr ms" and fresh: "seen_file_keys self = {}"
    and kinds: "list_all (\<lambda>b. ab_is_log_batch b = True) logs" "list_all (\<lambda>b. ab_is_log_batch b = False) cps"
    and removes: "list_all (keeps_removes self) logs"
    and cp: "checkpoint_reconciled (concat (map batch_file_actions cps))"
    and full: "full = concat (map batch_file_actions (logs @ cps))"
    and kept: "kept = concat (map (batch_events P ops self) (logs @ cps))"
    and sel: "sel = concat (map (fd_selection \<circ> scan_files) ms)"
    and state: "state = table_state (zip full [0..<length full])"
  shows "scan_action_iter P ops self (map Inr (logs @ cps)) = map Inr (filter scan_has_selected_rows ms) \<and>
    length sel = length full \<and>
    (\<forall>i < length full. sel ! i \<longrightarrow> (\<exists>k j. full ! i = Some (k, True) \<and> state k = Some j)) \<and>
    (\<forall>i < length full. \<forall>k. state k = Some i \<longrightarrow> kept ! i = Some (k, True) \<longrightarrow> sel ! i) \<and>
    (\<forall>i < length full. \<forall>j < length full. sel ! i \<longrightarrow> sel ! j \<longrightarrow> full ! i = full ! j \<longrightarrow> i = j)"
proof -
  let ?full = "\<lambda>bs. concat (map batch_file_actions bs)" and ?kept = "\<lambda>bs. concat (map (batch_events P ops self) bs)"
  note lens = scan_run_Inr [OF run, THEN conjunct2]
  have "list_all (\<lambda>b. pruned_log (batch_file_actions b) (batch_events P ops self b)) logs"
    "list_all (\<lambda>b. pruned_log (batch_file_actions b) (batch_events P ops self b)) cps"
    using lens kinds removes by (auto simp: list_all_iff intro!: batch_pruned)
  then have pl: "pruned_log (?full logs) (?kept logs)" "pruned_log (?full cps) (?kept cps)"
    by (auto intro: pruned_log_concat)
  then have pr: "pruned_log (?full logs @ ?full cps) (?kept logs @ ?kept cps)"
    by (rule pruned_log_append)
  have len: "length (?kept logs) = length (?full logs)"
    using pl(1) by (simp add: pruned_log_def)
  define es where "es = map (Pair True) (?kept logs) @ map (Pair False) (?kept cps)"
  have sel': "sel = fst (newest_first {} es)"
    using scan_run_Inr [OF run] fresh kinds
    by (simp add: sel es_def run_events_append run_events_flags)
  have n: "length full = length (?full logs @ ?full cps)" by (simp add: full)
  note main = pruned_log_table_state [OF pr len cp es_def n]
  have "length sel = length full"
    using pl by (simp add: sel' es_def full pruned_log_def)
  moreover have "scan_action_iter P ops self (map Inr (logs @ cps)) = map Inr (filter scan_has_selected_rows ms)"
    unfolding scan_action_iter_run run by (simp add: filter_map comp_def keep_result_def)
  moreover have "\<exists>k j. full ! i = Some (k, True) \<and> state k = Some j" if "i < length full" "sel ! i" for i
    using main(1) that by (simp add: sel' full state)
  moreover have "sel ! i" if "i < length full" "state k = Some i" "kept ! i = Some (k, True)" for i k
    using main(2) that by (simp add: sel' full state kept)
  moreover have "i = j" if "i < length full" "j < length full" "sel ! i" "sel ! j" "full ! i = full ! j" for i j
    using main(3) that by (simp add: sel' full)
  ultimately show ?thesis by blast
qed

section \<open>Partition pruning is sound\<close>

text \<open>
  Pruning evaluates the predicate on the partition values alone. That is sound because a value
  computed from some of the columns of a row stays the same when the others become known; an
  engine-defined operator has to behave this way too.
\<close>

record 'op partial_row =
  pr_ops :: "'op opaque_ops"
  pr_known :: "column_name \<Rightarrow> scalar option"
  pr_row :: "column_name \<Rightarrow> scalar option"

definition opaque_partial_ok :: "'op partial_row \<Rightarrow> bool" where
  "opaque_partial_ok x \<longleftrightarrow>
     (\<forall>op exprs i. sound (ev_opaque (default_evaluator (pr_ops x) (pr_known x)) op exprs i)
        (ev_opaque (default_evaluator (pr_ops x) (pr_row x)) op exprs i)) \<and>
     (\<forall>op exprs i. sound (ev_expr_opaque (default_evaluator (pr_ops x) (pr_known x)) op exprs i)
        (ev_expr_opaque (default_evaluator (pr_ops x) (pr_row x)) op exprs i))"

definition partial_ok :: "'op partial_row \<Rightarrow> bool" where
  "partial_ok x \<longleftrightarrow> pr_known x \<subseteq>\<^sub>m pr_row x \<and> opaque_partial_ok x"

lemma partial_known: "partial_ok x \<Longrightarrow> pr_known x c = Some v \<Longrightarrow> pr_row x c = Some v"
  by (auto simp: partial_ok_def map_le_def dom_def)

lemma resolve_binary_partial:
  "partial_ok x \<Longrightarrow> sound (resolve_binary (pr_known x) op c v i) (resolve_binary (pr_row x) op c v i)"
  by (auto simp: resolve_binary_def partial_known split: option.splits)

interpretation partial_row: skipping_simulation partial_ok
  "\<lambda>x. default_evaluator (pr_ops x) (pr_known x)" "\<lambda>_. Some" "\<lambda>x. default_evaluator (pr_ops x) (pr_row x)"
proof
  fix x :: "'op partial_row"
  assume x: "partial_ok x"
  show "sound (Option.bind (ev_is_null (default_evaluator (pr_ops x) (pr_known x)) c i) Some)
      (ev_is_null (default_evaluator (pr_ops x) (pr_row x)) c i)" for c i
    using x by (auto simp: partial_known split: option.splits)
  show "sound (Option.bind (ev_binary_columns (default_evaluator (pr_ops x) (pr_known x)) bop c d i) Some)
      (ev_binary_columns (default_evaluator (pr_ops x) (pr_row x)) bop c d i)" for bop c d i
    using x by (auto simp: default_evaluator_def partial_known split: option.splits)
  show "sound (Option.bind (ev_opaque (default_evaluator (pr_ops x) (pr_known x)) op exprs i) Some)
      (ev_opaque (default_evaluator (pr_ops x) (pr_row x)) op exprs i)" for op exprs i
    using x by (simp add: partial_ok_def opaque_partial_ok_def del: default_evaluator_simps)
  show "sound (Option.bind (ev_expr_opaque (default_evaluator (pr_ops x) (pr_known x)) op exprs i) Some)
      (ev_expr_opaque (default_evaluator (pr_ops x) (pr_row x)) op exprs i)" for op exprs i
    using x by (simp add: partial_ok_def opaque_partial_ok_def del: default_evaluator_simps)
qed (simp_all add: resolve_binary_partial sound_junction)



text \<open>A concrete log: a remove of \<open>f\<close>, then older adds of \<open>f\<close> and \<open>g\<close>, and a checkpoint with \<open>h\<close>.\<close>

definition ex_getter :: "string option list \<Rightarrow> getter" where
  "ex_getter xs = \<lparr> get_str = \<lambda>i. Inr (xs ! i), get_int = \<lambda>_. Inr None, get_long = \<lambda>_. Inr None,
     get_bool = \<lambda>_. Inr None, get_map = \<lambda>_. Inr None, get_list = \<lambda>_. Inr None \<rparr>"

definition ex_data :: "(string option \<times> string option) list \<Rightarrow> engine_data" where
  "ex_data rows =
     (let n = ex_getter (map (\<lambda>_. None) rows) in
      \<lparr> ed_len = length rows,
        ed_getters = \<lambda>names. Inr (take (length names)
          [ex_getter (map fst rows), n, n, n, n, n, ex_getter (map snd rows), n, n, n]) \<rparr>)"

definition ex_log_batches :: "actions_batch list" where
  "ex_log_batches =
     [\<lparr> ab_actions = ex_data [(None, Some ''f'')], ab_is_log_batch = True \<rparr>,
      \<lparr> ab_actions = ex_data [(Some ''f'', None), (Some ''g'', None)], ab_is_log_batch = True \<rparr>]"

definition ex_checkpoint_batches :: "actions_batch list" where
  "ex_checkpoint_batches = [\<lparr> ab_actions = ex_data [(Some ''h'', None)], ab_is_log_batch = False \<rparr>]"

definition ex_processor :: "unit scan_processor" where
  "ex_processor =
     \<lparr> partition_filter = None, data_skipping = None, log_transform = Inr, checkpoint_transform = Inr,
       sp_state_info = \<lparr> logical_schema = StructType [] [], physical_schema = StructType [] [],
         si_physical_predicate = PredicateNone, transform_spec = None, mapping_mode = NoMapping,
         physical_stats_schema = None, physical_partition_schema = None \<rparr>,
       seen_file_keys = {} \<rparr>"

definition ex_metadata :: "unit scan_metadata list" where
  "ex_metadata =
     [\<lparr> scan_files = \<lparr> fd_data = ex_data [(None, Some ''f'')], fd_selection = [False] \<rparr>,
        scan_file_transforms = [] \<rparr>,
      \<lparr> scan_files = \<lparr> fd_data = ex_data [(Some ''f'', None), (Some ''g'', None)], fd_selection = [False, True] \<rparr>,
        scan_file_transforms = [] \<rparr>,
      \<lparr> scan_files = \<lparr> fd_data = ex_data [(Some ''h'', None)], fd_selection = [True] \<rparr>,
        scan_file_transforms = [] \<rparr>]"

lemmas scan_eval = ex_log_batches_def ex_checkpoint_batches_def ex_processor_def ex_data_def ex_getter_def
  Let_def scan_process_actions_batch_def transform_and_skip_def build_selection_vector_def visit_add_remove_def
  scan_column_names_def is_valid_add_def partition_step_def scan_metadata_try_new_def
  filtered_data_try_new_def extract_dv_unique_id_def extract_add_or_remove_def file_action_deduplicator_def
  scan_indices upt_rec

lemma ex_scan_run:
  "fst (scan_run P no_opaque ex_processor (ex_log_batches @ ex_checkpoint_batches)) = map Inr ex_metadata"
  by (simp add: scan_eval ex_metadata_def)

lemma ex_file_actions:
  "map batch_file_actions (ex_log_batches @ ex_checkpoint_batches) =
     [[Some (FileActionKey ''f'' None, False)],
      [Some (FileActionKey ''f'' None, True), Some (FileActionKey ''g'' None, True)],
      [Some (FileActionKey ''h'' None, True)]]"
  by (simp add: scan_eval batch_file_actions_def scan_dedup_def)

theorem scan_replay_live_files_witness:
  "concat (map (fd_selection \<circ> scan_files) ex_metadata) = [False, False, True, True] \<and>
   (\<exists>k j. concat (map batch_file_actions (ex_log_batches @ ex_checkpoint_batches)) ! 2 = Some (k, True) \<and>
      table_state (zip (concat (map batch_file_actions (ex_log_batches @ ex_checkpoint_batches))) [0..<4]) k = Some j)"
proof -
  let ?full = "concat (map batch_file_actions (ex_log_batches @ ex_checkpoint_batches))"
  have full: "?full = [Some (FileActionKey ''f'' None, False), Some (FileActionKey ''f'' None, True),
      Some (FileActionKey ''g'' None, True), Some (FileActionKey ''h'' None, True)]"
    by (simp only: ex_file_actions) simp
  have cps: "concat (map batch_file_actions ex_checkpoint_batches) = [Some (FileActionKey ''h'' None, True)]"
    by (simp add: scan_eval batch_file_actions_def scan_dedup_def)
  have sel: "concat (map (fd_selection \<circ> scan_files) ex_metadata) = [False, False, True, True]"
    by (simp add: ex_metadata_def)
  have "\<forall>i < length ?full. concat (map (fd_selection \<circ> scan_files) ex_metadata) ! i \<longrightarrow>
      (\<exists>k j. ?full ! i = Some (k, True) \<and> table_state (zip ?full [0..<length ?full]) k = Some j)"
  proof (rule scan_replay_live_files [OF ex_scan_run [of no_parsers] _ _ _ _ _ refl refl refl refl,
        THEN conjunct2, THEN conjunct2, THEN conjunct1])
    show "checkpoint_reconciled (concat (map batch_file_actions ex_checkpoint_batches))"
      unfolding cps by (auto simp: checkpoint_reconciled_def)
    show "list_all (keeps_removes ex_processor) ex_log_batches"
      by (simp add: ex_log_batches_def keeps_removes_no_filter ex_processor_def)
  qed (simp_all add: ex_processor_def ex_log_batches_def ex_checkpoint_batches_def)
  moreover have "length ?full = 4" unfolding full by simp
  ultimately show ?thesis using sel by (simp add: numeral_2_eq_2 flip: full)
qed

theorem parallel_replay_equals_sequential_witness:
  "scan_action_iter no_parsers no_opaque ex_processor (map Inr (ex_log_batches @ ex_checkpoint_batches)) =
     scan_action_iter no_parsers no_opaque ex_processor (map Inr ex_log_batches) @
     filter keep_result (map (parallel_process_actions_batch no_parsers no_opaque
       (snd (scan_run no_parsers no_opaque ex_processor ex_log_batches))) ex_checkpoint_batches)"
  by (rule parallel_replay_equals_sequential [THEN conjunct1]) (simp add: ex_checkpoint_batches_def)

section \<open>Row transforms\<close>

text \<open>
  The vector of row transforms is aligned with the rows: it has an entry for every selected row
  when the scan has a transform, and rows beyond its end have none.
\<close>

definition aligned :: "bool \<Rightarrow> nat \<Rightarrow> bool list \<Rightarrow> 'e option list \<Rightarrow> bool" where
  "aligned has_spec n sel exprs \<longleftrightarrow> length exprs \<le> n \<and>
     (\<forall>i < n. (i < length exprs \<and> exprs ! i \<noteq> None) \<longleftrightarrow> has_spec \<and> sel ! i)"

lemma is_valid_add_exprs:
  assumes "is_valid_add P ops D info flt getters i exprs seen = (Inr (valid, exprs'), seen')"
  shows "if valid \<and> transform_spec info \<noteq> None then \<exists>t. exprs' = resize_with_none i exprs @ [Some t] else exprs' = exprs"
  using assms
  by (auto simp: is_valid_add_def result_simps split: sum.splits option.splits prod.splits if_splits) metis

lemma nth_resize_with_none:
  "length exprs \<le> i \<Longrightarrow> j < i \<Longrightarrow>
     resize_with_none i exprs ! j = (if j < length exprs then exprs ! j else None)"
  by (simp add: resize_with_none_def nth_append)

lemma aligned_step:
  assumes al: "aligned spec i sel exprs" and i: "i < length sel"
    and step: "if valid \<and> spec then \<exists>t. exprs' = resize_with_none i exprs @ [Some t] else exprs' = exprs"
  shows "aligned spec (Suc i) (sel[i := valid]) exprs'"
proof (cases "valid \<and> spec")
  case True
  then obtain t where t: "exprs' = resize_with_none i exprs @ [Some t]" using step by auto
  have len: "length (resize_with_none i exprs) = i" using al by (simp add: resize_with_none_def aligned_def)
  have "(j < length exprs' \<and> exprs' ! j \<noteq> None) \<longleftrightarrow> spec \<and> sel[i := valid] ! j" if "j < Suc i" for j
  proof (cases "j = i")
    case False
    then have j: "j < i" using that by simp
    then show ?thesis
      using al nth_resize_with_none [of exprs i j] by (auto simp: aligned_def t len nth_append)
  qed (use True i in \<open>simp add: t len nth_append\<close>)
  then show ?thesis by (simp add: aligned_def t len)
next
  case False
  then show ?thesis using al i step by (auto simp: aligned_def less_Suc_eq)
qed

lemma dedup_loop_aligned:
  assumes "dedup_loop (is_valid_add P ops D info flt getters) [m..<n] sel exprs seen = (Inr (sel', exprs'), seen')"
    and "aligned (transform_spec info \<noteq> None) m sel exprs" "n \<le> length sel" "m \<le> n"
  shows "aligned (transform_spec info \<noteq> None) n sel' exprs'"
  using assms
proof (induction "n - m" arbitrary: m sel exprs seen)
  case (Suc d)
  let ?f = "is_valid_add P ops D info flt getters" and ?spec = "transform_spec info \<noteq> None"
  have mn: "m < n" and up: "[m..<n] = m # [Suc m..<n]" using Suc.hyps(2) by (simp_all add: upt_rec)
  show ?case
  proof (cases "sel ! m")
    case True
    obtain valid exprs1 seen1 where step: "?f m exprs seen = (Inr (valid, exprs1), seen1)"
      using Suc.prems(1) True by (auto simp: up split: prod.splits sum.splits)
    have "aligned ?spec (Suc m) (sel[m := valid]) exprs1"
      using aligned_step [OF Suc.prems(2) _ is_valid_add_exprs [OF step]] mn Suc.prems(3) by simp
    then show ?thesis
      using Suc.hyps(1) [of "Suc m" "sel[m := valid]" exprs1 seen1] Suc.hyps(2) Suc.prems mn True step by (simp add: up)
  next
    case False
    then have "aligned ?spec (Suc m) sel exprs" using Suc.prems(2) by (auto simp: aligned_def less_Suc_eq)
    then show ?thesis
      using Suc.hyps(1) [of "Suc m" sel exprs seen] Suc.hyps(2) Suc.prems mn False by (simp add: up)
  qed
qed simp

text \<open>
  Each selected file gets its own transform: in the metadata of a successfully processed
  batch the selection vector and the transforms never exceed the number of rows, and a row has a
  transform exactly when it is selected and the scan has a transform.
\<close>

theorem scan_transforms_aligned:
  assumes "scan_process_actions_batch P ops self b = (Inr m, self')"
  shows "length (fd_selection (scan_files m)) = ed_len (ab_actions b) \<and>
    aligned (transform_spec (sp_state_info self) \<noteq> None) (ed_len (ab_actions b))
      (fd_selection (scan_files m)) (scan_file_transforms m)"
proof -
  let ?log = "ab_is_log_batch b" and ?acts = "ab_actions b"
  obtain transformed sel where ts: "transform_and_skip
      (if ?log then log_transform self else checkpoint_transform self) (data_skipping self) ?acts = Inr (transformed, sel)"
    using assms by (auto simp: scan_process_actions_batch_def Let_def split: sum.splits)
  obtain sel' exprs seen' getters where
    loop: "dedup_loop (is_valid_add P ops (scan_dedup ?log) (sp_state_info self) (partition_filter self) getters)
      [0..<ed_len ?acts] sel [] (seen_file_keys self) = (Inr (sel', exprs), seen')"
    and m: "fd_selection (scan_files m) = sel'" "scan_file_transforms m = exprs"
    using assms ts
    by (auto simp: scan_process_actions_batch_def Let_def scan_dedup_def scan_metadata_try_new_def
        filtered_data_try_new_def result_simps visit_add_remove_def split: prod.splits if_splits sum.splits)
  have "aligned (transform_spec (sp_state_info self) \<noteq> None) (ed_len ?acts) sel' exprs"
    using dedup_loop_aligned [OF loop] transform_and_skip_len [OF ts] by (simp add: aligned_def [of _ 0])
  moreover have "length (fd_selection (scan_files m)) = ed_len ?acts"
    unfolding scan_batch_Inr(1) [OF assms] using scan_batch_Inr(3) [OF assms] by simp
  ultimately show ?thesis using m by simp
qed

theorem scan_transforms_aligned_witness:
  "aligned False 2 (fd_selection (scan_files (ex_metadata ! 1))) (scan_file_transforms (ex_metadata ! 1))"
proof -
  have "scan_process_actions_batch no_parsers no_opaque
      (ex_processor\<lparr> seen_file_keys := {FileActionKey ''f'' None} \<rparr>) (ex_log_batches ! 1) =
    (Inr (ex_metadata ! 1), ex_processor\<lparr> seen_file_keys := {FileActionKey ''f'' None, FileActionKey ''g'' None} \<rparr>)"
    by (simp add: scan_eval ex_metadata_def insert_commute)
  from scan_transforms_aligned [OF this] show ?thesis
    by (simp add: ex_processor_def ex_log_batches_def ex_data_def Let_def numeral_2_eq_2)
qed

end
