(* ===== verification/TableProperties.thy ===== *)
theory TableProperties
  imports TransformSpec ColumnNames
begin

text \<open>
  Table properties (\<open>table_properties.rs\<close>, \<open>table_properties/deserialize.rs\<close>): the typed view of
  the configuration map of a table and the parsers of its values. A \<open>Duration\<close> is its length in
  nanoseconds; \<open>char::is_whitespace\<close> is the parameter \<open>ws\<close>.
\<close>

section \<open>Parsers of values\<close>

type_synonym duration = nat

datatype num_indexed_cols = AllColumns | NumColumns u64

datatype isolation_level = Serializable | WriteSerializable | SnapshotIsolation

datatype checkpoint_policy = Classic | V2

definition DEFAULT_NUM_INDEXED_COLS :: u64 where
  "DEFAULT_NUM_INDEXED_COLS = 32"

definition default_num_indexed_cols :: num_indexed_cols where
  "default_num_indexed_cols = NumColumns DEFAULT_NUM_INDEXED_COLS"

text \<open>The errors of \<open>try_from\<close> and of the derived \<open>EnumString\<close> parsers are dropped by the caller.\<close>

definition num_indexed_cols_try_from :: "string \<Rightarrow> num_indexed_cols option" where
  "num_indexed_cols_try_from s =
     (case parse_sint 64 s of
        None \<Rightarrow> None
      | Some n \<Rightarrow> if n = -1 then Some AllColumns
                  else if 0 \<le> n then Some (NumColumns (word_of_int n)) else None)"

definition column_mapping_mode_from_str :: "string \<Rightarrow> column_mapping_mode option" where
  "column_mapping_mode_from_str s =
     (if s = ''none'' then Some NoMapping else if s = ''id'' then Some IdMapping
      else if s = ''name'' then Some NameMapping else None)"

definition isolation_level_from_str :: "string \<Rightarrow> isolation_level option" where
  "isolation_level_from_str s =
     (if s = ''serializable'' then Some Serializable else if s = ''writeSerializable'' then Some WriteSerializable
      else if s = ''snapshotIsolation'' then Some SnapshotIsolation else None)"

definition checkpoint_policy_from_str :: "string \<Rightarrow> checkpoint_policy option" where
  "checkpoint_policy_from_str s = (if s = ''classic'' then Some Classic else if s = ''v2'' then Some V2 else None)"

text \<open>
  Parsed as \<open>i64\<close> and kept when not negative; the conversion to \<open>u64\<close> or \<open>i64\<close> then always
  succeeds.
\<close>

definition parse_non_negative :: "string \<Rightarrow> 64 word option" where
  "parse_non_negative s =
     (case parse_sint 64 s of None \<Rightarrow> None | Some n \<Rightarrow> if 0 \<le> n then Some (word_of_int n) else None)"

definition parse_positive_int :: "string \<Rightarrow> u64 option" where
  "parse_positive_int s = Option.bind (parse_non_negative s) (\<lambda>n. if n = 0 then None else Some n)"

definition parse_bool :: "string \<Rightarrow> bool option" where
  "parse_bool s = (if s = ''true'' then Some True else if s = ''false'' then Some False else None)"

definition parse_column_names :: "(char \<Rightarrow> bool) \<Rightarrow> string \<Rightarrow> column_name list option" where
  "parse_column_names ws s = (case parse_column_name_list ws s of Inr cs \<Rightarrow> Some cs | Inl _ \<Rightarrow> None)"

section \<open>Intervals\<close>

datatype parse_interval_error =
    NotAnInterval string
  | IntervalParseIntError string
  | NegativeInterval string
  | UnsupportedInterval string
  | UnknownUnit string

text \<open>\<open>str::split_whitespace\<close>: the maximal runs of characters that are not white space.\<close>

function split_whitespace :: "(char \<Rightarrow> bool) \<Rightarrow> string \<Rightarrow> string list" where
  "split_whitespace ws [] = []"
| "split_whitespace ws (c # cs) =
     (if ws c then split_whitespace ws cs
      else (c # takeWhile (\<lambda>x. \<not> ws x) cs) # split_whitespace ws (dropWhile (\<lambda>x. \<not> ws x) cs))"
  by pat_completeness auto
termination
  by (relation "measure (length \<circ> snd)") (simp_all add: length_dropWhile_le le_imp_less_Suc)

definition SECONDS_PER_MINUTE :: u64 where "SECONDS_PER_MINUTE = 60"
definition SECONDS_PER_HOUR :: u64 where "SECONDS_PER_HOUR = 60 * SECONDS_PER_MINUTE"
definition SECONDS_PER_DAY :: u64 where "SECONDS_PER_DAY = 24 * SECONDS_PER_HOUR"
definition SECONDS_PER_WEEK :: u64 where "SECONDS_PER_WEEK = 7 * SECONDS_PER_DAY"

definition from_secs :: "u64 \<Rightarrow> duration" where
  "from_secs n = unat n * 1000000000"

text \<open>The products are of \<open>u64\<close> values and wrap around in a release build.\<close>

definition interval_of_unit :: "u64 \<Rightarrow> string \<Rightarrow> parse_interval_error + duration" where
  "interval_of_unit n unit =
     (if unit = ''nanosecond'' \<or> unit = ''nanoseconds'' then Inr (unat n)
      else if unit = ''microsecond'' \<or> unit = ''microseconds'' then Inr (unat n * 1000)
      else if unit = ''millisecond'' \<or> unit = ''milliseconds'' then Inr (unat n * 1000000)
      else if unit = ''second'' \<or> unit = ''seconds'' then Inr (from_secs n)
      else if unit = ''minute'' \<or> unit = ''minutes'' then Inr (from_secs (n * SECONDS_PER_MINUTE))
      else if unit = ''hour'' \<or> unit = ''hours'' then Inr (from_secs (n * SECONDS_PER_HOUR))
      else if unit = ''day'' \<or> unit = ''days'' then Inr (from_secs (n * SECONDS_PER_DAY))
      else if unit = ''week'' \<or> unit = ''weeks'' then Inr (from_secs (n * SECONDS_PER_WEEK))
      else if unit = ''month'' \<or> unit = ''months'' then Inl (UnsupportedInterval unit)
      else Inl (UnknownUnit unit))"

text \<open>Words after the unit are ignored.\<close>

definition parse_interval_impl :: "(char \<Rightarrow> bool) \<Rightarrow> string \<Rightarrow> parse_interval_error + duration" where
  "parse_interval_impl ws value =
     (let it = split_whitespace ws value in
      if first_opt it \<noteq> Some ''interval'' then Inl (NotAnInterval value)
      else
        rbind (ok_or (first_opt (drop 1 it)) (NotAnInterval value)) (\<lambda>number.
        rbind (ok_or (parse_sint 64 number) (IntervalParseIntError number)) (\<lambda>n.
        rbind (require (0 \<le> n) (NegativeInterval value)) (\<lambda>_.
        rbind (ok_or (first_opt (drop 2 it)) (NotAnInterval value)) (\<lambda>unit.
        interval_of_unit (word_of_int n) unit)))))"

definition parse_interval :: "(char \<Rightarrow> bool) \<Rightarrow> string \<Rightarrow> duration option" where
  "parse_interval ws s = (case parse_interval_impl ws s of Inr d \<Rightarrow> Some d | Inl _ \<Rightarrow> None)"

section \<open>Keys\<close>

definition APPEND_ONLY :: string where "APPEND_ONLY = ''delta.appendOnly''"
definition AUTO_COMPACT :: string where "AUTO_COMPACT = ''delta.autoOptimize.autoCompact''"
definition OPTIMIZE_WRITE :: string where "OPTIMIZE_WRITE = ''delta.autoOptimize.optimizeWrite''"
definition CHECKPOINT_INTERVAL :: string where "CHECKPOINT_INTERVAL = ''delta.checkpointInterval''"
definition CHECKPOINT_WRITE_STATS_AS_JSON :: string where "CHECKPOINT_WRITE_STATS_AS_JSON = ''delta.checkpoint.writeStatsAsJson''"
definition CHECKPOINT_WRITE_STATS_AS_STRUCT :: string where "CHECKPOINT_WRITE_STATS_AS_STRUCT = ''delta.checkpoint.writeStatsAsStruct''"
definition COLUMN_MAPPING_MODE :: string where "COLUMN_MAPPING_MODE = ''delta.columnMapping.mode''"
definition DATA_SKIPPING_NUM_INDEXED_COLS :: string where "DATA_SKIPPING_NUM_INDEXED_COLS = ''delta.dataSkippingNumIndexedCols''"
definition DATA_SKIPPING_STATS_COLUMNS :: string where "DATA_SKIPPING_STATS_COLUMNS = ''delta.dataSkippingStatsColumns''"
definition DELETED_FILE_RETENTION_DURATION :: string where "DELETED_FILE_RETENTION_DURATION = ''delta.deletedFileRetentionDuration''"
definition ENABLE_CHANGE_DATA_FEED :: string where "ENABLE_CHANGE_DATA_FEED = ''delta.enableChangeDataFeed''"
definition ENABLE_DELETION_VECTORS :: string where "ENABLE_DELETION_VECTORS = ''delta.enableDeletionVectors''"
definition ENABLE_TYPE_WIDENING :: string where "ENABLE_TYPE_WIDENING = ''delta.enableTypeWidening''"
definition ENABLE_ICEBERG_COMPAT_V1 :: string where "ENABLE_ICEBERG_COMPAT_V1 = ''delta.enableIcebergCompatV1''"
definition ENABLE_ICEBERG_COMPAT_V2 :: string where "ENABLE_ICEBERG_COMPAT_V2 = ''delta.enableIcebergCompatV2''"
definition ISOLATION_LEVEL :: string where "ISOLATION_LEVEL = ''delta.isolationLevel''"
definition LOG_RETENTION_DURATION :: string where "LOG_RETENTION_DURATION = ''delta.logRetentionDuration''"
definition ENABLE_EXPIRED_LOG_CLEANUP :: string where "ENABLE_EXPIRED_LOG_CLEANUP = ''delta.enableExpiredLogCleanup''"
definition RANDOMIZE_FILE_PREFIXES :: string where "RANDOMIZE_FILE_PREFIXES = ''delta.randomizeFilePrefixes''"
definition RANDOM_PREFIX_LENGTH :: string where "RANDOM_PREFIX_LENGTH = ''delta.randomPrefixLength''"
definition SET_TRANSACTION_RETENTION_DURATION :: string where "SET_TRANSACTION_RETENTION_DURATION = ''delta.setTransactionRetentionDuration''"
definition TARGET_FILE_SIZE :: string where "TARGET_FILE_SIZE = ''delta.targetFileSize''"
definition TUNE_FILE_SIZES_FOR_REWRITES :: string where "TUNE_FILE_SIZES_FOR_REWRITES = ''delta.tuneFileSizesForRewrites''"
definition CHECKPOINT_POLICY :: string where "CHECKPOINT_POLICY = ''delta.checkpointPolicy''"
definition ENABLE_ROW_TRACKING :: string where "ENABLE_ROW_TRACKING = ''delta.enableRowTracking''"
definition ROW_TRACKING_SUSPENDED :: string where "ROW_TRACKING_SUSPENDED = ''delta.rowTrackingSuspended''"
definition MATERIALIZED_ROW_ID_COLUMN_NAME :: string where "MATERIALIZED_ROW_ID_COLUMN_NAME = ''delta.rowTracking.materializedRowIdColumnName''"
definition MATERIALIZED_ROW_COMMIT_VERSION_COLUMN_NAME :: string where "MATERIALIZED_ROW_COMMIT_VERSION_COLUMN_NAME = ''delta.rowTracking.materializedRowCommitVersionColumnName''"
definition ENABLE_IN_COMMIT_TIMESTAMPS :: string where "ENABLE_IN_COMMIT_TIMESTAMPS = ''delta.enableInCommitTimestamps''"
definition IN_COMMIT_TIMESTAMP_ENABLEMENT_VERSION :: string where "IN_COMMIT_TIMESTAMP_ENABLEMENT_VERSION = ''delta.inCommitTimestampEnablementVersion''"
definition IN_COMMIT_TIMESTAMP_ENABLEMENT_TIMESTAMP :: string where "IN_COMMIT_TIMESTAMP_ENABLEMENT_TIMESTAMP = ''delta.inCommitTimestampEnablementTimestamp''"

lemmas property_keys = APPEND_ONLY_def AUTO_COMPACT_def OPTIMIZE_WRITE_def
  CHECKPOINT_INTERVAL_def CHECKPOINT_WRITE_STATS_AS_JSON_def CHECKPOINT_WRITE_STATS_AS_STRUCT_def
  COLUMN_MAPPING_MODE_def DATA_SKIPPING_NUM_INDEXED_COLS_def DATA_SKIPPING_STATS_COLUMNS_def
  DELETED_FILE_RETENTION_DURATION_def ENABLE_CHANGE_DATA_FEED_def ENABLE_DELETION_VECTORS_def
  ENABLE_TYPE_WIDENING_def ENABLE_ICEBERG_COMPAT_V1_def ENABLE_ICEBERG_COMPAT_V2_def
  ISOLATION_LEVEL_def LOG_RETENTION_DURATION_def ENABLE_EXPIRED_LOG_CLEANUP_def
  RANDOMIZE_FILE_PREFIXES_def RANDOM_PREFIX_LENGTH_def SET_TRANSACTION_RETENTION_DURATION_def
  TARGET_FILE_SIZE_def TUNE_FILE_SIZES_FOR_REWRITES_def CHECKPOINT_POLICY_def
  ENABLE_ROW_TRACKING_def ROW_TRACKING_SUSPENDED_def MATERIALIZED_ROW_ID_COLUMN_NAME_def
  MATERIALIZED_ROW_COMMIT_VERSION_COLUMN_NAME_def ENABLE_IN_COMMIT_TIMESTAMPS_def IN_COMMIT_TIMESTAMP_ENABLEMENT_VERSION_def
  IN_COMMIT_TIMESTAMP_ENABLEMENT_TIMESTAMP_def

section \<open>The properties\<close>

record table_properties =
  append_only :: "bool option"
  auto_compact :: "bool option"
  optimize_write :: "bool option"
  checkpoint_interval :: "u64 option"
  checkpoint_write_stats_as_json :: "bool option"
  checkpoint_write_stats_as_struct :: "bool option"
  tp_column_mapping_mode :: "column_mapping_mode option"
  data_skipping_num_indexed_cols :: "num_indexed_cols option"
  data_skipping_stats_columns :: "column_name list option"
  deleted_file_retention_duration :: "duration option"
  enable_change_data_feed :: "bool option"
  enable_deletion_vectors :: "bool option"
  enable_type_widening :: "bool option"
  enable_iceberg_compat_v1 :: "bool option"
  enable_iceberg_compat_v2 :: "bool option"
  tp_isolation_level :: "isolation_level option"
  log_retention_duration :: "duration option"
  enable_expired_log_cleanup :: "bool option"
  randomize_file_prefixes :: "bool option"
  random_prefix_length :: "u64 option"
  set_transaction_retention_duration :: "duration option"
  target_file_size :: "u64 option"
  tune_file_sizes_for_rewrites :: "bool option"
  tp_checkpoint_policy :: "checkpoint_policy option"
  enable_row_tracking :: "bool option"
  row_tracking_suspended :: "bool option"
  materialized_row_id_column_name :: "string option"
  materialized_row_commit_version_column_name :: "string option"
  enable_in_commit_timestamps :: "bool option"
  in_commit_timestamp_enablement_version :: "64 word option"
  in_commit_timestamp_enablement_timestamp :: "64 word option"
  unknown_properties :: "(string \<times> string) list"

definition default_properties :: table_properties where
  "default_properties =
     \<lparr> append_only = None,
       auto_compact = None,
       optimize_write = None,
       checkpoint_interval = None,
       checkpoint_write_stats_as_json = None,
       checkpoint_write_stats_as_struct = None,
       tp_column_mapping_mode = None,
       data_skipping_num_indexed_cols = None,
       data_skipping_stats_columns = None,
       deleted_file_retention_duration = None,
       enable_change_data_feed = None,
       enable_deletion_vectors = None,
       enable_type_widening = None,
       enable_iceberg_compat_v1 = None,
       enable_iceberg_compat_v2 = None,
       tp_isolation_level = None,
       log_retention_duration = None,
       enable_expired_log_cleanup = None,
       randomize_file_prefixes = None,
       random_prefix_length = None,
       set_transaction_retention_duration = None,
       target_file_size = None,
       tune_file_sizes_for_rewrites = None,
       tp_checkpoint_policy = None,
       enable_row_tracking = None,
       row_tracking_suspended = None,
       materialized_row_id_column_name = None,
       materialized_row_commit_version_column_name = None,
       enable_in_commit_timestamps = None,
       in_commit_timestamp_enablement_version = None,
       in_commit_timestamp_enablement_timestamp = None,
       unknown_properties = [] \<rparr>"

text \<open>
  \<open>try_parse\<close>: the updated properties, or \<open>None\<close> for an unknown key or a value that does not
  parse. Four keys store the outcome of their parser as it is: a value that does not parse counts
  as parsed and leaves the property unset.
\<close>

definition try_parse :: "(char \<Rightarrow> bool) \<Rightarrow> table_properties \<Rightarrow> string \<Rightarrow> string \<Rightarrow> table_properties option" where
  "try_parse ws props k v =
     (if k = APPEND_ONLY then map_option (\<lambda>x. props\<lparr> append_only := Some x \<rparr>) (parse_bool v)
      else if k = AUTO_COMPACT then map_option (\<lambda>x. props\<lparr> auto_compact := Some x \<rparr>) (parse_bool v)
      else if k = OPTIMIZE_WRITE then map_option (\<lambda>x. props\<lparr> optimize_write := Some x \<rparr>) (parse_bool v)
      else if k = CHECKPOINT_INTERVAL then map_option (\<lambda>x. props\<lparr> checkpoint_interval := Some x \<rparr>) (parse_positive_int v)
      else if k = CHECKPOINT_WRITE_STATS_AS_JSON then map_option (\<lambda>x. props\<lparr> checkpoint_write_stats_as_json := Some x \<rparr>) (parse_bool v)
      else if k = CHECKPOINT_WRITE_STATS_AS_STRUCT then map_option (\<lambda>x. props\<lparr> checkpoint_write_stats_as_struct := Some x \<rparr>) (parse_bool v)
      else if k = COLUMN_MAPPING_MODE then Some (props\<lparr> tp_column_mapping_mode := column_mapping_mode_from_str v \<rparr>)
      else if k = DATA_SKIPPING_NUM_INDEXED_COLS then Some (props\<lparr> data_skipping_num_indexed_cols := num_indexed_cols_try_from v \<rparr>)
      else if k = DATA_SKIPPING_STATS_COLUMNS then map_option (\<lambda>x. props\<lparr> data_skipping_stats_columns := Some x \<rparr>) (parse_column_names ws v)
      else if k = DELETED_FILE_RETENTION_DURATION then map_option (\<lambda>x. props\<lparr> deleted_file_retention_duration := Some x \<rparr>) (parse_interval ws v)
      else if k = ENABLE_CHANGE_DATA_FEED then map_option (\<lambda>x. props\<lparr> enable_change_data_feed := Some x \<rparr>) (parse_bool v)
      else if k = ENABLE_DELETION_VECTORS then map_option (\<lambda>x. props\<lparr> enable_deletion_vectors := Some x \<rparr>) (parse_bool v)
      else if k = ENABLE_TYPE_WIDENING then map_option (\<lambda>x. props\<lparr> enable_type_widening := Some x \<rparr>) (parse_bool v)
      else if k = ENABLE_ICEBERG_COMPAT_V1 then map_option (\<lambda>x. props\<lparr> enable_iceberg_compat_v1 := Some x \<rparr>) (parse_bool v)
      else if k = ENABLE_ICEBERG_COMPAT_V2 then map_option (\<lambda>x. props\<lparr> enable_iceberg_compat_v2 := Some x \<rparr>) (parse_bool v)
      else if k = ISOLATION_LEVEL then Some (props\<lparr> tp_isolation_level := isolation_level_from_str v \<rparr>)
      else if k = LOG_RETENTION_DURATION then map_option (\<lambda>x. props\<lparr> log_retention_duration := Some x \<rparr>) (parse_interval ws v)
      else if k = ENABLE_EXPIRED_LOG_CLEANUP then map_option (\<lambda>x. props\<lparr> enable_expired_log_cleanup := Some x \<rparr>) (parse_bool v)
      else if k = RANDOMIZE_FILE_PREFIXES then map_option (\<lambda>x. props\<lparr> randomize_file_prefixes := Some x \<rparr>) (parse_bool v)
      else if k = RANDOM_PREFIX_LENGTH then map_option (\<lambda>x. props\<lparr> random_prefix_length := Some x \<rparr>) (parse_positive_int v)
      else if k = SET_TRANSACTION_RETENTION_DURATION then map_option (\<lambda>x. props\<lparr> set_transaction_retention_duration := Some x \<rparr>) (parse_interval ws v)
      else if k = TARGET_FILE_SIZE then map_option (\<lambda>x. props\<lparr> target_file_size := Some x \<rparr>) (parse_positive_int v)
      else if k = TUNE_FILE_SIZES_FOR_REWRITES then map_option (\<lambda>x. props\<lparr> tune_file_sizes_for_rewrites := Some x \<rparr>) (parse_bool v)
      else if k = CHECKPOINT_POLICY then Some (props\<lparr> tp_checkpoint_policy := checkpoint_policy_from_str v \<rparr>)
      else if k = ENABLE_ROW_TRACKING then map_option (\<lambda>x. props\<lparr> enable_row_tracking := Some x \<rparr>) (parse_bool v)
      else if k = ROW_TRACKING_SUSPENDED then map_option (\<lambda>x. props\<lparr> row_tracking_suspended := Some x \<rparr>) (parse_bool v)
      else if k = MATERIALIZED_ROW_ID_COLUMN_NAME then Some (props\<lparr> materialized_row_id_column_name := Some v \<rparr>)
      else if k = MATERIALIZED_ROW_COMMIT_VERSION_COLUMN_NAME then Some (props\<lparr> materialized_row_commit_version_column_name := Some v \<rparr>)
      else if k = ENABLE_IN_COMMIT_TIMESTAMPS then map_option (\<lambda>x. props\<lparr> enable_in_commit_timestamps := Some x \<rparr>) (parse_bool v)
      else if k = IN_COMMIT_TIMESTAMP_ENABLEMENT_VERSION then map_option (\<lambda>x. props\<lparr> in_commit_timestamp_enablement_version := Some x \<rparr>) (parse_non_negative v)
      else if k = IN_COMMIT_TIMESTAMP_ENABLEMENT_TIMESTAMP then map_option (\<lambda>x. props\<lparr> in_commit_timestamp_enablement_timestamp := Some x \<rparr>) (parse_non_negative v)
      else None)"

section \<open>The reference\<close>

text \<open>Every property read from its own key, and the keys that are not understood.\<close>

definition understood :: "(char \<Rightarrow> bool) \<Rightarrow> string \<Rightarrow> string \<Rightarrow> bool" where
  "understood ws k v = (try_parse ws default_properties k v \<noteq> None)"

definition properties_of :: "(char \<Rightarrow> bool) \<Rightarrow> (string \<Rightarrow> string option) \<Rightarrow> (string \<times> string) list \<Rightarrow> table_properties" where
  "properties_of ws m rest =
     \<lparr> append_only = Option.bind (m APPEND_ONLY) parse_bool,
       auto_compact = Option.bind (m AUTO_COMPACT) parse_bool,
       optimize_write = Option.bind (m OPTIMIZE_WRITE) parse_bool,
       checkpoint_interval = Option.bind (m CHECKPOINT_INTERVAL) parse_positive_int,
       checkpoint_write_stats_as_json = Option.bind (m CHECKPOINT_WRITE_STATS_AS_JSON) parse_bool,
       checkpoint_write_stats_as_struct = Option.bind (m CHECKPOINT_WRITE_STATS_AS_STRUCT) parse_bool,
       tp_column_mapping_mode = Option.bind (m COLUMN_MAPPING_MODE) column_mapping_mode_from_str,
       data_skipping_num_indexed_cols = Option.bind (m DATA_SKIPPING_NUM_INDEXED_COLS) num_indexed_cols_try_from,
       data_skipping_stats_columns = Option.bind (m DATA_SKIPPING_STATS_COLUMNS) (parse_column_names ws),
       deleted_file_retention_duration = Option.bind (m DELETED_FILE_RETENTION_DURATION) (parse_interval ws),
       enable_change_data_feed = Option.bind (m ENABLE_CHANGE_DATA_FEED) parse_bool,
       enable_deletion_vectors = Option.bind (m ENABLE_DELETION_VECTORS) parse_bool,
       enable_type_widening = Option.bind (m ENABLE_TYPE_WIDENING) parse_bool,
       enable_iceberg_compat_v1 = Option.bind (m ENABLE_ICEBERG_COMPAT_V1) parse_bool,
       enable_iceberg_compat_v2 = Option.bind (m ENABLE_ICEBERG_COMPAT_V2) parse_bool,
       tp_isolation_level = Option.bind (m ISOLATION_LEVEL) isolation_level_from_str,
       log_retention_duration = Option.bind (m LOG_RETENTION_DURATION) (parse_interval ws),
       enable_expired_log_cleanup = Option.bind (m ENABLE_EXPIRED_LOG_CLEANUP) parse_bool,
       randomize_file_prefixes = Option.bind (m RANDOMIZE_FILE_PREFIXES) parse_bool,
       random_prefix_length = Option.bind (m RANDOM_PREFIX_LENGTH) parse_positive_int,
       set_transaction_retention_duration = Option.bind (m SET_TRANSACTION_RETENTION_DURATION) (parse_interval ws),
       target_file_size = Option.bind (m TARGET_FILE_SIZE) parse_positive_int,
       tune_file_sizes_for_rewrites = Option.bind (m TUNE_FILE_SIZES_FOR_REWRITES) parse_bool,
       tp_checkpoint_policy = Option.bind (m CHECKPOINT_POLICY) checkpoint_policy_from_str,
       enable_row_tracking = Option.bind (m ENABLE_ROW_TRACKING) parse_bool,
       row_tracking_suspended = Option.bind (m ROW_TRACKING_SUSPENDED) parse_bool,
       materialized_row_id_column_name = m MATERIALIZED_ROW_ID_COLUMN_NAME,
       materialized_row_commit_version_column_name = m MATERIALIZED_ROW_COMMIT_VERSION_COLUMN_NAME,
       enable_in_commit_timestamps = Option.bind (m ENABLE_IN_COMMIT_TIMESTAMPS) parse_bool,
       in_commit_timestamp_enablement_version = Option.bind (m IN_COMMIT_TIMESTAMP_ENABLEMENT_VERSION) parse_non_negative,
       in_commit_timestamp_enablement_timestamp = Option.bind (m IN_COMMIT_TIMESTAMP_ENABLEMENT_TIMESTAMP) parse_non_negative,
       unknown_properties = rest \<rparr>"

text \<open>
  \<open>TableProperties::from\<close>: the pairs that do not parse are kept as unknown properties, collected
  into a map.
\<close>

definition from_step ::
  "(char \<Rightarrow> bool) \<Rightarrow> string \<times> string \<Rightarrow> table_properties \<times> (string \<times> string) list \<Rightarrow>
   table_properties \<times> (string \<times> string) list" where
  "from_step ws kv st =
     (case try_parse ws (fst st) (fst kv) (snd kv) of
        Some props \<Rightarrow> (props, snd st)
      | None \<Rightarrow> (fst st, AList.update (fst kv) (snd kv) (snd st)))"

definition properties_from :: "(char \<Rightarrow> bool) \<Rightarrow> (string \<times> string) list \<Rightarrow> table_properties" where
  "properties_from ws unparsed =
     (case fold (from_step ws) unparsed (default_properties, []) of
        (props, unknown) \<Rightarrow> props\<lparr> unknown_properties := unknown \<rparr>)"

definition should_write_stats_as_json :: "table_properties \<Rightarrow> bool" where
  "should_write_stats_as_json p = (case checkpoint_write_stats_as_json p of None \<Rightarrow> True | Some b \<Rightarrow> b)"

definition should_write_stats_as_struct :: "table_properties \<Rightarrow> bool" where
  "should_write_stats_as_struct p = (case checkpoint_write_stats_as_struct p of None \<Rightarrow> False | Some b \<Rightarrow> b)"

section \<open>Reading the configuration\<close>

definition property_key_list :: "string list" where
  "property_key_list =
     [APPEND_ONLY, AUTO_COMPACT, OPTIMIZE_WRITE,
      CHECKPOINT_INTERVAL, CHECKPOINT_WRITE_STATS_AS_JSON, CHECKPOINT_WRITE_STATS_AS_STRUCT,
      COLUMN_MAPPING_MODE, DATA_SKIPPING_NUM_INDEXED_COLS, DATA_SKIPPING_STATS_COLUMNS,
      DELETED_FILE_RETENTION_DURATION, ENABLE_CHANGE_DATA_FEED, ENABLE_DELETION_VECTORS,
      ENABLE_TYPE_WIDENING, ENABLE_ICEBERG_COMPAT_V1, ENABLE_ICEBERG_COMPAT_V2,
      ISOLATION_LEVEL, LOG_RETENTION_DURATION, ENABLE_EXPIRED_LOG_CLEANUP,
      RANDOMIZE_FILE_PREFIXES, RANDOM_PREFIX_LENGTH, SET_TRANSACTION_RETENTION_DURATION,
      TARGET_FILE_SIZE, TUNE_FILE_SIZES_FOR_REWRITES, CHECKPOINT_POLICY,
      ENABLE_ROW_TRACKING, ROW_TRACKING_SUSPENDED, MATERIALIZED_ROW_ID_COLUMN_NAME,
      MATERIALIZED_ROW_COMMIT_VERSION_COLUMN_NAME, ENABLE_IN_COMMIT_TIMESTAMPS, IN_COMMIT_TIMESTAMP_ENABLEMENT_VERSION,
      IN_COMMIT_TIMESTAMP_ENABLEMENT_TIMESTAMP]"

lemma distinct_property_keys: "distinct property_key_list"
  by (simp add: property_key_list_def property_keys)

lemma distinct_rev_property_keys: "distinct (rev property_key_list)"
  by (simp add: distinct_property_keys)

lemmas property_key_neq =
  distinct_property_keys [unfolded property_key_list_def, simplified]
  distinct_rev_property_keys [unfolded property_key_list_def, simplified rev.simps append.simps, simplified]

text \<open>What a pair with a known key does, and what it means for the reference.\<close>

lemma try_parse_key:
  "try_parse ws p APPEND_ONLY v = map_option (\<lambda>x. p\<lparr> append_only := Some x \<rparr>) (parse_bool v)"
  "try_parse ws p AUTO_COMPACT v = map_option (\<lambda>x. p\<lparr> auto_compact := Some x \<rparr>) (parse_bool v)"
  "try_parse ws p OPTIMIZE_WRITE v = map_option (\<lambda>x. p\<lparr> optimize_write := Some x \<rparr>) (parse_bool v)"
  "try_parse ws p CHECKPOINT_INTERVAL v = map_option (\<lambda>x. p\<lparr> checkpoint_interval := Some x \<rparr>) (parse_positive_int v)"
  "try_parse ws p CHECKPOINT_WRITE_STATS_AS_JSON v = map_option (\<lambda>x. p\<lparr> checkpoint_write_stats_as_json := Some x \<rparr>) (parse_bool v)"
  "try_parse ws p CHECKPOINT_WRITE_STATS_AS_STRUCT v = map_option (\<lambda>x. p\<lparr> checkpoint_write_stats_as_struct := Some x \<rparr>) (parse_bool v)"
  "try_parse ws p COLUMN_MAPPING_MODE v = Some (p\<lparr> tp_column_mapping_mode := column_mapping_mode_from_str v \<rparr>)"
  "try_parse ws p DATA_SKIPPING_NUM_INDEXED_COLS v = Some (p\<lparr> data_skipping_num_indexed_cols := num_indexed_cols_try_from v \<rparr>)"
  "try_parse ws p DATA_SKIPPING_STATS_COLUMNS v = map_option (\<lambda>x. p\<lparr> data_skipping_stats_columns := Some x \<rparr>) (parse_column_names ws v)"
  "try_parse ws p DELETED_FILE_RETENTION_DURATION v = map_option (\<lambda>x. p\<lparr> deleted_file_retention_duration := Some x \<rparr>) (parse_interval ws v)"
  "try_parse ws p ENABLE_CHANGE_DATA_FEED v = map_option (\<lambda>x. p\<lparr> enable_change_data_feed := Some x \<rparr>) (parse_bool v)"
  "try_parse ws p ENABLE_DELETION_VECTORS v = map_option (\<lambda>x. p\<lparr> enable_deletion_vectors := Some x \<rparr>) (parse_bool v)"
  "try_parse ws p ENABLE_TYPE_WIDENING v = map_option (\<lambda>x. p\<lparr> enable_type_widening := Some x \<rparr>) (parse_bool v)"
  "try_parse ws p ENABLE_ICEBERG_COMPAT_V1 v = map_option (\<lambda>x. p\<lparr> enable_iceberg_compat_v1 := Some x \<rparr>) (parse_bool v)"
  "try_parse ws p ENABLE_ICEBERG_COMPAT_V2 v = map_option (\<lambda>x. p\<lparr> enable_iceberg_compat_v2 := Some x \<rparr>) (parse_bool v)"
  "try_parse ws p ISOLATION_LEVEL v = Some (p\<lparr> tp_isolation_level := isolation_level_from_str v \<rparr>)"
  "try_parse ws p LOG_RETENTION_DURATION v = map_option (\<lambda>x. p\<lparr> log_retention_duration := Some x \<rparr>) (parse_interval ws v)"
  "try_parse ws p ENABLE_EXPIRED_LOG_CLEANUP v = map_option (\<lambda>x. p\<lparr> enable_expired_log_cleanup := Some x \<rparr>) (parse_bool v)"
  "try_parse ws p RANDOMIZE_FILE_PREFIXES v = map_option (\<lambda>x. p\<lparr> randomize_file_prefixes := Some x \<rparr>) (parse_bool v)"
  "try_parse ws p RANDOM_PREFIX_LENGTH v = map_option (\<lambda>x. p\<lparr> random_prefix_length := Some x \<rparr>) (parse_positive_int v)"
  "try_parse ws p SET_TRANSACTION_RETENTION_DURATION v = map_option (\<lambda>x. p\<lparr> set_transaction_retention_duration := Some x \<rparr>) (parse_interval ws v)"
  "try_parse ws p TARGET_FILE_SIZE v = map_option (\<lambda>x. p\<lparr> target_file_size := Some x \<rparr>) (parse_positive_int v)"
  "try_parse ws p TUNE_FILE_SIZES_FOR_REWRITES v = map_option (\<lambda>x. p\<lparr> tune_file_sizes_for_rewrites := Some x \<rparr>) (parse_bool v)"
  "try_parse ws p CHECKPOINT_POLICY v = Some (p\<lparr> tp_checkpoint_policy := checkpoint_policy_from_str v \<rparr>)"
  "try_parse ws p ENABLE_ROW_TRACKING v = map_option (\<lambda>x. p\<lparr> enable_row_tracking := Some x \<rparr>) (parse_bool v)"
  "try_parse ws p ROW_TRACKING_SUSPENDED v = map_option (\<lambda>x. p\<lparr> row_tracking_suspended := Some x \<rparr>) (parse_bool v)"
  "try_parse ws p MATERIALIZED_ROW_ID_COLUMN_NAME v = Some (p\<lparr> materialized_row_id_column_name := Some v \<rparr>)"
  "try_parse ws p MATERIALIZED_ROW_COMMIT_VERSION_COLUMN_NAME v = Some (p\<lparr> materialized_row_commit_version_column_name := Some v \<rparr>)"
  "try_parse ws p ENABLE_IN_COMMIT_TIMESTAMPS v = map_option (\<lambda>x. p\<lparr> enable_in_commit_timestamps := Some x \<rparr>) (parse_bool v)"
  "try_parse ws p IN_COMMIT_TIMESTAMP_ENABLEMENT_VERSION v = map_option (\<lambda>x. p\<lparr> in_commit_timestamp_enablement_version := Some x \<rparr>) (parse_non_negative v)"
  "try_parse ws p IN_COMMIT_TIMESTAMP_ENABLEMENT_TIMESTAMP v = map_option (\<lambda>x. p\<lparr> in_commit_timestamp_enablement_timestamp := Some x \<rparr>) (parse_non_negative v)"
  unfolding try_parse_def by (simp_all add: property_key_neq)

lemma properties_of_hard:
  "m APPEND_ONLY = None \<Longrightarrow> properties_of ws (m(APPEND_ONLY \<mapsto> v)) r =
     (case parse_bool v of Some x \<Rightarrow> (properties_of ws m r)\<lparr> append_only := Some x \<rparr> | None \<Rightarrow> properties_of ws m r)"
  "m AUTO_COMPACT = None \<Longrightarrow> properties_of ws (m(AUTO_COMPACT \<mapsto> v)) r =
     (case parse_bool v of Some x \<Rightarrow> (properties_of ws m r)\<lparr> auto_compact := Some x \<rparr> | None \<Rightarrow> properties_of ws m r)"
  "m OPTIMIZE_WRITE = None \<Longrightarrow> properties_of ws (m(OPTIMIZE_WRITE \<mapsto> v)) r =
     (case parse_bool v of Some x \<Rightarrow> (properties_of ws m r)\<lparr> optimize_write := Some x \<rparr> | None \<Rightarrow> properties_of ws m r)"
  "m CHECKPOINT_INTERVAL = None \<Longrightarrow> properties_of ws (m(CHECKPOINT_INTERVAL \<mapsto> v)) r =
     (case parse_positive_int v of Some x \<Rightarrow> (properties_of ws m r)\<lparr> checkpoint_interval := Some x \<rparr> | None \<Rightarrow> properties_of ws m r)"
  "m CHECKPOINT_WRITE_STATS_AS_JSON = None \<Longrightarrow> properties_of ws (m(CHECKPOINT_WRITE_STATS_AS_JSON \<mapsto> v)) r =
     (case parse_bool v of Some x \<Rightarrow> (properties_of ws m r)\<lparr> checkpoint_write_stats_as_json := Some x \<rparr> | None \<Rightarrow> properties_of ws m r)"
  "m CHECKPOINT_WRITE_STATS_AS_STRUCT = None \<Longrightarrow> properties_of ws (m(CHECKPOINT_WRITE_STATS_AS_STRUCT \<mapsto> v)) r =
     (case parse_bool v of Some x \<Rightarrow> (properties_of ws m r)\<lparr> checkpoint_write_stats_as_struct := Some x \<rparr> | None \<Rightarrow> properties_of ws m r)"
  "m DATA_SKIPPING_STATS_COLUMNS = None \<Longrightarrow> properties_of ws (m(DATA_SKIPPING_STATS_COLUMNS \<mapsto> v)) r =
     (case parse_column_names ws v of Some x \<Rightarrow> (properties_of ws m r)\<lparr> data_skipping_stats_columns := Some x \<rparr> | None \<Rightarrow> properties_of ws m r)"
  "m DELETED_FILE_RETENTION_DURATION = None \<Longrightarrow> properties_of ws (m(DELETED_FILE_RETENTION_DURATION \<mapsto> v)) r =
     (case parse_interval ws v of Some x \<Rightarrow> (properties_of ws m r)\<lparr> deleted_file_retention_duration := Some x \<rparr> | None \<Rightarrow> properties_of ws m r)"
  "m ENABLE_CHANGE_DATA_FEED = None \<Longrightarrow> properties_of ws (m(ENABLE_CHANGE_DATA_FEED \<mapsto> v)) r =
     (case parse_bool v of Some x \<Rightarrow> (properties_of ws m r)\<lparr> enable_change_data_feed := Some x \<rparr> | None \<Rightarrow> properties_of ws m r)"
  "m ENABLE_DELETION_VECTORS = None \<Longrightarrow> properties_of ws (m(ENABLE_DELETION_VECTORS \<mapsto> v)) r =
     (case parse_bool v of Some x \<Rightarrow> (properties_of ws m r)\<lparr> enable_deletion_vectors := Some x \<rparr> | None \<Rightarrow> properties_of ws m r)"
  "m ENABLE_TYPE_WIDENING = None \<Longrightarrow> properties_of ws (m(ENABLE_TYPE_WIDENING \<mapsto> v)) r =
     (case parse_bool v of Some x \<Rightarrow> (properties_of ws m r)\<lparr> enable_type_widening := Some x \<rparr> | None \<Rightarrow> properties_of ws m r)"
  "m ENABLE_ICEBERG_COMPAT_V1 = None \<Longrightarrow> properties_of ws (m(ENABLE_ICEBERG_COMPAT_V1 \<mapsto> v)) r =
     (case parse_bool v of Some x \<Rightarrow> (properties_of ws m r)\<lparr> enable_iceberg_compat_v1 := Some x \<rparr> | None \<Rightarrow> properties_of ws m r)"
  "m ENABLE_ICEBERG_COMPAT_V2 = None \<Longrightarrow> properties_of ws (m(ENABLE_ICEBERG_COMPAT_V2 \<mapsto> v)) r =
     (case parse_bool v of Some x \<Rightarrow> (properties_of ws m r)\<lparr> enable_iceberg_compat_v2 := Some x \<rparr> | None \<Rightarrow> properties_of ws m r)"
  "m LOG_RETENTION_DURATION = None \<Longrightarrow> properties_of ws (m(LOG_RETENTION_DURATION \<mapsto> v)) r =
     (case parse_interval ws v of Some x \<Rightarrow> (properties_of ws m r)\<lparr> log_retention_duration := Some x \<rparr> | None \<Rightarrow> properties_of ws m r)"
  "m ENABLE_EXPIRED_LOG_CLEANUP = None \<Longrightarrow> properties_of ws (m(ENABLE_EXPIRED_LOG_CLEANUP \<mapsto> v)) r =
     (case parse_bool v of Some x \<Rightarrow> (properties_of ws m r)\<lparr> enable_expired_log_cleanup := Some x \<rparr> | None \<Rightarrow> properties_of ws m r)"
  "m RANDOMIZE_FILE_PREFIXES = None \<Longrightarrow> properties_of ws (m(RANDOMIZE_FILE_PREFIXES \<mapsto> v)) r =
     (case parse_bool v of Some x \<Rightarrow> (properties_of ws m r)\<lparr> randomize_file_prefixes := Some x \<rparr> | None \<Rightarrow> properties_of ws m r)"
  "m RANDOM_PREFIX_LENGTH = None \<Longrightarrow> properties_of ws (m(RANDOM_PREFIX_LENGTH \<mapsto> v)) r =
     (case parse_positive_int v of Some x \<Rightarrow> (properties_of ws m r)\<lparr> random_prefix_length := Some x \<rparr> | None \<Rightarrow> properties_of ws m r)"
  "m SET_TRANSACTION_RETENTION_DURATION = None \<Longrightarrow> properties_of ws (m(SET_TRANSACTION_RETENTION_DURATION \<mapsto> v)) r =
     (case parse_interval ws v of Some x \<Rightarrow> (properties_of ws m r)\<lparr> set_transaction_retention_duration := Some x \<rparr> | None \<Rightarrow> properties_of ws m r)"
  "m TARGET_FILE_SIZE = None \<Longrightarrow> properties_of ws (m(TARGET_FILE_SIZE \<mapsto> v)) r =
     (case parse_positive_int v of Some x \<Rightarrow> (properties_of ws m r)\<lparr> target_file_size := Some x \<rparr> | None \<Rightarrow> properties_of ws m r)"
  "m TUNE_FILE_SIZES_FOR_REWRITES = None \<Longrightarrow> properties_of ws (m(TUNE_FILE_SIZES_FOR_REWRITES \<mapsto> v)) r =
     (case parse_bool v of Some x \<Rightarrow> (properties_of ws m r)\<lparr> tune_file_sizes_for_rewrites := Some x \<rparr> | None \<Rightarrow> properties_of ws m r)"
  "m ENABLE_ROW_TRACKING = None \<Longrightarrow> properties_of ws (m(ENABLE_ROW_TRACKING \<mapsto> v)) r =
     (case parse_bool v of Some x \<Rightarrow> (properties_of ws m r)\<lparr> enable_row_tracking := Some x \<rparr> | None \<Rightarrow> properties_of ws m r)"
  "m ROW_TRACKING_SUSPENDED = None \<Longrightarrow> properties_of ws (m(ROW_TRACKING_SUSPENDED \<mapsto> v)) r =
     (case parse_bool v of Some x \<Rightarrow> (properties_of ws m r)\<lparr> row_tracking_suspended := Some x \<rparr> | None \<Rightarrow> properties_of ws m r)"
  "m ENABLE_IN_COMMIT_TIMESTAMPS = None \<Longrightarrow> properties_of ws (m(ENABLE_IN_COMMIT_TIMESTAMPS \<mapsto> v)) r =
     (case parse_bool v of Some x \<Rightarrow> (properties_of ws m r)\<lparr> enable_in_commit_timestamps := Some x \<rparr> | None \<Rightarrow> properties_of ws m r)"
  "m IN_COMMIT_TIMESTAMP_ENABLEMENT_VERSION = None \<Longrightarrow> properties_of ws (m(IN_COMMIT_TIMESTAMP_ENABLEMENT_VERSION \<mapsto> v)) r =
     (case parse_non_negative v of Some x \<Rightarrow> (properties_of ws m r)\<lparr> in_commit_timestamp_enablement_version := Some x \<rparr> | None \<Rightarrow> properties_of ws m r)"
  "m IN_COMMIT_TIMESTAMP_ENABLEMENT_TIMESTAMP = None \<Longrightarrow> properties_of ws (m(IN_COMMIT_TIMESTAMP_ENABLEMENT_TIMESTAMP \<mapsto> v)) r =
     (case parse_non_negative v of Some x \<Rightarrow> (properties_of ws m r)\<lparr> in_commit_timestamp_enablement_timestamp := Some x \<rparr> | None \<Rightarrow> properties_of ws m r)"
  unfolding properties_of_def by (simp_all add: property_key_neq split: option.split)

lemma properties_of_soft:
  "properties_of ws (m(COLUMN_MAPPING_MODE \<mapsto> v)) r = (properties_of ws m r)\<lparr> tp_column_mapping_mode := column_mapping_mode_from_str v \<rparr>"
  "properties_of ws (m(DATA_SKIPPING_NUM_INDEXED_COLS \<mapsto> v)) r = (properties_of ws m r)\<lparr> data_skipping_num_indexed_cols := num_indexed_cols_try_from v \<rparr>"
  "properties_of ws (m(ISOLATION_LEVEL \<mapsto> v)) r = (properties_of ws m r)\<lparr> tp_isolation_level := isolation_level_from_str v \<rparr>"
  "properties_of ws (m(CHECKPOINT_POLICY \<mapsto> v)) r = (properties_of ws m r)\<lparr> tp_checkpoint_policy := checkpoint_policy_from_str v \<rparr>"
  "properties_of ws (m(MATERIALIZED_ROW_ID_COLUMN_NAME \<mapsto> v)) r = (properties_of ws m r)\<lparr> materialized_row_id_column_name := Some v \<rparr>"
  "properties_of ws (m(MATERIALIZED_ROW_COMMIT_VERSION_COLUMN_NAME \<mapsto> v)) r = (properties_of ws m r)\<lparr> materialized_row_commit_version_column_name := Some v \<rparr>"
  unfolding properties_of_def by (simp_all add: property_key_neq)

lemma try_parse_other: "k \<notin> set property_key_list \<Longrightarrow> try_parse ws p k v = None"
  by (simp add: property_key_list_def try_parse_def)

lemma properties_of_other:
  "k \<notin> set property_key_list \<Longrightarrow> properties_of ws (m(k \<mapsto> v)) r = properties_of ws m r"
  unfolding property_key_list_def properties_of_def fun_upd_def by (simp add: eq_commute [of _ k])

text \<open>One pair: the property of its key is set, or nothing changes.\<close>

lemma hard_pair:
  assumes "\<And>p. try_parse ws p k v = map_option (\<lambda>x. W x p) q"
    and "properties_of ws (m(k \<mapsto> v)) r = (case q of Some x \<Rightarrow> W x (properties_of ws m r) | None \<Rightarrow> properties_of ws m r)"
  shows "try_parse ws (properties_of ws m r) k v =
      (if understood ws k v then Some (properties_of ws (m(k \<mapsto> v)) r) else None) \<and>
    (\<not> understood ws k v \<longrightarrow> properties_of ws (m(k \<mapsto> v)) r = properties_of ws m r)"
  unfolding understood_def assms by (cases q) simp_all

lemma soft_pair:
  assumes "\<And>p. try_parse ws p k v = Some (W p)" and "properties_of ws (m(k \<mapsto> v)) r = W (properties_of ws m r)"
  shows "try_parse ws (properties_of ws m r) k v =
      (if understood ws k v then Some (properties_of ws (m(k \<mapsto> v)) r) else None) \<and>
    (\<not> understood ws k v \<longrightarrow> properties_of ws (m(k \<mapsto> v)) r = properties_of ws m r)"
  unfolding understood_def assms by simp

lemma try_parse_properties_of:
  assumes "m k = None"
  shows "try_parse ws (properties_of ws m r) k v =
      (if understood ws k v then Some (properties_of ws (m(k \<mapsto> v)) r) else None) \<and>
    (\<not> understood ws k v \<longrightarrow> properties_of ws (m(k \<mapsto> v)) r = properties_of ws m r)"
proof (cases "k \<in> set property_key_list")
  case True
  then show ?thesis
    using assms unfolding property_key_list_def set_simps insert_iff empty_iff simp_thms
    by - (elim disjE; hypsubst;
        ((rule hard_pair, rule try_parse_key, rule properties_of_hard, assumption) |
         (rule soft_pair, rule try_parse_key, rule properties_of_soft)))
next
  case False
  then show ?thesis by (simp add: understood_def try_parse_other properties_of_other)
qed

lemma from_fold:
  assumes "distinct (map fst kvs)"
  shows "fold (from_step ws) kvs (default_properties, []) =
    (properties_of ws (map_of kvs) [], filter (\<lambda>(k, v). \<not> understood ws k v) kvs)"
  using assms
proof (induction kvs rule: rev_induct)
  case Nil
  then show ?case by (simp add: default_properties_def properties_of_def)
next
  case (snoc kv kvs)
  obtain k v where kv: "kv = (k, v)" by fastforce
  have new: "map_of kvs k = None" "k \<notin> fst ` set kvs"
    using snoc.prems kv by (auto simp: map_of_eq_None_iff)
  have m: "map_of (kvs @ [(k, v)]) = (map_of kvs)(k \<mapsto> v)"
    using new by (auto simp: map_add_def fun_eq_iff split: option.splits)
  have upd: "AList.update k v (filter P kvs) = filter P kvs @ [(k, v)]" for P
    using new(2) by (induction kvs) auto
  have IH: "fold (from_step ws) kvs (default_properties, []) =
      (properties_of ws (map_of kvs) [], filter (\<lambda>(k, v). \<not> understood ws k v) kvs)"
    using snoc by simp
  show ?case
    using try_parse_properties_of [of "map_of kvs" k ws "[]" v, OF new(1)]
    unfolding kv m fold_append comp_apply IH
    by (simp add: upd from_step_def fun_upd_def)
qed

text \<open>
  The typed properties are exactly what the configuration says, whatever the order of its
  entries: each property is its own key's value run through its parser, absent when the key is
  absent or the value does not parse, and the unknown properties are exactly the pairs with a key
  that is not known or, but for the four keys whose parser's outcome is stored as it is, a value
  that does not parse.
\<close>

theorem properties_from_lossless:
  assumes "distinct (map fst kvs)"
  shows "properties_from ws kvs =
    properties_of ws (map_of kvs) (filter (\<lambda>(k, v). \<not> understood ws k v) kvs)"
  using from_fold [OF assms] by (simp add: properties_from_def properties_of_def)

theorem properties_from_lossless_witness:
  "properties_from (\<lambda>c. c = CHR '' '') [(APPEND_ONLY, ''true''), (CHECKPOINT_INTERVAL, ''0''), (''delta.foo'', ''1'')] =
   default_properties\<lparr> append_only := Some True,
     unknown_properties := [(CHECKPOINT_INTERVAL, ''0''), (''delta.foo'', ''1'')] \<rparr>"
proof -
  let ?kvs = "[(APPEND_ONLY, ''true''), (CHECKPOINT_INTERVAL, ''0''), (''delta.foo'', ''1'')]"
  have d: "distinct (map fst ?kvs)" by (simp add: property_keys)
  have zero: "parse_positive_int ''0'' = None" by code_simp
  have u: "understood ws APPEND_ONLY ''true''" "\<not> understood ws CHECKPOINT_INTERVAL ''0''"
    "\<not> understood ws ''delta.foo'' ''1''" for ws
    unfolding understood_def try_parse_key
    by (simp_all add: parse_bool_def zero try_parse_other property_key_list_def property_keys)
  show ?thesis
    unfolding properties_from_lossless [OF d]
    by (simp add: u) (simp add: properties_of_def default_properties_def property_keys zero parse_bool_def)
qed

section \<open>Intervals are exact below the range of seconds\<close>

text \<open>The number of nanoseconds of a unit.\<close>

definition unit_nanos :: "string \<Rightarrow> nat option" where
  "unit_nanos = map_of
     [(''nanosecond'', 1), (''nanoseconds'', 1), (''microsecond'', 1000), (''microseconds'', 1000),
      (''millisecond'', 1000000), (''milliseconds'', 1000000), (''second'', 1000000000), (''seconds'', 1000000000),
      (''minute'', 60000000000), (''minutes'', 60000000000), (''hour'', 3600000000000), (''hours'', 3600000000000),
      (''day'', 86400000000000), (''days'', 86400000000000), (''week'', 604800000000000), (''weeks'', 604800000000000)]"

lemma interval_of_unit_exact:
  assumes "unit_nanos unit = Some f" "unat n * f < 2 ^ 64 * 1000000000"
  shows "interval_of_unit n unit = Inr (unat n * f)"
  using assms
  by (auto simp: unit_nanos_def interval_of_unit_def from_secs_def SECONDS_PER_MINUTE_def SECONDS_PER_HOUR_def
      SECONDS_PER_DAY_def SECONDS_PER_WEEK_def unat_word_ariths split: if_splits)

text \<open>
  Beyond that range the product wraps: an interval of more than half a trillion years is read as
  44 seconds.
\<close>

lemma interval_wraps:
  "parse_interval (\<lambda>c. c = CHR '' '') ''interval 307445734561825861 minutes'' = Some (44 * 1000000000)"
proof -
  have "parse_sint 64 ''307445734561825861'' = Some 307445734561825861"
    by (simp add: parse_sint_def nat_of_digits_def is_digit_def digit_value_def Let_def)
  then have "parse_interval_impl (\<lambda>c. c = CHR '' '') ''interval 307445734561825861 minutes'' =
      interval_of_unit (word_of_int 307445734561825861) ''minutes''"
    by (simp add: parse_interval_impl_def Let_def)
  then show ?thesis
    by (simp add: parse_interval_def interval_of_unit_def from_secs_def SECONDS_PER_MINUTE_def)
qed

text \<open>
  A value that does not parse is dropped for the four keys that store the outcome of their parser:
  the property is unset and the pair is not among the unknown properties.
\<close>

lemma invalid_mode_forgotten:
  "properties_from (\<lambda>c. c = CHR '' '') [(COLUMN_MAPPING_MODE, ''Name''), (ISOLATION_LEVEL, ''Serializable'')] = default_properties"
proof -
  have "column_mapping_mode_from_str ''Name'' = None" "isolation_level_from_str ''Serializable'' = None"
    by code_simp+
  then show ?thesis
    by (simp add: properties_from_def from_step_def try_parse_key) (simp add: default_properties_def)
qed

end
