(* ===== verification/TableFeatures.thy ===== *)
theory TableFeatures
  imports TableProperties
begin

text \<open>
  Table features and the protocol action (\<open>table_features/mod.rs\<close>, \<open>Protocol\<close> of \<open>actions/mod.rs\<close>):
  the features with their names, the static table of what each requires and how far the kernel
  supports it, and the validation of a protocol. Protocol versions are \<open>i32\<close> values that are only
  compared, so they are integers here. The cargo feature \<open>catalog-managed\<close>, which selects between
  two initialisers at compile time, is the parameter \<open>cm\<close>.
\<close>

section \<open>Features\<close>

datatype table_feature =
    AppendOnly | Invariants | CheckConstraints | ChangeDataFeed | GeneratedColumns | IdentityColumns
  | InCommitTimestamp | RowTracking | DomainMetadata | IcebergCompatV1 | IcebergCompatV2 | ClusteredTable
  | MaterializePartitionColumns
  | CatalogManaged | CatalogOwnedPreview | ColumnMapping | DeletionVectors | TimestampWithoutTimezone
  | TypeWidening | TypeWideningPreview | V2Checkpoint | VacuumProtocolCheck | VariantType
  | VariantTypePreview | VariantShreddingPreview
  | UnknownFeature string

text \<open>The derived \<open>Display\<close> and \<open>FromStr\<close>: camel case, three renamings, and a catch-all variant.\<close>

definition feature_names :: "(table_feature \<times> string) list" where
  "feature_names =
     [(AppendOnly, ''appendOnly''), (Invariants, ''invariants''), (CheckConstraints, ''checkConstraints''),
      (ChangeDataFeed, ''changeDataFeed''), (GeneratedColumns, ''generatedColumns''),
      (IdentityColumns, ''identityColumns''), (InCommitTimestamp, ''inCommitTimestamp''),
      (RowTracking, ''rowTracking''), (DomainMetadata, ''domainMetadata''), (IcebergCompatV1, ''icebergCompatV1''),
      (IcebergCompatV2, ''icebergCompatV2''), (ClusteredTable, ''clustering''),
      (MaterializePartitionColumns, ''materializePartitionColumns''), (CatalogManaged, ''catalogManaged''),
      (CatalogOwnedPreview, ''catalogOwned-preview''), (ColumnMapping, ''columnMapping''),
      (DeletionVectors, ''deletionVectors''), (TimestampWithoutTimezone, ''timestampNtz''),
      (TypeWidening, ''typeWidening''), (TypeWideningPreview, ''typeWidening-preview''),
      (V2Checkpoint, ''v2Checkpoint''), (VacuumProtocolCheck, ''vacuumProtocolCheck''),
      (VariantType, ''variantType''), (VariantTypePreview, ''variantType-preview''),
      (VariantShreddingPreview, ''variantShredding-preview'')]"

definition feature_to_string :: "table_feature \<Rightarrow> string" where
  "feature_to_string f =
     (case f of UnknownFeature s \<Rightarrow> s | _ \<Rightarrow> the (map_of feature_names f))"

definition into_table_feature :: "string \<Rightarrow> table_feature" where
  "into_table_feature s =
     (case map_of (map (\<lambda>(f, n). (n, f)) feature_names) s of Some f \<Rightarrow> f | None \<Rightarrow> UnknownFeature s)"

definition known_features :: "table_feature list" where
  "known_features = map fst feature_names"

datatype feature_type = WriterOnly | ReaderWriter | UnknownType

definition feature_type :: "table_feature \<Rightarrow> feature_type" where
  "feature_type f =
     (case f of
        CatalogManaged \<Rightarrow> ReaderWriter | CatalogOwnedPreview \<Rightarrow> ReaderWriter | ColumnMapping \<Rightarrow> ReaderWriter
      | DeletionVectors \<Rightarrow> ReaderWriter | TimestampWithoutTimezone \<Rightarrow> ReaderWriter | TypeWidening \<Rightarrow> ReaderWriter
      | TypeWideningPreview \<Rightarrow> ReaderWriter | V2Checkpoint \<Rightarrow> ReaderWriter | VacuumProtocolCheck \<Rightarrow> ReaderWriter
      | VariantType \<Rightarrow> ReaderWriter | VariantTypePreview \<Rightarrow> ReaderWriter | VariantShreddingPreview \<Rightarrow> ReaderWriter
      | UnknownFeature _ \<Rightarrow> UnknownType
      | _ \<Rightarrow> WriterOnly)"

section \<open>The protocol\<close>

definition TABLE_FEATURES_MIN_READER_VERSION :: int where "TABLE_FEATURES_MIN_READER_VERSION = 3"
definition TABLE_FEATURES_MIN_WRITER_VERSION :: int where "TABLE_FEATURES_MIN_WRITER_VERSION = 7"
definition MAX_VALID_READER_VERSION :: int where "MAX_VALID_READER_VERSION = 3"
definition MAX_VALID_WRITER_VERSION :: int where "MAX_VALID_WRITER_VERSION = 7"

lemmas protocol_constants = TABLE_FEATURES_MIN_READER_VERSION_def TABLE_FEATURES_MIN_WRITER_VERSION_def
  MAX_VALID_READER_VERSION_def MAX_VALID_WRITER_VERSION_def

record protocol =
  min_reader_version :: int
  min_writer_version :: int
  reader_features :: "table_feature list option"
  writer_features :: "table_feature list option"

definition parse_features :: "string list option \<Rightarrow> table_feature list option" where
  "parse_features = map_option (map into_table_feature)"

text \<open>The validation of the feature lists; the caller passes features or names of features.\<close>

definition check_feature_lists ::
  "int \<Rightarrow> table_feature list option \<Rightarrow> table_feature list option \<Rightarrow> unit delta_result" where
  "check_feature_lists min_reader rfs wfs =
     (case (rfs, wfs) of
        (Some rs, Some ws) \<Rightarrow>
          rbind (require (list_all (\<lambda>f. feature_type f \<in> {ReaderWriter, UnknownType} \<and> f \<in> set ws) rs)
            (InvalidProtocol ''Reader features must contain only ReaderWriter features that are also listed in writer features''))
          (\<lambda>_. require (list_all (\<lambda>f. case feature_type f of ReaderWriter \<Rightarrow> f \<in> set rs | _ \<Rightarrow> True) ws)
            (InvalidProtocol ''Writer features must be Writer-only or also listed in reader features''))
      | (None, None) \<Rightarrow> Inr ()
      | (None, Some ws) \<Rightarrow>
          require (list_all (\<lambda>f. case feature_type f of
              ReaderWriter \<Rightarrow> min_reader = 2 \<and> f = ColumnMapping | _ \<Rightarrow> True) ws)
            (InvalidProtocol ''Writer features must be Writer-only or also listed in reader features'')
      | (Some _, None) \<Rightarrow> Inl (InvalidProtocol ''Reader features should be present in writer features''))"

definition protocol_try_new ::
  "int \<Rightarrow> int \<Rightarrow> table_feature list option \<Rightarrow> table_feature list option \<Rightarrow> protocol delta_result" where
  "protocol_try_new min_reader min_writer rfs wfs =
     rbind (if min_reader = TABLE_FEATURES_MIN_READER_VERSION
            then require (rfs \<noteq> None) (InvalidProtocol ''Reader features must be present when minimum reader version = 3'')
            else require (rfs = None) (InvalidProtocol ''Reader features must not be present when minimum reader version != 3''))
     (\<lambda>_. rbind (if min_writer = TABLE_FEATURES_MIN_WRITER_VERSION
            then require (wfs \<noteq> None) (InvalidProtocol ''Writer features must be present when minimum writer version = 7'')
            else require (wfs = None) (InvalidProtocol ''Writer features must not be present when minimum writer version != 7''))
     (\<lambda>_. rbind (check_feature_lists min_reader rfs wfs)
     (\<lambda>_. Inr \<lparr> min_reader_version = min_reader, min_writer_version = min_writer,
                reader_features = rfs, writer_features = wfs \<rparr>)))"

definition try_new_modern :: "table_feature list \<Rightarrow> table_feature list \<Rightarrow> protocol delta_result" where
  "try_new_modern rs ws =
     protocol_try_new TABLE_FEATURES_MIN_READER_VERSION TABLE_FEATURES_MIN_WRITER_VERSION (Some rs) (Some ws)"

text \<open>\<open>Protocol::has_table_feature\<close> consults the writer features only.\<close>

definition has_feature :: "table_feature list option \<Rightarrow> table_feature \<Rightarrow> bool" where
  "has_feature fs f = (case fs of None \<Rightarrow> False | Some fs \<Rightarrow> f \<in> set fs)"

definition has_table_feature :: "protocol \<Rightarrow> table_feature \<Rightarrow> bool" where
  "has_table_feature p f = has_feature (writer_features p) f"

definition column_mapping_mode :: "protocol \<Rightarrow> table_properties \<Rightarrow> column_mapping_mode" where
  "column_mapping_mode p props =
     (case tp_column_mapping_mode props of
        None \<Rightarrow> NoMapping
      | Some mode \<Rightarrow>
          if min_reader_version p = 2 then mode
          else if min_reader_version p = 3 \<and> has_table_feature p ColumnMapping then mode
          else NoMapping)"

section \<open>What the kernel knows of each feature\<close>

datatype operation = OpScan | OpCdf | OpWrite

datatype enablement_check = AlwaysIfSupported | EnabledIf "table_properties \<Rightarrow> bool"

datatype kernel_support =
    KernelSupported
  | KernelNotSupported
  | KernelCustom "protocol \<Rightarrow> table_properties \<Rightarrow> operation \<Rightarrow> unit delta_result"

datatype feature_requirement =
    ReqSupported table_feature
  | ReqEnabled table_feature
  | ReqNotSupported table_feature
  | ReqNotEnabled table_feature
  | ReqCustom "protocol \<Rightarrow> table_properties \<Rightarrow> unit delta_result"

record feature_info =
  fi_feature_type :: feature_type
  min_legacy_version :: "(int \<times> int) option"
  feature_requirements :: "feature_requirement list"
  fi_kernel_support :: kernel_support
  fi_enablement_check :: enablement_check

definition mk_info where
  "mk_info ty legacy reqs support check =
     \<lparr> fi_feature_type = ty, min_legacy_version = legacy, feature_requirements = reqs,
       fi_kernel_support = support, fi_enablement_check = check \<rparr>"

definition requires_mapping_mode :: "string \<Rightarrow> protocol \<Rightarrow> table_properties \<Rightarrow> unit delta_result" where
  "requires_mapping_mode msg _ props =
     (if tp_column_mapping_mode props \<in> {Some NameMapping, Some IdMapping} then Inr () else Inl (Generic msg))"

definition not_for :: "operation \<Rightarrow> string \<Rightarrow> protocol \<Rightarrow> table_properties \<Rightarrow> operation \<Rightarrow> unit delta_result" where
  "not_for bad msg _ _ op = (if op = bad then Inl (Unsupported msg) else Inr ())"

definition feature_info :: "bool \<Rightarrow> table_feature \<Rightarrow> feature_info" where
  "feature_info cm f =
     (case f of
        AppendOnly \<Rightarrow> mk_info WriterOnly (Some (1, 2)) [] KernelSupported
          (EnabledIf (\<lambda>p. append_only p = Some True))
      | Invariants \<Rightarrow> mk_info WriterOnly (Some (1, 2)) [] KernelSupported AlwaysIfSupported
      | CheckConstraints \<Rightarrow> mk_info WriterOnly (Some (1, 3)) [] KernelNotSupported AlwaysIfSupported
      | ChangeDataFeed \<Rightarrow> mk_info WriterOnly (Some (1, 4)) [] KernelSupported
          (EnabledIf (\<lambda>p. enable_change_data_feed p = Some True))
      | GeneratedColumns \<Rightarrow> mk_info WriterOnly (Some (1, 4)) [] KernelNotSupported AlwaysIfSupported
      | IdentityColumns \<Rightarrow> mk_info WriterOnly (Some (1, 6)) [] KernelNotSupported AlwaysIfSupported
      | InCommitTimestamp \<Rightarrow> mk_info WriterOnly None [] (KernelCustom (\<lambda>_ _ _. Inr ()))
          (EnabledIf (\<lambda>p. enable_in_commit_timestamps p = Some True))
      | RowTracking \<Rightarrow> mk_info WriterOnly None [ReqSupported DomainMetadata] KernelSupported
          (EnabledIf (\<lambda>p. enable_row_tracking p = Some True \<and> row_tracking_suspended p \<noteq> Some True))
      | DomainMetadata \<Rightarrow> mk_info WriterOnly None [] KernelSupported AlwaysIfSupported
      | IcebergCompatV1 \<Rightarrow> mk_info WriterOnly None
          [ReqEnabled ColumnMapping,
           ReqCustom (requires_mapping_mode ''IcebergCompatV1 requires Column Mapping in 'name' or 'id' mode''),
           ReqNotSupported DeletionVectors]
          KernelNotSupported (EnabledIf (\<lambda>p. enable_iceberg_compat_v1 p = Some True))
      | IcebergCompatV2 \<Rightarrow> mk_info WriterOnly None
          [ReqEnabled ColumnMapping,
           ReqCustom (requires_mapping_mode ''IcebergCompatV2 requires Column Mapping in 'name' or 'id' mode''),
           ReqNotEnabled IcebergCompatV1, ReqNotEnabled DeletionVectors]
          KernelNotSupported (EnabledIf (\<lambda>p. enable_iceberg_compat_v2 p = Some True))
      | ClusteredTable \<Rightarrow> mk_info WriterOnly None [ReqSupported DomainMetadata] KernelSupported AlwaysIfSupported
      | MaterializePartitionColumns \<Rightarrow> mk_info WriterOnly None [] KernelSupported AlwaysIfSupported
      | CatalogManaged \<Rightarrow> mk_info ReaderWriter None []
          (if cm then KernelCustom (not_for OpCdf ''Feature 'catalogManaged' is not supported for CDF'')
           else KernelNotSupported) AlwaysIfSupported
      | CatalogOwnedPreview \<Rightarrow> mk_info ReaderWriter None []
          (if cm then KernelCustom (not_for OpCdf ''Feature 'catalogOwned-preview' is not supported for CDF'')
           else KernelNotSupported) AlwaysIfSupported
      | ColumnMapping \<Rightarrow> mk_info ReaderWriter (Some (2, 5)) [] KernelSupported
          (EnabledIf (\<lambda>p. tp_column_mapping_mode p \<noteq> None \<and> tp_column_mapping_mode p \<noteq> Some NoMapping))
      | DeletionVectors \<Rightarrow> mk_info ReaderWriter None [] KernelSupported
          (EnabledIf (\<lambda>p. enable_deletion_vectors p = Some True))
      | TimestampWithoutTimezone \<Rightarrow> mk_info ReaderWriter None [] KernelSupported AlwaysIfSupported
      | TypeWidening \<Rightarrow> mk_info ReaderWriter None []
          (KernelCustom (not_for OpWrite ''Feature 'typeWidening' is not supported for writes''))
          (EnabledIf (\<lambda>p. enable_type_widening p = Some True))
      | TypeWideningPreview \<Rightarrow> mk_info ReaderWriter None []
          (KernelCustom (not_for OpWrite ''Feature 'typeWidening-preview' is not supported for writes''))
          (EnabledIf (\<lambda>p. enable_type_widening p = Some True))
      | V2Checkpoint \<Rightarrow> mk_info ReaderWriter None [] KernelSupported AlwaysIfSupported
      | VacuumProtocolCheck \<Rightarrow> mk_info ReaderWriter None [] KernelSupported AlwaysIfSupported
      | VariantType \<Rightarrow> mk_info ReaderWriter None [] KernelSupported AlwaysIfSupported
      | VariantTypePreview \<Rightarrow> mk_info ReaderWriter None [] KernelSupported AlwaysIfSupported
      | VariantShreddingPreview \<Rightarrow> mk_info ReaderWriter None [] KernelSupported AlwaysIfSupported
      | UnknownFeature _ \<Rightarrow> mk_info UnknownType None [] KernelNotSupported AlwaysIfSupported)"

definition is_valid_for_legacy_reader :: "table_feature \<Rightarrow> int \<Rightarrow> bool" where
  "is_valid_for_legacy_reader f v =
     (case min_legacy_version (feature_info False f) of Some (r, _) \<Rightarrow> r \<le> v | None \<Rightarrow> False)"

definition is_valid_for_legacy_writer :: "table_feature \<Rightarrow> int \<Rightarrow> bool" where
  "is_valid_for_legacy_writer f v =
     (case min_legacy_version (feature_info False f) of Some (_, w) \<Rightarrow> w \<le> v | None \<Rightarrow> False)"

definition LEGACY_READER_FEATURES :: "table_feature list" where
  "LEGACY_READER_FEATURES = [ColumnMapping]"

definition LEGACY_WRITER_FEATURES :: "table_feature list" where
  "LEGACY_WRITER_FEATURES =
     [AppendOnly, Invariants, CheckConstraints, ChangeDataFeed, GeneratedColumns, IdentityColumns, ColumnMapping]"

section \<open>Names of features\<close>

lemma distinct_feature_names: "distinct (map fst feature_names)" "distinct (map snd feature_names)"
  by (simp_all add: feature_names_def)

lemma known_or_unknown: "f \<in> set known_features \<or> (\<exists>s. f = UnknownFeature s)"
  by (cases f) (simp_all add: known_features_def feature_names_def)

lemma feature_to_string_known: "(f, s) \<in> set feature_names \<Longrightarrow> feature_to_string f = s"
proof -
  assume a: "(f, s) \<in> set feature_names"
  then have "map_of feature_names f = Some s" by (simp add: distinct_feature_names(1))
  moreover from a have "\<And>u. f \<noteq> UnknownFeature u" by (auto simp: feature_names_def)
  ultimately show ?thesis by (auto simp: feature_to_string_def split: table_feature.split)
qed

lemma into_table_feature_known: "(f, s) \<in> set feature_names \<Longrightarrow> into_table_feature s = f"
proof -
  assume "(f, s) \<in> set feature_names"
  then have "(s, f) \<in> set (map (\<lambda>(f, n). (n, f)) feature_names)" by force
  moreover have "distinct (map fst (map (\<lambda>(f, n). (n, f)) feature_names))"
    using distinct_feature_names(2) by (simp add: comp_def case_prod_beta')
  ultimately show ?thesis by (simp add: into_table_feature_def)
qed

text \<open>
  Names of table features round-trip. Parsing any name, known or not, and printing the feature
  gives the name back, so no feature of a protocol is renamed when it is read and written again, and
  two names never parse to the same feature; printing and parsing gives back every feature except an
  unknown feature that carries the name of a known one.
\<close>

theorem feature_names_roundtrip:
  "feature_to_string (into_table_feature s) = s \<and>
   (into_table_feature (feature_to_string f) = f \<longleftrightarrow> (\<forall>(g, n) \<in> set feature_names. f \<noteq> UnknownFeature n))"
proof
  show "feature_to_string (into_table_feature s) = s"
  proof (cases "\<exists>f. (f, s) \<in> set feature_names")
    case True
    then show ?thesis using feature_to_string_known into_table_feature_known by metis
  next
    case False
    then have "map_of (map (\<lambda>(f, n). (n, f)) feature_names) s = None"
      by (auto simp: map_of_eq_None_iff)
    then show ?thesis by (simp add: into_table_feature_def feature_to_string_def)
  qed
  show "into_table_feature (feature_to_string f) = f \<longleftrightarrow> (\<forall>(g, n) \<in> set feature_names. f \<noteq> UnknownFeature n)"
  proof (cases "f \<in> set known_features")
    case True
    then obtain n where n: "(f, n) \<in> set feature_names" by (auto simp: known_features_def)
    then have "\<And>u. f \<noteq> UnknownFeature u" by (auto simp: feature_names_def)
    then show ?thesis using n by (simp add: feature_to_string_known into_table_feature_known)
  next
    case False
    then obtain u where u: "f = UnknownFeature u" using known_or_unknown by blast
    have "into_table_feature u = UnknownFeature u \<longleftrightarrow> (\<forall>(g, n) \<in> set feature_names. u \<noteq> n)"
    proof (cases "\<exists>g. (g, u) \<in> set feature_names")
      case True
      then obtain g where g: "(g, u) \<in> set feature_names" by blast
      then have "g \<noteq> UnknownFeature u" by (auto simp: feature_names_def)
      then show ?thesis using g by (auto simp: into_table_feature_known)
    next
      case none: False
      then have "map_of (map (\<lambda>(f, n). (n, f)) feature_names) u = None"
        by (auto simp: map_of_eq_None_iff)
      then show ?thesis using none by (auto simp: into_table_feature_def)
    qed
    then show ?thesis using u by (simp add: feature_to_string_def)
  qed
qed

text \<open>The bounded quantifier above ranges over the table of names; both sides can hold and fail.\<close>

theorem feature_names_roundtrip_witness:
  "feature_to_string (into_table_feature ''rowTracking'') = ''rowTracking'' \<and>
   into_table_feature (feature_to_string (UnknownFeature ''zorder'')) = UnknownFeature ''zorder'' \<and>
   into_table_feature (feature_to_string (UnknownFeature ''rowTracking'')) \<noteq> UnknownFeature ''rowTracking''"
proof -
  have "into_table_feature (feature_to_string (UnknownFeature ''zorder'')) = UnknownFeature ''zorder''"
    using feature_names_roundtrip [of "''x''" "UnknownFeature ''zorder''"] by (simp add: feature_names_def)
  moreover have "into_table_feature (feature_to_string (UnknownFeature ''rowTracking'')) \<noteq> UnknownFeature ''rowTracking''"
    using feature_names_roundtrip [of "''x''" "UnknownFeature ''rowTracking''"] by (simp add: feature_names_def)
  moreover have "feature_to_string (into_table_feature ''rowTracking'') = ''rowTracking''"
    using feature_names_roundtrip [of "''rowTracking''" AppendOnly] by simp
  ultimately show ?thesis by simp
qed

section \<open>The static tables agree\<close>

lemma feature_info_type [simp]: "fi_feature_type (feature_info cm f) = feature_type f"
  by (cases f) (simp_all add: feature_info_def mk_info_def feature_type_def)

lemma legacy_reader_iff:
  "f \<in> set LEGACY_READER_FEATURES \<longleftrightarrow> feature_type f = ReaderWriter \<and> min_legacy_version (feature_info cm f) \<noteq> None"
  by (cases f) (simp_all add: feature_info_def mk_info_def feature_type_def LEGACY_READER_FEATURES_def)

lemma legacy_writer_iff:
  "f \<in> set LEGACY_WRITER_FEATURES \<longleftrightarrow> min_legacy_version (feature_info cm f) \<noteq> None"
  by (cases f) (simp_all add: feature_info_def mk_info_def LEGACY_WRITER_FEATURES_def)

lemma min_legacy_cm: "min_legacy_version (feature_info cm f) = min_legacy_version (feature_info False f)"
  by (cases f) (simp_all add: feature_info_def mk_info_def)

section \<open>Valid protocols\<close>

text \<open>What the comments of \<open>Protocol::try_new\<close> ask for, as one predicate.\<close>

definition protocol_ok :: "protocol \<Rightarrow> bool" where
  "protocol_ok p \<longleftrightarrow>
     (reader_features p \<noteq> None \<longleftrightarrow> min_reader_version p = 3) \<and>
     (writer_features p \<noteq> None \<longleftrightarrow> min_writer_version p = 7) \<and>
     (reader_features p \<noteq> None \<longrightarrow> writer_features p \<noteq> None) \<and>
     (\<forall>f. has_feature (reader_features p) f \<longrightarrow> feature_type f \<noteq> WriterOnly \<and> has_feature (writer_features p) f) \<and>
     (\<forall>f. has_feature (writer_features p) f \<and> feature_type f = ReaderWriter \<longrightarrow>
        has_feature (reader_features p) f \<or> min_reader_version p = 2 \<and> f = ColumnMapping)"

lemma feature_type_cases: "feature_type f = ReaderWriter \<or> feature_type f = UnknownType \<longleftrightarrow> feature_type f \<noteq> WriterOnly"
  by (cases "feature_type f") simp_all

lemma feature_type_split:
  "(case feature_type f of ReaderWriter \<Rightarrow> P | _ \<Rightarrow> True) \<longleftrightarrow> (feature_type f = ReaderWriter \<longrightarrow> P)"
  by (cases "feature_type f") simp_all

lemma check_feature_lists_iff:
  "check_feature_lists r rfs wfs = Inr () \<longleftrightarrow>
     (rfs \<noteq> None \<longrightarrow> wfs \<noteq> None) \<and>
     (\<forall>f. has_feature rfs f \<longrightarrow> feature_type f \<noteq> WriterOnly \<and> has_feature wfs f) \<and>
     (\<forall>f. has_feature wfs f \<and> feature_type f = ReaderWriter \<longrightarrow>
        has_feature rfs f \<or> rfs = None \<and> r = 2 \<and> f = ColumnMapping)"
  by (cases rfs; cases wfs)
    (auto simp: check_feature_lists_def has_feature_def list_all_iff feature_type_cases feature_type_split result_simps)

lemma protocol_try_new_Inr_iff:
  "protocol_try_new r w rfs wfs = Inr p \<longleftrightarrow> protocol_ok p \<and>
     p = \<lparr> min_reader_version = r, min_writer_version = w, reader_features = rfs, writer_features = wfs \<rparr>"
  by (cases p) (auto simp: protocol_try_new_def protocol_ok_def protocol_constants check_feature_lists_iff result_simps
    split: if_splits)

lemma protocol_try_new_error: "protocol_try_new r w rfs wfs = Inl e \<Longrightarrow> \<exists>msg. e = InvalidProtocol msg"
  by (auto simp: protocol_try_new_def check_feature_lists_def result_simps split: if_splits option.splits)

text \<open>
  C40. A protocol is accepted exactly when it is valid. \<open>Protocol::try_new\<close> succeeds, with the
  protocol that has the given versions and lists, exactly when the reader list is present at reader
  version 3 and only there, the writer list at writer version 7 and only there, every reader feature is
  a writer feature and not a writer-only one, and every reader-writer feature of the writer list is
  also in the reader list, column mapping at reader version 2 excepted; otherwise it reports an
  invalid protocol.
\<close>

theorem protocol_try_new_iff:
  "let p = \<lparr> min_reader_version = r, min_writer_version = w, reader_features = rfs, writer_features = wfs \<rparr>
   in if protocol_ok p then protocol_try_new r w rfs wfs = Inr p
      else \<exists>msg. protocol_try_new r w rfs wfs = Inl (InvalidProtocol msg)"
  using protocol_try_new_error [of r w rfs wfs] protocol_try_new_Inr_iff [of r w rfs wfs]
  by (cases "protocol_try_new r w rfs wfs") (auto simp: Let_def)

end
