(* ===== verification/ColumnMapping.thy ===== *)
theory ColumnMapping
  imports TableProperties
begin

text \<open>
  Column mapping (\<open>table_features/column_mapping.rs\<close>, \<open>MakePhysical\<close> and the schema checkers of
  \<open>schema/mod.rs\<close>, \<open>table_features/timestamp_ntz.rs\<close>, \<open>schema/variant_utils.rs\<close>), with the parts of
  the schema transform framework (\<open>transforms/mod.rs\<close>, \<open>transforms/schema.rs\<close>) they run on. Paths
  serve error messages only and are left out. \<open>Uuid::new_v4\<close> is the parameter \<open>uuid\<close>, the text of
  the identifier generated for a column id.
\<close>

section \<open>Copy on write\<close>

datatype 'a cow = Borrowed 'a | Owned 'a

fun into_owned :: "'a cow \<Rightarrow> 'a" where
  "into_owned (Borrowed x) = x"
| "into_owned (Owned x) = x"

fun is_borrowed :: "'a cow \<Rightarrow> bool" where
  "is_borrowed (Borrowed _) = True"
| "is_borrowed (Owned _) = False"

fun map_owned_or_else :: "'s \<Rightarrow> ('a \<Rightarrow> 's) \<Rightarrow> 'a cow \<Rightarrow> 's cow" where
  "map_owned_or_else s f (Owned v) = Owned (f v)"
| "map_owned_or_else s f (Borrowed _) = Borrowed s"

fun map_owned_pair_or_else :: "'s \<Rightarrow> ('a \<Rightarrow> 'a \<Rightarrow> 's) \<Rightarrow> 'a cow \<Rightarrow> 'a cow \<Rightarrow> 's cow" where
  "map_owned_pair_or_else s f (Borrowed _) (Borrowed _) = Borrowed s"
| "map_owned_pair_or_else s f l r = Owned (f (into_owned l) (into_owned r))"

text \<open>A parent without surviving children is itself filtered out.\<close>

definition map_owned_children_or_else :: "'p \<Rightarrow> ('c list \<Rightarrow> 'p) \<Rightarrow> 'c cow option list \<Rightarrow> 'p cow option" where
  "map_owned_children_or_else parent map_owned children =
     (let new_children = concat (map (\<lambda>c. case c of None \<Rightarrow> [] | Some x \<Rightarrow> [x]) children) in
      if new_children = [] then None
      else if length (filter is_borrowed new_children) < length children
      then Some (Owned (map_owned (map into_owned new_children)))
      else Some (Borrowed parent))"

section \<open>Annotations of a field\<close>

definition PHYSICAL_NAME_KEY :: string where "PHYSICAL_NAME_KEY = ''delta.columnMapping.physicalName''"
definition ID_KEY :: string where "ID_KEY = ''delta.columnMapping.id''"
definition PARQUET_ID_KEY :: string where "PARQUET_ID_KEY = ''parquet.field.id''"
definition INVARIANTS_KEY :: string where "INVARIANTS_KEY = ''delta.invariants''"

lemmas metadata_keys = PHYSICAL_NAME_KEY_def ID_KEY_def PARQUET_ID_KEY_def INVARIANTS_KEY_def METADATA_SPEC_KEY_def

definition has_physical_name_annotation :: "struct_field \<Rightarrow> bool" where
  "has_physical_name_annotation f = (case map_of (sf_metadata f) PHYSICAL_NAME_KEY of Some (MetaString _) \<Rightarrow> True | _ \<Rightarrow> False)"

definition has_id_annotation :: "struct_field \<Rightarrow> bool" where
  "has_id_annotation f = (case map_of (sf_metadata f) ID_KEY of Some (MetaNumber _) \<Rightarrow> True | _ \<Rightarrow> False)"

definition annotated_name :: "column_mapping_mode \<Rightarrow> struct_field \<Rightarrow> string delta_result" where
  "annotated_name mode f =
     (case (mode, map_of (sf_metadata f) PHYSICAL_NAME_KEY) of
        (NoMapping, None) \<Rightarrow> Inr (sf_name f)
      | (NoMapping, Some _) \<Rightarrow> Inl (SchemaError ''Column mapping is not enabled but field is annotated'')
      | (_, Some (MetaString s)) \<Rightarrow> Inr s
      | (_, Some _) \<Rightarrow> Inl (SchemaError ''The annotation on field must be a string'')
      | (_, None) \<Rightarrow> Inl (SchemaError ''Column mapping is enabled but field lacks the annotation''))"

definition annotated_id :: "column_mapping_mode \<Rightarrow> struct_field \<Rightarrow> int option delta_result" where
  "annotated_id mode f =
     (case (mode, map_of (sf_metadata f) ID_KEY) of
        (NoMapping, None) \<Rightarrow> Inr None
      | (NoMapping, Some _) \<Rightarrow> Inl (SchemaError ''Column mapping is not enabled but field is annotated'')
      | (_, Some (MetaNumber n)) \<Rightarrow> Inr (Some n)
      | (_, Some _) \<Rightarrow> Inl (SchemaError ''The annotation on field must be a number'')
      | (_, None) \<Rightarrow> Inl (SchemaError ''Column mapping is enabled but field lacks the annotation''))"

text \<open>\<open>seen\<close> maps the ids claimed so far to names; a claimed id is overwritten and then reported.\<close>

definition get_field_column_mapping_info ::
  "struct_field \<Rightarrow> column_mapping_mode \<Rightarrow> (int \<times> string) list \<Rightarrow>
   (string \<times> int option) delta_result \<times> (int \<times> string) list" where
  "get_field_column_mapping_info f mode seen =
     (if is_metadata_column f then
        (if map_of (sf_metadata f) PHYSICAL_NAME_KEY \<noteq> None \<or> map_of (sf_metadata f) ID_KEY \<noteq> None
         then (Inl (InternalError ''Metadata column must not have column mapping annotations''), seen)
         else (Inr (sf_name f, None), seen))
      else
        (case annotated_name mode f of
           Inl e \<Rightarrow> (Inl e, seen)
         | Inr name \<Rightarrow>
             (case annotated_id mode f of
                Inl e \<Rightarrow> (Inl e, seen)
              | Inr None \<Rightarrow> (Inr (name, None), seen)
              | Inr (Some i) \<Rightarrow>
                  ((if map_of seen i = None then Inr (name, Some i)
                    else Inl (SchemaError ''Duplicate column mapping ID'')),
                   AList.update i (sf_name f) seen))))"

section \<open>Validation\<close>

type_synonym mapping_state = "(int \<times> string) list \<times> delta_error option"

function validate_type :: "column_mapping_mode \<Rightarrow> data_type \<Rightarrow> mapping_state \<Rightarrow> mapping_state"
  and validate_fields :: "column_mapping_mode \<Rightarrow> (string \<times> struct_field) list \<Rightarrow> mapping_state \<Rightarrow> mapping_state"
  and validate_field :: "column_mapping_mode \<Rightarrow> struct_field \<Rightarrow> mapping_state \<Rightarrow> mapping_state" where
  "validate_type mode (Primitive _) st = st"
| "validate_type mode (ArrayType e _) st = (if snd st = None then validate_type mode e st else st)"
| "validate_type mode (StructT (StructType fs _)) st = validate_fields mode fs st"
| "validate_type mode (MapType k v _) st =
     (let st1 = (if snd st = None then validate_type mode k st else st)
      in if snd st1 = None then validate_type mode v st1 else st1)"
| "validate_type mode (Variant _) st = st"
| "validate_fields mode [] st = st"
| "validate_fields mode ((_, f) # fs) st = validate_fields mode fs (validate_field mode f st)"
| "validate_field mode (StructField name dt nullable md) st =
     (if snd st \<noteq> None then st
      else (case get_field_column_mapping_info (StructField name dt nullable md) mode (fst st) of
              (Inl e, seen) \<Rightarrow> (seen, Some e)
            | (Inr _, seen) \<Rightarrow> validate_type mode dt (seen, None)))"
  by pat_completeness auto

termination
  by (relation "measure (case_sum (\<lambda>(_, dt, _). size dt)
      (case_sum (\<lambda>(_, fs, _). size_list (size_prod (\<lambda>_. 0) size) fs) (\<lambda>(_, f, _). size f)))") auto

definition validate_schema_column_mapping :: "struct_type \<Rightarrow> column_mapping_mode \<Rightarrow> unit delta_result" where
  "validate_schema_column_mapping schema mode =
     (case snd (validate_fields mode (st_fields schema) ([], None)) of Some e \<Rightarrow> Inl e | None \<Rightarrow> Inr ())"

section \<open>The physical schema\<close>

definition logical_to_physical_metadata ::
  "column_mapping_mode \<Rightarrow> (string \<times> metadata_value) list \<Rightarrow> (string \<times> metadata_value) list" where
  "logical_to_physical_metadata mode md =
     (case mode of
        NoMapping \<Rightarrow> AList.delete PARQUET_ID_KEY (AList.delete ID_KEY (AList.delete PHYSICAL_NAME_KEY md))
      | _ \<Rightarrow> (case map_of md ID_KEY of
                Some (MetaNumber fid) \<Rightarrow> AList.update PARQUET_ID_KEY (MetaNumber fid) md
              | _ \<Rightarrow> md))"

function mp_type :: "column_mapping_mode \<Rightarrow> data_type \<Rightarrow> mapping_state \<Rightarrow> data_type cow option \<times> mapping_state"
  and mp_fields ::
    "column_mapping_mode \<Rightarrow> (string \<times> struct_field) list \<Rightarrow> mapping_state \<Rightarrow> struct_field cow option list \<times> mapping_state"
  and mp_field :: "column_mapping_mode \<Rightarrow> struct_field \<Rightarrow> mapping_state \<Rightarrow> struct_field cow option \<times> mapping_state" where
  "mp_type mode (Primitive p) st = (Some (Borrowed (Primitive p)), st)"
| "mp_type mode (ArrayType e n) st =
     (if snd st \<noteq> None then (None, st)
      else (case mp_type mode e st of
              (None, st') \<Rightarrow> (None, st')
            | (Some e', st') \<Rightarrow> (Some (map_owned_or_else (ArrayType e n) (\<lambda>x. ArrayType x n) e'), st')))"
| "mp_type mode (StructT (StructType fs mc)) st =
     (case mp_fields mode fs st of
        (cs, st') \<Rightarrow>
          (map_option (map_owned_or_else (StructT (StructType fs mc)) StructT)
             (map_owned_children_or_else (StructType fs mc) new_unchecked cs), st'))"
| "mp_type mode (MapType k v n) st =
     (if snd st \<noteq> None then (None, st)
      else (case mp_type mode k st of
              (None, st1) \<Rightarrow> (None, st1)
            | (Some k', st1) \<Rightarrow>
                (if snd st1 \<noteq> None then (None, st1)
                 else (case mp_type mode v st1 of
                         (None, st2) \<Rightarrow> (None, st2)
                       | (Some v', st2) \<Rightarrow>
                           (Some (map_owned_pair_or_else (MapType k v n) (\<lambda>x y. MapType x y n) k' v'), st2)))))"
| "mp_type mode (Variant s) st = (Some (Borrowed (Variant s)), st)"
| "mp_fields mode [] st = ([], st)"
| "mp_fields mode ((_, f) # fs) st =
     (case mp_field mode f st of
        (c, st1) \<Rightarrow> (case mp_fields mode fs st1 of (cs, st2) \<Rightarrow> (c # cs, st2)))"
| "mp_field mode (StructField name dt nullable md) st =
     (if snd st \<noteq> None then (None, st)
      else (case get_field_column_mapping_info (StructField name dt nullable md) mode (fst st) of
              (Inl e, seen) \<Rightarrow> (None, (seen, Some e))
            | (Inr (physical, _), seen) \<Rightarrow>
                (if is_metadata_column (StructField name dt nullable md)
                 then (Some (Borrowed (StructField name dt nullable md)), (seen, None))
                 else (case mp_type mode dt (seen, None) of
                         (None, st') \<Rightarrow> (None, st')
                       | (Some dt', st') \<Rightarrow>
                           (Some (Owned (StructField physical (into_owned dt') nullable
                              (logical_to_physical_metadata mode md))), st')))))"
  by pat_completeness auto

termination
  by (relation "measure (case_sum (\<lambda>(_, dt, _). size dt)
      (case_sum (\<lambda>(_, fs, _). size_list (size_prod (\<lambda>_. 0) size) fs) (\<lambda>(_, f, _). size f)))") auto

text \<open>\<open>run_field\<close> takes the error out of the transformer.\<close>

definition run_field :: "column_mapping_mode \<Rightarrow> struct_field \<Rightarrow> mapping_state \<Rightarrow> struct_field delta_result \<times> mapping_state" where
  "run_field mode f st =
     (case mp_field mode f st of
        (r, (seen, err)) \<Rightarrow>
          ((case (err, r) of
              (Some e, _) \<Rightarrow> Inl e
            | (None, None) \<Rightarrow> Inl (InternalError ''make_physical: transform returned None without setting an error'')
            | (None, Some f') \<Rightarrow> Inr (into_owned f')),
           (seen, None)))"

fun run_fields :: "column_mapping_mode \<Rightarrow> struct_field list \<Rightarrow> mapping_state \<Rightarrow> struct_field list delta_result" where
  "run_fields mode [] st = Inr []"
| "run_fields mode (f # fs) st =
     (case run_field mode f st of
        (Inl e, st') \<Rightarrow> Inl e
      | (Inr f', st') \<Rightarrow> rbind (run_fields mode fs st') (\<lambda>fs'. Inr (f' # fs')))"

definition make_physical ::
  "(string \<Rightarrow> string) \<Rightarrow> struct_type \<Rightarrow> column_mapping_mode \<Rightarrow> struct_type delta_result" where
  "make_physical to_lowercase schema mode =
     rbind (run_fields mode (fields_of schema) ([], None)) (struct_try_new to_lowercase)"

definition field_make_physical :: "struct_field \<Rightarrow> column_mapping_mode \<Rightarrow> struct_field delta_result" where
  "field_make_physical f mode = fst (run_field mode f ([], None))"

section \<open>Assigning ids and physical names\<close>

text \<open>
  \<open>max_id\<close> is an \<open>i64\<close> that is threaded through the fields; the first error leaves the walk. A
  struct is rebuilt with \<open>StructType::try_new\<close>.
\<close>

definition has_mapping_metadata :: "struct_field \<Rightarrow> bool" where
  "has_mapping_metadata f \<longleftrightarrow> map_of (sf_metadata f) ID_KEY \<noteq> None \<or> map_of (sf_metadata f) PHYSICAL_NAME_KEY \<noteq> None"

definition annotate :: "(64 word \<Rightarrow> string) \<Rightarrow> 64 word \<Rightarrow> (string \<times> metadata_value) list \<Rightarrow> (string \<times> metadata_value) list" where
  "annotate uuid i md =
     AList.update PHYSICAL_NAME_KEY (MetaString (''col-'' @ uuid i)) (AList.update ID_KEY (MetaNumber (sint i)) md)"

function assign_type ::
    "(string \<Rightarrow> string) \<Rightarrow> (64 word \<Rightarrow> string) \<Rightarrow> data_type \<Rightarrow> 64 word \<Rightarrow> (data_type \<times> 64 word) delta_result"
  and assign_fields ::
    "(string \<Rightarrow> string) \<Rightarrow> (64 word \<Rightarrow> string) \<Rightarrow> (string \<times> struct_field) list \<Rightarrow> 64 word \<Rightarrow>
     (struct_field list \<times> 64 word) delta_result"
  and assign_field ::
    "(string \<Rightarrow> string) \<Rightarrow> (64 word \<Rightarrow> string) \<Rightarrow> struct_field \<Rightarrow> 64 word \<Rightarrow> (struct_field \<times> 64 word) delta_result" where
  "assign_type low uuid (StructT (StructType fs mc)) i =
     rbind (assign_fields low uuid fs i) (\<lambda>(fs', i').
     rbind (struct_try_new low fs') (\<lambda>st. Inr (StructT st, i')))"
| "assign_type low uuid (ArrayType e n) i =
     rbind (assign_type low uuid e i) (\<lambda>(e', i'). Inr (ArrayType e' n, i'))"
| "assign_type low uuid (MapType k v n) i =
     rbind (assign_type low uuid k i) (\<lambda>(k', i1).
     rbind (assign_type low uuid v i1) (\<lambda>(v', i2). Inr (MapType k' v' n, i2)))"
| "assign_type low uuid (Primitive p) i = Inr (Primitive p, i)"
| "assign_type low uuid (Variant s) i = Inr (Variant s, i)"
| "assign_fields low uuid [] i = Inr ([], i)"
| "assign_fields low uuid ((_, f) # fs) i =
     rbind (assign_field low uuid f i) (\<lambda>(f', i1).
     rbind (assign_fields low uuid fs i1) (\<lambda>(fs', i2). Inr (f' # fs', i2)))"
| "assign_field low uuid (StructField name dt nullable md) i =
     (if has_mapping_metadata (StructField name dt nullable md)
      then Inl (Generic ''Pre-existing column mapping metadata is not supported for CREATE TABLE.'')
      else rbind (assign_type low uuid dt (i + 1)) (\<lambda>(dt', i').
        Inr (StructField name dt' nullable (annotate uuid (i + 1) md), i')))"
  by pat_completeness auto

termination
  by (relation "measure (case_sum (\<lambda>(_, _, dt, _). size dt)
      (case_sum (\<lambda>(_, _, fs, _). size_list (size_prod (\<lambda>_. 0) size) fs) (\<lambda>(_, _, f, _). size f)))") auto

definition assign_column_mapping_metadata ::
  "(string \<Rightarrow> string) \<Rightarrow> (64 word \<Rightarrow> string) \<Rightarrow> struct_type \<Rightarrow> 64 word \<Rightarrow> (struct_type \<times> 64 word) delta_result" where
  "assign_column_mapping_metadata low uuid schema i =
     rbind (assign_fields low uuid (st_fields schema) i) (\<lambda>(fs, i').
     rbind (struct_try_new low fs) (\<lambda>st. Inr (st, i')))"

section \<open>Resolving columns\<close>

definition physical_segment :: "column_mapping_mode \<Rightarrow> struct_field \<Rightarrow> string delta_result" where
  "physical_segment mode f =
     rbind (if mode \<noteq> NoMapping then
              rbind (require (has_physical_name_annotation f)
                (SchemaError ''Column mapping is enabled but field lacks the delta.columnMapping.physicalName annotation''))
              (\<lambda>_. require (has_id_annotation f)
                (SchemaError ''Column mapping is enabled but field lacks the delta.columnMapping.id annotation''))
            else Inr ())
     (\<lambda>_. Inr (physical_name mode f))"

definition get_any_level_column_physical_name ::
  "struct_type \<Rightarrow> column_name \<Rightarrow> column_mapping_mode \<Rightarrow> column_name delta_result" where
  "get_any_level_column_physical_name schema col mode =
     rbind (walk_column_fields schema col) (\<lambda>fs. collect_results (map (physical_segment mode) fs))"

definition get_column_mapping_mode_from_properties ::
  "(string \<times> string) list \<Rightarrow> column_mapping_mode delta_result" where
  "get_column_mapping_mode_from_properties properties =
     (case map_of properties COLUMN_MAPPING_MODE of
        Some mode_str \<Rightarrow> ok_or (column_mapping_mode_from_str mode_str) (Generic ''Invalid column mapping mode. Must be one of: none, name, id'')
      | None \<Rightarrow> Inr NoMapping)"

section \<open>Checkers of schemas\<close>

text \<open>
  A checker is a transform that filters out (the flag \<open>False\<close>) or keeps the elements it visits and
  records what it is after in its state. \<open>UsesTimestampNtz\<close> filters out every primitive.
\<close>

function ntz_type :: "data_type \<Rightarrow> bool \<Rightarrow> bool \<times> bool"
  and ntz_fields :: "(string \<times> struct_field) list \<Rightarrow> bool \<Rightarrow> bool \<times> bool" where
  "ntz_type (Primitive p) found = (False, found \<or> p = PTimestampNtz)"
| "ntz_type (ArrayType e _) found = ntz_type e found"
| "ntz_type (StructT (StructType fs _)) found = ntz_fields fs found"
| "ntz_type (MapType k v _) found =
     (case ntz_type k found of (False, found1) \<Rightarrow> (False, found1) | (True, found1) \<Rightarrow> ntz_type v found1)"
| "ntz_type (Variant (StructType fs _)) found = ntz_fields fs found"
| "ntz_fields [] found = (False, found)"
| "ntz_fields ((_, StructField _ dt _ _) # fs) found =
     (case ntz_type dt found of
        (kept, found1) \<Rightarrow> (case ntz_fields fs found1 of (kept', found2) \<Rightarrow> (kept \<or> kept', found2)))"
  by pat_completeness auto

termination ntz_type
  by (relation "measure (case_sum (\<lambda>(dt, _). size dt) (\<lambda>(fs, _). size_list (size_prod (\<lambda>_. 0) size) fs))") auto

definition schema_contains_timestamp_ntz :: "struct_type \<Rightarrow> bool" where
  "schema_contains_timestamp_ntz schema = snd (ntz_fields (st_fields schema) False)"

text \<open>\<open>UsesVariant\<close> keeps primitives and filters out variants.\<close>

function variant_type :: "data_type \<Rightarrow> bool \<Rightarrow> bool \<times> bool"
  and variant_fields :: "(string \<times> struct_field) list \<Rightarrow> bool \<Rightarrow> bool \<times> bool" where
  "variant_type (Primitive p) found = (True, found)"
| "variant_type (ArrayType e _) found = variant_type e found"
| "variant_type (StructT (StructType fs _)) found = variant_fields fs found"
| "variant_type (MapType k v _) found =
     (case variant_type k found of (False, found1) \<Rightarrow> (False, found1) | (True, found1) \<Rightarrow> variant_type v found1)"
| "variant_type (Variant _) found = (False, True)"
| "variant_fields [] found = (False, found)"
| "variant_fields ((_, StructField _ dt _ _) # fs) found =
     (case variant_type dt found of
        (kept, found1) \<Rightarrow> (case variant_fields fs found1 of (kept', found2) \<Rightarrow> (kept \<or> kept', found2)))"
  by pat_completeness auto

termination variant_type
  by (relation "measure (case_sum (\<lambda>(dt, _). size dt) (\<lambda>(fs, _). size_list (size_prod (\<lambda>_. 0) size) fs))") auto

definition schema_contains_variant_type :: "struct_type \<Rightarrow> bool" where
  "schema_contains_variant_type schema = snd (variant_fields (st_fields schema) False)"

text \<open>\<open>InvariantChecker\<close> keeps every field; it does not look further once it has found one.\<close>

function invariant_type :: "data_type \<Rightarrow> bool \<Rightarrow> bool \<times> bool"
  and invariant_fields :: "(string \<times> struct_field) list \<Rightarrow> bool \<Rightarrow> bool \<times> bool" where
  "invariant_type (Primitive p) found = (True, found)"
| "invariant_type (ArrayType e _) found = invariant_type e found"
| "invariant_type (StructT (StructType fs _)) found = invariant_fields fs found"
| "invariant_type (MapType k v _) found =
     (case invariant_type k found of (False, found1) \<Rightarrow> (False, found1) | (True, found1) \<Rightarrow> invariant_type v found1)"
| "invariant_type (Variant (StructType fs _)) found = invariant_fields fs found"
| "invariant_fields [] found = (False, found)"
| "invariant_fields ((_, StructField _ dt _ md) # fs) found =
     (True, snd (invariant_fields fs
       (if map_of md INVARIANTS_KEY \<noteq> None then True
        else if \<not> found then snd (invariant_type dt found) else found)))"
  by pat_completeness auto

termination invariant_type
  by (relation "measure (case_sum (\<lambda>(dt, _). size dt) (\<lambda>(fs, _). size_list (size_prod (\<lambda>_. 0) size) fs))") auto

definition schema_has_invariants :: "struct_type \<Rightarrow> bool" where
  "schema_has_invariants schema = snd (invariant_fields (st_fields schema) False)"

section \<open>Validation is a walk over the fields\<close>

text \<open>All fields in depth-first order, those inside a variant excepted.\<close>

function fields_in :: "data_type \<Rightarrow> struct_field list" and all_fields :: "(string \<times> struct_field) list \<Rightarrow> struct_field list" where
  "fields_in (Primitive _) = []"
| "fields_in (ArrayType e _) = fields_in e"
| "fields_in (StructT (StructType fs _)) = all_fields fs"
| "fields_in (MapType k v _) = fields_in k @ fields_in v"
| "fields_in (Variant _) = []"
| "all_fields [] = []"
| "all_fields ((_, StructField n dt nu md) # fs) = StructField n dt nu md # fields_in dt @ all_fields fs"
  by pat_completeness auto

termination
  by (relation "measure (case_sum size (size_list (size_prod (\<lambda>_. 0) size)))") auto

definition validate_one :: "column_mapping_mode \<Rightarrow> struct_field \<Rightarrow> mapping_state \<Rightarrow> mapping_state" where
  "validate_one mode f st =
     (if snd st \<noteq> None then st
      else (case get_field_column_mapping_info f mode (fst st) of
              (Inl e, seen) \<Rightarrow> (seen, Some e) | (Inr _, seen) \<Rightarrow> (seen, None)))"

lemma validate_one_err [simp]: "snd st \<noteq> None \<Longrightarrow> fold (validate_one mode) fs st = st"
  by (induction fs) (simp_all add: validate_one_def)

lemma validate_fold:
  "validate_type mode dt st = fold (validate_one mode) (fields_in dt) st"
  "validate_fields mode fs st = fold (validate_one mode) (all_fields fs) st"
  "validate_field mode f st = fold (validate_one mode) (all_fields [(n, f)]) st"
proof (induction mode dt st and mode fs st and mode f st rule: validate_type_validate_fields_validate_field.induct)
  case (7 mode n' f fs st)
  then show ?case by (cases f) simp
next
  case (8 mode name dt nullable md st)
  let ?f = "StructField name dt nullable md"
  obtain r seen where r: "get_field_column_mapping_info ?f mode (fst st) = (r, seen)" by fastforce
  show ?case
  proof (cases "snd st = None")
    case True
    then have "validate_one mode ?f st = (case r of Inl e \<Rightarrow> (seen, Some e) | Inr _ \<Rightarrow> (seen, None))"
      by (simp add: validate_one_def r)
    then show ?thesis using 8 True r by (cases r) auto
  next
    case False
    then have "validate_one mode ?f st = st" by (simp add: validate_one_def)
    then show ?thesis using False by simp
  qed
qed (auto simp: Let_def)

text \<open>What a field must satisfy, and the ids that are claimed.\<close>

definition annotation_ok :: "column_mapping_mode \<Rightarrow> struct_field \<Rightarrow> bool" where
  "annotation_ok mode f \<longleftrightarrow>
     (if is_metadata_column f \<or> mode = NoMapping
      then map_of (sf_metadata f) PHYSICAL_NAME_KEY = None \<and> map_of (sf_metadata f) ID_KEY = None
      else has_physical_name_annotation f \<and> has_id_annotation f)"

definition claimed_ids :: "column_mapping_mode \<Rightarrow> struct_field \<Rightarrow> int list" where
  "claimed_ids mode f =
     (if is_metadata_column f \<or> mode = NoMapping then []
      else case map_of (sf_metadata f) ID_KEY of Some (MetaNumber n) \<Rightarrow> [n] | _ \<Rightarrow> [])"

lemma annotated_iff:
  "(\<exists>s. annotated_name mode f = Inr s) \<longleftrightarrow>
     (if mode = NoMapping then map_of (sf_metadata f) PHYSICAL_NAME_KEY = None else has_physical_name_annotation f)"
  "(\<exists>i. annotated_id mode f = Inr i) \<longleftrightarrow>
     (if mode = NoMapping then map_of (sf_metadata f) ID_KEY = None else has_id_annotation f)"
  by (auto simp: annotated_name_def annotated_id_def has_physical_name_annotation_def has_id_annotation_def
      split: option.splits column_mapping_mode.splits metadata_value.splits)

lemma annotated_Inr:
  "annotated_name mode f = Inr s \<Longrightarrow> s = physical_name mode f"
  "annotated_id mode f = Inr i \<Longrightarrow> \<not> is_metadata_column f \<Longrightarrow> claimed_ids mode f = (case i of None \<Rightarrow> [] | Some n \<Rightarrow> [n])"
  by (auto simp: annotated_name_def annotated_id_def physical_name_def claimed_ids_def PHYSICAL_NAME_KEY_def
      split: option.splits column_mapping_mode.splits metadata_value.splits)

lemma mapping_info_Inr:
  "(\<exists>r. get_field_column_mapping_info f mode seen = (Inr r, seen')) \<longleftrightarrow>
     annotation_ok mode f \<and> (\<forall>i \<in> set (claimed_ids mode f). i \<notin> fst ` set seen) \<and>
     seen' = seen @ map (\<lambda>i. (i, sf_name f)) (claimed_ids mode f)"
proof (cases "is_metadata_column f")
  case True
  then show ?thesis by (auto simp: get_field_column_mapping_info_def annotation_ok_def claimed_ids_def)
next
  case False
  show ?thesis
  proof (cases "(\<exists>s. annotated_name mode f = Inr s) \<and> (\<exists>i. annotated_id mode f = Inr i)")
    case True
    then obtain s i where si: "annotated_name mode f = Inr s" "annotated_id mode f = Inr i" by blast
    have ok: "annotation_ok mode f" using True False by (simp add: annotated_iff annotation_ok_def split: if_splits)
    show ?thesis
      using si False ok annotated_Inr(2) [OF si(2) False]
      by (cases i) (auto simp: get_field_column_mapping_info_def update_fresh map_of_eq_None_iff)
  next
    case no: False
    then have "\<not> annotation_ok mode f" using False unfolding annotated_iff annotation_ok_def by auto
    moreover have "\<not> (\<exists>r. get_field_column_mapping_info f mode seen = (Inr r, seen'))"
      using no False by (auto simp: get_field_column_mapping_info_def split: sum.splits option.splits if_splits)
    ultimately show ?thesis by simp
  qed
qed

lemma mapping_info_name:
  assumes "get_field_column_mapping_info f mode seen = (Inr (s, i), seen')" "\<not> is_metadata_column f"
  shows "s = physical_name mode f"
  using assms annotated_Inr(1)
  by (fastforce simp: get_field_column_mapping_info_def split: sum.splits option.splits if_splits)

lemma validate_one_step:
  "validate_one mode f (seen, None) = (seen', None) \<longleftrightarrow>
     annotation_ok mode f \<and> (\<forall>i \<in> set (claimed_ids mode f). i \<notin> fst ` set seen) \<and>
     seen' = seen @ map (\<lambda>i. (i, sf_name f)) (claimed_ids mode f)"
  unfolding mapping_info_Inr [symmetric] by (auto simp: validate_one_def split: prod.splits sum.splits)

lemma distinct_claimed [simp]: "distinct (claimed_ids mode f)"
  by (simp add: claimed_ids_def split: option.split metadata_value.split)

lemma validate_fold_iff:
  "snd (fold (validate_one mode) fs (seen, None)) = None \<longleftrightarrow>
     (\<forall>f \<in> set fs. annotation_ok mode f) \<and> distinct (concat (map (claimed_ids mode) fs)) \<and>
     set (concat (map (claimed_ids mode) fs)) \<inter> fst ` set seen = {}"
proof (induction fs arbitrary: seen)
  case (Cons f fs)
  show ?case
  proof (cases "\<exists>seen'. validate_one mode f (seen, None) = (seen', None)")
    case True
    then obtain seen' where s: "validate_one mode f (seen, None) = (seen', None)" by blast
    note seen' = s [unfolded validate_one_step]
    have "fst ` set seen' = fst ` set seen \<union> set (claimed_ids mode f)" using seen' by force
    then show ?thesis using s seen' Cons.IH [of seen'] by auto
  next
    case False
    then have "snd (validate_one mode f (seen, None)) \<noteq> None" by (metis prod.collapse)
    then show ?thesis using False by (auto simp: validate_one_step)
  qed
qed simp

text \<open>
  Validation succeeds exactly when every field is annotated as its mode asks and no id is claimed
  twice anywhere in the schema.
\<close>

lemma validate_schema_iff:
  "validate_schema_column_mapping schema mode = Inr () \<longleftrightarrow>
     (\<forall>f \<in> set (all_fields (st_fields schema)). annotation_ok mode f) \<and>
     distinct (concat (map (claimed_ids mode) (all_fields (st_fields schema))))"
proof -
  have "validate_schema_column_mapping schema mode = Inr () \<longleftrightarrow>
      snd (fold (validate_one mode) (all_fields (st_fields schema)) ([], None)) = None"
    by (simp add: validate_schema_column_mapping_def validate_fold split: option.split)
  then show ?thesis by (simp add: validate_fold_iff)
qed

section \<open>Assigned ids are consecutive and valid\<close>

lemma all_fields_simps [simp]:
  "all_fields (fs @ gs) = all_fields fs @ all_fields gs"
  "all_fields ((n, f) # fs) = f # fields_in (sf_data_type f) @ all_fields fs"
proof -
  show "all_fields ((n, f) # fs) = f # fields_in (sf_data_type f) @ all_fields fs" by (cases f) simp
  show "all_fields (fs @ gs) = all_fields fs @ all_fields gs"
  proof (induction fs)
    case (Cons x fs)
    then show ?case by (cases x; cases "snd x") simp
  qed simp
qed

text \<open>The fields after assignment carry the ids from \<open>i + 1\<close> on, in depth-first order.\<close>

definition numbered :: "(64 word \<Rightarrow> string) \<Rightarrow> 64 word \<Rightarrow> struct_field list \<Rightarrow> struct_field list \<Rightarrow> bool" where
  "numbered uuid i fs fs' \<longleftrightarrow> length fs' = length fs \<and>
     (\<forall>j < length fs. sf_metadata (fs' ! j) = annotate uuid (i + of_nat (Suc j)) (sf_metadata (fs ! j)) \<and>
        sf_name (fs' ! j) = sf_name (fs ! j))"

lemma numbered_Nil [simp]: "numbered uuid i [] []"
  by (simp add: numbered_def)

lemma numbered_append:
  assumes "numbered uuid i fs fs'" "numbered uuid (i + of_nat (length fs)) gs gs'"
  shows "numbered uuid i (fs @ gs) (fs' @ gs')"
proof -
  have "sf_metadata ((fs' @ gs') ! j) = annotate uuid (i + of_nat (Suc j)) (sf_metadata ((fs @ gs) ! j)) \<and>
      sf_name ((fs' @ gs') ! j) = sf_name ((fs @ gs) ! j)" if "j < length (fs @ gs)" for j
  proof (cases "j < length fs")
    case True
    then show ?thesis using assms(1) by (simp add: numbered_def nth_append)
  next
    case False
    then obtain k where "j = length fs + k" by (metis add_diff_inverse_nat)
    then show ?thesis using assms that by (auto simp: numbered_def nth_append algebra_simps)
  qed
  then show ?thesis using assms by (simp add: numbered_def)
qed

lemma numbered_Cons:
  assumes "sf_metadata f' = annotate uuid (i + 1) (sf_metadata f)" "sf_name f' = sf_name f"
    "numbered uuid (i + 1) fs fs'"
  shows "numbered uuid i (f # fs) (f' # fs')"
  using numbered_append [of uuid i "[f]" "[f']" fs fs'] assms by (simp add: numbered_def)

lemma assign_numbered:
  "assign_type low uuid dt i = Inr (dt', i') \<Longrightarrow>
     numbered uuid i (fields_in dt) (fields_in dt') \<and> i' = i + of_nat (length (fields_in dt))"
  "assign_fields low uuid fs i = Inr (fs', i') \<Longrightarrow>
     numbered uuid i (all_fields fs) (all_fields (by_name fs')) \<and> i' = i + of_nat (length (all_fields fs))"
  "assign_field low uuid f i = Inr (f', i') \<Longrightarrow>
     numbered uuid i (all_fields [(n, f)]) (all_fields [(n, f')]) \<and> i' = i + of_nat (length (all_fields [(n, f)]))"
proof (induction low uuid dt i and low uuid fs i and low uuid f i arbitrary: dt' i' and fs' i' and f' i'
    rule: assign_type_assign_fields_assign_field.induct)
  case (1 low uuid fs mc i)
  then show ?case by (fastforce simp: result_simps split: prod.splits)
next
  case (2 low uuid e n i)
  then show ?case by (fastforce simp: result_simps split: prod.splits)
next
  case (3 low uuid k v n i)
  then obtain k' i1 v' where k: "assign_type low uuid k i = Inr (k', i1)"
    and v: "assign_type low uuid v i1 = Inr (v', i')" and dt': "dt' = MapType k' v' n"
    by (auto simp: result_simps split: prod.splits)
  show ?case
    using "3.IH"(1) [OF k] "3.IH"(2) [OF _ _ v] k dt' by (auto simp: numbered_append algebra_simps)
next
  case (7 low uuid n' f fs i)
  then obtain f1 i1 fs1 where f: "assign_field low uuid f i = Inr (f1, i1)"
    and fs: "assign_fields low uuid fs i1 = Inr (fs1, i')" and fs': "fs' = f1 # fs1"
    by (auto simp: result_simps split: prod.splits)
  show ?case
    using numbered_append [of uuid i "all_fields [(n', f)]" "all_fields [(n', f1)]" "all_fields fs" "all_fields (by_name fs1)"]
      "7.IH"(1) [OF f] "7.IH"(2) [OF _ _ fs] f fs' by (auto simp: algebra_simps)
next
  case (8 low uuid name dt nullable md i)
  then obtain dt1 where dt: "assign_type low uuid dt (i + 1) = Inr (dt1, i')"
    and f': "f' = StructField name dt1 nullable (annotate uuid (i + 1) md)"
    by (auto simp: result_simps split: prod.splits if_splits)
  show ?case
    using "8.IH" [OF _ dt] "8.prems" f' by (auto simp: algebra_simps intro!: numbered_Cons split: if_splits)
qed auto

lemma annotate_lookup:
  "map_of (annotate uuid i md) ID_KEY = Some (MetaNumber (sint i))"
  "map_of (annotate uuid i md) PHYSICAL_NAME_KEY = Some (MetaString (''col-'' @ uuid i))"
  "map_of (annotate uuid i md) METADATA_SPEC_KEY = map_of md METADATA_SPEC_KEY"
  by (simp_all add: annotate_def update_conv metadata_keys)

lemma length_fields:
  "length (fields_in dt) = count_data_type dt"
  "length (all_fields fs) = sum_list (map (\<lambda>(_, f). 1 + count_data_type (sf_data_type f)) fs)"
  by (induction dt and fs rule: fields_in_all_fields.induct) (simp_all del: all_fields_simps)

text \<open>
  Column mapping for a new table is well-formed. When ids and physical names are assigned to a
  schema without metadata columns, every field, nested ones included, receives the next id in
  depth-first order, the counter ends at the start plus the number of fields, and the resulting
  schema passes the validation of column mapping in id and in name mode: all annotations are
  present and no id occurs twice. This holds even when the 64-bit counter wraps.
\<close>

theorem assigned_mapping_valid:
  assumes run: "assign_column_mapping_metadata low uuid schema i = Inr (schema', i')"
    and meta: "list_all (\<lambda>f. \<not> is_metadata_column f) (all_fields (st_fields schema))"
    and size: "total_struct_fields schema < 2 ^ 64" and mode: "mode \<noteq> NoMapping"
  shows "validate_schema_column_mapping schema' mode = Inr () \<and>
    i' = i + of_nat (total_struct_fields schema) \<and>
    map (\<lambda>f. map_of (sf_metadata f) ID_KEY) (all_fields (st_fields schema')) =
      map (\<lambda>j. Some (MetaNumber (sint (i + of_nat (Suc j))))) [0..<total_struct_fields schema]"
proof -
  let ?fs = "all_fields (st_fields schema)" and ?fs' = "all_fields (st_fields schema')"
  obtain fs' where fs': "assign_fields low uuid (st_fields schema) i = Inr (fs', i')"
    and st: "struct_try_new low fs' = Inr schema'"
    using run by (auto simp: assign_column_mapping_metadata_def result_simps split: prod.splits)
  have len: "length ?fs = total_struct_fields schema" by (cases schema) (simp add: length_fields)
  have num: "numbered uuid i ?fs ?fs'" and i': "i' = i + of_nat (length ?fs)"
    using assign_numbered(2) [OF fs'] st by (simp_all add: struct_try_new_Inr)
  have nth: "map_of (sf_metadata (?fs' ! j)) ID_KEY = Some (MetaNumber (sint (i + of_nat (Suc j))))"
    "\<not> is_metadata_column (?fs' ! j)" "annotation_ok mode (?fs' ! j)"
    "claimed_ids mode (?fs' ! j) = [sint (i + of_nat (Suc j))]" if "j < length ?fs" for j
  proof -
    have m: "sf_metadata (?fs' ! j) = annotate uuid (i + of_nat (Suc j)) (sf_metadata (?fs ! j))"
      using num that by (simp add: numbered_def)
    have "\<not> is_metadata_column (?fs ! j)" using meta that by (simp add: list_all_length)
    then show *: "\<not> is_metadata_column (?fs' ! j)" unfolding is_metadata_column_def m annotate_lookup .
    show "map_of (sf_metadata (?fs' ! j)) ID_KEY = Some (MetaNumber (sint (i + of_nat (Suc j))))"
      unfolding m annotate_lookup ..
    with * mode show "annotation_ok mode (?fs' ! j)" "claimed_ids mode (?fs' ! j) = [sint (i + of_nat (Suc j))]"
      by (simp_all add: annotation_ok_def claimed_ids_def has_physical_name_annotation_def has_id_annotation_def
          m annotate_lookup)
  qed
  have len': "length ?fs' = length ?fs" using num by (simp add: numbered_def)
  have "map (claimed_ids mode) ?fs' = map (\<lambda>j. [sint (i + of_nat (Suc j))]) [0..<length ?fs]"
    using nth(4) len' by (auto intro!: nth_equalityI)
  then have "concat (map (claimed_ids mode) ?fs') = map (\<lambda>j. sint (i + of_nat (Suc j))) [0..<length ?fs]"
    by (simp only: concat_map_singleton)
  moreover have "inj_on (\<lambda>j. sint (i + of_nat (Suc j))) {0..<length ?fs}"
  proof (rule inj_onI)
    fix a b assume ab: "a \<in> {0..<length ?fs}" "b \<in> {0..<length ?fs}"
      and s: "sint (i + of_nat (Suc a)) = sint (i + of_nat (Suc b))"
    have "i + of_nat (Suc a) = i + of_nat (Suc b)" using s by (rule signed_word_eqI)
    then have "(of_nat a :: 64 word) = of_nat b" by simp
    then have "unat (of_nat a :: 64 word) = unat (of_nat b :: 64 word)" by simp
    then show "a = b" using ab size len by (simp add: unat_of_nat)
  qed
  ultimately have "distinct (concat (map (claimed_ids mode) ?fs'))" by (simp add: distinct_map)
  moreover have "\<forall>f \<in> set ?fs'. annotation_ok mode f"
    using nth(3) len' by (auto simp: in_set_conv_nth)
  moreover have "map (\<lambda>f. map_of (sf_metadata f) ID_KEY) ?fs' =
      map (\<lambda>j. Some (MetaNumber (sint (i + of_nat (Suc j))))) [0..<length ?fs]"
    using nth(1) len' by (auto intro!: nth_equalityI)
  ultimately show ?thesis using i' len by (simp add: validate_schema_iff)
qed

section \<open>The physical schema is the schema with its fields renamed\<close>

function phys_type :: "column_mapping_mode \<Rightarrow> data_type \<Rightarrow> data_type"
  and phys_fields :: "column_mapping_mode \<Rightarrow> (string \<times> struct_field) list \<Rightarrow> struct_field list"
  and phys_field :: "column_mapping_mode \<Rightarrow> struct_field \<Rightarrow> struct_field" where
  "phys_type mode (Primitive p) = Primitive p"
| "phys_type mode (ArrayType e n) = ArrayType (phys_type mode e) n"
| "phys_type mode (StructT (StructType fs _)) = StructT (new_unchecked (phys_fields mode fs))"
| "phys_type mode (MapType k v n) = MapType (phys_type mode k) (phys_type mode v) n"
| "phys_type mode (Variant s) = Variant s"
| "phys_fields mode [] = []"
| "phys_fields mode ((_, f) # fs) = phys_field mode f # phys_fields mode fs"
| "phys_field mode (StructField name dt nullable md) =
     (if is_metadata_column (StructField name dt nullable md) then StructField name dt nullable md
      else StructField (physical_name mode (StructField name dt nullable md)) (phys_type mode dt) nullable
             (logical_to_physical_metadata mode md))"
  by pat_completeness auto

termination
  by (relation "measure (case_sum (\<lambda>(_, dt). size dt)
      (case_sum (\<lambda>(_, fs). size_list (size_prod (\<lambda>_. 0) size) fs) (\<lambda>(_, f). size f)))") auto

text \<open>Types whose structs have fields, none of them a metadata column.\<close>

function plain_type :: "data_type \<Rightarrow> bool" and plain_fields :: "(string \<times> struct_field) list \<Rightarrow> bool" where
  "plain_type (Primitive _) = True"
| "plain_type (ArrayType e _) = plain_type e"
| "plain_type (StructT (StructType fs _)) = (fs \<noteq> [] \<and> plain_fields fs)"
| "plain_type (MapType k v _) = (plain_type k \<and> plain_type v)"
| "plain_type (Variant _) = True"
| "plain_fields [] = True"
| "plain_fields ((_, StructField n dt nu md) # fs) =
     (\<not> is_metadata_column (StructField n dt nu md) \<and> plain_type dt \<and> plain_fields fs)"
  by pat_completeness auto

termination
  by (relation "measure (case_sum size (size_list (size_prod (\<lambda>_. 0) size)))") auto

lemma phys_fields_length [simp]: "length (phys_fields mode fs) = length fs"
  by (induction fs) (auto split: prod.splits)

lemma phys_fields_empty [simp]: "phys_fields mode fs = [] \<longleftrightarrow> fs = []"
  by (cases fs) auto

lemma into_owned_map_owned [simp]:
  "into_owned (map_owned_or_else s f c) = (case c of Owned v \<Rightarrow> f v | Borrowed _ \<Rightarrow> s)"
  by (cases c) simp_all

lemma map_owned_children_all_owned:
  "xs \<noteq> [] \<Longrightarrow> map_owned_children_or_else p g (map (\<lambda>a. Some (Owned a)) xs) = Some (Owned (g xs))"
  by (simp add: map_owned_children_or_else_def Let_def comp_def)

text \<open>A result that is borrowed is the element itself.\<close>

definition represents :: "'a cow \<Rightarrow> 'a \<Rightarrow> 'a \<Rightarrow> bool" where
  "represents c x y \<longleftrightarrow> c = Owned y \<or> c = Borrowed x \<and> y = x"

lemma represents_into_owned: "represents c x y \<Longrightarrow> into_owned c = y"
  by (auto simp: represents_def)

lemma represents_map:
  "represents c x y \<Longrightarrow> represents (map_owned_or_else (f x) f c) (f x) (f y)"
  by (auto simp: represents_def)

lemma represents_pair:
  "represents c x y \<Longrightarrow> represents d u v \<Longrightarrow> represents (map_owned_pair_or_else (f x u) f c d) (f x u) (f y v)"
  by (auto simp: represents_def)

lemma mp_validate:
  "plain_type dt \<Longrightarrow> snd (mp_type mode dt st) = validate_type mode dt st \<and>
     (snd (validate_type mode dt st) = None \<longrightarrow>
       (\<exists>c. fst (mp_type mode dt st) = Some c \<and> represents c dt (phys_type mode dt)))"
  "plain_fields fs \<Longrightarrow> snd (mp_fields mode fs st) = validate_fields mode fs st \<and>
     (snd (validate_fields mode fs st) = None \<longrightarrow> fst (mp_fields mode fs st) = map (Some \<circ> Owned) (phys_fields mode fs))"
  "plain_fields [(n, f)] \<Longrightarrow> snd (mp_field mode f st) = validate_field mode f st \<and>
     (snd (validate_field mode f st) = None \<longrightarrow> fst (mp_field mode f st) = Some (Owned (phys_field mode f)))"
proof (induction mode dt st and mode fs st and mode f st rule: mp_type_mp_fields_mp_field.induct)
  case (1 mode p st)
  then show ?case by (simp add: represents_def)
next
  case (2 mode e n st)
  show ?case
  proof (cases "snd st = None")
    case True
    obtain r st' where r: "mp_type mode e st = (r, st')" by (cases "mp_type mode e st")
    then show ?thesis using 2 True
      by (cases r) (auto intro: represents_map)
  qed auto
next
  case (3 mode fs mc st)
  obtain cs st' where cs: "mp_fields mode fs st = (cs, st')" by (cases "mp_fields mode fs st")
  then show ?case using 3
    by (auto simp: map_owned_children_all_owned represents_def)
next
  case (4 mode k v n st)
  show ?case
  proof (cases "snd st = None")
    case True
    obtain r1 st1 where r1: "mp_type mode k st = (r1, st1)" by (cases "mp_type mode k st")
    have k: "st1 = validate_type mode k st" "snd st1 = None \<Longrightarrow> \<exists>c. r1 = Some c \<and> represents c k (phys_type mode k)"
      using 4 True r1 by auto
    show ?thesis
    proof (cases "snd st1 = None")
      case ok: True
      then obtain c where c: "r1 = Some c" "represents c k (phys_type mode k)" using k by blast
      obtain r2 st2 where r2: "mp_type mode v st1 = (r2, st2)" by (cases "mp_type mode v st1")
      have v: "st2 = validate_type mode v st1" "snd st2 = None \<Longrightarrow> \<exists>c. r2 = Some c \<and> represents c v (phys_type mode v)"
        using 4 True r1 r2 c ok by auto
      show ?thesis
        using True r1 r2 c ok k(1) v represents_pair [OF c(2), of _ v "phys_type mode v" "\<lambda>x y. MapType x y n"]
        by (cases r2) (auto simp: Let_def)
    next
      case False
      then show ?thesis using True r1 k(1) by (cases r1) (auto simp: Let_def)
    qed
  qed auto
next
  case (5 mode s st)
  then show ?case by (simp add: represents_def)
next
  case (7 mode n' f fs st)
  obtain c st1 where c: "mp_field mode f st = (c, st1)" by (cases "mp_field mode f st")
  obtain cs st2 where cs: "mp_fields mode fs st1 = (cs, st2)" by (cases "mp_fields mode fs st1")
  have pf: "plain_fields [(n, f)]" "plain_fields fs" using "7.prems" by (cases f; simp)+
  have f: "st1 = validate_field mode f st" "snd st1 = None \<Longrightarrow> c = Some (Owned (phys_field mode f))"
    using "7.IH"(1) pf(1) c by auto
  have fs: "st2 = validate_fields mode fs st1" "snd st2 = None \<Longrightarrow> cs = map (Some \<circ> Owned) (phys_fields mode fs)"
    using "7.IH"(2) [OF c [symmetric]] cs pf(2) by auto
  have "snd st1 = None" if "snd st2 = None"
    using that fs(1) by (metis validate_fold(2) validate_one_err)
  then show ?case using c cs f fs by auto
next
  case (8 mode name dt nullable md st)
  let ?f = "StructField name dt nullable md"
  obtain r seen where r: "get_field_column_mapping_info ?f mode (fst st) = (r, seen)" by (cases "get_field_column_mapping_info ?f mode (fst st)")
  have nm: "\<not> is_metadata_column ?f" "plain_type dt" using "8.prems" by auto
  show ?case
  proof (cases "snd st = None")
    case True
    show ?thesis
    proof (cases r)
      case (Inl e)
      then show ?thesis using True r by simp
    next
      case (Inr s)
      obtain p i where s: "s = (p, i)" by fastforce
      have p: "p = physical_name mode ?f" using mapping_info_name r Inr s nm(1) by blast
      obtain c st' where c: "mp_type mode dt (seen, None) = (c, st')" by (cases "mp_type mode dt (seen, None)")
      have "st' = validate_type mode dt (seen, None)"
        "snd st' = None \<Longrightarrow> \<exists>x. c = Some x \<and> represents x dt (phys_type mode dt)"
        using "8.IH" [OF _ r [symmetric] Inr s [symmetric] nm] True c by simp_all
      then show ?thesis using True r Inr s p c nm by (cases c) (auto simp: represents_into_owned)
    qed
  qed auto
qed simp_all

definition mappable :: "struct_field \<Rightarrow> bool" where
  "mappable f \<longleftrightarrow> (if is_metadata_column f then (\<exists>p. sf_data_type f = Primitive p) else plain_type (sf_data_type f))"

lemma mappable_code [code]:
  "mappable f = (if is_metadata_column f then (case sf_data_type f of Primitive _ \<Rightarrow> True | _ \<Rightarrow> False) else plain_type (sf_data_type f))"
  by (auto simp: mappable_def split: data_type.split)

lemma run_field_validate:
  assumes "mappable f"
  shows "run_field mode f (seen, None) =
    (case validate_field mode f (seen, None) of
       (seen', Some e) \<Rightarrow> (Inl e, (seen', None))
     | (seen', None) \<Rightarrow> (Inr (phys_field mode f), (seen', None)))"
proof (cases "is_metadata_column f")
  case True
  then obtain name p nullable md where "f = StructField name (Primitive p) nullable md"
    using assms by (cases f) (auto simp: mappable_def)
  then show ?thesis using True
    by (auto simp: run_field_def get_field_column_mapping_info_def)
next
  case False
  then have "plain_fields [(sf_name f, f)]" using assms by (cases f) (simp add: mappable_def)
  note v = mp_validate(3) [OF this, of mode "(seen, None)"]
  obtain r st where r: "mp_field mode f (seen, None) = (r, st)" by (cases "mp_field mode f (seen, None)")
  obtain seen' err where st: "st = (seen', err)" by (cases st)
  from v r st show ?thesis by (cases err) (auto simp: run_field_def split: prod.splits)
qed

lemma validate_fields_err:
  "snd st \<noteq> None \<Longrightarrow> validate_fields mode fs st = st"
  by (metis validate_fold(2) validate_one_err)

lemma run_fields_validate:
  "list_all (mappable \<circ> snd) fs \<Longrightarrow>
   run_fields mode (map snd fs) (seen, None) =
     (case snd (validate_fields mode fs (seen, None)) of
        Some e \<Rightarrow> Inl e
      | None \<Rightarrow> Inr (map (phys_field mode \<circ> snd) fs))"
proof (induction fs arbitrary: seen)
  case (Cons x fs)
  obtain n f where x: "x = (n, f)" by (cases x)
  obtain seen' err where v: "validate_field mode f (seen, None) = (seen', err)"
    by (cases "validate_field mode f (seen, None)")
  then show ?case
    using Cons x by (cases err) (auto simp: run_field_validate validate_fields_err split: option.splits)
qed simp

lemma make_physical_fields:
  assumes "list_all mappable (fields_of schema)" "make_physical low schema mode = Inr physical"
  shows "struct_try_new low (map (phys_field mode) (fields_of schema)) = Inr physical"
  using assms run_fields_validate [of "st_fields schema" mode "[]"]
  by (auto simp: make_physical_def fields_of_def list.pred_map comp_def result_simps split: option.splits)

lemma struct_try_new_fields:
  assumes "struct_try_new low fs = Inr st"
  shows "fields_of st = fs" "distinct (map sf_name fs)"
  using assms distinct_lower_names [of low fs] by (auto simp: struct_try_new_Inr valid_fields_def fields_of_def)

lemma new_unchecked_loop_fields:
  "distinct (map sf_name fs) \<Longrightarrow> set (map sf_name fs) \<inter> fst ` set fm = {} \<Longrightarrow>
   st_fields (new_unchecked_loop i fm mc fs) = fm @ by_name fs"
proof (induction fs arbitrary: i fm mc)
  case (Cons f fs)
  then show ?case by (auto simp: update_fresh simp del: update.simps split: option.splits)
qed simp

lemma new_unchecked_fields: "distinct (map sf_name fs) \<Longrightarrow> fields_of (new_unchecked fs) = fs"
  by (simp add: new_unchecked_def fields_of_def new_unchecked_loop_fields)

text \<open>
  The physical schema of a table. When every field is a metadata column of a primitive type or
  a data column whose structs are non-empty and hold no metadata columns,
  \<open>StructType::make_physical\<close> fails with exactly the error of
  \<open>validate_schema_column_mapping\<close> (so the schema validator and the transformation agree on which
  annotations, and which repeated ids, are wrong), and otherwise it rebuilds, with the checks of
  \<open>StructType::try_new\<close>, the schema in which every field at every level except the metadata
  columns has its physical name and its physical metadata, and everything else is as it was.
\<close>

theorem make_physical_renames:
  assumes "list_all mappable (fields_of schema)"
  shows "make_physical low schema mode =
    rbind (validate_schema_column_mapping schema mode)
      (\<lambda>_. struct_try_new low (map (phys_field mode) (fields_of schema)))"
  using assms run_fields_validate [of "st_fields schema" mode "[]"]
  by (simp add: make_physical_def validate_schema_column_mapping_def fields_of_def list.pred_map comp_def
      split: option.splits)

definition mapped_field :: "string \<Rightarrow> int \<Rightarrow> data_type \<Rightarrow> struct_field" where
  "mapped_field name i dt =
     StructField name dt True [(ID_KEY, MetaNumber i), (PHYSICAL_NAME_KEY, MetaString (''col-'' @ name))]"

definition mapped_schema :: struct_type where
  "mapped_schema = new_unchecked
     [mapped_field ''a'' 1 (StructT (new_unchecked [mapped_field ''b'' 2 (Primitive PInteger)])),
      mapped_field ''c'' 3 (ArrayType (Primitive PString) True)]"

lemma make_physical_renames_witness:
  "make_physical id mapped_schema NameMapping =
    rbind (validate_schema_column_mapping mapped_schema NameMapping)
      (\<lambda>_. struct_try_new id (map (phys_field NameMapping) (fields_of mapped_schema))) \<and>
   validate_schema_column_mapping mapped_schema NameMapping = Inr ()"
proof
  show "make_physical id mapped_schema NameMapping =
    rbind (validate_schema_column_mapping mapped_schema NameMapping)
      (\<lambda>_. struct_try_new id (map (phys_field NameMapping) (fields_of mapped_schema)))"
    by (rule make_physical_renames) code_simp
  show "validate_schema_column_mapping mapped_schema NameMapping = Inr ()" by code_simp
qed

definition unmapped_schema :: struct_type where
  "unmapped_schema = new_unchecked
     [StructField ''a'' (StructT (new_unchecked [StructField ''b'' (Primitive PInteger) True []])) True [],
      StructField ''c'' (Primitive PLong) False []]"

lemma assigned_mapping_valid_witness:
  "\<exists>schema' i'. assign_column_mapping_metadata id (\<lambda>_. ''u'') unmapped_schema 0 = Inr (schema', i') \<and>
     i' = 3 \<and> validate_schema_column_mapping schema' IdMapping = Inr ()"
proof -
  have "case assign_column_mapping_metadata id (\<lambda>_. ''u'') unmapped_schema 0 of Inr (_, i') \<Rightarrow> i' = 3 | Inl _ \<Rightarrow> False"
    by code_simp
  then obtain schema' i' where r: "assign_column_mapping_metadata id (\<lambda>_. ''u'') unmapped_schema 0 = Inr (schema', i')"
    and i: "i' = 3" by (auto split: sum.splits)
  have meta: "list_all (\<lambda>f. \<not> is_metadata_column f) (all_fields (st_fields unmapped_schema))" by code_simp
  have "total_struct_fields unmapped_schema = 3" by code_simp
  then have size: "total_struct_fields unmapped_schema < 2 ^ 64" by simp
  have "validate_schema_column_mapping schema' IdMapping = Inr ()"
    using assigned_mapping_valid [OF r, of IdMapping] meta size by simp
  then show ?thesis using r i by blast
qed

section \<open>Cases at the edge\<close>

text \<open>
  A field whose type is a struct without fields is reported as an internal error of the
  transformation when it is a field of the table, and silently dropped when it is nested.
\<close>

lemma make_physical_empty_struct:
  "make_physical id (new_unchecked [StructField ''e'' (StructT (new_unchecked [])) True []]) NoMapping =
     Inl (InternalError ''make_physical: transform returned None without setting an error'')"
  by code_simp

lemma make_physical_drops_nested_empty_struct:
  "make_physical id (new_unchecked [StructField ''s'' (StructT (new_unchecked
       [StructField ''e'' (StructT (new_unchecked [])) True [], StructField ''a'' (Primitive PInteger) True []])) True []]) NoMapping =
     Inr (new_unchecked [StructField ''s'' (StructT (new_unchecked [StructField ''a'' (Primitive PInteger) True []])) True []])"
  by code_simp

text \<open>The physical schema of a metadata column is the column itself, not an error.\<close>

lemma make_physical_metadata_column:
  assumes "is_metadata_column f" "\<not> has_mapping_metadata f"
  shows "field_make_physical f mode = Inr f"
  using assms
  by (cases f) (auto simp: field_make_physical_def run_field_def get_field_column_mapping_info_def has_mapping_metadata_def)

text \<open>A timestamp without time zone that is the value of a map is not found.\<close>

lemma ntz_in_map_value_missed:
  "schema_contains_timestamp_ntz
     (new_unchecked [StructField ''m'' (MapType (Primitive PString) (Primitive PTimestampNtz) True) True []]) = False"
  by code_simp

section \<open>What the checkers find\<close>

text \<open>The primitive and variant types a type is made of.\<close>

function leaf_types :: "data_type \<Rightarrow> data_type list" and leaf_types_of :: "(string \<times> struct_field) list \<Rightarrow> data_type list" where
  "leaf_types (Primitive p) = [Primitive p]"
| "leaf_types (ArrayType e _) = leaf_types e"
| "leaf_types (StructT (StructType fs _)) = leaf_types_of fs"
| "leaf_types (MapType k v _) = leaf_types k @ leaf_types v"
| "leaf_types (Variant s) = [Variant s]"
| "leaf_types_of [] = []"
| "leaf_types_of ((_, StructField n dt nu md) # fs) = leaf_types dt @ leaf_types_of fs"
  by pat_completeness auto

termination
  by (relation "measure (case_sum size (size_list (size_prod (\<lambda>_. 0) size)))") auto

definition is_variant :: "data_type \<Rightarrow> bool" where
  "is_variant dt = (case dt of Variant _ \<Rightarrow> True | _ \<Rightarrow> False)"

lemma variant_found:
  "plain_type dt \<Longrightarrow> snd (variant_type dt found) = (found \<or> list_ex is_variant (leaf_types dt)) \<and>
     (fst (variant_type dt found) \<or> snd (variant_type dt found))"
  "plain_fields fs \<Longrightarrow> snd (variant_fields fs found) = (found \<or> list_ex is_variant (leaf_types_of fs)) \<and>
     (fs = [] \<or> fst (variant_fields fs found) \<or> snd (variant_fields fs found))"
proof (induction dt found and fs found rule: variant_type_variant_fields.induct)
  case (4 k v n found)
  obtain kept found1 where k: "variant_type k found = (kept, found1)" by (cases "variant_type k found")
  then show ?case using 4 by (cases kept) auto
next
  case (7 n m dt nu md fs found)
  obtain kept found1 where dt: "variant_type dt found = (kept, found1)" by (cases "variant_type dt found")
  obtain kept' found2 where fs: "variant_fields fs found1 = (kept', found2)" by (cases "variant_fields fs found1")
  then show ?case using 7 dt by auto
qed (auto simp: is_variant_def)

definition has_invariants :: "struct_field \<Rightarrow> bool" where
  "has_invariants f \<longleftrightarrow> map_of (sf_metadata f) INVARIANTS_KEY \<noteq> None"

lemma invariant_kept: "fst (invariant_fields fs found) \<longleftrightarrow> fs \<noteq> []"
  by (cases fs; cases "snd (hd fs)") auto

lemma invariant_found:
  "plain_type dt \<Longrightarrow> \<not> list_ex is_variant (leaf_types dt) \<Longrightarrow>
     invariant_type dt found = (True, found \<or> list_ex has_invariants (fields_in dt))"
  "plain_fields fs \<Longrightarrow> \<not> list_ex is_variant (leaf_types_of fs) \<Longrightarrow>
     invariant_fields fs found = (fs \<noteq> [], found \<or> list_ex has_invariants (all_fields fs))"
proof (induction dt found and fs found rule: invariant_type_invariant_fields.induct)
  case (7 n m dt nu md fs found)
  then show ?case by (auto simp: has_invariants_def)
qed (auto simp: is_variant_def)

text \<open>
  The schema checkers look everywhere. In a schema whose structs are non-empty and hold no metadata
  columns, a variant type is reported exactly when a variant occurs at some depth, in a struct, an array
  or a map; and when there is none, column invariants are reported exactly when some field at some depth
  carries the invariants key, although the walk stops descending at the first one it meets.
\<close>

theorem schema_checkers_exact:
  assumes "plain_fields (st_fields schema)"
  shows "schema_contains_variant_type schema = list_ex is_variant (leaf_types_of (st_fields schema)) \<and>
    (schema_contains_variant_type schema \<or>
     schema_has_invariants schema = list_ex has_invariants (all_fields (st_fields schema)))"
  using variant_found(2) [OF assms, of False] invariant_found(2) [OF assms, of False]
  by (auto simp: schema_contains_variant_type_def schema_has_invariants_def)

definition invariant_schema :: struct_type where
  "invariant_schema = new_unchecked [StructField ''a'' (ArrayType (StructT (new_unchecked
     [StructField ''b'' (Primitive PInteger) True [(INVARIANTS_KEY, MetaString ''b > 0'')]])) True) True []]"

theorem schema_checkers_exact_witness:
  "plain_fields (st_fields invariant_schema) \<and> \<not> schema_contains_variant_type invariant_schema \<and>
   schema_has_invariants invariant_schema"
proof -
  have p: "plain_fields (st_fields invariant_schema)" by code_simp
  have "\<not> list_ex is_variant (leaf_types_of (st_fields invariant_schema))"
    "list_ex has_invariants (all_fields (st_fields invariant_schema))" by code_simp+
  then show ?thesis using p schema_checkers_exact [OF p] by auto
qed

end
