(* ===== verification/TableConfiguration.thy ===== *)
theory TableConfiguration
  imports TableFeatures ColumnMapping
begin

text \<open>
  The configuration of a table at a version (\<open>table_configuration.rs\<close>, \<open>Metadata\<close> of
  \<open>actions/mod.rs\<close>): how metadata and protocol are turned into a configuration, which features a
  protocol supports and enables, and when the kernel lets a scan, a change-data-feed read or a write
  go ahead. The deserialiser of the schema string is the parameter \<open>from_json\<close>, the predicate
  \<open>char::is_whitespace\<close> the parameter \<open>ws\<close> and \<open>str::to_lowercase\<close> the parameter \<open>low\<close>; URLs are
  strings. The cargo feature \<open>catalog-managed\<close> is the parameter \<open>cm\<close>.
\<close>

section \<open>The metadata action\<close>

record format =
  provider :: string
  format_options :: "(string \<times> string) list"

definition default_format :: format where
  "default_format = \<lparr> provider = ''parquet'', format_options = [] \<rparr>"

record metadata =
  md_id :: string
  md_name :: "string option"
  md_description :: "string option"
  md_format :: format
  schema_string :: string
  md_partition_columns :: "string list"
  created_time :: "64 word option"
  configuration :: "(string \<times> string) list"

text \<open>\<open>uuid\<close> is the fresh identifier and \<open>to_json\<close> the serialiser of schemas.\<close>

definition metadata_try_new ::
  "string \<Rightarrow> (struct_type \<Rightarrow> string delta_result) \<Rightarrow> string option \<Rightarrow> string option \<Rightarrow> struct_type \<Rightarrow> string list \<Rightarrow>
   64 word \<Rightarrow> (string \<times> string) list \<Rightarrow> metadata delta_result" where
  "metadata_try_new uuid to_json name description schema partition_columns created config =
     (case find is_metadata_column (fields_of schema) of
        Some _ \<Rightarrow> Inl (SchemaError ''Table schema must not contain metadata columns'')
      | None \<Rightarrow>
          rbind (to_json schema) (\<lambda>s.
            Inr \<lparr> md_id = uuid, md_name = name, md_description = description, md_format = default_format,
                  schema_string = s, md_partition_columns = partition_columns, created_time = Some created,
                  configuration = config \<rparr>))"

definition parse_schema :: "(string \<Rightarrow> struct_type delta_result) \<Rightarrow> metadata \<Rightarrow> struct_type delta_result" where
  "parse_schema from_json md = from_json (schema_string md)"

definition parse_table_properties :: "(char \<Rightarrow> bool) \<Rightarrow> metadata \<Rightarrow> table_properties" where
  "parse_table_properties ws md = properties_from ws (configuration md)"

section \<open>The configuration\<close>

record table_configuration =
  tc_metadata :: metadata
  tc_protocol :: protocol
  logical_schema :: struct_type
  physical_schema :: struct_type
  tc_properties :: table_properties
  tc_mapping_mode :: column_mapping_mode
  tc_table_root :: string
  tc_version :: version

definition validate_timestamp_ntz_feature_support :: "table_configuration \<Rightarrow> unit delta_result" where
  "validate_timestamp_ntz_feature_support tc =
     (if \<not> has_table_feature (tc_protocol tc) TimestampWithoutTimezone
      then require (\<not> schema_contains_timestamp_ntz (logical_schema tc))
        (Unsupported ''Table contains TIMESTAMP_NTZ columns but does not have the required 'timestampNtz' feature in reader and writer features'')
      else Inr ())"

definition validate_variant_type_feature_support :: "table_configuration \<Rightarrow> unit delta_result" where
  "validate_variant_type_feature_support tc =
     (if \<not> has_table_feature (tc_protocol tc) VariantType \<and> \<not> has_table_feature (tc_protocol tc) VariantTypePreview
      then require (\<not> schema_contains_variant_type (logical_schema tc))
        (Unsupported ''Table contains VARIANT columns but does not have the required 'variantType' feature in reader and writer features'')
      else Inr ())"

definition tc_try_new ::
  "(string \<Rightarrow> struct_type delta_result) \<Rightarrow> (char \<Rightarrow> bool) \<Rightarrow> (string \<Rightarrow> string) \<Rightarrow>
   metadata \<Rightarrow> protocol \<Rightarrow> string \<Rightarrow> version \<Rightarrow> table_configuration delta_result" where
  "tc_try_new from_json ws low md p root v =
     rbind (parse_schema from_json md) (\<lambda>logical.
       let props = parse_table_properties ws md; mode = column_mapping_mode p props
       in rbind (make_physical low logical mode) (\<lambda>physical.
            let tc = \<lparr> tc_metadata = md, tc_protocol = p, logical_schema = logical, physical_schema = physical,
                       tc_properties = props, tc_mapping_mode = mode, tc_table_root = root, tc_version = v \<rparr>
            in rbind (validate_timestamp_ntz_feature_support tc) (\<lambda>_.
               rbind (validate_variant_type_feature_support tc) (\<lambda>_. Inr tc))))"

definition unwrap_or :: "'a option \<Rightarrow> 'a \<Rightarrow> 'a" where
  "unwrap_or x d = (case x of Some y \<Rightarrow> y | None \<Rightarrow> d)"

definition tc_try_new_from ::
  "(string \<Rightarrow> struct_type delta_result) \<Rightarrow> (char \<Rightarrow> bool) \<Rightarrow> (string \<Rightarrow> string) \<Rightarrow>
   table_configuration \<Rightarrow> metadata option \<Rightarrow> protocol option \<Rightarrow> version \<Rightarrow> table_configuration delta_result" where
  "tc_try_new_from from_json ws low tc new_md new_p v =
     (if new_md = None \<and> new_p = None then Inr (tc\<lparr> tc_version := v \<rparr>)
      else tc_try_new from_json ws low (unwrap_or new_md (tc_metadata tc)) (unwrap_or new_p (tc_protocol tc))
             (tc_table_root tc) v)"

definition new_post_commit :: "table_configuration \<Rightarrow> version \<Rightarrow> table_configuration" where
  "new_post_commit tc v = tc\<lparr> tc_version := v \<rparr>"

section \<open>Schemas of data and partition columns\<close>

definition partition_columns :: "table_configuration \<Rightarrow> string list" where
  "partition_columns tc = md_partition_columns (tc_metadata tc)"

definition build_partition_values_parsed_schema :: "table_configuration \<Rightarrow> struct_type option" where
  "build_partition_values_parsed_schema tc =
     (if partition_columns tc = [] then None
      else Some (new_unchecked
        (map (\<lambda>f. StructField (physical_name (tc_mapping_mode tc) f) (sf_data_type f) (sf_nullable f) [])
          (List.map_filter (struct_field_named (logical_schema tc)) (partition_columns tc)))))"

definition logical_data_schema :: "table_configuration \<Rightarrow> struct_type" where
  "logical_data_schema tc =
     new_unchecked (filter (\<lambda>f. sf_name f \<notin> set (partition_columns tc)) (fields_of (logical_schema tc)))"

definition physical_data_schema_without_partition_columns :: "table_configuration \<Rightarrow> struct_type" where
  "physical_data_schema_without_partition_columns tc =
     new_unchecked (map snd (filter (\<lambda>(l, _). sf_name l \<notin> set (partition_columns tc))
       (zip (fields_of (logical_schema tc)) (fields_of (physical_schema tc)))))"

definition required_stats_columns_physical :: "table_configuration \<Rightarrow> column_name list option" where
  "required_stats_columns_physical tc =
     map_option (List.map_filter (\<lambda>col.
         case get_any_level_column_physical_name (logical_data_schema tc) col (tc_mapping_mode tc) of
           Inr c \<Rightarrow> Some c | Inl _ \<Rightarrow> None))
       (data_skipping_stats_columns (tc_properties tc))"

section \<open>Supported and enabled features\<close>

definition is_legacy_reader_version :: "protocol \<Rightarrow> bool" where
  "is_legacy_reader_version p \<longleftrightarrow> min_reader_version p < TABLE_FEATURES_MIN_READER_VERSION"

definition is_legacy_writer_version :: "protocol \<Rightarrow> bool" where
  "is_legacy_writer_version p \<longleftrightarrow> min_writer_version p < TABLE_FEATURES_MIN_WRITER_VERSION"

definition reader_supported :: "protocol \<Rightarrow> int \<Rightarrow> table_feature \<Rightarrow> bool" where
  "reader_supported p least f =
     (if is_legacy_reader_version p then least \<le> min_reader_version p else has_feature (reader_features p) f)"

definition writer_supported :: "protocol \<Rightarrow> int \<Rightarrow> table_feature \<Rightarrow> bool" where
  "writer_supported p least f =
     (if is_legacy_writer_version p then least \<le> min_writer_version p else has_feature (writer_features p) f)"

definition is_feature_supported :: "bool \<Rightarrow> table_configuration \<Rightarrow> table_feature \<Rightarrow> bool" where
  "is_feature_supported cm tc f =
     (let info = feature_info cm f; p = tc_protocol tc;
          min_reader = (case min_legacy_version info of None \<Rightarrow> TABLE_FEATURES_MIN_READER_VERSION | Some (r, _) \<Rightarrow> r);
          min_writer = (case min_legacy_version info of None \<Rightarrow> TABLE_FEATURES_MIN_WRITER_VERSION | Some (_, w) \<Rightarrow> w)
      in case fi_feature_type info of
           WriterOnly \<Rightarrow> writer_supported p min_writer f
         | ReaderWriter \<Rightarrow> reader_supported p min_reader f \<and> writer_supported p min_writer f
         | UnknownType \<Rightarrow> False)"

definition is_feature_enabled :: "bool \<Rightarrow> table_configuration \<Rightarrow> table_feature \<Rightarrow> bool" where
  "is_feature_enabled cm tc f =
     (if \<not> is_feature_supported cm tc f then False
      else case fi_enablement_check (feature_info cm f) of
             AlwaysIfSupported \<Rightarrow> True
           | EnabledIf check \<Rightarrow> check (tc_properties tc))"

definition is_catalog_managed :: "bool \<Rightarrow> table_configuration \<Rightarrow> bool" where
  "is_catalog_managed cm tc \<longleftrightarrow>
     is_feature_supported cm tc CatalogManaged \<or> is_feature_supported cm tc CatalogOwnedPreview"

section \<open>Which operations the kernel supports\<close>

definition check_requirement :: "bool \<Rightarrow> table_configuration \<Rightarrow> feature_requirement \<Rightarrow> unit delta_result" where
  "check_requirement cm tc req =
     (case req of
        ReqSupported dep \<Rightarrow> require (is_feature_supported cm tc dep) (InvalidProtocol ''Feature requires another to be supported'')
      | ReqEnabled dep \<Rightarrow> require (is_feature_enabled cm tc dep) (InvalidProtocol ''Feature requires another to be enabled'')
      | ReqNotSupported dep \<Rightarrow> require (\<not> is_feature_supported cm tc dep) (InvalidProtocol ''Feature requires another to not be supported'')
      | ReqNotEnabled dep \<Rightarrow> require (\<not> is_feature_enabled cm tc dep) (InvalidProtocol ''Feature requires another to not be enabled'')
      | ReqCustom check \<Rightarrow> check (tc_protocol tc) (tc_properties tc))"

definition validate_feature_requirements :: "bool \<Rightarrow> table_configuration \<Rightarrow> table_feature \<Rightarrow> unit delta_result" where
  "validate_feature_requirements cm tc f =
     try_for_each (check_requirement cm tc) (feature_requirements (feature_info cm f))"

definition check_feature_support :: "bool \<Rightarrow> table_configuration \<Rightarrow> operation \<Rightarrow> table_feature \<Rightarrow> unit delta_result" where
  "check_feature_support cm tc op f =
     rbind (case fi_kernel_support (feature_info cm f) of
              KernelSupported \<Rightarrow> Inr ()
            | KernelNotSupported \<Rightarrow> Inl (Unsupported ''Feature is not supported'')
            | KernelCustom check \<Rightarrow> check (tc_protocol tc) (tc_properties tc) op)
     (\<lambda>_. validate_feature_requirements cm tc f)"

definition get_enabled_reader_features :: "table_configuration \<Rightarrow> table_feature list" where
  "get_enabled_reader_features tc =
     (let v = min_reader_version (tc_protocol tc)
      in if v = TABLE_FEATURES_MIN_READER_VERSION then unwrap_or (reader_features (tc_protocol tc)) []
         else if 1 \<le> v \<and> v \<le> 2 then filter (\<lambda>f. is_valid_for_legacy_reader f v) LEGACY_READER_FEATURES
         else [])"

definition get_enabled_writer_features :: "table_configuration \<Rightarrow> table_feature list" where
  "get_enabled_writer_features tc =
     (let v = min_writer_version (tc_protocol tc)
      in if v = TABLE_FEATURES_MIN_WRITER_VERSION then unwrap_or (writer_features (tc_protocol tc)) []
         else if 1 \<le> v \<and> v \<le> 6 then filter (\<lambda>f. is_valid_for_legacy_writer f v) LEGACY_WRITER_FEATURES
         else [])"

definition ensure_read_supported :: "bool \<Rightarrow> table_configuration \<Rightarrow> operation \<Rightarrow> unit delta_result" where
  "ensure_read_supported cm tc op =
     (if MAX_VALID_READER_VERSION < min_reader_version (tc_protocol tc)
      then Inl (Unsupported ''Unsupported minimum reader version'')
      else try_for_each (check_feature_support cm tc op) (get_enabled_reader_features tc))"

definition ensure_write_supported :: "bool \<Rightarrow> table_configuration \<Rightarrow> unit delta_result" where
  "ensure_write_supported cm tc =
     (if MAX_VALID_WRITER_VERSION < min_writer_version (tc_protocol tc)
      then Inl (Unsupported ''Unsupported minimum writer version'')
      else rbind (try_for_each (check_feature_support cm tc OpWrite) (get_enabled_writer_features tc))
        (\<lambda>_. if is_feature_supported cm tc Invariants \<and> schema_has_invariants (logical_schema tc)
             then Inl (Unsupported ''Column invariants are not yet supported'') else Inr ()))"

definition ensure_operation_supported :: "bool \<Rightarrow> table_configuration \<Rightarrow> operation \<Rightarrow> unit delta_result" where
  "ensure_operation_supported cm tc op =
     (case op of OpWrite \<Rightarrow> ensure_write_supported cm tc | _ \<Rightarrow> ensure_read_supported cm tc op)"

section \<open>In-commit timestamps and row tracking\<close>

datatype in_commit_timestamp_enablement = IctNotEnabled | IctEnabled "(version \<times> 64 word) option"

definition in_commit_timestamp_enablement ::
  "bool \<Rightarrow> table_configuration \<Rightarrow> in_commit_timestamp_enablement delta_result" where
  "in_commit_timestamp_enablement cm tc =
     (if \<not> is_feature_enabled cm tc InCommitTimestamp then Inr IctNotEnabled
      else (case (in_commit_timestamp_enablement_version (tc_properties tc),
                  in_commit_timestamp_enablement_timestamp (tc_properties tc)) of
              (Some v, Some t) \<Rightarrow> Inr (IctEnabled (Some (v, t)))
            | (Some _, None) \<Rightarrow> Inl (Generic ''In-commit timestamp enabled, but enablement timestamp is missing'')
            | (None, Some _) \<Rightarrow> Inl (Generic ''In-commit timestamp enabled, but enablement version is missing'')
            | (None, None) \<Rightarrow> Inr (IctEnabled None)))"

definition is_row_tracking_suspended :: "table_configuration \<Rightarrow> bool" where
  "is_row_tracking_suspended tc = unwrap_or (row_tracking_suspended (tc_properties tc)) False"

definition should_write_row_tracking :: "bool \<Rightarrow> table_configuration \<Rightarrow> bool" where
  "should_write_row_tracking cm tc \<longleftrightarrow> is_feature_supported cm tc RowTracking \<and> \<not> is_row_tracking_suspended tc"

section \<open>The two readings of a protocol agree\<close>

lemma writer_supported_iff:
  assumes "protocol_ok (tc_protocol tc)" "feature_type f \<noteq> UnknownType"
  shows "writer_supported (tc_protocol tc)
      (case min_legacy_version (feature_info cm f) of None \<Rightarrow> TABLE_FEATURES_MIN_WRITER_VERSION | Some (_, w) \<Rightarrow> w) f \<longleftrightarrow>
    f \<in> set (get_enabled_writer_features tc)"
  using assms
  by (cases f)
    (auto simp: writer_supported_def is_legacy_writer_version_def get_enabled_writer_features_def Let_def unwrap_or_def
      has_feature_def protocol_constants protocol_ok_def feature_info_def mk_info_def is_valid_for_legacy_writer_def
      LEGACY_WRITER_FEATURES_def feature_type_def split: option.split)

lemma reader_supported_iff:
  assumes "protocol_ok (tc_protocol tc)" "feature_type f = ReaderWriter"
  shows "reader_supported (tc_protocol tc)
      (case min_legacy_version (feature_info cm f) of None \<Rightarrow> TABLE_FEATURES_MIN_READER_VERSION | Some (r, _) \<Rightarrow> r) f \<longleftrightarrow>
    f \<in> set (get_enabled_reader_features tc)"
  using assms
  by (cases f)
    (auto simp: reader_supported_def is_legacy_reader_version_def get_enabled_reader_features_def Let_def unwrap_or_def
      has_feature_def protocol_constants protocol_ok_def feature_info_def mk_info_def is_valid_for_legacy_reader_def
      LEGACY_READER_FEATURES_def feature_type_def split: option.split)

lemma writer_only_supported:
  assumes "protocol_ok (tc_protocol tc)" "feature_type f = WriterOnly"
  shows "is_feature_supported cm tc f \<longleftrightarrow> f \<in> set (get_enabled_writer_features tc)"
  using writer_supported_iff [OF assms(1), of f cm] assms(2) by (simp add: is_feature_supported_def Let_def)

text \<open>
  C25. Feature support is read from a protocol in one way. \<open>is_feature_supported\<close>, which compares the
  versions with the static table of each feature, and \<open>get_enabled_reader_features\<close> and
  \<open>get_enabled_writer_features\<close>, which list the features from the legacy tables or from the
  protocol's lists, agree for every feature on a valid protocol of any version: a writer-only feature
  is supported exactly when it is listed for writers, a reader-writer feature exactly when it is listed
  for both, and an unknown feature never.
\<close>

theorem feature_support_agrees:
  assumes "protocol_ok (tc_protocol tc)"
  shows "is_feature_supported cm tc f \<longleftrightarrow>
    (case feature_type f of
       WriterOnly \<Rightarrow> f \<in> set (get_enabled_writer_features tc)
     | ReaderWriter \<Rightarrow> f \<in> set (get_enabled_reader_features tc) \<and> f \<in> set (get_enabled_writer_features tc)
     | UnknownType \<Rightarrow> False)"
  using writer_supported_iff [OF assms, of f cm] reader_supported_iff [OF assms, of f cm]
  by (cases "feature_type f") (simp_all add: is_feature_supported_def Let_def)

section \<open>What can be read and written\<close>

definition readable_features :: "bool \<Rightarrow> operation \<Rightarrow> table_feature set" where
  "readable_features cm op =
     {ColumnMapping, DeletionVectors, TimestampWithoutTimezone, TypeWidening, TypeWideningPreview, V2Checkpoint,
      VacuumProtocolCheck, VariantType, VariantTypePreview, VariantShreddingPreview} \<union>
     (if cm \<and> op = OpScan then {CatalogManaged, CatalogOwnedPreview} else {})"

definition writable_features :: "bool \<Rightarrow> table_feature set" where
  "writable_features cm =
     {AppendOnly, Invariants, ChangeDataFeed, InCommitTimestamp, RowTracking, DomainMetadata, ClusteredTable,
      MaterializePartitionColumns, ColumnMapping, DeletionVectors, TimestampWithoutTimezone, V2Checkpoint,
      VacuumProtocolCheck, VariantType, VariantTypePreview, VariantShreddingPreview} \<union>
     (if cm then {CatalogManaged, CatalogOwnedPreview} else {})"

lemma check_read_feature:
  assumes "op \<noteq> OpWrite" "feature_type f \<noteq> WriterOnly"
  shows "check_feature_support cm tc op f = Inr () \<longleftrightarrow> f \<in> readable_features cm op"
  using assms
  by (cases f; cases op)
    (simp_all add: check_feature_support_def validate_feature_requirements_def feature_info_def mk_info_def
      readable_features_def not_for_def feature_type_def)

lemma check_write_feature:
  "check_feature_support cm tc OpWrite f = Inr () \<longleftrightarrow>
     f \<in> writable_features cm \<and> (f \<in> {RowTracking, ClusteredTable} \<longrightarrow> is_feature_supported cm tc DomainMetadata)"
  by (cases f)
    (simp_all add: check_feature_support_def validate_feature_requirements_def feature_info_def mk_info_def
      check_requirement_def writable_features_def not_for_def result_simps)

lemma enabled_reader_not_writer_only:
  "protocol_ok (tc_protocol tc) \<Longrightarrow> f \<in> set (get_enabled_reader_features tc) \<Longrightarrow> feature_type f \<noteq> WriterOnly"
  by (auto simp: get_enabled_reader_features_def Let_def unwrap_or_def protocol_ok_def has_feature_def protocol_constants
      LEGACY_READER_FEATURES_def feature_type_def split: if_splits option.splits)



definition example_configuration :: "protocol \<Rightarrow> table_configuration" where
  "example_configuration p =
     \<lparr> tc_metadata = \<lparr> md_id = ''id'', md_name = None, md_description = None, md_format = default_format, schema_string = '''',
         md_partition_columns = [], created_time = None, configuration = [] \<rparr>,
       tc_protocol = p, logical_schema = new_unchecked [], physical_schema = new_unchecked [],
       tc_properties = default_properties, tc_mapping_mode = NoMapping, tc_table_root = ''memory:///'', tc_version = 0 \<rparr>"

definition example_protocol :: protocol where
  "example_protocol =
     \<lparr> min_reader_version = 3, min_writer_version = 7, reader_features = Some [DeletionVectors],
       writer_features = Some [DeletionVectors, RowTracking, DomainMetadata] \<rparr>"

lemma example_protocol_ok: "protocol_ok example_protocol"
proof -
  have "case protocol_try_new 3 7 (Some [DeletionVectors]) (Some [DeletionVectors, RowTracking, DomainMetadata]) of
      Inr p \<Rightarrow> p = example_protocol | Inl _ \<Rightarrow> False"
    by code_simp
  then show ?thesis by (auto simp: protocol_try_new_Inr_iff split: sum.splits)
qed

lemma example_configuration_protocol [simp]: "tc_protocol (example_configuration p) = p"
  by (simp add: example_configuration_def)

theorem feature_support_agrees_witness:
  "is_feature_supported False (example_configuration example_protocol) RowTracking \<and>
   \<not> is_feature_supported False (example_configuration example_protocol) V2Checkpoint"
  using feature_support_agrees [of "example_configuration example_protocol" False RowTracking]
    feature_support_agrees [of "example_configuration example_protocol" False V2Checkpoint] example_protocol_ok
  by (simp add: get_enabled_writer_features_def get_enabled_reader_features_def example_protocol_def feature_type_def
      protocol_constants unwrap_or_def)



section \<open>Building and updating a configuration\<close>

lemma tc_try_new_Inr:
  "tc_try_new from_json ws low md p root v = Inr tc \<longleftrightarrow>
     from_json (schema_string md) = Inr (logical_schema tc) \<and>
     make_physical low (logical_schema tc) (tc_mapping_mode tc) = Inr (physical_schema tc) \<and>
     tc_metadata tc = md \<and> tc_protocol tc = p \<and> tc_table_root tc = root \<and> tc_version tc = v \<and>
     tc_properties tc = properties_from ws (configuration md) \<and>
     tc_mapping_mode tc = column_mapping_mode p (tc_properties tc) \<and>
     (has_table_feature p TimestampWithoutTimezone \<or> \<not> schema_contains_timestamp_ntz (logical_schema tc)) \<and>
     (has_table_feature p VariantType \<or> has_table_feature p VariantTypePreview \<or> \<not> schema_contains_variant_type (logical_schema tc))"
  by (cases tc)
    (auto simp: tc_try_new_def parse_schema_def parse_table_properties_def Let_def result_simps
      validate_timestamp_ntz_feature_support_def validate_variant_type_feature_support_def split: if_splits)

lemma tc_incremental:
  assumes "tc_try_new from_json ws low md0 p0 root v0 = Inr tc"
  shows "tc_try_new_from from_json ws low tc md p v =
      tc_try_new from_json ws low (unwrap_or md md0) (unwrap_or p p0) root v \<and>
    tc_try_new from_json ws low md0 p0 root v = Inr (new_post_commit tc v)"
proof -
  have post: "tc_try_new from_json ws low md0 p0 root v = Inr (new_post_commit tc v)"
    using assms unfolding tc_try_new_Inr by (auto simp: new_post_commit_def)
  have "tc_metadata tc = md0" "tc_protocol tc = p0" "tc_table_root tc = root"
    using assms by (simp_all add: tc_try_new_Inr)
  then show ?thesis
    using post by (cases "md = None \<and> p = None") (auto simp: tc_try_new_from_def unwrap_or_def new_post_commit_def)
qed

text \<open>
  C26. Configurations are updated incrementally as if built afresh. Starting from a configuration built
  by \<open>TableConfiguration::try_new\<close>, moving to a later version with new metadata, a new protocol, both or
  neither gives exactly the configuration, or the error, that building it from the resulting metadata
  and protocol gives; the shortcut for a commit that changes neither skips no check that could fail.
\<close>

theorem incremental_configuration:
  assumes "tc_try_new from_json ws low md0 p0 root v0 = Inr tc"
  shows "tc_try_new_from from_json ws low tc md p v =
      tc_try_new from_json ws low (unwrap_or md md0) (unwrap_or p p0) root v \<and>
    tc_try_new from_json ws low md0 p0 root v = Inr (new_post_commit tc v)"
  by (rule tc_incremental [OF assms])

definition ntz_json :: "string \<Rightarrow> struct_type delta_result" where
  "ntz_json s = (if s = ''t'' then Inr (new_unchecked [StructField ''t'' (Primitive PTimestampNtz) True []])
                 else if s = ''i'' then Inr (new_unchecked [StructField ''i'' (Primitive PInteger) True []])
                 else Inl (MalformedJson s))"

definition example_metadata :: "string \<Rightarrow> metadata" where
  "example_metadata s = (tc_metadata (example_configuration example_protocol))\<lparr> schema_string := s \<rparr>"

lemma incremental_configuration_witness:
  "\<exists>tc. tc_try_new ntz_json (\<lambda>c. c = CHR '' '') id (example_metadata ''i'') example_protocol ''memory:///'' 0 = Inr tc \<and>
     tc_try_new_from ntz_json (\<lambda>c. c = CHR '' '') id tc (Some (example_metadata ''t'')) None 1 =
     Inl (Unsupported ''Table contains TIMESTAMP_NTZ columns but does not have the required 'timestampNtz' feature in reader and writer features'')"
proof -
  let ?new = "\<lambda>s v. tc_try_new ntz_json (\<lambda>c. c = CHR '' '') id (example_metadata s) example_protocol ''memory:///'' v"
  have "case ?new ''i'' 0 of Inr _ \<Rightarrow> True | Inl _ \<Rightarrow> False" by code_simp
  then obtain tc where tc: "?new ''i'' 0 = Inr tc" by (auto split: sum.splits)
  have "case ?new ''t'' 1 of Inl e \<Rightarrow> e =
      Unsupported ''Table contains TIMESTAMP_NTZ columns but does not have the required 'timestampNtz' feature in reader and writer features''
      | Inr _ \<Rightarrow> False" by code_simp
  then show ?thesis
    using tc incremental_configuration [OF tc, of "Some (example_metadata ''t'')" None 1]
    by (auto simp: unwrap_or_def split: sum.splits)
qed

section \<open>Data columns and partition columns\<close>

lemma filter_zip_map: "map snd (filter (\<lambda>(x, _). P x) (zip xs (map g xs))) = map g (filter P xs)"
  by (induction xs) auto

text \<open>
  The physical data schema. For a table whose columns are data columns with non-empty structs, the
  schema of the data files, which the code computes by pairing the logical with the physical fields by
  position, is the logical schema without the partition columns in which every field is renamed to its
  physical name at every level, in the order of the logical schema and with no field lost.
\<close>

theorem physical_data_schema:
  assumes tc: "tc_try_new from_json ws low md p root v = Inr tc"
    and plain: "list_all (\<lambda>f. \<not> is_metadata_column f \<and> plain_type (sf_data_type f)) (fields_of (logical_schema tc))"
  shows "fields_of (physical_data_schema_without_partition_columns tc) =
    map (phys_field (tc_mapping_mode tc))
      (filter (\<lambda>f. sf_name f \<notin> set (md_partition_columns md)) (fields_of (logical_schema tc)))"
proof -
  let ?phys = "phys_field (tc_mapping_mode tc)" and ?fs = "fields_of (logical_schema tc)"
    and ?data = "\<lambda>f. sf_name f \<notin> set (md_partition_columns md)"
  have mp: "make_physical low (logical_schema tc) (tc_mapping_mode tc) = Inr (physical_schema tc)"
    and md: "partition_columns tc = md_partition_columns md"
    using tc by (auto simp: tc_try_new_Inr partition_columns_def)
  have "struct_try_new low (map ?phys ?fs) = Inr (physical_schema tc)"
    by (rule make_physical_fields [OF _ mp]) (use plain in \<open>auto simp: mappable_def list_all_iff\<close>)
  then have fs: "fields_of (physical_schema tc) = map ?phys ?fs" and d: "distinct (map sf_name (map ?phys ?fs))"
    using struct_try_new_fields by blast+
  have "map snd (filter (\<lambda>(l, _). ?data l) (zip ?fs (map ?phys ?fs))) = map ?phys (filter ?data ?fs)"
    by (simp add: filter_zip_map)
  moreover have "distinct (map sf_name (map ?phys (filter ?data ?fs)))"
    using d by (simp add: distinct_map_filter)
  ultimately show ?thesis
    by (simp add: physical_data_schema_without_partition_columns_def md fs new_unchecked_fields)
qed

definition partitioned_metadata :: metadata where
  "partitioned_metadata = (example_metadata ''p'')\<lparr> md_partition_columns := [''d''] \<rparr>"

definition partitioned_json :: "string \<Rightarrow> struct_type delta_result" where
  "partitioned_json s = Inr (new_unchecked
     [StructField ''i'' (Primitive PInteger) True [], StructField ''d'' (Primitive PDate) True [],
      StructField ''s'' (Primitive PString) True []])"

theorem physical_data_schema_witness:
  "\<exists>tc. tc_try_new partitioned_json (\<lambda>c. c = CHR '' '') id partitioned_metadata example_protocol ''memory:///'' 0 = Inr tc \<and>
     map sf_name (fields_of (physical_data_schema_without_partition_columns tc)) = [''i'', ''s'']"
proof -
  let ?new = "tc_try_new partitioned_json (\<lambda>c. c = CHR '' '') id partitioned_metadata example_protocol ''memory:///'' 0"
  have "case ?new of Inl _ \<Rightarrow> False | Inr tc \<Rightarrow>
      list_all (\<lambda>f. \<not> is_metadata_column f \<and> plain_type (sf_data_type f)) (fields_of (logical_schema tc)) \<and>
      map sf_name (map (phys_field (tc_mapping_mode tc))
        (filter (\<lambda>f. sf_name f \<notin> set (md_partition_columns partitioned_metadata)) (fields_of (logical_schema tc)))) = [''i'', ''s'']"
    by code_simp
  then show ?thesis using physical_data_schema by (auto split: sum.splits)
qed

section \<open>Where the documentation and the code differ\<close>

text \<open>
  \<open>TableConfiguration::try_new\<close> builds the configuration of a table that the kernel cannot read; the
  read is refused by \<open>ensure_operation_supported\<close> only.
\<close>

lemma try_new_accepts_unreadable_table:
  "\<exists>tc. tc_try_new ntz_json (\<lambda>c. c = CHR '' '') id (example_metadata ''i'')
       \<lparr> min_reader_version = 3, min_writer_version = 7, reader_features = Some [UnknownFeature ''zorder''],
         writer_features = Some [UnknownFeature ''zorder''] \<rparr> ''memory:///'' 0 = Inr tc \<and>
     ensure_operation_supported True tc OpScan = Inl (Unsupported ''Feature is not supported'')"
proof -
  let ?new = "tc_try_new ntz_json (\<lambda>c. c = CHR '' '') id (example_metadata ''i'')
       \<lparr> min_reader_version = 3, min_writer_version = 7, reader_features = Some [UnknownFeature ''zorder''],
         writer_features = Some [UnknownFeature ''zorder''] \<rparr> ''memory:///'' 0"
  have "case ?new of Inl _ \<Rightarrow> False
      | Inr tc \<Rightarrow> ensure_operation_supported True tc OpScan = Inl (Unsupported ''Feature is not supported'')"
    by code_simp
  then show ?thesis by (auto split: sum.splits)
qed

text \<open>Versions below 1 are not refused, although the comments give the range from 1.\<close>

lemma version_zero_supported:
  assumes "min_reader_version (tc_protocol tc) \<le> 0" "min_writer_version (tc_protocol tc) \<le> 0"
  shows "ensure_operation_supported cm tc OpScan = Inr ()" "ensure_operation_supported cm tc OpWrite = Inr ()"
  using assms
  by (simp_all add: ensure_operation_supported_def ensure_read_supported_def ensure_write_supported_def
      get_enabled_reader_features_def get_enabled_writer_features_def protocol_constants is_feature_supported_def
      feature_info_def mk_info_def writer_supported_def is_legacy_writer_version_def)

end
