(* ===== verification/StatsSchema.thy ===== *)
theory StatsSchema
  imports TableConfiguration "HOL-Library.Sublist"
begin

text \<open>
  Which columns of a table have statistics (\<open>scan/data_skipping/stats_schema/\<close>, \<open>column_trie.rs\<close> and
  the methods of \<open>table_configuration.rs\<close> that use them): the trie of column paths, the filter that
  applies the table properties, the collection of column names and the transforms that build the schema
  of the statistics. Hash maps of the trie are association lists; \<open>added_columns\<close> is a \<open>u64\<close>.
\<close>

section \<open>Tries of column paths\<close>

datatype column_trie = ColumnTrie (trie_children: "(string \<times> column_trie) list") (is_terminal: bool)

definition trie_new :: column_trie where
  "trie_new = ColumnTrie [] False"

fun trie_insert :: "column_name \<Rightarrow> column_trie \<Rightarrow> column_trie" where
  "trie_insert [] (ColumnTrie children _) = ColumnTrie children True"
| "trie_insert (part # parts) (ColumnTrie children t) =
     ColumnTrie (AList.update part
       (trie_insert parts (case map_of children part of None \<Rightarrow> trie_new | Some node \<Rightarrow> node)) children) t"

definition trie_from_columns :: "column_name list \<Rightarrow> column_trie" where
  "trie_from_columns columns = fold trie_insert columns trie_new"

fun contains_prefix_of :: "column_trie \<Rightarrow> column_name \<Rightarrow> bool" where
  "contains_prefix_of node [] = is_terminal node"
| "contains_prefix_of node (part # path) =
     (if is_terminal node then True
      else (case map_of (trie_children node) part of
              None \<Rightarrow> False
            | Some child \<Rightarrow> contains_prefix_of child path))"

section \<open>The column filter\<close>

record stats_config =
  sc_stats_columns :: "column_name list option"
  sc_num_indexed_cols :: "num_indexed_cols option"

record stats_column_filter =
  n_columns :: "num_indexed_cols option"
  added_columns :: u64
  data_skipping_stats_trie :: "column_trie option"
  required_trie :: "column_trie option"
  required_columns :: "column_name list option"
  requested_trie :: "column_trie option"
  filter_path :: "string list"

definition stats_column_filter_new ::
  "stats_config \<Rightarrow> column_name list option \<Rightarrow> column_name list option \<Rightarrow> stats_column_filter" where
  "stats_column_filter_new config required requested =
     (let requested_trie = (case requested of Some (c # cs) \<Rightarrow> Some (trie_from_columns (c # cs)) | _ \<Rightarrow> None)
      in case sc_stats_columns config of
           Some names \<Rightarrow>
             \<lparr> n_columns = None, added_columns = 0,
               data_skipping_stats_trie = Some (fold trie_insert (unwrap_or required []) (trie_from_columns names)),
               required_trie = None, required_columns = None, requested_trie = requested_trie, filter_path = [] \<rparr>
         | None \<Rightarrow>
             \<lparr> n_columns = Some (unwrap_or (sc_num_indexed_cols config) default_num_indexed_cols), added_columns = 0,
               data_skipping_stats_trie = None,
               required_trie = map_option trie_from_columns required, required_columns = required,
               requested_trie = requested_trie, filter_path = [] \<rparr>)"

definition at_column_limit :: "stats_column_filter \<Rightarrow> bool" where
  "at_column_limit flt = (case n_columns flt of Some (NumColumns n) \<Rightarrow> n \<le> added_columns flt | _ \<Rightarrow> False)"

definition is_required_column :: "stats_column_filter \<Rightarrow> bool" where
  "is_required_column flt =
     (case required_trie flt of None \<Rightarrow> False | Some trie \<Rightarrow> contains_prefix_of trie (filter_path flt))"

definition should_include_for_table :: "stats_column_filter \<Rightarrow> bool" where
  "should_include_for_table flt =
     (case data_skipping_stats_trie flt of
        Some trie \<Rightarrow> contains_prefix_of trie (filter_path flt)
      | None \<Rightarrow> if at_column_limit flt then is_required_column flt else True)"

definition should_include_for_requested :: "stats_column_filter \<Rightarrow> bool" where
  "should_include_for_requested flt =
     (case requested_trie flt of None \<Rightarrow> True | Some trie \<Rightarrow> contains_prefix_of trie (filter_path flt))"

definition enter_field :: "string \<Rightarrow> stats_column_filter \<Rightarrow> stats_column_filter" where
  "enter_field name flt = flt\<lparr> filter_path := filter_path flt @ [name] \<rparr>"

definition exit_field :: "stats_column_filter \<Rightarrow> stats_column_filter" where
  "exit_field flt = flt\<lparr> filter_path := butlast (filter_path flt) \<rparr>"

definition record_included :: "stats_column_filter \<Rightarrow> stats_column_filter" where
  "record_included flt = flt\<lparr> added_columns := added_columns flt + 1 \<rparr>"

section \<open>Collecting column names\<close>

function collect_type ::
    "data_type \<Rightarrow> stats_column_filter \<times> column_name list \<Rightarrow> stats_column_filter \<times> column_name list"
  and collect_fields ::
    "(string \<times> struct_field) list \<Rightarrow> stats_column_filter \<times> column_name list \<Rightarrow> stats_column_filter \<times> column_name list"
  and collect_field ::
    "struct_field \<Rightarrow> stats_column_filter \<times> column_name list \<Rightarrow> stats_column_filter \<times> column_name list" where
  "collect_type (StructT (StructType fs _)) st = collect_fields fs st"
| "collect_type (MapType _ _ _) st = st"
| "collect_type (ArrayType _ _) st = st"
| "collect_type (Variant _) st = st"
| "collect_type (Primitive _) (flt, result) =
     (if should_include_for_table flt then (record_included flt, result @ [filter_path flt]) else (flt, result))"
| "collect_fields [] st = st"
| "collect_fields ((_, f) # fs) st = collect_fields fs (collect_field f st)"
| "collect_field (StructField name dt _ _) (flt, result) =
     (if at_column_limit flt then (flt, result)
      else (case collect_type dt (enter_field name flt, result) of (flt', result') \<Rightarrow> (exit_field flt', result')))"
  by pat_completeness auto

termination
  by (relation "measure (case_sum (\<lambda>(dt, _). size dt)
      (case_sum (\<lambda>(fs, _). size_list (size_prod (\<lambda>_. 0) size) fs) (\<lambda>(f, _). size f)))") auto

definition add_required :: "struct_type \<Rightarrow> column_name \<Rightarrow> column_name list \<Rightarrow> column_name list" where
  "add_required schema col result =
     (if col \<in> set result then result
      else (case walk_column_fields schema col of Inr _ \<Rightarrow> result @ [col] | Inl _ \<Rightarrow> result))"

definition collect_columns ::
  "stats_column_filter \<Rightarrow> struct_type \<Rightarrow> column_name list \<Rightarrow> stats_column_filter \<times> column_name list" where
  "collect_columns flt schema result =
     (case collect_fields (st_fields schema) (flt, result) of
        (flt', result') \<Rightarrow> (flt', fold (add_required schema) (unwrap_or (required_columns flt') []) result'))"

definition stats_column_names :: "struct_type \<Rightarrow> stats_config \<Rightarrow> column_name list option \<Rightarrow> column_name list" where
  "stats_column_names schema config required =
     snd (collect_columns (stats_column_filter_new config required None) schema [])"

section \<open>The transforms of statistics schemas\<close>

definition make_nullable_field :: "struct_field \<Rightarrow> data_type cow \<Rightarrow> struct_field cow" where
  "make_nullable_field f dt =
     (case dt of
        Borrowed _ \<Rightarrow> if sf_nullable f then Borrowed f else Owned (StructField (sf_name f) (into_owned dt) True (sf_metadata f))
      | Owned dt' \<Rightarrow> Owned (StructField (sf_name f) dt' True (sf_metadata f)))"

text \<open>The children of a struct, put back together by \<open>recurse_into_struct\<close> and \<open>transform\<close>.\<close>

definition rebuild_struct :: "struct_type \<Rightarrow> struct_field cow option list \<Rightarrow> data_type cow option" where
  "rebuild_struct st cs =
     map_option (map_owned_or_else (StructT st) StructT) (map_owned_children_or_else st new_unchecked cs)"

function base_type :: "data_type \<Rightarrow> stats_column_filter \<Rightarrow> data_type cow option \<times> stats_column_filter"
  and base_fields ::
    "(string \<times> struct_field) list \<Rightarrow> stats_column_filter \<Rightarrow> struct_field cow option list \<times> stats_column_filter"
  and base_field :: "struct_field \<Rightarrow> stats_column_filter \<Rightarrow> struct_field cow option \<times> stats_column_filter" where
  "base_type (Primitive p) flt =
     (if \<not> should_include_for_table flt then (None, flt)
      else let flt' = record_included flt
           in (if should_include_for_requested flt' then Some (Borrowed (Primitive p)) else None, flt'))"
| "base_type (StructT (StructType fs mc)) flt =
     (case base_fields fs flt of (cs, flt') \<Rightarrow> (rebuild_struct (StructType fs mc) cs, flt'))"
| "base_type (ArrayType _ _) flt = (None, flt)"
| "base_type (MapType _ _ _) flt = (None, flt)"
| "base_type (Variant _) flt = (None, flt)"
| "base_fields [] flt = ([], flt)"
| "base_fields ((_, f) # fs) flt =
     (case base_field f flt of
        (c, flt1) \<Rightarrow> (case base_fields fs flt1 of (cs, flt2) \<Rightarrow> (c # cs, flt2)))"
| "base_field (StructField name dt nullable md) flt =
     (case base_type dt (enter_field name flt) of
        (r, flt') \<Rightarrow> (map_option (make_nullable_field (StructField name dt nullable md)) r, exit_field flt'))"
  by pat_completeness auto

termination
  by (relation "measure (case_sum (\<lambda>(dt, _). size dt)
      (case_sum (\<lambda>(fs, _). size_list (size_prod (\<lambda>_. 0) size) fs) (\<lambda>(f, _). size f)))") auto

definition base_struct :: "stats_column_filter \<Rightarrow> struct_type \<Rightarrow> struct_type cow option" where
  "base_struct flt st = map_owned_children_or_else st new_unchecked (fst (base_fields (st_fields st) flt))"

text \<open>\<open>recurse_into_struct_field\<close>: the field with its new data type.\<close>

definition recurse_field :: "struct_field \<Rightarrow> data_type cow option \<Rightarrow> struct_field cow option" where
  "recurse_field f =
     map_option (map_owned_or_else f (\<lambda>dt. StructField (sf_name f) dt (sf_nullable f) (sf_metadata f)))"

function nullable_type :: "data_type \<Rightarrow> data_type cow option"
  and nullable_fields :: "(string \<times> struct_field) list \<Rightarrow> struct_field cow option list"
  and nullable_field :: "struct_field \<Rightarrow> struct_field cow option" where
  "nullable_type (Primitive p) = Some (Borrowed (Primitive p))"
| "nullable_type (ArrayType e n) = map_option (map_owned_or_else (ArrayType e n) (\<lambda>x. ArrayType x n)) (nullable_type e)"
| "nullable_type (StructT (StructType fs mc)) = rebuild_struct (StructType fs mc) (nullable_fields fs)"
| "nullable_type (MapType k v n) =
     (case nullable_type k of
        None \<Rightarrow> None
      | Some k' \<Rightarrow> map_option (map_owned_pair_or_else (MapType k v n) (\<lambda>x y. MapType x y n) k') (nullable_type v))"
| "nullable_type (Variant (StructType fs mc)) =
     map_option (map_owned_or_else (Variant (StructType fs mc)) Variant)
       (map_owned_children_or_else (StructType fs mc) new_unchecked (nullable_fields fs))"
| "nullable_fields [] = []"
| "nullable_fields ((_, f) # fs) = nullable_field f # nullable_fields fs"
| "nullable_field (StructField name dt nullable md) =
     map_option (make_nullable_field (StructField name dt nullable md)) (nullable_type dt)"
  by pat_completeness auto

termination
  by (relation "measure (case_sum size (case_sum (size_list (size_prod (\<lambda>_. 0) size)) size))") auto

definition schema_with_all_fields_nullable :: "struct_type \<Rightarrow> struct_type delta_result" where
  "schema_with_all_fields_nullable st =
     (case map_owned_children_or_else st new_unchecked (nullable_fields (st_fields st)) of
        Some s \<Rightarrow> Inr (into_owned s)
      | None \<Rightarrow> Inl (InternalError ''NullableStatsTransform failed''))"

definition strip_owned :: "struct_field \<Rightarrow> data_type cow \<Rightarrow> struct_field cow" where
  "strip_owned f dt =
     (if is_borrowed dt \<and> sf_metadata f = [] then Borrowed f
      else Owned (StructField (sf_name f) (into_owned dt) (sf_nullable f) []))"

function strip_type :: "data_type \<Rightarrow> data_type cow option"
  and strip_fields :: "(string \<times> struct_field) list \<Rightarrow> struct_field cow option list"
  and strip_field :: "struct_field \<Rightarrow> struct_field cow option" where
  "strip_type (Primitive p) = Some (Borrowed (Primitive p))"
| "strip_type (ArrayType e n) = map_option (map_owned_or_else (ArrayType e n) (\<lambda>x. ArrayType x n)) (strip_type e)"
| "strip_type (StructT (StructType fs mc)) = rebuild_struct (StructType fs mc) (strip_fields fs)"
| "strip_type (MapType k v n) =
     (case strip_type k of
        None \<Rightarrow> None
      | Some k' \<Rightarrow> map_option (map_owned_pair_or_else (MapType k v n) (\<lambda>x y. MapType x y n) k') (strip_type v))"
| "strip_type (Variant (StructType fs mc)) =
     map_option (map_owned_or_else (Variant (StructType fs mc)) Variant)
       (map_owned_children_or_else (StructType fs mc) new_unchecked (strip_fields fs))"
| "strip_fields [] = []"
| "strip_fields ((_, f) # fs) = strip_field f # strip_fields fs"
| "strip_field (StructField name dt nullable md) =
     map_option (strip_owned (StructField name dt nullable md)) (strip_type dt)"
  by pat_completeness auto

termination
  by (relation "measure (case_sum size (case_sum (size_list (size_prod (\<lambda>_. 0) size)) size))") auto

definition strip_struct :: "struct_type \<Rightarrow> struct_type cow option" where
  "strip_struct st = map_owned_children_or_else st new_unchecked (strip_fields (st_fields st))"

function null_count_type :: "data_type \<Rightarrow> data_type cow option"
  and null_count_fields :: "(string \<times> struct_field) list \<Rightarrow> struct_field cow option list"
  and null_count_field :: "struct_field \<Rightarrow> struct_field cow option" where
  "null_count_type (StructT (StructType fs mc)) = rebuild_struct (StructType fs mc) (null_count_fields fs)"
| "null_count_type (Primitive p) = Some (Borrowed (Primitive p))"
| "null_count_type (ArrayType e n) = Some (Borrowed (ArrayType e n))"
| "null_count_type (MapType k v n) = Some (Borrowed (MapType k v n))"
| "null_count_type (Variant s) = Some (Borrowed (Variant s))"
| "null_count_fields [] = []"
| "null_count_fields ((_, f) # fs) = null_count_field f # null_count_fields fs"
| "null_count_field (StructField name dt nullable md) =
     (case dt of
        StructT _ \<Rightarrow> recurse_field (StructField name dt nullable md) (null_count_type dt)
      | _ \<Rightarrow> Some (Owned (StructField name (Primitive PLong) True md)))"
  by pat_completeness auto

termination
  by (relation "measure (case_sum size (case_sum (size_list (size_prod (\<lambda>_. 0) size)) size))") auto

definition null_count_struct :: "struct_type \<Rightarrow> struct_type cow option" where
  "null_count_struct st = map_owned_children_or_else st new_unchecked (null_count_fields (st_fields st))"

definition is_skipping_eligible_datatype :: "primitive_type \<Rightarrow> bool" where
  "is_skipping_eligible_datatype p =
     (case p of
        PByte \<Rightarrow> True | PShort \<Rightarrow> True | PInteger \<Rightarrow> True | PLong \<Rightarrow> True | PFloat \<Rightarrow> True | PDouble \<Rightarrow> True
      | PDate \<Rightarrow> True | PTimestamp \<Rightarrow> True | PTimestampNtz \<Rightarrow> True | PString \<Rightarrow> True | PDecimal _ \<Rightarrow> True
      | _ \<Rightarrow> False)"

function min_max_type :: "data_type \<Rightarrow> data_type cow option"
  and min_max_fields :: "(string \<times> struct_field) list \<Rightarrow> struct_field cow option list"
  and min_max_field :: "struct_field \<Rightarrow> struct_field cow option" where
  "min_max_type (Primitive p) = (if is_skipping_eligible_datatype p then Some (Borrowed (Primitive p)) else None)"
| "min_max_type (StructT (StructType fs mc)) = rebuild_struct (StructType fs mc) (min_max_fields fs)"
| "min_max_type (ArrayType _ _) = None"
| "min_max_type (MapType _ _ _) = None"
| "min_max_type (Variant _) = None"
| "min_max_fields [] = []"
| "min_max_fields ((_, f) # fs) = min_max_field f # min_max_fields fs"
| "min_max_field (StructField name dt nullable md) = recurse_field (StructField name dt nullable md) (min_max_type dt)"
  by pat_completeness auto

termination
  by (relation "measure (case_sum size (case_sum (size_list (size_prod (\<lambda>_. 0) size)) size))") auto

definition min_max_struct :: "struct_type \<Rightarrow> struct_type cow option" where
  "min_max_struct st = map_owned_children_or_else st new_unchecked (min_max_fields (st_fields st))"

section \<open>The schemas\<close>

definition nullable_stat :: "string \<Rightarrow> data_type \<Rightarrow> struct_field" where
  "nullable_stat name dt = StructField name dt True []"

definition null_count_stat :: "struct_type \<Rightarrow> struct_field list" where
  "null_count_stat base =
     (case null_count_struct base of None \<Rightarrow> [] | Some s \<Rightarrow> [nullable_stat ''nullCount'' (StructT (into_owned s))])"

definition min_max_stats :: "struct_type \<Rightarrow> struct_field list" where
  "min_max_stats base =
     (case min_max_struct base of
        None \<Rightarrow> []
      | Some s \<Rightarrow> [nullable_stat ''minValues'' (StructT (into_owned s)), nullable_stat ''maxValues'' (StructT (into_owned s))])"

definition expected_stats_schema ::
  "(string \<Rightarrow> string) \<Rightarrow> struct_type \<Rightarrow> stats_config \<Rightarrow> column_name list option \<Rightarrow> column_name list option \<Rightarrow>
   struct_type delta_result" where
  "expected_stats_schema low schema config required requested =
     struct_try_new low
       ([nullable_stat ''numRecords'' (Primitive PLong)] @
        (case base_struct (stats_column_filter_new config required requested) schema of
           None \<Rightarrow> []
         | Some base \<Rightarrow> null_count_stat (into_owned base) @ min_max_stats (into_owned base)) @
        [nullable_stat ''tightBounds'' (Primitive PBoolean)])"

definition build_stats_schema :: "struct_type \<Rightarrow> struct_type option" where
  "build_stats_schema referenced =
     (case schema_with_all_fields_nullable referenced of
        Inl _ \<Rightarrow> None
      | Inr stats \<Rightarrow>
          (case null_count_struct stats of
             None \<Rightarrow> None
           | Some nc \<Rightarrow>
               let schema = new_unchecked
                     [nullable_stat ''numRecords'' (Primitive PLong), nullable_stat ''nullCount'' (StructT (into_owned nc)),
                      nullable_stat ''minValues'' (StructT stats), nullable_stat ''maxValues'' (StructT stats)]
               in Some (case strip_struct schema of Some s \<Rightarrow> into_owned s | None \<Rightarrow> schema)))"

definition strip_metadata :: "struct_type \<Rightarrow> struct_type" where
  "strip_metadata schema = (case strip_struct schema of Some (Owned s) \<Rightarrow> s | _ \<Rightarrow> schema)"

section \<open>The statistics of a table\<close>

definition stats_config_of :: "table_configuration \<Rightarrow> stats_config" where
  "stats_config_of tc =
     \<lparr> sc_stats_columns = required_stats_columns_physical tc,
       sc_num_indexed_cols = data_skipping_num_indexed_cols (tc_properties tc) \<rparr>"

definition build_expected_stats_schemas ::
  "(string \<Rightarrow> string) \<Rightarrow> table_configuration \<Rightarrow> column_name list option \<Rightarrow> column_name list option \<Rightarrow>
   struct_type delta_result" where
  "build_expected_stats_schemas low tc required requested =
     rbind (expected_stats_schema low (physical_data_schema_without_partition_columns tc) (stats_config_of tc) required requested)
       (\<lambda>schema. Inr (strip_metadata schema))"

definition stats_column_names_physical :: "table_configuration \<Rightarrow> column_name list option \<Rightarrow> column_name list" where
  "stats_column_names_physical tc required = stats_column_names (physical_schema tc) (stats_config_of tc) required"

section \<open>A trie is the set of its columns\<close>

fun trie_member :: "column_trie \<Rightarrow> column_name \<Rightarrow> bool" where
  "trie_member node [] = is_terminal node"
| "trie_member node (part # parts) =
     (case map_of (trie_children node) part of None \<Rightarrow> False | Some child \<Rightarrow> trie_member child parts)"

lemma trie_member_new [simp]: "\<not> trie_member trie_new c"
  by (cases c) (simp_all add: trie_new_def)

lemma trie_member_insert [simp]: "trie_member (trie_insert c t) d \<longleftrightarrow> d = c \<or> trie_member t d"
proof (induction c t arbitrary: d rule: trie_insert.induct)
  case (1 children t)
  then show ?case by (cases d) simp_all
next
  case (2 part parts children t)
  then show ?case by (cases d) (auto simp: update_conv' split: option.split)
qed

lemma trie_member_fold [simp]: "trie_member (fold trie_insert cs t) d \<longleftrightarrow> d \<in> set cs \<or> trie_member t d"
  by (induction cs arbitrary: t) auto

lemma contains_prefix_of_member: "contains_prefix_of t path \<longleftrightarrow> (\<exists>c. trie_member t c \<and> prefix c path)"
proof (induction path arbitrary: t)
  case (Cons part path)
  have "(\<exists>c. trie_member t c \<and> prefix c (part # path)) \<longleftrightarrow>
      trie_member t [] \<or> (\<exists>c. trie_member t (part # c) \<and> prefix c path)"
    unfolding prefix_Cons by blast
  then show ?case using Cons by (auto split: option.split)
qed simp

definition covers :: "column_name list \<Rightarrow> column_name \<Rightarrow> bool" where
  "covers cols path \<longleftrightarrow> list_ex (\<lambda>c. prefix c path) cols"

lemma contains_from_columns [simp]: "contains_prefix_of (trie_from_columns cols) path \<longleftrightarrow> covers cols path"
  by (auto simp: contains_prefix_of_member trie_from_columns_def covers_def list_ex_iff)

lemma contains_insert_columns [simp]:
  "contains_prefix_of (fold trie_insert cs (trie_from_columns cols)) path \<longleftrightarrow> covers (cols @ cs) path"
  by (auto simp: contains_prefix_of_member trie_from_columns_def covers_def list_ex_iff)

section \<open>Leaf columns\<close>

text \<open>The primitive columns of a schema in order, those inside arrays, maps and variants excepted.\<close>

function leaf_columns :: "data_type \<Rightarrow> (column_name \<times> primitive_type) list"
  and leaf_columns_of :: "(string \<times> struct_field) list \<Rightarrow> (column_name \<times> primitive_type) list" where
  "leaf_columns (Primitive p) = [([], p)]"
| "leaf_columns (StructT (StructType fs _)) = leaf_columns_of fs"
| "leaf_columns (ArrayType _ _) = []"
| "leaf_columns (MapType _ _ _) = []"
| "leaf_columns (Variant _) = []"
| "leaf_columns_of [] = []"
| "leaf_columns_of ((_, StructField name dt _ _) # fs) = map (apfst ((#) name)) (leaf_columns dt) @ leaf_columns_of fs"
  by pat_completeness auto

termination
  by (relation "measure (case_sum size (size_list (size_prod (\<lambda>_. 0) size)))") auto

text \<open>
  Structs whose fields are stored under their names, have different names and are not metadata columns,
  as in every table schema built with \<open>StructType::try_new\<close>.
\<close>

function named_type :: "data_type \<Rightarrow> bool" and named_fields :: "(string \<times> struct_field) list \<Rightarrow> bool" where
  "named_type (Primitive _) = True"
| "named_type (StructT (StructType fs _)) =
     (map fst fs = map (sf_name \<circ> snd) fs \<and> distinct (map (sf_name \<circ> snd) fs) \<and> named_fields fs)"
| "named_type (ArrayType _ _) = True"
| "named_type (MapType _ _ _) = True"
| "named_type (Variant _) = True"
| "named_fields [] = True"
| "named_fields ((_, StructField n dt nu md) # fs) =
     (\<not> is_metadata_column (StructField n dt nu md) \<and> named_type dt \<and> named_fields fs)"
  by pat_completeness auto

termination
  by (relation "measure (case_sum size (size_list (size_prod (\<lambda>_. 0) size)))") auto

lemma leaf_columns_of_append [simp]: "leaf_columns_of (fs @ gs) = leaf_columns_of fs @ leaf_columns_of gs"
proof (induction fs)
  case (Cons x fs)
  then show ?case by (cases x; cases "snd x") simp_all
qed simp

section \<open>Structs put back together\<close>

definition survivors :: "'a cow option list \<Rightarrow> 'a cow list" where
  "survivors cs = concat (map (\<lambda>c. case c of None \<Rightarrow> [] | Some x \<Rightarrow> [x]) cs)"

lemma survivors_simps [simp]:
  "survivors [] = []" "survivors (None # cs) = survivors cs" "survivors (Some x # cs) = x # survivors cs"
  by (simp_all add: survivors_def)

lemma length_survivors: "length (survivors cs) \<le> length cs"
  by (induction cs) (auto simp: survivors_def split: option.splits)

text \<open>A child that is borrowed is the field itself, and every child keeps the name and the metadata of its field.\<close>

definition child_of :: "struct_field \<Rightarrow> struct_field cow option \<Rightarrow> bool" where
  "child_of f c = (case c of None \<Rightarrow> True | Some (Borrowed g) \<Rightarrow> g = f | Some (Owned g) \<Rightarrow> sf_name g = sf_name f \<and> sf_metadata g = sf_metadata f)"

definition kept :: "struct_field cow option list \<Rightarrow> struct_field list" where
  "kept cs = map into_owned (survivors cs)"

lemma kept_simps [simp]:
  "kept [] = []" "kept (None # cs) = kept cs" "kept (Some x # cs) = into_owned x # kept cs"
  by (simp_all add: kept_def)

lemma child_of_name: "child_of f (Some c) \<Longrightarrow> sf_name (into_owned c) = sf_name f"
  by (cases c) (simp_all add: child_of_def)

lemma child_of_metadata: "child_of f (Some c) \<Longrightarrow> is_metadata_column (into_owned c) = is_metadata_column f"
  by (cases c) (simp_all add: child_of_def is_metadata_column_def)

lemma kept_names:
  "list_all2 child_of fs cs \<Longrightarrow> distinct (map sf_name fs) \<Longrightarrow>
   distinct (map sf_name (kept cs)) \<and> set (map sf_name (kept cs)) \<subseteq> set (map sf_name fs)"
proof (induction rule: list_all2_induct)
  case (Cons f fs c cs)
  then show ?case
  proof (cases c)
    case (Some g)
    then show ?thesis using Cons child_of_name [of f g] by (auto simp: image_iff subset_iff)
  qed auto
qed simp

lemma kept_all_borrowed:
  "list_all2 child_of fs cs \<Longrightarrow> \<not> length (filter is_borrowed (survivors cs)) < length cs \<Longrightarrow> kept cs = fs"
proof (induction rule: list_all2_induct)
  case (Cons f fs c cs)
  have "length (filter is_borrowed (survivors cs)) \<le> length cs"
    using length_filter_le [of is_borrowed "survivors cs"] length_survivors [of cs] by linarith
  then obtain g where "c = Some (Borrowed g)" using Cons
    by (cases c; cases "the c") (auto split: if_splits)
  then show ?case using Cons by (auto simp: child_of_def)
qed simp

lemma children_fields:
  assumes "list_all2 child_of (map snd fs) cs" "distinct (map (sf_name \<circ> snd) fs)"
  shows "case map_owned_children_or_else (StructType fs mc) new_unchecked cs of
      None \<Rightarrow> kept cs = []
    | Some s \<Rightarrow> kept cs \<noteq> [] \<and> fields_of (into_owned s) = kept cs \<and> (\<forall>t. s = Borrowed t \<longrightarrow> t = StructType fs mc)"
proof -
  have sv: "map_owned_children_or_else (StructType fs mc) new_unchecked cs =
      (if survivors cs = [] then None
       else if length (filter is_borrowed (survivors cs)) < length cs then Some (Owned (new_unchecked (kept cs)))
       else Some (Borrowed (StructType fs mc)))"
    by (simp add: map_owned_children_or_else_def survivors_def kept_def Let_def)
  have "distinct (map sf_name (kept cs))" using kept_names [OF assms(1)] assms(2) by (simp add: map_map)
  moreover have "survivors cs = [] \<longleftrightarrow> kept cs = []" by (simp add: kept_def)
  ultimately show ?thesis
    using kept_all_borrowed [OF assms(1)]
    by (auto simp: sv new_unchecked_fields) (simp add: fields_of_def)
qed

definition field_leaves :: "struct_field \<Rightarrow> (column_name \<times> primitive_type) list" where
  "field_leaves f = map (apfst ((#) (sf_name f))) (leaf_columns (sf_data_type f))"

lemma leaf_columns_of_fields: "leaf_columns_of fs = concat (map (field_leaves \<circ> snd) fs)"
proof (induction fs)
  case (Cons x fs)
  then show ?case by (cases x; cases "snd x") (simp_all add: field_leaves_def)
qed simp

lemma leaf_columns_struct: "leaf_columns (StructT st) = concat (map field_leaves (fields_of st))"
  by (cases st) (simp add: leaf_columns_of_fields fields_of_def)

section \<open>The base transform selects leaf columns\<close>

definition at_path :: "stats_column_filter \<Rightarrow> column_name \<Rightarrow> stats_column_filter" where
  "at_path flt q = flt\<lparr> filter_path := filter_path flt @ q \<rparr>"

text \<open>What the transform does at a leaf column, and at the leaf columns in order.\<close>

fun select_leaves ::
  "(column_name \<times> primitive_type) list \<Rightarrow> stats_column_filter \<Rightarrow> (column_name \<times> primitive_type) list \<times> stats_column_filter" where
  "select_leaves [] flt = ([], flt)"
| "select_leaves ((q, p) # ls) flt =
     (if \<not> should_include_for_table (at_path flt q) then select_leaves ls flt
      else (case select_leaves ls (record_included flt) of
              (sel, flt') \<Rightarrow> (if should_include_for_requested (at_path flt q) then (q, p) # sel else sel, flt')))"

lemma select_append:
  "select_leaves (ls @ ms) flt =
     (case select_leaves ls flt of (sel, flt') \<Rightarrow>
        (case select_leaves ms flt' of (sel', flt'') \<Rightarrow> (sel @ sel', flt'')))"
  by (induction ls flt rule: select_leaves.induct) (auto split: prod.splits)

lemma filter_simps [simp]:
  "filter_path (record_included flt) = filter_path flt"
  "record_included (enter_field name flt) = enter_field name (record_included flt)"
  "exit_field (enter_field name flt) = flt"
  "at_path (enter_field name flt) q = at_path flt (name # q)"
  "at_path flt [] = flt"
  "should_include_for_requested (record_included flt) = should_include_for_requested flt"
  by (simp_all add: record_included_def enter_field_def exit_field_def at_path_def should_include_for_requested_def
      split: option.split)

lemma select_enter:
  "select_leaves ls (enter_field name flt) =
     (case select_leaves (map (apfst ((#) name)) ls) flt of (sel, flt') \<Rightarrow> (map (apfst tl) sel, enter_field name flt'))"
  by (induction ls arbitrary: flt) (auto split: prod.splits)

lemma select_subset: "set (fst (select_leaves ls flt)) \<subseteq> set ls"
proof (induction ls flt rule: select_leaves.induct)
  case (2 q p ls flt)
  then show ?case
    by (cases "select_leaves ls (record_included flt)"; cases "should_include_for_table (at_path flt q)") auto
qed simp

lemma select_prefix: "(q, p) \<in> set (fst (select_leaves (map (apfst ((#) name)) ls) flt)) \<Longrightarrow> \<exists>q'. q = name # q'"
  using select_subset [of "map (apfst ((#) name)) ls" flt] by auto

lemma select_enter_map:
  "map (apfst ((#) name)) (fst (select_leaves ls (enter_field name flt))) = fst (select_leaves (map (apfst ((#) name)) ls) flt)"
proof -
  have "apfst ((#) name) (apfst tl x) = x" if "x \<in> set (fst (select_leaves (map (apfst ((#) name)) ls) flt))" for x
    using select_prefix [of "fst x" "snd x" name ls flt] that by (cases x) auto
  then show ?thesis by (simp add: select_enter map_idI split: prod.splits)
qed

text \<open>Types made of primitives and of non-empty structs with different names.\<close>

function stats_type :: "data_type \<Rightarrow> bool" and stats_fields :: "(string \<times> struct_field) list \<Rightarrow> bool" where
  "stats_type (Primitive _) = True"
| "stats_type (StructT (StructType fs _)) = (fs \<noteq> [] \<and> distinct (map (sf_name \<circ> snd) fs) \<and> stats_fields fs)"
| "stats_type (ArrayType _ _) = False"
| "stats_type (MapType _ _ _) = False"
| "stats_type (Variant _) = False"
| "stats_fields [] = True"
| "stats_fields ((_, StructField n dt nu md) # fs) =
     (\<not> is_metadata_column (StructField n dt nu md) \<and> stats_type dt \<and> stats_fields fs)"
  by pat_completeness auto

termination
  by (relation "measure (case_sum size (size_list (size_prod (\<lambda>_. 0) size)))") auto

lemma stats_fields_iff: "stats_fields fs \<longleftrightarrow> (\<forall>f \<in> set (map snd fs). \<not> is_metadata_column f \<and> stats_type (sf_data_type f))"
proof (induction fs)
  case (Cons x fs)
  then show ?case by (cases x; cases "snd x") simp_all
qed simp

lemma stats_struct: "stats_type (StructT st) \<longleftrightarrow>
    fields_of st \<noteq> [] \<and> distinct (map sf_name (fields_of st)) \<and> (\<forall>f \<in> set (fields_of st). \<not> is_metadata_column f \<and> stats_type (sf_data_type f))"
  by (cases st) (simp add: fields_of_def stats_fields_iff)

lemma stats_leaves: "stats_type dt \<Longrightarrow> leaf_columns dt \<noteq> []" "stats_fields fs \<Longrightarrow> fs \<noteq> [] \<Longrightarrow> leaf_columns_of fs \<noteq> []"
  by (induction dt and fs rule: leaf_columns_leaf_columns_of.induct) auto

text \<open>The result of a transform of a type whose selected leaf columns are \<open>sel\<close>.\<close>

definition transformed :: "data_type \<Rightarrow> data_type cow option \<Rightarrow> (column_name \<times> primitive_type) list \<Rightarrow> bool" where
  "transformed dt r sel = (case r of
     None \<Rightarrow> sel = []
   | Some c \<Rightarrow> leaf_columns (into_owned c) = sel \<and> stats_type (into_owned c) \<and> (\<forall>t. c = Borrowed t \<longrightarrow> t = dt))"

definition transformed_field :: "struct_field \<Rightarrow> struct_field cow option \<Rightarrow> (column_name \<times> primitive_type) list \<Rightarrow> bool" where
  "transformed_field f c sel = (child_of f c \<and> (case c of
     None \<Rightarrow> sel = []
   | Some g \<Rightarrow> field_leaves (into_owned g) = sel \<and> stats_type (sf_data_type (into_owned g))))"

definition transformed_fields ::
  "(string \<times> struct_field) list \<Rightarrow> struct_field cow option list \<Rightarrow> (column_name \<times> primitive_type) list \<Rightarrow> bool" where
  "transformed_fields fs cs sel \<longleftrightarrow> list_all2 child_of (map snd fs) cs \<and>
     concat (map field_leaves (kept cs)) = sel \<and>
     (\<forall>g \<in> set (kept cs). \<not> is_metadata_column g \<and> stats_type (sf_data_type g))"

lemma transformed_fields_Nil [simp]: "transformed_fields [] [] []"
  by (simp add: transformed_fields_def)

lemma transformed_fields_Cons:
  "transformed_field f c sel \<Longrightarrow> \<not> is_metadata_column f \<Longrightarrow> transformed_fields fs cs sel' \<Longrightarrow>
   transformed_fields ((n, f) # fs) (c # cs) (sel @ sel')"
  by (cases c) (auto simp: transformed_field_def transformed_fields_def child_of_metadata)

lemma transformed_rebuild:
  assumes "transformed_fields fs cs sel" "distinct (map (sf_name \<circ> snd) fs)"
  shows "transformed (StructT (StructType fs mc)) (rebuild_struct (StructType fs mc) cs) sel"
proof -
  have l2: "list_all2 child_of (map snd fs) cs" and sel: "concat (map field_leaves (kept cs)) = sel"
    and st: "\<forall>g \<in> set (kept cs). \<not> is_metadata_column g \<and> stats_type (sf_data_type g)"
    using assms(1) by (auto simp: transformed_fields_def)
  have d: "distinct (map sf_name (kept cs))" using kept_names [OF l2] assms(2) by (simp add: map_map)
  show ?thesis
  proof (cases "map_owned_children_or_else (StructType fs mc) new_unchecked cs")
    case None
    then show ?thesis using children_fields [OF l2 assms(2), of mc] sel by (simp add: rebuild_struct_def transformed_def)
  next
    case (Some s)
    then have s: "kept cs \<noteq> []" "fields_of (into_owned s) = kept cs" "\<And>t. s = Borrowed t \<Longrightarrow> t = StructType fs mc"
      using children_fields [OF l2 assms(2), of mc] by auto
    let ?dt = "map_owned_or_else (StructT (StructType fs mc)) StructT s"
    have "into_owned ?dt = StructT (into_owned s)" using s(3) by (cases s) auto
    moreover have "t = StructT (StructType fs mc)" if "?dt = Borrowed t" for t using that by (cases s) auto
    ultimately show ?thesis
      using Some s sel d st by (simp add: rebuild_struct_def transformed_def leaf_columns_struct stats_struct)
  qed
qed

lemma transformed_nullable:
  assumes "transformed dt r sel"
  shows "transformed_field (StructField n dt nu md) (map_option (make_nullable_field (StructField n dt nu md)) r)
    (map (apfst ((#) n)) sel)"
proof (cases r)
  case (Some c)
  then show ?thesis using assms
    by (cases c) (auto simp: transformed_def transformed_field_def make_nullable_field_def child_of_def field_leaves_def)
qed (use assms in \<open>simp add: transformed_def transformed_field_def child_of_def\<close>)

lemma base_selects:
  "named_type dt \<Longrightarrow> snd (base_type dt flt) = snd (select_leaves (leaf_columns dt) flt) \<and>
     transformed dt (fst (base_type dt flt)) (fst (select_leaves (leaf_columns dt) flt))"
  "named_fields fs \<Longrightarrow> snd (base_fields fs flt) = snd (select_leaves (leaf_columns_of fs) flt) \<and>
     transformed_fields fs (fst (base_fields fs flt)) (fst (select_leaves (leaf_columns_of fs) flt))"
  "named_type (sf_data_type f) \<Longrightarrow> snd (base_field f flt) = snd (select_leaves (field_leaves f) flt) \<and>
     transformed_field f (fst (base_field f flt)) (fst (select_leaves (field_leaves f) flt))"
proof (induction dt flt and fs flt and f flt rule: base_type_base_fields_base_field.induct)
  case (1 p flt)
  then show ?case by (simp add: transformed_def Let_def)
next
  case (2 fs mc flt)
  then show ?case using transformed_rebuild [of fs "fst (base_fields fs flt)" _ mc] by (auto split: prod.splits)
next
  case (7 n f fs flt)
  obtain name dt nu md where f: "f = StructField name dt nu md" by (cases f)
  obtain c flt1 where c: "base_field f flt = (c, flt1)" by (cases "base_field f flt")
  obtain cs flt2 where cs: "base_fields fs flt1 = (cs, flt2)" by (cases "base_fields fs flt1")
  have h: "flt1 = snd (select_leaves (field_leaves f) flt)" "transformed_field f c (fst (select_leaves (field_leaves f) flt))"
    using "7.IH"(1) "7.prems" c f by auto
  have t: "flt2 = snd (select_leaves (leaf_columns_of fs) flt1)" "transformed_fields fs cs (fst (select_leaves (leaf_columns_of fs) flt1))"
    using "7.IH"(2) [OF c [symmetric]] "7.prems" cs f by auto
  have "select_leaves (leaf_columns_of ((n, f) # fs)) flt =
      (fst (select_leaves (field_leaves f) flt) @ fst (select_leaves (leaf_columns_of fs) flt1), flt2)"
    using h(1) t(1) by (simp add: leaf_columns_of_fields select_append split: prod.splits)
  then show ?case using c cs transformed_fields_Cons [OF h(2) _ t(2)] "7.prems" f by simp
next
  case (8 name dt nu md flt)
  obtain r flt1 where r: "base_type dt (enter_field name flt) = (r, flt1)" by (cases "base_type dt (enter_field name flt)")
  obtain sel flt2 where s: "select_leaves (map (apfst ((#) name)) (leaf_columns dt)) flt = (sel, flt2)"
    by (cases "select_leaves (map (apfst ((#) name)) (leaf_columns dt)) flt")
  have "flt1 = enter_field name flt2" and t: "transformed dt r (fst (select_leaves (leaf_columns dt) (enter_field name flt)))"
    using "8.IH" "8.prems" r s by (auto simp: select_enter)
  then show ?case
    using r s transformed_nullable [OF t, of name nu md] select_enter_map [of name "leaf_columns dt" flt]
    by (simp add: field_leaves_def)
qed (simp_all add: transformed_def)

section \<open>Which leaf columns are selected\<close>

text \<open>The leaf columns that the table properties and the required columns ask for.\<close>

definition indexed_leaves ::
  "stats_config \<Rightarrow> column_name list \<Rightarrow> (column_name \<times> primitive_type) list \<Rightarrow> (column_name \<times> primitive_type) list" where
  "indexed_leaves config required ls =
     (case sc_stats_columns config of
        Some cols \<Rightarrow> filter (\<lambda>(q, _). covers (cols @ required) q) ls
      | None \<Rightarrow> (case unwrap_or (sc_num_indexed_cols config) default_num_indexed_cols of
            AllColumns \<Rightarrow> ls
          | NumColumns n \<Rightarrow> take (unat n) ls @ filter (\<lambda>(q, _). covers required q) (drop (unat n) ls)))"

definition requested_leaves ::
  "column_name list option \<Rightarrow> (column_name \<times> primitive_type) list \<Rightarrow> (column_name \<times> primitive_type) list" where
  "requested_leaves requested ls = (case requested of Some (c # cs) \<Rightarrow> filter (\<lambda>(q, _). covers (c # cs) q) ls | _ \<Rightarrow> ls)"

definition is_requested :: "stats_column_filter \<Rightarrow> column_name \<Rightarrow> bool" where
  "is_requested flt q = should_include_for_requested (at_path flt q)"

lemma is_requested_record [simp]: "is_requested (record_included flt) q = is_requested flt q"
  by (simp add: is_requested_def should_include_for_requested_def at_path_def record_included_def split: option.split)

lemma select_trie:
  assumes "data_skipping_stats_trie flt = Some t"
  shows "fst (select_leaves ls flt) =
    filter (\<lambda>(q, _). is_requested flt q) (filter (\<lambda>(q, _). contains_prefix_of t (filter_path flt @ q)) ls)"
  using assms
proof (induction ls flt rule: select_leaves.induct)
  case (2 q p ls flt)
  have t: "data_skipping_stats_trie (record_included flt) = Some t" using "2.prems" by (simp add: record_included_def)
  have i: "should_include_for_table (at_path flt q) = contains_prefix_of t (filter_path flt @ q)"
    using "2.prems" by (simp add: should_include_for_table_def at_path_def)
  show ?case
    using "2.IH"(1) [OF _ "2.prems"] "2.IH"(2) [OF _ t]
    by (cases "select_leaves ls (record_included flt)") (auto simp: i is_requested_def [symmetric])
qed simp

lemma select_all:
  assumes "data_skipping_stats_trie flt = None" "n_columns flt = Some AllColumns"
  shows "fst (select_leaves ls flt) = filter (\<lambda>(q, _). is_requested flt q) ls"
  using assms
proof (induction ls flt rule: select_leaves.induct)
  case (2 q p ls flt)
  have t: "data_skipping_stats_trie (record_included flt) = None" "n_columns (record_included flt) = Some AllColumns"
    using "2.prems" by (simp_all add: record_included_def)
  have i: "should_include_for_table (at_path flt q)"
    using "2.prems" by (simp add: should_include_for_table_def at_path_def at_column_limit_def)
  show ?case
    using "2.IH"(2) [OF _ t] by (cases "select_leaves ls (record_included flt)") (auto simp: i is_requested_def [symmetric])
qed simp

definition required_at :: "stats_column_filter \<Rightarrow> column_name \<Rightarrow> bool" where
  "required_at flt q = is_required_column (at_path flt q)"

lemma required_at_record [simp]: "required_at (record_included flt) q = required_at flt q"
  by (simp add: required_at_def is_required_column_def at_path_def record_included_def split: option.split)

lemma at_limit_of_nat:
  "n_columns flt = Some (NumColumns n) \<Longrightarrow> added_columns flt = of_nat k \<Longrightarrow> k < 2 ^ 64 \<Longrightarrow>
   at_column_limit (at_path flt q) \<longleftrightarrow> unat n \<le> k"
  by (simp add: at_column_limit_def at_path_def word_le_nat_alt unat_of_nat take_bit_nat_eq_self)

lemma select_count:
  assumes "data_skipping_stats_trie flt = None" "n_columns flt = Some (NumColumns n)"
    and "added_columns flt = of_nat k" "k + length ls < 2 ^ 64"
  shows "fst (select_leaves ls flt) = filter (\<lambda>(q, _). is_requested flt q)
    (take (unat n - k) ls @ filter (\<lambda>(q, _). required_at flt q) (drop (unat n - k) ls))"
  using assms
proof (induction ls flt arbitrary: k rule: select_leaves.induct)
  case (2 q p ls flt)
  have t: "data_skipping_stats_trie (record_included flt) = None" "n_columns (record_included flt) = Some (NumColumns n)"
    "added_columns (record_included flt) = of_nat (Suc k)" "Suc k + length ls < 2 ^ 64" "k + length ls < 2 ^ 64"
    using "2.prems" by (simp_all add: record_included_def add.commute)
  have lim: "at_column_limit (at_path flt q) \<longleftrightarrow> unat n \<le> k"
    using "2.prems" by (intro at_limit_of_nat) simp_all
  have i: "should_include_for_table (at_path flt q) \<longleftrightarrow> k < unat n \<or> required_at flt q"
    using "2.prems"(1) lim by (auto simp: should_include_for_table_def required_at_def at_path_def)
  obtain sel flt' where s: "select_leaves ls (record_included flt) = (sel, flt')"
    by (cases "select_leaves ls (record_included flt)")
  show ?case
  proof (cases "k < unat n \<or> required_at flt q")
    case True
    then have "sel = filter (\<lambda>(q, _). is_requested flt q)
        (take (unat n - Suc k) ls @ filter (\<lambda>(q, _). required_at flt q) (drop (unat n - Suc k) ls))"
      using "2.IH"(2) [OF _ t(1-4)] i s by simp
    moreover have "unat n - k = Suc (unat n - Suc k)" if "k < unat n" using that by simp
    ultimately show ?thesis
      using True i s by (cases "k < unat n") (auto simp: is_requested_def [symmetric])
  next
    case False
    then show ?thesis using "2.IH"(1) [OF _ "2.prems"(1-3) t(5)] i by simp
  qed
qed simp

lemma new_filter_simps:
  "filter_path (stats_column_filter_new config required requested) = []"
  "added_columns (stats_column_filter_new config required requested) = 0"
  "filter (\<lambda>(q, _). is_requested (stats_column_filter_new config required requested) q) ls = requested_leaves requested ls"
  by (auto simp: stats_column_filter_new_def Let_def is_requested_def should_include_for_requested_def at_path_def
      requested_leaves_def split: option.splits list.splits)

lemma required_at_new:
  "sc_stats_columns config = None \<Longrightarrow>
   required_at (stats_column_filter_new config required requested) q = covers (unwrap_or required []) q"
  by (auto simp: stats_column_filter_new_def Let_def required_at_def is_required_column_def at_path_def unwrap_or_def
      covers_def split: option.splits)

lemma select_new:
  assumes "length ls < 2 ^ 64"
  shows "fst (select_leaves ls (stats_column_filter_new config required requested)) =
    requested_leaves requested (indexed_leaves config (unwrap_or required []) ls)"
proof (cases "sc_stats_columns config")
  case (Some cols)
  let ?flt = "stats_column_filter_new config required requested"
  have t: "data_skipping_stats_trie ?flt = Some (fold trie_insert (unwrap_or required []) (trie_from_columns cols))"
    using Some by (simp add: stats_column_filter_new_def Let_def)
  show ?thesis using Some by (simp only: select_trie [OF t] new_filter_simps(3)) (simp add: new_filter_simps(1) indexed_leaves_def)
next
  case None
  let ?flt = "stats_column_filter_new config required requested"
  have t: "data_skipping_stats_trie ?flt = None"
    "n_columns ?flt = Some (unwrap_or (sc_num_indexed_cols config) default_num_indexed_cols)"
    using None by (simp_all add: stats_column_filter_new_def Let_def)
  show ?thesis
  proof (cases "unwrap_or (sc_num_indexed_cols config) default_num_indexed_cols")
    case AllColumns
    then show ?thesis using None t by (simp add: select_all new_filter_simps indexed_leaves_def)
  next
    case (NumColumns n)
    have "fst (select_leaves ls ?flt) = filter (\<lambda>(q, _). is_requested ?flt q)
        (take (unat n - 0) ls @ filter (\<lambda>(q, _). required_at ?flt q) (drop (unat n - 0) ls))"
      using NumColumns t assms by (intro select_count) (simp_all add: new_filter_simps)
    then show ?thesis using None NumColumns
      by (simp only: new_filter_simps required_at_new) (simp add: indexed_leaves_def)
  qed
qed

section \<open>Transforms of leaf columns\<close>

lemma transformed_recurse:
  assumes "transformed dt r sel"
  shows "transformed_field (StructField n dt nu md) (recurse_field (StructField n dt nu md) r) (map (apfst ((#) n)) sel)"
proof (cases r)
  case (Some c)
  then show ?thesis using assms
    by (cases c) (auto simp: transformed_def transformed_field_def recurse_field_def child_of_def field_leaves_def)
qed (use assms in \<open>simp add: transformed_def transformed_field_def child_of_def recurse_field_def\<close>)

lemma transformed_children:
  assumes "transformed_fields fs cs sel" "distinct (map (sf_name \<circ> snd) fs)"
  shows "case map_owned_children_or_else (StructType fs mc) new_unchecked cs of
      None \<Rightarrow> sel = []
    | Some s \<Rightarrow> leaf_columns (StructT (into_owned s)) = sel \<and> stats_type (StructT (into_owned s))"
proof -
  have l2: "list_all2 child_of (map snd fs) cs" and sel: "concat (map field_leaves (kept cs)) = sel"
    and st: "\<forall>g \<in> set (kept cs). \<not> is_metadata_column g \<and> stats_type (sf_data_type g)"
    using assms(1) by (auto simp: transformed_fields_def)
  have "distinct (map sf_name (kept cs))" using kept_names [OF l2] assms(2) by (simp add: map_map)
  then show ?thesis
    using children_fields [OF l2 assms(2), of mc] sel st
    by (auto simp: leaf_columns_struct stats_struct split: option.splits)
qed

text \<open>
  A transform that goes through structs and treats each primitive leaf by itself: it drops the leaf,
  keeps it or changes its type.
\<close>

locale leaf_transform =
  fixes tr_type :: "data_type \<Rightarrow> data_type cow option"
    and tr_fields :: "(string \<times> struct_field) list \<Rightarrow> struct_field cow option list"
    and tr_field :: "struct_field \<Rightarrow> struct_field cow option"
    and leaf :: "primitive_type \<Rightarrow> primitive_type option"
  assumes type_struct: "tr_type (StructT (StructType fs mc)) = rebuild_struct (StructType fs mc) (tr_fields fs)"
    and fields_Nil: "tr_fields [] = []"
    and fields_Cons: "tr_fields ((n, f) # fs) = tr_field f # tr_fields fs"
    and field_struct: "tr_field (StructField n (StructT st) nu md) =
      recurse_field (StructField n (StructT st) nu md) (tr_type (StructT st))"
    and field_leaf: "transformed_field (StructField n (Primitive p) nu md) (tr_field (StructField n (Primitive p) nu md))
      (case leaf p of None \<Rightarrow> [] | Some q \<Rightarrow> [([n], q)])"
begin

definition leaf_image :: "(column_name \<times> primitive_type) list \<Rightarrow> (column_name \<times> primitive_type) list" where
  "leaf_image ls = concat (map (\<lambda>(q, p). case leaf p of None \<Rightarrow> [] | Some p' \<Rightarrow> [(q, p')]) ls)"

lemma leaf_image_append: "leaf_image (ls @ ms) = leaf_image ls @ leaf_image ms"
  by (simp add: leaf_image_def)

lemma leaf_image_map: "leaf_image (map (apfst f) ls) = map (apfst f) (leaf_image ls)"
  by (induction ls) (auto simp: leaf_image_def split: option.splits)

lemma leaf_transformed:
  "stats_type dt \<Longrightarrow> dt = StructT st \<Longrightarrow> transformed dt (tr_type dt) (leaf_image (leaf_columns dt))"
  "stats_fields fs \<Longrightarrow> transformed_fields fs (tr_fields fs) (leaf_image (leaf_columns_of fs))"
proof (induction dt and fs arbitrary: st rule: leaf_columns_leaf_columns_of.induct)
  case (2 fs mc)
  then show ?case by (auto simp: type_struct intro: transformed_rebuild)
next
  case 6
  then show ?case by (simp add: fields_Nil leaf_image_def)
next
  case (7 k n dt nu md fs)
  let ?f = "StructField n dt nu md"
  have "transformed_field ?f (tr_field ?f) (leaf_image (field_leaves ?f))"
  proof (cases dt)
    case (Primitive p)
    then show ?thesis using field_leaf [of n p nu md]
      by (auto simp: field_leaves_def leaf_image_def split: option.splits)
  next
    case (StructT s)
    then show ?thesis using 7 transformed_recurse [of dt "tr_type dt" "leaf_image (leaf_columns dt)" n nu md]
      by (simp add: field_struct field_leaves_def leaf_image_map)
  qed (use 7 in simp_all)
  then show ?case
    using 7 transformed_fields_Cons [of ?f "tr_field ?f" "leaf_image (field_leaves ?f)" fs]
    by (simp add: fields_Cons leaf_image_append field_leaves_def)
qed simp_all

lemma leaf_struct:
  assumes "stats_type (StructT st)"
  shows "case map_owned_children_or_else st new_unchecked (tr_fields (st_fields st)) of
      None \<Rightarrow> leaf_image (leaf_columns (StructT st)) = []
    | Some s \<Rightarrow> leaf_columns (StructT (into_owned s)) = leaf_image (leaf_columns (StructT st)) \<and>
        stats_type (StructT (into_owned s))"
proof (cases st)
  case (StructType fs mc)
  have "stats_fields fs" "distinct (map (sf_name \<circ> snd) fs)" using assms by (simp_all add: StructType)
  then show ?thesis
    using transformed_children [OF leaf_transformed(2), of fs mc] by (simp add: StructType split: option.splits)
qed

end

interpretation nc: leaf_transform null_count_type null_count_fields null_count_field "\<lambda>_. Some PLong"
  by unfold_locales (simp_all add: transformed_field_def child_of_def field_leaves_def)

definition eligible :: "primitive_type \<Rightarrow> primitive_type option" where
  "eligible p = (if is_skipping_eligible_datatype p then Some p else None)"

lemma eligible_simps [simp]:
  "is_skipping_eligible_datatype p \<Longrightarrow> eligible p = Some p"
  "\<not> is_skipping_eligible_datatype p \<Longrightarrow> eligible p = None"
  by (simp_all add: eligible_def)

interpretation mm: leaf_transform min_max_type min_max_fields min_max_field eligible
  by unfold_locales
    (simp_all add: transformed_field_def child_of_def field_leaves_def eligible_def recurse_field_def)

lemma nc_image: "nc.leaf_image ls = map (\<lambda>(q, _). (q, PLong)) ls"
  by (induction ls) (auto simp: nc.leaf_image_def)

lemma mm_image: "mm.leaf_image ls = filter (\<lambda>(_, p). is_skipping_eligible_datatype p) ls"
  by (induction ls) (auto simp: mm.leaf_image_def)

section \<open>The schema of statistics\<close>

definition under :: "string \<Rightarrow> (column_name \<times> primitive_type) list \<Rightarrow> (column_name \<times> primitive_type) list" where
  "under name ls = map (\<lambda>(q, p). (name # q, p)) ls"

lemma under_leaves: "field_leaves (nullable_stat name (StructT s)) = under name (leaf_columns (StructT s))"
  by (simp add: field_leaves_def nullable_stat_def under_def apfst_def map_prod_def)

definition stat_field :: "struct_field \<Rightarrow> bool" where
  "stat_field f \<longleftrightarrow> \<not> is_metadata_column f \<and> stats_type (sf_data_type f)"

lemma stat_field_ok:
  assumes "stat_field f"
  shows "nested_ok f" "get_metadata_column_spec f = None"
proof -
  show "nested_ok f"
  proof (cases "sf_data_type f")
    case (StructT st)
    have "ensure_no_metadata_columns_in_field g = Inr ()"
      if "g \<in> set (map snd (st_fields st))" "\<not> is_struct_or_variant (sf_data_type g)" for g
      using that assms StructT
      by (cases "sf_data_type g")
        (auto simp: ensure_no_metadata_columns_in_field.simps [of g] stat_field_def stats_struct fields_of_def
          is_struct_or_variant_def)
    then show ?thesis using assms StructT by (simp add: ensure_no_metadata_columns_in_field.simps [of f] nested_ok_def stat_field_def try_for_each_Inr
          del: list.set_map)
  qed (use assms in \<open>simp_all add: nested_ok_def is_primitive_def stat_field_def\<close>)
  show "get_metadata_column_spec f = None"
    using assms by (simp add: get_metadata_column_spec_def is_metadata_column_def stat_field_def)
qed

lemma stat_fields_try_new:
  assumes "list_all stat_field fs" "distinct (map (low \<circ> sf_name) fs)"
  shows "\<exists>st. struct_try_new low fs = Inr st \<and> fields_of st = fs"
proof -
  have "List.map_filter get_metadata_column_spec fs = []"
    using assms(1) by (induction fs) (auto simp: map_filter_simps stat_field_ok)
  then show ?thesis
    using assms stat_field_ok(1) by (auto simp: struct_try_new_Inr valid_fields_def list_all_iff fields_of_def)
qed

definition stats_leaves_of :: "(column_name \<times> primitive_type) list \<Rightarrow> (column_name \<times> primitive_type) list" where
  "stats_leaves_of sel =
     under ''nullCount'' (map (\<lambda>(q, _). (q, PLong)) sel) @
     under ''minValues'' (filter (\<lambda>(_, p). is_skipping_eligible_datatype p) sel) @
     under ''maxValues'' (filter (\<lambda>(_, p). is_skipping_eligible_datatype p) sel)"

lemma base_struct_leaves:
  assumes "named_type (StructT schema)"
  shows "case base_struct flt schema of
      None \<Rightarrow> fst (select_leaves (leaf_columns (StructT schema)) flt) = []
    | Some s \<Rightarrow> leaf_columns (StructT (into_owned s)) = fst (select_leaves (leaf_columns (StructT schema)) flt) \<and>
        stats_type (StructT (into_owned s))"
proof (cases schema)
  case (StructType fs mc)
  have n: "named_fields fs" "distinct (map (sf_name \<circ> snd) fs)" using assms by (simp_all add: StructType)
  show ?thesis
    using transformed_children [OF conjunct2 [OF base_selects(2) [OF n(1), of flt]] n(2), of mc]
    by (simp add: StructType base_struct_def split: option.splits)
qed

lemma null_count_stat_leaves:
  assumes "stats_type (StructT base)"
  shows "list_all stat_field (null_count_stat base)" "set (map sf_name (null_count_stat base)) \<subseteq> {''nullCount''}"
    "distinct (map sf_name (null_count_stat base))"
    "concat (map field_leaves (null_count_stat base)) = under ''nullCount'' (map (\<lambda>(q, _). (q, PLong)) (leaf_columns (StructT base)))"
  using nc.leaf_struct [OF assms]
  by (auto simp: null_count_stat_def null_count_struct_def nc_image under_leaves under_def stat_field_def nullable_stat_def
      is_metadata_column_def field_leaves_def split: option.splits)

lemma min_max_stats_leaves:
  assumes "stats_type (StructT base)"
  shows "list_all stat_field (min_max_stats base)" "map sf_name (min_max_stats base) \<in> {[], [''minValues'', ''maxValues'']}"
    "concat (map field_leaves (min_max_stats base)) =
      under ''minValues'' (filter (\<lambda>(_, p). is_skipping_eligible_datatype p) (leaf_columns (StructT base))) @
      under ''maxValues'' (filter (\<lambda>(_, p). is_skipping_eligible_datatype p) (leaf_columns (StructT base)))"
  using mm.leaf_struct [OF assms]
  by (auto simp: min_max_stats_def min_max_struct_def mm_image under_leaves under_def stat_field_def nullable_stat_def
      is_metadata_column_def field_leaves_def split: option.splits)

lemma subseq_distinct: "subseq xs ys \<Longrightarrow> distinct ys \<Longrightarrow> distinct xs"
  by (auto simp: subseq_conv_nths)

definition stat_names :: "string list" where
  "stat_names = [''numRecords'', ''nullCount'', ''minValues'', ''maxValues'', ''tightBounds'']"

lemma expected_stats_leaves:
  assumes schema: "named_type (StructT schema)" and low: "distinct (map low stat_names)"
  shows "\<exists>stats. expected_stats_schema low schema config required requested = Inr stats \<and>
    leaf_columns (StructT stats) =
      [([''numRecords''], PLong)] @
      stats_leaves_of (fst (select_leaves (leaf_columns (StructT schema)) (stats_column_filter_new config required requested))) @
      [([''tightBounds''], PBoolean)]"
proof -
  let ?flt = "stats_column_filter_new config required requested"
  let ?sel = "fst (select_leaves (leaf_columns (StructT schema)) ?flt)"
  let ?mid = "case base_struct ?flt schema of None \<Rightarrow> []
    | Some base \<Rightarrow> null_count_stat (into_owned base) @ min_max_stats (into_owned base)"
  let ?fs = "[nullable_stat ''numRecords'' (Primitive PLong)] @ ?mid @ [nullable_stat ''tightBounds'' (Primitive PBoolean)]"
  have mid: "list_all stat_field ?mid \<and> concat (map field_leaves ?mid) = stats_leaves_of ?sel \<and>
      subseq (map sf_name ?mid) [''nullCount'', ''minValues'', ''maxValues'']"
  proof (cases "base_struct ?flt schema")
    case None
    then show ?thesis using base_struct_leaves [OF schema, of ?flt] by (simp add: stats_leaves_of_def under_def)
  next
    case (Some base)
    let ?b = "into_owned base"
    have b: "leaf_columns (StructT ?b) = ?sel" "stats_type (StructT ?b)"
      using base_struct_leaves [OF schema, of ?flt] Some by auto
    have "map sf_name (null_count_stat ?b) \<in> {[], [''nullCount'']}"
      by (simp add: null_count_stat_def nullable_stat_def split: option.split)
    then have "subseq (map sf_name ?mid) [''nullCount'', ''minValues'', ''maxValues'']"
      using min_max_stats_leaves(2) [OF b(2)] Some by (auto simp: map_append)
    then show ?thesis
      using Some null_count_stat_leaves [OF b(2)] min_max_stats_leaves [OF b(2)] b(1) by (simp add: stats_leaves_of_def)
  qed
  have "subseq (map sf_name ?mid @ [''tightBounds'']) ([''nullCount'', ''minValues'', ''maxValues''] @ [''tightBounds''])"
    using mid by (intro list_emb_append_mono) simp_all
  then have names: "subseq (map sf_name ?fs) stat_names" by (simp add: stat_names_def nullable_stat_def)
  then have "distinct (map low (map sf_name ?fs))" using low by (rule subseq_distinct [OF subseq_map])
  moreover have "list_all stat_field ?fs"
    using mid by (simp add: stat_field_def nullable_stat_def is_metadata_column_def)
  ultimately obtain st where "struct_try_new low ?fs = Inr st" "fields_of st = ?fs"
    using stat_fields_try_new [of ?fs low] by (auto simp: comp_def)
  then show ?thesis
    using mid by (auto simp: expected_stats_schema_def leaf_columns_struct field_leaves_def nullable_stat_def)
qed

text \<open>
  C21. The statistics schema of a table. For a schema without metadata columns whose structs have
  distinct field names, \<open>expected_stats_schema\<close> succeeds, and the leaf columns of its result are, in
  schema order, the record count; a null count of type long for every selected leaf column; a minimum and
  a maximum, of the column's own type, for every selected leaf column of a type that supports skipping;
  and the flag for tight bounds. The selected columns are those the table properties name, or the first
  \<open>n\<close> leaf columns, with every required column in either case, restricted to the requested columns, which
  do not count towards the limit. The five names of statistics are assumed to stay different in lower case.
\<close>

theorem expected_stats_columns:
  assumes schema: "named_type (StructT schema)" and size: "length (leaf_columns (StructT schema)) < 2 ^ 64"
    and low: "distinct (map low stat_names)"
  shows "\<exists>stats. expected_stats_schema low schema config required requested = Inr stats \<and>
    leaf_columns (StructT stats) =
      [([''numRecords''], PLong)] @
      stats_leaves_of (requested_leaves requested (indexed_leaves config (unwrap_or required []) (leaf_columns (StructT schema)))) @
      [([''tightBounds''], PBoolean)]"
  using expected_stats_leaves [OF schema low, of config required requested] unfolding select_new [OF size] .

section \<open>The names of the columns with statistics\<close>

definition collect_leaf ::
  "column_name \<times> primitive_type \<Rightarrow> stats_column_filter \<times> column_name list \<Rightarrow> stats_column_filter \<times> column_name list" where
  "collect_leaf l st =
     (if at_column_limit (fst st) then st
      else if should_include_for_table (at_path (fst st) (fst l))
      then (record_included (fst st), snd st @ [filter_path (fst st) @ fst l]) else st)"

lemma fold_at_limit: "at_column_limit (fst st) \<Longrightarrow> fold collect_leaf ls st = st"
  by (induction ls) (simp_all add: collect_leaf_def)

lemma at_limit_enter [simp]: "at_column_limit (enter_field name flt) = at_column_limit flt"
  by (simp add: at_column_limit_def enter_field_def split: option.split num_indexed_cols.split)

lemma fold_enter:
  "fold collect_leaf ls (enter_field name flt, res) =
     apfst (enter_field name) (fold collect_leaf (map (apfst ((#) name)) ls) (flt, res))"
proof (induction ls arbitrary: flt res)
  case (Cons l ls)
  have "filter_path (enter_field name flt) @ fst l = filter_path flt @ name # fst l" by (simp add: enter_field_def)
  then show ?case using Cons by (cases l) (simp add: collect_leaf_def)
qed simp

lemma collect_fold:
  "\<not> at_column_limit (fst st) \<Longrightarrow> collect_type dt st = fold collect_leaf (leaf_columns dt) st"
  "collect_fields fs st = fold collect_leaf (leaf_columns_of fs) st"
  "collect_field f st = fold collect_leaf (field_leaves f) st"
proof (induction dt st and fs st and f st rule: collect_type_collect_fields_collect_field.induct)
  case (5 p flt result)
  then show ?case by (simp add: collect_leaf_def)
next
  case (7 n f fs st)
  then show ?case by (simp add: leaf_columns_of_fields)
next
  case (8 name dt nu md flt result)
  show ?case
  proof (cases "at_column_limit flt")
    case True
    then show ?thesis by (simp add: fold_at_limit)
  next
    case False
    then show ?thesis using 8
      by (simp add: fold_enter field_leaves_def split: prod.split) (auto simp: apfst_def map_prod_def split: prod.splits)
  qed
qed simp_all

lemma at_limit_None: "n_columns flt = None \<Longrightarrow> \<not> at_column_limit flt"
  by (simp add: at_column_limit_def)

lemma record_fields [simp]:
  "n_columns (record_included flt) = n_columns flt"
  "data_skipping_stats_trie (record_included flt) = data_skipping_stats_trie flt"
  "required_columns (record_included flt) = required_columns flt"
  "added_columns (record_included flt) = added_columns flt + 1"
  by (simp_all add: record_included_def)

lemma collect_required: "required_columns (fst (fold collect_leaf ls st)) = required_columns (fst st)"
  by (induction ls arbitrary: st) (simp_all add: collect_leaf_def)

lemma collect_trie:
  assumes "data_skipping_stats_trie flt = Some t" "n_columns flt = None"
  shows "snd (fold collect_leaf ls (flt, res)) =
    res @ map (\<lambda>(q, _). filter_path flt @ q) (filter (\<lambda>(q, _). contains_prefix_of t (filter_path flt @ q)) ls)"
  using assms
proof (induction ls arbitrary: flt res)
  case (Cons l ls)
  then show ?case
    by (cases l) (simp add: collect_leaf_def at_limit_None should_include_for_table_def at_path_def)
qed simp

lemma collect_all:
  assumes "data_skipping_stats_trie flt = None" "n_columns flt = Some AllColumns"
  shows "snd (fold collect_leaf ls (flt, res)) = res @ map (\<lambda>(q, _). filter_path flt @ q) ls"
  using assms
proof (induction ls arbitrary: flt res)
  case (Cons l ls)
  then show ?case
    by (cases l) (simp add: collect_leaf_def at_column_limit_def should_include_for_table_def at_path_def)
qed simp

lemma collect_count:
  assumes "data_skipping_stats_trie flt = None" "n_columns flt = Some (NumColumns n)"
    and "added_columns flt = of_nat k" "k + length ls < 2 ^ 64"
  shows "snd (fold collect_leaf ls (flt, res)) = res @ map (\<lambda>(q, _). filter_path flt @ q) (take (unat n - k) ls)"
  using assms
proof (induction ls arbitrary: flt res k)
  case (Cons l ls)
  have lim: "at_column_limit (at_path flt q) \<longleftrightarrow> unat n \<le> k" for q
    using Cons.prems by (intro at_limit_of_nat) simp_all
  show ?case
  proof (cases "unat n \<le> k")
    case True
    then show ?thesis using lim [of "[]"] by (simp add: fold_at_limit del: fold.simps)
  next
    case False
    then have "unat n - k = Suc (unat n - Suc k)" by simp
    moreover have "snd (fold collect_leaf ls (record_included flt, res @ [filter_path flt @ fst l])) =
        (res @ [filter_path flt @ fst l]) @ map (\<lambda>(q, _). filter_path flt @ q) (take (unat n - Suc k) ls)"
      using Cons.IH [of "record_included flt" "Suc k"] Cons.prems by (simp add: add.commute)
    moreover have "collect_leaf l (flt, res) = (record_included flt, res @ [filter_path flt @ fst l])"
      using lim [of "[]"] lim [of "fst l"] False Cons.prems(1)
      by (simp add: collect_leaf_def should_include_for_table_def) (simp add: at_path_def)
    ultimately show ?thesis by (cases l) simp
  qed
qed simp

text \<open>The leaf columns that the first pass collects.\<close>

definition first_pass ::
  "stats_config \<Rightarrow> column_name list \<Rightarrow> (column_name \<times> primitive_type) list \<Rightarrow> (column_name \<times> primitive_type) list" where
  "first_pass config required ls =
     (case sc_stats_columns config of
        Some cols \<Rightarrow> filter (\<lambda>(q, _). covers (cols @ required) q) ls
      | None \<Rightarrow> (case unwrap_or (sc_num_indexed_cols config) default_num_indexed_cols of
            AllColumns \<Rightarrow> ls | NumColumns n \<Rightarrow> take (unat n) ls))"

lemma collect_new:
  assumes "length ls < 2 ^ 64"
  shows "snd (fold collect_leaf ls (stats_column_filter_new config required None, [])) =
    map fst (first_pass config (unwrap_or required []) ls)"
proof -
  let ?flt = "stats_column_filter_new config required None"
  have f: "(\<lambda>(q, _). filter_path ?flt @ q) = (fst :: _ \<times> primitive_type \<Rightarrow> _)" by (auto simp: new_filter_simps)
  show ?thesis
  proof (cases "sc_stats_columns config")
    case (Some cols)
    then have "data_skipping_stats_trie ?flt = Some (fold trie_insert (unwrap_or required []) (trie_from_columns cols))"
      "n_columns ?flt = None"
      by (simp_all add: stats_column_filter_new_def)
    from collect_trie [OF this] show ?thesis
      using Some by (simp only: f) (simp add: new_filter_simps first_pass_def)
  next
    case None
    then have t: "data_skipping_stats_trie ?flt = None"
      "n_columns ?flt = Some (unwrap_or (sc_num_indexed_cols config) default_num_indexed_cols)"
      by (simp_all add: stats_column_filter_new_def)
    show ?thesis
    proof (cases "unwrap_or (sc_num_indexed_cols config) default_num_indexed_cols")
      case AllColumns
      then show ?thesis using collect_all [OF t(1)] t(2) None by (simp only: f) (simp add: first_pass_def)
    next
      case (NumColumns n)
      have "snd (fold collect_leaf ls (?flt, [])) = [] @ map (\<lambda>(q, _). filter_path ?flt @ q) (take (unat n - 0) ls)"
        using t NumColumns assms by (intro collect_count) (simp_all add: new_filter_simps)
      then show ?thesis using None NumColumns by (simp only: f) (simp add: first_pass_def)
    qed
  qed
qed

lemma leaf_in_fields:
  "(q, p) \<in> set (leaf_columns_of fs) \<longleftrightarrow> (\<exists>f \<in> set (map snd fs). \<exists>q'. q = sf_name f # q' \<and> (q', p) \<in> set (leaf_columns (sf_data_type f)))"
  by (force simp: leaf_columns_of_fields field_leaves_def)

lemma named_fields_in: "named_fields fs \<Longrightarrow> f \<in> set (map snd fs) \<Longrightarrow> named_type (sf_data_type f)"
proof (induction fs)
  case (Cons x fs)
  then show ?case by (cases x; cases "snd x") auto
qed simp

lemma leaf_prefix_free:
  "named_type dt \<Longrightarrow> (q, p) \<in> set (leaf_columns dt) \<Longrightarrow> (q', p') \<in> set (leaf_columns dt) \<Longrightarrow> prefix q q' \<Longrightarrow> q = q'"
proof (induction q arbitrary: dt q' p p')
  case Nil
  then show ?case
  proof (cases dt)
    case (StructT st)
    then show ?thesis using Nil by (cases st) (auto simp: leaf_in_fields simp del: set_map)
  qed auto
next
  case (Cons n q)
  then obtain fs mc where dt: "dt = StructT (StructType fs mc)"
    by (cases dt rule: leaf_columns.cases) auto
  obtain q'' where q': "q' = n # q''" and pre: "prefix q q''" using Cons.prems(4) by (cases q') auto
  obtain f where f: "f \<in> set (map snd fs)" "sf_name f = n" "(q, p) \<in> set (leaf_columns (sf_data_type f))"
    using Cons.prems(2) unfolding dt by (auto simp: leaf_in_fields simp del: set_map)
  obtain g where g: "g \<in> set (map snd fs)" "sf_name g = n" "(q'', p') \<in> set (leaf_columns (sf_data_type g))"
    using Cons.prems(3) unfolding dt q' by (auto simp: leaf_in_fields simp del: set_map)
  have "inj_on sf_name (set (map snd fs))" "named_fields fs"
    using Cons.prems(1) distinct_map [of sf_name "map snd fs"] by (simp_all add: dt)
  then have "f = g" using f g inj_onD by metis
  then show ?case
    using Cons.IH [OF named_fields_in f(3) _ pre] f(1) g(3) \<open>named_fields fs\<close> q' by blast
qed

lemma leaf_of_struct: "(q, p) \<in> set (leaf_columns (StructT st)) \<Longrightarrow> q \<noteq> []"
  by (cases st) (auto simp: leaf_in_fields)

lemma leaf_resolves:
  "named_type (StructT st) \<Longrightarrow> (q, p) \<in> set (leaf_columns (StructT st)) \<Longrightarrow> q \<noteq> [] \<and> (\<exists>fs. walk_fields st q = Inr fs)"
proof (induction st q rule: walk_fields.induct)
  case (2 st n q)
  obtain fs mc where st: "st = StructType fs mc" by (cases st)
  obtain f where f: "f \<in> set (map snd fs)" "sf_name f = n" "(q, p) \<in> set (leaf_columns (sf_data_type f))"
    using "2.prems"(2) unfolding st by (auto simp: leaf_in_fields simp del: set_map)
  have k: "map fst fs = map (sf_name \<circ> snd) fs" "distinct (map fst fs)" "named_fields fs"
    using "2.prems"(1) unfolding st named_type.simps by metis+
  obtain m where m: "(m, f) \<in> set fs" using f(1) by auto
  have "m = n" using k(1) m f(2) by (metis (mono_tags, lifting) comp_apply fst_conv map_eq_conv snd_conv)
  then have l: "struct_field_named st n = Some f" using m k(2) by (simp add: struct_field_named_def st)
  show ?case
  proof (cases "sf_data_type f")
    case (Primitive p')
    then show ?thesis using f(3) l by simp
  next
    case (StructT st')
    have "q \<noteq> [] \<and> (\<exists>fs. walk_fields st' q = Inr fs)"
      using "2.IH" l StructT f(3) leaf_of_struct [of q p st'] named_fields_in [OF k(3) f(1)] by (auto simp: ok_or_def)
    then show ?thesis using l StructT by (cases q) auto
  qed (use f(3) in simp_all)
qed (auto dest: leaf_of_struct)

lemma add_required_set:
  "set (fold (add_required schema) cols res) = set res \<union> {c \<in> set cols. \<exists>fs. walk_column_fields schema c = Inr fs}"
proof (induction cols arbitrary: res)
  case (Cons c cols)
  then show ?case by (cases "walk_column_fields schema c") (auto simp: add_required_def)
qed simp

lemma stats_column_names_set:
  assumes "length (leaf_columns (StructT schema)) < 2 ^ 64"
  shows "set (stats_column_names schema config required) =
    fst ` set (first_pass config (unwrap_or required []) (leaf_columns (StructT schema))) \<union>
    (if sc_stats_columns config = None
     then {c \<in> set (unwrap_or required []). \<exists>fs. walk_column_fields schema c = Inr fs} else {})"
proof -
  let ?flt = "stats_column_filter_new config required None"
  obtain fs mc where st: "schema = StructType fs mc" by (cases schema)
  obtain flt' res where r: "collect_fields fs (?flt, []) = (flt', res)" by (cases "collect_fields fs (?flt, [])")
  have res: "res = map fst (first_pass config (unwrap_or required []) (leaf_columns_of fs))"
    using r collect_fold(2) [of fs "(?flt, [])"] collect_new [of "leaf_columns_of fs" config required] assms st by simp
  have "required_columns flt' = required_columns ?flt"
    using r collect_fold(2) [of fs "(?flt, [])"] collect_required [of "leaf_columns_of fs" "(?flt, [])"] by simp
  moreover have "required_columns ?flt = (if sc_stats_columns config = None then required else None)"
    by (simp add: stats_column_filter_new_def split: option.split)
  ultimately show ?thesis
    using r res by (auto simp: stats_column_names_def collect_columns_def st add_required_set unwrap_or_def)
qed

text \<open>
  The names of the columns with statistics are the columns of the schema of statistics. When every
  required column is a leaf column of the schema, the two passes of \<open>stats_column_names\<close>, which walk the
  schema up to the limit and then look the required columns up, name exactly the columns for which
  \<open>expected_stats_schema\<close>, a recursive transform of the schema with its own bookkeeping, has a null count.
\<close>

theorem stats_names_match_schema:
  assumes schema: "named_type (StructT schema)" and size: "length (leaf_columns (StructT schema)) < 2 ^ 64"
    and low: "distinct (map low stat_names)"
    and required: "list_all (\<lambda>c. c \<in> fst ` set (leaf_columns (StructT schema))) (unwrap_or required [])"
    and stats: "expected_stats_schema low schema config required None = Inr stats"
  shows "set (stats_column_names schema config required) =
    {q. (''nullCount'' # q, PLong) \<in> set (leaf_columns (StructT stats))}"
proof -
  let ?ls = "leaf_columns (StructT schema)" and ?req = "unwrap_or required []"
  let ?sel = "indexed_leaves config ?req ?ls"
  have "leaf_columns (StructT stats) = [([''numRecords''], PLong)] @ stats_leaves_of ?sel @ [([''tightBounds''], PBoolean)]"
    using expected_stats_leaves [OF schema low, of config required None] stats
    unfolding select_new [OF size] by (simp add: requested_leaves_def)
  then have "{q. (''nullCount'' # q, PLong) \<in> set (leaf_columns (StructT stats))} = fst ` set ?sel"
    by (force simp: stats_leaves_of_def under_def)
  moreover have "set (stats_column_names schema config required) = fst ` set ?sel"
  proof (cases "sc_stats_columns config")
    case (Some cols)
    then show ?thesis by (simp add: stats_column_names_set [OF size] first_pass_def indexed_leaves_def)
  next
    case None
    have req: "set ?req \<subseteq> fst ` set ?ls" using required by (auto simp: list_all_iff)
    have res: "{c \<in> set ?req. \<exists>fs. walk_column_fields schema c = Inr fs} = set ?req"
      using req leaf_resolves [OF schema] by (fastforce simp: walk_column_fields_def)
    have cov: "covers ?req q \<longleftrightarrow> q \<in> set ?req" if "(q, p) \<in> set ?ls" for q p
    proof
      assume "covers ?req q"
      then obtain c where c: "c \<in> set ?req" "prefix c q" by (auto simp: covers_def list_ex_iff)
      then obtain p' where "(c, p') \<in> set ?ls" using req by auto
      then have "c = q" using leaf_prefix_free [OF schema _ that c(2)] by blast
      then show "q \<in> set ?req" using c(1) by simp
    qed (auto simp: covers_def list_ex_iff)
    show ?thesis
    proof (cases "unwrap_or (sc_num_indexed_cols config) default_num_indexed_cols")
      case AllColumns
      then show ?thesis
        using None req by (auto simp: stats_column_names_set [OF size] res first_pass_def indexed_leaves_def)
    next
      case (NumColumns n)
      have split: "set ?ls = set (take (unat n) ?ls) \<union> set (drop (unat n) ?ls)" by (metis append_take_drop_id set_append)
      have "fst ` set (filter (\<lambda>(q, _). covers ?req q) (drop (unat n) ?ls)) = set ?req \<inter> fst ` set (drop (unat n) ?ls)"
        using cov in_set_dropD [of _ "unat n" ?ls] by force
      then show ?thesis
        using None NumColumns req split
        by (auto simp: stats_column_names_set [OF size] res first_pass_def indexed_leaves_def image_Un)
    qed
  qed
  ultimately show ?thesis by simp
qed

definition stats_example :: struct_type where
  "stats_example = new_unchecked
     [StructField ''a'' (Primitive PLong) False [],
      StructField ''s'' (StructT (new_unchecked
        [StructField ''b'' (Primitive PString) True [], StructField ''c'' (Primitive PBoolean) True []])) True [],
      StructField ''l'' (ArrayType (Primitive PLong) True) True [],
      StructField ''d'' (Primitive PDate) True []]"

definition one_column :: stats_config where
  "one_column = \<lparr> sc_stats_columns = None, sc_num_indexed_cols = Some (NumColumns 1) \<rparr>"

lemma stats_example_leaves:
  "leaf_columns (StructT stats_example) = [([''a''], PLong), ([''s'', ''b''], PString), ([''s'', ''c''], PBoolean), ([''d''], PDate)]"
  by code_simp

lemma stats_example_ok: "named_type (StructT stats_example)" "length (leaf_columns (StructT stats_example)) < 2 ^ 64"
  "distinct (map id stat_names)"
proof -
  show "named_type (StructT stats_example)" by code_simp
  show "length (leaf_columns (StructT stats_example)) < 2 ^ 64" by (simp add: stats_example_leaves)
  show "distinct (map id stat_names)" by code_simp
qed

lemma one_column_leaves:
  "indexed_leaves one_column [[''d'']] (leaf_columns (StructT stats_example)) = [([''a''], PLong), ([''d''], PDate)]"
  by (simp add: stats_example_leaves indexed_leaves_def one_column_def unwrap_or_def covers_def)

theorem expected_stats_columns_witness:
  "\<exists>stats. expected_stats_schema id stats_example one_column (Some [[''d'']]) (Some [[''d'']]) = Inr stats \<and>
     leaf_columns (StructT stats) =
       [([''numRecords''], PLong), ([''nullCount'', ''d''], PLong), ([''minValues'', ''d''], PDate),
        ([''maxValues'', ''d''], PDate), ([''tightBounds''], PBoolean)]"
  using expected_stats_columns [OF stats_example_ok, of one_column "Some [[''d'']]" "Some [[''d'']]"]
  by (simp add: unwrap_or_def one_column_leaves requested_leaves_def covers_def stats_leaves_of_def under_def
      is_skipping_eligible_datatype_def)

theorem stats_names_match_schema_witness:
  "\<exists>stats. expected_stats_schema id stats_example one_column (Some [[''d'']]) None = Inr stats \<and>
     {q. (''nullCount'' # q, PLong) \<in> set (leaf_columns (StructT stats))} = {[''a''], [''d'']}"
proof -
  have "case expected_stats_schema id stats_example one_column (Some [[''d'']]) None of Inr _ \<Rightarrow> True | Inl _ \<Rightarrow> False"
    by code_simp
  then obtain stats where s: "expected_stats_schema id stats_example one_column (Some [[''d'']]) None = Inr stats"
    by (auto split: sum.splits)
  have "list_all (\<lambda>c. c \<in> fst ` set (leaf_columns (StructT stats_example))) (unwrap_or (Some [[''d'']]) [])"
    by (simp add: stats_example_leaves unwrap_or_def)
  moreover have "stats_column_names stats_example one_column (Some [[''d'']]) = [[''a''], [''d'']]" by code_simp
  ultimately show ?thesis using stats_names_match_schema [OF stats_example_ok _ s] s by auto
qed

section \<open>Where names and schema differ\<close>

text \<open>A required column that is a struct is named itself, while the schema has its leaf columns.\<close>

lemma required_struct_named:
  "stats_column_names stats_example one_column (Some [[''s'']]) = [[''a''], [''s'']]"
  by code_simp

text \<open>
  \<open>stats_column_names_physical\<close> walks the physical schema with its partition columns, the schema of
  statistics is built without them: a partition column is named, and it takes the place of a data column.
\<close>

definition partitioned_example :: table_configuration where
  "partitioned_example = (example_configuration example_protocol)\<lparr>
     tc_metadata := partitioned_metadata,
     logical_schema := new_unchecked [StructField ''d'' (Primitive PDate) True [], StructField ''i'' (Primitive PInteger) True []],
     physical_schema := new_unchecked [StructField ''d'' (Primitive PDate) True [], StructField ''i'' (Primitive PInteger) True []],
     tc_properties := default_properties\<lparr> data_skipping_num_indexed_cols := Some (NumColumns 1) \<rparr> \<rparr>"

lemma partition_column_named:
  "stats_column_names_physical partitioned_example None = [[''d'']] \<and>
   (case build_expected_stats_schemas id partitioned_example None None of
      Inr stats \<Rightarrow> leaf_columns (StructT stats) =
        [([''numRecords''], PLong), ([''nullCount'', ''i''], PLong), ([''minValues'', ''i''], PInteger),
         ([''maxValues'', ''i''], PInteger), ([''tightBounds''], PBoolean)]
    | Inl _ \<Rightarrow> False)"
  by code_simp

end
