(* ===== verification/Actions.thy ===== *)
theory Actions
  imports TableConfiguration LogReplay
begin

text \<open>
  The actions of the log and the visitors that extract them from engine data (\<open>actions/mod.rs\<close>,
  \<open>actions/visitors.rs\<close>), and the scans of a log for application transactions and domain metadata
  (\<open>actions/set_transaction.rs\<close>, \<open>log_segment/domain_metadata_replay.rs\<close>). The columns a visitor asks
  for are the leaves of the action's derived schema, and the engine gives one getter for each. Batches
  come newest first; reading them is the engine's part and the list of batches is an argument.
\<close>

section \<open>Actions\<close>

datatype dv_storage_type = PersistedRelative | Inline | PersistedAbsolute

definition dv_storage_type_from_str :: "string \<Rightarrow> dv_storage_type delta_result" where
  "dv_storage_type_from_str s =
     (if s = ''u'' then Inr PersistedRelative
      else if s = ''i'' then Inr Inline
      else if s = ''p'' then Inr PersistedAbsolute
      else Inl (InternalError ''Unsupported deletion vector format option''))"

fun dv_storage_type_to_string :: "dv_storage_type \<Rightarrow> string" where
  "dv_storage_type_to_string PersistedRelative = ''u''"
| "dv_storage_type_to_string Inline = ''i''"
| "dv_storage_type_to_string PersistedAbsolute = ''p''"

record dv_descriptor =
  storage_type :: dv_storage_type
  path_or_inline_dv :: string
  dv_offset :: "32 word option"
  size_in_bytes :: "32 word"
  cardinality :: "64 word"

definition unique_id :: "dv_descriptor \<Rightarrow> string" where
  "unique_id dv = unique_id_from_parts (dv_storage_type_to_string (storage_type dv)) (path_or_inline_dv dv) (dv_offset dv)"

record add_action =
  add_path :: string
  add_partition_values :: "(string \<times> string) list"
  add_size :: "64 word"
  add_modification_time :: "64 word"
  add_data_change :: bool
  add_stats :: "string option"
  add_tags :: "(string \<times> string option) list option"
  add_deletion_vector :: "dv_descriptor option"
  add_base_row_id :: "64 word option"
  add_default_row_commit_version :: "64 word option"
  add_clustering_provider :: "string option"

definition dv_unique_id :: "add_action \<Rightarrow> string option" where
  "dv_unique_id a = map_option unique_id (add_deletion_vector a)"

record remove_action =
  remove_path :: string
  remove_deletion_timestamp :: "64 word option"
  remove_data_change :: bool
  remove_extended_file_metadata :: "bool option"
  remove_partition_values :: "(string \<times> string) list option"
  remove_size :: "64 word option"
  remove_stats :: "string option"
  remove_tags :: "(string \<times> string) list option"
  remove_deletion_vector :: "dv_descriptor option"
  remove_base_row_id :: "64 word option"
  remove_default_row_commit_version :: "64 word option"

record cdc_action =
  cdc_path :: string
  cdc_partition_values :: "(string \<times> string) list"
  cdc_size :: "64 word"
  cdc_data_change :: bool
  cdc_tags :: "(string \<times> string) list option"

record set_transaction =
  app_id :: string
  txn_version :: "64 word"
  last_updated :: "64 word option"

record sidecar =
  sidecar_path :: string
  sidecar_size_in_bytes :: "64 word"
  sidecar_modification_time :: "64 word"
  sidecar_tags :: "(string \<times> string) list option"

record domain_metadata =
  domain :: string
  domain_configuration :: string
  removed :: bool

definition INTERNAL_DOMAIN_PREFIX :: string where "INTERNAL_DOMAIN_PREFIX = ''delta.''"

definition domain_metadata_new :: "string \<Rightarrow> string \<Rightarrow> domain_metadata" where
  "domain_metadata_new d c = \<lparr> domain = d, domain_configuration = c, removed = False \<rparr>"

definition domain_metadata_remove :: "string \<Rightarrow> string \<Rightarrow> domain_metadata" where
  "domain_metadata_remove d c = \<lparr> domain = d, domain_configuration = c, removed = True \<rparr>"

definition is_internal :: "domain_metadata \<Rightarrow> bool" where
  "is_internal dm \<longleftrightarrow> take (length INTERNAL_DOMAIN_PREFIX) (domain dm) = INTERNAL_DOMAIN_PREFIX"

section \<open>Visitors\<close>

definition visit_deletion_vector_at :: "nat \<Rightarrow> getter list \<Rightarrow> dv_descriptor option delta_result" where
  "visit_deletion_vector_at i gs =
     rbind (get_str (gs ! 0) i) (\<lambda>st.
       case st of
         None \<Rightarrow> Inr None
       | Some s \<Rightarrow>
           rbind (dv_storage_type_from_str s) (\<lambda>storage.
           rbind (get_required (get_str (gs ! 1) i)) (\<lambda>path.
           rbind (get_int (gs ! 2) i) (\<lambda>off.
           rbind (get_required (get_int (gs ! 3) i)) (\<lambda>size.
           rbind (get_required (get_long (gs ! 4) i)) (\<lambda>card.
             Inr (Some \<lparr> storage_type = storage, path_or_inline_dv = path, dv_offset = off,
                         size_in_bytes = size, cardinality = card \<rparr>)))))))"

definition visit_metadata_at :: "nat \<Rightarrow> getter list \<Rightarrow> metadata option delta_result" where
  "visit_metadata_at i gs =
     rbind (require (length gs = 9) (InternalError ''Wrong number of MetadataVisitor getters'')) (\<lambda>_.
     rbind (get_str (gs ! 0) i) (\<lambda>id_opt.
       case id_opt of
         None \<Rightarrow> Inr None
       | Some ident \<Rightarrow>
           rbind (get_str (gs ! 1) i) (\<lambda>name.
           rbind (get_str (gs ! 2) i) (\<lambda>description.
           rbind (get_required (get_str (gs ! 3) i)) (\<lambda>format_provider.
           rbind (get_required (get_str (gs ! 5) i)) (\<lambda>schema.
           rbind (get_required (get_list (gs ! 6) i)) (\<lambda>partition_columns.
           rbind (get_long (gs ! 7) i) (\<lambda>created.
           rbind (get_map (gs ! 8) i) (\<lambda>config.
             Inr (Some \<lparr> md_id = ident, md_name = name, md_description = description,
               md_format = \<lparr> provider = format_provider, format_options = [] \<rparr>,
               schema_string = schema, md_partition_columns = partition_columns, created_time = created,
               configuration = unwrap_or config [] \<rparr>)))))))))) "

definition visit_protocol_at :: "nat \<Rightarrow> getter list \<Rightarrow> protocol option delta_result" where
  "visit_protocol_at i gs =
     rbind (require (length gs = 4) (InternalError ''Wrong number of ProtocolVisitor getters'')) (\<lambda>_.
     rbind (get_int (gs ! 0) i) (\<lambda>r.
       case r of
         None \<Rightarrow> Inr None
       | Some min_reader \<Rightarrow>
           rbind (get_required (get_int (gs ! 1) i)) (\<lambda>min_writer.
           rbind (get_list (gs ! 2) i) (\<lambda>rfs.
           rbind (get_list (gs ! 3) i) (\<lambda>wfs.
           rbind (protocol_try_new (sint min_reader) (sint min_writer) (parse_features rfs) (parse_features wfs)) (\<lambda>p.
             Inr (Some p)))))))"

text \<open>\<open>MetadataVisitor\<close> and \<open>ProtocolVisitor\<close> stop at the first row that holds their action.\<close>

fun visit_first :: "(nat \<Rightarrow> 'a option delta_result) \<Rightarrow> nat list \<Rightarrow> 'a option delta_result" where
  "visit_first f [] = Inr None"
| "visit_first f (i # is) = rbind (f i) (\<lambda>x. case x of Some a \<Rightarrow> Inr (Some a) | None \<Rightarrow> visit_first f is)"

definition metadata_columns :: "column_name list" where
  "metadata_columns = map ((#) ''metaData'')
     [[''id''], [''name''], [''description''], [''format'', ''provider''], [''format'', ''options''], [''schemaString''],
      [''partitionColumns''], [''createdTime''], [''configuration'']]"

definition protocol_columns :: "column_name list" where
  "protocol_columns = map ((#) ''protocol'')
     [[''minReaderVersion''], [''minWriterVersion''], [''readerFeatures''], [''writerFeatures'']]"

definition metadata_try_new_from_data :: "engine_data \<Rightarrow> metadata option delta_result" where
  "metadata_try_new_from_data d =
     rbind (ed_getters d metadata_columns) (\<lambda>gs. visit_first (\<lambda>i. visit_metadata_at i gs) [0..<ed_len d])"

definition protocol_try_new_from_data :: "engine_data \<Rightarrow> protocol option delta_result" where
  "protocol_try_new_from_data d =
     rbind (ed_getters d protocol_columns) (\<lambda>gs. visit_first (\<lambda>i. visit_protocol_at i gs) [0..<ed_len d])"

text \<open>
  The visitors that collect every action of their kind: the path column says whether a row holds one.
\<close>

fun visit_all :: "(nat \<Rightarrow> 'a option delta_result) \<Rightarrow> nat list \<Rightarrow> 'a list \<Rightarrow> 'a list delta_result" where
  "visit_all f [] acc = Inr acc"
| "visit_all f (i # is) acc =
     rbind (f i) (\<lambda>x. visit_all f is (case x of Some a \<Rightarrow> acc @ [a] | None \<Rightarrow> acc))"

definition visit_add :: "nat \<Rightarrow> string \<Rightarrow> getter list \<Rightarrow> add_action delta_result" where
  "visit_add i path gs =
     rbind (require (length gs = 15) (InternalError ''Wrong number of AddVisitor getters'')) (\<lambda>_.
     rbind (get_required (get_map (gs ! 1) i)) (\<lambda>pv.
     rbind (get_required (get_long (gs ! 2) i)) (\<lambda>size.
     rbind (get_required (get_long (gs ! 3) i)) (\<lambda>mtime.
     rbind (get_required (get_bool (gs ! 4) i)) (\<lambda>change.
     rbind (get_str (gs ! 5) i) (\<lambda>stats.
     rbind (visit_deletion_vector_at i (drop 7 gs)) (\<lambda>dv.
     rbind (get_long (gs ! 12) i) (\<lambda>row_id.
     rbind (get_long (gs ! 13) i) (\<lambda>row_version.
     rbind (get_str (gs ! 14) i) (\<lambda>clustering.
       Inr \<lparr> add_path = path, add_partition_values = pv, add_size = size, add_modification_time = mtime,
             add_data_change = change, add_stats = stats, add_tags = None, add_deletion_vector = dv,
             add_base_row_id = row_id, add_default_row_commit_version = row_version,
             add_clustering_provider = clustering \<rparr>))))))))))"

definition visit_remove :: "nat \<Rightarrow> string \<Rightarrow> getter list \<Rightarrow> remove_action delta_result" where
  "visit_remove i path gs =
     rbind (require (length gs = 15) (InternalError ''Wrong number of RemoveVisitor getters'')) (\<lambda>_.
     rbind (get_long (gs ! 1) i) (\<lambda>ts.
     rbind (get_required (get_bool (gs ! 2) i)) (\<lambda>change.
     rbind (get_bool (gs ! 3) i) (\<lambda>extended.
     rbind (get_map (gs ! 4) i) (\<lambda>pv.
     rbind (get_long (gs ! 5) i) (\<lambda>size.
     rbind (get_str (gs ! 6) i) (\<lambda>stats.
     rbind (visit_deletion_vector_at i (drop 8 gs)) (\<lambda>dv.
     rbind (get_long (gs ! 13) i) (\<lambda>row_id.
     rbind (get_long (gs ! 14) i) (\<lambda>row_version.
       Inr \<lparr> remove_path = path, remove_deletion_timestamp = ts, remove_data_change = change,
             remove_extended_file_metadata = extended, remove_partition_values = pv, remove_size = size,
             remove_stats = stats, remove_tags = None, remove_deletion_vector = dv, remove_base_row_id = row_id,
             remove_default_row_commit_version = row_version \<rparr>))))))))))"

definition visit_cdc :: "nat \<Rightarrow> string \<Rightarrow> getter list \<Rightarrow> cdc_action delta_result" where
  "visit_cdc i path gs =
     rbind (get_required (get_map (gs ! 1) i)) (\<lambda>pv.
     rbind (get_required (get_long (gs ! 2) i)) (\<lambda>size.
     rbind (get_required (get_bool (gs ! 3) i)) (\<lambda>change.
     rbind (get_map (gs ! 4) i) (\<lambda>tags.
       Inr \<lparr> cdc_path = path, cdc_partition_values = pv, cdc_size = size, cdc_data_change = change, cdc_tags = tags \<rparr>))))"

definition visit_sidecar :: "nat \<Rightarrow> string \<Rightarrow> getter list \<Rightarrow> sidecar delta_result" where
  "visit_sidecar i path gs =
     rbind (get_required (get_long (gs ! 1) i)) (\<lambda>size.
     rbind (get_required (get_long (gs ! 2) i)) (\<lambda>mtime.
     rbind (get_map (gs ! 3) i) (\<lambda>tags.
       Inr \<lparr> sidecar_path = path, sidecar_size_in_bytes = size, sidecar_modification_time = mtime, sidecar_tags = tags \<rparr>)))"

definition by_path :: "(nat \<Rightarrow> string \<Rightarrow> getter list \<Rightarrow> 'a delta_result) \<Rightarrow> getter list \<Rightarrow> nat \<Rightarrow> 'a option delta_result" where
  "by_path visit gs i =
     rbind (get_str (gs ! 0) i) (\<lambda>p. case p of None \<Rightarrow> Inr None | Some path \<Rightarrow> rbind (visit i path gs) (\<lambda>a. Inr (Some a)))"

definition visit_adds :: "nat \<Rightarrow> getter list \<Rightarrow> add_action list \<Rightarrow> add_action list delta_result" where
  "visit_adds n gs adds = visit_all (by_path visit_add gs) [0..<n] adds"

definition visit_removes :: "nat \<Rightarrow> getter list \<Rightarrow> remove_action list \<Rightarrow> remove_action list delta_result" where
  "visit_removes n gs removes = visit_all (by_path visit_remove gs) [0..<n] removes"

definition visit_cdcs :: "nat \<Rightarrow> getter list \<Rightarrow> cdc_action list \<Rightarrow> cdc_action list delta_result" where
  "visit_cdcs n gs cdcs =
     rbind (require (length gs = 5) (InternalError ''Wrong number of CdcVisitor getters''))
       (\<lambda>_. visit_all (by_path visit_cdc gs) [0..<n] cdcs)"

definition visit_sidecars :: "nat \<Rightarrow> getter list \<Rightarrow> sidecar list \<Rightarrow> sidecar list delta_result" where
  "visit_sidecars n gs sidecars =
     rbind (require (length gs = 4) (InternalError ''Wrong number of SidecarVisitor getters''))
       (\<lambda>_. visit_all (by_path visit_sidecar gs) [0..<n] sidecars)"

section \<open>Scans of the log\<close>

fun visit_rows :: "(nat \<Rightarrow> 's \<Rightarrow> 's delta_result) \<Rightarrow> nat list \<Rightarrow> 's \<Rightarrow> 's delta_result" where
  "visit_rows f [] s = Inr s"
| "visit_rows f (i # is) s = rbind (f i s) (visit_rows f is)"

text \<open>The loop over the batches: an error ends it, and so does the condition \<open>stop\<close> after a batch.\<close>

fun scan_batches ::
  "(engine_data \<Rightarrow> 's \<Rightarrow> 's delta_result) \<Rightarrow> ('s \<Rightarrow> bool) \<Rightarrow> actions_batch delta_result list \<Rightarrow> 's \<Rightarrow> 's delta_result" where
  "scan_batches visit stop [] s = Inr s"
| "scan_batches visit stop (b # bs) s =
     rbind b (\<lambda>batch. rbind (visit (ab_actions batch) s) (\<lambda>s'. if stop s' then Inr s' else scan_batches visit stop bs s'))"

definition visit_txn :: "nat \<Rightarrow> string \<Rightarrow> getter list \<Rightarrow> set_transaction delta_result" where
  "visit_txn i app gs =
     rbind (require (length gs = 3) (InternalError ''Wrong number of SetTransactionVisitor getters'')) (\<lambda>_.
     rbind (get_required (get_long (gs ! 1) i)) (\<lambda>v.
     rbind (get_long (gs ! 2) i) (\<lambda>updated.
       Inr \<lparr> app_id = app, txn_version = v, last_updated = updated \<rparr>)))"

definition txn_expired :: "64 word option \<Rightarrow> set_transaction \<Rightarrow> bool" where
  "txn_expired expiration t =
     (case (expiration, last_updated t) of (Some e, Some u) \<Rightarrow> sint u \<le> sint e | _ \<Rightarrow> False)"

definition txn_row ::
  "string option \<Rightarrow> 64 word option \<Rightarrow> getter list \<Rightarrow> nat \<Rightarrow> (string \<times> set_transaction) list \<Rightarrow>
   (string \<times> set_transaction) list delta_result" where
  "txn_row application expiration gs i txns =
     rbind (get_str (gs ! 0) i) (\<lambda>a.
       case a of
         None \<Rightarrow> Inr txns
       | Some app \<Rightarrow>
           if application = None \<or> application = Some app
           then rbind (visit_txn i app gs) (\<lambda>t.
                  if txn_expired expiration t then Inr txns
                  else Inr (if map_of txns app = None then txns @ [(app, t)] else txns))
           else Inr txns)"

definition txn_columns :: "column_name list" where
  "txn_columns = map ((#) ''txn'') [[''appId''], [''version''], [''lastUpdated'']]"

definition txn_visit ::
  "string option \<Rightarrow> 64 word option \<Rightarrow> engine_data \<Rightarrow> (string \<times> set_transaction) list \<Rightarrow>
   (string \<times> set_transaction) list delta_result" where
  "txn_visit application expiration d txns =
     rbind (ed_getters d txn_columns) (\<lambda>gs. visit_rows (txn_row application expiration gs) [0..<ed_len d] txns)"

definition txn_stop :: "string option \<Rightarrow> (string \<times> set_transaction) list \<Rightarrow> bool" where
  "txn_stop application txns \<longleftrightarrow> application \<noteq> None \<and> txns \<noteq> []"

definition scan_application_transactions ::
  "string option \<Rightarrow> 64 word option \<Rightarrow> actions_batch delta_result list delta_result \<Rightarrow>
   (string \<times> set_transaction) list delta_result" where
  "scan_application_transactions application expiration batches =
     rbind batches (\<lambda>bs. scan_batches (txn_visit application expiration) (txn_stop application) bs [])"

definition get_one ::
  "string \<Rightarrow> 64 word option \<Rightarrow> actions_batch delta_result list delta_result \<Rightarrow> set_transaction option delta_result" where
  "get_one app expiration batches =
     rbind (scan_application_transactions (Some app) expiration batches) (\<lambda>txns. Inr (map_of txns app))"

definition get_all ::
  "64 word option \<Rightarrow> actions_batch delta_result list delta_result \<Rightarrow> (string \<times> set_transaction) list delta_result" where
  "get_all expiration batches = scan_application_transactions None expiration batches"

definition visit_domain_metadata :: "nat \<Rightarrow> string \<Rightarrow> getter list \<Rightarrow> domain_metadata delta_result" where
  "visit_domain_metadata i d gs =
     rbind (require (length gs = 3) (InternalError ''Wrong number of DomainMetadataVisitor getters'')) (\<lambda>_.
     rbind (get_required (get_str (gs ! 1) i)) (\<lambda>c.
     rbind (get_required (get_bool (gs ! 2) i)) (\<lambda>r.
       Inr \<lparr> domain = d, domain_configuration = c, removed = r \<rparr>)))"

definition requested_domain :: "string set option \<Rightarrow> string \<Rightarrow> bool" where
  "requested_domain flt d = (case flt of None \<Rightarrow> True | Some ds \<Rightarrow> d \<in> ds)"

definition domain_row ::
  "string set option \<Rightarrow> getter list \<Rightarrow> nat \<Rightarrow> (string \<times> domain_metadata) list \<Rightarrow>
   (string \<times> domain_metadata) list delta_result" where
  "domain_row flt gs i dms =
     rbind (get_str (gs ! 0) i) (\<lambda>x.
       case x of
         None \<Rightarrow> Inr dms
       | Some d \<Rightarrow>
           if requested_domain flt d \<and> map_of dms d = None
           then rbind (visit_domain_metadata i d gs) (\<lambda>dm. Inr (dms @ [(d, dm)]))
           else Inr dms)"

definition domain_columns :: "column_name list" where
  "domain_columns = map ((#) ''domainMetadata'') [[''domain''], [''configuration''], [''removed'']]"

definition domain_visit ::
  "string set option \<Rightarrow> engine_data \<Rightarrow> (string \<times> domain_metadata) list \<Rightarrow> (string \<times> domain_metadata) list delta_result" where
  "domain_visit flt d dms =
     rbind (ed_getters d domain_columns) (\<lambda>gs. visit_rows (domain_row flt gs) [0..<ed_len d] dms)"

definition filter_found :: "string set option \<Rightarrow> (string \<times> domain_metadata) list \<Rightarrow> bool" where
  "filter_found flt dms = (case flt of None \<Rightarrow> False | Some ds \<Rightarrow> length dms = card ds)"

definition into_domain_metadatas :: "(string \<times> domain_metadata) list \<Rightarrow> (string \<times> domain_metadata) list" where
  "into_domain_metadatas dms = filter (\<lambda>(_, dm). \<not> removed dm) dms"

definition scan_domain_metadatas ::
  "string set option \<Rightarrow> actions_batch delta_result list delta_result \<Rightarrow> (string \<times> domain_metadata) list delta_result" where
  "scan_domain_metadatas flt batches =
     rbind batches (\<lambda>bs.
     rbind (scan_batches (domain_visit flt) (filter_found flt) bs []) (\<lambda>dms. Inr (into_domain_metadatas dms)))"

type_synonym pm = "metadata option \<times> protocol option"

definition pm_visit :: "engine_data \<Rightarrow> pm \<Rightarrow> pm delta_result" where
  "pm_visit d st =
     rbind (case fst st of None \<Rightarrow> metadata_try_new_from_data d | Some m \<Rightarrow> Inr (Some m)) (\<lambda>m.
     rbind (case snd st of None \<Rightarrow> protocol_try_new_from_data d | Some p \<Rightarrow> Inr (Some p)) (\<lambda>p. Inr (m, p)))"

definition pm_found :: "pm \<Rightarrow> bool" where
  "pm_found st \<longleftrightarrow> fst st \<noteq> None \<and> snd st \<noteq> None"

definition replay_for_pm :: "actions_batch delta_result list delta_result \<Rightarrow> pm \<Rightarrow> pm delta_result" where
  "replay_for_pm batches st = rbind batches (\<lambda>bs. scan_batches pm_visit pm_found bs st)"

section \<open>Stopping early\<close>

text \<open>
  A scan may stop as soon as no further batch can change its state: \<open>inv\<close> is what the visitor keeps and
  \<open>stable\<close> what the condition promises.
\<close>

locale early_stop =
  fixes visit :: "engine_data \<Rightarrow> 's \<Rightarrow> 's delta_result" and stop :: "'s \<Rightarrow> bool" and inv :: "'s \<Rightarrow> bool"
  assumes keeps: "inv s \<Longrightarrow> visit d s = Inr s' \<Longrightarrow> inv s'"
    and stable: "inv s \<Longrightarrow> stop s \<Longrightarrow> visit d s = Inr s' \<Longrightarrow> s' = s"
begin

lemma stopped: "inv s \<Longrightarrow> stop s \<Longrightarrow> scan_batches visit (\<lambda>_. False) bs s = Inr s' \<Longrightarrow> s' = s"
proof (induction bs)
  case (Cons b bs)
  then show ?case using stable by (auto simp: result_simps)
qed simp

theorem full_scan:
  "inv s \<Longrightarrow> scan_batches visit (\<lambda>_. False) bs s = Inr s' \<Longrightarrow> scan_batches visit stop bs s = Inr s'"
proof (induction bs arbitrary: s)
  case (Cons b bs)
  then obtain batch s1 where b: "b = Inr batch" "visit (ab_actions batch) s = Inr s1"
    and s1: "scan_batches visit (\<lambda>_. False) bs s1 = Inr s'" by (auto simp: result_simps)
  have i: "inv s1" using keeps Cons.prems(1) b(2) by blast
  then show ?case using b Cons.IH [OF i s1] stopped [OF i _ s1] by auto
qed simp

end

lemma visit_rows_keeps:
  assumes "\<And>i s s'. P s \<Longrightarrow> f i s = Inr s' \<Longrightarrow> P s'"
  shows "P s \<Longrightarrow> visit_rows f is s = Inr s' \<Longrightarrow> P s'"
  by (induction "is" arbitrary: s) (auto simp: result_simps intro: assms)

section \<open>Newest action first\<close>

text \<open>
  The reference: every row of every batch decoded, in the order of the log. A scan keeps the first entry of
  each key among those that satisfy \<open>keep\<close>.
\<close>

fun decode_log ::
  "(getter list \<Rightarrow> nat \<Rightarrow> 'a option delta_result) \<Rightarrow> column_name list \<Rightarrow> actions_batch delta_result list \<Rightarrow>
   'a list delta_result" where
  "decode_log decode cols [] = Inr []"
| "decode_log decode cols (b # bs) =
     rbind b (\<lambda>batch. rbind (ed_getters (ab_actions batch) cols) (\<lambda>gs.
       rbind (visit_all (decode gs) [0..<ed_len (ab_actions batch)] []) (\<lambda>xs.
       rbind (decode_log decode cols bs) (\<lambda>ys. Inr (xs @ ys)))))"

fun first_wins :: "('k \<times> 'v \<Rightarrow> bool) \<Rightarrow> ('k \<times> 'v) list \<Rightarrow> ('k \<times> 'v) list \<Rightarrow> ('k \<times> 'v) list" where
  "first_wins keep [] s = s"
| "first_wins keep (e # es) s = first_wins keep es (if keep e \<and> map_of s (fst e) = None then s @ [e] else s)"

lemma first_wins_append: "first_wins keep (xs @ ys) s = first_wins keep ys (first_wins keep xs s)"
  by (induction xs arbitrary: s) auto

lemma map_of_first_wins:
  "map_of (first_wins keep es s) k = (case map_of s k of None \<Rightarrow> map_of (filter keep es) k | Some v \<Rightarrow> Some v)"
  by (induction es arbitrary: s) (auto split: option.splits simp: map_add_def)

lemma distinct_first_wins: "distinct (map fst s) \<Longrightarrow> distinct (map fst (first_wins keep es s))"
  by (induction es arbitrary: s) (auto simp: map_of_eq_None_iff)

lemma visit_all_append: "visit_all f is (acc @ acc') = rbind (visit_all f is acc') (\<lambda>xs. Inr (acc @ xs))"
proof (induction "is" arbitrary: acc')
  case (Cons i "is")
  show ?case
  proof (cases "f i")
    case (Inr x)
    then show ?thesis using Cons.IH [of "acc' @ [the x]"] Cons.IH [of acc'] by (cases x) auto
  qed simp
qed simp

lemma visit_all_Cons:
  "visit_all f (i # is) [] = rbind (f i) (\<lambda>x. rbind (visit_all f is []) (\<lambda>xs. Inr (case x of None \<Rightarrow> xs | Some a \<Rightarrow> a # xs)))"
proof (cases "f i")
  case (Inr x)
  then show ?thesis using visit_all_append [of f "is" "[the x]" "[]"]
    by (cases x; cases "visit_all f is []") auto
qed simp

declare visit_all.simps(2) [simp del]

locale keyed_visitor =
  fixes row :: "getter list \<Rightarrow> nat \<Rightarrow> ('k \<times> 'v) list \<Rightarrow> ('k \<times> 'v) list delta_result"
    and decode :: "getter list \<Rightarrow> nat \<Rightarrow> ('k \<times> 'v) option delta_result"
    and keep :: "'k \<times> 'v \<Rightarrow> bool"
  assumes row_none: "decode gs i = Inr None \<Longrightarrow> row gs i s = Inr s"
    and row_some: "decode gs i = Inr (Some e) \<Longrightarrow> row gs i s = Inr (first_wins keep [e] s)"
begin

lemma rows_first_wins: "visit_all (decode gs) is [] = Inr es \<Longrightarrow> visit_rows (row gs) is s = Inr (first_wins keep es s)"
proof (induction "is" arbitrary: s es)
  case (Cons i "is")
  obtain x xs where x: "decode gs i = Inr x" and xs: "visit_all (decode gs) is [] = Inr xs"
    and es: "es = (case x of None \<Rightarrow> xs | Some a \<Rightarrow> a # xs)"
    using Cons.prems by (auto simp: visit_all_Cons result_simps)
  show ?case using x es Cons.IH [OF xs] row_none row_some by (cases x) auto
qed simp

theorem scan_first_wins:
  assumes "\<And>d s. visit d s = rbind (ed_getters d cols) (\<lambda>gs. visit_rows (row gs) [0..<ed_len d] s)"
  shows "decode_log decode cols bs = Inr es \<Longrightarrow> scan_batches visit (\<lambda>_. False) bs s = Inr (first_wins keep es s)"
proof (induction bs arbitrary: s es)
  case (Cons b bs)
  then obtain batch gs xs ys where b: "b = Inr batch" "ed_getters (ab_actions batch) cols = Inr gs"
    and xs: "visit_all (decode gs) [0..<ed_len (ab_actions batch)] [] = Inr xs"
    and ys: "decode_log decode cols bs = Inr ys" and es: "es = xs @ ys"
    by (auto simp: result_simps)
  show ?case using b es Cons.IH [OF ys] rows_first_wins [OF xs] by (simp add: assms first_wins_append)
qed simp

end

definition txn_action :: "getter list \<Rightarrow> nat \<Rightarrow> (string \<times> set_transaction) option delta_result" where
  "txn_action = by_path (\<lambda>i a gs. rbind (visit_txn i a gs) (\<lambda>t. Inr (a, t)))"

definition txn_keep :: "string option \<Rightarrow> 64 word option \<Rightarrow> string \<times> set_transaction \<Rightarrow> bool" where
  "txn_keep application expiration e \<longleftrightarrow>
     (application = None \<or> application = Some (fst e)) \<and> \<not> txn_expired expiration (snd e)"

interpretation tx: keyed_visitor "txn_row application expiration" txn_action "txn_keep application expiration"
  for application expiration
proof
  fix gs i s
  assume "txn_action gs i = Inr None"
  then show "txn_row application expiration gs i s = Inr s"
    by (auto simp: txn_action_def by_path_def txn_row_def result_simps split: option.splits)
next
  fix gs i e s
  assume "txn_action gs i = Inr (Some e)"
  then obtain a t where "get_str (gs ! 0) i = Inr (Some a)" "visit_txn i a gs = Inr t" "e = (a, t)"
    by (auto simp: txn_action_def by_path_def result_simps split: option.splits)
  then show "txn_row application expiration gs i s = Inr (first_wins (txn_keep application expiration) [e] s)"
    by (auto simp: txn_row_def txn_keep_def)
qed

definition domain_action :: "getter list \<Rightarrow> nat \<Rightarrow> (string \<times> domain_metadata) option delta_result" where
  "domain_action = by_path (\<lambda>i d gs. rbind (visit_domain_metadata i d gs) (\<lambda>dm. Inr (d, dm)))"

interpretation dm: keyed_visitor "domain_row flt" domain_action "\<lambda>e. requested_domain flt (fst e)" for flt
proof
  fix gs i s
  assume "domain_action gs i = Inr None"
  then show "domain_row flt gs i s = Inr s"
    by (auto simp: domain_action_def by_path_def domain_row_def result_simps split: option.splits)
next
  fix gs i e s
  assume "domain_action gs i = Inr (Some e)"
  then obtain d m where "get_str (gs ! 0) i = Inr (Some d)" "visit_domain_metadata i d gs = Inr m" "e = (d, m)"
    by (auto simp: domain_action_def by_path_def result_simps split: option.splits)
  then show "domain_row flt gs i s = Inr (first_wins (\<lambda>e. requested_domain flt (fst e)) [e] s)"
    by (auto simp: domain_row_def)
qed

section \<open>The scans of the log\<close>

lemma txn_row_cases:
  assumes "txn_row application expiration gs i s = Inr s'"
  obtains "s' = s" | a t where "s' = s @ [(a, t)]" "map_of s a = None" "application = None \<or> application = Some a"
proof (cases "get_str (gs ! 0) i")
  case (Inr x)
  show ?thesis
  proof (cases x)
    case (Some a)
    then show ?thesis using assms Inr that by (auto simp: txn_row_def result_simps split: if_splits)
  qed (use assms Inr that in \<open>simp add: txn_row_def\<close>)
qed (use assms in \<open>simp add: txn_row_def\<close>)

lemma domain_row_cases:
  assumes "domain_row flt gs i s = Inr s'"
  obtains "s' = s" | d m where "s' = s @ [(d, m)]" "map_of s d = None" "requested_domain flt d"
proof (cases "get_str (gs ! 0) i")
  case (Inr x)
  show ?thesis
  proof (cases x)
    case (Some a)
    then show ?thesis using assms Inr that by (auto simp: domain_row_def result_simps split: if_splits)
  qed (use assms Inr that in \<open>simp add: domain_row_def\<close>)
qed (use assms in \<open>simp add: domain_row_def\<close>)

definition txn_inv :: "string option \<Rightarrow> (string \<times> set_transaction) list \<Rightarrow> bool" where
  "txn_inv application txns \<longleftrightarrow> (\<forall>a. application = Some a \<longrightarrow> fst ` set txns \<subseteq> {a})"

lemma txn_row_inv:
  assumes "txn_inv application s" "txn_row application expiration gs i s = Inr s'"
  shows "txn_inv application s'"
  using assms(2) by (rule txn_row_cases) (use assms(1) in \<open>auto simp: txn_inv_def\<close>)

lemma txn_row_stable:
  assumes "txn_inv application s" "txn_stop application s" "txn_row application expiration gs i s = Inr s'"
  shows "s' = s"
  using assms(3)
proof (rule txn_row_cases)
  fix a t
  assume n: "map_of s a = None" and "application = None \<or> application = Some a"
  then have "application = Some a" "s \<noteq> []" using assms(2) by (auto simp: txn_stop_def)
  then have "fst (hd s) = a" using assms(1) by (cases s) (auto simp: txn_inv_def)
  then show ?thesis using n \<open>s \<noteq> []\<close> by (cases s) auto
qed

lemma txn_visit_rows:
  assumes "txn_visit application expiration d s = Inr s'"
  obtains gs where "visit_rows (txn_row application expiration gs) [0..<ed_len d] s = Inr s'"
  using assms by (auto simp: txn_visit_def result_simps)

interpretation tx: early_stop "txn_visit application expiration" "txn_stop application" "txn_inv application"
  for application expiration
proof
  fix s d s'
  assume "txn_inv application s" and v: "txn_visit application expiration d s = Inr s'"
  from v show "txn_inv application s'"
    by (rule txn_visit_rows)
      (rule visit_rows_keeps [of "txn_inv application", OF txn_row_inv \<open>txn_inv application s\<close>])
next
  fix s d s'
  assume i: "txn_inv application s" and st: "txn_stop application s" and v: "txn_visit application expiration d s = Inr s'"
  obtain gs where "visit_rows (txn_row application expiration gs) [0..<ed_len d] s = Inr s'"
    using txn_visit_rows [OF v] .
  from visit_rows_keeps [of "\<lambda>x. x = s", OF _ refl this] show "s' = s"
    using txn_row_stable [OF i st] by blast
qed

definition domain_inv :: "string set option \<Rightarrow> (string \<times> domain_metadata) list \<Rightarrow> bool" where
  "domain_inv flt dms \<longleftrightarrow> distinct (map fst dms) \<and> (\<forall>ds. flt = Some ds \<longrightarrow> finite ds \<and> fst ` set dms \<subseteq> ds)"

lemma domain_row_inv:
  assumes "domain_inv flt s" "domain_row flt gs i s = Inr s'"
  shows "domain_inv flt s'"
  using assms(2)
  by (rule domain_row_cases) (use assms(1) in \<open>auto simp: domain_inv_def requested_domain_def map_of_eq_None_iff\<close>)

lemma filter_found_all:
  assumes "domain_inv (Some ds) s" "filter_found (Some ds) s"
  shows "fst ` set s = ds"
proof (rule card_subset_eq)
  have "card (set (map fst s)) = length (map fst s)"
    using assms(1) by (intro distinct_card) (simp add: domain_inv_def)
  then show "card (fst ` set s) = card ds" using assms(2) by (simp add: filter_found_def)
qed (use assms(1) in \<open>auto simp: domain_inv_def\<close>)

lemma domain_row_stable:
  assumes "domain_inv flt s" "filter_found flt s" "domain_row flt gs i s = Inr s'"
  shows "s' = s"
  using assms(3)
proof (rule domain_row_cases)
  fix d m
  assume n: "map_of s d = None" and r: "requested_domain flt d"
  show ?thesis
  proof (cases flt)
    case (Some ds)
    then have "d \<in> fst ` set s" using r filter_found_all assms(1,2) by (auto simp: requested_domain_def)
    then show ?thesis using n by (simp add: map_of_eq_None_iff)
  qed (use assms(2) in \<open>simp add: filter_found_def\<close>)
qed

lemma domain_visit_rows:
  assumes "domain_visit flt d s = Inr s'"
  obtains gs where "visit_rows (domain_row flt gs) [0..<ed_len d] s = Inr s'"
  using assms by (auto simp: domain_visit_def result_simps)

interpretation dm: early_stop "domain_visit flt" "filter_found flt" "domain_inv flt" for flt
proof
  fix s d s'
  assume "domain_inv flt s" and v: "domain_visit flt d s = Inr s'"
  from v show "domain_inv flt s'"
    by (rule domain_visit_rows)
      (rule visit_rows_keeps [of "domain_inv flt", OF domain_row_inv \<open>domain_inv flt s\<close>])
next
  fix s d s'
  assume i: "domain_inv flt s" and st: "filter_found flt s" and v: "domain_visit flt d s = Inr s'"
  obtain gs where "visit_rows (domain_row flt gs) [0..<ed_len d] s = Inr s'"
    using domain_visit_rows [OF v] .
  from visit_rows_keeps [of "\<lambda>x. x = s", OF _ refl this] show "s' = s"
    using domain_row_stable [OF i st] by blast
qed

interpretation pm: early_stop pm_visit pm_found "\<lambda>_. True"
  by unfold_locales (auto simp: pm_visit_def pm_found_def result_simps)

lemma txn_scan:
  assumes "decode_log txn_action txn_columns bs = Inr log"
  shows "scan_application_transactions application expiration (Inr bs) =
    Inr (first_wins (txn_keep application expiration) log [])"
proof -
  have "scan_batches (txn_visit application expiration) (\<lambda>_. False) bs [] =
      Inr (first_wins (txn_keep application expiration) log [])"
    by (rule tx.scan_first_wins [OF _ assms]) (simp add: txn_visit_def)
  then show ?thesis using tx.full_scan [of application "[]" expiration] 
    by (simp add: scan_application_transactions_def txn_inv_def)
qed

lemma domain_scan:
  assumes "decode_log domain_action domain_columns bs = Inr log" "\<forall>ds. flt = Some ds \<longrightarrow> finite ds"
  shows "scan_domain_metadatas flt (Inr bs) =
    Inr (into_domain_metadatas (first_wins (\<lambda>e. requested_domain flt (fst e)) log []))"
proof -
  have "scan_batches (domain_visit flt) (\<lambda>_. False) bs [] = Inr (first_wins (\<lambda>e. requested_domain flt (fst e)) log [])"
    by (rule dm.scan_first_wins [OF _ assms(1)]) (simp add: domain_visit_def)
  then show ?thesis using dm.full_scan [of flt "[]"] assms(2)
    by (simp add: scan_domain_metadatas_def domain_inv_def)
qed

lemma map_of_into_domain_metadatas:
  assumes "distinct (map fst dms)"
  shows "map_of (into_domain_metadatas dms) d =
    (case map_of dms d of None \<Rightarrow> None | Some m \<Rightarrow> if removed m then None else Some m)"
  using assms by (induction dms) (auto simp: into_domain_metadatas_def map_of_eq_None_iff split: option.splits
      dest: map_of_SomeD intro: rev_image_eqI)

text \<open>
  C17. The scan for domain metadata returns the live domains of the table: when every domain metadata row of
  the log decodes, it succeeds, and what it holds for a domain is the newest row of that domain, unless that
  row is a tombstone or the domain was not asked for. A tombstone hides every older row of its domain, and
  stopping as soon as every requested domain has been seen loses nothing.
\<close>

theorem newest_domain_metadata:
  assumes "decode_log domain_action domain_columns bs = Inr log" "\<forall>ds. flt = Some ds \<longrightarrow> finite ds"
  shows "\<exists>dms. scan_domain_metadatas flt (Inr bs) = Inr dms \<and>
    (\<forall>d. map_of dms d =
       (if requested_domain flt d
        then case map_of log d of None \<Rightarrow> None | Some m \<Rightarrow> if removed m then None else Some m
        else None))"
proof (intro exI conjI allI)
  let ?dms = "first_wins (\<lambda>e. requested_domain flt (fst e)) log []"
  show "scan_domain_metadatas flt (Inr bs) = Inr (into_domain_metadatas ?dms)"
    by (rule domain_scan) (use assms in auto)
  fix d
  have "map_of (filter (\<lambda>e. requested_domain flt (fst e)) log) d = (if requested_domain flt d then map_of log d else None)"
    by (induction log) auto
  then show "map_of (into_domain_metadatas ?dms) d =
       (if requested_domain flt d
        then case map_of log d of None \<Rightarrow> None | Some m \<Rightarrow> if removed m then None else Some m
        else None)"
    by (simp add: map_of_into_domain_metadatas distinct_first_wins map_of_first_wins)
qed

text \<open>
  C18. Reading the transaction of one application and reading all of them agree: both give, per application, the
  newest transaction of the log that has not expired, although the search for one application stops at the
  first batch that holds one.
\<close>

theorem newest_transaction:
  assumes "decode_log txn_action txn_columns bs = Inr log"
  shows "get_one app expiration (Inr bs) = Inr (map_of (filter (\<lambda>e. \<not> txn_expired expiration (snd e)) log) app) \<and>
    (\<exists>txns. get_all expiration (Inr bs) = Inr txns \<and>
       map_of txns = map_of (filter (\<lambda>e. \<not> txn_expired expiration (snd e)) log))"
proof -
  let ?live = "filter (\<lambda>e. \<not> txn_expired expiration (snd e)) log"
  have "map_of (filter (txn_keep (Some app) expiration) log) app = map_of ?live app"
    by (induction log) (auto simp: txn_keep_def)
  moreover have "filter (txn_keep None expiration) log = ?live" by (simp add: txn_keep_def cong: filter_cong)
  ultimately show ?thesis
    by (auto simp: get_one_def get_all_def txn_scan [OF assms] map_of_first_wins)
qed

lemma visit_first_all: "visit_all f is [] = Inr xs \<Longrightarrow> visit_first f is = Inr (first_opt xs)"
proof (induction "is" arbitrary: xs)
  case (Cons i "is")
  then obtain x ys where "f i = Inr x" "visit_all f is [] = Inr ys" "xs = (case x of None \<Rightarrow> ys | Some a \<Rightarrow> a # ys)"
    by (auto simp: visit_all_Cons result_simps)
  then show ?case using Cons.IH by (cases x) auto
qed simp

definition metadata_action :: "getter list \<Rightarrow> nat \<Rightarrow> metadata option delta_result" where
  "metadata_action gs = (\<lambda>i. visit_metadata_at i gs)"

definition protocol_action :: "getter list \<Rightarrow> nat \<Rightarrow> protocol option delta_result" where
  "protocol_action gs = (\<lambda>i. visit_protocol_at i gs)"

fun or_else :: "'a option \<Rightarrow> 'a option \<Rightarrow> 'a option" where
  "or_else None y = y"
| "or_else (Some x) _ = Some x"

lemma or_else_None [simp]: "or_else x None = x"
  by (cases x) auto

lemma or_else_assoc: "or_else (or_else x y) z = or_else x (or_else y z)"
  by (cases x) auto

lemma first_opt_append: "first_opt (xs @ ys) = or_else (first_opt xs) (first_opt ys)"
  by (cases xs) auto

lemma pm_visit_newest:
  assumes "ed_getters d metadata_columns = Inr gm" "visit_all (metadata_action gm) [0..<ed_len d] [] = Inr ms"
    and "ed_getters d protocol_columns = Inr gp" "visit_all (protocol_action gp) [0..<ed_len d] [] = Inr ps"
  shows "pm_visit d st = Inr (or_else (fst st) (first_opt ms), or_else (snd st) (first_opt ps))"
proof -
  have "metadata_try_new_from_data d = Inr (first_opt ms)" "protocol_try_new_from_data d = Inr (first_opt ps)"
    using assms visit_first_all [OF assms(2)] visit_first_all [OF assms(4)]
    by (simp_all add: metadata_try_new_from_data_def protocol_try_new_from_data_def metadata_action_def protocol_action_def)
  then show ?thesis by (cases "fst st"; cases "snd st") (simp_all add: pm_visit_def)
qed

lemma pm_scan:
  "decode_log metadata_action metadata_columns bs = Inr ms \<Longrightarrow> decode_log protocol_action protocol_columns bs = Inr ps \<Longrightarrow>
   scan_batches pm_visit (\<lambda>_. False) bs st = Inr (or_else (fst st) (first_opt ms), or_else (snd st) (first_opt ps))"
proof (induction bs arbitrary: st ms ps)
  case (Cons b bs)
  obtain batch gm xm ym where m: "b = Inr batch" "ed_getters (ab_actions batch) metadata_columns = Inr gm"
    "visit_all (metadata_action gm) [0..<ed_len (ab_actions batch)] [] = Inr xm"
    "decode_log metadata_action metadata_columns bs = Inr ym" "ms = xm @ ym"
    using Cons.prems(1) by (auto simp: result_simps)
  obtain gp xp yp where p: "ed_getters (ab_actions batch) protocol_columns = Inr gp"
    "visit_all (protocol_action gp) [0..<ed_len (ab_actions batch)] [] = Inr xp"
    "decode_log protocol_action protocol_columns bs = Inr yp" "ps = xp @ yp"
    using Cons.prems(2) m(1) by (auto simp: result_simps)
  show ?case
    using pm_visit_newest [OF m(2,3) p(1,2), of st] Cons.IH [OF m(4) p(3)] m(1,5) p(4)
    by (simp add: first_opt_append or_else_assoc)
qed simp

lemma replay_newest:
  assumes "decode_log metadata_action metadata_columns bs = Inr ms" "decode_log protocol_action protocol_columns bs = Inr ps"
  shows "replay_for_pm (Inr bs) st = Inr (or_else (fst st) (first_opt ms), or_else (snd st) (first_opt ps))"
  using pm.full_scan [OF TrueI pm_scan [OF assms, of st]] by (simp add: replay_for_pm_def)

section \<open>Witnesses\<close>

definition null_getter :: getter where
  "null_getter = \<lparr> get_str = \<lambda>_. Inr None, get_int = \<lambda>_. Inr None, get_long = \<lambda>_. Inr None,
     get_bool = \<lambda>_. Inr None, get_map = \<lambda>_. Inr None, get_list = \<lambda>_. Inr None \<rparr>"

definition domain_data :: "(string \<times> string \<times> bool) list \<Rightarrow> actions_batch delta_result" where
  "domain_data rows = Inr \<lparr> ab_actions = \<lparr> ed_len = length rows, ed_getters = \<lambda>_. Inr
     [null_getter\<lparr> get_str := \<lambda>i. Inr (Some (fst (rows ! i))) \<rparr>,
      null_getter\<lparr> get_str := \<lambda>i. Inr (Some (fst (snd (rows ! i)))) \<rparr>,
      null_getter\<lparr> get_bool := \<lambda>i. Inr (Some (snd (snd (rows ! i)))) \<rparr>] \<rparr>, ab_is_log_batch = True \<rparr>"

definition txn_data :: "(string \<times> 64 word \<times> 64 word option) list \<Rightarrow> actions_batch delta_result" where
  "txn_data rows = Inr \<lparr> ab_actions = \<lparr> ed_len = length rows, ed_getters = \<lambda>_. Inr
     [null_getter\<lparr> get_str := \<lambda>i. Inr (Some (fst (rows ! i))) \<rparr>,
      null_getter\<lparr> get_long := \<lambda>i. Inr (Some (fst (snd (rows ! i)))) \<rparr>,
      null_getter\<lparr> get_long := \<lambda>i. Inr (snd (snd (rows ! i))) \<rparr>] \<rparr>, ab_is_log_batch = True \<rparr>"

lemmas decode_simps = visit_all.simps(2) by_path_def get_required_def ok_or_def null_getter_def require_def upt_rec

theorem newest_domain_metadata_witness:
  "\<exists>dms. scan_domain_metadatas None
       (Inr [domain_data [(''b'', ''2'', True)], domain_data [(''a'', ''1'', False), (''b'', ''0'', False)]]) = Inr dms \<and>
     map_of dms ''a'' = Some (domain_metadata_new ''a'' ''1'') \<and> map_of dms ''b'' = None"
proof -
  have "decode_log domain_action domain_columns
      [domain_data [(''b'', ''2'', True)], domain_data [(''a'', ''1'', False), (''b'', ''0'', False)]] =
    Inr [(''b'', domain_metadata_remove ''b'' ''2''), (''a'', domain_metadata_new ''a'' ''1''),
         (''b'', domain_metadata_new ''b'' ''0'')]"
    by (simp add: domain_data_def domain_action_def visit_domain_metadata_def domain_metadata_new_def
        domain_metadata_remove_def decode_simps)
  from newest_domain_metadata [OF this, of None] show ?thesis
    by (auto simp: requested_domain_def domain_metadata_new_def domain_metadata_remove_def)
qed

theorem newest_transaction_witness:
  "get_one ''x'' (Some 10) (Inr [txn_data [(''y'', 4, None), (''x'', 7, Some 11)], txn_data [(''x'', 5, Some 9)]]) =
     Inr (Some \<lparr> app_id = ''x'', txn_version = 7, last_updated = Some 11 \<rparr>)"
proof -
  have "decode_log txn_action txn_columns
      [txn_data [(''y'', 4, None), (''x'', 7, Some 11)], txn_data [(''x'', 5, Some 9)]] =
    Inr [(''y'', \<lparr> app_id = ''y'', txn_version = 4, last_updated = None \<rparr>),
         (''x'', \<lparr> app_id = ''x'', txn_version = 7, last_updated = Some 11 \<rparr>),
         (''x'', \<lparr> app_id = ''x'', txn_version = 5, last_updated = Some 9 \<rparr>)]"
    by (simp add: txn_data_def txn_action_def visit_txn_def decode_simps)
  from newest_transaction [OF this, of "''x''" "Some 10"] show ?thesis
    by (simp add: txn_expired_def)
qed

text \<open>
  An application whose newest transaction has expired by its own timestamp is not simply absent: an older
  transaction that has no timestamp, or a later one, takes its place.
\<close>

lemma expired_transaction_uncovers_older:
  "get_one ''x'' (Some 10) (Inr [txn_data [(''x'', 7, Some 9)], txn_data [(''x'', 5, None)]]) =
     Inr (Some \<lparr> app_id = ''x'', txn_version = 5, last_updated = None \<rparr>)"
proof -
  have "decode_log txn_action txn_columns [txn_data [(''x'', 7, Some 9)], txn_data [(''x'', 5, None)]] =
    Inr [(''x'', \<lparr> app_id = ''x'', txn_version = 7, last_updated = Some 9 \<rparr>),
         (''x'', \<lparr> app_id = ''x'', txn_version = 5, last_updated = None \<rparr>)]"
    by (simp add: txn_data_def txn_action_def visit_txn_def decode_simps)
  note txn_scan [OF this]
  then show ?thesis by (simp add: get_one_def txn_keep_def txn_expired_def)
qed

end
