(* ===== verification/Checksum.thy ===== *)
theory Checksum
  imports Actions
begin

text \<open>
  Version checksums (\<open>crc/\<close>): the state of a table at a version, advanced commit by commit
  (\<open>crc/delta.rs\<close>), the file statistics of a transaction (\<open>crc/file_stats.rs\<close>), the lazily loaded
  checksum file (\<open>crc/lazy.rs\<close>, \<open>crc/reader.rs\<close>), its writer (\<open>crc/writer.rs\<close>) and the conversion of its
  maps to the arrays of the JSON format (\<open>crc/mod.rs\<close>). Storage and the JSON (de)serialiser are parameters.
  Counts and sizes are \<open>i64\<close> and wrap.
\<close>

section \<open>Checksums and commit deltas\<close>

datatype validity = Valid | RequiresCheckpointRead | Indeterminate | Untrackable

record file_size_histogram =
  sorted_bin_boundaries :: "64 word list"
  file_counts :: "64 word list"
  total_bytes :: "64 word list"

record crc =
  crc_table_size_bytes :: "64 word"
  crc_num_files :: "64 word"
  num_metadata :: "64 word"
  num_protocol :: "64 word"
  crc_metadata :: metadata
  crc_protocol :: protocol
  file_stats_validity :: validity
  txn_id :: "string option"
  in_commit_timestamp_opt :: "64 word option"
  set_transactions :: "(string \<times> set_transaction) list option"
  crc_domain_metadata :: "(string \<times> domain_metadata) list option"
  file_size_histogram :: "file_size_histogram option"
  all_files :: "add_action list option"
  num_deleted_records_opt :: "64 word option"
  num_deletion_vectors_opt :: "64 word option"
  deleted_record_counts :: "64 word list option"

record file_stats =
  num_files :: "64 word"
  table_size_bytes :: "64 word"

definition crc_file_stats :: "crc \<Rightarrow> file_stats option" where
  "crc_file_stats c =
     (if file_stats_validity c = Valid
      then Some \<lparr> num_files = crc_num_files c, table_size_bytes = crc_table_size_bytes c \<rparr> else None)"

record file_stats_delta =
  net_files :: "64 word"
  net_bytes :: "64 word"

definition INCREMENTAL_SAFE_OPS :: "string list" where
  "INCREMENTAL_SAFE_OPS =
     [''WRITE'', ''MERGE'', ''UPDATE'', ''DELETE'', ''OPTIMIZE'', ''CREATE TABLE'', ''REPLACE TABLE'',
      ''CREATE TABLE AS SELECT'', ''REPLACE TABLE AS SELECT'', ''CREATE OR REPLACE TABLE AS SELECT'']"

definition is_incremental_safe :: "string \<Rightarrow> bool" where
  "is_incremental_safe operation \<longleftrightarrow> operation \<in> set INCREMENTAL_SAFE_OPS"

record crc_delta =
  delta_file_stats :: file_stats_delta
  delta_protocol :: "protocol option"
  delta_metadata :: "metadata option"
  domain_metadata_changes :: "domain_metadata list"
  delta_in_commit_timestamp :: "64 word option"
  operation :: "string option"
  has_missing_file_size :: bool

definition collect_map :: "('k \<times> 'v) list \<Rightarrow> ('k \<times> 'v) list" where
  "collect_map kvs = foldl (\<lambda>m (k, v). AList.update k v m) [] kvs"

definition into_crc_for_version_zero :: "crc_delta \<Rightarrow> crc option" where
  "into_crc_for_version_zero d =
     (case (delta_protocol d, delta_metadata d) of
        (Some p, Some m) \<Rightarrow>
          Some \<lparr> crc_table_size_bytes = net_bytes (delta_file_stats d), crc_num_files = net_files (delta_file_stats d),
            num_metadata = 1, num_protocol = 1, crc_metadata = m, crc_protocol = p, file_stats_validity = Valid,
            txn_id = None, in_commit_timestamp_opt = delta_in_commit_timestamp d, set_transactions = None,
            crc_domain_metadata = Some (collect_map (map (\<lambda>dm. (domain dm, dm))
              (filter (\<lambda>dm. \<not> removed dm) (domain_metadata_changes d)))),
            file_size_histogram = None, all_files = None, num_deleted_records_opt = None,
            num_deletion_vectors_opt = None, deleted_record_counts = None \<rparr>
      | _ \<Rightarrow> None)"

fun apply_domain_changes ::
  "domain_metadata list \<Rightarrow> (string \<times> domain_metadata) list \<Rightarrow> (string \<times> domain_metadata) list" where
  "apply_domain_changes [] m = m"
| "apply_domain_changes (dm # dms) m =
     apply_domain_changes dms (if removed dm then AList.delete (domain dm) m else AList.update (domain dm) dm m)"

definition apply_metadata_fields :: "crc_delta \<Rightarrow> crc \<Rightarrow> crc" where
  "apply_metadata_fields d c = c
     \<lparr> crc_protocol := unwrap_or (delta_protocol d) (crc_protocol c),
       crc_metadata := unwrap_or (delta_metadata d) (crc_metadata c),
       crc_domain_metadata :=
         (if domain_metadata_changes d = [] then crc_domain_metadata c
          else map_option (apply_domain_changes (domain_metadata_changes d)) (crc_domain_metadata c)),
       in_commit_timestamp_opt := delta_in_commit_timestamp d \<rparr>"

definition safe_operation :: "crc_delta \<Rightarrow> bool" where
  "safe_operation d = (case operation d of None \<Rightarrow> False | Some op \<Rightarrow> is_incremental_safe op)"

definition crc_apply :: "crc_delta \<Rightarrow> crc \<Rightarrow> crc" where
  "crc_apply d c0 =
     (let c = apply_metadata_fields d c0 in
      if file_stats_validity c = Untrackable then c
      else if has_missing_file_size d then c \<lparr> file_stats_validity := Untrackable \<rparr>
      else if file_stats_validity c = Indeterminate then c
      else if \<not> safe_operation d then c \<lparr> file_stats_validity := Indeterminate \<rparr>
      else c \<lparr> crc_num_files := crc_num_files c + net_files (delta_file_stats d),
               crc_table_size_bytes := crc_table_size_bytes c + net_bytes (delta_file_stats d) \<rparr>)"

section \<open>The file statistics of a transaction\<close>

record file_stats_visitor =
  selection_vector :: "bool list option"
  fs_offset :: nat
  fs_count :: "64 word"
  total_size :: "64 word"

definition file_stats_visitor_new :: "bool list option \<Rightarrow> file_stats_visitor" where
  "file_stats_visitor_new sv = \<lparr> selection_vector = sv, fs_offset = 0, fs_count = 0, total_size = 0 \<rparr>"

definition row_selected :: "bool list option \<Rightarrow> nat \<Rightarrow> bool" where
  "row_selected sv i = (case sv of None \<Rightarrow> True | Some v \<Rightarrow> if i < length v then v ! i else True)"

definition file_stats_row :: "getter list \<Rightarrow> nat \<Rightarrow> file_stats_visitor \<Rightarrow> file_stats_visitor delta_result" where
  "file_stats_row gs i v =
     (if row_selected (selection_vector v) (fs_offset v + i)
      then rbind (get_required (get_long (gs ! 0) i)) (\<lambda>size.
             Inr (v \<lparr> fs_count := fs_count v + 1, total_size := total_size v + size \<rparr>))
      else Inr v)"

definition file_stats_visit :: "engine_data \<Rightarrow> file_stats_visitor \<Rightarrow> file_stats_visitor delta_result" where
  "file_stats_visit d v =
     rbind (ed_getters d [[''size'']]) (\<lambda>gs.
     rbind (require (length gs = 1) (InternalError ''Wrong number of FileStatsVisitor getters'')) (\<lambda>_.
     rbind (visit_rows (file_stats_row gs) [0..<ed_len d] v) (\<lambda>v'.
       Inr (v' \<lparr> fs_offset := fs_offset v' + ed_len d \<rparr>))))"

fun visit_add_batches :: "engine_data list \<Rightarrow> file_stats_visitor \<Rightarrow> file_stats_visitor delta_result" where
  "visit_add_batches [] v = Inr v"
| "visit_add_batches (d # ds) v = rbind (file_stats_visit d v) (visit_add_batches ds)"

fun visit_remove_batches ::
  "(engine_data \<times> bool list) list \<Rightarrow> 64 word \<times> 64 word \<Rightarrow> (64 word \<times> 64 word) delta_result" where
  "visit_remove_batches [] acc = Inr acc"
| "visit_remove_batches ((d, sv) # ds) (count, bytes) =
     rbind (file_stats_visit d (file_stats_visitor_new (if sv = [] then None else Some sv))) (\<lambda>v.
       visit_remove_batches ds (count + fs_count v, bytes + total_size v))"

definition try_compute_for_txn ::
  "engine_data list \<Rightarrow> (engine_data \<times> bool list) list \<Rightarrow> file_stats_delta delta_result" where
  "try_compute_for_txn adds removes =
     rbind (visit_add_batches adds (file_stats_visitor_new None)) (\<lambda>a.
     rbind (visit_remove_batches removes (0, 0)) (\<lambda>(remove_count, remove_size).
       Inr \<lparr> net_files = fs_count a - remove_count, net_bytes = total_size a - remove_size \<rparr>))"

section \<open>The lazily loaded checksum\<close>

datatype crc_load_result = DoesNotExist | CorruptOrFailed | Loaded crc

fun load_get :: "crc_load_result \<Rightarrow> crc option" where
  "load_get (Loaded c) = Some c"
| "load_get _ = None"

record 'loc lazy_crc =
  crc_file :: "'loc parsed_log_path option"
  cached :: "crc_load_result option"
  precomputed_version :: "version option"

definition lazy_crc_new :: "'loc parsed_log_path option \<Rightarrow> 'loc lazy_crc" where
  "lazy_crc_new f = \<lparr> crc_file = f, cached = None, precomputed_version = None \<rparr>"

definition lazy_crc_new_precomputed :: "crc \<Rightarrow> version \<Rightarrow> 'loc lazy_crc" where
  "lazy_crc_new_precomputed c v = \<lparr> crc_file = None, cached = Some (Loaded c), precomputed_version = Some v \<rparr>"

definition crc_version :: "'loc lazy_crc \<Rightarrow> version option" where
  "crc_version lc = or_else (precomputed_version lc) (map_option version (crc_file lc))"

text \<open>\<open>try_read_crc_file\<close> reads the first chunk of the file; \<open>from_slice\<close> is the JSON deserialiser.\<close>

definition try_read_crc_file ::
  "('loc \<Rightarrow> 'bytes delta_result list delta_result) \<Rightarrow> ('bytes \<Rightarrow> crc delta_result) \<Rightarrow> 'loc parsed_log_path \<Rightarrow> crc delta_result" where
  "try_read_crc_file read_files from_slice path =
     rbind (read_files (location path)) (\<lambda>chunks.
     rbind (ok_or (first_opt chunks) (Generic ''CRC file read returned no data'')) (\<lambda>chunk.
     rbind chunk from_slice))"

text \<open>The \<open>OnceLock\<close>: the result of the first call is kept. \<open>read_crc\<close> is \<open>try_read_crc_file\<close> on the engine.\<close>

definition load_crc :: "('loc parsed_log_path \<Rightarrow> crc delta_result) \<Rightarrow> 'loc lazy_crc \<Rightarrow> crc_load_result" where
  "load_crc read_crc lc =
     (case cached lc of
        Some r \<Rightarrow> r
      | None \<Rightarrow>
          (case crc_file lc of
             None \<Rightarrow> DoesNotExist
           | Some path \<Rightarrow> (case read_crc path of Inr c \<Rightarrow> Loaded c | Inl _ \<Rightarrow> CorruptOrFailed)))"

definition get_or_load ::
  "('loc parsed_log_path \<Rightarrow> crc delta_result) \<Rightarrow> 'loc lazy_crc \<Rightarrow> crc_load_result \<times> 'loc lazy_crc" where
  "get_or_load read_crc lc = (load_crc read_crc lc, lc \<lparr> cached := Some (load_crc read_crc lc) \<rparr>)"

definition get_or_load_if_at_version ::
  "('loc parsed_log_path \<Rightarrow> crc delta_result) \<Rightarrow> 'loc lazy_crc \<Rightarrow> version \<Rightarrow> crc option \<times> 'loc lazy_crc" where
  "get_or_load_if_at_version read_crc lc v =
     (if crc_version lc \<noteq> Some v then (None, lc)
      else (case get_or_load read_crc lc of (r, lc') \<Rightarrow> (load_get r, lc')))"

definition get_if_loaded_at_version :: "'loc lazy_crc \<Rightarrow> version \<Rightarrow> crc option" where
  "get_if_loaded_at_version lc v =
     (if crc_version lc \<noteq> Some v then None else Option.bind (cached lc) load_get)"

definition is_loaded :: "'loc lazy_crc \<Rightarrow> bool" where
  "is_loaded lc \<longleftrightarrow> cached lc \<noteq> None"

definition try_write_crc_file ::
  "(crc \<Rightarrow> 'bytes delta_result) \<Rightarrow> ('url \<Rightarrow> 'bytes \<Rightarrow> bool \<Rightarrow> unit delta_result) \<Rightarrow> 'url \<Rightarrow> crc \<Rightarrow> unit delta_result" where
  "try_write_crc_file to_vec put path c =
     rbind (require (file_stats_validity c = Valid)
       (ChecksumWriteUnsupported ''Cannot write CRC file with invalid file stats'')) (\<lambda>_.
     rbind (to_vec c) (\<lambda>data. put path data False))"

text \<open>The arrays of the JSON format and the maps in memory; \<open>hash_order\<close> is the order the map iterates in.\<close>

definition de_opt_vec_to_opt_map :: "('v \<Rightarrow> string) \<Rightarrow> 'v list option \<Rightarrow> (string \<times> 'v) list option" where
  "de_opt_vec_to_opt_map map_key vs = map_option (\<lambda>xs. collect_map (map (\<lambda>x. (map_key x, x)) xs)) vs"

definition ser_opt_map_to_opt_vec ::
  "((string \<times> 'v) list \<Rightarrow> (string \<times> 'v) list) \<Rightarrow> (string \<times> 'v) list option \<Rightarrow> 'v list option" where
  "ser_opt_map_to_opt_vec hash_order m = map_option (\<lambda>kvs. map snd (hash_order kvs)) m"

section \<open>Advancing a checksum\<close>

definition crc_replay :: "crc_delta list \<Rightarrow> crc \<Rightarrow> crc" where
  "crc_replay ds c = foldl (\<lambda>c d. crc_apply d c) c ds"

lemma crc_replay_simps [simp]:
  "crc_replay [] c = c"
  "crc_replay (d # ds) c = crc_replay ds (crc_apply d c)"
  by (simp_all add: crc_replay_def)

lemma crc_replay_snoc: "crc_replay (ds @ [d]) c = crc_apply d (crc_replay ds c)"
  by (simp add: crc_replay_def)

lemma crc_apply_metadata_fields [simp]:
  "crc_protocol (crc_apply d c) = unwrap_or (delta_protocol d) (crc_protocol c)"
  "crc_metadata (crc_apply d c) = unwrap_or (delta_metadata d) (crc_metadata c)"
  "in_commit_timestamp_opt (crc_apply d c) = delta_in_commit_timestamp d"
  "crc_domain_metadata (crc_apply d c) =
     map_option (apply_domain_changes (domain_metadata_changes d)) (crc_domain_metadata c)"
  by (simp_all add: crc_apply_def apply_metadata_fields_def Let_def option.map_id0 cong: if_cong)
    (cases "crc_domain_metadata c", auto)

definition tracked_delta :: "crc_delta \<Rightarrow> bool" where
  "tracked_delta d \<longleftrightarrow> \<not> has_missing_file_size d \<and> safe_operation d"

lemma crc_apply_tracked:
  assumes "tracked_delta d" "file_stats_validity c = Valid"
  shows "file_stats_validity (crc_apply d c) = Valid"
    "crc_num_files (crc_apply d c) = crc_num_files c + net_files (delta_file_stats d)"
    "crc_table_size_bytes (crc_apply d c) = crc_table_size_bytes c + net_bytes (delta_file_stats d)"
  using assms by (simp_all add: crc_apply_def apply_metadata_fields_def tracked_delta_def)

lemma crc_apply_untracked: "\<not> tracked_delta d \<or> file_stats_validity c \<noteq> Valid \<Longrightarrow> file_stats_validity (crc_apply d c) \<noteq> Valid"
  by (auto simp: crc_apply_def apply_metadata_fields_def tracked_delta_def Let_def)

lemma crc_replay_invalid: "file_stats_validity c \<noteq> Valid \<Longrightarrow> file_stats_validity (crc_replay ds c) \<noteq> Valid"
  by (induction ds arbitrary: c) (simp_all add: crc_apply_untracked)

text \<open>
  C15. The file statistics of a checksum that was advanced over any number of commits are exact or absent. They
  are there precisely when the checksum it started from had valid ones and every commit was a known incremental
  operation whose file actions all had sizes, and then they are the old totals plus the net changes of all the
  commits; after any other commit no later one brings them back.
\<close>

theorem crc_file_stats_exact:
  "crc_file_stats (crc_replay ds c) =
     (if file_stats_validity c = Valid \<and> list_all tracked_delta ds
      then Some \<lparr> num_files = crc_num_files c + (\<Sum>d \<leftarrow> ds. net_files (delta_file_stats d)),
                  table_size_bytes = crc_table_size_bytes c + (\<Sum>d \<leftarrow> ds. net_bytes (delta_file_stats d)) \<rparr>
      else None)"
proof (induction ds arbitrary: c)
  case (Cons d ds)
  show ?case
  proof (cases "tracked_delta d \<and> file_stats_validity c = Valid")
    case True
    then show ?thesis using Cons.IH [of "crc_apply d c"] crc_apply_tracked [of d c] by (simp add: add.assoc)
  next
    case False
    then have "file_stats_validity (crc_replay ds (crc_apply d c)) \<noteq> Valid"
      using crc_apply_untracked crc_replay_invalid by blast
    then show ?thesis using False by (auto simp: crc_file_stats_def)
  qed
qed (simp add: crc_file_stats_def)

text \<open>
  A checksum can be written only with valid statistics, and an existing file is never overwritten.
\<close>

lemma try_write_crc_file_valid:
  "try_write_crc_file to_vec put path c = Inr u \<Longrightarrow>
   crc_file_stats c \<noteq> None \<and> (\<exists>data. to_vec c = Inr data \<and> put path data False = Inr u)"
  by (auto simp: try_write_crc_file_def crc_file_stats_def result_simps)

section \<open>The domains of a checksum\<close>

lemma map_of_apply_domain_changes:
  assumes "distinct (map domain dms)"
  shows "map_of (apply_domain_changes dms m) d =
    (case map_of (map (\<lambda>dm. (domain dm, dm)) dms) d of
       None \<Rightarrow> map_of m d | Some dm \<Rightarrow> if removed dm then None else Some dm)"
  using assms
proof (induction dms arbitrary: m)
  case (Cons dm dms)
  have "map_of (map (\<lambda>dm. (domain dm, dm)) dms) (domain dm) = None"
    using Cons.prems by (auto simp: map_of_eq_None_iff)
  then show ?case using Cons by (auto simp: update_conv' delete_conv' split: option.splits)
qed simp

text \<open>The domain metadata of the commits, newest commit first.\<close>

definition domain_changes_log :: "crc_delta list \<Rightarrow> (string \<times> domain_metadata) list" where
  "domain_changes_log ds = concat (map (\<lambda>d. map (\<lambda>dm. (domain dm, dm)) (domain_metadata_changes d)) (rev ds))"

lemma crc_replay_domains:
  assumes "crc_domain_metadata c = Some m" "\<forall>x \<in> set ds. distinct (map domain (domain_metadata_changes x))"
  shows "\<exists>m'. crc_domain_metadata (crc_replay ds c) = Some m' \<and>
    (\<forall>d. map_of m' d = (case map_of (domain_changes_log ds) d of
       None \<Rightarrow> map_of m d | Some dm \<Rightarrow> if removed dm then None else Some dm))"
  using assms(2)
proof (induction ds rule: rev_induct)
  case Nil
  then show ?case using assms(1) by (simp add: domain_changes_log_def)
next
  case (snoc x ds)
  then obtain m' where m': "crc_domain_metadata (crc_replay ds c) = Some m'"
    "\<And>d. map_of m' d = (case map_of (domain_changes_log ds) d of
       None \<Rightarrow> map_of m d | Some dm \<Rightarrow> if removed dm then None else Some dm)" by auto
  have "domain_changes_log (ds @ [x]) = map (\<lambda>dm. (domain dm, dm)) (domain_metadata_changes x) @ domain_changes_log ds"
    by (simp add: domain_changes_log_def)
  then show ?case using m' snoc.prems
    by (auto simp: crc_replay_snoc map_of_apply_domain_changes map_add_def split: option.splits)
qed

text \<open>
  C16. The domain metadata of a checksum that was advanced over the commits of a log agrees with a scan of that
  log: for every domain, what the checksum holds is what the newest action of the commits says, a tombstone
  meaning that it is gone, and otherwise what the scan of the older part of the log had found. The scan takes
  the first action of a batch and the checksum the last, so this is for commits that mention a domain once.
\<close>

theorem crc_domains_match_scan:
  assumes "decode_log domain_action domain_columns older = Inr log"
    and "decode_log domain_action domain_columns (newer @ older) = Inr (domain_changes_log ds @ log)"
    and "\<forall>x \<in> set ds. distinct (map domain (domain_metadata_changes x))"
    and "scan_domain_metadatas None (Inr older) = Inr base" "crc_domain_metadata c = Some base"
  shows "\<exists>dms m. scan_domain_metadatas None (Inr (newer @ older)) = Inr dms \<and>
    crc_domain_metadata (crc_replay ds c) = Some m \<and> map_of m = map_of dms"
proof -
  have scan: "map_of (into_domain_metadatas (first_wins (\<lambda>e. requested_domain None (fst e)) l [])) d =
      (case map_of l d of None \<Rightarrow> None | Some m \<Rightarrow> if removed m then None else Some m)" for l d
    by (simp add: map_of_into_domain_metadatas distinct_first_wins map_of_first_wins requested_domain_def)
  have b: "base = into_domain_metadatas (first_wins (\<lambda>e. requested_domain None (fst e)) log [])"
    using domain_scan [OF assms(1), of None] assms(4) by simp
  obtain m' where m': "crc_domain_metadata (crc_replay ds c) = Some m'"
    "\<And>d. map_of m' d = (case map_of (domain_changes_log ds) d of
       None \<Rightarrow> map_of base d | Some dm \<Rightarrow> if removed dm then None else Some dm)"
    using crc_replay_domains [OF assms(5,3)] by blast
  have "map_of m' = map_of (into_domain_metadatas (first_wins (\<lambda>e. requested_domain None (fst e)) (domain_changes_log ds @ log) []))"
    unfolding scan m'(2) b by (rule ext) (simp add: map_add_def m'(2) b scan split: option.splits)
  then show ?thesis using m'(1) domain_scan [OF assms(2), of None] by simp
qed

section \<open>The statistics of a transaction are exact\<close>

lemma visit_rows_append: "visit_rows f (is @ js) s = rbind (visit_rows f is s) (visit_rows f js)"
  by (induction "is" arbitrary: s) (auto simp: rbind_def split: sum.splits)

definition batch_sizes :: "engine_data \<Rightarrow> 64 word list \<Rightarrow> bool" where
  "batch_sizes d sizes \<longleftrightarrow> length sizes = ed_len d \<and>
     (\<exists>g. ed_getters d [[''size'']] = Inr [g] \<and> (\<forall>i < ed_len d. get_long g i = Inr (Some (sizes ! i))))"

definition selected_sizes :: "bool list option \<Rightarrow> 64 word list \<Rightarrow> 64 word list" where
  "selected_sizes sv sizes = nths sizes {i. row_selected sv i}"

lemma file_stats_rows:
  assumes "\<forall>i < n. get_long g i = Inr (Some (sizes ! i))" "n \<le> length sizes" "fs_offset v = 0 \<or> selection_vector v = None"
  shows "visit_rows (file_stats_row [g]) [0..<n] v =
    Inr (v \<lparr> fs_count := fs_count v + of_nat (length (selected_sizes (selection_vector v) (take n sizes))),
             total_size := total_size v + sum_list (selected_sizes (selection_vector v) (take n sizes)) \<rparr>)"
  using assms
proof (induction n)
  case (Suc n)
  have "take (Suc n) sizes = take n sizes @ [sizes ! n]" using Suc.prems(2) by (simp add: take_Suc_conv_app_nth)
  moreover have "row_selected (selection_vector v) (fs_offset v + n) = row_selected (selection_vector v) n"
    using Suc.prems(3) by (elim disjE) (simp_all add: row_selected_def)
  ultimately show ?case using Suc
    by (simp add: visit_rows_append file_stats_row_def selected_sizes_def nths_append get_required_def ok_or_def
        add.assoc add.commute [of 1])
qed (simp add: selected_sizes_def)

lemma file_stats_visit_sizes:
  assumes "batch_sizes d sizes" "fs_offset v = 0 \<or> selection_vector v = None"
  shows "file_stats_visit d v =
    Inr (v \<lparr> fs_offset := fs_offset v + ed_len d,
             fs_count := fs_count v + of_nat (length (selected_sizes (selection_vector v) sizes)),
             total_size := total_size v + sum_list (selected_sizes (selection_vector v) sizes) \<rparr>)"
proof -
  obtain g where g: "ed_getters d [[''size'']] = Inr [g]" "\<forall>i < ed_len d. get_long g i = Inr (Some (sizes ! i))"
    and l: "length sizes = ed_len d" using assms(1) by (auto simp: batch_sizes_def)
  show ?thesis using file_stats_rows [OF g(2) _ assms(2)] g(1) l by (simp add: file_stats_visit_def require_def)
qed

lemma selected_None [simp]: "selected_sizes None sizes = sizes"
  by (simp add: selected_sizes_def row_selected_def nths_all)

lemma visit_add_batches_sizes:
  assumes "list_all2 batch_sizes adds szs" "selection_vector v = None"
  shows "\<exists>v'. visit_add_batches adds v = Inr v' \<and> fs_count v' = fs_count v + of_nat (length (concat szs)) \<and>
    total_size v' = total_size v + sum_list (concat szs)"
  using assms
proof (induction adds szs arbitrary: v rule: list_all2_induct)
  case (Cons d ds sz szs)
  show ?case using Cons.IH [of "the (Some (projr (file_stats_visit d v)))"] file_stats_visit_sizes [OF Cons.hyps(1)] Cons.prems
    by (auto simp: add.assoc)
qed auto

definition removed_sizes :: "bool list \<Rightarrow> 64 word list \<Rightarrow> 64 word list" where
  "removed_sizes sv sizes = selected_sizes (if sv = [] then None else Some sv) sizes"

lemma visit_remove_batches_sizes:
  assumes "list_all2 (\<lambda>r. batch_sizes (fst r)) removes szs"
  shows "visit_remove_batches removes (n, b) =
    Inr (n + of_nat (length (concat (map2 (\<lambda>r. removed_sizes (snd r)) removes szs))),
         b + sum_list (concat (map2 (\<lambda>r. removed_sizes (snd r)) removes szs)))"
  using assms
proof (induction removes szs arbitrary: n b rule: list_all2_induct)
  case (Cons r rs sz szs)
  obtain d sv where r: "r = (d, sv)" by (cases r)
  show ?case using Cons.IH file_stats_visit_sizes [OF Cons.hyps(1), of "file_stats_visitor_new (if sv = [] then None else Some sv)"]
    by (simp add: r file_stats_visitor_new_def removed_sizes_def add.assoc del: if_split)
qed simp

text \<open>
  C20. The statistics a transaction records for its checksum are exact, modulo the width of the counters: the
  number of added rows minus the number of selected removed rows and the difference of their sizes, where a
  selection vector shorter than its batch (or empty) selects the rows beyond it.
\<close>

theorem transaction_file_stats_exact:
  assumes "list_all2 batch_sizes adds added" "list_all2 (\<lambda>r. batch_sizes (fst r)) removes szs"
    and "gone = concat (map2 (\<lambda>r. removed_sizes (snd r)) removes szs)"
  shows "try_compute_for_txn adds removes =
    Inr \<lparr> net_files = of_nat (length (concat added)) - of_nat (length gone),
          net_bytes = sum_list (concat added) - sum_list gone \<rparr>"
proof -
  obtain v where "visit_add_batches adds (file_stats_visitor_new None) = Inr v"
    "fs_count v = of_nat (length (concat added))" "total_size v = sum_list (concat added)"
    using visit_add_batches_sizes [OF assms(1), of "file_stats_visitor_new None"] by (auto simp: file_stats_visitor_new_def)
  then show ?thesis using visit_remove_batches_sizes [OF assms(2), of 0 0] assms(3)
    by (simp add: try_compute_for_txn_def)
qed

section \<open>The JSON arrays\<close>

lemma map_of_collect_map: "map_of (foldl (\<lambda>m (k, v). AList.update k v m) m kvs) = map_of m ++ map_of (rev kvs)"
  by (induction kvs arbitrary: m) (auto simp: update_conv' map_add_def fun_eq_iff split: option.splits)

lemma crc_map_roundtrip:
  assumes "distinct (map fst m)" "\<forall>(k, v) \<in> set m. map_key v = k"
    and "set (hash_order m) = set m" "distinct (map fst (hash_order m))"
  shows "\<exists>m'. de_opt_vec_to_opt_map map_key (ser_opt_map_to_opt_vec hash_order (Some m)) = Some m' \<and> map_of m' = map_of m"
proof -
  have "map ((\<lambda>x. (map_key x, x)) \<circ> snd) (hash_order m) = hash_order m"
    using assms(2,3) by (intro map_idI) auto
  moreover have "map_of (rev (hash_order m)) = map_of m"
  proof (rule map_of_inject_set [THEN iffD2])
    show "distinct (map fst (rev (hash_order m)))" using assms(4) by (simp add: rev_map [symmetric])
  qed (use assms in simp_all)
  ultimately show ?thesis
    by (simp add: de_opt_vec_to_opt_map_def ser_opt_map_to_opt_vec_def collect_map_def map_of_collect_map)
qed

section \<open>Witnesses\<close>

definition delta_of :: "domain_metadata list \<Rightarrow> crc_delta" where
  "delta_of dms = \<lparr> delta_file_stats = \<lparr> net_files = 1, net_bytes = 10 \<rparr>, delta_protocol = Some example_protocol,
     delta_metadata = Some (example_metadata ''s''), domain_metadata_changes = dms, delta_in_commit_timestamp = None,
     operation = Some ''WRITE'', has_missing_file_size = False \<rparr>"

theorem crc_domains_match_scan_witness:
  "\<exists>c dms m. into_crc_for_version_zero (delta_of [domain_metadata_new ''b'' ''0'']) = Some c \<and>
     scan_domain_metadatas None
       (Inr [domain_data [(''b'', ''2'', True), (''a'', ''1'', False)], domain_data [(''b'', ''0'', False)]]) = Inr dms \<and>
     crc_domain_metadata (crc_replay [delta_of [domain_metadata_remove ''b'' ''2'', domain_metadata_new ''a'' ''1'']] c) = Some m \<and>
     map_of m = map_of dms"
proof -
  let ?dm = "\<lparr> domain = ''b'', domain_configuration = ''0'', removed = False \<rparr>"
  obtain c where c: "into_crc_for_version_zero (delta_of [domain_metadata_new ''b'' ''0'']) = Some c"
    "crc_domain_metadata c = Some [(''b'', ?dm)]"
    by (simp add: into_crc_for_version_zero_def delta_of_def collect_map_def domain_metadata_new_def)
  note dec = domain_data_def domain_action_def visit_domain_metadata_def decode_simps
  have older: "decode_log domain_action domain_columns [domain_data [(''b'', ''0'', False)]] = Inr [(''b'', ?dm)]"
    by (simp add: dec)
  have all: "decode_log domain_action domain_columns
      ([domain_data [(''b'', ''2'', True), (''a'', ''1'', False)]] @ [domain_data [(''b'', ''0'', False)]]) =
    Inr (domain_changes_log [delta_of [domain_metadata_remove ''b'' ''2'', domain_metadata_new ''a'' ''1'']] @ [(''b'', ?dm)])"
    by (simp add: dec domain_changes_log_def delta_of_def domain_metadata_new_def domain_metadata_remove_def)
  have base: "scan_domain_metadatas None (Inr [domain_data [(''b'', ''0'', False)]]) = Inr [(''b'', ?dm)]"
    using domain_scan [OF older, of None] by (simp add: requested_domain_def into_domain_metadatas_def)
  have distinct: "\<forall>x \<in> set [delta_of [domain_metadata_remove ''b'' ''2'', domain_metadata_new ''a'' ''1'']].
      distinct (map domain (domain_metadata_changes x))"
    by (simp add: delta_of_def domain_metadata_new_def domain_metadata_remove_def)
  show ?thesis
    using crc_domains_match_scan [OF older all distinct base c(2)] c(1) by auto
qed

definition size_data :: "64 word list \<Rightarrow> engine_data" where
  "size_data sizes = \<lparr> ed_len = length sizes,
     ed_getters = \<lambda>_. Inr [null_getter\<lparr> get_long := \<lambda>i. Inr (Some (sizes ! i)) \<rparr>] \<rparr>"

lemma size_data_sizes: "batch_sizes (size_data sizes) sizes"
  by (simp add: batch_sizes_def size_data_def)

theorem transaction_file_stats_exact_witness:
  "try_compute_for_txn [size_data [100, 200], size_data [300]]
     [(size_data [400, 500], []), (size_data [600, 700, 800], [False, True])] =
   Inr \<lparr> net_files = - 1, net_bytes = - 1800 \<rparr>"
proof -
  let ?removes = "[(size_data [400, 500], []), (size_data [600, 700, 800], [False, True])]"
  have a: "list_all2 batch_sizes [size_data [100, 200], size_data [300]] [[100, 200], [300]]"
    by (simp add: size_data_sizes)
  have r: "list_all2 (\<lambda>r. batch_sizes (fst r)) ?removes [[400, 500], [600, 700, 800]]" by (simp add: size_data_sizes)
  have "concat (map2 (\<lambda>r. removed_sizes (snd r)) ?removes [[400, 500], [600, 700, 800]]) = [400, 500, 700, 800]"
    by (simp add: removed_sizes_def selected_sizes_def row_selected_def nths_Cons)
  from transaction_file_stats_exact [OF a r this [symmetric]] show ?thesis by simp
qed

end
