(* ===== verification/ProtocolReplay.thy ===== *)
theory ProtocolReplay
  imports Checksum LogSegment
begin

text \<open>
  Reading the protocol and the metadata of a log segment (\<open>log_segment/protocol_metadata_replay.rs\<close>): the
  commits of its cover, newest first, then its checkpoint, or a checksum in place of the part of the log it
  stands for. The handlers that read files are parameters; they are taken at the projection of the log to the
  protocol and metadata columns, which the engine applies.
\<close>

section \<open>Reading the actions of a segment\<close>

record 'loc handlers =
  read_json_files :: "'loc list \<Rightarrow> engine_data delta_result list delta_result"
  read_parquet_files :: "'loc list \<Rightarrow> engine_data delta_result list delta_result"

definition actions_batch_new :: "bool \<Rightarrow> engine_data delta_result \<Rightarrow> actions_batch delta_result" where
  "actions_batch_new is_log d = rbind d (\<lambda>x. Inr \<lparr> ab_actions = x, ab_is_log_batch = is_log \<rparr>)"

definition commit_reader ::
  "'loc handlers \<Rightarrow> ('url, 'loc, 'schema) log_segment \<Rightarrow> actions_batch delta_result list delta_result" where
  "commit_reader h seg =
     rbind (read_json_files h (find_commit_cover seg)) (\<lambda>ds. Inr (map (actions_batch_new True) ds))"

text \<open>The checkpoint stream of a schema without file actions: no sidecars are read.\<close>

definition create_checkpoint_stream ::
  "'loc handlers \<Rightarrow> ('url, 'loc, 'schema) log_segment \<Rightarrow> actions_batch delta_result list delta_result" where
  "create_checkpoint_stream h seg =
     (let parts = checkpoint_parts (listed seg); files = map location parts in
      rbind
        (case first_opt parts of
           None \<Rightarrow> Inr []
         | Some p \<Rightarrow>
             if extension p = ''json'' then read_json_files h files
             else if extension p = ''parquet'' then read_parquet_files h files
             else Inl (Generic ''Unsupported checkpoint file type''))
        (\<lambda>ds. Inr (map (actions_batch_new False) ds)))"

definition read_actions ::
  "'loc handlers \<Rightarrow> ('url, 'loc, 'schema) log_segment \<Rightarrow> actions_batch delta_result list delta_result" where
  "read_actions h seg =
     rbind (commit_reader h seg) (\<lambda>commits. rbind (create_checkpoint_stream h seg) (\<lambda>cp. Inr (commits @ cp)))"

section \<open>Protocol and metadata\<close>

text \<open>
  The checksum is loaded at most once: the loader is threaded through, and the second component of the
  result is its state afterwards.
\<close>

definition read_protocol_metadata_opt ::
  "('loc parsed_log_path \<Rightarrow> crc delta_result) \<Rightarrow> 'loc handlers \<Rightarrow> ('url, 'loc, 'schema) log_segment \<Rightarrow> 'loc lazy_crc \<Rightarrow>
   pm delta_result \<times> 'loc lazy_crc" where
  "read_protocol_metadata_opt read_crc h seg lc =
     (let replay = (\<lambda>lc1.
            case crc_version lc1 of
              Some crc_v \<Rightarrow>
                if crc_v < end_version seg then
                  (case replay_for_pm (read_actions h (segment_after_crc seg crc_v)) (None, None) of
                     Inl e \<Rightarrow> (Inl e, lc1)
                   | Inr (m, p) \<Rightarrow>
                       if m \<noteq> None \<and> p \<noteq> None then (Inr (m, p), lc1)
                       else
                         (case get_or_load read_crc lc1 of
                            (Loaded c, lc2) \<Rightarrow>
                              (Inr (or_else m (Some (crc_metadata c)), or_else p (Some (crc_protocol c))), lc2)
                          | (_, lc2) \<Rightarrow> (replay_for_pm (read_actions h (segment_through_crc seg crc_v)) (m, p), lc2)))
                else (replay_for_pm (read_actions h seg) (None, None), lc1)
            | None \<Rightarrow> (replay_for_pm (read_actions h seg) (None, None), lc1)) in
      if crc_version lc = Some (end_version seg) then
        (case get_or_load read_crc lc of
           (Loaded c, lc1) \<Rightarrow> (Inr (Some (crc_metadata c), Some (crc_protocol c)), lc1)
         | (_, lc1) \<Rightarrow> replay lc1)
      else replay lc)"

definition read_protocol_metadata ::
  "('loc parsed_log_path \<Rightarrow> crc delta_result) \<Rightarrow> 'loc handlers \<Rightarrow> ('url, 'loc, 'schema) log_segment \<Rightarrow> 'loc lazy_crc \<Rightarrow>
   (metadata \<times> protocol) delta_result \<times> 'loc lazy_crc" where
  "read_protocol_metadata read_crc h seg lc =
     (case read_protocol_metadata_opt read_crc h seg lc of
        (r, lc') \<Rightarrow>
          (rbind r (\<lambda>mp.
             case mp of
               (Some m, Some p) \<Rightarrow> Inr (m, p)
             | (None, Some _) \<Rightarrow> Inl MissingMetadata
             | (Some _, None) \<Rightarrow> Inl MissingProtocol
             | (None, None) \<Rightarrow> Inl MissingMetadataAndProtocol), lc'))"

section \<open>The history of a table\<close>

text \<open>
  What the versions of a table hold, as a function: the newest value at the versions from \<open>a\<close> up to below \<open>e\<close>.
\<close>

fun newest :: "(nat \<Rightarrow> 'a option) \<Rightarrow> nat \<Rightarrow> nat \<Rightarrow> 'a option" where
  "newest f a 0 = None"
| "newest f a (Suc e) = (if a \<le> e then or_else (f e) (newest f a e) else None)"

declare newest.simps(2) [simp del]

lemma newest_empty [simp]: "e \<le> a \<Longrightarrow> newest f a e = None"
  by (cases e) (auto simp: newest.simps)

lemma newest_split: "a \<le> b \<Longrightarrow> b \<le> e \<Longrightarrow> newest f a e = or_else (newest f b e) (newest f a b)"
proof (induction e)
  case (Suc e)
  show ?case
  proof (cases "b = Suc e")
    case False
    then show ?thesis using Suc by (simp add: newest.simps or_else_assoc)
  qed simp
qed simp

text \<open>The batches decode, and the first metadata and the first protocol they hold are \<open>m\<close> and \<open>p\<close>.\<close>

definition pm_decodes :: "actions_batch delta_result list \<Rightarrow> metadata option \<Rightarrow> protocol option \<Rightarrow> bool" where
  "pm_decodes bs m p \<longleftrightarrow>
     (\<exists>ms ps. decode_log metadata_action metadata_columns bs = Inr ms \<and> first_opt ms = m \<and>
              decode_log protocol_action protocol_columns bs = Inr ps \<and> first_opt ps = p)"

lemma decode_log_append:
  "decode_log f cols bs = Inr xs \<Longrightarrow> decode_log f cols cs = Inr ys \<Longrightarrow> decode_log f cols (bs @ cs) = Inr (xs @ ys)"
proof (induction bs arbitrary: xs)
  case (Cons b bs)
  then show ?case by (auto simp: result_simps)
qed simp

lemma pm_decodes_append:
  assumes "pm_decodes bs m p" "pm_decodes cs m' p'"
  shows "pm_decodes (bs @ cs) (or_else m m') (or_else p p')"
proof -
  obtain ms ps where 1: "decode_log metadata_action metadata_columns bs = Inr ms" "first_opt ms = m"
    "decode_log protocol_action protocol_columns bs = Inr ps" "first_opt ps = p"
    using assms(1) unfolding pm_decodes_def by blast
  obtain ms' ps' where 2: "decode_log metadata_action metadata_columns cs = Inr ms'" "first_opt ms' = m'"
    "decode_log protocol_action protocol_columns cs = Inr ps'" "first_opt ps' = p'"
    using assms(2) unfolding pm_decodes_def by blast
  show ?thesis unfolding pm_decodes_def
    using decode_log_append [OF 1(1) 2(1)] decode_log_append [OF 1(3) 2(3)] 1(2,4) 2(2,4)
    by (intro exI [of _ "ms @ ms'"] exI [of _ "ps @ ps'"]) (simp add: first_opt_append)
qed

lemma pm_decodes_Nil [simp]: "pm_decodes [] None None"
  by (simp add: pm_decodes_def)

lemma pm_decodes_replay: "pm_decodes bs m p \<Longrightarrow> replay_for_pm (Inr bs) st = Inr (or_else (fst st) m, or_else (snd st) p)"
  using replay_newest unfolding pm_decodes_def by blast

text \<open>
  The contract of the engine's handlers and of the files of a segment: the data of the files comes in the order
  they are named in; a commit or compacted commit gives the newest metadata and protocol of its versions, and
  the parts of the checkpoint those of all the versions up to it.
\<close>

definition batches_of :: "bool \<Rightarrow> ('loc \<Rightarrow> engine_data list) \<Rightarrow> 'loc list \<Rightarrow> actions_batch delta_result list" where
  "batches_of is_log contents files = map (\<lambda>d. Inr \<lparr> ab_actions = d, ab_is_log_batch = is_log \<rparr>) (concat (map contents files))"

definition reads_in_order :: "'loc handlers \<Rightarrow> ('loc \<Rightarrow> engine_data list) \<Rightarrow> bool" where
  "reads_in_order h contents \<longleftrightarrow>
     (\<forall>files. read_json_files h files = Inr (map Inr (concat (map contents files))) \<and>
              read_parquet_files h files = Inr (map Inr (concat (map contents files))))"

definition files_hold ::
  "('loc \<Rightarrow> engine_data list) \<Rightarrow> (nat \<Rightarrow> metadata option) \<Rightarrow> (nat \<Rightarrow> protocol option) \<Rightarrow>
   ('url, 'loc, 'schema) log_segment \<Rightarrow> bool" where
  "files_hold contents ms ps seg \<longleftrightarrow>
     (\<forall>f \<in> set (ascending_commit_files (listed seg)) \<union> set (ascending_compaction_files (listed seg)).
        pm_decodes (batches_of True contents [location f])
          (newest ms (lo_nat f) (Suc (hi_nat f))) (newest ps (lo_nat f) (Suc (hi_nat f)))) \<and>
     (\<forall>v. checkpoint_version seg = Some v \<longrightarrow>
        (\<exists>p. first_opt (checkpoint_parts (listed seg)) = Some p \<and> extension p \<in> {''json'', ''parquet''}) \<and>
        pm_decodes (batches_of False contents (map location (checkpoint_parts (listed seg))))
          (newest ms 0 (Suc (unat v))) (newest ps 0 (Suc (unat v))))"

lemma batches_of_append [simp]: "batches_of b contents (xs @ ys) = batches_of b contents xs @ batches_of b contents ys"
  by (simp add: batches_of_def)

lemma batches_of_Nil [simp]: "batches_of b contents [] = []"
  by (simp add: batches_of_def)

lemma covers_le: "covers a fs e \<Longrightarrow> a \<le> e"
  by (induction a fs e rule: covers.induct) auto

lemma cover_decodes:
  assumes "covers a fs e"
    and "\<forall>f \<in> set fs. pm_decodes (batches_of True contents [location f])
      (newest ms (lo_nat f) (Suc (hi_nat f))) (newest ps (lo_nat f) (Suc (hi_nat f)))"
  shows "pm_decodes (batches_of True contents (rev (map location fs))) (newest ms a e) (newest ps a e)"
  using assms
proof (induction a fs e rule: covers.induct)
  case (2 a f fs e)
  let ?b = "Suc (hi_nat f)"
  have b: "a \<le> ?b" "?b \<le> e" "lo_nat f = a" using 2(2) covers_le by auto
  have "pm_decodes (batches_of True contents (rev (map location fs)) @ batches_of True contents [location f])
      (or_else (newest ms ?b e) (newest ms a ?b)) (or_else (newest ps ?b e) (newest ps a ?b))"
    using 2 b by (intro pm_decodes_append) auto
  then show ?case unfolding newest_split [OF b(1,2), symmetric] by simp
qed simp

section \<open>A segment gives the state of its end version\<close>

lemma commit_reader_decodes:
  assumes "reads_in_order h contents" "find_commit_cover seg = rev (map location fs)"
  shows "commit_reader h seg = Inr (batches_of True contents (rev (map location fs)))"
  using assms by (simp add: commit_reader_def reads_in_order_def batches_of_def actions_batch_new_def comp_def)

lemma checkpoint_stream_decodes:
  assumes "reads_in_order h contents" "segment_inv seg" "files_hold contents ms ps seg"
  shows "create_checkpoint_stream h seg = Inr (batches_of False contents (map location (checkpoint_parts (listed seg))))"
proof (cases "first_opt (checkpoint_parts (listed seg))")
  case (Some p)
  then have "extension p \<in> {''json'', ''parquet''}"
    using assms(3) segment_invD(6) [OF assms(2)] by (auto simp: files_hold_def)
  then show ?thesis using assms(1) Some
    by (auto simp: create_checkpoint_stream_def Let_def reads_in_order_def batches_of_def actions_batch_new_def comp_def)
qed (simp add: create_checkpoint_stream_def)

text \<open>
  A segment whose commits are the versions from \<open>a\<close> to its end, right after its checkpoint when it has one;
  \<open>base\<close> is what the checkpoint answers for.
\<close>

definition ranged :: "nat \<Rightarrow> ('url, 'loc, 'schema) log_segment \<Rightarrow> bool" where
  "ranged a seg \<longleftrightarrow> segment_inv seg \<and> compactions_in_range seg \<and>
     commit_versions seg = [a..<Suc (unat (end_version seg))] \<and> a \<le> Suc (unat (end_version seg)) \<and>
     (\<forall>v. checkpoint_version seg = Some v \<longrightarrow> a = Suc (unat v))"

definition base :: "(nat \<Rightarrow> 'a option) \<Rightarrow> ('url, 'loc, 'schema) log_segment \<Rightarrow> 'a option" where
  "base f seg = (case checkpoint_version seg of None \<Rightarrow> None | Some v \<Rightarrow> newest f 0 (Suc (unat v)))"

lemma ranged_inv: "ranged a seg \<Longrightarrow> segment_inv seg"
  by (simp add: ranged_def)

lemma checkpoint_holds:
  assumes "segment_inv seg" "files_hold contents ms ps seg"
  shows "pm_decodes (batches_of False contents (map location (checkpoint_parts (listed seg)))) (base ms seg) (base ps seg)"
proof (cases "checkpoint_version seg")
  case None
  then have "checkpoint_parts (listed seg) = []" using segment_invD(6) [OF assms(1)] by simp
  then show ?thesis using None by (simp add: base_def)
qed (use assms(2) in \<open>simp add: files_hold_def base_def\<close>)

lemma ranged_first:
  assumes "ranged a seg" "first_opt (ascending_commit_files (listed seg)) = Some c"
  shows "lo_nat c = a"
proof -
  obtain cs where "ascending_commit_files (listed seg) = c # cs"
    using assms(2) by (cases "ascending_commit_files (listed seg)") auto
  then have "lo_nat c # map lo_nat cs = [a..<Suc (unat (end_version seg))]"
    using assms(1) by (simp add: ranged_def del: upt_Suc)
  then show ?thesis using upt_head by blast
qed

lemma ranged_cover:
  assumes "ranged a seg"
  shows "\<exists>fs. find_commit_cover seg = rev (map location fs) \<and>
    set fs \<subseteq> set (ascending_commit_files (listed seg)) \<union> set (ascending_compaction_files (listed seg)) \<and>
    covers a fs (Suc (unat (end_version seg)))"
proof (cases "ascending_commit_files (listed seg)")
  case Nil
  then have "ascending_compaction_files (listed seg) = []"
    using assms by (cases "ascending_compaction_files (listed seg)") (auto simp: ranged_def compactions_in_range_def)
  then have "find_commit_cover seg = rev (map location [])"
    using Nil by (simp add: find_commit_cover_def Let_def)
  moreover have "[a..<Suc (unat (end_version seg))] = []" "a \<le> Suc (unat (end_version seg))"
    using assms Nil by (simp_all add: ranged_def del: upt_Suc)
  then have "a = Suc (unat (end_version seg))" by (auto simp: upt_eq_Nil_conv simp del: upt_Suc)
  ultimately show ?thesis by (intro exI [of _ "[]"]) simp
next
  case (Cons c cs)
  then have "lo_nat c = a" using ranged_first [OF assms] by simp
  then show ?thesis using segment_cover [OF ranged_inv [OF assms]] assms Cons by (simp add: ranged_def)
qed

lemma ranged_decodes:
  assumes "ranged a seg" "reads_in_order h contents" "files_hold contents ms ps seg"
    and e: "e = Suc (unat (end_version seg))"
  shows "\<exists>bs. read_actions h seg = Inr bs \<and>
    pm_decodes bs (or_else (newest ms a e) (base ms seg)) (or_else (newest ps a e) (base ps seg))"
proof -
  note inv = ranged_inv [OF assms(1)]
  obtain fs where fs: "find_commit_cover seg = rev (map location fs)"
    "set fs \<subseteq> set (ascending_commit_files (listed seg)) \<union> set (ascending_compaction_files (listed seg))" "covers a fs e"
    using ranged_cover [OF assms(1)] e by blast
  have "\<forall>f \<in> set fs. pm_decodes (batches_of True contents [location f])
      (newest ms (lo_nat f) (Suc (hi_nat f))) (newest ps (lo_nat f) (Suc (hi_nat f)))"
    using assms(3) fs(2) by (auto simp: files_hold_def)
  from pm_decodes_append [OF cover_decodes [OF fs(3) this] checkpoint_holds [OF inv assms(3)]]
  show ?thesis
    using commit_reader_decodes [OF assms(2) fs(1)] checkpoint_stream_decodes [OF assms(2) inv assms(3)]
    by (simp add: read_actions_def)
qed

text \<open>A segment that answers for the whole history: it has a checkpoint or begins with version zero.\<close>

definition whole_segment :: "('url, 'loc, 'schema) log_segment \<Rightarrow> bool" where
  "whole_segment seg \<longleftrightarrow> segment_inv seg \<and> compactions_in_range seg \<and>
     (checkpoint_version seg = None \<longrightarrow> (\<exists>c. first_opt (ascending_commit_files (listed seg)) = Some c \<and> version c = 0))"

definition segment_start :: "('url, 'loc, 'schema) log_segment \<Rightarrow> nat" where
  "segment_start seg = (case checkpoint_version seg of None \<Rightarrow> 0 | Some v \<Rightarrow> Suc (unat v))"

lemma segment_from_first:
  assumes "segment_inv seg" "first_opt (ascending_commit_files (listed seg)) = Some c"
  shows "commit_versions seg = [lo_nat c..<Suc (unat (end_version seg))]" "lo_nat c \<le> unat (end_version seg)"
proof -
  have ne: "ascending_commit_files (listed seg) \<noteq> []" "hd (ascending_commit_files (listed seg)) = c"
    using assms(2) first_opt_SomeD by fastforce+
  then have "end_version seg = version (last (ascending_commit_files (listed seg)))"
    using segment_invD(9) [OF assms(1)] by (simp add: last_opt_def)
  then show v: "commit_versions seg = [lo_nat c..<Suc (unat (end_version seg))]"
    using contiguous_upt [OF segment_invD(2,3) [OF assms(1)] ne(1)] ne(2) by simp
  show "lo_nat c \<le> unat (end_version seg)"
    using commits_le_end [OF assms(1) first_opt_in_set [OF assms(2)]] by (simp add: word_le_nat_alt)
qed

lemma checkpoint_le_end:
  assumes "segment_inv seg" "checkpoint_version seg = Some v"
  shows "v \<le> end_version seg"
proof (cases "last_opt (ascending_commit_files (listed seg))")
  case None
  then show ?thesis using segment_invD(9) [OF assms(1)] assms(2) by simp
next
  case (Some c)
  then show ?thesis using segment_invD(7,9) [OF assms(1)] assms(2) by (auto simp: after_cp_def dest!: last_opt_in_set)
qed

lemma whole_segment_ranged:
  assumes "whole_segment seg"
  shows "ranged (segment_start seg) seg"
proof (cases "checkpoint_version seg")
  case None
  then obtain c where "first_opt (ascending_commit_files (listed seg)) = Some c" "version c = 0"
    using assms by (auto simp: whole_segment_def)
  then show ?thesis using segment_from_first [of seg c] assms None
    by (simp add: whole_segment_def ranged_def segment_start_def del: upt_Suc)
next
  case (Some v)
  then show ?thesis using assms segment_commit_versions [of seg v] checkpoint_le_end [of seg v]
    by (simp add: whole_segment_def ranged_def segment_start_def word_le_nat_alt del: upt_Suc)
qed

lemma whole_base: "newest f 0 (segment_start seg) = base f seg"
  by (simp add: segment_start_def base_def split: option.splits)

section \<open>Splitting at a checksum\<close>

lemma filter_le_upt: "a \<le> Suc w \<Longrightarrow> w \<le> b \<Longrightarrow> filter (\<lambda>n. n \<le> w) [a..<Suc b] = [a..<Suc w]" for a w b :: nat
proof -
  assume "a \<le> Suc w" "w \<le> b"
  then have "[a..<Suc b] = [a..<Suc w] @ [Suc w..<Suc b]"
    by (metis Suc_le_mono le_Suc_ex upt_add_eq_append)
  moreover have "filter (\<lambda>n. n \<le> w) [Suc w..<Suc b] = []" by (auto simp: filter_empty_conv simp del: upt_Suc)
  moreover have "filter (\<lambda>n. n \<le> w) [a..<Suc w] = [a..<Suc w]" by (auto simp: filter_id_conv simp del: upt_Suc)
  ultimately show ?thesis by simp
qed

text \<open>A checksum right before the commits of a segment or among them.\<close>

definition crc_within :: "nat \<Rightarrow> ('url, 'loc, 'schema) log_segment \<Rightarrow> version \<Rightarrow> bool" where
  "crc_within a seg w \<longleftrightarrow> w < end_version seg \<and> a \<le> Suc (unat w)"

lemma after_crc_cover:
  assumes "ranged a seg" "crc_within a seg w"
  shows "\<exists>fs. find_commit_cover (segment_after_crc seg w) = rev (map location fs) \<and>
    set fs \<subseteq> set (ascending_commit_files (listed seg)) \<union> set (ascending_compaction_files (listed seg)) \<and>
    covers (Suc (unat w)) fs (Suc (unat (end_version seg)))"
proof -
  have w: "w < end_version seg" "a \<le> Suc (unat w)" and v: "commit_versions seg = [a..<Suc (unat (end_version seg))]"
    using assms by (simp_all add: ranged_def crc_within_def del: upt_Suc)
  note a = segment_after_crc_inv [OF ranged_inv [OF assms(1)] w(1) v w(2)]
  obtain d where d: "first_opt (ascending_commit_files (listed (segment_after_crc seg w))) = Some d"
    using a(3) by (cases "ascending_commit_files (listed (segment_after_crc seg w))") auto
  have "unat (version d) = Suc (unat w)" using a(2) [OF d] word_less_succ [OF w(1)] by simp
  then show ?thesis using segment_cover [OF a(1,4) d]
    by (fastforce simp: segment_after_crc_def filtered_commits_and_compactions_def Let_def)
qed

text \<open>The part up to the checksum, with the version it stands for as its end.\<close>

definition through :: "('url, 'loc, 'schema) log_segment \<Rightarrow> version \<Rightarrow> ('url, 'loc, 'schema) log_segment" where
  "through seg w = (segment_through_crc seg w) \<lparr> end_version := w \<rparr>"

lemma through_simps:
  "checkpoint_version (through seg w) = checkpoint_version seg" "end_version (through seg w) = w"
  "checkpoint_parts (listed (through seg w)) = checkpoint_parts (listed seg)"
  "ascending_commit_files (listed (through seg w)) = ascending_commit_files (listed (segment_through_crc seg w))"
  "find_commit_cover (through seg w) = find_commit_cover (segment_through_crc seg w)"
  "create_checkpoint_stream h (through seg w) = create_checkpoint_stream h (segment_through_crc seg w)"
  by (simp_all add: through_def segment_through_crc_def filtered_commits_and_compactions_def Let_def
      find_commit_cover_def create_checkpoint_stream_def)

lemma through_compactions:
  "ascending_compaction_files (listed (through seg w)) =
     filter (\<lambda>c. case file_type c of CompactedCommit h \<Rightarrow> after_cp (checkpoint_version seg) c \<and> h \<le> w | _ \<Rightarrow> False)
       (ascending_compaction_files (listed seg))"
  by (auto simp: through_def segment_through_crc_def filtered_commits_and_compactions_def Let_def after_cp_def
      intro!: filter_cong split: log_path_file_type.splits option.splits)

lemma through_versions:
  assumes "ranged a seg" "crc_within a seg w"
  shows "ascending_commit_files (listed (through seg w)) = filter (\<lambda>f. version f \<le> w) (ascending_commit_files (listed seg))"
    "commit_versions (through seg w) = [a..<Suc (unat w)]"
proof -
  have w: "w < end_version seg" "a \<le> Suc (unat w)" and v: "commit_versions seg = [a..<Suc (unat (end_version seg))]"
    using assms by (simp_all add: ranged_def crc_within_def del: upt_Suc)
  show c: "ascending_commit_files (listed (through seg w)) = filter (\<lambda>f. version f \<le> w) (ascending_commit_files (listed seg))"
    using crc_commits(2) [OF ranged_inv [OF assms(1)], of w] w(1) by (simp add: through_simps)
  have "commit_versions (through seg w) = filter (\<lambda>n. n \<le> unat w) (commit_versions seg)"
    unfolding c by (simp add: filter_map comp_def word_le_nat_alt)
  also have "\<dots> = [a..<Suc (unat w)]"
    unfolding v using w by (intro filter_le_upt) (simp_all add: word_less_nat_alt)
  finally show "commit_versions (through seg w) = [a..<Suc (unat w)]" .
qed

lemma through_first:
  assumes "ranged a seg" "crc_within a seg w" "first_opt (ascending_commit_files (listed seg)) = Some c" "version c \<le> w"
  shows "first_opt (ascending_commit_files (listed (through seg w))) = Some c"
  using through_versions(1) [OF assms(1,2)] assms(3,4)
  by (cases "ascending_commit_files (listed seg)") auto

text \<open>
  Pruned to a checksum at the version before its first commit, a segment that has no checkpoint is empty, and
  an empty segment has no end version to check; the invariant is for the other cases.
\<close>

lemma through_end:
  assumes "ranged a seg" "crc_within a seg w" "a \<le> unat w \<or> checkpoint_version seg \<noteq> None"
  shows "Some w = (case last_opt (ascending_commit_files (listed (through seg w))) of
    Some c \<Rightarrow> Some (version c) | None \<Rightarrow> checkpoint_version seg)"
proof (cases "ascending_commit_files (listed (through seg w))" rule: rev_cases)
  case Nil
  then have "[a..<Suc (unat w)] = []" using through_versions(2) [OF assms(1,2)] by simp
  then have "\<not> a \<le> unat w" by (auto simp: upt_eq_Nil_conv simp del: upt_Suc)
  moreover from this obtain v where "checkpoint_version seg = Some v" using assms(3) by blast
  ultimately show ?thesis
    using Nil assms(1,2) by (auto simp: ranged_def crc_within_def word_unat_eq_iff simp del: upt_Suc)
next
  case (snoc fs f)
  then have v: "[a..<Suc (unat w)] = map lo_nat fs @ [lo_nat f]"
    using through_versions(2) [OF assms(1,2)] by simp
  then have "a \<le> unat w" by (metis Nil_is_append_conv not_Cons_self2 not_less_eq_eq upt_conv_Nil)
  then have "lo_nat f = unat w" using v by simp
  then show ?thesis using snoc by (simp add: last_opt_def word_unat_eq_iff)
qed

lemma through_inv:
  assumes "ranged a seg" "crc_within a seg w" "a \<le> unat w \<or> checkpoint_version seg \<noteq> None"
  shows "segment_inv (through seg w)"
proof -
  note i = segment_invD [OF ranged_inv [OF assms(1)]] and t = through_versions(1) [OF assms(1,2)]
  let ?ts = "filter (\<lambda>f. version f \<le> w) (ascending_commit_files (listed seg))"
  have "?ts = take (length ?ts) (ascending_commit_files (listed seg))"
    using arg_cong [OF filter_le_take [OF i(3), of w], of "take (length ?ts)"] by simp
  then obtain k where k: "?ts = take k (ascending_commit_files (listed seg))" by blast
  have "contiguous ?ts" unfolding k using i(2) by (auto simp: contiguous_def)
  moreover have "first_opt ?ts = Some c \<Longrightarrow> first_opt (ascending_commit_files (listed seg)) = Some c" for c
    using arg_cong [OF filter_le_take [OF i(3), of w], of first_opt] by (cases ?ts) auto
  then have "case (checkpoint_version seg, first_opt ?ts) of (Some v, Some c) \<Rightarrow> version c = v + 1 | _ \<Rightarrow> True"
    using i(8) by (fastforce split: option.splits)
  ultimately show ?thesis
    unfolding segment_inv_def Let_def through_simps through_compactions
    using i(1,5,6,7) through_end [OF assms, unfolded t] valid_compactions_filter [OF i(4)] sorted_wrt_filterI [OF i(3)]
    by (simp add: t [unfolded through_simps])
qed

lemma through_ranged:
  assumes "ranged a seg" "crc_within a seg w" "a \<le> unat w \<or> checkpoint_version seg \<noteq> None"
  shows "ranged a (through seg w)"
proof -
  have range: "compactions_in_range seg" and vc: "valid_compactions (ascending_compaction_files (listed seg))"
    using assms(1) segment_invD(4) by (auto simp: ranged_def)
  have "compactions_in_range (through seg w)"
    unfolding compactions_in_range_def
  proof
    fix k assume k: "k \<in> set (ascending_compaction_files (listed (through seg w)))"
    then have k0: "k \<in> set (ascending_compaction_files (listed seg))" and "hi_version k \<le> w"
      by (auto simp: through_compactions hi_version_def split: log_path_file_type.splits)
    obtain c where c: "first_opt (ascending_commit_files (listed seg)) = Some c" "version c \<le> version k"
      using range k0 by (cases "first_opt (ascending_commit_files (listed seg))") (auto simp: compactions_in_range_def)
    moreover have "version k \<le> hi_version k" using vc k0 by (simp add: valid_compactions_def)
    ultimately show "case first_opt (ascending_commit_files (listed (through seg w))) of None \<Rightarrow> False
        | Some c \<Rightarrow> version c \<le> version k \<and> hi_version k \<le> end_version (through seg w)"
      using through_first [OF assms(1,2) c(1)] \<open>hi_version k \<le> w\<close> by (auto simp: through_simps)
  qed
  then show ?thesis using through_inv [OF assms] through_versions(2) [OF assms(1,2)] assms(1,2)
    by (simp add: ranged_def crc_within_def through_simps del: upt_Suc)
qed

lemma through_files_hold:
  assumes "ranged a seg" "crc_within a seg w" "files_hold contents ms ps seg"
  shows "files_hold contents ms ps (through seg w)"
  using assms(3) through_versions(1) [OF assms(1,2)]
  by (auto simp: files_hold_def through_compactions through_simps)

lemma through_empty_compactions:
  assumes "ranged a seg" "a = Suc (unat w)"
  shows "ascending_compaction_files (listed (through seg w)) = []"
proof -
  have "False" if "k \<in> set (ascending_compaction_files (listed (through seg w)))" for k
  proof -
    have k0: "k \<in> set (ascending_compaction_files (listed seg))" and "hi_version k \<le> w"
      using that by (auto simp: through_compactions hi_version_def split: log_path_file_type.splits)
    then obtain c where c: "first_opt (ascending_commit_files (listed seg)) = Some c" "version c \<le> version k"
      using assms(1) by (cases "first_opt (ascending_commit_files (listed seg))") (auto simp: ranged_def compactions_in_range_def)
    have "version k \<le> hi_version k"
      using segment_invD(4) [OF ranged_inv [OF assms(1)]] k0 by (simp add: valid_compactions_def)
    then have "version c \<le> w" using c(2) \<open>hi_version k \<le> w\<close> by simp
    moreover have "lo_nat c = a" using ranged_first [OF assms(1) c(1)] .
    ultimately show False using assms(2) by (simp add: word_le_nat_alt)
  qed
  then show ?thesis by (metis list.set_intros(1) neq_Nil_conv)
qed

lemma through_base: "base f (through seg w) = base f seg"
  by (simp add: base_def through_simps)

lemma through_crc_decodes:
  assumes "ranged a seg" "crc_within a seg w" "reads_in_order h contents" "files_hold contents ms ps seg"
  shows "\<exists>bs. read_actions h (segment_through_crc seg w) = Inr bs \<and>
    pm_decodes bs (or_else (newest ms a (Suc (unat w))) (base ms seg)) (or_else (newest ps a (Suc (unat w))) (base ps seg))"
proof (cases "a \<le> unat w \<or> checkpoint_version seg \<noteq> None")
  case True
  show ?thesis
    using ranged_decodes [OF through_ranged [OF assms(1,2) True] assms(3) through_files_hold [OF assms(1,2,4)] refl]
    by (simp add: through_simps through_base read_actions_def commit_reader_def)
next
  case False
  then have a: "a = Suc (unat w)" "checkpoint_version seg = None" using assms(2) by (auto simp: crc_within_def)
  then have "ascending_commit_files (listed (through seg w)) = []" "checkpoint_parts (listed seg) = []"
    using through_versions(2) [OF assms(1,2)] segment_invD(6) [OF ranged_inv [OF assms(1)]] by simp_all
  then have "find_commit_cover (through seg w) = rev (map location [])" "create_checkpoint_stream h (through seg w) = Inr []"
    using through_empty_compactions [OF assms(1) a(1)]
    by (simp_all add: find_commit_cover_def Let_def create_checkpoint_stream_def through_simps(3))
  then have "read_actions h (segment_through_crc seg w) = Inr []"
    using commit_reader_decodes [OF assms(3), of "through seg w" "[]"]
    by (simp add: read_actions_def through_simps commit_reader_def)
  then show ?thesis using a by (simp add: base_def)
qed

lemma after_crc_decodes:
  assumes "ranged a seg" "crc_within a seg w" "reads_in_order h contents" "files_hold contents ms ps seg"
  shows "\<exists>bs. read_actions h (segment_after_crc seg w) = Inr bs \<and>
    pm_decodes bs (newest ms (Suc (unat w)) (Suc (unat (end_version seg)))) (newest ps (Suc (unat w)) (Suc (unat (end_version seg))))"
proof -
  obtain fs where fs: "find_commit_cover (segment_after_crc seg w) = rev (map location fs)"
    "set fs \<subseteq> set (ascending_commit_files (listed seg)) \<union> set (ascending_compaction_files (listed seg))"
    "covers (Suc (unat w)) fs (Suc (unat (end_version seg)))"
    using after_crc_cover [OF assms(1,2)] by blast
  have "create_checkpoint_stream h (segment_after_crc seg w) = Inr []"
    by (simp add: create_checkpoint_stream_def segment_after_crc_def filtered_commits_and_compactions_def Let_def)
  then have "read_actions h (segment_after_crc seg w) = Inr (batches_of True contents (rev (map location fs)))"
    using commit_reader_decodes [OF assms(3) fs(1)] by (simp add: read_actions_def)
  moreover have "\<forall>f \<in> set fs. pm_decodes (batches_of True contents [location f])
      (newest ms (lo_nat f) (Suc (hi_nat f))) (newest ps (lo_nat f) (Suc (hi_nat f)))"
    using assms(4) fs(2) by (auto simp: files_hold_def)
  ultimately show ?thesis using cover_decodes [OF fs(3)] by blast
qed

text \<open>The contract of a checksum: what it holds is the protocol and the metadata of its version.\<close>

definition crc_holds ::
  "('loc parsed_log_path \<Rightarrow> crc delta_result) \<Rightarrow> 'loc lazy_crc \<Rightarrow> (nat \<Rightarrow> metadata option) \<Rightarrow> (nat \<Rightarrow> protocol option) \<Rightarrow> bool" where
  "crc_holds read_crc lc ms ps \<longleftrightarrow>
     (\<forall>c w. load_crc read_crc lc = Loaded c \<longrightarrow> crc_version lc = Some w \<longrightarrow>
        newest ms 0 (Suc (unat w)) = Some (crc_metadata c) \<and> newest ps 0 (Suc (unat w)) = Some (crc_protocol c))"

lemma crc_version_load [simp]: "crc_version (snd (get_or_load read_crc lc)) = crc_version lc"
  by (simp add: get_or_load_def crc_version_def)

text \<open>
  Whatever checksum there is, what is read for a ranged segment is either the state of its end version or, when
  no checksum was used, what its own files say.
\<close>

lemma read_protocol_metadata_ranged:
  assumes "ranged a seg" "reads_in_order h contents" "files_hold contents ms ps seg" "crc_holds read_crc lc ms ps"
    and "\<forall>w. crc_version lc = Some w \<longrightarrow> a \<le> Suc (unat w)" and e: "e = Suc (unat (end_version seg))"
  shows "fst (read_protocol_metadata_opt read_crc h seg lc) \<in>
    {Inr (newest ms 0 e, newest ps 0 e), Inr (or_else (newest ms a e) (base ms seg), or_else (newest ps a e) (base ps seg))}"
proof -
  obtain bs where bs: "read_actions h seg = Inr bs"
    "pm_decodes bs (or_else (newest ms a e) (base ms seg)) (or_else (newest ps a e) (base ps seg))"
    using ranged_decodes [OF assms(1,2,3) e] by blast
  then have full: "replay_for_pm (read_actions h seg) (None, None) =
      Inr (or_else (newest ms a e) (base ms seg), or_else (newest ps a e) (base ps seg))"
    using pm_decodes_replay [OF bs(2), of "(None, None)"] by simp
  show ?thesis
  proof (cases "\<exists>w. crc_version lc = Some w \<and> w < end_version seg")
    case True
    then obtain w where w: "crc_version lc = Some w" "w < end_version seg" by blast
    then have within: "crc_within a seg w" using assms(5) by (simp add: crc_within_def)
    obtain as ts where as: "read_actions h (segment_after_crc seg w) = Inr as"
      "pm_decodes as (newest ms (Suc (unat w)) e) (newest ps (Suc (unat w)) e)"
      and ts: "read_actions h (segment_through_crc seg w) = Inr ts"
      "pm_decodes ts (or_else (newest ms a (Suc (unat w))) (base ms seg)) (or_else (newest ps a (Suc (unat w))) (base ps seg))"
      using after_crc_decodes [OF assms(1) within assms(2,3)] through_crc_decodes [OF assms(1) within assms(2,3)] e by blast
    have le: "a \<le> Suc (unat w)" "Suc (unat w) \<le> e"
      using within e by (simp_all add: crc_within_def word_less_nat_alt)
    have split: "newest f b e = or_else (newest f (Suc (unat w)) e) (newest f b (Suc (unat w)))"
      if "b \<le> Suc (unat w)" for f :: "nat \<Rightarrow> 'x option" and b
      using that le(2) by (rule newest_split)
    have a: "replay_for_pm (Inr as) (None, None) = Inr (newest ms (Suc (unat w)) e, newest ps (Suc (unat w)) e)"
      using pm_decodes_replay [OF as(2), of "(None, None)"] by simp
    show ?thesis
      unfolding split [OF le(1)] split [OF le0] or_else_assoc read_protocol_metadata_opt_def Let_def as(1) ts(1)
      using w a pm_decodes_replay [OF ts(2)] assms(4)
      by (auto simp: as(1) ts(1) get_or_load_def crc_holds_def less_le split: crc_load_result.splits)
  next
    case False
    then show ?thesis
      unfolding read_protocol_metadata_opt_def Let_def
      using full assms(4) e by (auto simp: get_or_load_def crc_holds_def crc_version_def split: crc_load_result.splits option.splits)
  qed
qed

lemma read_protocol_metadata_whole:
  assumes "whole_segment seg" "reads_in_order h contents" "files_hold contents ms ps seg" "crc_holds read_crc lc ms ps"
    and "\<forall>v w. checkpoint_version seg = Some v \<longrightarrow> crc_version lc = Some w \<longrightarrow> v \<le> w"
  shows "fst (read_protocol_metadata_opt read_crc h seg lc) =
    Inr (newest ms 0 (Suc (unat (end_version seg))), newest ps 0 (Suc (unat (end_version seg))))"
proof -
  note r = whole_segment_ranged [OF assms(1)]
  have w: "\<forall>w. crc_version lc = Some w \<longrightarrow> segment_start seg \<le> Suc (unat w)"
    using assms(5) by (auto simp: segment_start_def word_le_nat_alt split: option.splits)
  have "segment_start seg \<le> Suc (unat (end_version seg))" using r by (simp add: ranged_def)
  then have "newest f 0 (Suc (unat (end_version seg))) =
      or_else (newest f (segment_start seg) (Suc (unat (end_version seg)))) (base f seg)" for f :: "nat \<Rightarrow> 'x option"
    unfolding whole_base [symmetric] by (intro newest_split) simp_all
  from this [of ms] this [of ps] show ?thesis
    using read_protocol_metadata_ranged [OF r assms(2,3,4) w refl] by auto
qed

text \<open>
  C14. Reading the protocol and the metadata of a segment gives those of its end version, whatever checksum the
  segment has: one at its end, one at an earlier version, none, or one that cannot be read. What a pruned replay
  finds after the checksum comes before what the checksum says, a checksum that fails to load is replaced by the
  part of the log it stands for, and compactions that straddle the checksum do no harm. The checksum is assumed
  truthful and not older than the segment's checkpoint.
\<close>

theorem read_protocol_metadata_newest:
  assumes "whole_segment seg" "reads_in_order h contents" "files_hold contents ms ps seg" "crc_holds read_crc lc ms ps"
    and "\<forall>v w. checkpoint_version seg = Some v \<longrightarrow> crc_version lc = Some w \<longrightarrow> v \<le> w"
  shows "fst (read_protocol_metadata_opt read_crc h seg lc) =
    Inr (newest ms 0 (Suc (unat (end_version seg))), newest ps 0 (Suc (unat (end_version seg))))"
  by (rule read_protocol_metadata_whole [OF assms])

section \<open>A small log\<close>

text \<open>
  A checkpoint at version 3, commits 4 and 5 and a checksum at version 4; the metadata changes at version 5.
  A batch of one row with the metadata named \<open>m\<close>, and the protocol when \<open>p\<close>.
\<close>

definition metadata_named :: "string \<Rightarrow> metadata" where
  "metadata_named m = \<lparr> md_id = m, md_name = None, md_description = None,
     md_format = \<lparr> provider = ''parquet'', format_options = [] \<rparr>, schema_string = m, md_partition_columns = [],
     created_time = None, configuration = [] \<rparr>"

definition legacy_protocol :: protocol where
  "legacy_protocol = \<lparr> min_reader_version = 1, min_writer_version = 2, reader_features = None, writer_features = None \<rparr>"

definition pm_data :: "string option \<Rightarrow> bool \<Rightarrow> engine_data" where
  "pm_data m p = \<lparr> ed_len = 1, ed_getters = \<lambda>cols. Inr (if cols = metadata_columns
     then [null_getter\<lparr> get_str := \<lambda>_. Inr m \<rparr>, null_getter, null_getter,
           null_getter\<lparr> get_str := \<lambda>_. Inr (Some ''parquet'') \<rparr>, null_getter, null_getter\<lparr> get_str := \<lambda>_. Inr m \<rparr>,
           null_getter\<lparr> get_list := \<lambda>_. Inr (Some []) \<rparr>, null_getter, null_getter]
     else [null_getter\<lparr> get_int := \<lambda>_. Inr (if p then Some 1 else None) \<rparr>,
           null_getter\<lparr> get_int := \<lambda>_. Inr (Some 2) \<rparr>, null_getter, null_getter]) \<rparr>"

lemma pm_data_decodes:
  "pm_decodes [Inr \<lparr> ab_actions = pm_data m p, ab_is_log_batch = b \<rparr>]
     (map_option metadata_named m) (if p then Some legacy_protocol else None)"
proof -
  have "metadata_columns \<noteq> protocol_columns" by (simp add: metadata_columns_def protocol_columns_def)
  then show ?thesis
    by (cases m)
      (simp_all add: pm_decodes_def pm_data_def metadata_action_def protocol_action_def visit_metadata_at_def
        visit_protocol_at_def decode_simps metadata_named_def legacy_protocol_def unwrap_or_def protocol_try_new_def
        check_feature_lists_def parse_features_def TABLE_FEATURES_MIN_READER_VERSION_def TABLE_FEATURES_MIN_WRITER_VERSION_def)
qed

definition pm_file :: "nat \<Rightarrow> version \<Rightarrow> string \<Rightarrow> log_path_file_type \<Rightarrow> nat parsed_log_path" where
  "pm_file loc v ext t = \<lparr> location = loc, filename = [], extension = ext, version = v, file_type = t \<rparr>"

definition pm_segment :: "(unit, nat, unit) log_segment" where
  "pm_segment = \<lparr> end_version = 5, checkpoint_version = Some 3, segment_log_root = (), checkpoint_schema = None,
     listed = \<lparr> ascending_commit_files = [pm_file 4 4 ''json'' Commit, pm_file 5 5 ''json'' Commit],
       ascending_compaction_files = [], checkpoint_parts = [pm_file 3 3 ''parquet'' SinglePartCheckpoint],
       latest_crc_file = Some (pm_file 6 4 ''crc'' Crc), latest_commit_file = Some (pm_file 5 5 ''json'' Commit),
       max_published_version = Some 5 \<rparr> \<rparr>"

definition pm_contents :: "nat \<Rightarrow> engine_data list" where
  "pm_contents loc = (if loc = 3 then [pm_data (Some ''a'') True] else if loc = 5 then [pm_data (Some ''b'') False]
     else [pm_data None False])"

definition pm_handlers :: "nat handlers" where
  "pm_handlers = \<lparr> read_json_files = \<lambda>files. Inr (map Inr (concat (map pm_contents files))),
     read_parquet_files = \<lambda>files. Inr (map Inr (concat (map pm_contents files))) \<rparr>"

definition pm_metadata :: "nat \<Rightarrow> metadata option" where
  "pm_metadata v = (if v = 0 then Some (metadata_named ''a'') else if v = 5 then Some (metadata_named ''b'') else None)"

definition pm_protocol :: "nat \<Rightarrow> protocol option" where
  "pm_protocol v = (if v = 0 then Some legacy_protocol else None)"

lemma pm_newest:
  "newest pm_metadata 0 4 = Some (metadata_named ''a'')" "newest pm_metadata 0 5 = Some (metadata_named ''a'')"
  "newest pm_metadata 0 6 = Some (metadata_named ''b'')" "newest pm_metadata 4 5 = None"
  "newest pm_metadata 5 6 = Some (metadata_named ''b'')"
  "newest pm_protocol 0 4 = Some legacy_protocol" "newest pm_protocol 0 5 = Some legacy_protocol"
  "newest pm_protocol 0 6 = Some legacy_protocol" "newest pm_protocol 4 5 = None" "newest pm_protocol 5 6 = None"
  by (simp_all add: newest.simps pm_metadata_def pm_protocol_def numeral_eq_Suc)

theorem read_protocol_metadata_newest_witness:
  "\<exists>c. fst (read_protocol_metadata_opt (\<lambda>_. Inr c) pm_handlers pm_segment (lazy_crc_new (latest_crc_file (listed pm_segment)))) =
     Inr (Some (metadata_named ''b''), Some legacy_protocol)"
proof -
  obtain c :: crc where c: "crc_metadata c = metadata_named ''a''" "crc_protocol c = legacy_protocol"
    by (meson crc.select_convs(5,6))
  have inv: "whole_segment pm_segment"
    by (simp add: whole_segment_def segment_inv_def compactions_in_range_def pm_segment_def pm_file_def is_commit_def
        contiguous_Cons contiguous_def valid_compactions_def valid_checkpoint_parts_def is_checkpoint_def after_cp_def)
  have reads: "reads_in_order pm_handlers pm_contents" by (simp add: reads_in_order_def pm_handlers_def)
  have files: "files_hold pm_contents pm_metadata pm_protocol pm_segment"
    using pm_data_decodes [of "Some ''a''" True] pm_data_decodes [of "Some ''b''" False] pm_data_decodes [of None False]
    by (simp add: files_hold_def pm_segment_def pm_file_def batches_of_def pm_contents_def hi_version_def pm_newest)
  have crc: "crc_holds (\<lambda>_. Inr c) (lazy_crc_new (latest_crc_file (listed pm_segment))) pm_metadata pm_protocol"
    using c by (simp add: crc_holds_def load_crc_def lazy_crc_new_def crc_version_def pm_segment_def pm_file_def pm_newest)
  from read_protocol_metadata_newest [OF inv reads files crc] show ?thesis
    by (intro exI [of _ c]) (simp add: lazy_crc_new_def crc_version_def pm_segment_def pm_file_def pm_newest)
qed

end
