(* ===== verification/Reconciliation.thy ===== *)
theory Reconciliation
  imports LogReplay
begin

text \<open>
  Action reconciliation (\<open>action_reconciliation/log_replay.rs\<close>, \<open>action_reconciliation/mod.rs\<close>): the
  visitor that decides which actions a checkpoint or a compacted log keeps, the processor with
  its state across batches, the iterator with its counters and the retention thresholds.
\<close>

section \<open>State\<close>

record reconciliation_processor =
  rp_seen_file_keys :: "file_action_key set"
  rp_seen_protocol :: bool
  rp_seen_metadata :: bool
  rp_seen_txns :: "string set"
  rp_seen_domains :: "string set"
  minimum_file_retention_timestamp :: "64 word"
  txn_expiration_timestamp :: "64 word option"

definition new_reconciliation_processor :: "64 word \<Rightarrow> 64 word option \<Rightarrow> reconciliation_processor" where
  "new_reconciliation_processor retention txn_expiration =
     \<lparr> rp_seen_file_keys = {}, rp_seen_protocol = False, rp_seen_metadata = False, rp_seen_txns = {},
       rp_seen_domains = {}, minimum_file_retention_timestamp = retention,
       txn_expiration_timestamp = txn_expiration \<rparr>"

text \<open>\<open>ActionReconciliationVisitor\<close>; the timestamps are signed, the counters are \<open>i64\<close>.\<close>

record reconciliation_visitor =
  v_is_log_batch :: bool
  v_files :: "file_action_key set"
  v_protocol :: bool
  v_metadata :: bool
  v_txns :: "string set"
  v_domains :: "string set"
  v_retention :: "64 word"
  v_txn_expiration :: "64 word option"
  v_actions_count :: "64 word"
  v_add_actions_count :: "64 word"

definition reconciliation_dedup :: "bool \<Rightarrow> deduplicator" where
  "reconciliation_dedup is_log = file_action_deduplicator is_log 0 4 1 6"

definition reconciliation_columns :: "column_name list" where
  "reconciliation_columns =
     [[''add'', ''path''], [''add'', ''deletionVector'', ''storageType''],
      [''add'', ''deletionVector'', ''pathOrInlineDv''], [''add'', ''deletionVector'', ''offset''],
      [''remove'', ''path''], [''remove'', ''deletionTimestamp''],
      [''remove'', ''deletionVector'', ''storageType''],
      [''remove'', ''deletionVector'', ''pathOrInlineDv''], [''remove'', ''deletionVector'', ''offset''],
      [''metaData'', ''id''], [''protocol'', ''minReaderVersion''], [''txn'', ''appId''],
      [''txn'', ''lastUpdated''], [''domainMetadata'', ''domain''], [''domainMetadata'', ''removed'']]"

section \<open>The checks of the visitor\<close>

definition is_expired_tombstone :: "reconciliation_visitor \<Rightarrow> nat \<Rightarrow> getter \<Rightarrow> bool delta_result" where
  "is_expired_tombstone v i g =
     rbind (get_long g i) (\<lambda>ts.
       let deletion_timestamp = (case ts of None \<Rightarrow> 0 | Some t \<Rightarrow> t)
       in Inr (sint deletion_timestamp \<le> sint (v_retention v)))"

definition check_file_action ::
  "nat \<Rightarrow> getter list \<Rightarrow> reconciliation_visitor \<Rightarrow> bool option delta_result \<times> reconciliation_visitor" where
  "check_file_action i getters v =
     (case extract_file_action (reconciliation_dedup (v_is_log_batch v)) i getters False of
        Inl e \<Rightarrow> (Inl e, v)
      | Inr None \<Rightarrow> (Inr None, v)
      | Inr (Some (key, is_add)) \<Rightarrow>
          (case check_and_record_seen (reconciliation_dedup (v_is_log_batch v)) key (v_files v) of
             (dup, files) \<Rightarrow>
               (let v' = v\<lparr> v_files := files \<rparr> in
                if dup then (Inr (Some False), v')
                else if is_add
                then (Inr (Some True), v'\<lparr> v_add_actions_count := v_add_actions_count v' + 1 \<rparr>)
                else (rbind (is_expired_tombstone v' i (getters ! 5)) (\<lambda>expired. Inr (Some (\<not> expired))), v'))))"

definition check_protocol_action ::
  "nat \<Rightarrow> getter \<Rightarrow> reconciliation_visitor \<Rightarrow> bool option delta_result \<times> reconciliation_visitor" where
  "check_protocol_action i g v =
     (case get_int g i of
        Inl e \<Rightarrow> (Inl e, v)
      | Inr None \<Rightarrow> (Inr None, v)
      | Inr (Some _) \<Rightarrow> (Inr (Some (\<not> v_protocol v)), v\<lparr> v_protocol := True \<rparr>))"

definition check_metadata_action ::
  "nat \<Rightarrow> getter \<Rightarrow> reconciliation_visitor \<Rightarrow> bool option delta_result \<times> reconciliation_visitor" where
  "check_metadata_action i g v =
     (case get_str g i of
        Inl e \<Rightarrow> (Inl e, v)
      | Inr None \<Rightarrow> (Inr None, v)
      | Inr (Some _) \<Rightarrow> (Inr (Some (\<not> v_metadata v)), v\<lparr> v_metadata := True \<rparr>))"

definition check_txn_action ::
  "nat \<Rightarrow> getter list \<Rightarrow> reconciliation_visitor \<Rightarrow> bool option delta_result \<times> reconciliation_visitor" where
  "check_txn_action i getters v =
     (case get_str (getters ! 11) i of
        Inl e \<Rightarrow> (Inl e, v)
      | Inr None \<Rightarrow> (Inr None, v)
      | Inr (Some app_id) \<Rightarrow>
          (let insert_app = (Inr (Some (app_id \<notin> v_txns v)), v\<lparr> v_txns := insert app_id (v_txns v) \<rparr>) in
           case v_txn_expiration v of
             None \<Rightarrow> insert_app
           | Some retention_ts \<Rightarrow>
               (case get_long (getters ! 12) i of
                  Inl e \<Rightarrow> (Inl e, v)
                | Inr None \<Rightarrow> insert_app
                | Inr (Some last_updated) \<Rightarrow>
                    if sint last_updated \<le> sint retention_ts then (Inr (Some False), v) else insert_app)))"

definition check_domain_metadata_action ::
  "nat \<Rightarrow> getter list \<Rightarrow> reconciliation_visitor \<Rightarrow> bool option delta_result \<times> reconciliation_visitor" where
  "check_domain_metadata_action i getters v =
     (case get_str (getters ! 13) i of
        Inl e \<Rightarrow> (Inl e, v)
      | Inr None \<Rightarrow> (Inr None, v)
      | Inr (Some domain) \<Rightarrow>
          (case get_bool (getters ! 14) i of
             Inl e \<Rightarrow> (Inl e, v)
           | Inr removed \<Rightarrow>
               if removed = Some True then (Inr (Some False), v)
               else (Inr (Some (domain \<notin> v_domains v)), v\<lparr> v_domains := insert domain (v_domains v) \<rparr>)))"

text \<open>\<open>else if let Some(result) = check?\<close>: the next check runs when this one finds nothing.\<close>

definition or_else_check where
  "or_else_check check rest v =
     (case check v of
        (Inl e, v') \<Rightarrow> (Inl e, v')
      | (Inr (Some b), v') \<Rightarrow> (Inr b, v')
      | (Inr None, v') \<Rightarrow> rest v')"

definition is_valid_action ::
  "nat \<Rightarrow> getter list \<Rightarrow> reconciliation_visitor \<Rightarrow> bool delta_result \<times> reconciliation_visitor" where
  "is_valid_action i getters v =
     (case or_else_check (check_file_action i getters)
             (or_else_check (check_txn_action i getters)
             (or_else_check (check_domain_metadata_action i getters)
             (or_else_check (check_protocol_action i (getters ! 10))
             (or_else_check (check_metadata_action i (getters ! 9)) (\<lambda>v. (Inr False, v)))))) v of
        (Inl e, v') \<Rightarrow> (Inl e, v')
      | (Inr is_valid, v') \<Rightarrow>
          (Inr is_valid, if is_valid then v'\<lparr> v_actions_count := v_actions_count v' + 1 \<rparr> else v'))"

fun reconciliation_loop ::
  "(nat \<Rightarrow> reconciliation_visitor \<Rightarrow> bool delta_result \<times> reconciliation_visitor) \<Rightarrow> nat list \<Rightarrow> bool list \<Rightarrow>
   reconciliation_visitor \<Rightarrow> bool list delta_result \<times> reconciliation_visitor" where
  "reconciliation_loop f [] sel v = (Inr sel, v)"
| "reconciliation_loop f (i # is) sel v =
     (case f i v of
        (Inl e, v') \<Rightarrow> (Inl e, v')
      | (Inr b, v') \<Rightarrow> reconciliation_loop f is (sel[i := b]) v')"

definition visit_reconciliation ::
  "engine_data \<Rightarrow> bool list \<Rightarrow> reconciliation_visitor \<Rightarrow> bool list delta_result \<times> reconciliation_visitor" where
  "visit_reconciliation actions sel v =
     (case ed_getters actions reconciliation_columns of
        Inl e \<Rightarrow> (Inl e, v)
      | Inr getters \<Rightarrow>
          if length getters \<noteq> 15 then (Inl (InternalError ''Wrong number of visitor getters''), v)
          else reconciliation_loop (\<lambda>i. is_valid_action i getters) [0..<ed_len actions] sel v)"

section \<open>The processor and its iterator\<close>

record reconciliation_batch =
  rb_filtered_data :: filtered_data
  rb_actions_count :: "64 word"
  rb_add_actions_count :: "64 word"

definition new_visitor :: "reconciliation_processor \<Rightarrow> bool \<Rightarrow> reconciliation_visitor" where
  "new_visitor self is_log =
     \<lparr> v_is_log_batch = is_log, v_files = rp_seen_file_keys self, v_protocol = rp_seen_protocol self,
       v_metadata = rp_seen_metadata self, v_txns = rp_seen_txns self, v_domains = rp_seen_domains self,
       v_retention = minimum_file_retention_timestamp self, v_txn_expiration = txn_expiration_timestamp self,
       v_actions_count = 0, v_add_actions_count = 0 \<rparr>"

text \<open>
  The sets are borrowed mutably and keep what an aborted visit recorded; the two flags are copied
  back only after a successful visit.
\<close>

definition reconcile_actions_batch ::
  "reconciliation_processor \<Rightarrow> actions_batch \<Rightarrow> reconciliation_batch delta_result \<times> reconciliation_processor" where
  "reconcile_actions_batch self batch =
     (let actions = ab_actions batch in
      case visit_reconciliation actions (replicate (ed_len actions) True) (new_visitor self (ab_is_log_batch batch)) of
        (r, v) \<Rightarrow>
          (let self1 = self\<lparr> rp_seen_file_keys := v_files v, rp_seen_txns := v_txns v, rp_seen_domains := v_domains v \<rparr> in
           case r of
             Inl e \<Rightarrow> (Inl e, self1)
           | Inr sel \<Rightarrow>
               (rbind (filtered_data_try_new actions sel) (\<lambda>fd.
                  Inr \<lparr> rb_filtered_data = fd, rb_actions_count = v_actions_count v,
                        rb_add_actions_count = v_add_actions_count v \<rparr>),
                self1\<lparr> rp_seen_protocol := v_protocol v, rp_seen_metadata := v_metadata v \<rparr>)))"

record iterator_state =
  is_actions_count :: "64 word"
  is_add_actions_count :: "64 word"
  is_exhausted :: bool

definition transform_batch ::
  "reconciliation_batch delta_result option \<Rightarrow> iterator_state \<Rightarrow>
   filtered_data delta_result option \<times> iterator_state" where
  "transform_batch batch st =
     (case batch of
        None \<Rightarrow> (None, st\<lparr> is_exhausted := True \<rparr>)
      | Some (Inl e) \<Rightarrow> (Some (Inl e), st)
      | Some (Inr b) \<Rightarrow>
          (Some (Inr (rb_filtered_data b)),
           st\<lparr> is_actions_count := is_actions_count st + rb_actions_count b,
               is_add_actions_count := is_add_actions_count st + rb_add_actions_count b \<rparr>))"

text \<open>The consumption of the whole iterator, \<open>next\<close> until it returns \<open>None\<close>.\<close>

fun consume_iterator ::
  "reconciliation_batch delta_result list \<Rightarrow> iterator_state \<Rightarrow> filtered_data delta_result list \<times> iterator_state" where
  "consume_iterator [] st = ([], snd (transform_batch None st))"
| "consume_iterator (b # bs) st =
     (case transform_batch (Some b) st of
        (Some d, st') \<Rightarrow> (case consume_iterator bs st' of (ds, st'') \<Rightarrow> (d # ds, st''))
      | (None, st') \<Rightarrow> ([], st'))"

section \<open>Retention\<close>

text \<open>
  Durations in milliseconds as \<open>as_millis\<close> gives them (a \<open>u128\<close>, so a natural number);
  \<open>i64::try_from\<close> fails above \<open>i64::MAX\<close>. The subtraction of two non-negative \<open>i64\<close> cannot overflow.
\<close>

definition DEFAULT_RETENTION_SECS :: nat where
  "DEFAULT_RETENTION_SECS = 7 * 24 * 60 * 60"

definition i64_try_from :: "nat \<Rightarrow> delta_error \<Rightarrow> 64 word delta_result" where
  "i64_try_from n e = (if n < 2 ^ 63 then Inr (of_nat n) else Inl e)"

definition deleted_file_retention_timestamp_with_time :: "nat option \<Rightarrow> nat \<Rightarrow> 64 word delta_result" where
  "deleted_file_retention_timestamp_with_time retention_ms now_ms =
     (let retention = (case retention_ms of None \<Rightarrow> DEFAULT_RETENTION_SECS * 1000 | Some r \<Rightarrow> r) in
      rbind (i64_try_from now_ms (CheckpointWrite ''Current timestamp exceeds i64 millisecond range'')) (\<lambda>now.
      rbind (i64_try_from retention (CheckpointWrite ''Retention duration exceeds i64 millisecond range'')) (\<lambda>ret.
      Inr (now - ret))))"

text \<open>\<open>current_time_ms\<close> is the parameter \<open>now\<close>.\<close>

definition calculate_transaction_expiration_timestamp ::
  "nat option \<Rightarrow> 64 word delta_result \<Rightarrow> 64 word option delta_result" where
  "calculate_transaction_expiration_timestamp retention_ms now =
     (case retention_ms of
        None \<Rightarrow> Inr None
      | Some d \<Rightarrow>
          rbind now (\<lambda>now_ms.
          rbind (i64_try_from d (Generic ''Retention duration exceeds i64 millisecond range'')) (\<lambda>e.
          Inr (Some (now_ms - e)))))"

section \<open>The reference\<close>

text \<open>What a row holds, as far as reconciliation is concerned; the first kind that is present counts.\<close>

datatype row_action =
    FileRow file_action_key bool "64 word"
  | TxnRow string "64 word option"
  | DomainRow string bool
  | ProtocolRow
  | MetadataRow
  | OtherRow

definition cell :: "'a option delta_result \<Rightarrow> 'a option" where
  "cell r = (case r of Inr x \<Rightarrow> x | Inl _ \<Rightarrow> None)"

definition row_action_of :: "getter list \<Rightarrow> nat \<Rightarrow> row_action" where
  "row_action_of getters i =
     (case cell (extract_file_action (reconciliation_dedup True) i getters False) of
        Some (key, is_add) \<Rightarrow>
          FileRow key is_add (case cell (get_long (getters ! 5) i) of None \<Rightarrow> 0 | Some t \<Rightarrow> t)
      | None \<Rightarrow>
     (case cell (get_str (getters ! 11) i) of
        Some app \<Rightarrow> TxnRow app (cell (get_long (getters ! 12) i))
      | None \<Rightarrow>
     (case cell (get_str (getters ! 13) i) of
        Some domain \<Rightarrow> DomainRow domain (cell (get_bool (getters ! 14) i) = Some True)
      | None \<Rightarrow>
     (if cell (get_int (getters ! 10) i) \<noteq> None then ProtocolRow
      else if cell (get_str (getters ! 9) i) \<noteq> None then MetadataRow
      else OtherRow))))"

definition txn_expired :: "64 word option \<Rightarrow> 64 word option \<Rightarrow> bool" where
  "txn_expired expiration last_updated =
     (case (expiration, last_updated) of (Some e, Some t) \<Rightarrow> sint t \<le> sint e | _ \<Rightarrow> False)"

text \<open>One row, as a step on the state of the processor.\<close>

fun reconcile_row ::
  "reconciliation_processor \<Rightarrow> bool \<Rightarrow> row_action \<Rightarrow> bool \<times> reconciliation_processor" where
  "reconcile_row st is_log (FileRow k is_add t) =
     (k \<notin> rp_seen_file_keys st \<and> (is_add \<or> sint (minimum_file_retention_timestamp st) < sint t),
      if is_log then st\<lparr> rp_seen_file_keys := insert k (rp_seen_file_keys st) \<rparr> else st)"
| "reconcile_row st is_log (TxnRow app last_updated) =
     (if txn_expired (txn_expiration_timestamp st) last_updated then (False, st)
      else (app \<notin> rp_seen_txns st, st\<lparr> rp_seen_txns := insert app (rp_seen_txns st) \<rparr>))"
| "reconcile_row st is_log (DomainRow d removed) =
     (if removed then (False, st)
      else (d \<notin> rp_seen_domains st, st\<lparr> rp_seen_domains := insert d (rp_seen_domains st) \<rparr>))"
| "reconcile_row st is_log ProtocolRow = (\<not> rp_seen_protocol st, st\<lparr> rp_seen_protocol := True \<rparr>)"
| "reconcile_row st is_log MetadataRow = (\<not> rp_seen_metadata st, st\<lparr> rp_seen_metadata := True \<rparr>)"
| "reconcile_row st is_log OtherRow = (False, st)"

fun reconcile_rows ::
  "reconciliation_processor \<Rightarrow> (bool \<times> row_action) list \<Rightarrow> bool list \<times> reconciliation_processor" where
  "reconcile_rows st [] = ([], st)"
| "reconcile_rows st ((is_log, a) # es) =
     (case reconcile_row st is_log a of
        (b, st') \<Rightarrow> (case reconcile_rows st' es of (bs, st'') \<Rightarrow> (b # bs, st'')))"

section \<open>The visitor implements the reference\<close>

definition abs_visitor :: "reconciliation_visitor \<Rightarrow> reconciliation_processor" where
  "abs_visitor v =
     \<lparr> rp_seen_file_keys = v_files v, rp_seen_protocol = v_protocol v, rp_seen_metadata = v_metadata v,
       rp_seen_txns = v_txns v, rp_seen_domains = v_domains v,
       minimum_file_retention_timestamp = v_retention v, txn_expiration_timestamp = v_txn_expiration v \<rparr>"

lemma reconciliation_extract:
  "extract_file_action (reconciliation_dedup l) = extract_file_action (reconciliation_dedup l')"
  by (simp add: reconciliation_dedup_def file_action_deduplicator_def)

lemma reconciliation_check:
  "check_and_record_seen (reconciliation_dedup l) key seen = (key \<in> seen, if l then insert key seen else seen)"
  by (auto simp: reconciliation_dedup_def file_action_deduplicator_def)

text \<open>The counters: every kept action counts, and every kept add counts as an add.\<close>

definition is_add_row :: "row_action \<Rightarrow> bool" where
  "is_add_row a = (case a of FileRow _ is_add _ \<Rightarrow> is_add | _ \<Rightarrow> False)"

definition counted :: "reconciliation_visitor \<Rightarrow> reconciliation_visitor \<Rightarrow> bool \<Rightarrow> row_action \<Rightarrow> bool" where
  "counted v v' b a \<longleftrightarrow>
     v_actions_count v' = v_actions_count v + of_bool b \<and>
     v_add_actions_count v' = v_add_actions_count v + of_bool (b \<and> is_add_row a) \<and>
     v_is_log_batch v' = v_is_log_batch v"

text \<open>
  The outcome of a check: nothing found and nothing changed, or a row action of its kind handled
  as the reference does.
\<close>

definition handled ::
  "reconciliation_visitor \<Rightarrow> reconciliation_visitor \<Rightarrow> bool \<Rightarrow> row_action \<Rightarrow> bool" where
  "handled v v' b a \<longleftrightarrow>
     reconcile_row (abs_visitor v) (v_is_log_batch v) a = (b, abs_visitor v') \<and>
     v_actions_count v' = v_actions_count v \<and>
     v_add_actions_count v' = v_add_actions_count v + of_bool (b \<and> is_add_row a) \<and>
     v_is_log_batch v' = v_is_log_batch v"

lemma check_file_action_Inr:
  assumes "check_file_action i getters v = (Inr r, v')"
  shows "case cell (extract_file_action (reconciliation_dedup True) i getters False) of
      None \<Rightarrow> r = None \<and> v' = v
    | Some (k, is_add) \<Rightarrow> \<exists>b. r = Some b \<and>
        handled v v' b (FileRow k is_add (case cell (get_long (getters ! 5) i) of None \<Rightarrow> 0 | Some t \<Rightarrow> t))"
proof (cases "extract_file_action (reconciliation_dedup True) i getters False")
  case (Inl e)
  then show ?thesis
    using assms unfolding check_file_action_def reconciliation_extract [of "v_is_log_batch v" True] by simp
next
  case (Inr f)
  show ?thesis
  proof (cases f)
    case None
    then show ?thesis
      using assms Inr unfolding check_file_action_def reconciliation_extract [of "v_is_log_batch v" True]
      by (simp add: cell_def)
  next
    case (Some ka)
    obtain k is_add where ka: "ka = (k, is_add)" by fastforce
    have *: "(r, v') = (let v1 = v\<lparr> v_files := if v_is_log_batch v then insert k (v_files v) else v_files v \<rparr> in
        if k \<in> v_files v then (Some False, v1)
        else if is_add then (Some True, v1\<lparr> v_add_actions_count := v_add_actions_count v + 1 \<rparr>)
        else (Some (\<not> sint (case cell (get_long (getters ! 5) i) of None \<Rightarrow> 0 | Some t \<Rightarrow> t) \<le> sint (v_retention v)), v1))"
      using assms Inr Some ka
      unfolding check_file_action_def reconciliation_extract [of "v_is_log_batch v" True]
      by (auto simp: reconciliation_check is_expired_tombstone_def Let_def cell_def result_simps split: if_splits)
    show ?thesis
      using * Inr Some ka
      by (auto simp: cell_def handled_def abs_visitor_def is_add_row_def Let_def split: if_splits)
  qed
qed

lemma check_txn_action_Inr:
  assumes "check_txn_action i getters v = (Inr r, v')"
  shows "case cell (get_str (getters ! 11) i) of
      None \<Rightarrow> r = None \<and> v' = v
    | Some app \<Rightarrow> \<exists>b. r = Some b \<and> handled v v' b (TxnRow app (cell (get_long (getters ! 12) i)))"
  using assms
  by (auto simp: check_txn_action_def txn_expired_def Let_def cell_def handled_def abs_visitor_def
      is_add_row_def split: if_splits option.splits sum.splits)

lemma check_domain_metadata_action_Inr:
  assumes "check_domain_metadata_action i getters v = (Inr r, v')"
  shows "case cell (get_str (getters ! 13) i) of
      None \<Rightarrow> r = None \<and> v' = v
    | Some d \<Rightarrow> \<exists>b. r = Some b \<and> handled v v' b (DomainRow d (cell (get_bool (getters ! 14) i) = Some True))"
  using assms
  by (auto simp: check_domain_metadata_action_def cell_def handled_def abs_visitor_def
      is_add_row_def split: if_splits option.splits sum.splits)

lemma check_protocol_action_Inr:
  assumes "check_protocol_action i g v = (Inr r, v')"
  shows "case cell (get_int g i) of
      None \<Rightarrow> r = None \<and> v' = v | Some _ \<Rightarrow> \<exists>b. r = Some b \<and> handled v v' b ProtocolRow"
  using assms
  by (auto simp: check_protocol_action_def cell_def handled_def abs_visitor_def is_add_row_def
      split: option.splits sum.splits)

lemma check_metadata_action_Inr:
  assumes "check_metadata_action i g v = (Inr r, v')"
  shows "case cell (get_str g i) of
      None \<Rightarrow> r = None \<and> v' = v | Some _ \<Rightarrow> \<exists>b. r = Some b \<and> handled v v' b MetadataRow"
  using assms
  by (auto simp: check_metadata_action_def cell_def handled_def abs_visitor_def is_add_row_def
      split: option.splits sum.splits)

lemma or_else_check_Inr:
  assumes "or_else_check check rest v = (Inr b, v')"
  obtains "check v = (Inr (Some b), v')" | v1 where "check v = (Inr None, v1)" "rest v1 = (Inr b, v')"
  using assms by (auto simp: or_else_check_def split: prod.splits sum.splits option.splits)

lemma handled_row:
  assumes "or_else_check (check_file_action i getters)
             (or_else_check (check_txn_action i getters)
             (or_else_check (check_domain_metadata_action i getters)
             (or_else_check (check_protocol_action i (getters ! 10))
             (or_else_check (check_metadata_action i (getters ! 9)) (\<lambda>v. (Inr False, v)))))) v = (Inr b, v')"
  shows "handled v v' b (row_action_of getters i)"
  using assms
proof (rule or_else_check_Inr)
  assume "check_file_action i getters v = (Inr (Some b), v')"
  from check_file_action_Inr [OF this] show ?thesis by (auto simp: row_action_of_def split: option.splits)
next
  fix v1
  assume "check_file_action i getters v = (Inr None, v1)"
  from check_file_action_Inr [OF this]
  have v1: "cell (extract_file_action (reconciliation_dedup True) i getters False) = None" "v1 = v"
    by (auto split: option.splits)
  assume "or_else_check (check_txn_action i getters)
     (or_else_check (check_domain_metadata_action i getters)
     (or_else_check (check_protocol_action i (getters ! 10))
     (or_else_check (check_metadata_action i (getters ! 9)) (\<lambda>v. (Inr False, v))))) v1 = (Inr b, v')"
  then show ?thesis
  proof (rule or_else_check_Inr)
    assume "check_txn_action i getters v1 = (Inr (Some b), v')"
    from check_txn_action_Inr [OF this] show ?thesis using v1 by (auto simp: row_action_of_def split: option.splits)
  next
    fix v2
    assume "check_txn_action i getters v1 = (Inr None, v2)"
    from check_txn_action_Inr [OF this] have v2: "cell (get_str (getters ! 11) i) = None" "v2 = v"
      using v1 by (auto split: option.splits)
    assume "or_else_check (check_domain_metadata_action i getters)
       (or_else_check (check_protocol_action i (getters ! 10))
       (or_else_check (check_metadata_action i (getters ! 9)) (\<lambda>v. (Inr False, v)))) v2 = (Inr b, v')"
    then show ?thesis
    proof (rule or_else_check_Inr)
      assume "check_domain_metadata_action i getters v2 = (Inr (Some b), v')"
      from check_domain_metadata_action_Inr [OF this] show ?thesis
        using v1 v2 by (auto simp: row_action_of_def split: option.splits)
    next
      fix v3
      assume "check_domain_metadata_action i getters v2 = (Inr None, v3)"
      from check_domain_metadata_action_Inr [OF this] have v3: "cell (get_str (getters ! 13) i) = None" "v3 = v"
        using v2 by (auto split: option.splits)
      assume "or_else_check (check_protocol_action i (getters ! 10))
         (or_else_check (check_metadata_action i (getters ! 9)) (\<lambda>v. (Inr False, v))) v3 = (Inr b, v')"
      then show ?thesis
        using v1(1) v2(1) v3
        by (elim or_else_check_Inr)
          (auto simp: row_action_of_def handled_def is_add_row_def split: option.splits
            dest!: check_protocol_action_Inr check_metadata_action_Inr)
    qed
  qed
qed

lemma is_valid_action_Inr:
  assumes "is_valid_action i getters v = (Inr b, v')"
  shows "reconcile_row (abs_visitor v) (v_is_log_batch v) (row_action_of getters i) = (b, abs_visitor v') \<and>
    counted v v' b (row_action_of getters i)"
proof -
  obtain v1 where "handled v v1 b (row_action_of getters i)"
    "v' = (if b then v1\<lparr> v_actions_count := v_actions_count v1 + 1 \<rparr> else v1)"
    using assms handled_row by (fastforce simp: is_valid_action_def split: prod.splits sum.splits)
  then show ?thesis by (auto simp: handled_def counted_def abs_visitor_def)
qed

lemma reconcile_rows_parts [simp]:
  "fst (reconcile_rows st []) = []" "snd (reconcile_rows st []) = st"
  "fst (reconcile_rows st ((l, a) # es)) =
     fst (reconcile_row st l a) # fst (reconcile_rows (snd (reconcile_row st l a)) es)"
  "snd (reconcile_rows st ((l, a) # es)) = snd (reconcile_rows (snd (reconcile_row st l a)) es)"
  by (simp_all split: prod.splits)

declare reconcile_rows.simps [simp del]

lemma reconcile_rows_append [simp]:
  "fst (reconcile_rows st (es @ fs)) =
     fst (reconcile_rows st es) @ fst (reconcile_rows (snd (reconcile_rows st es)) fs)"
  "snd (reconcile_rows st (es @ fs)) = snd (reconcile_rows (snd (reconcile_rows st es)) fs)"
  by (induction es arbitrary: st) auto

lemma reconcile_rows_length [simp]: "length (fst (reconcile_rows st es)) = length es"
  by (induction es arbitrary: st) auto

lemma reconcile_row_constants [simp]:
  "minimum_file_retention_timestamp (snd (reconcile_row st l a)) = minimum_file_retention_timestamp st"
  "txn_expiration_timestamp (snd (reconcile_row st l a)) = txn_expiration_timestamp st"
  by (cases a; simp)+

lemma reconcile_rows_constants [simp]:
  "minimum_file_retention_timestamp (snd (reconcile_rows st es)) = minimum_file_retention_timestamp st"
  "txn_expiration_timestamp (snd (reconcile_rows st es)) = txn_expiration_timestamp st"
  by (induction es arbitrary: st) auto

text \<open>How many actions, and how many adds, are kept.\<close>

definition kept_count :: "bool list \<Rightarrow> row_action list \<Rightarrow> nat \<times> nat" where
  "kept_count bs as = (length (filter id bs), length (filter (\<lambda>(b, a). b \<and> is_add_row a) (zip bs as)))"

lemma reconciliation_loop_Inr:
  assumes "reconciliation_loop (\<lambda>i. is_valid_action i getters) [m..<n] sel v = (Inr sel', v')" "n \<le> length sel" "m \<le> n"
    and out: "reconcile_rows (abs_visitor v) (map (Pair (v_is_log_batch v)) (map (row_action_of getters) [m..<n])) = (bs, st)"
  shows "sel' = take m sel @ bs @ drop n sel \<and> abs_visitor v' = st \<and>
    v_actions_count v' = v_actions_count v + of_nat (fst (kept_count bs (map (row_action_of getters) [m..<n]))) \<and>
    v_add_actions_count v' = v_add_actions_count v + of_nat (snd (kept_count bs (map (row_action_of getters) [m..<n])))"
  using assms
proof (induction "n - m" arbitrary: m sel v bs)
  case 0
  then show ?case by (simp add: kept_count_def reconcile_rows.simps)
next
  case (Suc d)
  have mn: "m < n" and up: "[m..<n] = m # [Suc m..<n]" using Suc.hyps(2) by (simp_all add: upt_rec)
  let ?a = "row_action_of getters m" and ?as = "map (row_action_of getters) [Suc m..<n]"
  obtain b v1 where step: "is_valid_action m getters v = (Inr b, v1)"
    and rest: "reconciliation_loop (\<lambda>i. is_valid_action i getters) [Suc m..<n] (sel[m := b]) v1 = (Inr sel', v')"
    using Suc.prems(1) by (auto simp: up split: prod.splits sum.splits)
  note s = is_valid_action_Inr [OF step]
  have log: "v_is_log_batch v1 = v_is_log_batch v" using s by (simp add: counted_def)
  obtain bs1 where bs: "bs = b # bs1"
    and out1: "reconcile_rows (abs_visitor v1) (map (Pair (v_is_log_batch v1)) ?as) = (bs1, st)"
    using Suc.prems(4) s log by (auto simp: up reconcile_rows.simps split: prod.splits)
  have IH: "sel' = take (Suc m) (sel[m := b]) @ bs1 @ drop n (sel[m := b]) \<and> abs_visitor v' = st \<and>
    v_actions_count v' = v_actions_count v1 + of_nat (fst (kept_count bs1 ?as)) \<and>
    v_add_actions_count v' = v_add_actions_count v1 + of_nat (snd (kept_count bs1 ?as))"
    using Suc.hyps(1) [OF _ rest _ _ out1] Suc.hyps(2) Suc.prems(2) mn by simp
  moreover have "take (Suc m) (sel[m := b]) = take m sel @ [b]" "drop n (sel[m := b]) = drop n sel"
    using mn Suc.prems(2) by (simp_all add: take_Suc_conv_app_nth)
  moreover have "kept_count bs (?a # ?as) =
      (of_bool b + fst (kept_count bs1 ?as), of_bool (b \<and> is_add_row ?a) + snd (kept_count bs1 ?as))"
    by (simp add: kept_count_def bs)
  ultimately show ?case
    using s by (simp add: up bs counted_def)
qed

section \<open>Batches\<close>

definition batch_rows :: "actions_batch \<Rightarrow> row_action list" where
  "batch_rows b =
     (case ed_getters (ab_actions b) reconciliation_columns of
        Inr getters \<Rightarrow> map (row_action_of getters) [0..<ed_len (ab_actions b)]
      | Inl _ \<Rightarrow> [])"

lemma abs_new_visitor [simp]: "abs_visitor (new_visitor self l) = self"
  by (simp add: abs_visitor_def new_visitor_def)

lemma reconcile_batch_Inr:
  assumes "reconcile_actions_batch self b = (Inr out, self')"
  defines "r \<equiv> reconcile_rows self (map (Pair (ab_is_log_batch b)) (batch_rows b))"
  shows "fd_selection (rb_filtered_data out) = fst r" "self' = snd r"
    "rb_actions_count out = of_nat (fst (kept_count (fst r) (batch_rows b)))"
    "rb_add_actions_count out = of_nat (snd (kept_count (fst r) (batch_rows b)))"
proof -
  let ?acts = "ab_actions b" and ?v = "new_visitor self (ab_is_log_batch b)"
  obtain sel v where vis: "visit_reconciliation ?acts (replicate (ed_len ?acts) True) ?v = (Inr sel, v)"
    and out: "fd_selection (rb_filtered_data out) = sel" "rb_actions_count out = v_actions_count v"
      "rb_add_actions_count out = v_add_actions_count v"
    and self: "self' = self\<lparr> rp_seen_file_keys := v_files v, rp_seen_txns := v_txns v, rp_seen_domains := v_domains v,
      rp_seen_protocol := v_protocol v, rp_seen_metadata := v_metadata v \<rparr>"
    using assms(1)
    by (auto simp: reconcile_actions_batch_def Let_def filtered_data_try_new_def result_simps
        split: prod.splits sum.splits if_splits)
  obtain getters where g: "ed_getters ?acts reconciliation_columns = Inr getters"
    and loop: "reconciliation_loop (\<lambda>i. is_valid_action i getters) [0..<ed_len ?acts]
      (replicate (ed_len ?acts) True) ?v = (Inr sel, v)"
    using vis by (auto simp: visit_reconciliation_def split: sum.splits if_splits)
  have rows: "batch_rows b = map (row_action_of getters) [0..<ed_len ?acts]"
    using g by (simp add: batch_rows_def)
  have log: "v_is_log_batch ?v = ab_is_log_batch b" "v_actions_count ?v = 0" "v_add_actions_count ?v = 0"
    by (simp_all add: new_visitor_def)
  have out_r: "reconcile_rows (abs_visitor ?v) (map (Pair (v_is_log_batch ?v)) (map (row_action_of getters) [0..<ed_len ?acts])) =
      (fst r, snd r)"
    unfolding rows [symmetric] log by (simp add: r_def)
  note l = reconciliation_loop_Inr [OF loop _ _ out_r, folded rows, unfolded log]
  show "fd_selection (rb_filtered_data out) = fst r" using l out by simp
  have abs: "abs_visitor v = snd r" using l by simp
  have "minimum_file_retention_timestamp (abs_visitor v) = minimum_file_retention_timestamp self"
    "txn_expiration_timestamp (abs_visitor v) = txn_expiration_timestamp self"
    unfolding abs r_def by simp_all
  then have "v_retention v = minimum_file_retention_timestamp self" "v_txn_expiration v = txn_expiration_timestamp self"
    by (simp_all add: abs_visitor_def)
  then show "self' = snd r"
    unfolding abs [symmetric] self abs_visitor_def by (cases self) simp
  show "rb_actions_count out = of_nat (fst (kept_count (fst r) (batch_rows b)))"
    "rb_add_actions_count out = of_nat (snd (kept_count (fst r) (batch_rows b)))"
    using l out by simp_all
qed

section \<open>Runs over batches\<close>

text \<open>The rows of all batches in replay order, each with whether it is from a log batch.\<close>

definition replay_rows :: "actions_batch list \<Rightarrow> (bool \<times> row_action) list" where
  "replay_rows bs = concat (map (\<lambda>b. map (Pair (ab_is_log_batch b)) (batch_rows b)) bs)"

text \<open>A run in which every batch succeeds: its outputs, before empty ones are dropped.\<close>

fun reconcile_run ::
  "reconciliation_processor \<Rightarrow> actions_batch list \<Rightarrow> reconciliation_batch delta_result list \<times> reconciliation_processor" where
  "reconcile_run self [] = ([], self)"
| "reconcile_run self (b # bs) =
     (case reconcile_actions_batch self b of
        (r, self') \<Rightarrow> (case reconcile_run self' bs of (rs, self'') \<Rightarrow> (r # rs, self'')))"

definition batch_has_selected_rows :: "reconciliation_batch \<Rightarrow> bool" where
  "batch_has_selected_rows b = filtered_has_selected_rows (rb_filtered_data b)"

definition reconciliation_iter ::
  "reconciliation_processor \<Rightarrow> actions_batch delta_result list \<Rightarrow> reconciliation_batch delta_result list" where
  "reconciliation_iter self = process_actions_iter reconcile_actions_batch batch_has_selected_rows self"

lemma reconciliation_iter_run:
  "fst (reconcile_run self bs) = map Inr outs \<Longrightarrow>
   reconciliation_iter self (map Inr bs) = map Inr (filter batch_has_selected_rows outs)"
  by (induction self bs arbitrary: outs rule: reconcile_run.induct)
    (auto simp: reconciliation_iter_def split: prod.splits)

lemma kept_count_append:
  "length bs = length as \<Longrightarrow>
   kept_count (bs @ bs') (as @ as') =
     (fst (kept_count bs as) + fst (kept_count bs' as'), snd (kept_count bs as) + snd (kept_count bs' as'))"
  by (simp add: kept_count_def)

lemma reconcile_run_rows:
  assumes "reconcile_run self bs = (map Inr outs, self')"
  defines "r \<equiv> reconcile_rows self (replay_rows bs)"
  shows "concat (map (fd_selection \<circ> rb_filtered_data) outs) = fst r \<and> self' = snd r \<and>
    sum_list (map rb_actions_count outs) = of_nat (fst (kept_count (fst r) (map snd (replay_rows bs)))) \<and>
    sum_list (map rb_add_actions_count outs) = of_nat (snd (kept_count (fst r) (map snd (replay_rows bs))))"
  using assms(1) unfolding r_def
proof (induction bs arbitrary: self outs)
  case Nil
  then show ?case by (simp add: replay_rows_def kept_count_def)
next
  case (Cons b bs)
  obtain out self1 outs1 where out: "outs = out # outs1" "reconcile_actions_batch self b = (Inr out, self1)"
    and rest: "reconcile_run self1 bs = (map Inr outs1, self')"
    using Cons.prems by (auto simp: Cons_eq_map_conv split: prod.splits)
  let ?rows = "map (Pair (ab_is_log_batch b)) (batch_rows b)"
  have rows: "replay_rows (b # bs) = ?rows @ replay_rows bs" by (simp add: replay_rows_def)
  have len: "length (fst (reconcile_rows self ?rows)) = length (batch_rows b)" by simp
  show ?case
    using reconcile_batch_Inr [OF out(2)] Cons.IH [OF rest]
    by (simp add: rows out(1) kept_count_append len comp_def)
qed

section \<open>What is kept\<close>

text \<open>
  The contract of reconciliation. Of the rows newer than row \<open>i\<close>, only those count which
  \<open>recorded\<close> describes: file actions of log batches, transactions that have not expired, domains
  that are not removed.
\<close>

definition reconciled :: "64 word \<Rightarrow> 64 word option \<Rightarrow> (bool \<times> row_action) list \<Rightarrow> nat \<Rightarrow> bool" where
  "reconciled retention expiration es i =
     (let newer = set (take i es) in
      case snd (es ! i) of
        FileRow k is_add t \<Rightarrow>
          (is_add \<or> sint retention < sint t) \<and> (\<forall>(l, a) \<in> newer. case a of FileRow k' _ _ \<Rightarrow> l \<longrightarrow> k' \<noteq> k | _ \<Rightarrow> True)
      | TxnRow app u \<Rightarrow>
          \<not> txn_expired expiration u \<and>
          (\<forall>(l, a) \<in> newer. case a of TxnRow app' u' \<Rightarrow> txn_expired expiration u' \<or> app' \<noteq> app | _ \<Rightarrow> True)
      | DomainRow d removed \<Rightarrow>
          \<not> removed \<and> (\<forall>(l, a) \<in> newer. case a of DomainRow d' removed' \<Rightarrow> removed' \<or> d' \<noteq> d | _ \<Rightarrow> True)
      | ProtocolRow \<Rightarrow> ProtocolRow \<notin> snd ` newer
      | MetadataRow \<Rightarrow> MetadataRow \<notin> snd ` newer
      | OtherRow \<Rightarrow> False)"

lemma reconcile_rows_state:
  "rp_seen_file_keys (snd (reconcile_rows st es)) =
     rp_seen_file_keys st \<union> {k. \<exists>a t. (True, FileRow k a t) \<in> set es}"
  "rp_seen_protocol (snd (reconcile_rows st es)) = (rp_seen_protocol st \<or> ProtocolRow \<in> snd ` set es)"
  "rp_seen_metadata (snd (reconcile_rows st es)) = (rp_seen_metadata st \<or> MetadataRow \<in> snd ` set es)"
  "rp_seen_txns (snd (reconcile_rows st es)) =
     rp_seen_txns st \<union> {app. \<exists>l u. (l, TxnRow app u) \<in> set es \<and> \<not> txn_expired (txn_expiration_timestamp st) u}"
  "rp_seen_domains (snd (reconcile_rows st es)) = rp_seen_domains st \<union> {d. \<exists>l. (l, DomainRow d False) \<in> set es}"
proof (induction es arbitrary: st)
  case (Cons e es)
  obtain l a where [simp]: "e = (l, a)" by fastforce
  { case 1 then show ?case by (cases a) (auto simp: Cons) }
  { case 2 then show ?case by (cases a) (auto simp: Cons) }
  { case 3 then show ?case by (cases a) (auto simp: Cons) }
  { case 4 then show ?case by (cases a) (auto simp: Cons) }
  { case 5 then show ?case by (cases a) (auto simp: Cons) }
qed auto

lemma reconcile_rows_nth:
  assumes "i < length es"
  shows "fst (reconcile_rows st es) ! i =
    fst (reconcile_row (snd (reconcile_rows st (take i es))) (fst (es ! i)) (snd (es ! i)))"
proof -
  have "fst (reconcile_rows st es) ! i = fst (reconcile_rows st (take i es @ es ! i # drop (Suc i) es)) ! i"
    using assms by (simp only: id_take_nth_drop [symmetric])
  then show ?thesis
    using assms by (cases "es ! i") (simp only: reconcile_rows_append, simp add: nth_append)
qed

lemma reconcile_rows_reconciled:
  "fst (reconcile_rows (new_reconciliation_processor retention expiration) es) =
     map (reconciled retention expiration es) [0..<length es]"
proof (rule nth_equalityI)
  fix i
  assume "i < length (fst (reconcile_rows (new_reconciliation_processor retention expiration) es))"
  then have i: "i < length es" by simp
  obtain l a where e: "es ! i = (l, a)" by fastforce
  have "fst (reconcile_rows (new_reconciliation_processor retention expiration) es) ! i =
      reconciled retention expiration es i"
    unfolding reconcile_rows_nth [OF i] e
    by (cases a)
      (auto simp: reconciled_def e Let_def reconcile_rows_state new_reconciliation_processor_def
        split: row_action.splits)
  then show "fst (reconcile_rows (new_reconciliation_processor retention expiration) es) ! i =
      map (reconciled retention expiration es) [0..<length es] ! i"
    using i by simp
qed simp

text \<open>An output without selected rows counts nothing, so dropping it leaves the totals.\<close>

lemma no_selected_rows_count:
  assumes "reconcile_actions_batch self b = (Inr out, self')" "\<not> batch_has_selected_rows out"
  shows "rb_actions_count out = 0" "rb_add_actions_count out = 0"
proof -
  have "True \<notin> set (fd_selection (rb_filtered_data out))"
    using assms(2) by (simp add: batch_has_selected_rows_def filtered_has_selected_rows_def)
  then have "kept_count (fd_selection (rb_filtered_data out)) as = (0, 0)" for as
    by (auto simp: kept_count_def filter_empty_conv dest: set_zip_leftD)
  then show "rb_actions_count out = 0" "rb_add_actions_count out = 0"
    using reconcile_batch_Inr [OF assms(1)] by simp_all
qed

lemma reconcile_run_drop_empty:
  assumes "reconcile_run self bs = (map Inr outs, self')"
  shows "sum_list (map rb_actions_count (filter batch_has_selected_rows outs)) = sum_list (map rb_actions_count outs)"
    "sum_list (map rb_add_actions_count (filter batch_has_selected_rows outs)) = sum_list (map rb_add_actions_count outs)"
  using assms
proof (induction bs arbitrary: self outs)
  case (Cons b bs)
  { case 1 then show ?case using Cons.IH(1)
      by (auto simp: Cons_eq_map_conv no_selected_rows_count split: prod.splits) }
  { case 2 then show ?case using Cons.IH(2)
      by (auto simp: Cons_eq_map_conv no_selected_rows_count split: prod.splits) }
qed simp_all

lemma consume_iterator_Inr:
  "consume_iterator (map Inr outs) st =
     (map (Inr \<circ> rb_filtered_data) outs,
      st\<lparr> is_actions_count := is_actions_count st + sum_list (map rb_actions_count outs),
          is_add_actions_count := is_add_actions_count st + sum_list (map rb_add_actions_count outs),
          is_exhausted := True \<rparr>)"
  by (induction outs arbitrary: st) (simp_all add: transform_batch_def add.assoc)

definition default_iterator_state :: iterator_state where
  "default_iterator_state = \<lparr> is_actions_count = 0, is_add_actions_count = 0, is_exhausted = False \<rparr>"

lemma kept_count_map:
  "kept_count (map P [0..<length as]) as =
     (card {i. i < length as \<and> P i}, card {i. i < length as \<and> P i \<and> is_add_row (as ! i)})"
proof -
  have "zip (map P [0..<length as]) as = map (\<lambda>i. (P i, as ! i)) [0..<length as]"
    by (rule nth_equalityI) simp_all
  then show ?thesis
    by (simp add: kept_count_def length_filter_conv_card conj_ac cong: conj_cong)
qed


text \<open>The file events of the rows, and a checkpoint in which every file key occurs once.\<close>

definition file_event_of :: "row_action \<Rightarrow> (file_action_key \<times> bool) option" where
  "file_event_of a = (case a of FileRow k is_add _ \<Rightarrow> Some (k, is_add) | _ \<Rightarrow> None)"

definition file_keys_once :: "row_action list \<Rightarrow> bool" where
  "file_keys_once as \<longleftrightarrow> distinct (concat (map (\<lambda>a. case a of FileRow k _ _ \<Rightarrow> [k] | _ \<Rightarrow> []) as))"

lemma file_keys_once_nth:
  assumes "file_keys_once as" "i < j" "j < length as" "as ! i = FileRow k a t" "as ! j = FileRow k b u"
  shows False
proof -
  let ?f = "\<lambda>a. case a of FileRow k _ _ \<Rightarrow> [k] | _ \<Rightarrow> []"
  have "distinct (concat (map ?f (take j as @ as ! j # drop (Suc j) as)))"
    using assms(1) unfolding id_take_nth_drop [OF assms(3), symmetric] by (simp add: file_keys_once_def)
  then have "k \<notin> set (concat (map ?f (take j as)))" using assms(5) by (simp only: map_append concat_append) auto
  moreover have "as ! i \<in> set (take j as)" using assms(2,3) by (auto simp: in_set_conv_nth)
  ultimately have "k \<notin> set (?f (as ! i))" unfolding set_concat set_map by blast
  then show False using assms(4) by simp
qed

text \<open>
  C29. The adds that reconciliation keeps are the files of the table. When the log batches precede
  the checkpoint's batches and the checkpoint names every file key at most once (adds and
  tombstones together), the kept adds are exactly the rows that the state of the table holds
  after applying all file actions oldest first.
\<close>

theorem reconciliation_live_files:
  assumes run: "reconcile_run (new_reconciliation_processor retention expiration) (ls @ cs) = (map Inr outs, self')"
    and logs: "list_all ab_is_log_batch ls" and cps: "list_all (\<lambda>b. \<not> ab_is_log_batch b) cs"
    and once: "file_keys_once (concat (map batch_rows cs))"
    and rows: "rows = concat (map batch_rows (ls @ cs))" and i: "i < length rows"
  shows "concat (map (fd_selection \<circ> rb_filtered_data) outs) ! i \<and> is_add_row (rows ! i) \<longleftrightarrow>
    (\<exists>k. table_state (zip (map file_event_of rows) [0..<length rows]) k = Some i)"
proof -
  let ?logs = "concat (map batch_rows ls)" and ?cps = "concat (map batch_rows cs)"
  define es where "es = replay_rows (ls @ cs)"
  have *: "replay_rows ls = map (Pair True) ?logs" "replay_rows cs = map (Pair False) ?cps"
    using logs cps by (induction ls, auto simp: replay_rows_def) (induction cs, auto)
  have es: "es = map (Pair True) ?logs @ map (Pair False) ?cps"
    using * by (simp add: es_def replay_rows_def)
  have len: "length es = length rows" by (simp add: es rows)
  have nth: "es ! j = (j < length ?logs, rows ! j)" if "j < length rows" for j
    using that by (auto simp: es rows nth_append)
  have sel: "concat (map (fd_selection \<circ> rb_filtered_data) outs) ! i = reconciled retention expiration es i"
    using reconcile_run_rows [OF run] i len unfolding reconcile_rows_reconciled es_def [symmetric] by simp
  have newer: "(\<forall>(l, a) \<in> set (take i es). case a of FileRow k' _ _ \<Rightarrow> l \<longrightarrow> k' \<noteq> k | _ \<Rightarrow> True) \<longleftrightarrow>
      (\<forall>j < i. \<forall>a. map file_event_of rows ! j \<noteq> Some (k, a))"
    if k: "rows ! i = FileRow k True t" for k t
  proof -
    have cp: False if "j < i" "length ?logs \<le> j" "rows ! j = FileRow k a u" for j a u
    proof -
      have "j - length ?logs < i - length ?logs" "i - length ?logs < length ?cps" using that i by (auto simp: rows)
      moreover have "?cps ! (j - length ?logs) = FileRow k a u" "?cps ! (i - length ?logs) = FileRow k True t"
        using that k by (auto simp: rows nth_append)
      ultimately show False by (rule file_keys_once_nth [OF once])
    qed
    have set_take_nth: "set (take i es) = (\<lambda>j. (j < length ?logs, rows ! j)) ` {..<i}"
      using nth_image [of i es] i len nth by (simp add: atLeast0LessThan cong: image_cong_simp)
    have "(\<forall>(l, a) \<in> set (take i es). case a of FileRow k' _ _ \<Rightarrow> l \<longrightarrow> k' \<noteq> k | _ \<Rightarrow> True) \<longleftrightarrow>
        (\<forall>j < i. case rows ! j of FileRow k' _ _ \<Rightarrow> j < length ?logs \<longrightarrow> k' \<noteq> k | _ \<Rightarrow> True)"
      unfolding set_take_nth ball_simps(9) by (simp add: Ball_def)
    also have "\<dots> \<longleftrightarrow> (\<forall>j < i. \<forall>a. map file_event_of rows ! j \<noteq> Some (k, a))"
      using i cp by (fastforce simp: file_event_of_def split: row_action.splits)
    finally show ?thesis .
  qed
  have "table_state (zip (map file_event_of rows) [0..<length rows]) k = Some i \<longleftrightarrow>
      file_event_of (rows ! i) = Some (k, True) \<and> (\<forall>j < i. \<forall>a. map file_event_of rows ! j \<noteq> Some (k, a))" for k
    using table_state_indexed [of i "map file_event_of rows" k] i by simp
  then show ?thesis
    using newer nth [OF i] unfolding sel
    by (cases "rows ! i") (auto simp: reconciled_def is_add_row_def file_event_of_def)
qed

section \<open>Retention thresholds\<close>

lemma sint_of_nat_64: "n < 2 ^ 63 \<Longrightarrow> sint (of_nat n :: 64 word) = int n"
  by (simp add: signed_of_nat signed_take_bit_int_eq_self)

lemma sint_sub_64:
  assumes "n < 2 ^ 63" "m < 2 ^ 63"
  shows "sint (of_nat n - of_nat m :: 64 word) = int n - int m"
proof -
  have "- (2 ^ 63) \<le> int n - int m" "int n - int m < 2 ^ 63" using assms by auto
  then have "signed_take_bit 63 (int n - int m) = int n - int m"
    by (intro signed_take_bit_int_eq_self) auto
  moreover have "(of_nat n - of_nat m :: 64 word) = word_of_int (int n - int m)" by simp
  ultimately show ?thesis by (simp add: signed_of_int del: of_int_diff)
qed

text \<open>
  The retention threshold is the exact difference of the current time and the retention
  period (seven days when the table sets none): the subtraction of the two \<open>i64\<close> values never
  wraps, and the function fails exactly when one of the two exceeds the range of \<open>i64\<close>. The
  threshold for transactions is unset when the table has no retention for them, and likewise
  exact otherwise.
\<close>

theorem retention_timestamps_exact:
  defines "period r \<equiv> (case r of None \<Rightarrow> 604800000 | Some d \<Rightarrow> d)"
  shows "((\<exists>t. deleted_file_retention_timestamp_with_time r now = Inr t \<and> sint t = int now - int (period r)) \<longleftrightarrow>
      now < 2 ^ 63 \<and> period r < 2 ^ 63) \<and>
    ((\<exists>e. deleted_file_retention_timestamp_with_time r now = Inl e) \<longleftrightarrow> 2 ^ 63 \<le> now \<or> 2 ^ 63 \<le> period r) \<and>
    calculate_transaction_expiration_timestamp None clock = Inr None \<and>
    ((\<exists>t. calculate_transaction_expiration_timestamp (Some d) (i64_try_from now e) = Inr (Some t) \<and>
        sint t = int now - int d) \<longleftrightarrow> now < 2 ^ 63 \<and> d < 2 ^ 63)"
  by (auto simp: period_def deleted_file_retention_timestamp_with_time_def i64_try_from_def Let_def
      DEFAULT_RETENTION_SECS_def result_simps calculate_transaction_expiration_timestamp_def sint_sub_64
      split: option.splits)

section \<open>Examples\<close>

text \<open>
  A log batch with a metadata and a protocol action, a remove of \<open>f\<close> at time 5, transactions of
  application \<open>app\<close> at time 9 and time 1, and a removal of domain \<open>d\<close>; then a checkpoint batch
  with adds of \<open>f\<close> and \<open>g\<close> and the older metadata of domain \<open>d\<close>.
\<close>

definition cell_getter ::
  "string option list \<Rightarrow> 32 word option list \<Rightarrow> 64 word option list \<Rightarrow> bool option list \<Rightarrow> getter" where
  "cell_getter ss is ls bs =
     \<lparr> get_str = \<lambda>i. Inr (ss ! i), get_int = \<lambda>i. Inr (is ! i), get_long = \<lambda>i. Inr (ls ! i),
       get_bool = \<lambda>i. Inr (bs ! i), get_map = \<lambda>_. Inr None, get_list = \<lambda>_. Inr None \<rparr>"

definition row_data :: "row_action list \<Rightarrow> engine_data" where
  "row_data rows =
     (let ss = (\<lambda>f. cell_getter (map f rows) [] [] []);
          nn = cell_getter (map (\<lambda>_. None) rows) (map (\<lambda>_. None) rows) [] [] in
      \<lparr> ed_len = length rows,
        ed_getters = \<lambda>_. Inr
          [ss (\<lambda>r. case r of FileRow (FileActionKey p _) True _ \<Rightarrow> Some p | _ \<Rightarrow> None), nn, nn, nn,
           ss (\<lambda>r. case r of FileRow (FileActionKey p _) False _ \<Rightarrow> Some p | _ \<Rightarrow> None),
           cell_getter [] [] (map (\<lambda>r. case r of FileRow _ False t \<Rightarrow> Some t | _ \<Rightarrow> None) rows) [],
           nn, nn, nn,
           ss (\<lambda>r. case r of MetadataRow \<Rightarrow> Some ''m'' | _ \<Rightarrow> None),
           cell_getter [] (map (\<lambda>r. case r of ProtocolRow \<Rightarrow> Some 1 | _ \<Rightarrow> None) rows) [] [],
           ss (\<lambda>r. case r of TxnRow app _ \<Rightarrow> Some app | _ \<Rightarrow> None),
           cell_getter [] [] (map (\<lambda>r. case r of TxnRow _ u \<Rightarrow> u | _ \<Rightarrow> None) rows) [],
           ss (\<lambda>r. case r of DomainRow d _ \<Rightarrow> Some d | _ \<Rightarrow> None),
           cell_getter [] [] [] (map (\<lambda>r. case r of DomainRow _ b \<Rightarrow> Some b | _ \<Rightarrow> None) rows)] \<rparr>)"

definition ex_key :: "string \<Rightarrow> file_action_key" where
  "ex_key p = FileActionKey p None"

definition log_rows :: "row_action list" where
  "log_rows = [MetadataRow, ProtocolRow, FileRow (ex_key ''f'') False 5, TxnRow ''app'' (Some 9), TxnRow ''app'' (Some 1),
     DomainRow ''d'' True]"

definition checkpoint_rows :: "row_action list" where
  "checkpoint_rows = [FileRow (ex_key ''f'') True 0, FileRow (ex_key ''g'') True 0, DomainRow ''d'' False, MetadataRow]"

definition log_batch :: actions_batch where
  "log_batch = \<lparr> ab_actions = row_data log_rows, ab_is_log_batch = True \<rparr>"

definition checkpoint_batch :: actions_batch where
  "checkpoint_batch = \<lparr> ab_actions = row_data checkpoint_rows, ab_is_log_batch = False \<rparr>"

definition ex_outputs :: "reconciliation_batch list" where
  "ex_outputs =
     [\<lparr> rb_filtered_data = \<lparr> fd_data = row_data log_rows, fd_selection = [True, True, True, True, False, False] \<rparr>,
        rb_actions_count = 4, rb_add_actions_count = 0 \<rparr>,
      \<lparr> rb_filtered_data = \<lparr> fd_data = row_data checkpoint_rows, fd_selection = [False, True, True, False] \<rparr>,
        rb_actions_count = 2, rb_add_actions_count = 1 \<rparr>]"

lemmas reconciliation_eval = row_data_def cell_getter_def Let_def reconcile_actions_batch_def visit_reconciliation_def
  is_valid_action_def or_else_check_def check_file_action_def check_txn_action_def check_domain_metadata_action_def
  check_protocol_action_def check_metadata_action_def is_expired_tombstone_def reconciliation_dedup_def
  file_action_deduplicator_def extract_add_or_remove_def extract_dv_unique_id_def filtered_data_try_new_def
  new_visitor_def new_reconciliation_processor_def ex_key_def

lemma ex_reconcile_log_batch:
  "reconcile_actions_batch (new_reconciliation_processor 2 (Some 3)) log_batch =
     (Inr (ex_outputs ! 0),
      \<lparr> rp_seen_file_keys = {ex_key ''f''}, rp_seen_protocol = True, rp_seen_metadata = True, rp_seen_txns = {''app''},
        rp_seen_domains = {}, minimum_file_retention_timestamp = 2, txn_expiration_timestamp = Some 3 \<rparr>)"
  by (simp add: log_batch_def ex_outputs_def log_rows_def reconciliation_eval upt_rec)

lemma ex_reconcile_checkpoint_batch:
  "reconcile_actions_batch
     \<lparr> rp_seen_file_keys = {ex_key ''f''}, rp_seen_protocol = True, rp_seen_metadata = True, rp_seen_txns = {''app''},
       rp_seen_domains = {}, minimum_file_retention_timestamp = 2, txn_expiration_timestamp = Some 3 \<rparr> checkpoint_batch =
     (Inr (ex_outputs ! 1),
      \<lparr> rp_seen_file_keys = {ex_key ''f''}, rp_seen_protocol = True, rp_seen_metadata = True, rp_seen_txns = {''app''},
        rp_seen_domains = {''d''}, minimum_file_retention_timestamp = 2, txn_expiration_timestamp = Some 3 \<rparr>)"
  by (simp add: checkpoint_batch_def ex_outputs_def checkpoint_rows_def reconciliation_eval upt_rec)

lemma ex_reconcile_run:
  "\<exists>self'. reconcile_run (new_reconciliation_processor 2 (Some 3)) [log_batch, checkpoint_batch] = (map Inr ex_outputs, self')"
  by (simp add: ex_reconcile_log_batch ex_reconcile_checkpoint_batch) (simp add: ex_outputs_def)

lemma ex_batch_rows: "batch_rows log_batch = log_rows" "batch_rows checkpoint_batch = checkpoint_rows"
  by (simp_all add: batch_rows_def row_action_of_def cell_def log_batch_def checkpoint_batch_def log_rows_def
      checkpoint_rows_def reconciliation_eval upt_rec)


theorem reconciliation_live_files_witness:
  "\<exists>k. table_state (zip (map file_event_of (log_rows @ checkpoint_rows)) [0..<10]) k = Some 7"
proof -
  obtain self' where run:
    "reconcile_run (new_reconciliation_processor 2 (Some 3)) ([log_batch] @ [checkpoint_batch]) = (map Inr ex_outputs, self')"
    using ex_reconcile_run by auto
  have once: "file_keys_once (concat (map batch_rows [checkpoint_batch]))"
    by (simp add: ex_batch_rows checkpoint_rows_def file_keys_once_def ex_key_def)
  have log: "list_all ab_is_log_batch [log_batch]" "list_all (\<lambda>b. \<not> ab_is_log_batch b) [checkpoint_batch]"
    by (simp_all add: log_batch_def checkpoint_batch_def)
  have len: "length (log_rows @ checkpoint_rows) = 10" by (simp add: log_rows_def checkpoint_rows_def)
  have rows: "log_rows @ checkpoint_rows = concat (map batch_rows ([log_batch] @ [checkpoint_batch]))"
    by (simp add: ex_batch_rows)
  have "concat (map (fd_selection \<circ> rb_filtered_data) ex_outputs) ! 7 \<and> is_add_row ((log_rows @ checkpoint_rows) ! 7)"
    by (simp add: ex_outputs_def log_rows_def checkpoint_rows_def is_add_row_def)
  then show ?thesis
    using reconciliation_live_files [OF run log once rows, of 7] len by simp
qed

section \<open>Where the contract is not what the protocol asks\<close>

text \<open>
  A removed domain is not recorded as seen, so the older metadata of the domain, which the
  removal supersedes, is kept: a checkpoint or compaction over both resurrects the domain.
\<close>

lemma removed_domain_resurrected:
  "\<exists>out self'. reconcile_actions_batch (new_reconciliation_processor 2 None)
       \<lparr> ab_actions = row_data [DomainRow ''d'' True, DomainRow ''d'' False], ab_is_log_batch = True \<rparr> = (Inr out, self') \<and>
     fd_selection (rb_filtered_data out) = [False, True]"
  by (simp add: reconciliation_eval upt_rec)

text \<open>
  An expired transaction is not recorded as seen, so an older transaction of the same application
  without a time of update is kept in its place.
\<close>

lemma superseded_transaction_kept:
  "\<exists>out self'. reconcile_actions_batch (new_reconciliation_processor 2 (Some 3))
       \<lparr> ab_actions = row_data [TxnRow ''app'' (Some 1), TxnRow ''app'' None], ab_is_log_batch = True \<rparr> = (Inr out, self') \<and>
     fd_selection (rb_filtered_data out) = [False, True]"
  by (simp add: reconciliation_eval upt_rec)

end
