(* ===== verification/Snapshot.thy ===== *)
theory Snapshot
  imports ProtocolReplay Reconciliation
begin

text \<open>
  Snapshots of a table (\<open>snapshot.rs\<close>): a log segment, the configuration read from it and its checksum. A
  snapshot is loaded from a segment, updated to a later version from an existing one, or made after a commit;
  it answers for transactions, domain metadata, file statistics and timestamps, and writes its checksum. The
  timestamp of a commit is read as in \<open>path.rs\<close>. Metrics, spans and log lines are left out: they do not affect a result.
\<close>

section \<open>The engine\<close>

text \<open>
  What a snapshot uses of its engine and of other libraries: the order of hash maps, operations on URLs,
  listing, the handlers at a projection to the given columns, reading a checksum file, the JSON schema parser,
  character classes, the clock in nanoseconds since the epoch, the JSON parser of clustering columns and the
  URL of a table root.
\<close>

record ('url, 'loc) engine =
  hash_order :: "'loc hash_order"
  urls :: "'url url_ops"
  location_url :: "'loc \<Rightarrow> 'url"
  storage_list :: "('url, 'loc) list_from"
  handlers :: "column_name list \<Rightarrow> 'loc handlers"
  crc_reader :: "'loc parsed_log_path \<Rightarrow> crc delta_result"
  schema_from_json :: "string \<Rightarrow> struct_type delta_result"
  is_whitespace :: "char \<Rightarrow> bool"
  to_lowercase :: "string \<Rightarrow> string"
  now :: "nat delta_result"
  clustering_from_json :: "string \<Rightarrow> string list list delta_result"
  root_url :: "string \<Rightarrow> 'url"

definition pm_handlers_of :: "('url, 'loc) engine \<Rightarrow> 'loc handlers" where
  "pm_handlers_of E = handlers E (metadata_columns @ protocol_columns)"

record ('url, 'loc, 'schema) snapshot =
  sn_log_segment :: "('url, 'loc, 'schema) log_segment"
  sn_table_configuration :: table_configuration
  sn_lazy_crc :: "'loc lazy_crc"

definition sn_version :: "('url, 'loc, 'schema) snapshot \<Rightarrow> version" where
  "sn_version s = tc_version (sn_table_configuration s)"

section \<open>Loading and updating\<close>

definition try_new_from_log_segment ::
  "('url, 'loc) engine \<Rightarrow> string \<Rightarrow> ('url, 'loc, 'schema) log_segment \<Rightarrow> ('url, 'loc, 'schema) snapshot delta_result" where
  "try_new_from_log_segment E root seg =
     (case read_protocol_metadata (crc_reader E) (pm_handlers_of E) seg (lazy_crc_new (latest_crc_file (listed seg))) of
        (r, lc) \<Rightarrow>
          rbind r (\<lambda>(m, p).
          rbind (tc_try_new (schema_from_json E) (is_whitespace E) (to_lowercase E) m p root (end_version seg)) (\<lambda>tc.
            Inr \<lparr> sn_log_segment = seg, sn_table_configuration = tc, sn_lazy_crc = lc \<rparr>)))"

text \<open>The segment that the old segment and the new commits make; \<open>new_latest\<close> is the latest commit of the listing.\<close>

definition combined_files ::
  "('url, 'loc, 'schema) log_segment \<Rightarrow> ('url, 'loc, 'schema) log_segment \<Rightarrow> 'loc parsed_log_path option \<Rightarrow>
   'loc log_segment_files" where
  "combined_files old new new_latest =
     \<lparr> ascending_commit_files = ascending_commit_files (listed old) @ ascending_commit_files (listed new),
       ascending_compaction_files = ascending_compaction_files (listed old) @ ascending_compaction_files (listed new),
       checkpoint_parts = checkpoint_parts (listed old),
       latest_crc_file = or_else (latest_crc_file (listed new)) (latest_crc_file (listed old)),
       latest_commit_file = or_else new_latest (latest_commit_file (listed old)),
       max_published_version = option_max (max_published_version (listed new)) (max_published_version (listed old)) \<rparr>"

definition retain_after ::
  "version \<Rightarrow> ('url, 'loc, 'schema) log_segment \<Rightarrow> ('url, 'loc, 'schema) log_segment" where
  "retain_after v seg = seg \<lparr> listed := (listed seg)
     \<lparr> ascending_commit_files := filter (\<lambda>f. v < version f) (ascending_commit_files (listed seg)),
       ascending_compaction_files := filter (\<lambda>f. v < version f) (ascending_compaction_files (listed seg)) \<rparr> \<rparr>"

definition incremental_update ::
  "('url, 'loc) engine \<Rightarrow> ('url, 'loc, 'schema) snapshot \<Rightarrow> ('url, 'loc, 'schema) log_segment \<Rightarrow>
   'loc parsed_log_path option \<Rightarrow> version option \<Rightarrow> ('url, 'loc, 'schema) snapshot delta_result" where
  "incremental_update E old new new_latest new_version =
     (let old_seg = sn_log_segment old; pruned = retain_after (sn_version old) new in
      case read_protocol_metadata_opt (crc_reader E) (pm_handlers_of E) pruned
             (lazy_crc_new (latest_crc_file (listed pruned))) of
        (r, _) \<Rightarrow>
          rbind r (\<lambda>(m, p).
          rbind (tc_try_new_from (schema_from_json E) (is_whitespace E) (to_lowercase E)
                   (sn_table_configuration old) m p (end_version pruned)) (\<lambda>tc.
          rbind (try_new (combined_files old_seg pruned new_latest) (segment_log_root old_seg) new_version
                   (checkpoint_schema old_seg)) (\<lambda>combined.
            Inr \<lparr> sn_log_segment = combined, sn_table_configuration = tc,
                  sn_lazy_crc = lazy_crc_new (latest_crc_file (listed combined)) \<rparr>))))"

definition try_new_from ::
  "('url, 'loc) engine \<Rightarrow> ('url, 'loc, 'schema) snapshot \<Rightarrow> 'loc parsed_log_path list \<Rightarrow> version option \<Rightarrow>
   ('url, 'loc, 'schema) snapshot delta_result" where
  "try_new_from E old log_tail new_version =
     (let old_seg = sn_log_segment old; old_version = sn_version old in
      if new_version = Some old_version then Inr old
      else if (case new_version of Some v \<Rightarrow> v < old_version | None \<Rightarrow> False)
      then Inl (Generic ''Requested snapshot version is older than snapshot hint version'')
      else
        rbind (list_log (hash_order E) (urls E) (location_url E) (storage_list E) (segment_log_root old_seg) log_tail
                 (Some ((case checkpoint_version old_seg of Some v \<Rightarrow> v | None \<Rightarrow> 0) + 1)) new_version) (\<lambda>l.
        if ascending_commit_files l = [] \<and> checkpoint_parts l = []
        then (if new_version \<noteq> None
              then Inl (Generic ''Requested snapshot version is newer than the latest version'')
              else Inr old)
        else
          rbind (try_new l (segment_log_root old_seg) new_version None) (\<lambda>new.
          if end_version new < old_version
          then Inl (Generic ''Unexpected state: The newest version in the log is older than the old version'')
          else if end_version new = old_version then Inr old
          else if checkpoint_version new \<noteq> None
          then try_new_from_log_segment E (tc_table_root (sn_table_configuration old)) new
          else incremental_update E old new (latest_commit_file l) new_version)))"

section \<open>After a commit\<close>

definition compute_post_commit_crc ::
  "('url, 'loc, 'schema) snapshot \<Rightarrow> version \<Rightarrow> crc_delta \<Rightarrow> 'loc lazy_crc" where
  "compute_post_commit_crc s new_version d =
     (case (if sn_version s = PRE_COMMIT_VERSION then into_crc_for_version_zero d
            else map_option (crc_apply d) (get_if_loaded_at_version (sn_lazy_crc s) (sn_version s))) of
        Some c \<Rightarrow> lazy_crc_new_precomputed c new_version
      | None \<Rightarrow> sn_lazy_crc s)"

definition snapshot_post_commit ::
  "('url, 'loc, 'schema) snapshot \<Rightarrow> 'loc parsed_log_path \<Rightarrow> crc_delta \<Rightarrow> ('url, 'loc, 'schema) snapshot delta_result" where
  "snapshot_post_commit s commit d =
     rbind (require (is_commit commit)
       (InternalError ''Cannot create post-commit Snapshot. Log file is not a commit file.'')) (\<lambda>_.
     rbind (require (version commit = sn_version s + 1)
       (InternalError ''Cannot create post-commit Snapshot. Log file version does not equal Snapshot version + 1.'')) (\<lambda>_.
     rbind (new_with_commit_appended (sn_log_segment s) commit) (\<lambda>seg.
       Inr \<lparr> sn_log_segment = seg,
             sn_table_configuration = TableConfiguration.new_post_commit (sn_table_configuration s) (version commit),
             sn_lazy_crc = compute_post_commit_crc s (version commit) d \<rparr>)))"

datatype checksum_write_result = AlreadyExists | Written

definition write_checksum ::
  "('url, 'loc) engine \<Rightarrow> (crc \<Rightarrow> 'bytes delta_result) \<Rightarrow> ('url \<Rightarrow> 'bytes \<Rightarrow> bool \<Rightarrow> unit delta_result) \<Rightarrow>
   ('url, 'loc, 'schema) snapshot \<Rightarrow> checksum_write_result delta_result" where
  "write_checksum E to_vec put s =
     (if (case latest_crc_file (listed (sn_log_segment s)) of Some f \<Rightarrow> version f = sn_version s | None \<Rightarrow> False)
      then Inr AlreadyExists
      else
        rbind (ok_or (get_if_loaded_at_version (sn_lazy_crc s) (sn_version s))
          (ChecksumWriteUnsupported ''No in-memory CRC available at this snapshot version.'')) (\<lambda>c.
        rbind (new_crc (urls E) (root_url E (tc_table_root (sn_table_configuration s))) (sn_version s)) (\<lambda>path.
        (case try_write_crc_file to_vec put (location path) c of
           Inr _ \<Rightarrow> Inr Written
         | Inl (FileAlreadyExists _) \<Rightarrow> Inr AlreadyExists
         | Inl e \<Rightarrow> Inl e))))"

record 'url committer =
  is_catalog_committer :: bool
  committer_publish :: "'url publish_metadata \<Rightarrow> unit delta_result"

definition publish ::
  "('url, 'loc) engine \<Rightarrow> bool \<Rightarrow> 'url committer \<Rightarrow> ('url, 'loc, 'schema) snapshot \<Rightarrow>
   ('url, 'loc, 'schema) snapshot delta_result" where
  "publish E cm committer s =
     rbind (get_unpublished_catalog_commits (urls E) (location_url E) (sn_log_segment s)) (\<lambda>unpublished.
     if unpublished = [] then Inr s
     else
       rbind (require (catalog_contiguous unpublished)
         (Generic ''Expected ordered and contiguous unpublished catalog commits'')) (\<lambda>_.
       rbind (require (is_catalog_managed cm (sn_table_configuration s))
         (Generic ''There are catalog commits that need publishing, but the table is not catalog-managed.'')) (\<lambda>_.
       rbind (require (is_catalog_committer committer)
         (Generic ''There are catalog commits that need publishing, but the committer is not a catalog committer.'')) (\<lambda>_.
       rbind (publish_metadata_try_new (sn_version s) unpublished) (\<lambda>pm.
       rbind (committer_publish committer pm) (\<lambda>_.
       rbind (new_as_published (sn_log_segment s)) (\<lambda>seg. Inr (s \<lparr> sn_log_segment := seg \<rparr>))))))))"

section \<open>Queries\<close>

text \<open>\<open>current_time_ms\<close>, and the retention duration of the properties in milliseconds.\<close>

definition current_time_ms :: "('url, 'loc) engine \<Rightarrow> 64 word delta_result" where
  "current_time_ms E =
     rbind (now E) (\<lambda>n. i64_try_from (n div 1000000) (Generic ''Current timestamp exceeds i64 millisecond range''))"

definition get_app_id_version ::
  "('url, 'loc) engine \<Rightarrow> ('url, 'loc, 'schema) snapshot \<Rightarrow> string \<Rightarrow> 64 word option delta_result" where
  "get_app_id_version E s app =
     rbind (calculate_transaction_expiration_timestamp
              (map_option (\<lambda>d. d div 1000000) (set_transaction_retention_duration (tc_properties (sn_table_configuration s))))
              (current_time_ms E)) (\<lambda>expiration.
     rbind (get_one app expiration (read_actions (handlers E txn_columns) (sn_log_segment s))) (\<lambda>txn.
       Inr (map_option txn_version txn)))"

text \<open>The queries that may load the checksum return the snapshot with its loader's new state.\<close>

definition get_domain_metadatas_internal ::
  "('url, 'loc) engine \<Rightarrow> string set option \<Rightarrow> ('url, 'loc, 'schema) snapshot \<Rightarrow>
   (string \<times> domain_metadata) list delta_result \<times> ('url, 'loc, 'schema) snapshot" where
  "get_domain_metadatas_internal E domains s =
     (case get_or_load_if_at_version (crc_reader E) (sn_lazy_crc s) (sn_version s) of
        (c, lc) \<Rightarrow>
          (case Option.bind c crc_domain_metadata of
             Some dms \<Rightarrow> Inr (case domains of None \<Rightarrow> dms | Some flt \<Rightarrow> filter (\<lambda>(k, _). k \<in> flt) dms)
           | None \<Rightarrow> scan_domain_metadatas domains (read_actions (handlers E domain_columns) (sn_log_segment s)),
           s \<lparr> sn_lazy_crc := lc \<rparr>))"

definition get_domain_metadata_internal ::
  "('url, 'loc) engine \<Rightarrow> string \<Rightarrow> ('url, 'loc, 'schema) snapshot \<Rightarrow>
   string option delta_result \<times> ('url, 'loc, 'schema) snapshot" where
  "get_domain_metadata_internal E d s =
     (case get_domain_metadatas_internal E (Some {d}) s of
        (r, s') \<Rightarrow> (rbind r (\<lambda>dms. Inr (map_option domain_configuration (map_of dms d))), s'))"

definition get_domain_metadata ::
  "('url, 'loc) engine \<Rightarrow> string \<Rightarrow> ('url, 'loc, 'schema) snapshot \<Rightarrow>
   string option delta_result \<times> ('url, 'loc, 'schema) snapshot" where
  "get_domain_metadata E d s =
     (if take (length INTERNAL_DOMAIN_PREFIX) d = INTERNAL_DOMAIN_PREFIX
      then (Inl (Generic ''User DomainMetadata are not allowed to use system-controlled 'delta.*' domain''), s)
      else get_domain_metadata_internal E d s)"

definition get_all_domain_metadata ::
  "('url, 'loc) engine \<Rightarrow> ('url, 'loc, 'schema) snapshot \<Rightarrow> domain_metadata list delta_result \<times> ('url, 'loc, 'schema) snapshot" where
  "get_all_domain_metadata E s =
     (case get_domain_metadatas_internal E None s of
        (r, s') \<Rightarrow> (rbind r (\<lambda>dms. Inr (filter (\<lambda>dm. \<not> is_internal dm) (map snd dms))), s'))"

definition CLUSTERING_DOMAIN_NAME :: string where "CLUSTERING_DOMAIN_NAME = ''delta.clustering''"

definition get_clustering_columns_physical ::
  "('url, 'loc) engine \<Rightarrow> ('url, 'loc, 'schema) snapshot \<Rightarrow>
   column_name list option delta_result \<times> ('url, 'loc, 'schema) snapshot" where
  "get_clustering_columns_physical E s =
     (if \<not> has_table_feature (tc_protocol (sn_table_configuration s)) ClusteredTable then (Inr None, s)
      else (case get_domain_metadata_internal E CLUSTERING_DOMAIN_NAME s of
              (r, s') \<Rightarrow>
                (rbind r (\<lambda>c. case c of
                   Some config \<Rightarrow> rbind (clustering_from_json E config) (\<lambda>cols. Inr (Some cols))
                 | None \<Rightarrow> Inr None), s')))"

definition get_file_stats ::
  "('url, 'loc) engine \<Rightarrow> ('url, 'loc, 'schema) snapshot \<Rightarrow> file_stats option \<times> ('url, 'loc, 'schema) snapshot" where
  "get_file_stats E s =
     (case get_or_load_if_at_version (crc_reader E) (sn_lazy_crc s) (sn_version s) of
        (c, lc) \<Rightarrow> (Option.bind c crc_file_stats, s \<lparr> sn_lazy_crc := lc \<rparr>))"

definition ict_columns :: "column_name list" where
  "ict_columns = [[''commitInfo'', ''inCommitTimestamp'']]"

definition ict_visit :: "engine_data \<Rightarrow> 64 word option delta_result" where
  "ict_visit d =
     rbind (ed_getters d ict_columns) (\<lambda>gs.
     rbind (require (length gs = 1) (InternalError ''Wrong number of InCommitTimestampVisitor getters'')) (\<lambda>_.
       if ed_len d = 0 then Inr None else get_long (gs ! 0) 0))"

definition read_in_commit_timestamp ::
  "('url, 'loc) engine \<Rightarrow> 'loc parsed_log_path \<Rightarrow> 64 word delta_result" where
  "read_in_commit_timestamp E f =
     (if \<not> is_commit f then Inl (Generic ''read_in_commit_timestamp can only be called on commit files'')
      else
        rbind (read_json_files (handlers E ict_columns) [location f]) (\<lambda>batches.
        case first_opt batches of
          Some b \<Rightarrow>
            rbind b (\<lambda>d. rbind (ict_visit d) (\<lambda>t.
              ok_or t (Generic ''In-Commit Timestamp not found in commit file'')))
        | None \<Rightarrow> Inl (Generic ''Commit file contains no actions'')))"

definition get_in_commit_timestamp ::
  "('url, 'loc) engine \<Rightarrow> bool \<Rightarrow> ('url, 'loc, 'schema) snapshot \<Rightarrow>
   64 word option delta_result \<times> ('url, 'loc, 'schema) snapshot" where
  "get_in_commit_timestamp E cm s =
     (case in_commit_timestamp_enablement cm (sn_table_configuration s) of
        Inl e \<Rightarrow> (Inl e, s)
      | Inr IctNotEnabled \<Rightarrow> (Inr None, s)
      | Inr (IctEnabled enablement) \<Rightarrow>
          if (case enablement of Some (v, _) \<Rightarrow> sn_version s < v | None \<Rightarrow> False)
          then (Inl (Generic ''Invalid state: snapshot has ICT enablement version in the future''), s)
          else
            (case get_or_load_if_at_version (crc_reader E) (sn_lazy_crc s) (sn_version s) of
               (Some c, lc) \<Rightarrow>
                 (case in_commit_timestamp_opt c of
                    Some ict \<Rightarrow> Inr (Some ict)
                  | None \<Rightarrow> Inl (Generic ''In-Commit Timestamp not found in CRC file''),
                  s \<lparr> sn_lazy_crc := lc \<rparr>)
             | (None, lc) \<Rightarrow>
                 (case latest_commit_file (listed (sn_log_segment s)) of
                    Some f \<Rightarrow> rbind (read_in_commit_timestamp E f) (\<lambda>t. Inr (Some t))
                  | None \<Rightarrow> Inl (Generic ''Last commit file not found in log segment''),
                  s \<lparr> sn_lazy_crc := lc \<rparr>)))"

section \<open>A snapshot shows the table at its version\<close>

text \<open>
  The abstract state of a table: the metadata and the protocol each version introduces. A snapshot shows it
  when its segment answers for the whole history and its configuration is the one the newest metadata and
  protocol of its version give.
\<close>

definition shows_table ::
  "('url, 'loc) engine \<Rightarrow> (nat \<Rightarrow> metadata option) \<Rightarrow> (nat \<Rightarrow> protocol option) \<Rightarrow> string \<Rightarrow>
   ('url, 'loc, 'schema) snapshot \<Rightarrow> bool" where
  "shows_table E ms ps root s \<longleftrightarrow>
     whole_segment (sn_log_segment s) \<and> sn_version s = end_version (sn_log_segment s) \<and>
     (\<exists>m p. newest ms 0 (Suc (unat (sn_version s))) = Some m \<and> newest ps 0 (Suc (unat (sn_version s))) = Some p \<and>
        tc_try_new (schema_from_json E) (is_whitespace E) (to_lowercase E) m p root (sn_version s) =
        Inr (sn_table_configuration s))"

text \<open>The contract of the files of a segment and of its checksum file.\<close>

definition segment_holds ::
  "('url, 'loc) engine \<Rightarrow> ('loc \<Rightarrow> engine_data list) \<Rightarrow> (nat \<Rightarrow> metadata option) \<Rightarrow> (nat \<Rightarrow> protocol option) \<Rightarrow>
   ('url, 'loc, 'schema) log_segment \<Rightarrow> bool" where
  "segment_holds E contents ms ps seg \<longleftrightarrow>
     reads_in_order (pm_handlers_of E) contents \<and> files_hold contents ms ps seg \<and>
     crc_holds (crc_reader E) (lazy_crc_new (latest_crc_file (listed seg))) ms ps \<and>
     (\<forall>v f. checkpoint_version seg = Some v \<longrightarrow> latest_crc_file (listed seg) = Some f \<longrightarrow> v \<le> version f)"

lemma crc_version_new [simp]: "crc_version (lazy_crc_new f) = map_option version f"
  by (simp add: crc_version_def lazy_crc_new_def)

lemma loaded_snapshot:
  assumes "whole_segment seg" "segment_holds E contents ms ps seg"
    and "newest ms 0 (Suc (unat (end_version seg))) = Some m" "newest ps 0 (Suc (unat (end_version seg))) = Some p"
  shows "\<exists>lc. try_new_from_log_segment E root seg =
    rbind (tc_try_new (schema_from_json E) (is_whitespace E) (to_lowercase E) m p root (end_version seg)) (\<lambda>tc.
      Inr \<lparr> sn_log_segment = seg, sn_table_configuration = tc, sn_lazy_crc = lc \<rparr>)"
proof -
  let ?lc = "lazy_crc_new (latest_crc_file (listed seg))"
  have "fst (read_protocol_metadata_opt (crc_reader E) (pm_handlers_of E) seg ?lc) = Inr (Some m, Some p)"
    using read_protocol_metadata_whole [of seg "pm_handlers_of E" contents ms ps "crc_reader E" ?lc] assms
    by (auto simp: segment_holds_def)
  then obtain lc where "read_protocol_metadata (crc_reader E) (pm_handlers_of E) seg ?lc = (Inr (m, p), lc)"
    by (cases "read_protocol_metadata_opt (crc_reader E) (pm_handlers_of E) seg ?lc") (simp add: read_protocol_metadata_def)
  then show ?thesis by (auto simp: try_new_from_log_segment_def)
qed

lemma loaded_shows_table:
  assumes "whole_segment seg" "segment_holds E contents ms ps seg"
    and "newest ms 0 (Suc (unat (end_version seg))) = Some m" "newest ps 0 (Suc (unat (end_version seg))) = Some p"
    and "try_new_from_log_segment E root seg = Inr s"
  shows "shows_table E ms ps root s \<and> sn_log_segment s = seg"
proof -
  obtain lc where "try_new_from_log_segment E root seg =
      rbind (tc_try_new (schema_from_json E) (is_whitespace E) (to_lowercase E) m p root (end_version seg)) (\<lambda>tc.
        Inr \<lparr> sn_log_segment = seg, sn_table_configuration = tc, sn_lazy_crc = lc \<rparr>)"
    using loaded_snapshot [OF assms(1-4), of root] by blast
  then obtain tc where tc: "tc_try_new (schema_from_json E) (is_whitespace E) (to_lowercase E) m p root (end_version seg) = Inr tc"
    and s: "s = \<lparr> sn_log_segment = seg, sn_table_configuration = tc, sn_lazy_crc = lc \<rparr>"
    using assms(5) by (cases "tc_try_new (schema_from_json E) (is_whitespace E) (to_lowercase E) m p root (end_version seg)") auto
  then have "tc_version tc = end_version seg" by (simp add: tc_try_new_Inr)
  then show ?thesis using assms(1,3,4) tc s by (auto simp: shows_table_def sn_version_def)
qed

section \<open>Incremental update\<close>

text \<open>
  A listing that starts after the old checkpoint, finds no newer one and reaches a later version: its commits
  join the old segment without a gap.
\<close>

definition extends_segment ::
  "('url, 'loc, 'schema) log_segment \<Rightarrow> ('url, 'loc, 'schema) log_segment \<Rightarrow> bool" where
  "extends_segment old new \<longleftrightarrow>
     segment_inv new \<and> compactions_in_range new \<and> checkpoint_version new = None \<and> end_version old < end_version new \<and>
     (\<exists>c. first_opt (ascending_commit_files (listed new)) = Some c \<and> lo_nat c \<le> Suc (unat (end_version old)))"

lemma retain_after_simps:
  "end_version (retain_after v seg) = end_version seg" "checkpoint_version (retain_after v seg) = checkpoint_version seg"
  "checkpoint_parts (listed (retain_after v seg)) = checkpoint_parts (listed seg)"
  "latest_crc_file (listed (retain_after v seg)) = latest_crc_file (listed seg)"
  "ascending_commit_files (listed (retain_after v seg)) = filter (\<lambda>f. v < version f) (ascending_commit_files (listed seg))"
  "ascending_compaction_files (listed (retain_after v seg)) = filter (\<lambda>f. v < version f) (ascending_compaction_files (listed seg))"
  by (simp_all add: retain_after_def)

lemma retain_after_crc:
  assumes "segment_inv seg" "compactions_in_range seg" "v < end_version seg"
  shows "ascending_commit_files (listed (retain_after v seg)) = ascending_commit_files (listed (segment_after_crc seg v))"
    "ascending_compaction_files (listed (retain_after v seg)) = ascending_compaction_files (listed (segment_after_crc seg v))"
proof -
  show "ascending_commit_files (listed (retain_after v seg)) = ascending_commit_files (listed (segment_after_crc seg v))"
    using crc_commits(1) [OF assms(1), of v] assms(3) by (simp add: retain_after_simps)
  have k: "is_compaction k \<and> hi_version k \<le> end_version seg" if "k \<in> set (ascending_compaction_files (listed seg))" for k
    using that assms(2) segment_invD(4) [OF assms(1)]
    by (cases "first_opt (ascending_commit_files (listed seg))") (auto simp: compactions_in_range_def valid_compactions_def)
  have "(v < version k) = (case file_type k of CompactedCommit h \<Rightarrow> v < version k \<and> h \<le> end_version seg | _ \<Rightarrow> False)"
    if "k \<in> set (ascending_compaction_files (listed seg))" for k
    using k [OF that] by (cases "file_type k") (simp_all add: is_compaction_def hi_version_def)
  then show "ascending_compaction_files (listed (retain_after v seg)) = ascending_compaction_files (listed (segment_after_crc seg v))"
    by (simp add: retain_after_simps segment_after_crc_def filtered_commits_and_compactions_def Let_def cong: filter_cong)
qed

lemma extension_ranged:
  assumes "extends_segment old new"
  shows "ranged (Suc (unat (end_version old))) (retain_after (end_version old) new)"
proof -
  let ?v = "end_version old" let ?a = "segment_after_crc new ?v" let ?r = "retain_after ?v new"
  obtain c where new: "segment_inv new" "compactions_in_range new" "checkpoint_version new = None" "?v < end_version new"
    and c: "first_opt (ascending_commit_files (listed new)) = Some c" "lo_nat c \<le> Suc (unat ?v)"
    using assms by (auto simp: extends_segment_def)
  note versions = segment_from_first(1) [OF new(1) c(1)]
  note a = segment_after_crc_inv [OF new(1,4) versions c(2)] and eq = retain_after_crc [OF new(1,2,4)]
  have e: "end_version ?a = end_version new" "checkpoint_version ?a = None" "checkpoint_parts (listed ?a) = []"
    by (simp_all add: segment_after_crc_def filtered_commits_and_compactions_def Let_def)
  have parts: "checkpoint_parts (listed new) = []" using segment_invD(6) [OF new(1)] new(3) by simp
  have "segment_inv ?r"
    using a(1) e parts new(3) by (simp add: segment_inv_def Let_def eq retain_after_simps(1-3))
  moreover have "compactions_in_range ?r"
    using a(4) unfolding compactions_in_range_def eq retain_after_simps(1) e .
  moreover have "commit_versions ?r = [Suc (unat ?v)..<Suc (unat (end_version ?r))]"
    using after_crc_versions [OF new(4) versions c(2)] by (simp add: retain_after_simps)
  ultimately show ?thesis using new(3,4)
    by (simp add: ranged_def retain_after_simps(1,2) word_less_nat_alt del: upt_Suc)
qed

lemma retain_after_holds: "files_hold contents ms ps seg \<Longrightarrow> files_hold contents ms ps (retain_after v seg)"
  by (auto simp: files_hold_def retain_after_simps)

text \<open>What the commits after the old version say, with the old state as the fallback, is the new state.\<close>

lemma extension_state:
  assumes "extends_segment old new" "segment_holds E contents ms ps new"
    and "\<forall>f. latest_crc_file (listed new) = Some f \<longrightarrow> end_version old \<le> version f"
    and "newest ms 0 (Suc (unat (end_version old))) = Some m0" "newest ps 0 (Suc (unat (end_version old))) = Some p0"
    and e: "e = Suc (unat (end_version new))"
  shows "\<exists>m p. fst (read_protocol_metadata_opt (crc_reader E) (pm_handlers_of E) (retain_after (end_version old) new)
      (lazy_crc_new (latest_crc_file (listed new)))) = Inr (m, p) \<and>
    newest ms 0 e = Some (unwrap_or m m0) \<and> newest ps 0 e = Some (unwrap_or p p0)"
proof -
  let ?v = "end_version old" let ?r = "retain_after ?v new" let ?lc = "lazy_crc_new (latest_crc_file (listed new))"
  have new: "checkpoint_version new = None" "?v < end_version new" using assms(1) by (auto simp: extends_segment_def)
  then have base: "base f ?r = None" for f :: "nat \<Rightarrow> 'x option" by (simp add: base_def retain_after_simps)
  have w: "\<forall>w. crc_version ?lc = Some w \<longrightarrow> Suc (unat ?v) \<le> Suc (unat w)"
    using assms(3) by (auto simp: word_le_nat_alt)
  have er: "e = Suc (unat (end_version ?r))" using e by (simp add: retain_after_simps)
  have split: "newest f 0 e = or_else (newest f (Suc (unat ?v)) e) (newest f 0 (Suc (unat ?v)))" for f :: "nat \<Rightarrow> 'x option"
    using new(2) e by (intro newest_split) (simp_all add: word_less_nat_alt)
  have "fst (read_protocol_metadata_opt (crc_reader E) (pm_handlers_of E) ?r ?lc) \<in>
      {Inr (newest ms 0 e, newest ps 0 e), Inr (newest ms (Suc (unat ?v)) e, newest ps (Suc (unat ?v)) e)}"
    using read_protocol_metadata_ranged [OF extension_ranged [OF assms(1)] _ retain_after_holds _ w er,
        of "pm_handlers_of E" contents ms ps "crc_reader E"] assms(2)
    by (simp add: segment_holds_def base)
  then show ?thesis
    using split [of ms] split [of ps] assms(4,5)
    by (cases "newest ms (Suc (unat ?v)) e"; cases "newest ps (Suc (unat ?v)) e") (auto simp: unwrap_or_def)
qed

lemma unat_Suc_version: "unat (x :: version) = Suc (unat y) \<Longrightarrow> x = y + 1"
proof -
  assume "unat x = Suc (unat y)"
  then have "(of_nat (unat x) :: version) = of_nat (Suc (unat y))" by (rule arg_cong)
  then show ?thesis by (simp add: add.commute)
qed

lemma versions_upt:
  assumes "map lo_nat fs = [a..<b]"
  shows "contiguous fs" "sorted_wrt by_version fs"
proof -
  have n: "i < length fs \<Longrightarrow> lo_nat (fs ! i) = a + i" for i
    using arg_cong [OF assms, of "\<lambda>xs. xs ! i"] arg_cong [OF assms, of length] by simp
  then show "contiguous fs" by (auto simp: contiguous_def intro!: unat_Suc_version)
  show "sorted_wrt by_version fs"
    using n by (auto simp: sorted_wrt_iff_nth_less word_le_nat_alt)
qed

lemma versions_ends:
  assumes "map lo_nat fs = [a..<Suc b]" "a \<le> b"
  obtains c d where "first_opt fs = Some c" "lo_nat c = a" "last_opt fs = Some d" "lo_nat d = b"
proof -
  have ne: "fs \<noteq> []" using arg_cong [OF assms(1), of length] assms(2) by auto
  have "lo_nat (hd fs) = a" using ne arg_cong [OF assms(1), of hd] assms(2) by (simp add: hd_map del: upt_Suc)
  moreover have "lo_nat (last fs) = b" using ne arg_cong [OF assms(1), of last] assms(2) by (simp add: last_map)
  ultimately show ?thesis using that [of "hd fs" "last fs"] ne by (cases fs) (auto simp: last_opt_def)
qed

lemma combined_versions:
  assumes "whole_segment old" "extends_segment old new"
  shows "map lo_nat (ascending_commit_files (listed old) @ ascending_commit_files (listed (retain_after (end_version old) new))) =
    [segment_start old..<Suc (unat (end_version new))]"
proof -
  have "commit_versions old = [segment_start old..<Suc (unat (end_version old))]" "segment_start old \<le> Suc (unat (end_version old))"
    using whole_segment_ranged [OF assms(1)] by (simp_all add: ranged_def del: upt_Suc)
  moreover have "commit_versions (retain_after (end_version old) new) =
      [Suc (unat (end_version old))..<Suc (unat (end_version new))]" "Suc (unat (end_version old)) \<le> Suc (unat (end_version new))"
    using extension_ranged [OF assms(2)] assms(2)
    by (simp_all add: ranged_def retain_after_simps extends_segment_def word_less_nat_alt del: upt_Suc)
  ultimately show ?thesis
    using upt_add_eq_append [of "segment_start old" "Suc (unat (end_version old))" "unat (end_version new) - unat (end_version old)"]
    by (simp del: upt_Suc)
qed

lemma combined_compactions:
  assumes "whole_segment old" "extends_segment old new"
  shows "valid_compactions (ascending_compaction_files (listed old) @
      ascending_compaction_files (listed (retain_after (end_version old) new)))"
    "\<forall>k \<in> set (ascending_compaction_files (listed old)). hi_version k \<le> end_version old"
    "\<forall>k \<in> set (ascending_compaction_files (listed new)). hi_version k \<le> end_version new"
proof -
  have r: "compactions_in_range old" "compactions_in_range new" "segment_inv old" "segment_inv new"
    using assms by (auto simp: whole_segment_def extends_segment_def)
  show hi: "\<forall>k \<in> set (ascending_compaction_files (listed old)). hi_version k \<le> end_version old"
    using r(1) by (cases "first_opt (ascending_commit_files (listed old))") (auto simp: compactions_in_range_def)
  show "\<forall>k \<in> set (ascending_compaction_files (listed new)). hi_version k \<le> end_version new"
    using r(2) by (cases "first_opt (ascending_commit_files (listed new))") (auto simp: compactions_in_range_def)
  have "version k < version j" if "k \<in> set (ascending_compaction_files (listed old))" "end_version old < version j" for k j
    using that hi segment_invD(4) [OF r(3)] by (fastforce simp: valid_compactions_def)
  then show "valid_compactions (ascending_compaction_files (listed old) @
      ascending_compaction_files (listed (retain_after (end_version old) new)))"
    using segment_invD(4) [OF r(3)] valid_compactions_filter [OF segment_invD(4) [OF r(4)]]
    by (auto simp: valid_compactions_def sorted_wrt_append retain_after_simps before_compaction_def)
qed

text \<open>The segment of the updated snapshot.\<close>

definition combined_segment ::
  "('url, 'loc, 'schema) log_segment \<Rightarrow> ('url, 'loc, 'schema) log_segment \<Rightarrow> 'loc parsed_log_path option \<Rightarrow>
   ('url, 'loc, 'schema) log_segment" where
  "combined_segment old new latest =
     \<lparr> end_version = end_version new, checkpoint_version = checkpoint_version old,
       segment_log_root = segment_log_root old, checkpoint_schema = checkpoint_schema old,
       listed = combined_files old (retain_after (end_version old) new) latest \<rparr>"

lemma combined_try_new:
  assumes old: "whole_segment old" and new: "extends_segment old new" and nv: "\<forall>v. nv = Some v \<longrightarrow> v = end_version new"
  shows "try_new (combined_files old (retain_after (end_version old) new) latest) (segment_log_root old) nv (checkpoint_schema old) =
    Inr (combined_segment old new latest)"
proof -
  let ?l = "combined_files old (retain_after (end_version old) new) latest"
  let ?fs = "ascending_commit_files (listed old) @ ascending_commit_files (listed (retain_after (end_version old) new))"
  have inv: "segment_inv old" "segment_inv new" using assms by (auto simp: whole_segment_def extends_segment_def)
  note v = combined_versions [OF old new]
  have "segment_start old \<le> unat (end_version new)"
    using whole_segment_ranged [OF old] new by (auto simp: ranged_def extends_segment_def word_less_nat_alt)
  then obtain c d where c: "first_opt ?fs = Some c" "lo_nat c = segment_start old"
    and d: "last_opt ?fs = Some d" "lo_nat d = unat (end_version new)" using versions_ends [OF v] by metis
  have l: "ascending_commit_files ?l = ?fs" "checkpoint_parts ?l = checkpoint_parts (listed old)"
    "ascending_compaction_files ?l = ascending_compaction_files (listed old) @
       ascending_compaction_files (listed (retain_after (end_version old) new))"
    by (simp_all add: combined_files_def)
  have cp: "map_option version (first_opt (checkpoint_parts ?l)) = checkpoint_version old"
    using segment_invD(6) [OF inv(1)] l(2) by simp
  have "after_cp (checkpoint_version old) f" if "f \<in> set ?fs" for f
    using that segment_invD(7) [OF inv(1)] checkpoint_le_end [OF inv(1)]
    by (fastforce simp: retain_after_simps after_cp_def split: option.splits)
  then have ret: "retained_commits ?l = ?fs"
    unfolding retained_commits_def cp l(1) by (simp add: filter_id_conv)
  have "version c = w + 1" if "checkpoint_version old = Some w" for w
    using c(2) that by (intro unat_Suc_version) (simp add: segment_start_def)
  then have gap: "case (checkpoint_version old, first_opt ?fs) of (Some v, Some c) \<Rightarrow> version c = v + 1 | _ \<Rightarrow> True"
    using c(1) by (auto split: option.splits)
  have eff: "effective_version ?l = Some (end_version new)"
    unfolding effective_version_def ret d(1) using d(2) by (simp add: word_unat_eq_iff)
  have "valid_listing ?l nv"
    unfolding valid_listing_def cp ret eff
    using combined_compactions(1) [OF old new] segment_invD(5) [OF inv(1)] gap nv versions_upt(1) [OF v]
      segment_invD(1) [OF inv(1)] segment_invD(1) [OF inv(2)]
    by (cases nv) (auto simp: l retain_after_simps)
  moreover have "segment_of ?l (segment_log_root old) (checkpoint_schema old) = combined_segment old new latest"
    unfolding segment_of_def cp ret eff by (simp add: combined_segment_def l(1) [symmetric])
  ultimately show ?thesis by (simp add: try_new_accepts)
qed

lemma combined_whole:
  assumes old: "whole_segment old" and new: "extends_segment old new"
  shows "whole_segment (combined_segment old new latest)"
proof -
  let ?s = "combined_segment old new latest"
  let ?fs = "ascending_commit_files (listed old) @ ascending_commit_files (listed (retain_after (end_version old) new))"
  note v = combined_versions [OF old new]
  have fs: "ascending_commit_files (listed ?s) = ?fs" by (simp add: combined_segment_def combined_files_def)
  have inv: "segment_inv ?s"
    using try_new_inv [OF combined_try_new [OF old new, of None]] versions_upt(2) [OF v] by (simp add: combined_files_def)
  have ev: "end_version old < end_version new" using new by (simp add: extends_segment_def)
  have "segment_start old \<le> unat (end_version new)"
    using whole_segment_ranged [OF old] ev by (auto simp: ranged_def word_less_nat_alt)
  then obtain c where c: "first_opt ?fs = Some c" "lo_nat c = segment_start old" using versions_ends [OF v] by metis
  have "version c \<le> version k" if k: "k \<in> set (ascending_compaction_files (listed old))" for k
  proof -
    obtain c' where "first_opt (ascending_commit_files (listed old)) = Some c'" "version c' \<le> version k"
      using old k by (cases "first_opt (ascending_commit_files (listed old))") (auto simp: whole_segment_def compactions_in_range_def)
    then show ?thesis using c(1) by (cases "ascending_commit_files (listed old)") auto
  qed
  moreover have "version c \<le> version k" if k: "end_version old < version k" for k :: "'b parsed_log_path"
    using k c(2) whole_segment_ranged [OF old] by (simp add: ranged_def word_le_nat_alt word_less_nat_alt del: upt_Suc)
  moreover have "hi_version k \<le> end_version new" if "hi_version k \<le> end_version old" for k :: "'b parsed_log_path"
    using that ev by simp
  ultimately have "compactions_in_range ?s"
    using combined_compactions(2,3) [OF old new]
    unfolding compactions_in_range_def fs c(1) option.case
    by (auto simp: combined_segment_def combined_files_def retain_after_simps)
  moreover have "version c = 0" if "checkpoint_version old = None"
    using c(2) that by (simp add: segment_start_def unat_eq_0)
  ultimately show ?thesis using inv c(1) by (simp add: whole_segment_def fs) (simp add: combined_segment_def)
qed

lemma newest_Some_mono: "newest f 0 a = Some x \<Longrightarrow> a \<le> b \<Longrightarrow> \<exists>y. newest f 0 b = Some y"
  by (cases "newest f a b") (auto simp: newest_split [of 0 a b])

lemma incremental_update_eq:
  assumes old: "shows_table E ms ps root old" and ext: "extends_segment (sn_log_segment old) new"
    and holds: "segment_holds E contents ms ps new"
    and crc: "\<forall>f. latest_crc_file (listed new) = Some f \<longrightarrow> end_version (sn_log_segment old) \<le> version f"
    and nv: "\<forall>v. nv = Some v \<longrightarrow> v = end_version new" and e: "e = Suc (unat (end_version new))"
  shows "\<exists>m p. newest ms 0 e = Some m \<and> newest ps 0 e = Some p \<and>
    incremental_update E old new latest nv =
      rbind (tc_try_new (schema_from_json E) (is_whitespace E) (to_lowercase E) m p root (end_version new)) (\<lambda>tc.
        Inr \<lparr> sn_log_segment = combined_segment (sn_log_segment old) new latest, sn_table_configuration = tc,
              sn_lazy_crc = lazy_crc_new (latest_crc_file (listed (combined_segment (sn_log_segment old) new latest))) \<rparr>)"
proof -
  let ?seg = "sn_log_segment old" and ?J = "schema_from_json E" and ?W = "is_whitespace E" and ?L = "to_lowercase E"
  obtain m0 p0 where v: "sn_version old = end_version ?seg" and w: "whole_segment ?seg"
    and m0: "newest ms 0 (Suc (unat (end_version ?seg))) = Some m0" "newest ps 0 (Suc (unat (end_version ?seg))) = Some p0"
    and tc0: "tc_try_new ?J ?W ?L m0 p0 root (end_version ?seg) = Inr (sn_table_configuration old)"
    using old by (auto simp: shows_table_def)
  obtain m p where r: "fst (read_protocol_metadata_opt (crc_reader E) (pm_handlers_of E) (retain_after (end_version ?seg) new)
      (lazy_crc_new (latest_crc_file (listed new)))) = Inr (m, p)"
    and mp: "newest ms 0 e = Some (unwrap_or m m0)" "newest ps 0 e = Some (unwrap_or p p0)"
    using extension_state [OF ext holds crc m0 e] by blast
  have "incremental_update E old new latest nv =
      rbind (tc_try_new ?J ?W ?L (unwrap_or m m0) (unwrap_or p p0) root (end_version new)) (\<lambda>tc.
        Inr \<lparr> sn_log_segment = combined_segment ?seg new latest, sn_table_configuration = tc,
              sn_lazy_crc = lazy_crc_new (latest_crc_file (listed (combined_segment ?seg new latest))) \<rparr>)"
    using r tc_incremental [OF tc0] combined_try_new [OF w ext nv]
    by (cases "read_protocol_metadata_opt (crc_reader E) (pm_handlers_of E) (retain_after (end_version ?seg) new)
        (lazy_crc_new (latest_crc_file (listed new)))") (simp add: incremental_update_def Let_def v retain_after_simps)
  then show ?thesis using mp by blast
qed

lemma incremental_shows_table:
  assumes "shows_table E ms ps root old" "extends_segment (sn_log_segment old) new"
    and "segment_holds E contents ms ps new"
    and "\<forall>f. latest_crc_file (listed new) = Some f \<longrightarrow> end_version (sn_log_segment old) \<le> version f"
    and "\<forall>v. nv = Some v \<longrightarrow> v = end_version new" and s: "incremental_update E old new latest nv = Inr s"
  shows "shows_table E ms ps root s \<and> sn_version s = end_version new"
proof -
  let ?tc = "\<lambda>m p. tc_try_new (schema_from_json E) (is_whitespace E) (to_lowercase E) m p root (end_version new)"
  obtain m p where mp: "newest ms 0 (Suc (unat (end_version new))) = Some m" "newest ps 0 (Suc (unat (end_version new))) = Some p"
    and u: "incremental_update E old new latest nv = rbind (?tc m p) (\<lambda>tc.
        Inr \<lparr> sn_log_segment = combined_segment (sn_log_segment old) new latest, sn_table_configuration = tc,
              sn_lazy_crc = lazy_crc_new (latest_crc_file (listed (combined_segment (sn_log_segment old) new latest))) \<rparr>)"
    using incremental_update_eq [OF assms(1-5) refl] by blast
  then obtain tc where tc: "?tc m p = Inr tc" and s': "sn_log_segment s = combined_segment (sn_log_segment old) new latest"
    "sn_table_configuration s = tc"
    using s by (cases "?tc m p") auto
  moreover have "tc_version tc = end_version new" using tc by (simp add: tc_try_new_Inr)
  moreover have "whole_segment (combined_segment (sn_log_segment old) new latest)"
    using combined_whole [OF _ assms(2)] assms(1) by (simp add: shows_table_def)
  ultimately show ?thesis using mp by (simp add: shows_table_def sn_version_def) (simp add: combined_segment_def)
qed

text \<open>
  C8. Updating a snapshot to a later version gives the snapshot of that version. When the listing finds new
  commits and no newer checkpoint, the commits after the old version are replayed and the old configuration
  fills in what they leave unchanged: the result is the configuration, or the error, that the newest metadata and
  protocol of the new version give, over a segment that joins the old one and the new commits without a gap.
  This needs a checksum file that is not older than the snapshot being updated.
\<close>

theorem incremental_update_correct:
  assumes "shows_table E ms ps root old" "extends_segment (sn_log_segment old) new"
    and "segment_holds E contents ms ps new"
    and "\<forall>f. latest_crc_file (listed new) = Some f \<longrightarrow> end_version (sn_log_segment old) \<le> version f"
    and "\<forall>v. nv = Some v \<longrightarrow> v = end_version new"
    and "m = newest ms 0 (Suc (unat (end_version new)))" "p = newest ps 0 (Suc (unat (end_version new)))"
  shows "incremental_update E old new latest nv =
      rbind (tc_try_new (schema_from_json E) (is_whitespace E) (to_lowercase E) (the m) (the p) root (end_version new)) (\<lambda>tc.
        Inr \<lparr> sn_log_segment = combined_segment (sn_log_segment old) new latest, sn_table_configuration = tc,
              sn_lazy_crc = lazy_crc_new (latest_crc_file (listed (combined_segment (sn_log_segment old) new latest))) \<rparr>) \<and>
    (\<forall>s. incremental_update E old new latest nv = Inr s \<longrightarrow> shows_table E ms ps root s \<and> sn_version s = end_version new)"
  using incremental_update_eq [OF assms(1-5) refl, of latest] incremental_shows_table [OF assms(1-5)] assms(6,7) by auto

section \<open>A small table\<close>

text \<open>
  Commits 0 to 3; the metadata is \<open>a\<close> at version 0 and \<open>b\<close> from version 2 on. The location of a commit is its
  version, that of a checksum file its version plus ten.
\<close>

definition tiny_contents :: "nat \<Rightarrow> engine_data list" where
  "tiny_contents loc = (if loc = 0 then [pm_data (Some ''a'') True] else if loc = 2 then [pm_data (Some ''b'') False]
     else [pm_data None False])"

definition tiny_metadata :: "nat \<Rightarrow> metadata option" where
  "tiny_metadata v = (if v = 0 then Some (metadata_named ''a'') else if v = 2 then Some (metadata_named ''b'') else None)"

definition tiny_protocol :: "nat \<Rightarrow> protocol option" where
  "tiny_protocol v = (if v = 0 then Some legacy_protocol else None)"

definition tiny_crc :: "string \<Rightarrow> crc" where
  "tiny_crc m = \<lparr> crc_table_size_bytes = 0, crc_num_files = 0, num_metadata = 1, num_protocol = 1,
     crc_metadata = metadata_named m, crc_protocol = legacy_protocol, file_stats_validity = Valid, txn_id = None,
     in_commit_timestamp_opt = None, set_transactions = None, crc_domain_metadata = None, file_size_histogram = None,
     all_files = None, num_deleted_records_opt = None, num_deletion_vectors_opt = None, deleted_record_counts = None \<rparr>"

definition tiny_engine :: "(string list, nat) engine" where
  "tiny_engine = \<lparr> hash_order = id, urls = list_url_ops, location_url = \<lambda>_. [], storage_list = \<lambda>_. Inr [],
     handlers = \<lambda>_. \<lparr> read_json_files = \<lambda>files. Inr (map Inr (concat (map tiny_contents files))),
       read_parquet_files = \<lambda>files. Inr (map Inr (concat (map tiny_contents files))) \<rparr>,
     crc_reader = \<lambda>f. Inr (tiny_crc (if version f < 2 then ''a'' else ''b'')),
     schema_from_json = \<lambda>_. Inr (new_unchecked [StructField ''i'' (Primitive PInteger) True []]),
     is_whitespace = \<lambda>c. c = CHR '' '', to_lowercase = id, now = Inr 0, clustering_from_json = \<lambda>_. Inr [],
     root_url = \<lambda>_. [] \<rparr>"

definition tiny_segment :: "version list \<Rightarrow> version \<Rightarrow> version option \<Rightarrow> (string list, nat, unit) log_segment" where
  "tiny_segment vs e crc = \<lparr> end_version = e, checkpoint_version = None, segment_log_root = [], checkpoint_schema = None,
     listed = \<lparr> ascending_commit_files = map (\<lambda>v. pm_file (unat v) v ''json'' Commit) vs, ascending_compaction_files = [],
       checkpoint_parts = [], latest_crc_file = map_option (\<lambda>v. pm_file (unat v + 10) v ''crc'' Crc) crc,
       latest_commit_file = Some (pm_file (unat e) e ''json'' Commit), max_published_version = Some e \<rparr> \<rparr>"

definition tiny_config :: "string \<Rightarrow> version \<Rightarrow> table_configuration delta_result" where
  "tiny_config m v = tc_try_new (schema_from_json tiny_engine) (is_whitespace tiny_engine) (to_lowercase tiny_engine)
     (metadata_named m) legacy_protocol ''memory:///'' v"

definition tiny_old :: "(string list, nat, unit) snapshot" where
  "tiny_old = \<lparr> sn_log_segment = tiny_segment [0, 1, 2] 2 None, sn_table_configuration = projr (tiny_config ''b'' 2),
     sn_lazy_crc = lazy_crc_new None \<rparr>"

lemma tiny_config_ok: "case tiny_config ''b'' 2 of Inr _ \<Rightarrow> True | Inl _ \<Rightarrow> False"
  "case tiny_config ''b'' 3 of Inr _ \<Rightarrow> True | Inl _ \<Rightarrow> False" "case tiny_config ''a'' 3 of Inr _ \<Rightarrow> True | Inl _ \<Rightarrow> False"
  by code_simp+

lemma tiny_newest:
  "newest tiny_metadata 0 1 = Some (metadata_named ''a'')" "newest tiny_metadata 0 2 = Some (metadata_named ''a'')"
  "newest tiny_metadata 0 3 = Some (metadata_named ''b'')" "newest tiny_metadata 0 4 = Some (metadata_named ''b'')"
  "newest tiny_metadata 1 2 = None" "newest tiny_metadata 2 3 = Some (metadata_named ''b'')" "newest tiny_metadata 3 4 = None"
  "newest tiny_protocol 0 1 = Some legacy_protocol" "newest tiny_protocol 0 2 = Some legacy_protocol"
  "newest tiny_protocol 0 3 = Some legacy_protocol" "newest tiny_protocol 0 4 = Some legacy_protocol"
  "newest tiny_protocol 1 2 = None" "newest tiny_protocol 2 3 = None" "newest tiny_protocol 3 4 = None"
  by (simp_all add: newest.simps tiny_metadata_def tiny_protocol_def numeral_eq_Suc)

lemma tiny_newest_Suc:
  "newest tiny_metadata (Suc 0) (Suc (Suc 0)) = None" "newest tiny_protocol (Suc 0) (Suc (Suc 0)) = None"
  "newest tiny_metadata 0 (Suc (Suc 0)) = Some (metadata_named ''a'')" "newest tiny_protocol 0 (Suc (Suc 0)) = Some legacy_protocol"
  by (simp_all add: newest.simps tiny_metadata_def tiny_protocol_def)

lemma contiguous_single: "contiguous [f]"
  by (simp add: contiguous_def)

lemma tiny_old_shows: "shows_table tiny_engine tiny_metadata tiny_protocol ''memory:///'' tiny_old"
proof -
  obtain tc where tc: "tiny_config ''b'' 2 = Inr tc" using tiny_config_ok(1) by (cases "tiny_config ''b'' 2") auto
  then have "tc_version tc = 2" by (simp add: tiny_config_def tc_try_new_Inr)
  moreover have "whole_segment (tiny_segment [0, 1, 2] 2 None)"
    by (simp add: whole_segment_def segment_inv_def compactions_in_range_def tiny_segment_def pm_file_def is_commit_def
        contiguous_Cons contiguous_single valid_compactions_def valid_checkpoint_parts_def after_cp_def)
  ultimately show ?thesis using tc
    by (simp add: shows_table_def tiny_old_def sn_version_def tiny_segment_def tiny_newest tiny_config_def)
qed

lemma tiny_extends: "extends_segment (sn_log_segment tiny_old) (tiny_segment [1, 2, 3] 3 c)"
  by (simp add: extends_segment_def segment_inv_def compactions_in_range_def tiny_old_def tiny_segment_def pm_file_def is_commit_def
      contiguous_Cons contiguous_single valid_compactions_def valid_checkpoint_parts_def after_cp_def)

lemma tiny_holds:
  assumes "c \<in> {Some 1, Some 2}"
  shows "segment_holds tiny_engine tiny_contents tiny_metadata tiny_protocol (tiny_segment [1, 2, 3] 3 c)"
proof -
  have "files_hold tiny_contents tiny_metadata tiny_protocol (tiny_segment [1, 2, 3] 3 c)"
    using pm_data_decodes [of "Some ''b''" False True] pm_data_decodes [of None False True]
    by (simp add: files_hold_def tiny_segment_def pm_file_def batches_of_def tiny_contents_def hi_version_def tiny_newest
        tiny_newest_Suc)
  then show ?thesis using assms
    by (auto simp: segment_holds_def reads_in_order_def pm_handlers_of_def tiny_engine_def tiny_segment_def crc_holds_def
        load_crc_def lazy_crc_new_def crc_version_def pm_file_def tiny_newest tiny_newest_Suc tiny_crc_def)
qed

theorem incremental_update_correct_witness:
  "\<exists>s. incremental_update tiny_engine tiny_old (tiny_segment [1, 2, 3] 3 (Some 2)) None None = Inr s \<and>
     tc_metadata (sn_table_configuration s) = metadata_named ''b'' \<and> sn_version s = 3"
proof -
  obtain tc where tc: "tiny_config ''b'' 3 = Inr tc" using tiny_config_ok(2) by (cases "tiny_config ''b'' 3") auto
  have m: "tc_metadata tc = metadata_named ''b''" "tc_version tc = 3" using tc by (simp_all add: tiny_config_def tc_try_new_Inr)
  have "\<forall>f. latest_crc_file (listed (tiny_segment [1, 2, 3] 3 (Some 2))) = Some f \<longrightarrow> end_version (sn_log_segment tiny_old) \<le> version f"
    by (simp add: tiny_segment_def tiny_old_def pm_file_def)
  from incremental_update_correct [OF tiny_old_shows tiny_extends tiny_holds this _ refl refl, of None None]
  show ?thesis using tc m by (simp add: tiny_segment_def tiny_newest tiny_config_def sn_version_def)
qed

text \<open>
  With a truthful checksum that is older than the snapshot, the update goes back in time: nothing is found in
  the new commit, so the checksum of version 1 is consulted, and its metadata replaces the newer metadata that
  the old snapshot already had.
\<close>

lemma stale_checksum_reverts_metadata:
  "segment_holds tiny_engine tiny_contents tiny_metadata tiny_protocol (tiny_segment [1, 2, 3] 3 (Some 1)) \<and>
   tc_metadata (sn_table_configuration tiny_old) = metadata_named ''b'' \<and>
   (\<exists>s. incremental_update tiny_engine tiny_old (tiny_segment [1, 2, 3] 3 (Some 1)) None None = Inr s \<and>
      tc_metadata (sn_table_configuration s) = metadata_named ''a'' \<and> newest tiny_metadata 0 4 = Some (metadata_named ''b''))"
proof -
  let ?new = "tiny_segment [1, 2, 3] 3 (Some 1)" let ?r = "retain_after 2 ?new"
  obtain tc0 tc where tc0: "tiny_config ''b'' 2 = Inr tc0" and tc: "tiny_config ''a'' 3 = Inr tc"
    using tiny_config_ok(1,3) by (cases "tiny_config ''b'' 2"; cases "tiny_config ''a'' 3") auto
  have m: "tc_metadata tc0 = metadata_named ''b''" "tc_version tc0 = 2" "tc_metadata tc = metadata_named ''a''"
    "tc_table_root tc0 = ''memory:///''"
    using tc0 tc by (simp_all add: tiny_config_def tc_try_new_Inr)
  have "read_actions (pm_handlers_of tiny_engine) (segment_after_crc ?r 1) =
      Inr [Inr \<lparr> ab_actions = pm_data None False, ab_is_log_batch = True \<rparr>]"
    by (simp add: read_actions_def commit_reader_def create_checkpoint_stream_def pm_handlers_of_def tiny_engine_def
        segment_after_crc_def filtered_commits_and_compactions_def Let_def retain_after_def tiny_segment_def pm_file_def
        find_commit_cover_def cover_step_def tiny_contents_def actions_batch_new_def)
  then have "replay_for_pm (read_actions (pm_handlers_of tiny_engine) (segment_after_crc ?r 1)) (None, None) = Inr (None, None)"
    using pm_decodes_replay [OF pm_data_decodes [of None False True], of "(None, None)"] by simp
  then have "fst (read_protocol_metadata_opt (crc_reader tiny_engine) (pm_handlers_of tiny_engine) ?r
      (lazy_crc_new (latest_crc_file (listed ?r)))) = Inr (Some (metadata_named ''a''), Some legacy_protocol)"
    by (simp add: read_protocol_metadata_opt_def Let_def retain_after_def tiny_segment_def get_or_load_def load_crc_def
        lazy_crc_new_def crc_version_def pm_file_def tiny_engine_def tiny_crc_def)
  moreover have "try_new (combined_files (sn_log_segment tiny_old) ?r None) (segment_log_root (sn_log_segment tiny_old)) None
      (checkpoint_schema (sn_log_segment tiny_old)) = Inr (combined_segment (sn_log_segment tiny_old) ?new None)"
    using combined_try_new [of "sn_log_segment tiny_old" ?new None None] tiny_old_shows tiny_extends
    by (simp add: shows_table_def) (simp add: tiny_old_def tiny_segment_def)
  ultimately have "\<exists>s. incremental_update tiny_engine tiny_old ?new None None = Inr s \<and>
      tc_metadata (sn_table_configuration s) = metadata_named ''a''"
    using tc tc0 m
    by (cases "read_protocol_metadata_opt (crc_reader tiny_engine) (pm_handlers_of tiny_engine) ?r
      (lazy_crc_new (latest_crc_file (listed ?r)))")
      (simp add: incremental_update_def Let_def tiny_old_def sn_version_def tc_try_new_from_def unwrap_or_def retain_after_def
        tiny_segment_def tiny_config_def)
  then show ?thesis using tiny_holds [of "Some 1"] tc0 m(1) tiny_newest(4) by (simp add: tiny_old_def)
qed

section \<open>The life of a snapshot\<close>

text \<open>
  What storage promises an update: the files listed hold the table, and either a newer checkpoint makes them a
  whole history or their commits join those of the snapshot, with no checksum older than it.
\<close>

definition listing_law ::
  "('url, 'loc) engine \<Rightarrow> ('loc \<Rightarrow> engine_data list) \<Rightarrow> (nat \<Rightarrow> metadata option) \<Rightarrow> (nat \<Rightarrow> protocol option) \<Rightarrow>
   ('url, 'loc, 'schema) snapshot \<Rightarrow> 'loc parsed_log_path list \<Rightarrow> version option \<Rightarrow> bool" where
  "listing_law E contents ms ps s log_tail nv \<longleftrightarrow>
     (\<forall>l new. list_log (hash_order E) (urls E) (location_url E) (storage_list E) (segment_log_root (sn_log_segment s)) log_tail
          (Some ((case checkpoint_version (sn_log_segment s) of Some v \<Rightarrow> v | None \<Rightarrow> 0) + 1)) nv = Inr l \<longrightarrow>
        try_new l (segment_log_root (sn_log_segment s)) nv None = Inr new \<longrightarrow>
        segment_holds E contents ms ps (new :: ('url, 'loc, 'schema) log_segment) \<and>
        (checkpoint_version new \<noteq> None \<longrightarrow> whole_segment new) \<and>
        (checkpoint_version new = None \<longrightarrow> sn_version s < end_version new \<longrightarrow>
           extends_segment (sn_log_segment s) new \<and>
           (\<forall>f. latest_crc_file (listed new) = Some f \<longrightarrow> end_version (sn_log_segment s) \<le> version f)))"

inductive reachable ::
  "('url, 'loc) engine \<Rightarrow> ('loc \<Rightarrow> engine_data list) \<Rightarrow> (nat \<Rightarrow> metadata option) \<Rightarrow> (nat \<Rightarrow> protocol option) \<Rightarrow> string \<Rightarrow>
   ('url, 'loc, 'schema) snapshot \<Rightarrow> bool" for E contents ms ps root where
  load: "reachable E contents ms ps root s"
    if "whole_segment seg" "segment_holds E contents ms ps seg"
      "newest ms 0 (Suc (unat (end_version seg))) = Some m" "newest ps 0 (Suc (unat (end_version seg))) = Some p"
      "try_new_from_log_segment E root seg = Inr s"
| update: "reachable E contents ms ps root s'"
    if "reachable E contents ms ps root s" "listing_law E contents ms ps s log_tail nv"
      "try_new_from E s log_tail nv = Inr s'"
| commit: "reachable E contents ms ps root s'"
    if "reachable E contents ms ps root s" "sn_version s \<noteq> PRE_COMMIT_VERSION"
      "ms (unat (version f)) = None" "ps (unat (version f)) = None" "delta_metadata d = None" "delta_protocol d = None"
      "snapshot_post_commit s f d = Inr s'"
| published: "reachable E contents ms ps root s'"
    if "reachable E contents ms ps root s" "publish E cm committer s = Inr s'"
| asked_domains: "reachable E contents ms ps root (snd (get_domain_metadatas_internal E domains s))"
    if "reachable E contents ms ps root s"
| asked_stats: "reachable E contents ms ps root (snd (get_file_stats E s))"
    if "reachable E contents ms ps root s"
| asked_timestamp: "reachable E contents ms ps root (snd (get_in_commit_timestamp E cm s))"
    if "reachable E contents ms ps root s"

inductive_cases reachable_cases: "reachable E contents ms ps root s"

text \<open>The invariant: besides the table, a snapshot's checksum and its segment's checksum file are truthful.\<close>

definition snapshot_ok ::
  "('url, 'loc) engine \<Rightarrow> (nat \<Rightarrow> metadata option) \<Rightarrow> (nat \<Rightarrow> protocol option) \<Rightarrow> string \<Rightarrow> ('url, 'loc, 'schema) snapshot \<Rightarrow> bool" where
  "snapshot_ok E ms ps root s \<longleftrightarrow>
     shows_table E ms ps root s \<and> crc_holds (crc_reader E) (sn_lazy_crc s) ms ps \<and>
     crc_holds (crc_reader E) (lazy_crc_new (latest_crc_file (listed (sn_log_segment s)))) ms ps"

lemma crc_holds_loaded: "crc_holds r (lc \<lparr> cached := Some (load_crc r lc) \<rparr>) ms ps = crc_holds r lc ms ps"
  by (simp add: crc_holds_def load_crc_def crc_version_def)

lemma read_protocol_metadata_crc:
  "snd (read_protocol_metadata_opt r h seg lc) \<in> {lc, lc \<lparr> cached := Some (load_crc r lc) \<rparr>}"
proof -
  have again: "load_crc r (lc \<lparr> cached := Some (load_crc r lc) \<rparr>) = load_crc r lc" by (simp add: load_crc_def)
  show ?thesis
    unfolding read_protocol_metadata_opt_def Let_def get_or_load_def
    by (auto simp: again crc_version_def split: option.splits sum.splits crc_load_result.splits)
qed

lemma get_or_load_crc:
  "snd (get_or_load_if_at_version r lc v) \<in> {lc, lc \<lparr> cached := Some (load_crc r lc) \<rparr>}"
  by (simp add: get_or_load_if_at_version_def get_or_load_def)

lemma loader_ok:
  assumes "snapshot_ok E ms ps root s" "lc \<in> {sn_lazy_crc s, sn_lazy_crc s \<lparr> cached := Some (load_crc (crc_reader E) (sn_lazy_crc s)) \<rparr>}"
  shows "snapshot_ok E ms ps root (s \<lparr> sn_lazy_crc := lc \<rparr>)"
  using assms by (auto simp: snapshot_ok_def shows_table_def sn_version_def crc_holds_loaded)

lemma query_ok:
  assumes "snapshot_ok E ms ps root s"
  shows "snapshot_ok E ms ps root (snd (get_domain_metadatas_internal E domains s))"
    "snapshot_ok E ms ps root (snd (get_file_stats E s))"
    "snapshot_ok E ms ps root (snd (get_in_commit_timestamp E cm s))"
proof -
  let ?g = "get_or_load_if_at_version (crc_reader E) (sn_lazy_crc s) (sn_version s)"
  have ok: "snapshot_ok E ms ps root (s \<lparr> sn_lazy_crc := snd ?g \<rparr>)"
    by (rule loader_ok [OF assms get_or_load_crc])
  show "snapshot_ok E ms ps root (snd (get_domain_metadatas_internal E domains s))"
    "snapshot_ok E ms ps root (snd (get_file_stats E s))"
    using ok by (cases ?g; simp add: get_domain_metadatas_internal_def get_file_stats_def)+
  show "snapshot_ok E ms ps root (snd (get_in_commit_timestamp E cm s))"
    using ok assms
    by (cases ?g) (auto simp: get_in_commit_timestamp_def split: sum.splits in_commit_timestamp_enablement.splits option.splits)
qed

lemma loaded_ok:
  assumes "whole_segment seg" "segment_holds E contents ms ps seg"
    and "newest ms 0 (Suc (unat (end_version seg))) = Some m" "newest ps 0 (Suc (unat (end_version seg))) = Some p"
    and "try_new_from_log_segment E root seg = Inr s"
  shows "snapshot_ok E ms ps root s"
proof -
  let ?lc = "lazy_crc_new (latest_crc_file (listed seg))"
  obtain r lc where rl: "read_protocol_metadata_opt (crc_reader E) (pm_handlers_of E) seg ?lc = (r, lc)"
    by (cases "read_protocol_metadata_opt (crc_reader E) (pm_handlers_of E) seg ?lc")
  have "sn_lazy_crc s = lc"
    using assms(5) rl by (auto simp: try_new_from_log_segment_def read_protocol_metadata_def result_simps split: prod.splits)
  moreover have "lc \<in> {?lc, ?lc \<lparr> cached := Some (load_crc (crc_reader E) ?lc) \<rparr>}"
    using read_protocol_metadata_crc [of "crc_reader E" "pm_handlers_of E" seg ?lc] rl by simp
  moreover have "crc_holds (crc_reader E) ?lc ms ps" using assms(2) by (simp add: segment_holds_def)
  ultimately show ?thesis using loaded_shows_table [OF assms] by (auto simp: snapshot_ok_def crc_holds_loaded)
qed

lemma shows_root: "shows_table E ms ps root s \<Longrightarrow> tc_table_root (sn_table_configuration s) = root"
  by (auto simp: shows_table_def tc_try_new_Inr)

lemma newest_later:
  assumes "shows_table E ms ps root s" "sn_version s < v"
  shows "\<exists>m p. newest ms 0 (Suc (unat v)) = Some m \<and> newest ps 0 (Suc (unat v)) = Some p"
proof -
  have le: "Suc (unat (sn_version s)) \<le> Suc (unat v)" using assms(2) by (simp add: word_less_nat_alt)
  show ?thesis
    using assms(1) newest_Some_mono [OF _ le, of ms] newest_Some_mono [OF _ le, of ps] unfolding shows_table_def by blast
qed

lemma incremental_ok:
  assumes ok: "snapshot_ok E ms ps root old" and new: "extends_segment (sn_log_segment old) new" "segment_holds E contents ms ps new"
    and crc: "\<forall>f. latest_crc_file (listed new) = Some f \<longrightarrow> end_version (sn_log_segment old) \<le> version f"
    and nv: "\<forall>v. nv = Some v \<longrightarrow> v = end_version new" and s: "incremental_update E old new latest nv = Inr s"
  shows "snapshot_ok E ms ps root s"
proof -
  let ?c = "combined_segment (sn_log_segment old) new latest"
  have old: "shows_table E ms ps root old" using ok by (simp add: snapshot_ok_def)
  obtain r where "incremental_update E old new latest nv = rbind r (\<lambda>tc. Inr \<lparr> sn_log_segment = ?c, sn_table_configuration = tc,
      sn_lazy_crc = lazy_crc_new (latest_crc_file (listed ?c)) \<rparr>)"
    using incremental_update_eq [OF old new crc nv refl, of latest] by blast
  then have "sn_log_segment s = ?c" "sn_lazy_crc s = lazy_crc_new (latest_crc_file (listed ?c))" using s by (cases r; auto)+
  moreover have "crc_holds (crc_reader E) (lazy_crc_new (latest_crc_file (listed ?c))) ms ps"
    using ok new(2) by (cases "latest_crc_file (listed new)")
      (simp_all add: snapshot_ok_def segment_holds_def combined_segment_def combined_files_def retain_after_simps)
  ultimately show ?thesis using incremental_shows_table [OF old new crc nv s] by (simp add: snapshot_ok_def)
qed

lemma update_ok:
  assumes ok: "snapshot_ok E ms ps root s" and law: "listing_law E contents ms ps s log_tail nv"
    and s': "try_new_from E s log_tail nv = Inr s'"
  shows "snapshot_ok E ms ps root s'"
proof (cases "s' = s")
  case False
  let ?seg = "sn_log_segment s"
  have old: "shows_table E ms ps root s" using ok by (simp add: snapshot_ok_def)
  obtain l new where l: "list_log (hash_order E) (urls E) (location_url E) (storage_list E) (segment_log_root ?seg) log_tail
      (Some ((case checkpoint_version ?seg of Some v \<Rightarrow> v | None \<Rightarrow> 0) + 1)) nv = Inr l"
    and new: "try_new l (segment_log_root ?seg) nv None = Inr new" and later: "sn_version s < end_version new"
    and r: "(if checkpoint_version new \<noteq> None then try_new_from_log_segment E (tc_table_root (sn_table_configuration s)) new
      else incremental_update E s new (latest_commit_file l) nv) = Inr s'"
    using s' False unfolding try_new_from_def Let_def
    by (auto simp: result_simps not_less order.order_iff_strict split: if_splits)
  note law = law [unfolded listing_law_def, rule_format, OF l new]
  show ?thesis
  proof (cases "checkpoint_version new")
    case None
    have "\<forall>v. nv = Some v \<longrightarrow> v = end_version new"
      using new by (auto simp: try_new_accepts valid_listing_def segment_of_def dest: sym)
    moreover have "incremental_update E s new (latest_commit_file l) nv = Inr s'" using r None by simp
    ultimately show ?thesis using incremental_ok [OF ok, of new contents] None law later by blast
  next
    case (Some v)
    obtain m p where "newest ms 0 (Suc (unat (end_version new))) = Some m" "newest ps 0 (Suc (unat (end_version new))) = Some p"
      using newest_later [OF old later] by blast
    moreover have "try_new_from_log_segment E root new = Inr s'" using r Some by (simp add: shows_root [OF old])
    ultimately show ?thesis using loaded_ok [of new E contents ms ps] Some law by blast
  qed
qed (use ok in simp)

lemma appended_whole:
  assumes "whole_segment seg" "end_version seg \<noteq> - 1" "new_with_commit_appended seg f = Inr seg'"
  shows "whole_segment seg'"
proof -
  have lt: "end_version seg < version f"
    using assms(2,3) unat_Suc_no_wrap [OF assms(2)] by (simp add: new_with_commit_appended_Inr word_less_nat_alt)
  have "compactions_in_range seg'"
    using assms(1,3) lt
    by (cases "ascending_commit_files (listed seg)")
      (auto simp: whole_segment_def compactions_in_range_def new_with_commit_appended_Inr intro: order.trans less_imp_le)
  then show ?thesis
    using assms segment_inv_appended [of seg f seg'] 
    by (cases "ascending_commit_files (listed seg)") (auto simp: whole_segment_def new_with_commit_appended_Inr)
qed

lemma commit_ok:
  assumes ok: "snapshot_ok E ms ps root s" and v: "sn_version s \<noteq> PRE_COMMIT_VERSION"
    and none: "ms (unat (version f)) = None" "ps (unat (version f)) = None" "delta_metadata d = None" "delta_protocol d = None"
    and s': "snapshot_post_commit s f d = Inr s'"
  shows "snapshot_ok E ms ps root s'"
proof -
  have old: "shows_table E ms ps root s" and lc: "crc_holds (crc_reader E) (sn_lazy_crc s) ms ps"
    and lf: "crc_holds (crc_reader E) (lazy_crc_new (latest_crc_file (listed (sn_log_segment s)))) ms ps"
    using ok by (simp_all add: snapshot_ok_def)
  obtain m p where e: "sn_version s = end_version (sn_log_segment s)" "whole_segment (sn_log_segment s)"
    and mp: "newest ms 0 (Suc (unat (sn_version s))) = Some m" "newest ps 0 (Suc (unat (sn_version s))) = Some p"
    and tc: "tc_try_new (schema_from_json E) (is_whitespace E) (to_lowercase E) m p root (sn_version s) =
      Inr (sn_table_configuration s)"
    using old by (auto simp: shows_table_def)
  obtain seg where f: "version f = sn_version s + 1" and seg: "new_with_commit_appended (sn_log_segment s) f = Inr seg"
    and s'': "s' = \<lparr> sn_log_segment = seg, sn_table_configuration = TableConfiguration.new_post_commit (sn_table_configuration s) (version f),
       sn_lazy_crc = compute_post_commit_crc s (version f) d \<rparr>"
    using s' by (auto simp: snapshot_post_commit_def result_simps rbind_unit_Inr)
  have nw: "unat (version f) = Suc (unat (sn_version s))"
    using unat_Suc_no_wrap [of "sn_version s"] v f by (simp add: PRE_COMMIT_VERSION_def)
  have next_mp: "newest ms 0 (Suc (unat (version f))) = Some m" "newest ps 0 (Suc (unat (version f))) = Some p"
    using mp none(1,2) nw by (simp_all add: newest.simps)
  have seg': "end_version seg = version f" "latest_crc_file (listed seg) = latest_crc_file (listed (sn_log_segment s))"
    using seg by (auto simp: new_with_commit_appended_Inr)
  have "whole_segment seg" using appended_whole [OF e(2) _ seg] v e(1) by (simp add: PRE_COMMIT_VERSION_def)
  then have "shows_table E ms ps root s'"
    using next_mp seg'(1) conjunct2 [OF tc_incremental [OF tc]]
    by (simp add: shows_table_def s'' sn_version_def TableConfiguration.new_post_commit_def)
  moreover have "crc_holds (crc_reader E) (compute_post_commit_crc s (version f) d) ms ps"
  proof (cases "get_if_loaded_at_version (sn_lazy_crc s) (sn_version s)")
    case None
    then show ?thesis using lc v by (simp add: compute_post_commit_crc_def)
  next
    case (Some c)
    then have "crc_version (sn_lazy_crc s) = Some (sn_version s)" "load_crc (crc_reader E) (sn_lazy_crc s) = Loaded c"
      by (auto simp: get_if_loaded_at_version_def load_crc_def bind_eq_Some_conv elim: load_get.elims split: if_splits)
    then have "m = crc_metadata c" "p = crc_protocol c" using lc mp by (auto simp: crc_holds_def)
    then show ?thesis using Some v next_mp none(3,4)
      by (simp add: compute_post_commit_crc_def crc_holds_def lazy_crc_new_precomputed_def load_crc_def crc_version_def
          unwrap_or_def)
  qed
  ultimately show ?thesis using lf seg'(2) by (simp add: snapshot_ok_def s'')
qed


lemma published_whole: "whole_segment (seg \<lparr> listed := (listed seg) \<lparr> max_published_version := v \<rparr> \<rparr>) = whole_segment seg"
  by (simp add: whole_segment_def segment_inv_def Let_def compactions_in_range_def cong: option.case_cong)

lemma published_ok:
  assumes "snapshot_ok E ms ps root s" "publish E cm committer s = Inr s'"
  shows "snapshot_ok E ms ps root s'"
proof -
  have "s' = s \<or> s' = s \<lparr> sn_log_segment := (sn_log_segment s) \<lparr> listed :=
      (listed (sn_log_segment s)) \<lparr> max_published_version := Some (end_version (sn_log_segment s)) \<rparr> \<rparr> \<rparr>"
    using assms(2) by (auto simp: publish_def new_as_published_def result_simps rbind_unit_Inr split: if_splits)
  then show ?thesis
    using assms(1)
    by (auto simp: snapshot_ok_def shows_table_def sn_version_def published_whole)
qed


text \<open>The small table at version 2, loaded, and after a commit that adds files only.\<close>

definition tiny_delta :: crc_delta where
  "tiny_delta = \<lparr> delta_file_stats = \<lparr> net_files = 1, net_bytes = 10 \<rparr>, delta_protocol = None, delta_metadata = None,
     domain_metadata_changes = [], delta_in_commit_timestamp = None, operation = Some ''WRITE'', has_missing_file_size = False \<rparr>"

lemma tiny_whole_holds:
  "whole_segment (tiny_segment [0, 1, 2] 2 None)"
  "segment_holds tiny_engine tiny_contents tiny_metadata tiny_protocol (tiny_segment [0, 1, 2] 2 None)"
proof -
  show "whole_segment (tiny_segment [0, 1, 2] 2 None)"
    using tiny_old_shows by (simp add: shows_table_def tiny_old_def)
  have "files_hold tiny_contents tiny_metadata tiny_protocol (tiny_segment [0, 1, 2] 2 None)"
    using pm_data_decodes [of "Some ''b''" False True] pm_data_decodes [of None False True] pm_data_decodes [of "Some ''a''" True True]
    by (simp add: files_hold_def tiny_segment_def pm_file_def batches_of_def tiny_contents_def hi_version_def tiny_newest
        tiny_newest_Suc tiny_newest [unfolded One_nat_def])
  then show "segment_holds tiny_engine tiny_contents tiny_metadata tiny_protocol (tiny_segment [0, 1, 2] 2 None)"
    by (simp add: segment_holds_def reads_in_order_def pm_handlers_of_def tiny_engine_def tiny_segment_def crc_holds_def
        load_crc_def lazy_crc_new_def crc_version_def)
qed


end
