(* ===== verification/DeletionVectors.thy ===== *)
theory DeletionVectors
  imports Actions
begin

unbundle bit_operations_syntax

text \<open>
  Deletion vectors: where they are stored and how they are read (\<open>actions/deletion_vector.rs\<close>), the streaming
  writer (\<open>actions/deletion_vector_writer.rs\<close>), the vectors of booleans made from them and the information a
  scan keeps of them (\<open>scan/state.rs\<close>). Bytes are 8-bit words. A function that can panic returns an option, with
  \<open>None\<close> for a panic. Roaring bitmaps, Z85, UUIDs and CRC-32 are the work of other crates: the record \<open>dv_env\<close>
  has their operations, and \<open>dv_laws\<close> states what their documentation promises.
\<close>

section \<open>The libraries\<close>

type_synonym bytes = "8 word list"

record ('url, 'tm, 'uuid) dv_env =
  dv_urls :: "'url url_ops"
  url_parse :: "string \<Rightarrow> 'url option"
  z85_encode :: "bytes \<Rightarrow> string"
  z85_decode :: "string \<Rightarrow> bytes option"
  uuid_bytes :: "'uuid \<Rightarrow> bytes"
  uuid_from_slice :: "bytes \<Rightarrow> 'uuid option"
  uuid_display :: "'uuid \<Rightarrow> string"
  crc_checksum :: "bytes \<Rightarrow> 32 word"
  crc_digest :: "bytes list \<Rightarrow> 32 word"
  tm_new :: 'tm
  tm_insert :: "64 word \<Rightarrow> 'tm \<Rightarrow> 'tm"
  tm_collect :: "64 word list \<Rightarrow> 'tm"
  tm_len :: "'tm \<Rightarrow> 64 word"
  tm_iter :: "'tm \<Rightarrow> 64 word list"
  tm_max :: "'tm \<Rightarrow> 64 word option"
  tm_bitmaps :: "'tm \<Rightarrow> (32 word \<times> 32 word list) list"
  tm_minus :: "'tm \<Rightarrow> 'tm \<Rightarrow> 'tm"
  tm_is_empty :: "'tm \<Rightarrow> bool"
  tm_serialize :: "'tm \<Rightarrow> bytes delta_result"
  tm_deserialize :: "bytes \<Rightarrow> 'tm option"

section \<open>Integers as bytes\<close>

definition to_be_bytes :: "32 word \<Rightarrow> bytes" where
  "to_be_bytes w = [ucast (drop_bit 24 w), ucast (drop_bit 16 w), ucast (drop_bit 8 w), ucast w]"

definition to_le_bytes :: "32 word \<Rightarrow> bytes" where
  "to_le_bytes w = [ucast w, ucast (drop_bit 8 w), ucast (drop_bit 16 w), ucast (drop_bit 24 w)]"

datatype endian = Big | Little

definition u32_of :: "8 word \<Rightarrow> 8 word \<Rightarrow> 8 word \<Rightarrow> 8 word \<Rightarrow> 32 word" where
  "u32_of a b c d = push_bit 24 (ucast a) OR push_bit 16 (ucast b) OR push_bit 8 (ucast c) OR ucast d"

fun from_bytes :: "endian \<Rightarrow> bytes \<Rightarrow> 32 word" where
  "from_bytes Big [a, b, c, d] = u32_of a b c d"
| "from_bytes Little [a, b, c, d] = u32_of d c b a"
| "from_bytes _ _ = 0"

text \<open>\<open>Cursor::read\<close> of four bytes at a position: what is missing at the end stays zero.\<close>

definition read_u32 :: "bytes \<Rightarrow> nat \<Rightarrow> endian \<Rightarrow> 32 word" where
  "read_u32 bs pos e = (let buf = take 4 (drop pos bs) in from_bytes e (buf @ replicate (4 - length buf) 0))"

definition slice_to_u32 :: "bytes \<Rightarrow> endian \<Rightarrow> 32 word delta_result" where
  "slice_to_u32 buf e =
     (if length buf = 4 then Inr (from_bytes e buf) else Inl (Generic ''Must have a 4 byte slice to decode to u32''))"

section \<open>Paths\<close>

definition ROARING_BITMAP_PORTABLE_MAGIC :: "32 word" where "ROARING_BITMAP_PORTABLE_MAGIC = 1681511377"
definition ROARING_BITMAP_NATIVE_MAGIC :: "32 word" where "ROARING_BITMAP_NATIVE_MAGIC = 1681511376"

record ('url, 'uuid) dv_path =
  dvp_table_path :: 'url
  dvp_uuid :: 'uuid
  dvp_prefix :: string

definition dv_relative_path :: "('url, 'tm, 'uuid) dv_env \<Rightarrow> string \<Rightarrow> 'uuid \<Rightarrow> string" where
  "dv_relative_path E pre u =
     (if pre \<noteq> [] then pre @ ''/deletion_vector_'' @ uuid_display E u @ ''.bin''
      else ''deletion_vector_'' @ uuid_display E u @ ''.bin'')"

definition dv_join :: "('url, 'tm, 'uuid) dv_env \<Rightarrow> 'url \<Rightarrow> string \<Rightarrow> 'url delta_result" where
  "dv_join E base s = (case url_join (dv_urls E) base s of Inr u \<Rightarrow> Inr u | Inl _ \<Rightarrow> Inl (DeletionVectorError ''invalid path''))"

definition dv_path_absolute :: "('url, 'tm, 'uuid) dv_env \<Rightarrow> ('url, 'uuid) dv_path \<Rightarrow> 'url delta_result" where
  "dv_path_absolute E p = dv_join E (dvp_table_path p) (dv_relative_path E (dvp_prefix p) (dvp_uuid p))"

definition encoded_relative_path :: "('url, 'tm, 'uuid) dv_env \<Rightarrow> ('url, 'uuid) dv_path \<Rightarrow> string" where
  "encoded_relative_path E p = dvp_prefix p @ z85_encode E (uuid_bytes E (dvp_uuid p))"

text \<open>Slicing a string panics off a character boundary: a UTF-8 continuation byte does not start a character.\<close>

definition is_char_boundary :: "string \<Rightarrow> nat \<Rightarrow> bool" where
  "is_char_boundary s i \<longleftrightarrow> i = 0 \<or> i = length s \<or>
     (i < length s \<and> \<not> (128 \<le> (of_char (s ! i) :: nat) \<and> (of_char (s ! i) :: nat) < 192))"

definition absolute_path ::
  "('url, 'tm, 'uuid) dv_env \<Rightarrow> dv_descriptor \<Rightarrow> 'url \<Rightarrow> 'url option delta_result option" where
  "absolute_path E dv parent =
     (case storage_type dv of
        PersistedRelative \<Rightarrow>
          (let path = path_or_inline_dv dv; prefix_len = length path - 20 in
           if length path < 20 then Some (Inl (DeletionVectorError ''Invalid length, must be >= 20''))
           else if \<not> is_char_boundary path prefix_len then None
           else Some
             (rbind (ok_or (z85_decode E (drop prefix_len path)) (DeletionVectorError ''Failed to decode DV uuid'')) (\<lambda>decoded.
              rbind (ok_or (uuid_from_slice E decoded) (DeletionVectorError ''invalid uuid'')) (\<lambda>u.
              rbind (dv_join E parent (dv_relative_path E (take prefix_len path) u)) (\<lambda>url. Inr (Some url))))))
      | PersistedAbsolute \<Rightarrow>
          Some (rbind (ok_or (url_parse E (path_or_inline_dv dv)) (DeletionVectorError ''invalid path'')) (\<lambda>url. Inr (Some url)))
      | Inline \<Rightarrow> Some (Inr None))"

section \<open>Reading\<close>

text \<open>The inline form: a magic number, then the bitmap.\<close>

definition read_inline :: "('url, 'tm, 'uuid) dv_env \<Rightarrow> string \<Rightarrow> 'tm delta_result option" where
  "read_inline E s =
     (case z85_decode E s of
        None \<Rightarrow> Some (Inl (DeletionVectorError ''Failed to decode DV''))
      | Some bs \<Rightarrow>
          if length bs < 4 then None
          else Some (rbind (slice_to_u32 (take 4 bs) Little) (\<lambda>magic.
            if magic = ROARING_BITMAP_PORTABLE_MAGIC
            then ok_or (tm_deserialize E (drop 4 bs)) (DeletionVectorError ''invalid bitmap'')
            else if magic = ROARING_BITMAP_NATIVE_MAGIC
            then Inl (DeletionVectorError ''Native serialization in inline bitmaps is not yet supported'')
            else Inl (DeletionVectorError ''Invalid magic''))))"

text \<open>
  The persisted form, from the bytes of the file: a version byte, then at the offset the size, the magic number,
  the bitmap and its checksum. \<open>Bytes::slice\<close> panics when a range ends before it begins.
\<close>

definition read_persisted ::
  "('url, 'tm, 'uuid) dv_env \<Rightarrow> dv_descriptor \<Rightarrow> 32 word \<Rightarrow> bytes \<Rightarrow> 'tm delta_result option" where
  "read_persisted E dv log_size data =
     (let start = sint (case dv_offset dv of Some off \<Rightarrow> off | None \<Rightarrow> 1);
          this_dv_start = nat start; magic_start = this_dv_start + 4; bitmap_start = this_dv_start + 8;
          crc_start = this_dv_start + 4 + unat log_size in
      if (case data of b # _ \<Rightarrow> b | [] \<Rightarrow> 0) \<noteq> 1 then Some (Inl (DeletionVectorError ''Invalid version''))
      else if start < 0 then Some (Inl (DeletionVectorError ''Offset doesn't fit in usize''))
      else if length data \<le> this_dv_start then Some (Inl (DeletionVectorError ''This DV start is out of bounds''))
      else if read_u32 data this_dv_start Big \<noteq> log_size then Some (Inl (DeletionVectorError ''DV size mismatch''))
      else if read_u32 data magic_start Little \<noteq> ROARING_BITMAP_PORTABLE_MAGIC
      then Some (Inl (DeletionVectorError ''Invalid magic''))
      else if length data < crc_start + 4 then Some (Inl (DeletionVectorError ''Can't read deletion vector''))
      else if read_u32 (take 4 (drop crc_start data)) 0 Big \<noteq> crc_checksum E (take (crc_start - magic_start) (drop magic_start data))
      then Some (Inl (DeletionVectorError ''CRC32 checksum mismatch''))
      else if crc_start < bitmap_start then None
      else Some (ok_or (tm_deserialize E (take (crc_start - bitmap_start) (drop bitmap_start data)))
        (DeletionVectorError ''Failed to deserialize deletion vector'')))"

text \<open>\<open>read_file\<close> is the first item of \<open>StorageHandler::read_files\<close> for the location.\<close>

definition dv_read ::
  "('url, 'tm, 'uuid) dv_env \<Rightarrow> ('url \<Rightarrow> bytes delta_result option delta_result) \<Rightarrow> dv_descriptor \<Rightarrow> 'url \<Rightarrow>
   'tm delta_result option" where
  "dv_read E read_file dv parent =
     (case absolute_path E dv parent of
        None \<Rightarrow> None
      | Some (Inl e) \<Rightarrow> Some (Inl e)
      | Some (Inr None) \<Rightarrow> read_inline E (path_or_inline_dv dv)
      | Some (Inr (Some path)) \<Rightarrow>
          if sint (size_in_bytes dv) < 0 then Some (Inl (DeletionVectorError ''size_in_bytes doesn't fit in usize''))
          else
            (case rbind (read_file path) (\<lambda>r. rbind (ok_or r (MissingData ''No deletion vector data'')) id) of
               Inl e \<Rightarrow> Some (Inl e)
             | Inr data \<Rightarrow> read_persisted E dv (size_in_bytes dv) data))"

definition row_indexes ::
  "('url, 'tm, 'uuid) dv_env \<Rightarrow> ('url \<Rightarrow> bytes delta_result option delta_result) \<Rightarrow> dv_descriptor \<Rightarrow> 'url \<Rightarrow>
   64 word list delta_result option" where
  "row_indexes E read_file dv parent = map_option (\<lambda>r. rbind r (\<lambda>tm. Inr (tm_iter E tm))) (dv_read E read_file dv parent)"

section \<open>Vectors of booleans\<close>

definition combine :: "32 word \<Rightarrow> 32 word \<Rightarrow> nat" where
  "combine high low = unat (push_bit 32 (ucast high :: 64 word) OR ucast low)"

fun set_bits_of :: "bool \<Rightarrow> 32 word \<Rightarrow> 32 word list \<Rightarrow> bool list \<Rightarrow> bool list" where
  "set_bits_of b high [] sv = sv"
| "set_bits_of b high (low # lows) sv = set_bits_of b high lows (sv[combine high low := b])"

fun set_bitmaps :: "bool \<Rightarrow> (32 word \<times> 32 word list) list \<Rightarrow> bool list \<Rightarrow> bool list" where
  "set_bitmaps b [] sv = sv"
| "set_bitmaps b ((high, lows) # maps) sv = set_bitmaps b maps (set_bits_of b high lows sv)"

definition treemap_to_bools_with :: "('url, 'tm, 'uuid) dv_env \<Rightarrow> 'tm \<Rightarrow> bool \<Rightarrow> bool list" where
  "treemap_to_bools_with E tm flag =
     (case tm_max E tm of
        Some m \<Rightarrow> set_bitmaps flag (tm_bitmaps E tm) (replicate (unat m + 1) (\<not> flag))
      | None \<Rightarrow> [])"

definition deletion_treemap_to_bools :: "('url, 'tm, 'uuid) dv_env \<Rightarrow> 'tm \<Rightarrow> bool list" where
  "deletion_treemap_to_bools E tm = treemap_to_bools_with E tm False"

definition selection_treemap_to_bools :: "('url, 'tm, 'uuid) dv_env \<Rightarrow> 'tm \<Rightarrow> bool list" where
  "selection_treemap_to_bools E tm = treemap_to_bools_with E tm True"

text \<open>\<open>split_vector\<close> changes its argument in place: the result is the vector left behind and the rest.\<close>

definition split_vector :: "bool list option \<Rightarrow> nat \<Rightarrow> bool option \<Rightarrow> bool list option \<times> bool list option" where
  "split_vector vector split_index ext =
     (case vector of
        None \<Rightarrow> (None, None)
      | Some v \<Rightarrow>
          if split_index < length v then (Some (take split_index v), Some (drop split_index v))
          else (case ext of
                  Some b \<Rightarrow> (Some (v @ replicate (split_index - length v) b), None)
                | None \<Rightarrow> (Some v, None)))"

section \<open>Deletion vectors of a scan\<close>

record dv_info =
  deletion_vector :: "dv_descriptor option"

definition dv_info_from :: "dv_descriptor \<Rightarrow> dv_info" where
  "dv_info_from dv = \<lparr> deletion_vector = Some dv \<rparr>"

definition has_vector :: "dv_info \<Rightarrow> bool" where
  "has_vector info \<longleftrightarrow> deletion_vector info \<noteq> None"

definition transpose_read :: "'a delta_result option option \<Rightarrow> 'a option delta_result option" where
  "transpose_read r = (case r of None \<Rightarrow> Some (Inr None) | Some None \<Rightarrow> None | Some (Some x) \<Rightarrow> Some (rbind x (\<lambda>a. Inr (Some a))))"

definition get_treemap ::
  "('url, 'tm, 'uuid) dv_env \<Rightarrow> ('url \<Rightarrow> bytes delta_result option delta_result) \<Rightarrow> 'url \<Rightarrow> dv_info \<Rightarrow>
   'tm option delta_result option" where
  "get_treemap E read_file root info =
     transpose_read (map_option (\<lambda>dv. dv_read E read_file dv root) (deletion_vector info))"

definition get_selection_vector ::
  "('url, 'tm, 'uuid) dv_env \<Rightarrow> ('url \<Rightarrow> bytes delta_result option delta_result) \<Rightarrow> 'url \<Rightarrow> dv_info \<Rightarrow>
   bool list option delta_result option" where
  "get_selection_vector E read_file root info =
     map_option (\<lambda>r. rbind r (\<lambda>tm. Inr (map_option (deletion_treemap_to_bools E) tm))) (get_treemap E read_file root info)"

definition get_row_indexes ::
  "('url, 'tm, 'uuid) dv_env \<Rightarrow> ('url \<Rightarrow> bytes delta_result option delta_result) \<Rightarrow> 'url \<Rightarrow> dv_info \<Rightarrow>
   64 word list option delta_result option" where
  "get_row_indexes E read_file root info =
     transpose_read (map_option (\<lambda>dv. row_indexes E read_file dv root) (deletion_vector info))"

section \<open>Writing\<close>

text \<open>
  The writer over any \<^verbatim>\<open>std::io::Write\<close>: \<open>write_all\<close> says whether all bytes were written and gives the new
  state of the underlying writer. The offset is a \<open>usize\<close>. A deletion vector is given by its cardinality and the
  result of its serialisation.
\<close>

record 'w dv_writer =
  dw_writer :: 'w
  current_offset :: nat

record dv_write_result =
  wr_offset :: "32 word"
  wr_size_in_bytes :: "32 word"
  wr_cardinality :: "64 word"

definition dv_writer_new :: "'w \<Rightarrow> 'w dv_writer" where
  "dv_writer_new w = \<lparr> dw_writer = w, current_offset = 0 \<rparr>"

definition kernel_dv_add_deleted_row_indexes ::
  "('url, 'tm, 'uuid) dv_env \<Rightarrow> 64 word list \<Rightarrow> 'tm \<Rightarrow> 'tm" where
  "kernel_dv_add_deleted_row_indexes E is tm = fold (tm_insert E) is tm"

fun write_parts ::
  "('w \<Rightarrow> bytes \<Rightarrow> bool \<times> 'w) \<Rightarrow> (bytes \<times> string) list \<Rightarrow> 'w \<Rightarrow> unit delta_result \<times> 'w" where
  "write_parts write_all [] w = (Inr (), w)"
| "write_parts write_all ((bs, msg) # parts) w =
     (case write_all w bs of
        (True, w') \<Rightarrow> write_parts write_all parts w'
      | (False, w') \<Rightarrow> (Inl (Generic msg), w'))"

definition write_version_byte ::
  "('w \<Rightarrow> bytes \<Rightarrow> bool \<times> 'w) \<Rightarrow> 'w dv_writer \<Rightarrow> unit delta_result \<times> 'w dv_writer" where
  "write_version_byte write_all dw =
     (if current_offset dw = 0
      then (case write_parts write_all [([1], ''Failed to write version byte'')] (dw_writer dw) of
              (Inl e, w) \<Rightarrow> (Inl e, dw \<lparr> dw_writer := w \<rparr>)
            | (Inr _, w) \<Rightarrow> (Inr (), \<lparr> dw_writer = w, current_offset = 1 \<rparr>))
      else (Inr (), dw))"

definition fits_i32 :: "nat \<Rightarrow> bool" where
  "fits_i32 n \<longleftrightarrow> int n \<le> 2147483647"

definition write_deletion_vector ::
  "('url, 'tm, 'uuid) dv_env \<Rightarrow> ('w \<Rightarrow> bytes \<Rightarrow> bool \<times> 'w) \<Rightarrow> 64 word \<Rightarrow> bytes delta_result \<Rightarrow> 'w dv_writer \<Rightarrow>
   dv_write_result delta_result \<times> 'w dv_writer" where
  "write_deletion_vector E write_all n serialize dw =
     (case write_version_byte write_all dw of
        (Inl e, dw1) \<Rightarrow> (Inl e, dw1)
      | (Inr _, dw1) \<Rightarrow>
          (case serialize of
             Inl e \<Rightarrow> (Inl e, dw1)
           | Inr serialized \<Rightarrow>
               (let dv_size = length serialized + 4; magic = to_le_bytes 1681511377 in
                if \<not> fits_i32 dv_size then (Inl (Generic ''Deletion vector size exceeds maximum allowed size''), dw1)
                else if \<not> fits_i32 (current_offset dw1)
                then (Inl (Generic ''Deletion vector offset doesn't fit in i32''), dw1)
                else
                  (case write_parts write_all
                          [(to_be_bytes (of_nat dv_size), ''Failed to write size''), (magic, ''Failed to write magic''),
                           (serialized, ''Failed to write deletion vector data''),
                           (to_be_bytes (crc_digest E [magic, serialized]), ''Failed to write CRC32 checksum'')]
                          (dw_writer dw1) of
                     (Inl e, w) \<Rightarrow> (Inl e, dw1 \<lparr> dw_writer := w \<rparr>)
                   | (Inr _, w) \<Rightarrow>
                       (Inr \<lparr> wr_offset = of_nat (current_offset dw1), wr_size_in_bytes = of_nat dv_size,
                              wr_cardinality = n \<rparr>,
                        \<lparr> dw_writer = w, current_offset = current_offset dw1 + (4 + dv_size + 4) \<rparr>)))))"

definition to_descriptor ::
  "('url, 'tm, 'uuid) dv_env \<Rightarrow> dv_write_result \<Rightarrow> ('url, 'uuid) dv_path \<Rightarrow> dv_descriptor" where
  "to_descriptor E r p =
     \<lparr> storage_type = PersistedRelative, path_or_inline_dv = encoded_relative_path E p,
       dv_offset = Some (wr_offset r), size_in_bytes = wr_size_in_bytes r, cardinality = wr_cardinality r \<rparr>"

text \<open>The two serialisations: the default of the trait collects the indexes, the kernel's own has the treemap.\<close>

definition default_serialize :: "('url, 'tm, 'uuid) dv_env \<Rightarrow> 64 word list \<Rightarrow> bytes delta_result" where
  "default_serialize E is =
     (case tm_serialize E (tm_collect E is) of Inr bs \<Rightarrow> Inr bs | Inl _ \<Rightarrow> Inl (Generic ''Failed to serialize deletion vector''))"

definition kernel_dv_serialize :: "('url, 'tm, 'uuid) dv_env \<Rightarrow> 'tm \<Rightarrow> bytes delta_result" where
  "kernel_dv_serialize E tm =
     (case tm_serialize E tm of Inr bs \<Rightarrow> Inr bs | Inl _ \<Rightarrow> Inl (Generic ''Failed to serialize deletion vector''))"

section \<open>What is written is read back\<close>

text \<open>
  What the libraries promise: Z85 gives 20 ASCII characters for the 16 bytes of a UUID and decodes them, a digest
  over parts is the checksum of their concatenation, and a serialised bitmap deserialises to itself.
\<close>

definition dv_laws :: "('url, 'tm, 'uuid) dv_env \<Rightarrow> bool" where
  "dv_laws E \<longleftrightarrow>
     (\<forall>u. z85_decode E (z85_encode E (uuid_bytes E u)) = Some (uuid_bytes E u) \<and>
          length (z85_encode E (uuid_bytes E u)) = 20 \<and>
          (\<forall>c \<in> set (z85_encode E (uuid_bytes E u)). (of_char c :: nat) < 128) \<and>
          uuid_from_slice E (uuid_bytes E u) = Some u) \<and>
     (\<forall>parts. crc_digest E parts = crc_checksum E (concat parts)) \<and>
     (\<forall>tm bs. tm_serialize E tm = Inr bs \<longrightarrow> tm_deserialize E bs = Some tm)"

lemma bit_u32_of:
  "bit (u32_of a b c d) n \<longleftrightarrow>
     (if n < 8 then bit d n else if n < 16 then bit c (n - 8) else if n < 24 then bit b (n - 16) else bit a (n - 24))"
proof -
  have high: "bit (x :: 8 word) k \<Longrightarrow> k < 8" for x k using bit_imp_le_length by fastforce
  show ?thesis by (auto simp: u32_of_def bit_simps dest: high)
qed

lemma u32_of_parts: "u32_of (ucast (drop_bit 24 w)) (ucast (drop_bit 16 w)) (ucast (drop_bit 8 w)) (ucast w) = w"
proof (rule bit_word_eqI)
  fix n assume "n < LENGTH(32)"
  then show "bit (u32_of (ucast (drop_bit 24 w)) (ucast (drop_bit 16 w)) (ucast (drop_bit 8 w)) (ucast w)) n = bit w n"
    by (simp add: bit_u32_of bit_simps) linarith
qed

lemma from_bytes_to_bytes [simp]:
  "from_bytes Big (to_be_bytes w) = w" "from_bytes Little (to_le_bytes w) = w"
  by (simp_all add: to_be_bytes_def to_le_bytes_def u32_of_parts)

lemma length_to_bytes [simp]: "length (to_be_bytes w) = 4" "length (to_le_bytes w) = 4"
  by (simp_all add: to_be_bytes_def to_le_bytes_def)

lemma read_u32_at:
  assumes "length xs = pos" "length buf = 4"
  shows "read_u32 (xs @ buf @ ys) pos e = from_bytes e buf"
  using assms by (simp add: read_u32_def)

text \<open>The bytes of one deletion vector in a file.\<close>

definition dv_block :: "('url, 'tm, 'uuid) dv_env \<Rightarrow> bytes \<Rightarrow> bytes" where
  "dv_block E bs = to_be_bytes (of_nat (length bs + 4)) @ to_le_bytes 1681511377 @ bs @
     to_be_bytes (crc_checksum E (to_le_bytes 1681511377 @ bs))"

lemma sint_of_nat_small: "n \<le> 2 ^ 31 - 1 \<Longrightarrow> sint (of_nat n :: 32 word) = int n"
  by (simp add: signed_of_nat signed_take_bit_int_eq_self)

lemma read_persisted_block:
  assumes laws: "dv_laws E" and bs: "tm_serialize E tm = Inr bs" "length bs + 4 \<le> 2 ^ 31 - 1"
    and pre: "pre \<noteq> []" "hd pre = 1" "length pre \<le> 2 ^ 31 - 1"
    and dv: "dv_offset dv = Some (of_nat (length pre))"
  shows "read_persisted E dv (of_nat (length bs + 4)) (pre @ dv_block E bs @ post) = Some (Inr tm)"
proof -
  let ?data = "pre @ dv_block E bs @ post" and ?magic = "to_le_bytes 1681511377"
  let ?crc = "to_be_bytes (crc_checksum E (?magic @ bs))" and ?size = "to_be_bytes (of_nat (length bs + 4))"
  have start: "sint (of_nat (length pre) :: 32 word) = int (length pre)" using pre(3) by (rule sint_of_nat_small)
  have len: "unat (of_nat (length bs + 4) :: 32 word) = length bs + 4" using bs(2) by (subst unat_of_nat) simp
  have version: "(case ?data of b # _ \<Rightarrow> b | [] \<Rightarrow> 0) = 1" using pre(1,2) by (cases pre) auto
  have eq: "?data = pre @ ?size @ (?magic @ bs @ ?crc @ post)" "?data = (pre @ ?size) @ ?magic @ (bs @ ?crc @ post)"
    "?data = (pre @ ?size @ ?magic) @ bs @ (?crc @ post)" "?data = (pre @ ?size @ ?magic @ bs) @ ?crc @ post"
    "?data = (pre @ ?size) @ (?magic @ bs) @ (?crc @ post)"
    by (simp_all add: dv_block_def)
  have size: "read_u32 ?data (length pre) Big = of_nat (length bs + 4)"
    unfolding eq(1) by (subst read_u32_at) simp_all
  have magic: "read_u32 ?data (length pre + 4) Little = ROARING_BITMAP_PORTABLE_MAGIC"
    unfolding eq(2) by (subst read_u32_at) (simp_all add: ROARING_BITMAP_PORTABLE_MAGIC_def)
  have crc: "take 4 (drop (length pre + 4 + (length bs + 4)) ?data) = ?crc"
    unfolding eq(4) by simp
  have body: "take (length bs + 4) (drop (length pre + 4) ?data) = ?magic @ bs"
    unfolding eq(5) by (simp add: ac_simps)
  have bitmap: "take (length bs) (drop (length pre + 8) ?data) = bs"
    unfolding eq(3) by (simp add: ac_simps)
  have "read_u32 ?crc 0 Big = crc_checksum E (?magic @ bs)"
    using read_u32_at [of "[]" 0 ?crc "[]"] by simp
  moreover have "dv_block E bs \<noteq> []" by (simp add: dv_block_def to_be_bytes_def)
  moreover have "length ?data \<ge> length pre + 4 + (length bs + 4) + 4" by (simp add: dv_block_def)
  moreover have "tm_deserialize E bs = Some tm" using laws bs(1) by (simp add: dv_laws_def)
  ultimately show ?thesis
    using size magic crc body bitmap version
    unfolding read_persisted_def Let_def dv option.case start nat_int len by (simp add: ac_simps)
qed

text \<open>A file that is written into a vector of bytes, as \<^verbatim>\<open>Vec<u8>\<close> implements \<^verbatim>\<open>Write\<close>.\<close>

definition vec_write_all :: "bytes \<Rightarrow> bytes \<Rightarrow> bool \<times> bytes" where
  "vec_write_all w bs = (True, w @ bs)"

definition dw_inv :: "bytes dv_writer \<Rightarrow> bool" where
  "dw_inv dw \<longleftrightarrow> length (dw_writer dw) = current_offset dw \<and> (dw_writer dw \<noteq> [] \<longrightarrow> hd (dw_writer dw) = 1)"

declare write_parts.simps [simp del]

lemma write_parts_vec: "write_parts vec_write_all parts w = (Inr (), w @ concat (map fst parts))"
  by (induction parts arbitrary: w) (auto simp: vec_write_all_def write_parts.simps)

lemma write_version_byte_vec:
  assumes "dw_inv dw"
  obtains pre where "write_version_byte vec_write_all dw = (Inr (), \<lparr> dw_writer = pre, current_offset = length pre \<rparr>)"
    "pre \<noteq> []" "hd pre = 1" "Sublist.prefix (dw_writer dw) pre"
proof (cases "current_offset dw = 0")
  case True
  then show ?thesis using that [of "[1]"] assms by (simp add: dw_inv_def write_version_byte_def write_parts_vec)
next
  case False
  then show ?thesis using that [of "dw_writer dw"] assms by (cases dw) (auto simp: dw_inv_def write_version_byte_def)
qed

lemma write_deletion_vector_vec:
  assumes laws: "dv_laws E" and inv: "dw_inv dw"
    and w: "write_deletion_vector E vec_write_all n (Inr bs) dw = (Inr r, dw')"
  obtains pre where "dw_writer dw' = pre @ dv_block E bs" "pre \<noteq> []" "hd pre = 1" "length pre \<le> 2 ^ 31 - 1"
    "length bs + 4 \<le> 2 ^ 31 - 1" "wr_offset r = of_nat (length pre)" "wr_size_in_bytes r = of_nat (length bs + 4)"
    "dw_inv dw'" "Sublist.prefix (dw_writer dw) (dw_writer dw')"
proof -
  obtain pre where pre: "write_version_byte vec_write_all dw = (Inr (), \<lparr> dw_writer = pre, current_offset = length pre \<rparr>)"
    "pre \<noteq> []" "hd pre = 1" "Sublist.prefix (dw_writer dw) pre"
    by (rule write_version_byte_vec [OF inv])
  have "crc_digest E [to_le_bytes 1681511377, bs] = crc_checksum E (to_le_bytes 1681511377 @ bs)"
    using laws by (simp add: dv_laws_def)
  then have "dw_writer dw' = pre @ dv_block E bs" "length pre \<le> 2 ^ 31 - 1" "length bs + 4 \<le> 2 ^ 31 - 1"
    "wr_offset r = of_nat (length pre)" "wr_size_in_bytes r = of_nat (length bs + 4)"
    "current_offset dw' = length pre + (4 + (length bs + 4) + 4)"
    using w pre(1)
    by (auto simp: write_deletion_vector_def Let_def write_parts_vec dv_block_def fits_i32_def split: if_splits)
  then show ?thesis using that [of pre] pre(2-4) by (auto simp: dw_inv_def dv_block_def)
qed

lemma written_path:
  assumes "dv_laws E"
  shows "absolute_path E (to_descriptor E r p) (dvp_table_path p) =
    Some (rbind (dv_path_absolute E p) (\<lambda>url. Inr (Some url)))"
proof -
  let ?z = "z85_encode E (uuid_bytes E (dvp_uuid p))"
  have z: "length ?z = 20" "\<forall>c \<in> set ?z. (of_char c :: nat) < 128" "z85_decode E ?z = Some (uuid_bytes E (dvp_uuid p))"
    "uuid_from_slice E (uuid_bytes E (dvp_uuid p)) = Some (dvp_uuid p)"
    using assms unfolding dv_laws_def by auto
  then have "(of_char (?z ! 0) :: nat) < 128" by simp
  then have "is_char_boundary (dvp_prefix p @ ?z) (length (dvp_prefix p))"
    using z(1) by (auto simp: is_char_boundary_def nth_append)
  then show ?thesis
    using z by (simp add: absolute_path_def to_descriptor_def encoded_relative_path_def Let_def dv_path_absolute_def)
qed

text \<open>The loop of a client that writes deletion vectors one after the other.\<close>

fun write_dvs :: "('url, 'tm, 'uuid) dv_env \<Rightarrow> 'tm list \<Rightarrow> bytes dv_writer \<Rightarrow> dv_write_result list delta_result \<times> bytes dv_writer" where
  "write_dvs E [] dw = (Inr [], dw)"
| "write_dvs E (tm # tms) dw =
     (case write_deletion_vector E vec_write_all (tm_len E tm) (kernel_dv_serialize E tm) dw of
        (Inl e, dw') \<Rightarrow> (Inl e, dw')
      | (Inr r, dw') \<Rightarrow> (case write_dvs E tms dw' of (rs, dw'') \<Rightarrow> (rbind rs (\<lambda>rs. Inr (r # rs)), dw'')))"

lemma write_dvs_prefix:
  assumes "dv_laws E" "dw_inv dw" "write_dvs E tms dw = (Inr rs, dw')"
  shows "Sublist.prefix (dw_writer dw) (dw_writer dw') \<and> length rs = length tms"
  using assms(2,3)
proof (induction tms arbitrary: dw rs)
  case (Cons tm tms)
  obtain r dw1 rs' where w: "write_deletion_vector E vec_write_all (tm_len E tm) (kernel_dv_serialize E tm) dw = (Inr r, dw1)"
    and rs: "write_dvs E tms dw1 = (Inr rs', dw')" "rs = r # rs'"
    using Cons.prems(2) by (auto simp: result_simps split: prod.splits sum.splits)
  obtain bs where bs: "kernel_dv_serialize E tm = Inr bs"
    using w by (cases "kernel_dv_serialize E tm") (auto simp: write_deletion_vector_def split: prod.splits sum.splits)
  obtain inv: "dw_inv dw1" and le: "Sublist.prefix (dw_writer dw) (dw_writer dw1)"
    using write_deletion_vector_vec [OF assms(1) Cons.prems(1) w [unfolded bs]] by metis
  then show ?case using Cons.IH [OF inv rs(1)] rs(2) by (auto intro: prefix_order.trans)
qed simp

lemma write_dvs_read:
  assumes "dv_laws E" "dw_inv dw" "write_dvs E tms dw = (Inr rs, dw')" "i < length tms"
  shows "sint (size_in_bytes (to_descriptor E (rs ! i) p)) \<ge> 0 \<and>
    read_persisted E (to_descriptor E (rs ! i) p) (size_in_bytes (to_descriptor E (rs ! i) p)) (dw_writer dw') =
    Some (Inr (tms ! i))"
  using assms(2-4)
proof (induction tms arbitrary: dw rs i)
  case (Cons tm tms)
  obtain r dw1 rs' where w: "write_deletion_vector E vec_write_all (tm_len E tm) (kernel_dv_serialize E tm) dw = (Inr r, dw1)"
    and rs: "write_dvs E tms dw1 = (Inr rs', dw')" "rs = r # rs'"
    using Cons.prems(2) by (auto simp: result_simps split: prod.splits sum.splits)
  obtain bs where bs: "kernel_dv_serialize E tm = Inr bs"
    using w by (cases "kernel_dv_serialize E tm") (auto simp: write_deletion_vector_def split: prod.splits sum.splits)
  then have tm: "tm_serialize E tm = Inr bs" by (auto simp: kernel_dv_serialize_def split: sum.splits)
  obtain pre where pre: "dw_writer dw1 = pre @ dv_block E bs" "pre \<noteq> []" "hd pre = 1" "length pre \<le> 2 ^ 31 - 1"
    "length bs + 4 \<le> 2 ^ 31 - 1" "wr_offset r = of_nat (length pre)" "wr_size_in_bytes r = of_nat (length bs + 4)"
    "dw_inv dw1"
    by (rule write_deletion_vector_vec [OF assms(1) Cons.prems(1) w [unfolded bs]])
  show ?case
  proof (cases i)
    case 0
    obtain post where post: "dw_writer dw' = pre @ dv_block E bs @ post"
      using write_dvs_prefix [OF assms(1) pre(8) rs(1)] pre(1) by (auto simp: prefix_def)
    have "dv_offset (to_descriptor E r p) = Some (of_nat (length pre))" using pre(6) by (simp add: to_descriptor_def)
    from read_persisted_block [OF assms(1) tm pre(5,2-4) this, of post]
    show ?thesis
      using 0 rs(2) post pre(7) sint_of_nat_small [OF pre(5)] by (simp add: to_descriptor_def)
  next
    case (Suc j)
    then show ?thesis using Cons.IH [OF pre(8) rs(1), of j] Cons.prems(3) rs(2) by simp
  qed
qed simp

text \<open>
  C11. A file of deletion vectors is read back as it was written. When any number of deletion vectors is written
  to one file, every descriptor that the writer returns, resolved against the table and read from the finished
  file, gives exactly the deletion vector it was returned for: the path is reconstructed, and the offset, the
  size, the magic number and the checksum agree, whatever else the file holds.
\<close>

theorem dv_file_roundtrip:
  assumes "dv_laws E" and "write_dvs E tms (dv_writer_new []) = (Inr rs, dw)" and "i < length tms"
    and "dv_path_absolute E p = Inr url" and "read_file url = Inr (Some (Inr (dw_writer dw)))"
  shows "dv_read E read_file (to_descriptor E (rs ! i) p) (dvp_table_path p) = Some (Inr (tms ! i)) \<and>
    row_indexes E read_file (to_descriptor E (rs ! i) p) (dvp_table_path p) = Some (Inr (tm_iter E (tms ! i)))"
proof -
  have "dw_inv (dv_writer_new [])" by (simp add: dw_inv_def dv_writer_new_def)
  from write_dvs_read [OF assms(1) this assms(2,3), of p]
  have "dv_read E read_file (to_descriptor E (rs ! i) p) (dvp_table_path p) = Some (Inr (tms ! i))"
    using assms(4,5) unfolding dv_read_def written_path [OF assms(1)] by simp
  then show ?thesis by (simp add: row_indexes_def)
qed

section \<open>Rows selected by a deletion vector\<close>

text \<open>
  The laws of bitmaps: their values in any order, the largest one, the values by their upper half, difference.
\<close>

definition treemap_laws :: "('url, 'tm, 'uuid) dv_env \<Rightarrow> bool" where
  "treemap_laws E \<longleftrightarrow>
     (\<forall>tm. tm_max E tm = (if tm_iter E tm = [] then None else Some (Max (set (tm_iter E tm)))) \<and>
       (\<Union>(high, lows) \<in> set (tm_bitmaps E tm). (\<lambda>low. push_bit 32 (ucast high) OR ucast low) ` set lows) =
         set (tm_iter E tm) \<and>
       (tm_is_empty E tm \<longleftrightarrow> tm_iter E tm = [])) \<and>
     (\<forall>a b. set (tm_iter E (tm_minus E a b)) = set (tm_iter E a) - set (tm_iter E b)) \<and> tm_iter E (tm_new E) = []"

definition dv_rows :: "('url, 'tm, 'uuid) dv_env \<Rightarrow> 'tm \<Rightarrow> nat set" where
  "dv_rows E tm = unat ` set (tm_iter E tm)"

lemma set_bits_of_nth:
  "length (set_bits_of b high lows sv) = length sv"
  "i < length sv \<Longrightarrow> set_bits_of b high lows sv ! i = (if i \<in> combine high ` set lows then b else sv ! i)"
  by (induction lows arbitrary: sv) (auto simp: nth_list_update)

definition bitmap_rows :: "(32 word \<times> 32 word list) list \<Rightarrow> nat set" where
  "bitmap_rows maps = (\<Union>(high, lows) \<in> set maps. combine high ` set lows)"

lemma set_bitmaps_nth:
  "length (set_bitmaps b maps sv) = length sv"
  "i < length sv \<Longrightarrow> set_bitmaps b maps sv ! i = (if i \<in> bitmap_rows maps then b else sv ! i)"
proof (induction maps arbitrary: sv)
  case (Cons m maps)
  obtain high lows where m: "m = (high, lows)" by (cases m)
  {
    case 1
    then show ?case using Cons.IH(1) by (simp add: m set_bits_of_nth)
  next
    case 2
    then show ?case
      using Cons.IH(2) [of "set_bits_of b high lows sv"] by (simp add: m set_bits_of_nth bitmap_rows_def)
  }
qed (simp_all add: bitmap_rows_def)

lemma treemap_rows:
  assumes "treemap_laws E"
  shows "bitmap_rows (tm_bitmaps E tm) = dv_rows E tm"
proof -
  have "set (tm_iter E tm) = (\<Union>(high, lows) \<in> set (tm_bitmaps E tm). (\<lambda>low. push_bit 32 (ucast high) OR ucast low) ` set lows)"
    using assms unfolding treemap_laws_def by blast
  then show ?thesis unfolding dv_rows_def bitmap_rows_def combine_def by (auto simp: image_iff)
qed

lemma treemap_to_bools_nth:
  assumes "treemap_laws E"
  shows "length (treemap_to_bools_with E tm b) = (if dv_rows E tm = {} then 0 else Suc (Max (dv_rows E tm)))"
    and "i < length (treemap_to_bools_with E tm b) \<Longrightarrow> (treemap_to_bools_with E tm b ! i = b) = (i \<in> dv_rows E tm)"
proof -
  have m: "tm_max E tm = (if tm_iter E tm = [] then None else Some (Max (set (tm_iter E tm))))"
    using assms by (simp add: treemap_laws_def)
  have "unat (Max (set (tm_iter E tm))) = Max (dv_rows E tm)" if "tm_iter E tm \<noteq> []"
    unfolding dv_rows_def using that by (intro mono_Max_commute) (auto simp: mono_def word_le_nat_alt)
  then show "length (treemap_to_bools_with E tm b) = (if dv_rows E tm = {} then 0 else Suc (Max (dv_rows E tm)))"
    using m by (auto simp: treemap_to_bools_with_def set_bitmaps_nth dv_rows_def)
  show "i < length (treemap_to_bools_with E tm b) \<Longrightarrow> (treemap_to_bools_with E tm b ! i = b) = (i \<in> dv_rows E tm)"
    using m by (cases "tm_iter E tm = []") (auto simp: treemap_to_bools_with_def set_bitmaps_nth treemap_rows [OF assms] simp del: replicate_Suc)
qed

text \<open>The row a vector selects, when the rows after its end are selected or not.\<close>

definition selected_row :: "bool \<Rightarrow> bool list option \<Rightarrow> nat \<Rightarrow> bool" where
  "selected_row after sv i = (case sv of None \<Rightarrow> True | Some v \<Rightarrow> if i < length v then v ! i else after)"

lemma treemap_selects:
  assumes "treemap_laws E"
  shows "selected_row True (Some (deletion_treemap_to_bools E tm)) i \<longleftrightarrow> i \<notin> dv_rows E tm"
    and "selected_row False (Some (selection_treemap_to_bools E tm)) i \<longleftrightarrow> i \<in> dv_rows E tm"
proof -
  have "i < length (treemap_to_bools_with E tm b)" if "i \<in> dv_rows E tm" for b
  proof -
    have "finite (dv_rows E tm)" by (simp add: dv_rows_def)
    then show ?thesis using that treemap_to_bools_nth(1) [OF assms, of tm b] Max_ge by (auto simp: le_imp_less_Suc)
  qed
  then show "selected_row True (Some (deletion_treemap_to_bools E tm)) i \<longleftrightarrow> i \<notin> dv_rows E tm"
    "selected_row False (Some (selection_treemap_to_bools E tm)) i \<longleftrightarrow> i \<in> dv_rows E tm"
    using treemap_to_bools_nth(2) [OF assms, of i tm]
    by (auto simp: selected_row_def deletion_treemap_to_bools_def selection_treemap_to_bools_def)
qed

section \<open>A vector over the batches of a file\<close>

text \<open>
  How \<open>Scan::execute\<close> and \<open>read_scan_file\<close> apply the vector of a file to the batches of a reader: each batch
  takes its part of the vector and leaves the rest, or nothing, to the next batch. A batch without a vector keeps all
  its rows.
\<close>

fun batch_vectors :: "bool option \<Rightarrow> nat list \<Rightarrow> bool list option \<Rightarrow> bool list option list" where
  "batch_vectors ext [] sv = []"
| "batch_vectors ext (len # lens) sv =
     (case split_vector sv len ext of (now, rest) \<Rightarrow> now # batch_vectors ext lens rest)"

text \<open>The arrow engine extends a vector that is shorter than the batch with \<open>true\<close>.\<close>

definition kept_row :: "bool list option \<Rightarrow> nat \<Rightarrow> bool" where
  "kept_row sv j = selected_row True sv j"

lemma batch_vectors_None [simp]: "k < length lens \<Longrightarrow> batch_vectors ext lens None ! k = None"
  by (induction lens arbitrary: k) (auto simp: split_vector_def nth_Cons split: nat.splits)

lemma batch_vectors_row:
  assumes "k < length lens" "j < lens ! k" "ext \<noteq> Some False \<or> sum_list (take k lens) < length v"
  shows "kept_row (batch_vectors ext lens (Some v) ! k) j \<longleftrightarrow>
    selected_row (ext \<noteq> Some False) (Some v) (sum_list (take k lens) + j)"
  using assms
proof (induction lens arbitrary: k v)
  case (Cons n lens)
  show ?case
  proof (cases k)
    case 0
    then show ?thesis using Cons.prems by (auto simp: split_vector_def selected_row_def kept_row_def nth_append split: option.splits)
  next
    case (Suc m)
    show ?thesis
    proof (cases "n < length v")
      case True
      have "kept_row (batch_vectors ext lens (Some (drop n v)) ! m) j \<longleftrightarrow>
          selected_row (ext \<noteq> Some False) (Some (drop n v)) (sum_list (take m lens) + j)"
        using Cons.prems Suc by (intro Cons.IH) auto
      then show ?thesis using True Suc by (auto simp: split_vector_def selected_row_def ac_simps)
    next
      case False
      then show ?thesis
        using Cons.prems Suc by (auto simp: split_vector_def selected_row_def kept_row_def split: option.splits)
    qed
  qed
qed simp

text \<open>
  C12. Deleted rows are left out of a scan. The deletion vector of a file, turned into a vector of booleans and split
  over the batches in which the file is read, whatever their sizes, removes exactly the rows in the deletion
  vector: row \<open>j\<close> of batch \<open>k\<close> is kept if and only if the row of the file it stands for is not deleted.
\<close>

theorem deleted_rows_left_out:
  assumes "treemap_laws E" and "k < length lens" "j < lens ! k" and "ext \<noteq> Some False"
    and "get_treemap E read_file root info = Some (Inr tm)"
  shows "\<exists>sv. get_selection_vector E read_file root info = Some (Inr sv) \<and>
    (kept_row (batch_vectors ext lens sv ! k) j \<longleftrightarrow>
      (case tm of Some t \<Rightarrow> sum_list (take k lens) + j \<notin> dv_rows E t | None \<Rightarrow> True))"
proof (cases tm)
  case None
  then show ?thesis using assms(2,5) by (simp add: selected_row_def get_selection_vector_def kept_row_def)
next
  case (Some t)
  then show ?thesis
    using batch_vectors_row [OF assms(2,3), of ext] treemap_selects(1) [OF assms(1)] assms(4,5)
    by (simp add: get_selection_vector_def)
qed

text \<open>
  A vector whose missing rows are not selected loses that reading in the batches after its end: the batch that
  exhausts the vector leaves nothing for the next one, which then keeps all its rows.
\<close>

lemma short_selection_selects_later_batches:
  "selected_row False (Some [True]) 3 = False \<and>
   batch_vectors (Some False) [2, 2] (Some [True]) = [Some [True, False], None] \<and>
   kept_row (batch_vectors (Some False) [2, 2] (Some [True]) ! 1) 1"
  by (simp add: selected_row_def split_vector_def kept_row_def)

section \<open>A small file\<close>

text \<open>Bitmaps as lists of small values, one byte each, and a checksum that adds the bytes.\<close>

definition tiny_dv_env :: "(string list, 64 word list, unit) dv_env" where
  "tiny_dv_env = \<lparr> dv_urls = list_url_ops, url_parse = \<lambda>s. Some [s], z85_encode = \<lambda>_. replicate 20 CHR ''a'',
     z85_decode = \<lambda>_. Some [], uuid_bytes = \<lambda>_. [], uuid_from_slice = \<lambda>_. Some (), uuid_display = \<lambda>_. ''u'',
     crc_checksum = \<lambda>bs. sum_list (map ucast bs), crc_digest = \<lambda>ps. sum_list (map ucast (concat ps)),
     tm_new = [], tm_insert = (#), tm_collect = id, tm_len = \<lambda>t. of_nat (length t), tm_iter = id,
     tm_max = \<lambda>t. if t = [] then None else Some (Max (set t)),
     tm_bitmaps = \<lambda>t. map (\<lambda>x. (ucast (drop_bit 32 x), [ucast x])) t,
     tm_minus = \<lambda>a b. filter (\<lambda>x. x \<notin> set b) a, tm_is_empty = \<lambda>t. t = [],
     tm_serialize = \<lambda>t. if \<forall>x \<in> set t. x < 256 then Inr (map ucast t) else Inl (Generic ''too large''),
     tm_deserialize = \<lambda>bs. Some (map ucast bs) \<rparr>"

lemma ucast_byte: "x < 256 \<Longrightarrow> (ucast (ucast (x :: 64 word) :: 8 word) :: 64 word) = x"
proof -
  assume "x < 256"
  then have "uint x < 256" by (simp add: word_less_def)
  then have "uint (take_bit 8 x) = uint x" by (simp add: unsigned_take_bit_eq take_bit_int_eq_self)
  then have "take_bit 8 x = x" by (rule word_uint_eqI)
  then show ?thesis by (simp add: word_eq_iff_unsigned unsigned_ucast_eq min_def)
qed

lemma word_halves: "push_bit 32 (ucast (ucast (drop_bit 32 x) :: 32 word)) OR ucast (ucast x :: 32 word) = (x :: 64 word)"
  by (rule bit_word_eqI) (auto simp: bit_simps)

lemma tiny_dv_laws: "dv_laws tiny_dv_env" "treemap_laws tiny_dv_env"
proof -
  show "dv_laws tiny_dv_env"
    by (auto simp: dv_laws_def tiny_dv_env_def ucast_byte comp_def intro!: map_idI split: if_splits)
  show "treemap_laws tiny_dv_env"
    by (auto simp: treemap_laws_def tiny_dv_env_def word_halves)
qed

definition tiny_dv_path :: "(string list, unit) dv_path" where
  "tiny_dv_path = \<lparr> dvp_table_path = [''t'', ''''], dvp_uuid = (), dvp_prefix = ''ab'' \<rparr>"

text \<open>Two deletion vectors in one file; the second starts at offset 15.\<close>

definition tiny_dv_file :: bytes where
  "tiny_dv_file = [1, 0, 0, 0, 6, 0xd1, 0xd3, 0x39, 0x64, 0, 2, 0, 0, 2, 67, 0, 0, 0, 5, 0xd1, 0xd3, 0x39, 0x64, 5, 0, 0, 2, 70]"

lemma tiny_dvs_written:
  "write_dvs tiny_dv_env [[0, 2], [5]] (dv_writer_new []) =
   (Inr [\<lparr> wr_offset = 1, wr_size_in_bytes = 6, wr_cardinality = 2 \<rparr>,
         \<lparr> wr_offset = 15, wr_size_in_bytes = 5, wr_cardinality = 1 \<rparr>],
    \<lparr> dw_writer = tiny_dv_file, current_offset = 28 \<rparr>)"
  by code_simp

theorem dv_file_roundtrip_witness:
  "dv_read tiny_dv_env (\<lambda>_. Inr (Some (Inr tiny_dv_file)))
     (to_descriptor tiny_dv_env \<lparr> wr_offset = 15, wr_size_in_bytes = 5, wr_cardinality = 1 \<rparr> tiny_dv_path) [''t'', ''''] =
   Some (Inr [5])"
proof -
  obtain url where "dv_path_absolute tiny_dv_env tiny_dv_path = Inr url"
    by (simp add: dv_path_absolute_def dv_join_def tiny_dv_env_def list_url_ops_def)
  from dv_file_roundtrip [OF tiny_dv_laws(1) tiny_dvs_written _ this, of 1 "\<lambda>_. Inr (Some (Inr tiny_dv_file))"]
  show ?thesis by (simp add: tiny_dv_path_def)
qed

theorem deleted_rows_left_out_witness:
  "\<exists>sv. get_selection_vector tiny_dv_env (\<lambda>_. Inr (Some (Inr tiny_dv_file))) [''t'', '''']
     \<lparr> deletion_vector = Some (to_descriptor tiny_dv_env \<lparr> wr_offset = 1, wr_size_in_bytes = 6, wr_cardinality = 2 \<rparr> tiny_dv_path) \<rparr> =
     Some (Inr sv) \<and> \<not> kept_row (batch_vectors None [1, 4] sv ! 1) 1"
proof -
  have "get_treemap tiny_dv_env (\<lambda>_. Inr (Some (Inr tiny_dv_file))) [''t'', '''']
     \<lparr> deletion_vector = Some (to_descriptor tiny_dv_env \<lparr> wr_offset = 1, wr_size_in_bytes = 6, wr_cardinality = 2 \<rparr> tiny_dv_path) \<rparr> =
     Some (Inr (Some [0, 2]))"
    by code_simp
  from deleted_rows_left_out [OF tiny_dv_laws(2) _ _ _ this, of 1 "[1, 4]" 1 None]
  show ?thesis by (simp add: dv_rows_def tiny_dv_env_def)
qed

end
