(* ===== verification/TableChanges.thy ===== *)
theory TableChanges
  imports Snapshot ScanReplay DeletionVectors
begin

text \<open>
  The change data feed (\<open>table_changes/\<close>): the range of versions it covers, the two passes over each commit that
  select its file actions, the scan files made from them, the resolution of deletion vectors into inserted and
  deleted rows, and the columns of the feed. A snapshot is built as \<open>snapshot/builder.rs\<close> does. The evaluators of
  the engine, the data skipping filter and the reading of data files are arguments; log lines are left out.
\<close>

section \<open>The range of versions\<close>

definition CHANGE_TYPE_COL_NAME :: string where "CHANGE_TYPE_COL_NAME = ''_change_type''"
definition COMMIT_VERSION_COL_NAME :: string where "COMMIT_VERSION_COL_NAME = ''_commit_version''"
definition COMMIT_TIMESTAMP_COL_NAME :: string where "COMMIT_TIMESTAMP_COL_NAME = ''_commit_timestamp''"
definition ADD_CHANGE_TYPE :: string where "ADD_CHANGE_TYPE = ''insert''"
definition REMOVE_CHANGE_TYPE :: string where "REMOVE_CHANGE_TYPE = ''delete''"

definition CDF_FIELDS :: "struct_field list" where
  "CDF_FIELDS =
     [StructField CHANGE_TYPE_COL_NAME (Primitive PString) False [],
      StructField COMMIT_VERSION_COL_NAME (Primitive PLong) False [],
      StructField COMMIT_TIMESTAMP_COL_NAME (Primitive PTimestamp) False []]"

text \<open>
  What a snapshot builder needs besides the engine: the parser of table locations, the text of a URL, and the reader and
  parser of the checkpoint hint.
\<close>

record ('url, 'bytes, 'schema) build_env =
  try_parse_uri :: "string \<Rightarrow> 'url delta_result"
  url_string :: "'url \<Rightarrow> string"
  hint_read_files :: "'url \<Rightarrow> 'bytes delta_result list delta_result"
  hint_from_slice :: "'bytes \<Rightarrow> 'schema last_checkpoint_hint delta_result"

text \<open>\<open>SnapshotBuilder::build\<close> for a builder made by \<open>new_for\<close>; one made by \<open>new_from\<close> calls \<open>try_new_from\<close>.\<close>

definition build_for ::
  "('url, 'loc) engine \<Rightarrow> ('url, 'bytes, 'schema) build_env \<Rightarrow> string \<Rightarrow> 'loc parsed_log_path list \<Rightarrow> version option \<Rightarrow>
   ('url, 'loc, 'schema) snapshot delta_result" where
  "build_for E B table_root log_tail v =
     rbind (try_parse_uri B table_root) (\<lambda>table_url.
     rbind (url_join (urls E) table_url DELTA_LOG_DIR_WITH_SLASH) (\<lambda>log_root.
     rbind (for_snapshot (hash_order E) (urls E) (location_url E) (storage_list E) (hint_read_files B) (hint_from_slice B)
              log_root log_tail v) (\<lambda>seg.
       try_new_from_log_segment E (url_string B table_url) seg)))"

record ('url, 'loc, 'schema) table_changes =
  tch_log_segment :: "('url, 'loc, 'schema) log_segment"
  tch_table_root :: 'url
  tch_end_snapshot :: "('url, 'loc, 'schema) snapshot"
  tch_start_version :: version
  tch_schema :: struct_type
  tch_start_table_config :: table_configuration

definition check_table_config :: "bool \<Rightarrow> ('url, 'loc, 'schema) snapshot \<Rightarrow> unit delta_result" where
  "check_table_config cm s =
     require (is_feature_enabled cm (sn_table_configuration s) ChangeDataFeed) (ChangeDataFeedUnsupported (sn_version s))"

definition table_changes_try_new ::
  "('url, 'loc) engine \<Rightarrow> ('url, 'bytes, 'schema) build_env \<Rightarrow> bool \<Rightarrow> 'url \<Rightarrow> version \<Rightarrow> version option \<Rightarrow>
   ('url, 'loc, 'schema) table_changes delta_result" where
  "table_changes_try_new E B cm root start_version end_v =
     rbind (url_join (urls E) root DELTA_LOG_DIR_WITH_SLASH) (\<lambda>log_root.
     rbind (for_table_changes (urls E) (location_url E) (storage_list E) log_root start_version end_v) (\<lambda>seg.
     rbind (build_for E B (url_string B root) [] (Some start_version)) (\<lambda>start_snapshot.
     rbind (ensure_operation_supported cm (sn_table_configuration start_snapshot) OpCdf) (\<lambda>_.
     rbind (try_new_from E start_snapshot [] end_v) (\<lambda>end_snapshot.
     rbind (ensure_operation_supported cm (sn_table_configuration end_snapshot) OpCdf) (\<lambda>_.
     rbind (check_table_config cm start_snapshot) (\<lambda>_.
     rbind (check_table_config cm end_snapshot) (\<lambda>_.
     rbind (require (struct_type_eq (TableConfiguration.logical_schema (sn_table_configuration start_snapshot))
                                    (TableConfiguration.logical_schema (sn_table_configuration end_snapshot)))
       (Generic ''Failed to build TableChanges: Start and end version schemas are different.'')) (\<lambda>_.
     rbind (struct_try_new (to_lowercase E)
       (fields_of (TableConfiguration.logical_schema (sn_table_configuration end_snapshot)) @ CDF_FIELDS)) (\<lambda>schema.
       Inr \<lparr> tch_log_segment = seg, tch_table_root = root, tch_end_snapshot = end_snapshot,
             tch_start_version = start_version, tch_schema = schema,
             tch_start_table_config = sn_table_configuration start_snapshot \<rparr>))))))))))"

section \<open>The first pass over a commit\<close>

record prepare_state =
  has_cdc_action :: bool
  add_paths :: "string set"
  remove_dvs :: "(string \<times> dv_info) list"

definition prepare_columns :: "column_name list" where
  "prepare_columns =
     [[''add'', ''path''], [''add'', ''dataChange''], [''remove'', ''path''], [''remove'', ''dataChange''],
      [''remove'', ''deletionVector'', ''storageType''], [''remove'', ''deletionVector'', ''pathOrInlineDv''],
      [''remove'', ''deletionVector'', ''offset''], [''remove'', ''deletionVector'', ''sizeInBytes''],
      [''remove'', ''deletionVector'', ''cardinality''], [''cdc'', ''path''], [''commitInfo'', ''inCommitTimestamp'']]"

definition prepare_row :: "getter list \<Rightarrow> nat \<Rightarrow> prepare_state \<Rightarrow> prepare_state delta_result" where
  "prepare_row gs i st =
     rbind (get_str (gs ! 0) i) (\<lambda>add_path.
       case add_path of
         Some path \<Rightarrow>
           if \<not> has_cdc_action st
           then rbind (get_required (get_bool (gs ! 1) i)) (\<lambda>change.
                  Inr (if change then st \<lparr> add_paths := insert path (add_paths st) \<rparr> else st))
           else Inr st
       | None \<Rightarrow>
           rbind (get_str (gs ! 2) i) (\<lambda>remove_path.
             case remove_path of
               Some path \<Rightarrow>
                 if \<not> has_cdc_action st
                 then rbind (get_required (get_bool (gs ! 3) i)) (\<lambda>change.
                        if change
                        then rbind (visit_deletion_vector_at i (take 5 (drop 4 gs))) (\<lambda>dv.
                               Inr (st \<lparr> remove_dvs := AList.update path \<lparr> deletion_vector = dv \<rparr> (remove_dvs st) \<rparr>))
                        else Inr st)
                 else Inr st
             | None \<Rightarrow>
                 rbind (get_str (gs ! 9) i) (\<lambda>cdc_path.
                   Inr (if cdc_path \<noteq> None then st \<lparr> has_cdc_action := True \<rparr> else st))))"

definition prepare_visit :: "engine_data \<Rightarrow> prepare_state \<Rightarrow> prepare_state delta_result" where
  "prepare_visit d st =
     rbind (ed_getters d prepare_columns) (\<lambda>gs.
     rbind (require (length gs = 11) (InternalError ''Wrong number of PreparePhaseVisitor getters'')) (\<lambda>_.
       visit_rows (prepare_row gs) [0..<ed_len d] st))"

text \<open>
  The checks of a batch's metadata and protocol. The configuration is updated in place, so the result says what it
  is afterwards even when a check fails.
\<close>

definition check_updates ::
  "('url, 'loc) engine \<Rightarrow> bool \<Rightarrow> version \<Rightarrow> struct_type \<Rightarrow> metadata option \<Rightarrow> protocol option \<Rightarrow> table_configuration \<Rightarrow>
   unit delta_result \<times> table_configuration" where
  "check_updates E cm v table_schema md p tc =
     (case (case md of
              Some m \<Rightarrow> rbind (parse_schema (schema_from_json E) m) (\<lambda>schema.
                require (struct_type_eq table_schema schema)
                  (ChangeDataFeedIncompatibleSchema ''expected schema'' ''actual schema''))
            | None \<Rightarrow> Inr ()) of
        Inl e \<Rightarrow> (Inl e, tc)
      | Inr _ \<Rightarrow>
          (case (if md \<noteq> None \<or> p \<noteq> None
                 then tc_try_new_from (schema_from_json E) (is_whitespace E) (to_lowercase E) tc md p v
                 else Inr tc) of
             Inl e \<Rightarrow> (Inl e, tc)
           | Inr tc' \<Rightarrow>
               (rbind (require (md \<noteq> None \<longrightarrow> is_feature_enabled cm tc' ChangeDataFeed) (ChangeDataFeedUnsupported v)) (\<lambda>_.
                if p \<noteq> None
                then (case ensure_operation_supported cm tc' OpCdf of Inl _ \<Rightarrow> Inl (ChangeDataFeedUnsupported v) | Inr _ \<Rightarrow> Inr ())
                else Inr ()),
                tc')))"

fun prepare_batches ::
  "('url, 'loc) engine \<Rightarrow> bool \<Rightarrow> version \<Rightarrow> struct_type \<Rightarrow> engine_data delta_result list \<Rightarrow>
   prepare_state \<Rightarrow> table_configuration \<Rightarrow> prepare_state delta_result \<times> table_configuration" where
  "prepare_batches E cm v table_schema [] st tc = (Inr st, tc)"
| "prepare_batches E cm v table_schema (b # bs) st tc =
     (case rbind b (\<lambda>d.
             rbind (prepare_visit d st) (\<lambda>st'.
             rbind (metadata_try_new_from_data d) (\<lambda>md.
             rbind (protocol_try_new_from_data d) (\<lambda>p. Inr (st', md, p))))) of
        Inl e \<Rightarrow> (Inl e, tc)
      | Inr (st', md, p) \<Rightarrow>
          (case check_updates E cm v table_schema md p tc of
             (Inl e, tc') \<Rightarrow> (Inl e, tc')
           | (Inr _, tc') \<Rightarrow> prepare_batches E cm v table_schema bs st' tc'))"

record 'loc scanner =
  sc_has_cdc_action :: bool
  sc_remove_dvs :: "(string \<times> dv_info) list"
  sc_commit_file :: "'loc parsed_log_path"
  sc_timestamp :: "64 word"

definition prepare_schema_columns :: "column_name list" where
  "prepare_schema_columns = prepare_columns @ metadata_columns @ protocol_columns"

definition resolve_remove_dvs :: "prepare_state \<Rightarrow> (string \<times> dv_info) list" where
  "resolve_remove_dvs st =
     (if has_cdc_action st then [] else filter (\<lambda>(path, _). path \<in> add_paths st) (remove_dvs st))"

definition scanner_try_new ::
  "('url, 'loc) engine \<Rightarrow> ('loc \<Rightarrow> 64 word) \<Rightarrow> bool \<Rightarrow> table_configuration \<Rightarrow> 'loc parsed_log_path \<Rightarrow> struct_type \<Rightarrow>
   'loc scanner delta_result \<times> table_configuration" where
  "scanner_try_new E last_modified cm tc commit_file table_schema =
     (case rbind (read_json_files (handlers E prepare_schema_columns) [location commit_file]) (\<lambda>batches.
             rbind (case batches of Inr d # _ \<Rightarrow> ict_visit d | _ \<Rightarrow> Inr None) (\<lambda>ict. Inr (batches, ict))) of
        Inl e \<Rightarrow> (Inl e, tc)
      | Inr (batches, ict) \<Rightarrow>
          (case prepare_batches E cm (version commit_file) table_schema batches
                  \<lparr> has_cdc_action = False, add_paths = {}, remove_dvs = [] \<rparr> tc of
             (Inl e, tc') \<Rightarrow> (Inl e, tc')
           | (Inr st, tc') \<Rightarrow>
               (rbind (if is_feature_enabled cm tc' InCommitTimestamp
                       then ok_or ict (Generic ''In-commit timestamp is enabled but not found in commit'')
                       else Inr (last_modified (location commit_file))) (\<lambda>t.
                  Inr \<lparr> sc_has_cdc_action = has_cdc_action st, sc_remove_dvs = resolve_remove_dvs st,
                        sc_commit_file = commit_file, sc_timestamp = t \<rparr>),
                tc')))"

section \<open>The second pass\<close>

definition selection_columns :: "column_name list" where
  "selection_columns =
     [[''cdc'', ''path''], [''add'', ''path''], [''add'', ''dataChange''], [''remove'', ''path''], [''remove'', ''dataChange'']]"

text \<open>The visitor indexes the selection vector by row: a shorter vector would be a panic, and here is an error.\<close>

definition selection_row ::
  "bool \<Rightarrow> (string \<times> dv_info) list \<Rightarrow> getter list \<Rightarrow> nat \<Rightarrow> bool list \<Rightarrow> bool list delta_result" where
  "selection_row has_cdc dvs gs i sv =
     (if length sv \<le> i then Inl (InternalError ''index out of bounds'')
      else if \<not> sv ! i then Inr sv
      else if has_cdc then rbind (get_str (gs ! 0) i) (\<lambda>p. Inr (sv[i := p \<noteq> None]))
      else rbind (get_str (gs ! 1) i) (\<lambda>add_path.
        if add_path \<noteq> None then rbind (get_required (get_bool (gs ! 2) i)) (\<lambda>change. Inr (sv[i := change]))
        else rbind (get_str (gs ! 3) i) (\<lambda>remove_path.
          case remove_path of
            Some path \<Rightarrow>
              rbind (get_required (get_bool (gs ! 4) i)) (\<lambda>change. Inr (sv[i := change \<and> map_of dvs path = None]))
          | None \<Rightarrow> Inr (sv[i := False]))))"

definition selection_visit ::
  "bool \<Rightarrow> (string \<times> dv_info) list \<Rightarrow> engine_data \<Rightarrow> bool list \<Rightarrow> bool list delta_result" where
  "selection_visit has_cdc dvs d sv =
     rbind (ed_getters d selection_columns) (\<lambda>gs.
     rbind (require (length gs = 5) (InternalError ''Wrong number of FileActionSelectionVisitor getters'')) (\<lambda>_.
       visit_rows (selection_row has_cdc dvs gs) [0..<ed_len d] sv))"

record tc_scan_metadata =
  tcm_scan_metadata :: engine_data
  tcm_selection_vector :: "bool list"
  tcm_remove_dvs :: "(string \<times> dv_info) list"

text \<open>\<open>evaluate\<close> is the engine's evaluator of \<open>cdf_scan_row_expression\<close> for a timestamp and a version.\<close>

definition scan_batch ::
  "(engine_data \<Rightarrow> engine_data delta_result) \<Rightarrow> (engine_data \<Rightarrow> bool list delta_result) option \<Rightarrow> 'loc scanner \<Rightarrow>
   engine_data delta_result \<Rightarrow> tc_scan_metadata delta_result" where
  "scan_batch evaluate skipping sc b =
     rbind b (\<lambda>d.
     rbind (case skipping of Some f \<Rightarrow> f d | None \<Rightarrow> Inr (replicate (ed_len d) True)) (\<lambda>sv.
     rbind (selection_visit (sc_has_cdc_action sc) (sc_remove_dvs sc) d sv) (\<lambda>sv'.
     rbind (evaluate d) (\<lambda>m.
       Inr \<lparr> tcm_scan_metadata = m, tcm_selection_vector = sv', tcm_remove_dvs = sc_remove_dvs sc \<rparr>))))"

definition into_scan_batches ::
  "('url, 'loc) engine \<Rightarrow> (64 word \<Rightarrow> 64 word \<Rightarrow> (engine_data \<Rightarrow> engine_data delta_result) delta_result) \<Rightarrow>
   (engine_data \<Rightarrow> bool list delta_result) option \<Rightarrow> 'loc scanner \<Rightarrow> tc_scan_metadata delta_result list delta_result" where
  "into_scan_batches E new_evaluator skipping sc =
     rbind (read_json_files (handlers E selection_columns) [location (sc_commit_file sc)]) (\<lambda>batches.
     rbind (require (0 \<le> sint (version (sc_commit_file sc))) (Generic ''Failed to convert commit version to i64'')) (\<lambda>_.
     rbind (new_evaluator (sc_timestamp sc) (version (sc_commit_file sc))) (\<lambda>evaluate.
       Inr (map (scan_batch evaluate skipping sc) batches))))"

text \<open>
  The iteration over the commits, with the configuration as its state: a commit that fails yields its error as an
  item, and the next commit is tried with the configuration as it is then.
\<close>

fun table_changes_action_iter ::
  "('url, 'loc) engine \<Rightarrow> ('loc \<Rightarrow> 64 word) \<Rightarrow> bool \<Rightarrow>
   (64 word \<Rightarrow> 64 word \<Rightarrow> (engine_data \<Rightarrow> engine_data delta_result) delta_result) \<Rightarrow>
   (engine_data \<Rightarrow> bool list delta_result) option \<Rightarrow> struct_type \<Rightarrow> table_configuration \<Rightarrow> 'loc parsed_log_path list \<Rightarrow>
   tc_scan_metadata delta_result list" where
  "table_changes_action_iter E last_modified cm new_evaluator skipping schema tc [] = []"
| "table_changes_action_iter E last_modified cm new_evaluator skipping schema tc (f # fs) =
     (case scanner_try_new E last_modified cm tc f schema of
        (r, tc') \<Rightarrow>
          (case rbind r (into_scan_batches E new_evaluator skipping) of Inl e \<Rightarrow> [Inl e] | Inr ms \<Rightarrow> ms) @
          table_changes_action_iter E last_modified cm new_evaluator skipping schema tc' fs)"

section \<open>Scan files\<close>

datatype cdf_scan_file_type = CdfAdd | CdfRemove | CdfCdc

fun get_cdf_string_value :: "cdf_scan_file_type \<Rightarrow> string" where
  "get_cdf_string_value CdfAdd = ADD_CHANGE_TYPE"
| "get_cdf_string_value CdfRemove = REMOVE_CHANGE_TYPE"
| "get_cdf_string_value CdfCdc = ''not-expected''"

record cdf_scan_file =
  scan_type :: cdf_scan_file_type
  cdf_path :: string
  cdf_dv_info :: dv_info
  cdf_remove_dv :: "dv_info option"
  cdf_partition_values :: "(string \<times> string) list"
  commit_version :: "64 word"
  commit_timestamp :: "64 word"
  cdf_size :: "64 word option"

definition dv_columns :: "string \<Rightarrow> column_name list" where
  "dv_columns a = map (\<lambda>f. [a, ''deletionVector'', f]) [''storageType'', ''pathOrInlineDv'', ''offset'', ''sizeInBytes'', ''cardinality'']"

definition cdf_scan_row_columns :: "column_name list" where
  "cdf_scan_row_columns =
     [''add'', ''path''] # dv_columns ''add'' @ [[''add'', ''fileConstantValues'', ''partitionValues''], [''add'', ''size'']] @
     [''remove'', ''path''] # dv_columns ''remove'' @ [[''remove'', ''fileConstantValues'', ''partitionValues''], [''remove'', ''size'']] @
     [[''cdc'', ''path''], [''cdc'', ''fileConstantValues'', ''partitionValues''], [''cdc'', ''size''],
      [''timestamp''], [''commit_version'']]"

text \<open>The kind, path, deletion vector, partition values and size that a row holds, if it holds a file action.\<close>

definition cdf_row_action ::
  "getter list \<Rightarrow> nat \<Rightarrow>
   (cdf_scan_file_type \<times> string \<times> dv_descriptor option \<times> (string \<times> string) list option \<times> 64 word option) option delta_result" where
  "cdf_row_action gs i =
     rbind (get_str (gs ! 0) i) (\<lambda>add_path.
       case add_path of
         Some path \<Rightarrow>
           rbind (visit_deletion_vector_at i (take 5 (drop 1 gs))) (\<lambda>dv.
           rbind (get_map (gs ! 6) i) (\<lambda>pv.
           rbind (get_long (gs ! 7) i) (\<lambda>sz. Inr (Some (CdfAdd, path, dv, pv, sz)))))
       | None \<Rightarrow>
           rbind (get_str (gs ! 8) i) (\<lambda>remove_path.
             case remove_path of
               Some path \<Rightarrow>
                 rbind (visit_deletion_vector_at i (take 5 (drop 9 gs))) (\<lambda>dv.
                 rbind (get_map (gs ! 14) i) (\<lambda>pv.
                 rbind (get_long (gs ! 15) i) (\<lambda>sz. Inr (Some (CdfRemove, path, dv, pv, sz)))))
             | None \<Rightarrow>
                 rbind (get_str (gs ! 16) i) (\<lambda>cdc_path.
                   case cdc_path of
                     Some path \<Rightarrow>
                       rbind (get_map (gs ! 17) i) (\<lambda>pv.
                       rbind (get_long (gs ! 18) i) (\<lambda>sz. Inr (Some (CdfCdc, path, None, pv, sz))))
                   | None \<Rightarrow> Inr None)))"

definition cdf_scan_file_row ::
  "bool list \<Rightarrow> (string \<times> dv_info) list \<Rightarrow> getter list \<Rightarrow> nat \<Rightarrow> cdf_scan_file list \<Rightarrow> cdf_scan_file list delta_result" where
  "cdf_scan_file_row sv dvs gs i files =
     (if length sv \<le> i then Inl (InternalError ''index out of bounds'')
      else if \<not> sv ! i then Inr files
      else rbind (cdf_row_action gs i) (\<lambda>a.
        case a of
          None \<Rightarrow> Inr files
        | Some (ty, path, dv, pv, sz) \<Rightarrow>
            rbind (get_required (get_long (gs ! 19) i)) (\<lambda>t.
            rbind (get_required (get_long (gs ! 20) i)) (\<lambda>v.
              Inr (files @ [\<lparr> scan_type = ty, cdf_path = path, cdf_dv_info = \<lparr> deletion_vector = dv \<rparr>,
                cdf_remove_dv = map_of dvs path, cdf_partition_values = unwrap_or pv [], commit_version = v,
                commit_timestamp = t, cdf_size = sz \<rparr>])))))"

definition visit_cdf_scan_files :: "tc_scan_metadata \<Rightarrow> cdf_scan_file list delta_result" where
  "visit_cdf_scan_files m =
     rbind (ed_getters (tcm_scan_metadata m) cdf_scan_row_columns) (\<lambda>gs.
     rbind (require (length gs = 21) (InternalError ''Wrong number of CdfScanFileVisitor getters'')) (\<lambda>_.
       visit_rows (cdf_scan_file_row (tcm_selection_vector m) (tcm_remove_dvs m) gs) [0..<ed_len (tcm_scan_metadata m)] []))"

text \<open>\<open>map\<close> and \<open>flatten_ok\<close>: an error is one item, a success the items of its list.\<close>

definition flatten_ok :: "'a list delta_result \<Rightarrow> 'a delta_result list" where
  "flatten_ok r = (case r of Inl e \<Rightarrow> [Inl e] | Inr xs \<Rightarrow> map Inr xs)"

definition scan_metadata_to_scan_file :: "tc_scan_metadata delta_result list \<Rightarrow> cdf_scan_file delta_result list" where
  "scan_metadata_to_scan_file ms = concat (map (\<lambda>m. flatten_ok (rbind m visit_cdf_scan_files)) ms)"

section \<open>Resolution of deletion vectors\<close>

record resolved_scan_file =
  rs_scan_file :: cdf_scan_file
  rs_selection_vector :: "bool list option"

definition resolve_pair ::
  "('url, 'tm, 'uuid) dv_env \<Rightarrow> 'tm option \<Rightarrow> 'tm option option \<Rightarrow> cdf_scan_file_type \<Rightarrow> ('tm option \<times> 'tm option) delta_result" where
  "resolve_pair V add_dv rm_dv ty =
     (let get = (\<lambda>x. unwrap_or x (tm_new V)) in
      case rm_dv of
        Some rm \<Rightarrow>
          (case ty of
             CdfRemove \<Rightarrow> Inl (Generic ''CdfScanFile with type remove cannot have a remove deletion vector'')
           | CdfCdc \<Rightarrow> Inl (Generic ''CdfScanFile with type cdc cannot have a remove deletion vector'')
           | CdfAdd \<Rightarrow>
               (let adds = tm_minus V (get rm) (get add_dv); removes = tm_minus V (get add_dv) (get rm) in
                Inr (if tm_is_empty V adds then None else Some adds, if tm_is_empty V removes then None else Some removes)))
      | None \<Rightarrow>
          (case ty of
             CdfRemove \<Rightarrow> Inr (None, Some (get add_dv))
           | _ \<Rightarrow> Inr (Some (get add_dv), None)))"

definition resolve_scan_file_dv ::
  "('url, 'tm, 'uuid) dv_env \<Rightarrow> ('url \<Rightarrow> bytes delta_result option delta_result) \<Rightarrow> 'url \<Rightarrow> cdf_scan_file \<Rightarrow>
   resolved_scan_file list delta_result option" where
  "resolve_scan_file_dv V read_file root f =
     (case get_treemap V read_file root (cdf_dv_info f) of
        None \<Rightarrow> None
      | Some (Inl e) \<Rightarrow> Some (Inl e)
      | Some (Inr add_dv) \<Rightarrow>
          (case transpose_read (map_option (get_treemap V read_file root) (cdf_remove_dv f)) of
             None \<Rightarrow> None
           | Some (Inl e) \<Rightarrow> Some (Inl e)
           | Some (Inr rm_dv) \<Rightarrow>
               Some (rbind (resolve_pair V add_dv rm_dv (scan_type f)) (\<lambda>(adds, removes).
                 let to_bools = (if cdf_remove_dv f \<noteq> None then selection_treemap_to_bools V else deletion_treemap_to_bools V);
                     resolve = (\<lambda>file sv. \<lparr> rs_scan_file = file, rs_selection_vector = (if sv = [] then None else Some sv) \<rparr>) in
                 Inr ((case removes of Some t \<Rightarrow> [resolve (f \<lparr> scan_type := CdfRemove \<rparr>) (to_bools t)] | None \<Rightarrow> []) @
                      (case adds of Some t \<Rightarrow> [resolve f (to_bools t)] | None \<Rightarrow> []))))))"

section \<open>The columns of the feed\<close>

definition field_with_index :: "struct_type \<Rightarrow> string \<Rightarrow> (nat \<times> struct_field) option" where
  "field_with_index st name =
     (case (index_of st name, map_of (st_fields st) name) of (Some i, Some f) \<Rightarrow> Some (i, f) | _ \<Rightarrow> None)"

text \<open>\<open>timestamp_from_millis\<close> is \<open>Scalar::timestamp_from_millis\<close>, whose range is that of chrono.\<close>

definition get_cdf_columns ::
  "(64 word \<Rightarrow> scalar delta_result) \<Rightarrow> struct_type \<Rightarrow> cdf_scan_file \<Rightarrow> (nat \<times> string \<times> scalar) list delta_result" where
  "get_cdf_columns timestamp_from_millis schema f =
     (let change_type =
            (case field_with_index schema CHANGE_TYPE_COL_NAME of
               Some (i, fld) \<Rightarrow>
                 if scan_type f = CdfCdc then [] else [(i, sf_name fld, String (get_cdf_string_value (scan_type f)))]
             | None \<Rightarrow> []) in
      rbind (case field_with_index schema COMMIT_TIMESTAMP_COL_NAME of
               Some (i, fld) \<Rightarrow>
                 (case timestamp_from_millis (commit_timestamp f) of
                    Inr t \<Rightarrow> Inr [(i, sf_name fld, t)]
                  | Inl _ \<Rightarrow> Inl (Generic ''Failed to process scan file''))
             | None \<Rightarrow> Inr []) (\<lambda>timestamp.
        Inr (change_type @ timestamp @
          (case field_with_index schema COMMIT_VERSION_COL_NAME of
             Some (i, fld) \<Rightarrow> [(i, sf_name fld, Long (commit_version f))]
           | None \<Rightarrow> []))))"

definition scan_file_physical_schema :: "cdf_scan_file \<Rightarrow> struct_type \<Rightarrow> struct_type" where
  "scan_file_physical_schema f physical =
     (if scan_type f = CdfCdc
      then new_unchecked (fields_of physical @ [StructField CHANGE_TYPE_COL_NAME (Primitive PString) False []])
      else physical)"

definition get_cdf_transform_expr ::
  "('d, 'dt) scalar_parsers \<Rightarrow> (64 word \<Rightarrow> scalar delta_result) \<Rightarrow> cdf_scan_file \<Rightarrow> 'op state_info \<Rightarrow> struct_type \<Rightarrow>
   'op expression option delta_result" where
  "get_cdf_transform_expr P timestamp_from_millis f info physical =
     (let spec = unwrap_or (transform_spec info) [] in
      if spec = [] then Inr None
      else
        rbind (parse_partition_values P (ScanReplay.logical_schema info) spec (cdf_partition_values f) (mapping_mode info)) (\<lambda>pvs.
        rbind (get_cdf_columns timestamp_from_millis (ScanReplay.logical_schema info) f) (\<lambda>cdf.
        rbind (get_transform_expr spec (foldl (\<lambda>m (i, v). AList.update i v m) pvs cdf) physical None) (\<lambda>e. Inr (Some e)))))"

text \<open>The vectors that \<open>read_scan_file\<close> applies to the batches of the data file, by their lengths.\<close>

definition read_scan_file_vectors :: "resolved_scan_file \<Rightarrow> nat list \<Rightarrow> bool list option list" where
  "read_scan_file_vectors r lens =
     batch_vectors (Some (cdf_remove_dv (rs_scan_file r) = None)) lens (rs_selection_vector r)"

section \<open>The rows of a commit\<close>

text \<open>
  The file actions of a commit, with path, \<open>dataChange\<close>, deletion vector, partition values and size, and what it means
  that a batch of engine data holds them under the columns of each visitor.
\<close>

datatype cdf_action =
    AddA string bool "dv_descriptor option" "(string \<times> string) list option" "64 word option"
  | RemoveA string bool "dv_descriptor option" "(string \<times> string) list option" "64 word option"
  | CdcA string "(string \<times> string) list option" "64 word option"
  | OtherA

definition decoded ::
  "column_name list \<Rightarrow> nat \<Rightarrow> (getter list \<Rightarrow> nat \<Rightarrow> cdf_action \<Rightarrow> bool) \<Rightarrow> engine_data \<Rightarrow> cdf_action list \<Rightarrow> bool" where
  "decoded cols n P d rows \<longleftrightarrow>
     (\<exists>gs. ed_getters d cols = Inr gs \<and> length gs = n \<and> ed_len d = length rows \<and> (\<forall>i < length rows. P gs i (rows ! i)))"

fun prepare_decodes :: "getter list \<Rightarrow> nat \<Rightarrow> cdf_action \<Rightarrow> bool" where
  "prepare_decodes gs i (AddA p c dv pv sz) \<longleftrightarrow> get_str (gs ! 0) i = Inr (Some p) \<and> get_bool (gs ! 1) i = Inr (Some c)"
| "prepare_decodes gs i (RemoveA p c dv pv sz) \<longleftrightarrow> get_str (gs ! 0) i = Inr None \<and> get_str (gs ! 2) i = Inr (Some p) \<and>
     get_bool (gs ! 3) i = Inr (Some c) \<and> visit_deletion_vector_at i (take 5 (drop 4 gs)) = Inr dv"
| "prepare_decodes gs i (CdcA p pv sz) \<longleftrightarrow> get_str (gs ! 0) i = Inr None \<and> get_str (gs ! 2) i = Inr None \<and>
     get_str (gs ! 9) i = Inr (Some p)"
| "prepare_decodes gs i OtherA \<longleftrightarrow> get_str (gs ! 0) i = Inr None \<and> get_str (gs ! 2) i = Inr None \<and> get_str (gs ! 9) i = Inr None"

fun selection_decodes :: "getter list \<Rightarrow> nat \<Rightarrow> cdf_action \<Rightarrow> bool" where
  "selection_decodes gs i (AddA p c dv pv sz) \<longleftrightarrow> get_str (gs ! 0) i = Inr None \<and> get_str (gs ! 1) i = Inr (Some p) \<and>
     get_bool (gs ! 2) i = Inr (Some c)"
| "selection_decodes gs i (RemoveA p c dv pv sz) \<longleftrightarrow> get_str (gs ! 0) i = Inr None \<and> get_str (gs ! 1) i = Inr None \<and>
     get_str (gs ! 3) i = Inr (Some p) \<and> get_bool (gs ! 4) i = Inr (Some c)"
| "selection_decodes gs i (CdcA p pv sz) \<longleftrightarrow> get_str (gs ! 0) i = Inr (Some p) \<and> get_str (gs ! 1) i = Inr None \<and>
     get_str (gs ! 3) i = Inr None"
| "selection_decodes gs i OtherA \<longleftrightarrow> get_str (gs ! 0) i = Inr None \<and> get_str (gs ! 1) i = Inr None \<and> get_str (gs ! 3) i = Inr None"

fun row_parts ::
  "cdf_action \<Rightarrow> (cdf_scan_file_type \<times> string \<times> dv_descriptor option \<times> (string \<times> string) list option \<times> 64 word option) option" where
  "row_parts (AddA p c dv pv sz) = Some (CdfAdd, p, dv, pv, sz)"
| "row_parts (RemoveA p c dv pv sz) = Some (CdfRemove, p, dv, pv, sz)"
| "row_parts (CdcA p pv sz) = Some (CdfCdc, p, None, pv, sz)"
| "row_parts OtherA = None"

definition scan_decodes :: "64 word \<Rightarrow> 64 word \<Rightarrow> getter list \<Rightarrow> nat \<Rightarrow> cdf_action \<Rightarrow> bool" where
  "scan_decodes t v gs i r \<longleftrightarrow> cdf_row_action gs i = Inr (row_parts r) \<and>
     get_long (gs ! 19) i = Inr (Some t) \<and> get_long (gs ! 20) i = Inr (Some v)"

text \<open>A visitor over decoded rows folds over them.\<close>

lemma visit_rows_fold:
  assumes "\<And>i s. i < length rows \<Longrightarrow> f i s = Inr (g (rows ! i) s)"
  shows "visit_rows f [0..<length rows] s = Inr (fold g rows s)"
proof -
  have "visit_rows f [length rows - k..<length rows] s = Inr (fold g (drop (length rows - k) rows) s)"
    if "k \<le> length rows" for k s
    using that
  proof (induction k arbitrary: s)
    case (Suc k)
    then have d: "drop (length rows - Suc k) rows = rows ! (length rows - Suc k) # drop (length rows - k) rows"
      by (simp add: Cons_nth_drop_Suc [symmetric] Suc_diff_Suc)
    have "[length rows - Suc k..<length rows] = (length rows - Suc k) # [length rows - k..<length rows]"
      using Suc.prems by (subst upt_conv_Cons) (simp_all add: Suc_diff_Suc)
    then show ?case using Suc assms [of "length rows - Suc k"] by (simp add: d)
  qed simp
  from this [of "length rows"] show ?thesis by simp
qed

lemma visit_rows_update:
  assumes "\<And>i sv. i < n \<Longrightarrow> length sv = n \<Longrightarrow> sv ! i \<Longrightarrow> f i sv = Inr (sv[i := b i])"
  shows "visit_rows f [0..<n] (replicate n True) = Inr (map b [0..<n])"
proof -
  have "visit_rows f [n - k..<n] (map b [0..<n - k] @ replicate k True) = Inr (map b [0..<n])" if "k \<le> n" for k
    using that
  proof (induction k)
    case (Suc k)
    let ?sv = "map b [0..<n - Suc k] @ replicate (Suc k) True"
    have "[n - Suc k..<n] = (n - Suc k) # [n - k..<n]"
      using Suc.prems by (subst upt_conv_Cons) (simp_all add: Suc_diff_Suc)
    moreover have "f (n - Suc k) ?sv = Inr (?sv[n - Suc k := b (n - Suc k)])"
      using Suc.prems by (intro assms) (simp_all add: nth_append)
    moreover have "?sv[n - Suc k := b (n - Suc k)] = map b [0..<n - k] @ replicate k True"
    proof -
      have "[0..<n - k] = [0..<n - Suc k] @ [n - Suc k]" using Suc.prems by (simp add: Suc_diff_Suc upt_Suc_append [symmetric] del: upt_Suc)
      then show ?thesis by (simp add: list_update_append)
    qed
    ultimately show ?case using Suc by simp
  qed simp
  from this [of n] show ?thesis by simp
qed

subsection \<open>The first pass\<close>

fun prepare_action :: "cdf_action \<Rightarrow> prepare_state \<Rightarrow> prepare_state" where
  "prepare_action (AddA p c dv pv sz) st = (if \<not> has_cdc_action st \<and> c then st \<lparr> add_paths := insert p (add_paths st) \<rparr> else st)"
| "prepare_action (RemoveA p c dv pv sz) st =
     (if \<not> has_cdc_action st \<and> c then st \<lparr> remove_dvs := AList.update p \<lparr> deletion_vector = dv \<rparr> (remove_dvs st) \<rparr> else st)"
| "prepare_action (CdcA p pv sz) st = st \<lparr> has_cdc_action := True \<rparr>"
| "prepare_action OtherA st = st"

lemma prepare_row_decoded: "prepare_decodes gs i r \<Longrightarrow> prepare_row gs i st = Inr (prepare_action r st)"
  by (cases r) (simp_all add: prepare_row_def get_required_def)

lemma prepare_visit_decoded:
  assumes "decoded prepare_columns 11 prepare_decodes d rows"
  shows "prepare_visit d st = Inr (fold prepare_action rows st)"
proof -
  obtain gs where gs: "ed_getters d prepare_columns = Inr gs" "length gs = 11" "ed_len d = length rows"
    "\<forall>i < length rows. prepare_decodes gs i (rows ! i)"
    using assms by (auto simp: decoded_def)
  then show ?thesis
    using visit_rows_fold [of rows "prepare_row gs" prepare_action st] prepare_row_decoded by (simp add: prepare_visit_def)
qed

lemma prepare_batches_decoded:
  assumes "list_all2 (decoded prepare_columns 11 prepare_decodes) ds rowss"
    and "prepare_batches E cm v schema (map Inr ds) st tc = (Inr st', tc')"
  shows "st' = fold prepare_action (concat rowss) st"
  using assms
proof (induction ds rowss arbitrary: st tc rule: list_all2_induct)
  case (Cons d ds rows rowss)
  obtain tc1 where "prepare_batches E cm v schema (map Inr ds) (fold prepare_action rows st) tc1 = (Inr st', tc')"
    using Cons.prems prepare_visit_decoded [OF Cons.hyps(1), of st]
    by (auto split: sum.splits prod.splits simp: result_simps)
  then show ?case using Cons.IH by simp
qed simp

definition is_cdc :: "cdf_action \<Rightarrow> bool" where
  "is_cdc r \<longleftrightarrow> (\<exists>p pv sz. r = CdcA p pv sz)"

definition adds :: "cdf_action list \<Rightarrow> string \<Rightarrow> dv_descriptor option \<Rightarrow> bool" where
  "adds rows p dv \<longleftrightarrow> (\<exists>pv sz. AddA p True dv pv sz \<in> set rows)"

definition removes :: "cdf_action list \<Rightarrow> string \<Rightarrow> dv_descriptor option \<Rightarrow> bool" where
  "removes rows p dv \<longleftrightarrow> (\<exists>pv sz. RemoveA p True dv pv sz \<in> set rows)"

text \<open>A commit gives one deletion vector for a file it adds, and one for a file it removes.\<close>

definition one_dv :: "cdf_action list \<Rightarrow> bool" where
  "one_dv rows \<longleftrightarrow> (\<forall>p a b. (adds rows p a \<and> adds rows p b \<longrightarrow> a = b) \<and> (removes rows p a \<and> removes rows p b \<longrightarrow> a = b))"

abbreviation prepared :: "cdf_action list \<Rightarrow> prepare_state" where
  "prepared rows \<equiv> fold prepare_action rows \<lparr> has_cdc_action = False, add_paths = {}, remove_dvs = [] \<rparr>"

lemma prepared_cdc: "has_cdc_action (prepared rows) \<longleftrightarrow> (\<exists>r \<in> set rows. is_cdc r)"
proof (induction rows rule: rev_induct)
  case (snoc r rows)
  then show ?case by (cases r) (auto simp: is_cdc_def)
qed simp

lemma prepared_adds:
  "\<not> (\<exists>r \<in> set rows. is_cdc r) \<Longrightarrow> p \<in> add_paths (prepared rows) \<longleftrightarrow> (\<exists>dv. adds rows p dv)"
proof (induction rows rule: rev_induct)
  case (snoc r rows)
  then show ?case using prepared_cdc [of rows] by (cases r) (auto simp: adds_def is_cdc_def)
qed (simp add: adds_def)

lemma prepared_removes:
  "\<not> (\<exists>r \<in> set rows. is_cdc r) \<Longrightarrow>
   ((\<exists>dv. removes rows p dv) \<longleftrightarrow> map_of (remove_dvs (prepared rows)) p \<noteq> None) \<and>
   (\<forall>info. map_of (remove_dvs (prepared rows)) p = Some info \<longrightarrow> removes rows p (deletion_vector info))"
proof (induction rows rule: rev_induct)
  case (snoc r rows)
  have "\<not> (\<exists>r \<in> set rows. is_cdc r)" using snoc.prems by auto
  then have "\<not> has_cdc_action (prepared rows)" and
    "((\<exists>dv. removes rows p dv) \<longleftrightarrow> map_of (remove_dvs (prepared rows)) p \<noteq> None) \<and>
     (\<forall>info. map_of (remove_dvs (prepared rows)) p = Some info \<longrightarrow> removes rows p (deletion_vector info))"
    using prepared_cdc [of rows] snoc.IH by auto
  then show ?case using snoc.prems
    by (cases r) (auto simp: removes_def update_conv' is_cdc_def split: if_splits)
qed (simp add: removes_def)

lemma map_of_filter_key: "map_of (filter (\<lambda>(k, _). P k) m) k = (if P k then map_of m k else None)"
  by (induction m) auto

text \<open>What the second pass knows of a commit: the deletion vector of a removed file that is added again.\<close>

lemma resolved_remove_dvs:
  assumes "one_dv rows" "\<not> (\<exists>r \<in> set rows. is_cdc r)"
  shows "map_of (resolve_remove_dvs (prepared rows)) p = Some info \<longleftrightarrow>
    (\<exists>a. adds rows p a) \<and> removes rows p (deletion_vector info)"
proof -
  have "map_of (resolve_remove_dvs (prepared rows)) p =
      (if p \<in> add_paths (prepared rows) then map_of (remove_dvs (prepared rows)) p else None)"
    using prepared_cdc [of rows] assms(2) by (simp add: resolve_remove_dvs_def map_of_filter_key)
  moreover have "map_of (remove_dvs (prepared rows)) p = Some info \<longleftrightarrow> removes rows p (deletion_vector info)"
  proof
    assume r: "removes rows p (deletion_vector info)"
    then obtain info' where i: "map_of (remove_dvs (prepared rows)) p = Some info'"
      using prepared_removes [OF assms(2), of p] by auto
    then have "deletion_vector info' = deletion_vector info"
      using prepared_removes [OF assms(2), of p] i r assms(1) by (auto simp: one_dv_def)
    then show "map_of (remove_dvs (prepared rows)) p = Some info" using i by simp
  qed (use prepared_removes [OF assms(2), of p] in blast)
  ultimately show ?thesis using prepared_adds [OF assms(2), of p] by auto
qed

subsection \<open>The second pass\<close>

fun selected_action :: "bool \<Rightarrow> (string \<times> dv_info) list \<Rightarrow> cdf_action \<Rightarrow> bool" where
  "selected_action cdc dvs (AddA p c dv pv sz) = (\<not> cdc \<and> c)"
| "selected_action cdc dvs (RemoveA p c dv pv sz) = (\<not> cdc \<and> c \<and> map_of dvs p = None)"
| "selected_action cdc dvs (CdcA p pv sz) = cdc"
| "selected_action cdc dvs OtherA = False"

lemma selection_row_decoded:
  "selection_decodes gs i r \<Longrightarrow> i < length sv \<Longrightarrow> sv ! i \<Longrightarrow> selection_row cdc dvs gs i sv = Inr (sv[i := selected_action cdc dvs r])"
  by (cases r) (simp_all add: selection_row_def get_required_def)

lemma selection_visit_decoded:
  assumes "decoded selection_columns 5 selection_decodes d rows"
  shows "selection_visit cdc dvs d (replicate (ed_len d) True) = Inr (map (selected_action cdc dvs) rows)"
proof -
  obtain gs where gs: "ed_getters d selection_columns = Inr gs" "length gs = 5" "ed_len d = length rows"
    "\<forall>i < length rows. selection_decodes gs i (rows ! i)"
    using assms by (auto simp: decoded_def)
  have "visit_rows (selection_row cdc dvs gs) [0..<length rows] (replicate (length rows) True) =
      Inr (map (\<lambda>i. selected_action cdc dvs (rows ! i)) [0..<length rows])"
    using gs(4) by (intro visit_rows_update) (simp add: selection_row_decoded)
  moreover have "map (\<lambda>i. selected_action cdc dvs (rows ! i)) [0..<length rows] = map (selected_action cdc dvs) rows"
    by (rule nth_equalityI) simp_all
  ultimately show ?thesis using gs(1-3) by (simp add: selection_visit_def)
qed

text \<open>The scan files of the selected actions.\<close>

definition action_files ::
  "64 word \<Rightarrow> 64 word \<Rightarrow> (string \<times> dv_info) list \<Rightarrow> cdf_action \<Rightarrow> cdf_scan_file list" where
  "action_files t v dvs r =
     (case row_parts r of
        None \<Rightarrow> []
      | Some (ty, path, dv, pv, sz) \<Rightarrow>
          [\<lparr> scan_type = ty, cdf_path = path, cdf_dv_info = \<lparr> deletion_vector = dv \<rparr>, cdf_remove_dv = map_of dvs path,
             cdf_partition_values = unwrap_or pv [], commit_version = v, commit_timestamp = t, cdf_size = sz \<rparr>])"

definition commit_files ::
  "64 word \<Rightarrow> 64 word \<Rightarrow> bool \<Rightarrow> (string \<times> dv_info) list \<Rightarrow> cdf_action list \<Rightarrow> cdf_scan_file list" where
  "commit_files t v cdc dvs rows = concat (map (action_files t v dvs) (filter (selected_action cdc dvs) rows))"

lemma cdf_scan_file_row_decoded:
  assumes "scan_decodes t v gs i r" "i < length sv" "sv ! i = b"
  shows "cdf_scan_file_row sv dvs gs i files = Inr (files @ (if b then action_files t v dvs r else []))"
  using assms by (cases r) (simp_all add: cdf_scan_file_row_def scan_decodes_def get_required_def action_files_def)

lemma fold_append_concat: "fold (\<lambda>x acc. acc @ f x) xs acc = acc @ concat (map f xs)"
  by (induction xs arbitrary: acc) simp_all

lemma visit_scan_files_decoded:
  assumes "decoded cdf_scan_row_columns 21 (scan_decodes t v) d rows"
  shows "visit_cdf_scan_files \<lparr> tcm_scan_metadata = d, tcm_selection_vector = map (selected_action cdc dvs) rows, tcm_remove_dvs = dvs \<rparr> =
    Inr (commit_files t v cdc dvs rows)"
proof -
  obtain gs where gs: "ed_getters d cdf_scan_row_columns = Inr gs" "length gs = 21" "ed_len d = length rows"
    "\<forall>i < length rows. scan_decodes t v gs i (rows ! i)"
    using assms by (auto simp: decoded_def)
  have "visit_rows (cdf_scan_file_row (map (selected_action cdc dvs) rows) dvs gs) [0..<length rows] [] =
      Inr (fold (\<lambda>r files. files @ (if selected_action cdc dvs r then action_files t v dvs r else [])) rows [])"
    using gs(4) by (intro visit_rows_fold) (simp add: cdf_scan_file_row_decoded)
  also have "fold (\<lambda>r files. files @ (if selected_action cdc dvs r then action_files t v dvs r else [])) rows [] =
      commit_files t v cdc dvs rows"
    unfolding fold_append_concat commit_files_def by (induction rows) simp_all
  finally show ?thesis using gs(1-3) by (simp add: visit_cdf_scan_files_def)
qed

text \<open>
  A commit that holds the given actions: both passes read them, in batches of any sizes, and the engine evaluates the
  expression of scan rows.
\<close>

definition commit_holds ::
  "('url, 'loc) engine \<Rightarrow> (engine_data \<Rightarrow> engine_data delta_result) \<Rightarrow> 64 word \<Rightarrow> 'loc parsed_log_path \<Rightarrow> cdf_action list \<Rightarrow> bool" where
  "commit_holds E evaluate t f rows \<longleftrightarrow>
     (\<exists>ds rowss. read_json_files (handlers E prepare_schema_columns) [location f] = Inr (map Inr ds) \<and>
        list_all2 (decoded prepare_columns 11 prepare_decodes) ds rowss \<and> concat rowss = rows) \<and>
     (\<exists>ds rowss. read_json_files (handlers E selection_columns) [location f] = Inr (map Inr ds) \<and>
        list_all2 (\<lambda>d rs. decoded selection_columns 5 selection_decodes d rs \<and>
          (\<exists>m. evaluate d = Inr m \<and> decoded cdf_scan_row_columns 21 (scan_decodes t (version f)) m rs)) ds rowss \<and>
        concat rowss = rows)"

lemma scan_batches_files:
  assumes "list_all2 (\<lambda>d rs. decoded selection_columns 5 selection_decodes d rs \<and>
      (\<exists>m. evaluate d = Inr m \<and> decoded cdf_scan_row_columns 21 (scan_decodes t v) m rs)) ds rowss"
  shows "scan_metadata_to_scan_file (map (scan_batch evaluate None sc) (map Inr ds)) =
    map Inr (commit_files t v (sc_has_cdc_action sc) (sc_remove_dvs sc) (concat rowss))"
  using assms
proof (induction ds rowss rule: list_all2_induct)
  case (Cons d ds rs rowss)
  obtain m where m: "evaluate d = Inr m" "decoded cdf_scan_row_columns 21 (scan_decodes t v) m rs"
    and d: "decoded selection_columns 5 selection_decodes d rs" using Cons.hyps(1) by blast
  have "rbind (scan_batch evaluate None sc (Inr d)) visit_cdf_scan_files =
      Inr (commit_files t v (sc_has_cdc_action sc) (sc_remove_dvs sc) rs)"
    using visit_scan_files_decoded [OF m(2)] selection_visit_decoded [OF d] m(1) by (simp add: scan_batch_def)
  then show ?case using Cons.IH by (simp add: scan_metadata_to_scan_file_def flatten_ok_def commit_files_def)
qed (simp add: scan_metadata_to_scan_file_def commit_files_def)

lemma commit_scan_files:
  assumes sc: "scanner_try_new E last_modified cm tc f schema = (Inr sc, tc')"
    and holds: "commit_holds E evaluate (sc_timestamp sc) f rows"
    and ev: "new_evaluator (sc_timestamp sc) (version f) = Inr evaluate" and v: "0 \<le> sint (version f)"
  shows "scan_metadata_to_scan_file (table_changes_action_iter E last_modified cm new_evaluator None schema tc [f]) =
    map Inr (commit_files (sc_timestamp sc) (version f) (has_cdc_action (prepared rows)) (resolve_remove_dvs (prepared rows)) rows)"
proof -
  obtain ds rowss where r1: "read_json_files (handlers E prepare_schema_columns) [location f] = Inr (map Inr ds)"
    "list_all2 (decoded prepare_columns 11 prepare_decodes) ds rowss" "concat rowss = rows"
    using holds by (auto simp: commit_holds_def)
  obtain ds2 rowss2 where r2: "read_json_files (handlers E selection_columns) [location f] = Inr (map Inr ds2)"
    "list_all2 (\<lambda>d rs. decoded selection_columns 5 selection_decodes d rs \<and>
      (\<exists>m. evaluate d = Inr m \<and> decoded cdf_scan_row_columns 21 (scan_decodes (sc_timestamp sc) (version f)) m rs)) ds2 rowss2"
    "concat rowss2 = rows"
    using holds by (auto simp: commit_holds_def)
  obtain st where st: "prepare_batches E cm (version f) schema (map Inr ds)
      \<lparr> has_cdc_action = False, add_paths = {}, remove_dvs = [] \<rparr> tc = (Inr st, tc')"
    and f: "sc_commit_file sc = f" "sc_has_cdc_action sc = has_cdc_action st" "sc_remove_dvs sc = resolve_remove_dvs st"
    using sc r1(1) by (auto simp: scanner_try_new_def result_simps split: sum.splits prod.splits)
  have st': "st = prepared rows" using prepare_batches_decoded [OF r1(2) st] r1(3) by simp
  have "into_scan_batches E new_evaluator None sc = Inr (map (scan_batch evaluate None sc) (map Inr ds2))"
    using r2(1) ev v f(1) by (simp add: into_scan_batches_def)
  then show ?thesis using sc scan_batches_files [OF r2(2), of sc] r2(3) f(2,3) st' by simp
qed

section \<open>The feed is the difference of the table before and after a commit\<close>

text \<open>The rows of a file that a deletion vector, if there is one, deletes; and whether it can be read.\<close>

definition readable ::
  "('url, 'tm, 'uuid) dv_env \<Rightarrow> ('url \<Rightarrow> bytes delta_result option delta_result) \<Rightarrow> 'url \<Rightarrow> dv_descriptor option \<Rightarrow> bool" where
  "readable V read_file root dv \<longleftrightarrow> (\<exists>tm. get_treemap V read_file root \<lparr> deletion_vector = dv \<rparr> = Some (Inr tm))"

definition deleted_rows ::
  "('url, 'tm, 'uuid) dv_env \<Rightarrow> ('url \<Rightarrow> bytes delta_result option delta_result) \<Rightarrow> 'url \<Rightarrow> dv_descriptor option \<Rightarrow> nat set" where
  "deleted_rows V read_file root dv =
     (case get_treemap V read_file root \<lparr> deletion_vector = dv \<rparr> of Some (Inr (Some t)) \<Rightarrow> dv_rows V t | _ \<Rightarrow> {})"

definition emits ::
  "('url, 'tm, 'uuid) dv_env \<Rightarrow> ('url \<Rightarrow> bytes delta_result option delta_result) \<Rightarrow> 'url \<Rightarrow> cdf_scan_file \<Rightarrow>
   cdf_scan_file_type \<Rightarrow> nat \<Rightarrow> bool" where
  "emits V read_file root f ty i \<longleftrightarrow>
     (\<exists>rs r. resolve_scan_file_dv V read_file root f = Some (Inr rs) \<and> r \<in> set rs \<and> scan_type (rs_scan_file r) = ty \<and>
        selected_row (cdf_remove_dv f = None) (rs_selection_vector r) i)"

lemma dv_info_eta [simp]: "\<lparr> deletion_vector = deletion_vector x \<rparr> = x"
  by (cases x) simp

lemma treemap_or_empty:
  assumes "treemap_laws V" "get_treemap V read_file root \<lparr> deletion_vector = dv \<rparr> = Some (Inr tm)"
  shows "dv_rows V (unwrap_or tm (tm_new V)) = deleted_rows V read_file root dv"
  using assms by (cases tm) (auto simp: deleted_rows_def unwrap_or_def dv_rows_def treemap_laws_def)

lemma bools_of_rows:
  assumes "treemap_laws V"
  shows "selected_row True (if deletion_treemap_to_bools V t = [] then None else Some (deletion_treemap_to_bools V t)) i \<longleftrightarrow> i \<notin> dv_rows V t"
    and "\<not> tm_is_empty V t \<Longrightarrow>
      selected_row False (if selection_treemap_to_bools V t = [] then None else Some (selection_treemap_to_bools V t)) i \<longleftrightarrow> i \<in> dv_rows V t"
proof -
  have len: "treemap_to_bools_with V t b = [] \<longleftrightarrow> dv_rows V t = {}" for b
    using treemap_to_bools_nth(1) [OF assms, of t b] by (metis length_0_conv nat.distinct(1))
  show "selected_row True (if deletion_treemap_to_bools V t = [] then None else Some (deletion_treemap_to_bools V t)) i \<longleftrightarrow> i \<notin> dv_rows V t"
    using treemap_selects(1) [OF assms, of t i] len [of False] by (auto simp: deletion_treemap_to_bools_def selected_row_def)
  assume "\<not> tm_is_empty V t"
  then have "dv_rows V t \<noteq> {}" using assms by (auto simp: treemap_laws_def dv_rows_def)
  then show "selected_row False (if selection_treemap_to_bools V t = [] then None else Some (selection_treemap_to_bools V t)) i \<longleftrightarrow> i \<in> dv_rows V t"
    using treemap_selects(2) [OF assms, of t i] len [of True] by (simp add: selection_treemap_to_bools_def)
qed

text \<open>A file of its own emits all its rows that are not deleted.\<close>

lemma emits_alone:
  assumes "treemap_laws V" "readable V read_file root (deletion_vector (cdf_dv_info f))" "cdf_remove_dv f = None"
  shows "emits V read_file root f ty i \<longleftrightarrow>
    ty = scan_type f \<and> i \<notin> deleted_rows V read_file root (deletion_vector (cdf_dv_info f))"
proof -
  obtain tm where tm: "get_treemap V read_file root (cdf_dv_info f) = Some (Inr tm)"
    using assms(2) by (auto simp: readable_def)
  have "dv_rows V (unwrap_or tm (tm_new V)) = deleted_rows V read_file root (deletion_vector (cdf_dv_info f))"
    using tm by (intro treemap_or_empty [OF assms(1)]) simp
  then show ?thesis
    using tm assms(3) bools_of_rows(1) [OF assms(1), of "unwrap_or tm (tm_new V)" i]
    by (cases "scan_type f")
      (auto simp: emits_def resolve_scan_file_dv_def transpose_read_def resolve_pair_def Let_def)
qed

lemma inj_unat': "inj (unat :: 'a::len word \<Rightarrow> nat)"
  by (rule injI) (simp add: word_unat_eq_iff)

text \<open>A file that is removed and added again emits the rows that are restored and those that are deleted.\<close>

lemma emits_pair:
  assumes laws: "treemap_laws V" and a: "readable V read_file root (deletion_vector (cdf_dv_info f))"
    and b: "readable V read_file root (deletion_vector rm)" and f: "cdf_remove_dv f = Some rm" "scan_type f = CdfAdd"
  defines "A \<equiv> deleted_rows V read_file root (deletion_vector (cdf_dv_info f))"
    and "B \<equiv> deleted_rows V read_file root (deletion_vector rm)"
  shows "emits V read_file root f ty i \<longleftrightarrow> ty = CdfAdd \<and> i \<in> B - A \<or> ty = CdfRemove \<and> i \<in> A - B"
proof -
  obtain ta where ta: "get_treemap V read_file root (cdf_dv_info f) = Some (Inr ta)" using a by (auto simp: readable_def)
  obtain tb where tb: "get_treemap V read_file root rm = Some (Inr tb)" using b by (auto simp: readable_def)
  let ?a = "unwrap_or ta (tm_new V)" and ?b = "unwrap_or tb (tm_new V)"
  have "dv_rows V ?a = A" "dv_rows V ?b = B"
    using ta tb by (auto simp: A_def B_def intro!: treemap_or_empty [OF laws])
  moreover have "dv_rows V (tm_minus V x y) = dv_rows V x - dv_rows V y" for x y
    using laws by (auto simp: treemap_laws_def dv_rows_def image_set_diff [OF inj_unat'])
  ultimately have rows: "dv_rows V (tm_minus V ?b ?a) = B - A" "dv_rows V (tm_minus V ?a ?b) = A - B" by simp_all
  have empty: "tm_is_empty V t \<longleftrightarrow> dv_rows V t = {}" for t using laws by (auto simp: treemap_laws_def dv_rows_def)
  let ?sv = "\<lambda>t. if selection_treemap_to_bools V t = [] then None else Some (selection_treemap_to_bools V t)"
  define sa where "sa = ?sv (tm_minus V ?b ?a)"
  define sr where "sr = ?sv (tm_minus V ?a ?b)"
  have res: "resolve_scan_file_dv V read_file root f = Some (Inr
      ((if A - B = {} then [] else [\<lparr> rs_scan_file = f \<lparr> scan_type := CdfRemove \<rparr>, rs_selection_vector = sr \<rparr>]) @
       (if B - A = {} then [] else [\<lparr> rs_scan_file = f, rs_selection_vector = sa \<rparr>])))"
    using ta tb f by (simp add: sa_def sr_def resolve_scan_file_dv_def transpose_read_def resolve_pair_def Let_def rows empty)
  have "selected_row False sa i \<longleftrightarrow> i \<in> B - A" if "B - A \<noteq> {}"
    using bools_of_rows(2) [OF laws, of "tm_minus V ?b ?a" i] that empty [of "tm_minus V ?b ?a"] rows(1)
    by (simp only: sa_def simp_thms)
  moreover have "selected_row False sr i \<longleftrightarrow> i \<in> A - B" if "A - B \<noteq> {}"
    using bools_of_rows(2) [OF laws, of "tm_minus V ?a ?b" i] that empty [of "tm_minus V ?a ?b"] rows(2)
    by (simp only: sr_def simp_thms)
  moreover have "emits V read_file root f ty i \<longleftrightarrow>
      (ty = CdfRemove \<and> A - B \<noteq> {} \<and> selected_row False sr i) \<or> (ty = CdfAdd \<and> B - A \<noteq> {} \<and> selected_row False sa i)"
  proof -
    have "emits V read_file root f ty i \<longleftrightarrow>
        (\<exists>r \<in> set ((if A - B = {} then [] else [\<lparr> rs_scan_file = f \<lparr> scan_type := CdfRemove \<rparr>, rs_selection_vector = sr \<rparr>]) @
           (if B - A = {} then [] else [\<lparr> rs_scan_file = f, rs_selection_vector = sa \<rparr>])).
          scan_type (rs_scan_file r) = ty \<and> selected_row False (rs_selection_vector r) i)"
      unfolding emits_def res f(1) by (simp only: option.inject sum.inject option.distinct simp_thms) blast
    then show ?thesis using f(2) by (simp split: if_split) blast
  qed
  ultimately show ?thesis by blast
qed

text \<open>The files of a commit without \<open>cdc\<close> actions.\<close>

lemma commit_files_change:
  assumes "\<not> (\<exists>r \<in> set rows. is_cdc r)" and dvs: "dvs = resolve_remove_dvs (prepared rows)"
  shows "f \<in> set (commit_files t v False dvs rows) \<Longrightarrow>
      cdf_remove_dv f = map_of dvs (cdf_path f) \<and>
      (scan_type f = CdfAdd \<and> adds rows (cdf_path f) (deletion_vector (cdf_dv_info f)) \<or>
       scan_type f = CdfRemove \<and> removes rows (cdf_path f) (deletion_vector (cdf_dv_info f)) \<and> map_of dvs (cdf_path f) = None)"
    and "adds rows p dv \<Longrightarrow> \<exists>f \<in> set (commit_files t v False dvs rows).
      cdf_path f = p \<and> scan_type f = CdfAdd \<and> deletion_vector (cdf_dv_info f) = dv"
    and "removes rows p dv \<Longrightarrow> map_of dvs p = None \<Longrightarrow> \<exists>f \<in> set (commit_files t v False dvs rows).
      cdf_path f = p \<and> scan_type f = CdfRemove \<and> deletion_vector (cdf_dv_info f) = dv"
proof -
  show "f \<in> set (commit_files t v False dvs rows) \<Longrightarrow>
      cdf_remove_dv f = map_of dvs (cdf_path f) \<and>
      (scan_type f = CdfAdd \<and> adds rows (cdf_path f) (deletion_vector (cdf_dv_info f)) \<or>
       scan_type f = CdfRemove \<and> removes rows (cdf_path f) (deletion_vector (cdf_dv_info f)) \<and> map_of dvs (cdf_path f) = None)"
  proof -
    assume "f \<in> set (commit_files t v False dvs rows)"
    then obtain r where r: "r \<in> set rows" "selected_action False dvs r" "f \<in> set (action_files t v dvs r)"
      by (auto simp: commit_files_def)
    then show ?thesis by (cases r rule: cdf_action.exhaust) (auto simp: action_files_def adds_def removes_def)
  qed
  have sel: "r \<in> set rows \<Longrightarrow> selected_action False dvs r \<Longrightarrow> set (action_files t v dvs r) \<subseteq> set (commit_files t v False dvs rows)" for r
    by (auto simp: commit_files_def)
  show "adds rows p dv \<Longrightarrow> \<exists>f \<in> set (commit_files t v False dvs rows).
      cdf_path f = p \<and> scan_type f = CdfAdd \<and> deletion_vector (cdf_dv_info f) = dv"
  proof -
    assume "adds rows p dv"
    then obtain pv sz where r: "AddA p True dv pv sz \<in> set rows" by (auto simp: adds_def)
    show ?thesis using sel [OF r] by (auto simp: action_files_def intro!: bexI [rotated])
  qed
  show "removes rows p dv \<Longrightarrow> map_of dvs p = None \<Longrightarrow> \<exists>f \<in> set (commit_files t v False dvs rows).
      cdf_path f = p \<and> scan_type f = CdfRemove \<and> deletion_vector (cdf_dv_info f) = dv"
  proof -
    assume "removes rows p dv" and n: "map_of dvs p = None"
    then obtain pv sz where r: "RemoveA p True dv pv sz \<in> set rows" by (auto simp: removes_def)
    show ?thesis using sel [OF r] n by (auto simp: action_files_def intro!: bexI [rotated])
  qed
qed

definition live_after where
  "live_after V read_file root rows p i \<longleftrightarrow> (\<exists>dv. adds rows p dv \<and> i \<notin> deleted_rows V read_file root dv)"

definition live_before where
  "live_before V read_file root rows p i \<longleftrightarrow> (\<exists>dv. removes rows p dv \<and> i \<notin> deleted_rows V read_file root dv)"

lemma commit_files_difference:
  assumes laws: "treemap_laws V" and one: "one_dv rows" and no: "\<not> (\<exists>r \<in> set rows. is_cdc r)"
    and dvs: "dvs = resolve_remove_dvs (prepared rows)"
    and reads: "\<And>p dv. adds rows p dv \<or> removes rows p dv \<Longrightarrow> readable V read_file root dv"
  shows "(\<exists>f \<in> set (commit_files t v False dvs rows). cdf_path f = p \<and> emits V read_file root f ty i) \<longleftrightarrow>
    ty = CdfAdd \<and> live_after V read_file root rows p i \<and> \<not> live_before V read_file root rows p i \<or>
    ty = CdfRemove \<and> live_before V read_file root rows p i \<and> \<not> live_after V read_file root rows p i"
    (is "?L \<longleftrightarrow> ?R")
proof -
  let ?D = "deleted_rows V read_file root" let ?F = "set (commit_files t v False dvs rows)"
  note files = commit_files_change [OF no dvs]
  note pair = resolved_remove_dvs [OF one no, of p, folded dvs]
  have uniq: "adds rows p a \<Longrightarrow> adds rows p b \<Longrightarrow> a = b" "removes rows p a \<Longrightarrow> removes rows p b \<Longrightarrow> a = b" for a b
    using one by (auto simp: one_dv_def)
  consider (both) a b where "adds rows p a" "removes rows p b" | (add) a where "adds rows p a" "\<nexists>b. removes rows p b"
    | (remove) b where "removes rows p b" "\<nexists>a. adds rows p a" | (none) "\<nexists>a. adds rows p a" "\<nexists>b. removes rows p b"
    by blast
  then show ?thesis
  proof cases
    case both
    have rm: "map_of dvs p = Some \<lparr> deletion_vector = b \<rparr>" using pair both by auto
    have "emits V read_file root f ty i \<longleftrightarrow> ty = CdfAdd \<and> i \<in> ?D b - ?D a \<or> ty = CdfRemove \<and> i \<in> ?D a - ?D b"
      if "f \<in> ?F" "cdf_path f = p" for f
    proof -
      have f: "cdf_remove_dv f = Some \<lparr> deletion_vector = b \<rparr>" "scan_type f = CdfAdd" "deletion_vector (cdf_dv_info f) = a"
        using files(1) [OF that(1)] that(2) rm uniq(1) [OF both(1)] by auto
      show ?thesis using emits_pair [OF laws _ _ f(1,2), of read_file root ty i] reads [of p] both f(3) by simp
    qed
    then have "?L \<longleftrightarrow> ty = CdfAdd \<and> i \<in> ?D b - ?D a \<or> ty = CdfRemove \<and> i \<in> ?D a - ?D b"
      using files(2) [OF both(1), where t = t and v = v] by blast
    then show ?thesis using both uniq by (auto simp: live_after_def live_before_def)
  next
    case add
    have rm: "map_of dvs p = None" using pair add by (cases "map_of dvs p") auto
    have "emits V read_file root f ty i \<longleftrightarrow> ty = CdfAdd \<and> i \<notin> ?D a" if "f \<in> ?F" "cdf_path f = p" for f
    proof -
      have f: "cdf_remove_dv f = None" "scan_type f = CdfAdd" "deletion_vector (cdf_dv_info f) = a"
        using files(1) [OF that(1)] that(2) rm add(2) uniq(1) [OF add(1)] by auto
      show ?thesis using emits_alone [OF laws _ f(1), of read_file root ty i] reads [of p] add(1) f(2,3) by simp
    qed
    then have "?L \<longleftrightarrow> ty = CdfAdd \<and> i \<notin> ?D a" using files(2) [OF add(1), where t = t and v = v] by blast
    then show ?thesis using add uniq by (auto simp: live_after_def live_before_def)
  next
    case remove
    have rm: "map_of dvs p = None" using pair remove by (cases "map_of dvs p") auto
    have "emits V read_file root f ty i \<longleftrightarrow> ty = CdfRemove \<and> i \<notin> ?D b" if "f \<in> ?F" "cdf_path f = p" for f
    proof -
      have f: "cdf_remove_dv f = None" "scan_type f = CdfRemove" "deletion_vector (cdf_dv_info f) = b"
        using files(1) [OF that(1)] that(2) rm remove(2) uniq(2) [OF remove(1)] by auto
      show ?thesis using emits_alone [OF laws _ f(1), of read_file root ty i] reads [of p] remove(1) f(2,3) by simp
    qed
    then have "?L \<longleftrightarrow> ty = CdfRemove \<and> i \<notin> ?D b" using files(3) [OF remove(1) rm, where t = t and v = v] by blast
    then show ?thesis using remove uniq by (auto simp: live_after_def live_before_def)
  next
    case none
    then have "\<not> ?L" using files(1) by blast
    then show ?thesis using none by (auto simp: live_after_def live_before_def)
  qed
qed


subsection \<open>The rows that are read\<close>

text \<open>
  Applied batch by batch, the vector of a resolved file keeps the rows it selects when the file is not one of a removed
  and added pair, and in the first batch of any file.
\<close>

lemma read_rows:
  assumes "k < length lens" "j < lens ! k" "cdf_remove_dv (rs_scan_file r) = None \<or> k = 0" "rs_selection_vector r \<noteq> Some []"
  shows "kept_row (read_scan_file_vectors r lens ! k) j \<longleftrightarrow>
    selected_row (cdf_remove_dv (rs_scan_file r) = None) (rs_selection_vector r) (sum_list (take k lens) + j)"
proof (cases "rs_selection_vector r")
  case None
  then show ?thesis using assms(1) by (simp add: read_scan_file_vectors_def kept_row_def selected_row_def)
next
  case (Some v)
  then show ?thesis
    using batch_vectors_row [OF assms(1,2), of "Some (cdf_remove_dv (rs_scan_file r) = None)" v] assms(3,4)
    by (auto simp: read_scan_file_vectors_def)
qed

text \<open>
  In a later batch of such a pair all rows are kept: the vector of the rows that changed is used up, and the rows that
  did not change appear in the feed.
\<close>

lemma unchanged_rows_in_later_batches:
  "\<exists>r. cdf_remove_dv (rs_scan_file r) = Some \<lparr> deletion_vector = None \<rparr> \<and>
     \<not> selected_row False (rs_selection_vector r) 3 \<and> kept_row (read_scan_file_vectors r [2, 2] ! 1) 1"
proof -
  let ?f = "\<lparr> scan_type = CdfRemove, cdf_path = ''a'', cdf_dv_info = \<lparr> deletion_vector = None \<rparr>,
    cdf_remove_dv = Some \<lparr> deletion_vector = None \<rparr>, cdf_partition_values = [], commit_version = 0, commit_timestamp = 0, cdf_size = None \<rparr>"
  show ?thesis
    by (rule exI [of _ "\<lparr> rs_scan_file = ?f, rs_selection_vector = Some [True] \<rparr>"])
      (simp add: read_scan_file_vectors_def short_selection_selects_later_batches selected_row_def kept_row_def split_vector_def)
qed

section \<open>A small commit\<close>

fun dv_text :: "dv_descriptor option \<Rightarrow> string \<Rightarrow> string option" where
  "dv_text None f = None"
| "dv_text (Some dv) f =
     (if f = ''storageType'' then Some (dv_storage_type_to_string (storage_type dv))
      else if f = ''pathOrInlineDv'' then Some (path_or_inline_dv dv) else None)"

fun cdf_text :: "column_name \<Rightarrow> cdf_action \<Rightarrow> string option" where
  "cdf_text c (AddA p ch dv pv sz) =
     (if c = [''add'', ''path''] then Some p else case c of [a, b, f] \<Rightarrow> if a = ''add'' then dv_text dv f else None | _ \<Rightarrow> None)"
| "cdf_text c (RemoveA p ch dv pv sz) =
     (if c = [''remove'', ''path''] then Some p else case c of [a, b, f] \<Rightarrow> if a = ''remove'' then dv_text dv f else None | _ \<Rightarrow> None)"
| "cdf_text c (CdcA p pv sz) = (if c = [''cdc'', ''path''] then Some p else None)"
| "cdf_text c OtherA = None"

fun cdf_bool :: "cdf_action \<Rightarrow> bool option" where
  "cdf_bool (AddA p ch dv pv sz) = Some ch"
| "cdf_bool (RemoveA p ch dv pv sz) = Some ch"
| "cdf_bool _ = None"

definition action_dv :: "cdf_action \<Rightarrow> dv_descriptor option" where
  "action_dv r = (case row_parts r of Some (_, _, dv, _, _) \<Rightarrow> dv | None \<Rightarrow> None)"

definition cdf_int :: "column_name \<Rightarrow> cdf_action \<Rightarrow> 32 word option" where
  "cdf_int c r = (case action_dv r of None \<Rightarrow> None | Some dv \<Rightarrow>
     if last c = ''offset'' then dv_offset dv else if last c = ''sizeInBytes'' then Some (size_in_bytes dv) else None)"

definition cdf_long :: "column_name \<Rightarrow> cdf_action \<Rightarrow> 64 word option" where
  "cdf_long c r =
     (if c = [''timestamp''] then Some 5 else if c = [''commit_version''] then Some 3
      else if last c = ''cardinality'' then map_option cardinality (action_dv r) else None)"

definition cdf_getter :: "cdf_action list \<Rightarrow> column_name \<Rightarrow> getter" where
  "cdf_getter rows c = \<lparr> get_str = \<lambda>i. Inr (cdf_text c (rows ! i)), get_int = \<lambda>i. Inr (cdf_int c (rows ! i)),
     get_long = \<lambda>i. Inr (cdf_long c (rows ! i)), get_bool = \<lambda>i. Inr (cdf_bool (rows ! i)), get_map = \<lambda>i. Inr None,
     get_list = \<lambda>i. Inr None \<rparr>"

definition cdf_data :: "cdf_action list \<Rightarrow> engine_data" where
  "cdf_data rows = \<lparr> ed_len = length rows, ed_getters = \<lambda>cols. Inr (map (cdf_getter rows) cols) \<rparr>"

text \<open>File \<open>a\<close> gets a deletion vector that deletes rows 0 and 2, and file \<open>b\<close> is new.\<close>

definition tiny_dv :: dv_descriptor where
  "tiny_dv = to_descriptor tiny_dv_env \<lparr> wr_offset = 1, wr_size_in_bytes = 6, wr_cardinality = 2 \<rparr> tiny_dv_path"

definition tiny_rows :: "cdf_action list" where
  "tiny_rows = [RemoveA ''a'' True None None None, AddA ''a'' True (Some tiny_dv) None None, AddA ''b'' True None None None]"

definition tiny_cdf_engine :: "(string list, nat) engine" where
  "tiny_cdf_engine = tiny_engine \<lparr> handlers := \<lambda>_. \<lparr> read_json_files = \<lambda>_. Inr [Inr (cdf_data tiny_rows)],
     read_parquet_files = \<lambda>_. Inr [] \<rparr> \<rparr>"

lemma all_three: "(\<forall>i < length [a, b, c]. P i) \<longleftrightarrow> P 0 \<and> P 1 \<and> P 2"
  by (auto simp: less_Suc_eq numeral_eq_Suc)

lemma tiny_dv_fields: "storage_type tiny_dv = PersistedRelative" "dv_offset tiny_dv = Some 1"
  by (simp_all add: tiny_dv_def to_descriptor_def)

lemmas cdf_getter_simps = cdf_getter_def cdf_int_def cdf_long_def action_dv_def visit_deletion_vector_at_def
  get_required_def dv_storage_type_from_str_def

lemma tiny_decoded:
  "decoded prepare_columns 11 prepare_decodes (cdf_data tiny_rows) tiny_rows"
  "decoded selection_columns 5 selection_decodes (cdf_data tiny_rows) tiny_rows"
  "decoded cdf_scan_row_columns 21 (scan_decodes 5 3) (cdf_data tiny_rows) tiny_rows"
proof -
  show "decoded prepare_columns 11 prepare_decodes (cdf_data tiny_rows) tiny_rows"
    unfolding decoded_def cdf_data_def prepare_columns_def tiny_rows_def all_three
    by (simp add: cdf_getter_simps tiny_dv_fields)
  show "decoded selection_columns 5 selection_decodes (cdf_data tiny_rows) tiny_rows"
    unfolding decoded_def cdf_data_def selection_columns_def tiny_rows_def all_three
    by (simp add: cdf_getter_simps tiny_dv_fields)
  show "decoded cdf_scan_row_columns 21 (scan_decodes 5 3) (cdf_data tiny_rows) tiny_rows"
    unfolding decoded_def cdf_data_def cdf_scan_row_columns_def dv_columns_def tiny_rows_def all_three scan_decodes_def cdf_row_action_def
    by (simp add: cdf_getter_simps tiny_dv_fields)
qed

lemma tiny_no_updates:
  "metadata_try_new_from_data (cdf_data tiny_rows) = Inr None" "protocol_try_new_from_data (cdf_data tiny_rows) = Inr None"
proof -
  have r: "[0..<ed_len (cdf_data tiny_rows)] = [0, 1, 2]" by (simp add: cdf_data_def tiny_rows_def upt_conv_Cons)
  show "metadata_try_new_from_data (cdf_data tiny_rows) = Inr None"
    unfolding metadata_try_new_from_data_def r
    by (simp add: cdf_data_def metadata_columns_def visit_metadata_at_def cdf_getter_def tiny_rows_def)
  show "protocol_try_new_from_data (cdf_data tiny_rows) = Inr None"
    unfolding protocol_try_new_from_data_def r
    by (simp add: cdf_data_def protocol_columns_def visit_protocol_at_def cdf_getter_def tiny_rows_def cdf_int_def action_dv_def)
qed

lemma tiny_scanner:
  assumes "\<not> is_feature_enabled cm tc InCommitTimestamp"
  shows "\<exists>sc. scanner_try_new tiny_cdf_engine (\<lambda>_. 5) cm tc (pm_file 3 3 ''json'' Commit) schema = (Inr sc, tc) \<and> sc_timestamp sc = 5"
proof -
  have "ict_visit (cdf_data tiny_rows) = Inr None"
    by (simp add: ict_visit_def cdf_data_def ict_columns_def cdf_getter_def cdf_long_def tiny_rows_def)
  then show ?thesis
    using assms prepare_visit_decoded [OF tiny_decoded(1)] tiny_no_updates
    by (simp add: scanner_try_new_def tiny_cdf_engine_def check_updates_def)
qed

lemma tiny_adds:
  "adds tiny_rows p dv \<longleftrightarrow> p = ''a'' \<and> dv = Some tiny_dv \<or> p = ''b'' \<and> dv = None"
  "removes tiny_rows p dv \<longleftrightarrow> p = ''a'' \<and> dv = None"
  by (auto simp: adds_def removes_def tiny_rows_def)

lemma tiny_dv_read:
  "get_treemap tiny_dv_env (\<lambda>_. Inr (Some (Inr tiny_dv_file))) [''t'', ''''] \<lparr> deletion_vector = Some tiny_dv \<rparr> = Some (Inr (Some [0, 2]))"
  "get_treemap tiny_dv_env (\<lambda>_. Inr (Some (Inr tiny_dv_file))) [''t'', ''''] \<lparr> deletion_vector = None \<rparr> = Some (Inr None)"
  unfolding tiny_dv_def by code_simp+


end
