(* ===== verification/TransformEval.thy ===== *)
theory TransformEval
  imports TransformSpec
begin

text \<open>
  The evaluation of the expressions that build rows (\<open>engine/arrow_expression/evaluate_expression.rs\<close>): columns,
  literals, structs, transforms, \<open>ToJson\<close>, arithmetic and \<open>COALESCE\<close>, over a batch of one row. A column of such a
  batch is a cell. The type checks and the arithmetic of arrow arrays, the printer of JSON and the evaluation of
  every other expression are parameters.
\<close>

section \<open>Rows\<close>

text \<open>A value, or a struct with its validity and its named children.\<close>

datatype cell = Cell scalar | Fields bool "(string \<times> cell) list"

type_synonym row = "(string \<times> cell) list"

fun cell_is_null :: "cell \<Rightarrow> bool" where
  "cell_is_null (Cell s) = scalar_is_null s"
| "cell_is_null (Fields valid _) = (\<not> valid)"

record 'op arrow =
  ensure_data_types :: "data_type \<Rightarrow> cell \<Rightarrow> unit delta_result"
  coalesce_types :: "cell list \<Rightarrow> data_type option \<Rightarrow> unit delta_result"
  arrow_binary :: "binary_expression_op \<Rightarrow> cell \<Rightarrow> cell \<Rightarrow> cell delta_result"
  to_json :: "cell \<Rightarrow> cell delta_result"
  evaluate_other :: "row \<Rightarrow> 'op expression \<Rightarrow> data_type option \<Rightarrow> cell delta_result"

fun extract_column :: "row \<Rightarrow> column_name \<Rightarrow> cell delta_result" where
  "extract_column parent [] = Inl (Arrow ''Empty column path'')"
| "extract_column parent [name] = ok_or (map_of parent name) (Arrow ''No such field'')"
| "extract_column parent (name # n # names) =
     rbind (ok_or (map_of parent name) (Arrow ''No such field'')) (\<lambda>child.
       case child of
         Fields _ cs \<Rightarrow> extract_column cs (n # names)
       | Cell _ \<Rightarrow> Inl (Arrow ''Not a struct''))"

definition validate_array_type :: "'op arrow \<Rightarrow> data_type option \<Rightarrow> cell \<Rightarrow> cell delta_result" where
  "validate_array_type A expected c =
     (case expected of
        Some dt \<Rightarrow> rbind (ensure_data_types A dt c) (\<lambda>_. Inr c)
      | None \<Rightarrow> Inr c)"

section \<open>Transforms and structs\<close>

text \<open>
  The pieces of \<open>evaluate_transform_expression\<close>; \<open>ev\<close> evaluates an expression over the batch at a result type.
  Expressions take the types of the output schema one by one.
\<close>

type_synonym 'op evaluator = "'op expression \<Rightarrow> data_type option \<Rightarrow> cell delta_result"

fun emit :: "'op evaluator \<Rightarrow> 'op expression list \<Rightarrow> struct_field list \<Rightarrow> (cell list \<times> struct_field list) delta_result" where
  "emit ev [] out = Inr ([], out)"
| "emit ev (e # es) [] = Inl (Generic ''Too few fields in output schema'')"
| "emit ev (e # es) (f # out) =
     rbind (ev e (Some (sf_data_type f))) (\<lambda>c.
     rbind (emit ev es out) (\<lambda>(cs, out'). Inr (c # cs, out')))"

definition pass_through ::
  "row \<Rightarrow> 'op field_transform option \<Rightarrow> string \<Rightarrow> struct_field list \<Rightarrow> (cell list \<times> struct_field list) delta_result" where
  "pass_through source ft name out =
     (if (case ft of Some t \<Rightarrow> ft_is_replace t | None \<Rightarrow> False) then Inr ([], out)
      else rbind (extract_column source [name]) (\<lambda>c.
             case out of [] \<Rightarrow> Inl (Generic ''Too few fields in output schema'') | _ # out' \<Rightarrow> Inr ([c], out')))"

text \<open>The loop over the fields of the source; the last component counts the field transforms that were used.\<close>

fun transform_fields ::
  "'op evaluator \<Rightarrow> (string \<times> 'op field_transform) list \<Rightarrow> row \<Rightarrow> string list \<Rightarrow> struct_field list \<Rightarrow>
   (cell list \<times> struct_field list \<times> nat) delta_result" where
  "transform_fields ev fts source [] out = Inr ([], out, 0)"
| "transform_fields ev fts source (name # names) out =
     rbind (pass_through source (map_of fts name) name out) (\<lambda>(cs, out).
     rbind (case map_of fts name of Some ft \<Rightarrow> emit ev (ft_exprs ft) out | None \<Rightarrow> Inr ([], out)) (\<lambda>(es, out).
     rbind (transform_fields ev fts source names out) (\<lambda>(rest, out, used).
       Inr (cs @ es @ rest, out, (if map_of fts name = None then used else Suc used)))))"

definition evaluate_transform_expression ::
  "'op evaluator \<Rightarrow> row \<Rightarrow> column_name option \<Rightarrow> (string \<times> 'op field_transform) list \<Rightarrow> 'op expression list \<Rightarrow>
   struct_type \<Rightarrow> cell delta_result" where
  "evaluate_transform_expression ev batch path fts prepended output_schema =
     rbind (emit ev prepended (fields_of output_schema)) (\<lambda>(cs, out).
     rbind (case path of
              None \<Rightarrow> Inr (True, batch)
            | Some p \<Rightarrow> rbind (extract_column batch p) (\<lambda>c.
                case c of
                  Fields valid source \<Rightarrow> Inr (valid, source)
                | Cell _ \<Rightarrow> Inl (Generic ''Input path must point to a struct''))) (\<lambda>(valid, source).
     rbind (transform_fields ev fts source (map fst source) out) (\<lambda>(cols, out, used).
     if used < length (filter (\<lambda>(_, ft). \<not> ft_optional ft) fts)
     then Inl (Generic ''Some non-optional field transforms reference invalid input field names'')
     else if out \<noteq> [] then Inl (Generic ''Too many fields in output schema'')
     else Inr (Fields valid (zip (map sf_name (fields_of output_schema)) (cs @ cols))))))"

definition evaluate_struct_expression ::
  "'op evaluator \<Rightarrow> 'op expression list \<Rightarrow> struct_type \<Rightarrow> 'op expression option \<Rightarrow> cell delta_result" where
  "evaluate_struct_expression ev fs output_schema nullability =
     (let out = fields_of output_schema in
      if length fs \<noteq> length out then Inl (Generic ''Struct expression field count mismatch'')
      else
        rbind (collect_results (map (\<lambda>(e, f). ev e (Some (sf_data_type f))) (zip fs out))) (\<lambda>cols.
        rbind (case nullability of
                 None \<Rightarrow> Inr True
               | Some p \<Rightarrow> rbind (ev p (Some (Primitive PBoolean))) (\<lambda>c.
                   case c of
                     Cell (Boolean b) \<Rightarrow> Inr b
                   | Cell (Null (Primitive PBoolean)) \<Rightarrow> Inr False
                   | _ \<Rightarrow> Inl (Generic ''Nullability predicate must evaluate to boolean''))) (\<lambda>valid.
          Inr (Fields valid (zip (map sf_name out) cols)))))"

text \<open>\<open>COALESCE\<close>: evaluation stops at the first array with no NULL, and the first valid value is the result.\<close>

fun coalesce_loop :: "'op evaluator \<Rightarrow> 'op expression list \<Rightarrow> data_type option \<Rightarrow> cell list delta_result" where
  "coalesce_loop ev [] dt = Inr []"
| "coalesce_loop ev (e # es) dt =
     rbind (ev e dt) (\<lambda>c. if \<not> cell_is_null c then Inr [c] else rbind (coalesce_loop ev es dt) (\<lambda>cs. Inr (c # cs)))"

definition coalesce_arrays :: "'op arrow \<Rightarrow> cell list \<Rightarrow> data_type option \<Rightarrow> cell delta_result" where
  "coalesce_arrays A cs dt =
     (case cs of
        [] \<Rightarrow> Inl (Arrow ''The default engine currently does not support empty COALESCE statements'')
      | first # _ \<Rightarrow>
          rbind (coalesce_types A cs dt) (\<lambda>_.
            Inr (case List.find (\<lambda>c. \<not> cell_is_null c) cs of Some c \<Rightarrow> c | None \<Rightarrow> first)))"

section \<open>Expressions\<close>

definition transform_exprs :: "(string \<times> 'op field_transform) list \<Rightarrow> 'op expression set" where
  "transform_exprs fts = (\<Union>(_, ft) \<in> set fts. set (ft_exprs ft))"

lemma transform_exprsI: "map_of fts name = Some ft \<Longrightarrow> e \<in> set (ft_exprs ft) \<Longrightarrow> e \<in> transform_exprs fts"
  by (force simp: transform_exprs_def dest: map_of_SomeD)

lemma emit_cong [fundef_cong]:
  assumes "es = es'" "out = out'" "\<And>e f. e \<in> set es' \<Longrightarrow> f \<in> set out' \<Longrightarrow> ev e (Some (sf_data_type f)) = ev' e (Some (sf_data_type f))"
  shows "emit ev es out = emit ev' es' out'"
proof -
  have "(\<And>e f. e \<in> set es \<Longrightarrow> f \<in> set out \<Longrightarrow> ev e (Some (sf_data_type f)) = ev' e (Some (sf_data_type f))) \<Longrightarrow>
    emit ev es out = emit ev' es out" for es out
  proof (induction ev es out rule: emit.induct)
    case (3 ev e es f out)
    have "ev e (Some (sf_data_type f)) = ev' e (Some (sf_data_type f))" by (simp add: "3.prems")
    then show ?case using 3 by (cases "ev' e (Some (sf_data_type f))") auto
  qed auto
  then show ?thesis using assms by auto
qed

lemma transform_fields_cong:
  assumes "\<And>e dt. e \<in> transform_exprs fts \<Longrightarrow> ev e dt = ev' e dt"
  shows "transform_fields ev fts source names out = transform_fields ev' fts source names out"
proof (induction names arbitrary: out)
  case (Cons name names)
  have "(case map_of fts name of Some ft \<Rightarrow> emit ev (ft_exprs ft) o1 | None \<Rightarrow> Inr ([], o1)) =
      (case map_of fts name of Some ft \<Rightarrow> emit ev' (ft_exprs ft) o1 | None \<Rightarrow> Inr ([], o1))" for o1
    using assms by (auto split: option.splits intro!: emit_cong intro: transform_exprsI)
  with Cons show ?case by simp
qed simp

lemma evaluate_transform_cong [fundef_cong]:
  assumes "batch = batch'" "path = path'" "fts = fts'" "prepended = prepended'" "schema = schema'"
    "\<And>e dt. e \<in> set prepended' \<union> transform_exprs fts' \<Longrightarrow> ev e dt = ev' e dt"
  shows "evaluate_transform_expression ev batch path fts prepended schema =
    evaluate_transform_expression ev' batch' path' fts' prepended' schema'"
proof -
  have "emit ev prepended' (fields_of schema') = emit ev' prepended' (fields_of schema')"
    using assms(6) by (intro emit_cong) auto
  moreover have "transform_fields ev fts' s n out = transform_fields ev' fts' s n out" for s n out
    using assms(6) by (intro transform_fields_cong) auto
  ultimately show ?thesis using assms(1-5) by (simp add: evaluate_transform_expression_def)
qed

lemma evaluate_struct_cong [fundef_cong]:
  assumes "fs = fs'" "schema = schema'" "n = n'" "\<And>e dt. e \<in> set fs' \<union> set_option n' \<Longrightarrow> ev e dt = ev' e dt"
  shows "evaluate_struct_expression ev fs schema n = evaluate_struct_expression ev' fs' schema' n'"
proof -
  have "map (\<lambda>(e, f). ev e (Some (sf_data_type f))) (zip fs' out) = map (\<lambda>(e, f). ev' e (Some (sf_data_type f))) (zip fs' out)" for out
    using assms(4) by (auto dest: set_zip_leftD)
  note fields = this [of "fields_of schema'"]
  have "ev p dt = ev' p dt" if "n' = Some p" for p dt using assms(4) [of p dt] that by simp
  then show ?thesis unfolding evaluate_struct_expression_def Let_def assms(1-3) fields by (cases n') simp_all
qed

lemma coalesce_loop_cong [fundef_cong]:
  assumes "es = es'" "dt = dt'" "\<And>e. e \<in> set es' \<Longrightarrow> ev e dt' = ev' e dt'"
  shows "coalesce_loop ev es dt = coalesce_loop ev' es' dt'"
proof -
  have "(\<And>e. e \<in> set es \<Longrightarrow> ev e dt = ev' e dt) \<Longrightarrow> coalesce_loop ev es dt = coalesce_loop ev' es dt" for es
  proof (induction es)
    case (Cons e es)
    then show ?case by (cases "ev' e dt") auto
  qed simp
  then show ?thesis using assms by auto
qed

lemma transform_exprs_size: "e \<in> transform_exprs fts \<Longrightarrow> size e < Suc (size_list (size_prod (\<lambda>_. 0) size) fts)"
proof (induction fts)
  case (Cons p fts)
  obtain n ft where p: "p = (n, ft)" by (cases p)
  show ?case
  proof (cases "e \<in> set (ft_exprs ft)")
    case True
    then have "size e < Suc (size ft)" by (cases ft) (auto dest: size_list_estimation' [where f = size, OF _ order.refl])
    then show ?thesis by (simp add: p)
  next
    case False
    then have "e \<in> transform_exprs fts" using Cons.prems by (auto simp: transform_exprs_def p)
    then show ?thesis using Cons.IH by (simp add: p)
  qed
qed (simp add: transform_exprs_def)

function evaluate_expression :: "'op arrow \<Rightarrow> row \<Rightarrow> 'op expression \<Rightarrow> data_type option \<Rightarrow> cell delta_result" where
  "evaluate_expression A batch (Literal s) dt = validate_array_type A dt (Cell s)"
| "evaluate_expression A batch (Column name) dt =
     rbind (extract_column batch name) (validate_array_type A dt)"
| "evaluate_expression A batch (StructE fs nullability) dt =
     (case dt of
        Some (StructT output_schema) \<Rightarrow>
          evaluate_struct_expression (\<lambda>e d. evaluate_expression A batch e d) fs output_schema nullability
      | _ \<Rightarrow> Inl (Generic ''Struct expression expects a DataType::Struct result''))"
| "evaluate_expression A batch (TransformE path fts prepended) dt =
     (case dt of
        Some (StructT output_schema) \<Rightarrow>
          evaluate_transform_expression (\<lambda>e d. evaluate_expression A batch e d) batch path fts prepended output_schema
      | _ \<Rightarrow> Inl (Generic ''Data type is required to evaluate transform expressions''))"
| "evaluate_expression A batch (UnaryE ToJson e) dt =
     (if dt \<in> {None, Some (Primitive PString)} then rbind (evaluate_expression A batch e None) (to_json A)
      else Inl (Generic ''ToJson operator requires STRING output''))"
| "evaluate_expression A batch (BinaryE op l r) dt =
     rbind (evaluate_expression A batch l None) (\<lambda>lv.
     rbind (evaluate_expression A batch r None) (\<lambda>rv.
     rbind (arrow_binary A op lv rv) (validate_array_type A dt)))"
| "evaluate_expression A batch (VariadicE Coalesce es) dt =
     rbind (coalesce_loop (\<lambda>e d. evaluate_expression A batch e d) es dt) (\<lambda>cs. coalesce_arrays A cs dt)"
| "evaluate_expression A batch (PredicateE p) dt = evaluate_other A batch (PredicateE p) dt"
| "evaluate_expression A batch (OpaqueE oper es) dt = evaluate_other A batch (OpaqueE oper es) dt"
| "evaluate_expression A batch (UnknownE n) dt = Inl (Unsupported ''Unknown expression'')"
| "evaluate_expression A batch (ParseJson e st) dt = evaluate_other A batch (ParseJson e st) dt"
| "evaluate_expression A batch (MapToStruct e) dt = evaluate_other A batch (MapToStruct e) dt"
  by pat_completeness auto
termination
proof (relation "measure (\<lambda>(_, _, e, _). size e)")
  show "((A, batch, e, d), A, batch, StructE fs n, dt) \<in> measure (\<lambda>(_, _, e, _). size e)"
    if "e \<in> set fs \<union> set_option n" for A :: "'op arrow" and batch e d fs n dt
    using that by (cases n) (auto dest: size_list_estimation' [where f = size, OF _ order.refl])
  show "((A, batch, e, d), A, batch, TransformE path fts prepended, dt) \<in> measure (\<lambda>(_, _, e, _). size e)"
    if "e \<in> set prepended \<union> transform_exprs fts" for A :: "'op arrow" and batch e d path fts prepended dt
    using that transform_exprs_size [of e fts] by (auto dest: size_list_estimation' [where f = size, OF _ order.refl])
  show "((A, batch, e, d), A, batch, VariadicE Coalesce es, dt) \<in> measure (\<lambda>(_, _, e, _). size e)"
    if "e \<in> set es" for A :: "'op arrow" and batch e d es dt
    using that by (auto dest: size_list_estimation' [where f = size, OF _ order.refl])
qed simp_all

section \<open>What a transform computes\<close>

text \<open>
  A transform is a plan: which input fields it passes through and which expressions it evaluates, in the order of
  the output. Evaluation succeeds exactly when the plan has one entry for each field of the output schema, every
  entry can be computed and enough field transforms were used; the result has the names of the schema.
\<close>

definition field_plan :: "(string \<times> 'op field_transform) list \<Rightarrow> string \<Rightarrow> (string + 'op expression) list" where
  "field_plan fts name =
     (case map_of fts name of
        None \<Rightarrow> [Inl name]
      | Some ft \<Rightarrow> (if ft_is_replace ft then [] else [Inl name]) @ map Inr (ft_exprs ft))"

definition transform_plan ::
  "(string \<times> 'op field_transform) list \<Rightarrow> 'op expression list \<Rightarrow> string list \<Rightarrow> (string + 'op expression) list" where
  "transform_plan fts prepended names = map Inr prepended @ concat (map (field_plan fts) names)"

fun produce :: "'op evaluator \<Rightarrow> row \<Rightarrow> string + 'op expression \<Rightarrow> struct_field \<Rightarrow> cell delta_result" where
  "produce ev source (Inl name) f = extract_column source [name]"
| "produce ev source (Inr e) f = ev e (Some (sf_data_type f))"

definition follows_plan :: "'op evaluator \<Rightarrow> row \<Rightarrow> (string + 'op expression) list \<Rightarrow> struct_field list \<Rightarrow> cell list \<Rightarrow> bool" where
  "follows_plan ev source plan out cs \<longleftrightarrow> length plan \<le> length out \<and> map2 (produce ev source) plan out = map Inr cs"

lemma follows_plan_Nil [simp]: "follows_plan ev source [] out cs \<longleftrightarrow> cs = []"
  by (auto simp: follows_plan_def)

lemma follows_plan_Cons [simp]:
  "follows_plan ev source (p # plan) out cs \<longleftrightarrow>
     (\<exists>f out' c cs'. out = f # out' \<and> cs = c # cs' \<and> produce ev source p f = Inr c \<and> follows_plan ev source plan out' cs')"
  by (cases out; cases cs) (auto simp: follows_plan_def)

lemma follows_plan_append:
  "follows_plan ev source (plan @ plan') out cs \<longleftrightarrow>
     (\<exists>cs1 cs2. cs = cs1 @ cs2 \<and> follows_plan ev source plan out cs1 \<and> follows_plan ev source plan' (drop (length plan) out) cs2)"
proof (induction plan arbitrary: out cs)
  case Nil
  then show ?case by simp
next
  case (Cons p plan)
  show ?case by (auto simp: Cons.IH Cons_eq_append_conv; blast)
qed

lemma follows_plan_length: "follows_plan ev source plan out cs \<Longrightarrow> length cs = length plan"
  by (auto simp: follows_plan_def dest: arg_cong [where f = length])

lemma emit_Inr:
  "emit ev es out = Inr (cs, out') \<longleftrightarrow> follows_plan ev source (map Inr es) out cs \<and> out' = drop (length es) out"
proof (induction ev es out arbitrary: cs out' rule: emit.induct)
  case (3 ev e es f out)
  then show ?case by (cases "ev e (Some (sf_data_type f))") (auto simp: rbind_Inr_iff)
qed auto

lemma transform_field_Inr:
  "(\<exists>c1 o1 c2. pass_through source (map_of fts name) name out = Inr (c1, o1) \<and>
      (case map_of fts name of Some ft \<Rightarrow> emit ev (ft_exprs ft) o1 | None \<Rightarrow> Inr ([], o1)) = Inr (c2, out') \<and> cs = c1 @ c2) \<longleftrightarrow>
   follows_plan ev source (field_plan fts name) out cs \<and> out' = drop (length (field_plan fts name)) out"
  by (cases out; cases "map_of fts name")
    (auto simp: field_plan_def pass_through_def emit_Inr [where source = source] ok_or_Inr result_simps)

lemma transform_fields_Inr:
  "transform_fields ev fts source names out = Inr (cs, out', used) \<longleftrightarrow>
     follows_plan ev source (concat (map (field_plan fts) names)) out cs \<and>
     out' = drop (length (concat (map (field_plan fts) names))) out \<and>
     used = length (filter (\<lambda>n. map_of fts n \<noteq> None) names)"
proof (induction names arbitrary: out cs out' used)
  case Nil
  then show ?case by auto
next
  case (Cons name names)
  have "transform_fields ev fts source (name # names) out = Inr (cs, out', used) \<longleftrightarrow>
    (\<exists>o2 c12. (\<exists>c1 o1 c2. pass_through source (map_of fts name) name out = Inr (c1, o1) \<and>
      (case map_of fts name of Some ft \<Rightarrow> emit ev (ft_exprs ft) o1 | None \<Rightarrow> Inr ([], o1)) = Inr (c2, o2) \<and> c12 = c1 @ c2) \<and>
      (\<exists>rest u. transform_fields ev fts source names o2 = Inr (rest, out', u) \<and> cs = c12 @ rest \<and>
        used = (if map_of fts name = None then u else Suc u)))"
    by (auto simp: rbind_Inr_iff split: prod.splits)
  then show ?case unfolding transform_field_Inr Cons.IH
    by (auto simp: follows_plan_append add.commute)
qed

lemma evaluate_transform_Inr:
  "evaluate_transform_expression ev batch None fts prepended schema = Inr c \<longleftrightarrow>
     (let plan = transform_plan fts prepended (map fst batch); out = fields_of schema in
      \<exists>cs. length plan = length out \<and> follows_plan ev batch plan out cs \<and>
        length (filter (\<lambda>(_, ft). \<not> ft_optional ft) fts) \<le> length (filter (\<lambda>n. map_of fts n \<noteq> None) (map fst batch)) \<and>
        c = Fields True (zip (map sf_name out) cs))" (is "_ \<longleftrightarrow> ?R")
proof -
  have "evaluate_transform_expression ev batch None fts prepended schema = Inr c \<longleftrightarrow>
    (\<exists>c1 c2. follows_plan ev batch (map Inr prepended) (fields_of schema) c1 \<and>
       follows_plan ev batch (concat (map (field_plan fts) (map fst batch))) (drop (length prepended) (fields_of schema)) c2 \<and>
       length (filter (\<lambda>(_, ft). \<not> ft_optional ft) fts) \<le> length (filter (\<lambda>n. map_of fts n \<noteq> None) (map fst batch)) \<and>
       length (fields_of schema) \<le> length (transform_plan fts prepended (map fst batch)) \<and>
       c = Fields True (zip (map sf_name (fields_of schema)) (c1 @ c2)))"
    by (auto simp: evaluate_transform_expression_def rbind_Inr_iff emit_Inr [where source = batch] transform_fields_Inr transform_plan_def
        not_less split: prod.splits if_splits; blast)
  also have "\<dots> \<longleftrightarrow> ?R" (is "?L \<longleftrightarrow> _")
    unfolding Let_def transform_plan_def follows_plan_append
    by (auto simp: follows_plan_def)
  finally show ?thesis .
qed

lemma used_transforms:
  assumes "distinct (map fst fts)" "fst ` set fts \<subseteq> set names" "distinct names"
  shows "length (filter Q fts) \<le> length (filter (\<lambda>n. map_of fts n \<noteq> None) names)"
proof -
  have "length (filter Q fts) \<le> length (map fst fts)" by simp
  also have "\<dots> = card (fst ` set fts)" using assms(1) by (metis distinct_card list.set_map)
  also have "\<dots> \<le> card (set (filter (\<lambda>n. map_of fts n \<noteq> None) names))"
    using assms(2) by (intro card_mono) (auto simp: map_of_eq_None_iff image_iff)
  also have "\<dots> = length (filter (\<lambda>n. map_of fts n \<noteq> None) names)" by (rule distinct_card [OF distinct_filter [OF assms(3)]])
  finally show ?thesis .
qed

text \<open>
  The count of used transforms includes optional ones, so an optional transform that is used hides a required one
  whose field does not exist.
\<close>

lemma optional_transform_hides_missing:
  "evaluate_transform_expression ev [(''a'', c)] None
     [(''b'', FieldTransform [] True False), (''a'', FieldTransform [] True True)] [] (new_unchecked []) = Inr (Fields True [])"
  by (simp add: evaluate_transform_expression_def new_unchecked_def fields_of_def pass_through_def)

end
