(* ===== verification/PredicateMapping.thy ===== *)
theory PredicateMapping
  imports ScanReplay ColumnMapping
begin

text \<open>
  The physical predicate of a scan (\<open>PhysicalPredicate\<close> in \<open>scan/mod.rs\<close>): the columns that a predicate references
  (\<open>expressions/mod.rs\<close>), the walk of the logical schema that resolves them, ignoring case, and the transform that
  replaces them by physical names (\<open>transforms/expression.rs\<close>). Hash sets of columns are sets; a hash map from
  folded paths to the references that fold to them is a function to sets.
\<close>

section \<open>Expression transforms\<close>

text \<open>
  The provided methods of \<open>ExpressionTransform\<close> for a transform that overrides \<open>transform_expr_column\<close> only, which
  is \<open>col\<close>. \<open>None\<close> filters a node out.
\<close>

fun transform_expr :: "(column_name \<Rightarrow> column_name cow option) \<Rightarrow> 'op expression \<Rightarrow> 'op expression cow option"
  and transform_pred :: "(column_name \<Rightarrow> column_name cow option) \<Rightarrow> 'op predicate \<Rightarrow> 'op predicate cow option" where
  "transform_expr col (Literal s) = Some (Borrowed (Literal s))"
| "transform_expr col (Column c) = map_option (map_owned_or_else (Column c) Column) (col c)"
| "transform_expr col (PredicateE p) = map_option (map_owned_or_else (PredicateE p) from_pred) (transform_pred col p)"
| "transform_expr col (StructE fs n) =
     map_option (map_owned_or_else (StructE fs n) (\<lambda>es. StructE es n))
       (map_owned_children_or_else fs (\<lambda>es. es) (map (transform_expr col) fs))"
| "transform_expr col (TransformE path fts prepended) = Some (Borrowed (TransformE path fts prepended))"
| "transform_expr col (UnaryE op e) = map_option (map_owned_or_else (UnaryE op e) (UnaryE op)) (transform_expr col e)"
| "transform_expr col (BinaryE op l r) =
     Option.bind (transform_expr col l) (\<lambda>l'. Option.bind (transform_expr col r) (\<lambda>r'.
       Some (map_owned_pair_or_else (BinaryE op l r) (BinaryE op) l' r')))"
| "transform_expr col (VariadicE op es) =
     map_owned_children_or_else (VariadicE op es) (VariadicE op) (map (transform_expr col) es)"
| "transform_expr col (OpaqueE op es) =
     map_owned_children_or_else (OpaqueE op es) (OpaqueE op) (map (transform_expr col) es)"
| "transform_expr col (UnknownE n) = Some (Borrowed (UnknownE n))"
| "transform_expr col (ParseJson e st) =
     map_option (map_owned_or_else (ParseJson e st) (\<lambda>e'. ParseJson e' st)) (transform_expr col e)"
| "transform_expr col (MapToStruct e) =
     map_option (map_owned_or_else (MapToStruct e) MapToStruct) (transform_expr col e)"
| "transform_pred col (BooleanExpression e) =
     map_option (map_owned_or_else (BooleanExpression e) BooleanExpression) (transform_expr col e)"
| "transform_pred col (NotP p) = map_option (map_owned_or_else (NotP p) NotP) (transform_pred col p)"
| "transform_pred col (UnaryP op e) = map_option (map_owned_or_else (UnaryP op e) (UnaryP op)) (transform_expr col e)"
| "transform_pred col (BinaryP op l r) =
     Option.bind (transform_expr col l) (\<lambda>l'. Option.bind (transform_expr col r) (\<lambda>r'.
       Some (map_owned_pair_or_else (BinaryP op l r) (BinaryP op) l' r')))"
| "transform_pred col (Junction op ps) =
     map_owned_children_or_else (Junction op ps) (pred_junction op) (map (transform_pred col) ps)"
| "transform_pred col (OpaqueP op es) =
     map_owned_children_or_else (OpaqueP op es) (OpaqueP op) (map (transform_expr col) es)"
| "transform_pred col (UnknownP n) = Some (Borrowed (UnknownP n))"

text \<open>
  \<open>GetColumnReferences\<close>: the columns visited, and whether the node survives; a node that is filtered out ends the
  visit of its parent early where the parent needs all its children.
\<close>

definition union_of :: "(column_name set \<times> bool) list \<Rightarrow> column_name set \<times> bool" where
  "union_of rs = (\<Union> (set (map fst rs)), True \<in> set (map snd rs))"

fun expr_references :: "'op expression \<Rightarrow> column_name set \<times> bool"
  and pred_references :: "'op predicate \<Rightarrow> column_name set \<times> bool" where
  "expr_references (Literal s) = ({}, True)"
| "expr_references (Column c) = ({c}, True)"
| "expr_references (PredicateE p) = pred_references p"
| "expr_references (StructE fs n) = union_of (map expr_references fs)"
| "expr_references (TransformE path fts prepended) = ({}, True)"
| "expr_references (UnaryE op e) = expr_references e"
| "expr_references (BinaryE op l r) =
     (case expr_references l of
        (cs, True) \<Rightarrow> (case expr_references r of (ds, ok) \<Rightarrow> (cs \<union> ds, ok))
      | (cs, False) \<Rightarrow> (cs, False))"
| "expr_references (VariadicE op es) = union_of (map expr_references es)"
| "expr_references (OpaqueE op es) = union_of (map expr_references es)"
| "expr_references (UnknownE n) = ({}, True)"
| "expr_references (ParseJson e st) = expr_references e"
| "expr_references (MapToStruct e) = expr_references e"
| "pred_references (BooleanExpression e) = expr_references e"
| "pred_references (NotP p) = pred_references p"
| "pred_references (UnaryP op e) = expr_references e"
| "pred_references (BinaryP op l r) =
     (case expr_references l of
        (cs, True) \<Rightarrow> (case expr_references r of (ds, ok) \<Rightarrow> (cs \<union> ds, ok))
      | (cs, False) \<Rightarrow> (cs, False))"
| "pred_references (Junction op ps) = union_of (map pred_references ps)"
| "pred_references (OpaqueP op es) = union_of (map expr_references es)"
| "pred_references (UnknownP n) = ({}, True)"

definition references :: "'op predicate \<Rightarrow> column_name set" where
  "references p = fst (pred_references p)"

section \<open>Resolving the references\<close>

record referenced_state =
  unresolved_references :: "column_name set"
  folded_references :: "column_name \<Rightarrow> column_name set option"
  column_mappings :: "column_name \<Rightarrow> column_name option"

definition fold_case :: "(string \<Rightarrow> string) \<Rightarrow> column_name \<Rightarrow> column_name" where
  "fold_case low c = map low c"

definition group_folded :: "(string \<Rightarrow> string) \<Rightarrow> column_name set \<Rightarrow> column_name \<Rightarrow> column_name set option" where
  "group_folded low cs path =
     (let group = {c \<in> cs. fold_case low c = path} in if group = {} then None else Some group)"

definition resolve_primitive ::
  "column_name \<Rightarrow> column_name \<Rightarrow> referenced_state \<Rightarrow> referenced_state option" where
  "resolve_primitive folded_path physical_path st =
     (case folded_references st folded_path of
        None \<Rightarrow> None
      | Some cols \<Rightarrow> Some
          \<lparr> unresolved_references = unresolved_references st - cols,
            folded_references = (folded_references st)(folded_path := None),
            column_mappings = (\<lambda>c. if c \<in> cols then Some physical_path else column_mappings st c) \<rparr>)"

text \<open>\<open>GetReferencedFields\<close>, a schema transform; both paths are those of the enclosing field.\<close>

function referenced_type ::
    "(string \<Rightarrow> string) \<Rightarrow> column_mapping_mode \<Rightarrow> column_name \<Rightarrow> column_name \<Rightarrow> data_type \<Rightarrow> referenced_state \<Rightarrow>
     data_type cow option \<times> referenced_state"
  and referenced_fields ::
    "(string \<Rightarrow> string) \<Rightarrow> column_mapping_mode \<Rightarrow> column_name \<Rightarrow> column_name \<Rightarrow> (string \<times> struct_field) list \<Rightarrow> referenced_state \<Rightarrow>
     struct_field cow option list \<times> referenced_state"
  and referenced_field ::
    "(string \<Rightarrow> string) \<Rightarrow> column_mapping_mode \<Rightarrow> column_name \<Rightarrow> column_name \<Rightarrow> struct_field \<Rightarrow> referenced_state \<Rightarrow>
     struct_field cow option \<times> referenced_state" where
  "referenced_type low mode folded physical (Primitive p) st =
     (case resolve_primitive folded physical st of
        None \<Rightarrow> (None, st)
      | Some st' \<Rightarrow> (Some (Borrowed (Primitive p)), st'))"
| "referenced_type low mode folded physical (ArrayType e n) st = (None, st)"
| "referenced_type low mode folded physical (MapType k v n) st = (None, st)"
| "referenced_type low mode folded physical (StructT (StructType fs mc)) st =
     (case referenced_fields low mode folded physical fs st of
        (cs, st') \<Rightarrow>
          (map_option (map_owned_or_else (StructT (StructType fs mc)) StructT)
             (map_owned_children_or_else (StructType fs mc) new_unchecked cs), st'))"
| "referenced_type low mode folded physical (Variant (StructType fs mc)) st =
     (case referenced_fields low mode folded physical fs st of
        (cs, st') \<Rightarrow>
          (map_option (map_owned_or_else (Variant (StructType fs mc)) Variant)
             (map_owned_children_or_else (StructType fs mc) new_unchecked cs), st'))"
| "referenced_fields low mode folded physical [] st = ([], st)"
| "referenced_fields low mode folded physical ((_, f) # fs) st =
     (case referenced_field low mode folded physical f st of
        (c, st1) \<Rightarrow> (case referenced_fields low mode folded physical fs st1 of (cs, st2) \<Rightarrow> (c # cs, st2)))"
| "referenced_field low mode folded physical (StructField name dt nullable md) st =
     (let pname = physical_name mode (StructField name dt nullable md) in
      case referenced_type low mode (folded @ [low name]) (physical @ [pname]) dt st of
        (t, st') \<Rightarrow>
          (map_option (\<lambda>t. Owned (StructField pname (into_owned t) nullable md)) t, st'))"
  by pat_completeness auto

termination
  by (relation "measure (case_sum (\<lambda>(_, _, _, _, dt, _). size dt)
      (case_sum (\<lambda>(_, _, _, _, fs, _). size_list (size_prod (\<lambda>_. 0) size) fs) (\<lambda>(_, _, _, _, f, _). size f)))") auto

definition can_statically_skip_all_files :: "'op opaque_ops \<Rightarrow> 'op predicate \<Rightarrow> bool" where
  "can_statically_skip_all_files ops p = (eval_sql_where (default_evaluator ops (\<lambda>_. None)) p = Some False)"

definition apply_mappings :: "(column_name \<Rightarrow> column_name option) \<Rightarrow> column_name \<Rightarrow> column_name cow option" where
  "apply_mappings m c = map_option Owned (m c)"

definition physical_predicate_try_new ::
  "'op opaque_ops \<Rightarrow> (string \<Rightarrow> string) \<Rightarrow> 'op predicate \<Rightarrow> struct_type \<Rightarrow> column_mapping_mode \<Rightarrow>
   'op physical_predicate delta_result" where
  "physical_predicate_try_new ops low p schema mode =
     (if can_statically_skip_all_files ops p then Inr StaticSkipAll
      else
        (case referenced_fields low mode [] [] (st_fields schema)
                \<lparr> unresolved_references = references p, folded_references = group_folded low (references p),
                  column_mappings = (\<lambda>_. None) \<rparr> of
           (cs, st) \<Rightarrow>
             if unresolved_references st \<noteq> {} then Inl (MissingColumn ''Predicate references unknown column'')
             else (case map_owned_children_or_else schema new_unchecked cs of
                     None \<Rightarrow> Inr PredicateNone
                   | Some s \<Rightarrow>
                       (case transform_pred (apply_mappings (column_mappings st)) p of
                          Some p' \<Rightarrow> Inr (PredicateSome (into_owned p') (into_owned s))
                        | None \<Rightarrow> Inr PredicateNone))))"

section \<open>Renaming columns\<close>

text \<open>Replacing columns in place, and the shape the constructors give to expressions: no node without children.\<close>

definition renamed :: "(column_name \<Rightarrow> column_name option) \<Rightarrow> column_name \<Rightarrow> column_name" where
  "renamed m c = (case m c of Some d \<Rightarrow> d | None \<Rightarrow> c)"

fun rename_expr :: "(column_name \<Rightarrow> column_name option) \<Rightarrow> 'op expression \<Rightarrow> 'op expression"
  and rename_pred :: "(column_name \<Rightarrow> column_name option) \<Rightarrow> 'op predicate \<Rightarrow> 'op predicate" where
  "rename_expr m (Column c) = Column (renamed m c)"
| "rename_expr m (PredicateE p) = PredicateE (rename_pred m p)"
| "rename_expr m (StructE fs n) = StructE (map (rename_expr m) fs) n"
| "rename_expr m (UnaryE op e) = UnaryE op (rename_expr m e)"
| "rename_expr m (BinaryE op l r) = BinaryE op (rename_expr m l) (rename_expr m r)"
| "rename_expr m (VariadicE op es) = VariadicE op (map (rename_expr m) es)"
| "rename_expr m (OpaqueE op es) = OpaqueE op (map (rename_expr m) es)"
| "rename_expr m (ParseJson e st) = ParseJson (rename_expr m e) st"
| "rename_expr m (MapToStruct e) = MapToStruct (rename_expr m e)"
| "rename_expr m e = e"
| "rename_pred m (BooleanExpression e) = BooleanExpression (rename_expr m e)"
| "rename_pred m (NotP p) = NotP (rename_pred m p)"
| "rename_pred m (UnaryP op e) = UnaryP op (rename_expr m e)"
| "rename_pred m (BinaryP op l r) = BinaryP op (rename_expr m l) (rename_expr m r)"
| "rename_pred m (Junction op ps) = Junction op (map (rename_pred m) ps)"
| "rename_pred m (OpaqueP op es) = OpaqueP op (map (rename_expr m) es)"
| "rename_pred m (UnknownP n) = UnknownP n"

fun normal_expr :: "'op expression \<Rightarrow> bool" and normal_pred :: "'op predicate \<Rightarrow> bool" where
  "normal_expr (PredicateE p) \<longleftrightarrow> (\<nexists>e. p = BooleanExpression e) \<and> normal_pred p"
| "normal_expr (StructE fs n) \<longleftrightarrow> fs \<noteq> [] \<and> list_all normal_expr fs"
| "normal_expr (UnaryE op e) \<longleftrightarrow> normal_expr e"
| "normal_expr (BinaryE op l r) \<longleftrightarrow> normal_expr l \<and> normal_expr r"
| "normal_expr (VariadicE op es) \<longleftrightarrow> es \<noteq> [] \<and> list_all normal_expr es"
| "normal_expr (OpaqueE op es) \<longleftrightarrow> es \<noteq> [] \<and> list_all normal_expr es"
| "normal_expr (ParseJson e st) \<longleftrightarrow> normal_expr e"
| "normal_expr (MapToStruct e) \<longleftrightarrow> normal_expr e"
| "normal_expr e \<longleftrightarrow> True"
| "normal_pred (BooleanExpression e) \<longleftrightarrow> normal_expr e"
| "normal_pred (NotP p) \<longleftrightarrow> normal_pred p"
| "normal_pred (UnaryP op e) \<longleftrightarrow> normal_expr e"
| "normal_pred (BinaryP op l r) \<longleftrightarrow> normal_expr l \<and> normal_expr r"
| "normal_pred (Junction op ps) \<longleftrightarrow> 2 \<le> length ps \<and> list_all normal_pred ps"
| "normal_pred (OpaqueP op es) \<longleftrightarrow> es \<noteq> [] \<and> list_all normal_expr es"
| "normal_pred (UnknownP n) \<longleftrightarrow> True"

lemma rename_not_boolean: "(\<nexists>e. p = BooleanExpression e) \<Longrightarrow> from_pred (rename_pred m p) = PredicateE (rename_pred m p)"
  by (cases p) (auto simp: from_pred_def)

lemma pred_junction_normal: "2 \<le> length ps \<Longrightarrow> pred_junction op ps = Junction op ps"
  by (auto simp: pred_junction_def split: list.splits)

text \<open>What a transform makes of a node: the renamed node, shared when nothing changed.\<close>

definition renames_to :: "'a cow option \<Rightarrow> 'a \<Rightarrow> 'a \<Rightarrow> bool" where
  "renames_to r old new \<longleftrightarrow> (\<exists>c. r = Some c \<and> into_owned c = new \<and> (is_borrowed c \<longrightarrow> new = old))"

lemma renames_to_map:
  assumes "renames_to r old new" "new = old \<Longrightarrow> f new = s"
  shows "renames_to (map_option (map_owned_or_else s f) r) s (f new)"
proof -
  obtain c where c: "r = Some c" "into_owned c = new" "is_borrowed c \<longrightarrow> new = old" using assms(1) by (auto simp: renames_to_def)
  then show ?thesis using assms(2) by (cases c) (auto simp: renames_to_def)
qed

lemma renames_to_pair:
  assumes "renames_to l lo ln" "\<And>a. l = Some a \<Longrightarrow> renames_to r ro rn" "ln = lo \<Longrightarrow> rn = ro \<Longrightarrow> f ln rn = s"
  shows "renames_to (Option.bind l (\<lambda>l'. Option.bind r (\<lambda>r'. Some (map_owned_pair_or_else s f l' r')))) s (f ln rn)"
proof -
  obtain c d where c: "l = Some c" "into_owned c = ln" "is_borrowed c \<longrightarrow> ln = lo"
    and d: "r = Some d" "into_owned d = rn" "is_borrowed d \<longrightarrow> rn = ro"
    using assms(1,2) by (auto simp: renames_to_def)
  then show ?thesis using assms(3) by (cases c; cases d) (auto simp: renames_to_def)
qed

lemma renames_to_children:
  assumes "\<And>x. x \<in> set xs \<Longrightarrow> renames_to (t x) x (g x)" "xs \<noteq> []" "map g xs = xs \<Longrightarrow> f (map g xs) = parent"
  shows "renames_to (map_owned_children_or_else parent f (map t xs)) parent (f (map g xs))"
proof -
  have "\<forall>x \<in> set xs. \<exists>c. t x = Some c \<and> into_owned c = g x \<and> (is_borrowed c \<longrightarrow> g x = x)"
    using assms(1) by (auto simp: renames_to_def)
  then obtain c where c: "\<And>x. x \<in> set xs \<Longrightarrow> t x = Some (c x)" "\<And>x. x \<in> set xs \<Longrightarrow> into_owned (c x) = g x"
    "\<And>x. x \<in> set xs \<Longrightarrow> is_borrowed (c x) \<Longrightarrow> g x = x" by metis
  have "concat (map ((\<lambda>c. case c of None \<Rightarrow> [] | Some x \<Rightarrow> [x]) \<circ> t) xs) = map c xs"
    using c(1) by (induction xs) auto
  then have new: "concat (map (\<lambda>c. case c of None \<Rightarrow> [] | Some x \<Rightarrow> [x]) (map t xs)) = map c xs" by simp
  have own: "map into_owned (map c xs) = map g xs" using c(2) by simp
  show ?thesis
  proof (cases "length (filter is_borrowed (map c xs)) < length (map t xs)")
    case True
    then show ?thesis using assms(2) unfolding map_owned_children_or_else_def new Let_def own by (simp add: renames_to_def)
  next
    case False
    then have "list_all is_borrowed (map c xs)"
      by (metis length_filter_less length_map list_all_iff)
    then have "map g xs = xs" using c(3) by (simp add: list_all_iff list.map_ident_strong)
    then show ?thesis using False assms(2,3) unfolding map_owned_children_or_else_def new Let_def by (simp add: renames_to_def)
  qed
qed

definition defined_on :: "(column_name \<Rightarrow> column_name option) \<Rightarrow> column_name set \<times> bool \<Rightarrow> bool" where
  "defined_on m r \<longleftrightarrow> (\<forall>c \<in> fst r. m c \<noteq> None)"

lemma defined_on_union: "defined_on m (union_of rs) \<longleftrightarrow> (\<forall>r \<in> set rs. defined_on m r)"
  by (auto simp: defined_on_def union_of_def)

lemma normal_survives:
  fixes e :: "'op expression" and p :: "'op predicate"
  shows "normal_expr e \<Longrightarrow> snd (expr_references e)"
  "normal_pred p \<Longrightarrow> snd (pred_references p)"
proof (induction e and p rule: expr_references_pred_references.induct)
  case (17 op ps)
  then show ?case by (cases ps) (auto simp: union_of_def)
qed (auto simp: union_of_def list_all_iff neq_Nil_conv split: prod.splits bool.splits)

lemma defined_on_pair:
  "snd l \<Longrightarrow> defined_on m (case l of (cs, True) \<Rightarrow> (case r of (ds, ok) \<Rightarrow> (cs \<union> ds, ok)) | (cs, False) \<Rightarrow> (cs, False)) \<longleftrightarrow>
    defined_on m l \<and> defined_on m r"
  by (auto simp: defined_on_def split: prod.splits bool.splits)

lemma transform_renames:
  fixes e :: "'op expression" and p :: "'op predicate"
  shows "normal_expr e \<Longrightarrow> defined_on m (expr_references e) \<Longrightarrow> renames_to (transform_expr (apply_mappings m) e) e (rename_expr m e)"
  "normal_pred p \<Longrightarrow> defined_on m (pred_references p) \<Longrightarrow> renames_to (transform_pred (apply_mappings m) p) p (rename_pred m p)"
proof (induction "apply_mappings m" e and "apply_mappings m" p rule: transform_expr_transform_pred.induct)
  case (2 c)
  then show ?case by (auto simp: renames_to_def apply_mappings_def defined_on_def renamed_def)
next
  case (3 p)
  then have "renames_to (transform_pred (apply_mappings m) p) p (rename_pred m p)" by simp
  from renames_to_map [OF this, of from_pred "PredicateE p"] show ?case
    using rename_not_boolean [of p m] 3(2) by (simp add: from_pred_def split: predicate.splits)
next
  case (4 fs n)
  have "renames_to (map_owned_children_or_else fs (\<lambda>es. es) (map (transform_expr (apply_mappings m)) fs)) fs (map (rename_expr m) fs)"
    using 4 by (intro renames_to_children [where f = "\<lambda>es. es"]) (auto simp: list_all_iff defined_on_union)
  from renames_to_map [OF this, of "\<lambda>es. StructE es n"] show ?case by simp
next
  case (7 op l r)
  then show ?case using normal_survives(1) [of l] by (auto simp: defined_on_pair intro: renames_to_pair)
next
  case (8 op es)
  then show ?case by (auto simp: list_all_iff defined_on_union intro!: renames_to_children)
next
  case (9 op es)
  then show ?case by (auto simp: list_all_iff defined_on_union intro!: renames_to_children)
next
  case (16 op l r)
  then show ?case using normal_survives(1) [of l] by (auto simp: defined_on_pair intro: renames_to_pair)
next
  case (17 op ps)
  then have "renames_to (map_owned_children_or_else (Junction op ps) (pred_junction op) (map (transform_pred (apply_mappings m)) ps))
      (Junction op ps) (pred_junction op (map (rename_pred m) ps))"
    by (intro renames_to_children) (auto simp: list_all_iff defined_on_union pred_junction_normal)
  then show ?case using 17(2) by (simp add: pred_junction_normal)
next
  case (18 op es)
  then show ?case by (auto simp: list_all_iff defined_on_union intro!: renames_to_children)
qed (auto simp: renames_to_def [of "Some _"] intro: renames_to_map)

text \<open>
  The resolver behind a renaming. An engine-defined operator reads columns through the resolver it is given, so
  that renaming its arguments and renaming in the resolver are the same.
\<close>

definition through :: "(column_name \<Rightarrow> column_name option) \<Rightarrow> (column_name \<Rightarrow> scalar option) \<Rightarrow> column_name \<Rightarrow> scalar option" where
  "through m r c = r (renamed m c)"

definition opaque_renames :: "'op opaque_ops \<Rightarrow> bool" where
  "opaque_renames ops \<longleftrightarrow>
     (\<forall>m r op es i. opaque_eval_pred_scalar ops r op (map (rename_expr m) es) i = opaque_eval_pred_scalar ops (through m r) op es i) \<and>
     (\<forall>m r op es. eval_expr_scalar ops r op (map (rename_expr m) es) = eval_expr_scalar ops (through m r) op es)"

lemma eval_unary_renamed:
  "eval_pred_unary (default_evaluator ops r) op (rename_expr m e) i = eval_pred_unary (default_evaluator ops (through m r)) op e i"
  by (cases e; cases op) (simp_all add: eval_pred_unary_def through_def)

lemma eval_binary_renamed:
  "eval_pred_binary (default_evaluator ops r) op (rename_expr m a) (rename_expr m b) i =
     eval_pred_binary (default_evaluator ops (through m r)) op a b i"
  by (cases a; cases b; cases op)
    (simp_all add: eval_pred_binary_def eval_pred_distinct_def eval_pred_in_def resolve_binary_def through_def split: option.splits)

lemma eval_renamed:
  fixes e :: "'op expression" and p :: "'op predicate"
  assumes "opaque_renames ops"
  shows "eval_pred (default_evaluator ops r) (rename_pred m p) i = eval_pred (default_evaluator ops (through m r)) p i"
    "eval_pred_expr (default_evaluator ops r) (rename_expr m e) i = eval_pred_expr (default_evaluator ops (through m r)) e i"
proof (induction "default_evaluator ops (through m r)" p i and "default_evaluator ops (through m r)" e i
    rule: eval_pred_eval_pred_expr.induct)
  case (5 op preds inverted)
  then have "map (\<lambda>p. eval_pred (default_evaluator ops r) (rename_pred m p) inverted) preds =
      map (\<lambda>p. eval_pred (default_evaluator ops (through m r)) p inverted) preds" by simp
  from this [THEN arg_cong, of "\<lambda>vs. default_finish_junction op vs inverted"] show ?case by (simp add: comp_def del: map_eq_conv)
next
  case (11 op exprs inverted)
  then show ?case using assms by (simp add: opaque_renames_def default_evaluator_def)
qed (use assms in \<open>simp_all add: eval_unary_renamed eval_binary_renamed eval_pred_column_def resolve_binary_def through_def opaque_renames_def\<close>)

section \<open>The leaves of a schema\<close>

text \<open>The folded and the physical path of each primitive leaf below structs and variants.\<close>

function type_leaves :: "(string \<Rightarrow> string) \<Rightarrow> column_mapping_mode \<Rightarrow> column_name \<Rightarrow> column_name \<Rightarrow> data_type \<Rightarrow> (column_name \<times> column_name) list"
  and fields_leaves :: "(string \<Rightarrow> string) \<Rightarrow> column_mapping_mode \<Rightarrow> column_name \<Rightarrow> column_name \<Rightarrow> (string \<times> struct_field) list \<Rightarrow> (column_name \<times> column_name) list"
  and field_leaves :: "(string \<Rightarrow> string) \<Rightarrow> column_mapping_mode \<Rightarrow> column_name \<Rightarrow> column_name \<Rightarrow> struct_field \<Rightarrow> (column_name \<times> column_name) list" where
  "type_leaves low mode folded physical (Primitive p) = [(folded, physical)]"
| "type_leaves low mode folded physical (ArrayType e n) = []"
| "type_leaves low mode folded physical (MapType k v n) = []"
| "type_leaves low mode folded physical (StructT (StructType fs mc)) = fields_leaves low mode folded physical fs"
| "type_leaves low mode folded physical (Variant (StructType fs mc)) = fields_leaves low mode folded physical fs"
| "fields_leaves low mode folded physical [] = []"
| "fields_leaves low mode folded physical ((_, f) # fs) =
     field_leaves low mode folded physical f @ fields_leaves low mode folded physical fs"
| "field_leaves low mode folded physical (StructField name dt nullable md) =
     type_leaves low mode (folded @ [low name]) (physical @ [physical_name mode (StructField name dt nullable md)]) dt"
  by pat_completeness auto

termination
  by (relation "measure (case_sum (\<lambda>(_, _, _, _, dt). size dt)
      (case_sum (\<lambda>(_, _, _, _, fs). size_list (size_prod (\<lambda>_. 0) size) fs) (\<lambda>(_, _, _, _, f). size f)))") auto

text \<open>The state of the walk after it has passed some leaves: the first leaf of a folded path takes its references.\<close>

definition walked :: "(string \<Rightarrow> string) \<Rightarrow> column_name set \<Rightarrow> (column_name \<times> column_name) list \<Rightarrow> referenced_state \<Rightarrow> bool" where
  "walked low refs leaves st \<longleftrightarrow>
     (\<forall>c. column_mappings st c = (if c \<in> refs then map_of leaves (fold_case low c) else None)) \<and>
     unresolved_references st = {c \<in> refs. map_of leaves (fold_case low c) = None} \<and>
     (\<forall>path. folded_references st path = (if map_of leaves path = None then group_folded low refs path else None))"

lemma walked_primitive:
  assumes "walked low refs leaves st"
  shows "walked low refs (leaves @ [(folded, physical)])
    (case resolve_primitive folded physical st of None \<Rightarrow> st | Some st' \<Rightarrow> st')"
proof (cases "folded_references st folded")
  case None
  then have none: "\<forall>c \<in> refs. fold_case low c = folded \<longrightarrow> map_of leaves folded \<noteq> None"
    using assms by (auto simp: walked_def group_folded_def Let_def split: if_splits)
  have same: "map_of (leaves @ [(folded, physical)]) (fold_case low c) = map_of leaves (fold_case low c)" if "c \<in> refs" for c
    using none that by (auto simp: map_add_def split: option.splits)
  have "folded_references st path = (if map_of (leaves @ [(folded, physical)]) path = None then group_folded low refs path else None)" for path
    using assms None by (cases "path = folded") (auto simp: walked_def map_add_def split: option.splits)
  moreover have "resolve_primitive folded physical st = None" by (simp add: resolve_primitive_def None)
  ultimately show ?thesis using assms same unfolding walked_def by (simp cong: conj_cong if_cong)
next
  case (Some cols)
  then have none: "map_of leaves folded = None" and cols: "cols = {c \<in> refs. fold_case low c = folded}"
    using assms by (auto simp: walked_def group_folded_def Let_def split: if_splits)
  then show ?thesis
    using assms Some by (auto simp: walked_def resolve_primitive_def map_add_def split: option.splits)
qed

lemma referenced_walked:
  "walked low refs leaves st \<Longrightarrow>
     walked low refs (leaves @ type_leaves low mode folded physical dt) (snd (referenced_type low mode folded physical dt st))"
  "walked low refs leaves st \<Longrightarrow>
     walked low refs (leaves @ fields_leaves low mode folded physical fs) (snd (referenced_fields low mode folded physical fs st))"
  "walked low refs leaves st \<Longrightarrow>
     walked low refs (leaves @ field_leaves low mode folded physical f) (snd (referenced_field low mode folded physical f st))"
proof (induction low mode folded physical dt st and low mode folded physical fs st and low mode folded physical f st
    arbitrary: leaves and leaves and leaves rule: referenced_type_referenced_fields_referenced_field.induct)
  case (1 low mode folded physical p st)
  then show ?case using walked_primitive [of low refs leaves st folded physical] by (simp split: option.splits)
next
  case (7 low mode folded physical n f fs st)
  then show ?case by (fastforce split: prod.splits)
qed (auto simp: Let_def split: prod.splits)

lemma children_None: "map_owned_children_or_else parent f cs = None \<longleftrightarrow> (\<forall>c \<in> set cs. c = None)"
  by (auto simp: map_owned_children_or_else_def Let_def split: option.splits)

lemma referenced_None:
  "fst (referenced_type low mode folded physical dt st) = None \<Longrightarrow> snd (referenced_type low mode folded physical dt st) = st"
  "\<forall>c \<in> set (fst (referenced_fields low mode folded physical fs st)). c = None \<Longrightarrow> snd (referenced_fields low mode folded physical fs st) = st"
  "fst (referenced_field low mode folded physical f st) = None \<Longrightarrow> snd (referenced_field low mode folded physical f st) = st"
  by (induction low mode folded physical dt st and low mode folded physical fs st and low mode folded physical f st
      rule: referenced_type_referenced_fields_referenced_field.induct)
    (auto simp: Let_def children_None split: prod.splits option.splits)

definition initial_state :: "(string \<Rightarrow> string) \<Rightarrow> column_name set \<Rightarrow> referenced_state" where
  "initial_state low refs =
     \<lparr> unresolved_references = refs, folded_references = group_folded low refs, column_mappings = (\<lambda>_. None) \<rparr>"

lemma walked_schema:
  assumes "referenced_fields low mode [] [] fs (initial_state low refs) = (cs, st)"
  shows "walked low refs (fields_leaves low mode [] [] fs) st"
proof -
  have "walked low refs [] (initial_state low refs)" by (auto simp: walked_def initial_state_def)
  from referenced_walked(2) [OF this, of mode "[]" "[]" fs] show ?thesis by (simp add: assms)
qed


definition renamed_schema :: struct_type where
  "renamed_schema = new_unchecked [StructField ''a'' (Primitive PByte) True [(PHYSICAL_NAME_KEY, MetaString ''col-7'')]]"


text \<open>
  A node without children is filtered out: an engine-defined predicate that takes no argument disappears from a
  disjunction, and what is left no longer holds where only that predicate held.
\<close>

lemma nullary_opaque_lost:
  "transform_pred (apply_mappings (\<lambda>c. Some c)) (Junction Or [OpaqueP f [], BooleanExpression (Column [''a''])]) =
     Some (Owned (BooleanExpression (Column [''a''])))"
  by (simp add: map_owned_children_or_else_def apply_mappings_def pred_junction_def)

end
