(* ===== verification/StateInfo.thy ===== *)
theory StateInfo
  imports TransformEval PredicateMapping StatsSchema TableChanges
begin

text \<open>
  The state of a scan (\<open>scan/state_info.rs\<close>, \<open>scan/field_classifiers.rs\<close>): which columns are read from the files of a
  table, and the specification of the transform that makes logical rows of them. The main result composes it with
  the transform of a file (\<open>TransformSpec\<close>) and its evaluation (\<open>TransformEval\<close>): rows come out in the order of
  the logical schema.
\<close>

section \<open>Metadata columns\<close>

record metadata_info =
  metadata_field_names :: "string set"
  selected_row_index_col_name :: "string option"
  materialized_row_id_column_name :: "string option"

definition metadata_columns_of :: "struct_type \<Rightarrow> struct_field list" where
  "metadata_columns_of schema = List.map_filter (\<lambda>(_, i). field_at_index schema i) (st_metadata_columns schema)"

definition validate_metadata_column ::
  "table_configuration \<Rightarrow> struct_field \<Rightarrow> metadata_info \<Rightarrow> metadata_info delta_result" where
  "validate_metadata_column tc f info =
     (if sf_name f \<in> set (partition_columns tc)
      then Inl (SchemaError ''Metadata column names must not match partition columns'')
      else
        rbind (case get_metadata_column_spec f of
                 Some RowIndex \<Rightarrow> Inr (info \<lparr> selected_row_index_col_name := Some (sf_name f) \<rparr>)
               | Some RowId \<Rightarrow>
                   (if enable_row_tracking (tc_properties tc) \<noteq> Some True
                    then Inl (Unsupported ''Row ids are not enabled on this table'')
                    else rbind (ok_or (map_of (configuration (tc_metadata tc)) ''delta.rowTracking.materializedRowIdColumnName'')
                           (Generic ''No delta.rowTracking.materializedRowIdColumnName key found in metadata configuration'')) (\<lambda>col.
                         Inr (info \<lparr> materialized_row_id_column_name := Some col \<rparr>)))
               | _ \<Rightarrow> Inr info) (\<lambda>info.
          Inr (info \<lparr> metadata_field_names := insert (sf_name f) (metadata_field_names info) \<rparr>)))"

fun validate_metadata_loop :: "table_configuration \<Rightarrow> struct_field list \<Rightarrow> metadata_info \<Rightarrow> metadata_info delta_result" where
  "validate_metadata_loop tc [] info = Inr info"
| "validate_metadata_loop tc (f # fs) info = rbind (validate_metadata_column tc f info) (validate_metadata_loop tc fs)"

definition validate_metadata_columns :: "struct_type \<Rightarrow> table_configuration \<Rightarrow> metadata_info delta_result" where
  "validate_metadata_columns schema tc =
     validate_metadata_loop tc (metadata_columns_of schema)
       \<lparr> metadata_field_names = {}, selected_row_index_col_name = None, materialized_row_id_column_name = None \<rparr>"

section \<open>Statistics\<close>

datatype stats_output_mode = AllColumns | Columns "column_name list" | Skip

definition build_physical_stats_schema ::
  "(string \<Rightarrow> string) \<Rightarrow> stats_output_mode \<Rightarrow> 'op physical_predicate \<Rightarrow> column_name list \<Rightarrow> table_configuration \<Rightarrow>
   struct_type option delta_result" where
  "build_physical_stats_schema low mode pp predicate_columns tc =
     (case mode of
        AllColumns \<Rightarrow> rbind (build_expected_stats_schemas low tc None None) (\<lambda>s. Inr (Some s))
      | _ \<Rightarrow>
          (case mode of
             Columns (c # cs) \<Rightarrow>
               (let requested = c # cs;
                    needed = requested @ filter (\<lambda>col. col \<notin> set requested) predicate_columns;
                    resolved = List.map_filter (\<lambda>col.
                      case get_any_level_column_physical_name (table_configuration.logical_schema tc) col (tc_mapping_mode tc) of
                        Inr pc \<Rightarrow> Some pc | Inl _ \<Rightarrow> None) needed
                in rbind (build_expected_stats_schemas low tc None (Some resolved)) (\<lambda>s. Inr (Some s)))
           | _ \<Rightarrow>
               (case pp of
                  PredicateSome _ ref_schema \<Rightarrow> Inr (build_stats_schema ref_schema)
                | _ \<Rightarrow> Inr None)))"

section \<open>Fields\<close>

type_synonym 'op field_classifier = "struct_field \<Rightarrow> nat \<Rightarrow> string option \<Rightarrow> 'op field_transform_spec option"

definition no_classifier :: "'op field_classifier" where
  "no_classifier f i lst = None"

definition cdf_classifier :: "'op field_classifier" where
  "cdf_classifier f i lst =
     (if sf_name f = CHANGE_TYPE_COL_NAME then Some (DynamicColumn i CHANGE_TYPE_COL_NAME lst)
      else if sf_name f \<in> {COMMIT_VERSION_COL_NAME, COMMIT_TIMESTAMP_COL_NAME} then Some (MetadataDerivedColumn i lst)
      else None)"

text \<open>
  A name for a row index column that the schema does not have: the first of an unbounded sequence of names, one of
  which is free among the first \<open>n + 1\<close> when the schema has \<open>n\<close> fields.
\<close>

definition row_index_name :: "nat \<Rightarrow> string" where
  "row_index_name i = ''row_indexes_for_row_id_'' @ show_nat i"

definition free_row_index_name :: "struct_type \<Rightarrow> string option" where
  "free_row_index_name schema =
     List.find (\<lambda>name. struct_field_named schema name = None) (map row_index_name [0..<Suc (length (st_fields schema))])"

text \<open>The state of the loop: the fields to read, the specification, the last physical field.\<close>

type_synonym 'op fields_state = "struct_field list \<times> 'op field_transform_spec list \<times> string option"

definition state_field ::
  "'op field_classifier \<Rightarrow> struct_type \<Rightarrow> string list \<Rightarrow> column_mapping_mode \<Rightarrow> metadata_info \<Rightarrow> nat \<Rightarrow> struct_field \<Rightarrow>
   'op fields_state \<Rightarrow> 'op fields_state delta_result" where
  "state_field classify schema partition_cols mode info i f = (\<lambda>(reads, spec, lst).
     case classify f i lst of
       Some s \<Rightarrow> Inr (reads, spec @ [s], lst)
     | None \<Rightarrow>
         if sf_name f \<in> set partition_cols then Inr (reads, spec @ [MetadataDerivedColumn i lst], lst)
         else
           (case get_metadata_column_spec f of
              Some RowId \<Rightarrow>
                rbind (case selected_row_index_col_name info of
                         Some name \<Rightarrow> Inr (name, [], [])
                       | None \<Rightarrow>
                           rbind (ok_or (free_row_index_name schema) (Generic ''Couldn't generate row index column name'')) (\<lambda>name.
                             Inr (name, [create_metadata_column name RowIndex], [StaticDrop name]))) (\<lambda>(name, index_reads, drops).
                rbind (ok_or (materialized_row_id_column_name info)
                         (InternalError ''Should always return a materialized_row_id_column_name if selecting row ids'')) (\<lambda>row_id.
                  Inr (reads @ index_reads @ [StructField row_id (Primitive PLong) True []],
                       spec @ drops @ [GenerateRowId row_id name], lst)))
            | Some RowCommitVersion \<Rightarrow> Inl (Unsupported ''Row commit versions not supported'')
            | _ \<Rightarrow>
                rbind (field_make_physical f mode) (\<lambda>pf.
                if \<not> is_metadata_column f \<and> sf_name pf \<in> metadata_field_names info
                then Inl (SchemaError ''Metadata column names must not match physical columns'')
                else Inr (reads @ [pf], spec, Some (sf_name pf)))))"

fun state_fields ::
  "'op field_classifier \<Rightarrow> struct_type \<Rightarrow> string list \<Rightarrow> column_mapping_mode \<Rightarrow> metadata_info \<Rightarrow> nat \<Rightarrow> struct_field list \<Rightarrow>
   'op fields_state \<Rightarrow> 'op fields_state delta_result" where
  "state_fields classify schema partition_cols mode info i [] st = Inr st"
| "state_fields classify schema partition_cols mode info i (f # fs) st =
     rbind (state_field classify schema partition_cols mode info i f st)
       (state_fields classify schema partition_cols mode info (Suc i) fs)"

definition partition_schema_of :: "'op physical_predicate \<Rightarrow> table_configuration \<Rightarrow> struct_type option" where
  "partition_schema_of pp tc =
     (if (case pp of PredicateSome _ _ \<Rightarrow> True | _ \<Rightarrow> False) \<and> partition_columns tc \<noteq> []
      then (let fs = map snd (filter (\<lambda>(lf, _). sf_name lf \<in> set (partition_columns tc))
                   (zip (fields_of (table_configuration.logical_schema tc)) (fields_of (table_configuration.physical_schema tc))))
            in if fs = [] then None else Some (new_unchecked fs))
      else None)"

definition state_info_try_new ::
  "'op opaque_ops \<Rightarrow> (string \<Rightarrow> string) \<Rightarrow> (column_name set \<Rightarrow> column_name list) \<Rightarrow> struct_type \<Rightarrow> table_configuration \<Rightarrow>
   'op predicate option \<Rightarrow> stats_output_mode \<Rightarrow> 'op field_classifier \<Rightarrow> 'op state_info delta_result" where
  "state_info_try_new ops low order schema tc predicate stats_mode classify =
     (let mode = tc_mapping_mode tc in
      rbind (validate_metadata_columns schema tc) (\<lambda>info.
      rbind (state_fields classify schema (partition_columns tc) mode info 0 (fields_of schema) ([], [], None)) (\<lambda>(reads, spec, _).
      rbind (struct_try_new low reads) (\<lambda>physical.
      rbind (case predicate of
               Some p \<Rightarrow> physical_predicate_try_new ops low p schema mode
             | None \<Rightarrow> Inr PredicateNone) (\<lambda>pp.
      rbind (build_physical_stats_schema low stats_mode pp
               (case predicate of Some p \<Rightarrow> order (references p) | None \<Rightarrow> []) tc) (\<lambda>stats.
        Inr (state_info.make schema physical pp (if spec \<noteq> [] \<or> mode \<noteq> NoMapping then Some spec else None) mode stats
               (partition_schema_of pp tc))))))))"

section \<open>Plans of specifications\<close>

text \<open>The transform of a specification, when the values of its metadata columns are known.\<close>

definition row_id_expr :: "64 word \<Rightarrow> string \<Rightarrow> string \<Rightarrow> 'op expression" where
  "row_id_expr bid row_id row_index =
     VariadicE Coalesce [Column [row_id], BinaryE Plus (Literal (Long bid)) (Column [row_index])]"

fun spec_transform :: "(nat \<Rightarrow> scalar) \<Rightarrow> 64 word \<Rightarrow> 'op field_transform_spec \<Rightarrow> 'op transform \<Rightarrow> 'op transform" where
  "spec_transform value bid (StaticDrop name) t = with_dropped_field name t"
| "spec_transform value bid (GenerateRowId name row_index) t = with_replaced_field name (row_id_expr bid name row_index) t"
| "spec_transform value bid (MetadataDerivedColumn i after) t = with_inserted_field after (Literal (value i)) t"
| "spec_transform value bid _ t = t"

fun scan_spec :: "'op field_transform_spec \<Rightarrow> bool" where
  "scan_spec (StaticInsert _ _) = False"
| "scan_spec (DynamicColumn _ _ _) = False"
| "scan_spec _ = True"

lemma fold_spec_cong:
  "(\<And>i. i \<in> set (metadata_indices spec) \<Longrightarrow> value i = value' i) \<Longrightarrow>
   fold (spec_transform value bid) spec t = fold (spec_transform value' bid) spec t"
  by (induction spec arbitrary: t rule: metadata_indices.induct) auto

lemma transform_loop_fold:
  "transform_loop spec physical bid md t = Inr t' \<Longrightarrow> list_all scan_spec spec \<Longrightarrow> distinct (metadata_indices spec) \<Longrightarrow>
   t' = fold (spec_transform (\<lambda>i. snd (the (map_of md i))) (the bid)) spec t"
proof (induction spec physical bid md t rule: transform_loop.induct)
  case (5 i after spec physical bid md t)
  obtain n v where v: "map_of md i = Some (n, v)" using "5.prems"(1) by (auto split: option.splits)
  have "fold (spec_transform (\<lambda>j. snd (the (map_of (AList.delete i md) j))) (the bid)) spec u =
      fold (spec_transform (\<lambda>j. snd (the (map_of md j))) (the bid)) spec u" for u :: "'a transform"
    using "5.prems"(3) by (intro fold_spec_cong) (auto simp: delete_conv')
  then show ?case using 5 v by simp
next
  case (4 name row_index spec physical bid md t)
  then show ?case by (auto simp: row_id_expr_def split: option.splits)
qed auto

definition names_of :: "struct_field list \<Rightarrow> string list" where
  "names_of fs = map sf_name fs"

definition plan_of :: "'op transform \<Rightarrow> string list \<Rightarrow> (string + 'op expression) list" where
  "plan_of t names = transform_plan (field_transforms t) (prepended_fields t) names"

definition keys_of :: "'op transform \<Rightarrow> string set" where
  "keys_of t = fst ` set (field_transforms t)"

lemma keys_update [simp]: "keys_of (update_field_transform name f t) = insert name (keys_of t)"
  by (simp add: keys_of_def update_field_transform_def update_keys dom_update)

lemma not_key: "name \<notin> keys_of t \<Longrightarrow> map_of (field_transforms t) name = None"
  by (simp add: keys_of_def map_of_eq_None_iff)

lemma plan_new_name: "name \<notin> keys_of t \<Longrightarrow> plan_of t (names @ [name]) = plan_of t names @ [Inl name]"
  by (simp add: plan_of_def transform_plan_def field_plan_def not_key)

lemma field_plan_update: "field_plan (AList.update name ft fts) n = (if n = name then (if ft_is_replace ft then [] else [Inl n]) @ map Inr (ft_exprs ft) else field_plan fts n)"
  by (simp add: field_plan_def update_conv')

lemma plan_update:
  assumes "name \<notin> set names"
  shows "plan_of (update_field_transform name f t) (names @ [name]) =
    plan_of t names @ (let ft = f (get_field_transform t name) in (if ft_is_replace ft then [] else [Inl name]) @ map Inr (ft_exprs ft))"
proof -
  have "map (field_plan (AList.update name (f (get_field_transform t name)) (field_transforms t))) names =
      map (field_plan (field_transforms t)) names"
    using assms by (auto simp: field_plan_update)
  from arg_cong [OF this, of concat] show ?thesis
    by (simp add: plan_of_def transform_plan_def update_field_transform_def field_plan_update [of name _ _ name] Let_def del: map_eq_conv)
qed

lemma get_new: "name \<notin> keys_of t \<Longrightarrow> get_field_transform t name = default_field_transform"
  by (simp add: get_field_transform_def not_key)

lemma plan_dropped: "name \<notin> set names \<Longrightarrow> name \<notin> keys_of t \<Longrightarrow> plan_of (with_dropped_field name t) (names @ [name]) = plan_of t names"
  by (simp add: with_dropped_field_def plan_update get_new default_field_transform_def)

lemma plan_replaced:
  "name \<notin> set names \<Longrightarrow> name \<notin> keys_of t \<Longrightarrow> plan_of (with_replaced_field name e t) (names @ [name]) = plan_of t names @ [Inr e]"
  by (simp add: with_replaced_field_def plan_update get_new default_field_transform_def)

lemma plan_inserted:
  assumes "distinct names" "lst = (if names = [] then None else Some (last names))"
  shows "plan_of (with_inserted_field lst e t) names = plan_of t names @ [Inr e]"
proof (cases names rule: rev_cases)
  case Nil
  then show ?thesis using assms by (simp add: with_inserted_field_def plan_of_def transform_plan_def)
next
  case (snoc ns n)
  then have "n \<notin> set ns" using assms(1) by simp
  then show ?thesis using assms(2) snoc
    by (simp add: with_inserted_field_def plan_update)
       (simp add: plan_of_def transform_plan_def field_plan_def get_field_transform_def default_field_transform_def split: option.splits)
qed

section \<open>The loop over the fields\<close>

text \<open>What each field of the logical schema needs: a partition value, a row id or a column of the file.\<close>

definition row_index_of :: "struct_type \<Rightarrow> metadata_info \<Rightarrow> string" where
  "row_index_of schema info =
     (case selected_row_index_col_name info of Some n \<Rightarrow> n | None \<Rightarrow> the (free_row_index_name schema))"

definition is_row_id :: "struct_field \<Rightarrow> bool" where
  "is_row_id f \<longleftrightarrow> get_metadata_column_spec f = Some RowId"

definition field_entry ::
  "struct_type \<Rightarrow> string list \<Rightarrow> column_mapping_mode \<Rightarrow> metadata_info \<Rightarrow> (nat \<Rightarrow> scalar) \<Rightarrow> 64 word \<Rightarrow> nat \<Rightarrow> struct_field \<Rightarrow>
   string + 'op expression" where
  "field_entry schema pcols mode info value bid i f =
     (if sf_name f \<in> set pcols then Inr (Literal (value i))
      else if is_row_id f then Inr (row_id_expr bid (the (materialized_row_id_column_name info)) (row_index_of schema info))
      else Inl (case field_make_physical f mode of Inr pf \<Rightarrow> sf_name pf | Inl _ \<Rightarrow> []))"

text \<open>
  A partition column is inserted after the last column of the file, and a row id column does not count as one:
  so between a row id column and a later partition column there has to be a column of the file.
\<close>

fun partitions_placed :: "string list \<Rightarrow> bool \<Rightarrow> struct_field list \<Rightarrow> bool" where
  "partitions_placed pcols after_row_id [] \<longleftrightarrow> True"
| "partitions_placed pcols after_row_id (f # fs) \<longleftrightarrow>
     (if sf_name f \<in> set pcols then \<not> after_row_id \<and> partitions_placed pcols after_row_id fs
      else partitions_placed pcols (is_row_id f) fs)"

definition scan_inv ::
  "(nat \<Rightarrow> scalar) \<Rightarrow> 64 word \<Rightarrow> 'op fields_state \<Rightarrow> (string + 'op expression) list \<Rightarrow> bool \<Rightarrow> bool" where
  "scan_inv value bid = (\<lambda>(reads, spec, lst) entries after_row_id.
     let t = fold (spec_transform value bid) spec new_top_level; names = names_of reads in
     plan_of t names = entries \<and> keys_of t \<subseteq> set names \<and> list_all scan_spec spec \<and>
     input_path t = None \<and> distinct (map fst (field_transforms t)) \<and>
     (\<not> after_row_id \<longrightarrow> lst = (if names = [] then None else Some (last names))))"

lemma metadata_indices_append: "metadata_indices (spec @ spec') = metadata_indices spec @ metadata_indices spec'"
  by (induction spec rule: metadata_indices.induct) auto

lemma update_transform_simps [simp]:
  "input_path (update_field_transform n f t) = input_path t"
  "distinct (map fst (field_transforms t)) \<Longrightarrow> distinct (map fst (field_transforms (update_field_transform n f t)))"
  by (simp_all add: update_field_transform_def distinct_update)

lemma inserted_simps [simp]:
  "input_path (with_inserted_field lst e t) = input_path t"
  "distinct (map fst (field_transforms t)) \<Longrightarrow> distinct (map fst (field_transforms (with_inserted_field lst e t)))"
  "keys_of (with_inserted_field lst e t) = (case lst of Some n \<Rightarrow> insert n (keys_of t) | None \<Rightarrow> keys_of t)"
  by (cases lst; simp add: with_inserted_field_def; simp add: keys_of_def)+

lemma state_field_step:
  assumes step: "state_field no_classifier schema pcols mode info i f (reads, spec, lst) = Inr (reads', spec', lst')"
    and dist: "distinct (names_of reads')"
    and inv: "scan_inv value bid (reads, spec, lst) entries after_row_id"
    and placed: "sf_name f \<in> set pcols \<Longrightarrow> \<not> after_row_id"
  shows "scan_inv value bid (reads', spec', lst') (entries @ [field_entry schema pcols mode info value bid i f])
      (if sf_name f \<in> set pcols then after_row_id else is_row_id f) \<and>
    metadata_indices spec' = metadata_indices spec @ (if sf_name f \<in> set pcols then [i] else []) \<and> (\<exists>more. reads' = reads @ more)"
proof -
  define t where "t = fold (spec_transform value bid) spec new_top_level"
  note inv = inv [unfolded scan_inv_def, simplified, unfolded Let_def t_def [symmetric]]
  consider (partition) "sf_name f \<in> set pcols" | (row_id) "sf_name f \<notin> set pcols" "is_row_id f"
    | (physical) "sf_name f \<notin> set pcols" "\<not> is_row_id f" by blast
  then show ?thesis
  proof cases
    case partition
    then have s: "reads' = reads" "spec' = spec @ [MetadataDerivedColumn i lst]" "lst' = lst"
      using step by (auto simp: state_field_def no_classifier_def)
    have l: "lst = (if names_of reads = [] then None else Some (last (names_of reads)))" using inv placed partition by simp
    have "plan_of (with_inserted_field lst (Literal (value i)) t) (names_of reads) = plan_of t (names_of reads) @ [Inr (Literal (value i))]"
      using dist s l by (intro plan_inserted) auto
    then show ?thesis
      using partition inv l by (auto simp: s scan_inv_def t_def [symmetric] field_entry_def metadata_indices_append)
  next
    case row_id
    then obtain name row_id more drops where s: "reads' = reads @ more @ [StructField row_id (Primitive PLong) True []]"
        "spec' = spec @ drops @ [GenerateRowId row_id name]" "lst' = lst" "materialized_row_id_column_name info = Some row_id"
        "name = row_index_of schema info"
        "more = [] \<and> drops = [] \<or> more = [create_metadata_column name RowIndex] \<and> drops = [StaticDrop name]"
      using step
      by (auto simp: state_field_def no_classifier_def is_row_id_def row_index_of_def result_simps split: option.splits)
    have cm: "sf_name (create_metadata_column name RowIndex) = name" by (simp add: create_metadata_column_def)
    define t1 where "t1 = fold (spec_transform value bid) drops t"
    have t1: "plan_of t1 (names_of (reads @ more)) = entries \<and> keys_of t1 \<subseteq> set (names_of (reads @ more)) \<and> input_path t1 = None \<and>
        distinct (map fst (field_transforms t1))"
      using s(6)
    proof
      assume none: "more = [] \<and> drops = []"
      then show ?thesis using inv by (simp add: t1_def)
    next
      assume one: "more = [create_metadata_column name RowIndex] \<and> drops = [StaticDrop name]"
      then have t1': "t1 = with_dropped_field name t" and names: "names_of (reads @ more) = names_of reads @ [name]"
        by (simp_all add: t1_def names_of_def cm)
      have new: "name \<notin> set (names_of reads)" using dist one by (auto simp: s(1) names_of_def cm)
      then have "name \<notin> keys_of t" using inv by auto
      then have "plan_of t1 (names_of (reads @ more)) = entries" using new inv by (simp add: t1' names plan_dropped)
      moreover have "keys_of t1 \<subseteq> set (names_of (reads @ more))" "input_path t1 = None" "distinct (map fst (field_transforms t1))"
        using inv by (auto simp: t1' names with_dropped_field_def)
      ultimately show ?thesis by blast
    qed
    have "plan_of (with_replaced_field row_id (row_id_expr bid row_id name) t1) (names_of (reads @ more) @ [row_id]) =
        plan_of t1 (names_of (reads @ more)) @ [Inr (row_id_expr bid row_id name)]"
      using t1 dist by (intro plan_replaced) (auto simp: s(1) names_of_def)
    then show ?thesis
      using row_id s(6) t1 inv
      by (auto simp: s scan_inv_def Let_def t_def [symmetric] t1_def [symmetric] field_entry_def metadata_indices_append names_of_def
          with_replaced_field_def)
  next
    case physical
    then obtain pf where s: "reads' = reads @ [pf]" "spec' = spec" "lst' = Some (sf_name pf)" "field_make_physical f mode = Inr pf"
      using step
      by (auto simp: state_field_def no_classifier_def is_row_id_def result_simps split: option.splits metadata_column_spec.splits if_splits)
    have "sf_name pf \<notin> keys_of t" using inv dist by (auto simp: s names_of_def)
    then have "plan_of t (names_of reads @ [sf_name pf]) = plan_of t (names_of reads) @ [Inl (sf_name pf)]" by (rule plan_new_name)
    then show ?thesis
      using physical inv by (auto simp: s scan_inv_def Let_def t_def [symmetric] field_entry_def names_of_def)
  qed
qed

lemma state_fields_extends:
  "state_fields no_classifier schema pcols mode info i fs st = Inr st' \<Longrightarrow> \<exists>more. fst st' = fst st @ more"
proof (induction fs arbitrary: i st)
  case (Cons f fs)
  obtain st1 where st1: "state_field no_classifier schema pcols mode info i f st = Inr st1"
      "state_fields no_classifier schema pcols mode info (Suc i) fs st1 = Inr st'"
    using Cons.prems by (auto simp: rbind_Inr_iff)
  have "\<exists>more. fst st1 = fst st @ more"
    using st1(1) by (cases st) (auto simp: state_field_def no_classifier_def result_simps
        split: option.splits metadata_column_spec.splits if_splits)
  then show ?case using Cons.IH [OF st1(2)] by force
qed simp

lemma state_fields_plan:
  "state_fields no_classifier schema pcols mode info i fs st = Inr st' \<Longrightarrow> distinct (names_of (fst st')) \<Longrightarrow>
   scan_inv value bid st entries after_row_id \<Longrightarrow> partitions_placed pcols after_row_id fs \<Longrightarrow>
   (\<exists>b. scan_inv value bid st' (entries @ map2 (field_entry schema pcols mode info value bid) [i..<i + length fs] fs) b) \<and>
   metadata_indices (fst (snd st')) = metadata_indices (fst (snd st)) @ filter (\<lambda>j. sf_name (fs ! (j - i)) \<in> set pcols) [i..<i + length fs]"
proof (induction fs arbitrary: i st entries after_row_id)
  case Nil
  then show ?case by auto
next
  case (Cons f fs)
  obtain st1 where st1: "state_field no_classifier schema pcols mode info i f st = Inr st1"
      "state_fields no_classifier schema pcols mode info (Suc i) fs st1 = Inr st'"
    using Cons.prems(1) by (auto simp: rbind_Inr_iff)
  obtain reads spec lst where st: "st = (reads, spec, lst)" by (cases st)
  obtain reads1 spec1 lst1 where s1: "st1 = (reads1, spec1, lst1)" by (cases st1)
  have "distinct (names_of reads1)"
    using Cons.prems(2) state_fields_extends [OF st1(2)] by (auto simp: s1 names_of_def)
  note step = state_field_step [OF st1(1) [unfolded st s1] this Cons.prems(3) [unfolded st]]
  have placed: "sf_name f \<in> set pcols \<Longrightarrow> \<not> after_row_id"
    and rest: "partitions_placed pcols (if sf_name f \<in> set pcols then after_row_id else is_row_id f) fs"
    using Cons.prems(4) by (auto split: if_splits)
  note step = step [OF placed]
  have idx: "filter (\<lambda>j. sf_name (fs ! (j - Suc i)) \<in> set pcols) [Suc i..<Suc i + length fs] =
      filter (\<lambda>j. sf_name ((f # fs) ! (j - i)) \<in> set pcols) [Suc i..<Suc i + length fs]"
    by (rule filter_cong) (auto simp: nth_Cons')
  have upt: "[i..<i + length (f # fs)] = i # [Suc i..<Suc i + length fs]" by (simp add: upt_conv_Cons del: upt_Suc)
  note rest = Cons.IH [OF st1(2) Cons.prems(2) conjunct1 [OF step, folded s1] rest]
  have "metadata_indices (fst (snd st')) = metadata_indices spec1 @
      filter (\<lambda>j. sf_name ((f # fs) ! (j - i)) \<in> set pcols) [Suc i..<Suc i + length fs]"
    using conjunct2 [OF rest] unfolding idx by (simp add: s1 del: upt_Suc)
  then show ?case
    using conjunct1 [OF rest] step unfolding upt by (simp add: st del: upt_Suc)
qed

text \<open>The value of a logical field of a row, as the table means it.\<close>

definition logical_value ::
  "'op arrow \<Rightarrow> ('d, 'dt) scalar_parsers \<Rightarrow> struct_type \<Rightarrow> string list \<Rightarrow> column_mapping_mode \<Rightarrow> metadata_info \<Rightarrow> 64 word option \<Rightarrow>
   (string \<times> string) list \<Rightarrow> row \<Rightarrow> struct_field \<Rightarrow> cell delta_result" where
  "logical_value A P schema pcols mode info bid pvs row f =
     (if sf_name f \<in> set pcols
      then rbind (parse_partition_value_raw P (map_of pvs (physical_name mode f)) (sf_data_type f))
             (\<lambda>v. validate_array_type A (Some (sf_data_type f)) (Cell v))
      else if is_row_id f
      then evaluate_expression A row
             (row_id_expr (the bid) (the (materialized_row_id_column_name info)) (row_index_of schema info)) (Some (sf_data_type f))
      else rbind (field_make_physical f mode) (\<lambda>pf. extract_column row [sf_name pf]))"

lemma parsed_index: "parse_partition_value P i schema pvs mode = Inr v \<Longrightarrow> fst v = i"
  by (auto simp: parse_partition_value_def Let_def rbind_Inr_iff split: option.splits)

lemma parsed_value:
  assumes "parse_partition_values P schema spec pvs mode = Inr md" "distinct (metadata_indices spec)" "i \<in> set (metadata_indices spec)"
  shows "\<exists>n v. map_of md i = Some (n, v) \<and> parse_partition_value P i schema pvs mode = Inr (i, n, v)"
proof -
  obtain vs where vs: "map (\<lambda>i. parse_partition_value P i schema pvs mode) (metadata_indices spec) = map Inr vs"
    and md: "md = foldl (\<lambda>m (i, v). AList.update i v m) [] vs"
    using assms(1) by (auto simp: parse_partition_values_def rbind_Inr_iff collect_results_Inr)
  have at: "parse_partition_value P (metadata_indices spec ! k) schema pvs mode = Inr (vs ! k)" "length vs = length (metadata_indices spec)"
    if "k < length (metadata_indices spec)" for k
    using that arg_cong [OF vs, of "\<lambda>l. l ! k"] arg_cong [OF vs, of length] by simp_all
  have fst: "map fst vs = metadata_indices spec"
  proof (rule nth_equalityI)
    show len: "length (map fst vs) = length (metadata_indices spec)" using arg_cong [OF vs, of length] by simp
    show "map fst vs ! k = metadata_indices spec ! k" if "k < length (map fst vs)" for k
      using at(1) [of k] len that parsed_index [of P "metadata_indices spec ! k" schema pvs mode "vs ! k"] by simp
  qed
  obtain k where k: "k < length (metadata_indices spec)" "metadata_indices spec ! k = i" using assms(3) by (auto simp: in_set_conv_nth)
  have first: "fst (vs ! k) = i" using fst k at(2) [OF k(1)] nth_map [of k vs fst] by simp
  have "vs ! k \<in> set vs" using k at(2) [OF k(1)] by simp
  moreover have "vs ! k = (i, snd (vs ! k))" by (rule prod_eqI) (simp_all add: first)
  ultimately have "(i, snd (vs ! k)) \<in> set vs" by simp
  moreover have "distinct (map fst (rev vs))" using assms(2) by (simp add: fst flip: rev_map)
  ultimately have "map_of (rev vs) i = Some (snd (vs ! k))" by (intro map_of_is_SomeI) simp_all
  moreover have "map_of md = map_of (rev vs)" by (simp add: md map_of_collect_map)
  ultimately show ?thesis using at(1) [OF k(1)] k(2) first by (cases "vs ! k") auto
qed

lemma state_fields_physical:
  "state_fields no_classifier schema pcols mode info i fs st = Inr st' \<Longrightarrow> f \<in> set fs \<Longrightarrow> sf_name f \<notin> set pcols \<Longrightarrow> \<not> is_row_id f \<Longrightarrow>
   \<exists>pf. field_make_physical f mode = Inr pf"
proof (induction fs arbitrary: i st)
  case (Cons g fs)
  obtain st1 where st1: "state_field no_classifier schema pcols mode info i g st = Inr st1"
      "state_fields no_classifier schema pcols mode info (Suc i) fs st1 = Inr st'"
    using Cons.prems by (auto simp: rbind_Inr_iff)
  show ?case
  proof (cases "f \<in> set fs")
    case False
    then have "f = g" using Cons.prems(2) by simp
    then show ?thesis using st1(1) Cons.prems(3,4)
      by (cases st) (auto simp: state_field_def no_classifier_def is_row_id_def result_simps
        split: option.splits metadata_column_spec.splits if_splits)
  qed (use Cons st1 in blast)
qed simp

lemma entry_value:
  assumes f: "i < length (fields_of schema)" "f = fields_of schema ! i"
    and loop: "state_fields no_classifier schema pcols mode info 0 (fields_of schema) st = Inr st'"
    and vl: "sf_name f \<in> set pcols \<Longrightarrow>
      \<exists>n. map_of md i = Some (n, vl i) \<and> parse_partition_value P i schema pvs mode = Inr (i, n, vl i)"
  shows "produce (\<lambda>e d. evaluate_expression A row e d) row (field_entry schema pcols mode info vl (the bid) i f) f =
    logical_value A P schema pcols mode info bid pvs row f"
proof -
  have at: "field_at_index schema i = Some f" using f by (simp add: field_at_index_def fields_of_def)
  consider "sf_name f \<in> set pcols" | "sf_name f \<notin> set pcols" "is_row_id f" | "sf_name f \<notin> set pcols" "\<not> is_row_id f" by blast
  then show ?thesis
  proof cases
    case 1
    then show ?thesis using vl at
      by (auto simp: field_entry_def logical_value_def parse_partition_value_def Let_def rbind_Inr_iff)
  next
    case 2
    then show ?thesis by (simp add: field_entry_def logical_value_def)
  next
    case 3
    have "f \<in> set (fields_of schema)" using f by simp
    then obtain pf where "field_make_physical f mode = Inr pf" using state_fields_physical [OF loop _ 3] by blast
    then show ?thesis using 3 by (simp add: field_entry_def logical_value_def)
  qed
qed

text \<open>
  C10. Rows of a scan are logical rows. Take the columns that a scan of a table reads from a file and the transform
  it makes for the file from its partition values and its base row id. Evaluated on a row with these columns, the
  transform gives the fields of the logical schema, in its order, each with its meaning: the parsed partition
  value, the row id (the stored one, or else the base row id plus the row index) or the physical column of the
  field; and it fails only if one of them cannot be computed. The schema must have a column of the file between
  a row id column and a later partition column.
\<close>

theorem scan_rows_logical:
  assumes new: "state_info_try_new ops low order schema tc predicate stats_mode no_classifier = Inr info"
    and meta: "validate_metadata_columns schema tc = Inr minfo"
    and spec: "transform_spec info = Some spec"
    and placed: "partitions_placed (partition_columns tc) False (fields_of schema)"
    and row: "map fst row = map sf_name (fields_of (state_info.physical_schema info))"
    and parsed: "parse_partition_values P schema spec pvs (tc_mapping_mode tc) = Inr md"
    and expr: "get_transform_expr spec md (state_info.physical_schema info) bid = Inr e"
  shows "evaluate_expression A row e (Some (StructT schema)) = Inr c \<longleftrightarrow>
    (\<exists>cs. map (logical_value A P schema (partition_columns tc) (tc_mapping_mode tc) minfo bid pvs row) (fields_of schema) = map Inr cs \<and>
       c = Fields True (zip (map sf_name (fields_of schema)) cs))"
proof -
  let ?pcols = "partition_columns tc" and ?mode = "tc_mapping_mode tc" and ?fs = "fields_of schema"
  define vl where "vl i = snd (the (map_of md i))" for i
  obtain reads lst where loop: "state_fields no_classifier schema ?pcols ?mode minfo 0 ?fs ([], [], None) = Inr (reads, spec, lst)"
    and phys: "struct_try_new low reads = Inr (state_info.physical_schema info)"
    using new meta spec by (auto simp: state_info_try_new_def Let_def rbind_Inr_iff state_info.make_def split: if_splits)
  note reads = struct_try_new_fields [OF phys]
  have "scan_inv vl (the bid) ([], [], None) [] False"
    by (simp add: scan_inv_def names_of_def plan_of_def transform_plan_def new_top_level_def keys_of_def)
  with state_fields_plan [OF loop _ this placed] reads(2) obtain b where
    inv: "scan_inv vl (the bid) (reads, spec, lst) (map2 (field_entry schema ?pcols ?mode minfo vl (the bid)) [0..<length ?fs] ?fs) b"
    and idx: "metadata_indices spec = filter (\<lambda>j. sf_name (?fs ! j) \<in> set ?pcols) [0..<length ?fs]"
    by (auto simp: names_of_def)
  define t where "t = fold (spec_transform vl (the bid)) spec new_top_level"
  note inv = inv [unfolded scan_inv_def, simplified, unfolded Let_def t_def [symmetric] names_of_def]
  have dist: "distinct (metadata_indices spec)" by (simp add: idx)
  obtain t' where "transform_loop spec (state_info.physical_schema info) bid md new_top_level = Inr t'" "e = transform_expression t'"
    using expr by (auto simp: get_transform_expr_def rbind_Inr_iff)
  then have e: "e = TransformE None (field_transforms t) (prepended_fields t)"
    using transform_loop_fold [of spec _ bid md new_top_level t'] inv dist
    by (simp add: t_def vl_def [abs_def] transform_expression_def)
  let ?ev = "\<lambda>e d. evaluate_expression A row e d" and ?plan = "map2 (field_entry schema ?pcols ?mode minfo vl (the bid)) [0..<length ?fs] ?fs"
  have names: "map fst row = map sf_name reads" using row reads(1) by simp
  have plan: "transform_plan (field_transforms t) (prepended_fields t) (map fst row) = ?plan"
    using inv unfolding names by (simp add: plan_of_def)
  have used: "length (filter (\<lambda>(_, ft). \<not> ft_optional ft) (field_transforms t)) \<le>
      length (filter (\<lambda>n. map_of (field_transforms t) n \<noteq> None) (map fst row))"
    using inv reads(2) unfolding names by (intro used_transforms) (auto simp: keys_of_def)
  have value_at: "produce ?ev row (?plan ! i) (?fs ! i) = logical_value A P schema ?pcols ?mode minfo bid pvs row (?fs ! i)"
    if "i < length ?fs" for i
  proof -
    have "\<exists>n. map_of md i = Some (n, vl i) \<and> parse_partition_value P i schema pvs ?mode = Inr (i, n, vl i)"
      if "sf_name (?fs ! i) \<in> set ?pcols"
      using parsed_value [OF parsed dist, of i] \<open>i < length ?fs\<close> that by (auto simp: idx vl_def)
    from entry_value [where vl = vl, OF \<open>i < length ?fs\<close> refl loop this] show ?thesis using \<open>i < length ?fs\<close> by simp
  qed
  have "map2 (produce ?ev row) ?plan ?fs = map (logical_value A P schema ?pcols ?mode minfo bid pvs row) ?fs"
    using value_at by (intro nth_equalityI) simp_all
  then have "follows_plan ?ev row ?plan ?fs cs \<longleftrightarrow> map (logical_value A P schema ?pcols ?mode minfo bid pvs row) ?fs = map Inr cs" for cs
    by (simp add: follows_plan_def)
  then show ?thesis using used
    unfolding e evaluate_expression.simps by (simp add: evaluate_transform_Inr plan Let_def)
qed

section \<open>Examples\<close>

definition plain_arrow :: "unit arrow" where
  "plain_arrow =
     \<lparr> ensure_data_types = \<lambda>_ _. Inr (), coalesce_types = \<lambda>_ _. Inr (),
       arrow_binary = (\<lambda>op l r. case (op, l, r) of
           (Plus, Cell (Long x), Cell (Long y)) \<Rightarrow> Inr (Cell (Long (x + y)))
         | _ \<Rightarrow> Inl (Arrow ''Invalid arithmetic operation'')),
       to_json = \<lambda>_. Inr (Cell (Null (Primitive PString))), evaluate_other = \<lambda>_ _ _. Inl (Unsupported '''') \<rparr>"

definition partitioned_schema :: struct_type where
  "partitioned_schema = new_unchecked [StructField ''p'' (Primitive PString) True [], StructField ''a'' (Primitive PLong) True [],
     StructField ''q'' (Primitive PString) True []]"

definition partitioned_table :: table_configuration where
  "partitioned_table =
     (let tc = example_configuration example_protocol in
      tc \<lparr> tc_metadata := (tc_metadata tc) \<lparr> md_partition_columns := [''p'', ''q''] \<rparr> \<rparr>)"

lemma partitioned_fields:
  "fields_of partitioned_schema = [StructField ''p'' (Primitive PString) True [], StructField ''a'' (Primitive PLong) True [],
     StructField ''q'' (Primitive PString) True []]"
  "st_metadata_columns partitioned_schema = []"
  by (simp_all add: partitioned_schema_def new_unchecked_def fields_of_def get_metadata_column_spec_def)

lemma partitioned_table_simps:
  "partition_columns partitioned_table = [''p'', ''q'']" "tc_mapping_mode partitioned_table = NoMapping"
  by (simp_all add: partitioned_table_def example_configuration_def partition_columns_def Let_def)

definition a_physical :: struct_type where
  "a_physical = StructType [(''a'', StructField ''a'' (Primitive PLong) True [])] []"

lemma a_fields: "fields_of a_physical = [StructField ''a'' (Primitive PLong) True []]"
  by (simp add: a_physical_def fields_of_def)

lemma plain_physical: "field_make_physical (StructField ''a'' (Primitive PLong) True []) NoMapping = Inr (StructField ''a'' (Primitive PLong) True [])"
  by code_simp

lemma partitioned_state:
  "\<exists>info. state_info_try_new no_opaque id (\<lambda>_. []) partitioned_schema partitioned_table None (Columns []) no_classifier = Inr info \<and>
     transform_spec info = Some [MetadataDerivedColumn 0 None, MetadataDerivedColumn 2 (Some ''a'')] \<and>
     fields_of (state_info.physical_schema info) = [StructField ''a'' (Primitive PLong) True []]"
proof -
  have "struct_try_new id [StructField ''a'' (Primitive PLong) True []] = Inr a_physical"
    unfolding a_physical_def by code_simp
  then show ?thesis
    by (simp add: state_info_try_new_def validate_metadata_columns_def metadata_columns_of_def partitioned_fields List.map_filter_def
        partitioned_table_simps state_field_def no_classifier_def plain_physical get_metadata_column_spec_def
        build_physical_stats_schema_def Let_def state_info.make_def is_metadata_column_def a_fields)
qed

theorem scan_rows_logical_witness:
  "\<exists>info md e. state_info_try_new no_opaque id (\<lambda>_. []) partitioned_schema partitioned_table None (Columns []) no_classifier = Inr info \<and>
     parse_partition_values no_parsers partitioned_schema (the (transform_spec info)) [(''p'', ''x''), (''q'', ''y'')] NoMapping = Inr md \<and>
     get_transform_expr (the (transform_spec info)) md (state_info.physical_schema info) None = Inr e \<and>
     evaluate_expression plain_arrow [(''a'', Cell (Long 5))] e (Some (StructT partitioned_schema)) =
       Inr (Fields True [(''p'', Cell (String ''x'')), (''a'', Cell (Long 5)), (''q'', Cell (String ''y''))])"
proof -
  let ?spec = "[MetadataDerivedColumn 0 None, MetadataDerivedColumn 2 (Some ''a'')] :: unit field_transform_spec list"
  let ?minfo = "\<lparr> metadata_field_names = {}, selected_row_index_col_name = None, materialized_row_id_column_name = None \<rparr>"
  let ?pvs = "[(''p'', ''x''), (''q'', ''y'')]"
  obtain info where info: "state_info_try_new no_opaque id (\<lambda>_. []) partitioned_schema partitioned_table None (Columns []) no_classifier = Inr info"
    "transform_spec info = Some ?spec" "fields_of (state_info.physical_schema info) = [StructField ''a'' (Primitive PLong) True []]"
    using partitioned_state by blast
  have meta: "validate_metadata_columns partitioned_schema partitioned_table = Inr ?minfo"
    by (simp add: validate_metadata_columns_def metadata_columns_of_def partitioned_fields List.map_filter_def)
  have parse: "parse_partition_value_raw no_parsers (Some v) (Primitive PString) = Inr (if v = [] then Null (Primitive PString) else String v)" for v
    by (simp add: parse_partition_value_raw_def parse_scalar_def)
  have at: "field_at_index partitioned_schema 0 = Some (StructField ''p'' (Primitive PString) True [])"
    "field_at_index partitioned_schema 2 = Some (StructField ''q'' (Primitive PString) True [])"
    by (simp_all add: partitioned_schema_def new_unchecked_def field_at_index_def get_metadata_column_spec_def)
  have md: "parse_partition_values no_parsers partitioned_schema ?spec ?pvs NoMapping = Inr [(0, ''p'', String ''x''), (2, ''q'', String ''y'')]"
    by (simp add: parse_partition_values_def parse_partition_value_def at physical_name_def parse)
  obtain e where e: "get_transform_expr ?spec [(0, ''p'', String ''x''), (2, ''q'', String ''y'')] (state_info.physical_schema info) None = Inr e"
    by (simp add: get_transform_expr_def)
  have placed: "partitions_placed (partition_columns partitioned_table) False (fields_of partitioned_schema)"
    by (simp add: partitioned_table_simps partitioned_fields is_row_id_def get_metadata_column_spec_def)
  have "evaluate_expression plain_arrow [(''a'', Cell (Long 5))] e (Some (StructT partitioned_schema)) =
      Inr (Fields True [(''p'', Cell (String ''x'')), (''a'', Cell (Long 5)), (''q'', Cell (String ''y''))])"
    unfolding scan_rows_logical [OF info(1) meta info(2) placed, of "[(''a'', Cell (Long 5))]", unfolded info(3) partitioned_table_simps, OF _ md e, simplified]
    by (rule exI [of _ "[Cell (String ''x''), Cell (Long 5), Cell (String ''y'')]"])
      (simp add: partitioned_fields logical_value_def parse physical_name_def validate_array_type_def plain_arrow_def plain_physical is_row_id_def get_metadata_column_spec_def)
  then show ?thesis using info md e by auto
qed

text \<open>
  Without that condition the order is lost. In a table with the fields \<open>a\<close>, a row id column and a partition column of
  the same type, the values of the last two are exchanged.
\<close>

definition row_id_schema :: struct_type where
  "row_id_schema = new_unchecked [StructField ''a'' (Primitive PLong) True [], create_metadata_column ''id'' RowId,
     StructField ''p'' (Primitive PLong) True []]"

definition row_id_info :: metadata_info where
  "row_id_info = \<lparr> metadata_field_names = {''id''}, selected_row_index_col_name = None, materialized_row_id_column_name = Some ''stored_id'' \<rparr>"

lemma row_id_fields:
  "fields_of row_id_schema = [StructField ''a'' (Primitive PLong) True [], create_metadata_column ''id'' RowId,
     StructField ''p'' (Primitive PLong) True []]"
  by (simp add: row_id_schema_def new_unchecked_def fields_of_def create_metadata_column_def)

lemma row_id_index: "free_row_index_name row_id_schema = Some (row_index_name 0)"
proof -
  have "struct_field_named row_id_schema (row_index_name 0) = None"
    by (simp add: struct_field_named_def row_id_schema_def new_unchecked_def create_metadata_column_def row_index_name_def)
  then show ?thesis by (simp add: free_row_index_name_def upt_rec [of 0])
qed

lemma row_id_spec: "get_metadata_column_spec (create_metadata_column ''id'' RowId) = Some RowId"
  by code_simp

lemma row_id_and_partition_exchanged:
  "\<exists>reads spec lst e.
     state_fields no_classifier row_id_schema [''p''] NoMapping row_id_info 0 (fields_of row_id_schema) ([], [], None) = Inr (reads, spec, lst) \<and>
     get_transform_expr spec [(2, ''p'', Long 7)] (new_unchecked reads) (Some 100) = Inr e \<and>
     evaluate_expression plain_arrow
       (zip (map sf_name reads) [Cell (Long 5), Cell (Long 3), Cell (Null (Primitive PLong))]) e (Some (StructT row_id_schema)) =
     Inr (Fields True [(''a'', Cell (Long 5)), (''id'', Cell (Long 7)), (''p'', Cell (Long 103))])"
proof -
  let ?i = "row_index_name 0"
  let ?reads = "[StructField ''a'' (Primitive PLong) True [], create_metadata_column ?i RowIndex, StructField ''stored_id'' (Primitive PLong) True []]"
  let ?spec = "[StaticDrop ?i, GenerateRowId ''stored_id'' ?i, MetadataDerivedColumn 2 (Some ''a'')] :: unit field_transform_spec list"
  have names: "?i \<noteq> ''a''" "?i \<noteq> ''stored_id''" "sf_name (create_metadata_column ?i RowIndex) = ?i" "sf_name (create_metadata_column ''id'' RowId) = ''id''"
    by (simp_all add: row_index_name_def create_metadata_column_def)
  have state: "state_fields no_classifier row_id_schema [''p''] NoMapping row_id_info 0 (fields_of row_id_schema) ([], [], None) =
      Inr (?reads, ?spec, Some ''a'')"
    by (simp add: row_id_fields state_field_def no_classifier_def row_id_info_def plain_physical row_id_index row_id_spec names
        get_metadata_column_spec_def [of "StructField _ _ _ _"] is_metadata_column_def)
  define fts :: "(string \<times> unit field_transform) list" where
    "fts = [(?i, FieldTransform [] True False), (''stored_id'', FieldTransform [row_id_expr 100 ''stored_id'' ?i] True False),
       (''a'', FieldTransform [Literal (Long 7)] False False)]"
  have expr: "get_transform_expr ?spec [(2, ''p'', Long 7)] (new_unchecked ?reads) (Some 100) = Inr (TransformE None fts [])"
    using names(1,2)
    by (simp add: get_transform_expr_def new_top_level_def with_dropped_field_def with_replaced_field_def with_inserted_field_def
        update_field_transform_def get_field_transform_def default_field_transform_def transform_expression_def fts_def row_id_expr_def)
  have "evaluate_expression plain_arrow (zip (map sf_name ?reads) [Cell (Long 5), Cell (Long 3), Cell (Null (Primitive PLong))])
      (TransformE None fts []) (Some (StructT row_id_schema)) =
      Inr (Fields True [(''a'', Cell (Long 5)), (''id'', Cell (Long 7)), (''p'', Cell (Long 103))])"
    using names
    by (simp add: evaluate_transform_expression_def row_id_fields fts_def pass_through_def validate_array_type_def plain_arrow_def
        row_id_expr_def coalesce_arrays_def)
  then show ?thesis using state expr by blast
qed

section \<open>The search for a row index name ends\<close>

text \<open>
  C36. The search for the name of a row index column ends. The code tries an unbounded sequence of names; among the
  first \<open>n + 1\<close>, where \<open>n\<close> is the number of fields of the schema, there is one that the schema does not have, and the
  first such name is taken.
\<close>

theorem row_index_name_found:
  "\<exists>i \<le> length (st_fields schema). free_row_index_name schema = Some (row_index_name i) \<and>
     struct_field_named schema (row_index_name i) = None \<and> (\<forall>j < i. struct_field_named schema (row_index_name j) \<noteq> None)"
proof -
  let ?n = "length (st_fields schema)"
  have "inj row_index_name"
    by (rule injI) (metis row_index_name_def same_append_eq show_nat_props)
  then have "card (row_index_name ` {..?n}) = Suc ?n" by (subst card_image) (auto intro: inj_on_subset)
  moreover have "card (fst ` set (st_fields schema)) \<le> ?n" by (metis card_length length_map list.set_map)
  ultimately have "\<not> row_index_name ` {..?n} \<subseteq> fst ` set (st_fields schema)"
    using card_mono [of "fst ` set (st_fields schema)" "row_index_name ` {..?n}"] by auto
  then have ex: "\<exists>i. i \<le> ?n \<and> struct_field_named schema (row_index_name i) = None"
    by (auto simp: struct_field_named_def map_of_eq_None_iff)
  define i where "i = (LEAST i. struct_field_named schema (row_index_name i) = None)"
  have i: "struct_field_named schema (row_index_name i) = None" "i \<le> ?n" "\<forall>j < i. struct_field_named schema (row_index_name j) \<noteq> None"
    using ex unfolding i_def by (metis (mono_tags, lifting) LeastI, metis (mono_tags, lifting) Least_le le_trans, metis not_less_Least)
  have "free_row_index_name schema = Some (row_index_name i)"
    unfolding free_row_index_name_def find_Some_iff using i by (auto simp del: upt_Suc intro!: exI [of _ i])
  then show ?thesis using i by blast
qed

definition taken_schema :: struct_type where
  "taken_schema = new_unchecked [StructField ''row_indexes_for_row_id_0'' (Primitive PLong) True []]"

theorem row_index_name_found_witness: "free_row_index_name taken_schema = Some ''row_indexes_for_row_id_1''"
proof -
  have st: "length (st_fields taken_schema) = 1" "struct_field_named taken_schema (row_index_name 0) \<noteq> None" by code_simp+
  obtain i where i: "i \<le> length (st_fields taken_schema)" "free_row_index_name taken_schema = Some (row_index_name i)"
      "struct_field_named taken_schema (row_index_name i) = None"
    using row_index_name_found [of taken_schema] by blast
  then have "i \<noteq> 0" using st(2) by metis
  then have "i = 1" using i(1) st(1) by simp
  moreover have "row_index_name 1 = ''row_indexes_for_row_id_1''" by code_simp
  ultimately show ?thesis using i(2) by simp
qed

end
