(* ===== verification/WriteActions.thy ===== *)
theory WriteActions
  imports TransformEval Snapshot StatsSchema
begin

text \<open>
  How a transaction makes the actions it writes (\<open>transaction/mod.rs\<close>, \<open>transaction/update.rs\<close>,
  \<open>transaction/commit_info.rs\<close> and the schemas of \<open>actions/mod.rs\<close>, \<open>scan/log_replay.rs\<close> and \<open>scan/mod.rs\<close>): the
  schemas of actions and the expressions that turn the rows an engine reports or a scan returns into add, remove
  and commit information actions. The expressions run on the evaluator of \<open>TransformEval\<close>, on batches of one row.
\<close>

section \<open>Schemas\<close>

definition nullable :: "string \<Rightarrow> data_type \<Rightarrow> struct_field" where
  "nullable name dt = StructField name dt True []"

definition not_null :: "string \<Rightarrow> data_type \<Rightarrow> struct_field" where
  "not_null name dt = StructField name dt False []"

abbreviation STRING :: data_type where "STRING \<equiv> Primitive PString"
abbreviation LONG :: data_type where "LONG \<equiv> Primitive PLong"
abbreviation INTEGER :: data_type where "INTEGER \<equiv> Primitive PInteger"
abbreviation BOOLEAN :: data_type where "BOOLEAN \<equiv> Primitive PBoolean"

text \<open>\<open>StructTypeBuilder::from_schema(..).add_field(..).build_arc_unchecked()\<close>.\<close>

definition builder_add_field :: "(string \<times> struct_field) list \<Rightarrow> struct_field \<Rightarrow> (string \<times> struct_field) list" where
  "builder_add_field fs f = AList.update (sf_name f) f fs"

definition build_unchecked :: "(string \<times> struct_field) list \<Rightarrow> struct_type" where
  "build_unchecked fs = new_unchecked (map snd fs)"

definition mandatory_add_file_schema :: struct_type where
  "mandatory_add_file_schema = new_unchecked
     [not_null ''path'' STRING, not_null ''partitionValues'' (MapType STRING STRING True),
      not_null ''size'' LONG, not_null ''modificationTime'' LONG]"

definition BASE_ADD_FILES_SCHEMA :: struct_type where
  "BASE_ADD_FILES_SCHEMA = build_unchecked (builder_add_field (st_fields mandatory_add_file_schema)
     (nullable ''stats'' (StructT (new_unchecked
        [nullable ''numRecords'' LONG, nullable ''nullCount'' (StructT (new_unchecked [])),
         nullable ''minValues'' (StructT (new_unchecked [])), nullable ''maxValues'' (StructT (new_unchecked [])),
         nullable ''tightBounds'' BOOLEAN]))))"

definition ADD_FILES_SCHEMA_WITH_DATA_CHANGE :: struct_type where
  "ADD_FILES_SCHEMA_WITH_DATA_CHANGE =
     (let fs = fields_of BASE_ADD_FILES_SCHEMA;
          i = (case get_index_of (map (\<lambda>f. (sf_name f, f)) fs) ''modificationTime'' of Some i \<Rightarrow> i | None \<Rightarrow> length fs)
      in new_unchecked (insert_at (i + 1) (not_null ''dataChange'' BOOLEAN) fs))"

definition with_stats_col :: "struct_type \<Rightarrow> struct_type" where
  "with_stats_col schema = build_unchecked (builder_add_field (st_fields schema) (nullable ''stats'' STRING))"

definition with_row_tracking_cols :: "struct_type \<Rightarrow> struct_type" where
  "with_row_tracking_cols schema = build_unchecked (builder_add_field (builder_add_field (st_fields schema)
     (nullable ''baseRowId'' LONG)) (nullable ''defaultRowCommitVersion'' LONG))"

definition as_log_add_schema :: "struct_type \<Rightarrow> struct_type" where
  "as_log_add_schema schema = new_unchecked [nullable ''add'' (StructT schema)]"

text \<open>The schemas that the derive macro makes of the structs of actions.\<close>

definition dv_descriptor_schema :: struct_type where
  "dv_descriptor_schema = new_unchecked
     [not_null ''storageType'' STRING, not_null ''pathOrInlineDv'' STRING, nullable ''offset'' INTEGER,
      not_null ''sizeInBytes'' INTEGER, not_null ''cardinality'' LONG]"

definition add_schema :: struct_type where
  "add_schema = new_unchecked
     [not_null ''path'' STRING, not_null ''partitionValues'' (MapType STRING STRING True), not_null ''size'' LONG,
      not_null ''modificationTime'' LONG, not_null ''dataChange'' BOOLEAN, nullable ''stats'' STRING,
      nullable ''tags'' (MapType STRING STRING True), nullable ''deletionVector'' (StructT dv_descriptor_schema),
      nullable ''baseRowId'' LONG, nullable ''defaultRowCommitVersion'' LONG, nullable ''clusteringProvider'' STRING]"

definition remove_schema :: struct_type where
  "remove_schema = new_unchecked
     [not_null ''path'' STRING, nullable ''deletionTimestamp'' LONG, not_null ''dataChange'' BOOLEAN,
      nullable ''extendedFileMetadata'' BOOLEAN, nullable ''partitionValues'' (MapType STRING STRING False),
      nullable ''size'' LONG, nullable ''stats'' STRING, nullable ''tags'' (MapType STRING STRING False),
      nullable ''deletionVector'' (StructT dv_descriptor_schema), nullable ''baseRowId'' LONG,
      nullable ''defaultRowCommitVersion'' LONG]"

definition commit_info_schema :: struct_type where
  "commit_info_schema = new_unchecked
     [nullable ''timestamp'' LONG, nullable ''inCommitTimestamp'' LONG, nullable ''operation'' STRING,
      nullable ''operationParameters'' (MapType STRING STRING False), nullable ''kernelVersion'' STRING,
      nullable ''isBlindAppend'' BOOLEAN, nullable ''engineInfo'' STRING, nullable ''txnId'' STRING]"

definition set_transaction_schema :: struct_type where
  "set_transaction_schema = new_unchecked [not_null ''appId'' STRING, not_null ''version'' LONG, nullable ''lastUpdated'' LONG]"

definition domain_metadata_schema :: struct_type where
  "domain_metadata_schema = new_unchecked [not_null ''domain'' STRING, not_null ''configuration'' STRING, not_null ''removed'' BOOLEAN]"

definition LOG_ADD_SCHEMA :: struct_type where "LOG_ADD_SCHEMA = new_unchecked [nullable ''add'' (StructT add_schema)]"
definition LOG_REMOVE_SCHEMA :: struct_type where "LOG_REMOVE_SCHEMA = new_unchecked [nullable ''remove'' (StructT remove_schema)]"
definition LOG_COMMIT_INFO_SCHEMA :: struct_type where
  "LOG_COMMIT_INFO_SCHEMA = new_unchecked [nullable ''commitInfo'' (StructT commit_info_schema)]"
definition LOG_TXN_SCHEMA :: struct_type where "LOG_TXN_SCHEMA = new_unchecked [nullable ''txn'' (StructT set_transaction_schema)]"
definition LOG_DOMAIN_METADATA_SCHEMA :: struct_type where
  "LOG_DOMAIN_METADATA_SCHEMA = new_unchecked [nullable ''domainMetadata'' (StructT domain_metadata_schema)]"

definition SCAN_ROW_SCHEMA :: struct_type where
  "SCAN_ROW_SCHEMA = new_unchecked
     [nullable ''path'' STRING, nullable ''size'' LONG, nullable ''modificationTime'' LONG, nullable ''stats'' STRING,
      nullable ''deletionVector'' (StructT dv_descriptor_schema),
      nullable ''fileConstantValues'' (StructT (new_unchecked
        [nullable ''partitionValues'' (MapType STRING STRING True), nullable ''baseRowId'' LONG,
         nullable ''defaultRowCommitVersion'' LONG, nullable ''tags'' (MapType STRING STRING True),
         nullable ''clusteringProvider'' STRING]))]"

definition RESTORED_ADD_SCHEMA :: struct_type where
  "RESTORED_ADD_SCHEMA = new_unchecked [nullable ''add'' (StructT (new_unchecked
     [not_null ''path'' STRING, not_null ''partitionValues'' (MapType STRING STRING True), not_null ''size'' LONG,
      nullable ''modificationTime'' LONG, nullable ''stats'' STRING, nullable ''tags'' (MapType STRING STRING True),
      nullable ''deletionVector'' (StructT dv_descriptor_schema), nullable ''baseRowId'' LONG,
      nullable ''defaultRowCommitVersion'' LONG, nullable ''clusteringProvider'' STRING]))]"

definition NEW_DELETION_VECTOR_NAME :: string where "NEW_DELETION_VECTOR_NAME = ''newDeletionVector''"

definition INTERMEDIATE_DV_SCHEMA :: struct_type where
  "INTERMEDIATE_DV_SCHEMA = new_unchecked
     (fields_of SCAN_ROW_SCHEMA @ [nullable NEW_DELETION_VECTOR_NAME (StructT dv_descriptor_schema)])"

text \<open>A schema made nullable; the transform of a known schema never fails.\<close>

definition nullable_schema :: "struct_type \<Rightarrow> struct_type" where
  "nullable_schema st = (case schema_with_all_fields_nullable st of Inr s \<Rightarrow> s | Inl _ \<Rightarrow> st)"

section \<open>Expressions of file actions\<close>

abbreviation struct_from :: "'op expression list \<Rightarrow> 'op expression" where
  "struct_from es \<equiv> StructE es None"

text \<open>The expression of \<open>build_add_actions\<close>.\<close>

definition adds_expr :: "bool \<Rightarrow> 'op expression" where
  "adds_expr data_change =
     struct_from [transform_expression
       (with_replaced_field ''stats'' (UnaryE ToJson (Column [''stats'']))
          (with_inserted_field (Some ''modificationTime'') (Literal (Boolean data_change)) new_top_level))]"

definition remove_transform :: "64 word \<Rightarrow> bool \<Rightarrow> string list \<Rightarrow> 'op transform" where
  "remove_transform commit_timestamp data_change columns_to_drop =
     (let t0 = with_inserted_field (Some ''path'') (Literal (Long commit_timestamp)) new_top_level;
          t1 = with_inserted_field (Some ''path'') (Literal (Boolean data_change)) t0;
          t2 = with_inserted_field (Some ''path'') (Literal (Boolean True)) t1;
          t3 = with_inserted_field (Some ''path'') (Column [''fileConstantValues'', ''partitionValues'']) t2;
          t4 = with_inserted_field (Some ''stats'') (Column [''fileConstantValues'', ''tags'']) t3;
          t5 = with_inserted_field (Some ''deletionVector'') (Column [''fileConstantValues'', ''baseRowId'']) t4;
          t6 = with_inserted_field (Some ''deletionVector'') (Column [''fileConstantValues'', ''defaultRowCommitVersion'']) t5;
          t7 = with_dropped_field ''fileConstantValues'' t6;
          t8 = with_dropped_field ''modificationTime'' t7
      in fold with_dropped_field columns_to_drop t8)"

definition remove_expr :: "64 word \<Rightarrow> bool \<Rightarrow> string list \<Rightarrow> 'op expression" where
  "remove_expr commit_timestamp data_change columns_to_drop =
     struct_from [transform_expression (remove_transform commit_timestamp data_change columns_to_drop)]"

definition with_new_dv_expr :: "'op expression" where
  "with_new_dv_expr = transform_expression
     (with_dropped_field NEW_DELETION_VECTOR_NAME
        (with_replaced_field ''deletionVector'' (Column [NEW_DELETION_VECTOR_NAME]) new_top_level))"

definition get_scan_metadata_transform_expr :: "'op expression" where
  "get_scan_metadata_transform_expr = struct_from [struct_from
     [Column [''path''], Column [''fileConstantValues'', ''partitionValues''], Column [''size''], Column [''modificationTime''],
      Column [''stats''], Column [''fileConstantValues'', ''tags''], Column [''deletionVector''],
      Column [''fileConstantValues'', ''baseRowId''], Column [''fileConstantValues'', ''defaultRowCommitVersion''],
      Column [''fileConstantValues'', ''clusteringProvider'']]]"

definition with_data_change_expr :: "bool \<Rightarrow> 'op expression" where
  "with_data_change_expr data_change = struct_from [transform_expression
     (with_inserted_field (Some ''modificationTime'') (Literal (Boolean data_change)) (new_nested [''add'']))]"

section \<open>The actions of files\<close>

text \<open>
  Evaluating an expression over a row to a row: the output type is a schema, and the struct that results becomes a
  batch. A struct whose row is NULL cannot become one.
\<close>

definition evaluate_row :: "'op arrow \<Rightarrow> 'op expression \<Rightarrow> struct_type \<Rightarrow> row \<Rightarrow> row delta_result" where
  "evaluate_row A e output_schema row =
     rbind (evaluate_expression A row e (Some (StructT output_schema))) (\<lambda>c.
       case c of
         Fields True cs \<Rightarrow> Inr cs
       | Fields False cs \<Rightarrow> Inl (Generic ''Top-level nulls in struct are not supported'')
       | Cell _ \<Rightarrow> Inl (UnexpectedColumnType ''expected a struct''))"

definition accepts_types :: "'op arrow \<Rightarrow> bool" where
  "accepts_types A \<longleftrightarrow> (\<forall>dt c. ensure_data_types A dt c = Inr ())"

lemma validate_accepts: "accepts_types A \<Longrightarrow> validate_array_type A dt c = Inr c"
  by (cases dt) (simp_all add: validate_array_type_def accepts_types_def)

text \<open>A schema with one field, of the given name, that is a struct with fields of the given names.\<close>

definition wraps :: "struct_type \<Rightarrow> string \<Rightarrow> string list \<Rightarrow> bool" where
  "wraps st name names \<longleftrightarrow>
     (case fields_of st of
        [f] \<Rightarrow> sf_name f = name \<and> (case sf_data_type f of StructT inner \<Rightarrow> map sf_name (fields_of inner) = names | _ \<Rightarrow> False)
      | _ \<Rightarrow> False)"

lemma wrapsE:
  assumes "wraps st name names"
  obtains f inner where "fields_of st = [f]" "sf_name f = name" "sf_data_type f = StructT inner" "map sf_name (fields_of inner) = names"
  using assms by (auto simp: wraps_def split: list.splits data_type.splits)

definition remove_names :: "string list" where
  "remove_names = [''path'', ''deletionTimestamp'', ''dataChange'', ''extendedFileMetadata'', ''partitionValues'', ''size'', ''stats'',
     ''tags'', ''deletionVector'', ''baseRowId'', ''defaultRowCommitVersion'']"

definition add_names :: "string list" where
  "add_names = [''path'', ''partitionValues'', ''size'', ''modificationTime'', ''dataChange'', ''stats'', ''tags'', ''deletionVector'',
     ''baseRowId'', ''defaultRowCommitVersion'', ''clusteringProvider'']"

lemma schema_wraps:
  "wraps (nullable_schema LOG_REMOVE_SCHEMA) ''remove'' remove_names"
  "wraps (nullable_schema LOG_ADD_SCHEMA) ''add'' add_names"
  "wraps (nullable_schema RESTORED_ADD_SCHEMA) ''add'' (filter (\<lambda>n. n \<noteq> ''dataChange'') add_names)"
  "wraps (as_log_add_schema (with_stats_col ADD_FILES_SCHEMA_WITH_DATA_CHANGE)) ''add''
     [''path'', ''partitionValues'', ''size'', ''modificationTime'', ''dataChange'', ''stats'']"
  "wraps (as_log_add_schema (with_row_tracking_cols (with_stats_col ADD_FILES_SCHEMA_WITH_DATA_CHANGE))) ''add''
     [''path'', ''partitionValues'', ''size'', ''modificationTime'', ''dataChange'', ''stats'', ''baseRowId'', ''defaultRowCommitVersion'']"
  by code_simp+

lemma follows_plan_I:
  assumes "list_all2 (\<lambda>p c. \<forall>f. produce ev row p f = Inr c) plan cs" "length plan = length out"
  shows "follows_plan ev row plan out cs"
  using assms by (induction plan cs arbitrary: out rule: list_all2_induct) (auto simp: Suc_length_conv)

lemma evaluate_plan:
  assumes "map sf_name (fields_of st) = names"
    and "list_all2 (\<lambda>p c. \<forall>f. produce (\<lambda>e d. evaluate_expression A row e d) row p f = Inr c)
      (transform_plan (field_transforms t) (prepended_fields t) (map fst row)) cs"
    and "length cs = length names" "input_path t = None"
    and "length (filter (\<lambda>(_, ft). \<not> ft_optional ft) (field_transforms t)) \<le>
      length (filter (\<lambda>n. map_of (field_transforms t) n \<noteq> None) (map fst row))"
  shows "evaluate_expression A row (transform_expression t) (Some (StructT st)) = Inr (Fields True (zip names cs))"
proof -
  have len: "length (transform_plan (field_transforms t) (prepended_fields t) (map fst row)) = length (fields_of st)"
    using list_all2_lengthD [OF assms(2)] assms(1,3) by (metis length_map)
  have "evaluate_transform_expression (\<lambda>e d. evaluate_expression A row e d) row None (field_transforms t) (prepended_fields t) st =
      Inr (Fields True (zip names cs))"
    unfolding evaluate_transform_Inr Let_def using follows_plan_I [OF assms(2) len] len assms(1,5) by blast
  then show ?thesis using assms(4) by (simp add: transform_expression_def)
qed

lemma evaluate_wrapped:
  assumes "wraps st name names"
    and "list_all2 (\<lambda>p c. \<forall>f. produce (\<lambda>e d. evaluate_expression A row e d) row p f = Inr c)
      (transform_plan (field_transforms t) (prepended_fields t) (map fst row)) cs"
    and "length cs = length names" "input_path t = None"
    and "length (filter (\<lambda>(_, ft). \<not> ft_optional ft) (field_transforms t)) \<le>
      length (filter (\<lambda>n. map_of (field_transforms t) n \<noteq> None) (map fst row))"
  shows "evaluate_row A (struct_from [transform_expression t]) st row = Inr [(name, Fields True (zip names cs))]"
proof -
  obtain f inner where w: "fields_of st = [f]" "sf_name f = name" "sf_data_type f = StructT inner" "map sf_name (fields_of inner) = names"
    using assms(1) by (rule wrapsE)
  show ?thesis
    using w evaluate_plan [OF w(4) assms(2-5)] by (simp add: evaluate_row_def evaluate_struct_expression_def)
qed

text \<open>A row of a scan, as \<open>SCAN_ROW_SCHEMA\<close> has it.\<close>

record file_row =
  fr_path :: cell
  fr_size :: cell
  fr_modification_time :: cell
  fr_stats :: cell
  fr_deletion_vector :: cell
  fr_partition_values :: cell
  fr_base_row_id :: cell
  fr_default_row_commit_version :: cell
  fr_tags :: cell
  fr_clustering_provider :: cell

definition scan_row :: "file_row \<Rightarrow> row" where
  "scan_row r =
     [(''path'', fr_path r), (''size'', fr_size r), (''modificationTime'', fr_modification_time r), (''stats'', fr_stats r),
      (''deletionVector'', fr_deletion_vector r),
      (''fileConstantValues'', Fields True
        [(''partitionValues'', fr_partition_values r), (''baseRowId'', fr_base_row_id r),
         (''defaultRowCommitVersion'', fr_default_row_commit_version r), (''tags'', fr_tags r),
         (''clusteringProvider'', fr_clustering_provider r)])]"

definition remove_of :: "64 word \<Rightarrow> bool \<Rightarrow> file_row \<Rightarrow> row" where
  "remove_of commit_timestamp data_change r = [(''remove'', Fields True (zip remove_names
     [fr_path r, Cell (Long commit_timestamp), Cell (Boolean data_change), Cell (Boolean True), fr_partition_values r, fr_size r,
      fr_stats r, fr_tags r, fr_deletion_vector r, fr_base_row_id r, fr_default_row_commit_version r]))]"

definition add_of :: "bool \<Rightarrow> file_row \<Rightarrow> row" where
  "add_of data_change r = [(''add'', Fields True (zip add_names
     [fr_path r, fr_partition_values r, fr_size r, fr_modification_time r, Cell (Boolean data_change), fr_stats r, fr_tags r,
      fr_deletion_vector r, fr_base_row_id r, fr_default_row_commit_version r, fr_clustering_provider r]))]"

lemma update_field_record:
  "update_field_transform name f \<lparr> input_path = path, field_transforms = fts, prepended_fields = pre \<rparr> =
     \<lparr> input_path = path, field_transforms = AList.update name
         (f (case map_of fts name of None \<Rightarrow> default_field_transform | Some ft \<Rightarrow> ft)) fts, prepended_fields = pre \<rparr>"
  by (simp add: update_field_transform_def get_field_transform_def)

lemmas transform_builders = with_inserted_field_def with_replaced_field_def with_dropped_field_def update_field_record
  default_field_transform_def new_top_level_def new_nested_def

lemma remove_transform_record:
  "remove_transform ts dc drops = fold with_dropped_field drops
     \<lparr> input_path = None, field_transforms =
         [(''path'', FieldTransform [Literal (Long ts), Literal (Boolean dc), Literal (Boolean True),
            Column [''fileConstantValues'', ''partitionValues'']] False False),
          (''stats'', FieldTransform [Column [''fileConstantValues'', ''tags'']] False False),
          (''deletionVector'', FieldTransform [Column [''fileConstantValues'', ''baseRowId''],
            Column [''fileConstantValues'', ''defaultRowCommitVersion'']] False False),
          (''fileConstantValues'', FieldTransform [] True False), (''modificationTime'', FieldTransform [] True False)],
       prepended_fields = [] \<rparr>"
  by (simp add: remove_transform_def Let_def transform_builders)

lemma remove_written:
  assumes "accepts_types A" "drops = [] \<and> extra = [] \<or> drops = [NEW_DELETION_VECTOR_NAME] \<and> extra = [(NEW_DELETION_VECTOR_NAME, c)]"
  shows "evaluate_row A (remove_expr ts dc drops) (nullable_schema LOG_REMOVE_SCHEMA) (scan_row r @ extra) = Inr (remove_of ts dc r)"
  using assms(2)
  by (elim disjE conjE; simp only: remove_expr_def remove_of_def; intro evaluate_wrapped [OF schema_wraps(1)])
    (simp_all add: remove_transform_record transform_builders scan_row_def transform_plan_def field_plan_def
      NEW_DELETION_VECTOR_NAME_def validate_accepts assms(1) remove_names_def)

lemma add_file_fields:
  "fields_of (with_stats_col ADD_FILES_SCHEMA_WITH_DATA_CHANGE) =
     [not_null ''path'' STRING, not_null ''partitionValues'' (MapType STRING STRING True), not_null ''size'' LONG,
      not_null ''modificationTime'' LONG, not_null ''dataChange'' BOOLEAN, nullable ''stats'' STRING]"
  "fields_of (with_row_tracking_cols (with_stats_col ADD_FILES_SCHEMA_WITH_DATA_CHANGE)) =
     [not_null ''path'' STRING, not_null ''partitionValues'' (MapType STRING STRING True), not_null ''size'' LONG,
      not_null ''modificationTime'' LONG, not_null ''dataChange'' BOOLEAN, nullable ''stats'' STRING,
      nullable ''baseRowId'' LONG, nullable ''defaultRowCommitVersion'' LONG]"
  by code_simp+

lemma as_log_add_fields: "fields_of (as_log_add_schema st) = [nullable ''add'' (StructT st)]"
  by (simp add: as_log_add_schema_def new_unchecked_def fields_of_def nullable_def get_metadata_column_spec_def)

text \<open>What the engine reports of a written file becomes an add action, with its row tracking columns if it has them.\<close>

definition reported_row :: "file_row \<Rightarrow> cell \<Rightarrow> bool \<Rightarrow> row" where
  "reported_row r stats tracked =
     [(''path'', fr_path r), (''partitionValues'', fr_partition_values r), (''size'', fr_size r),
      (''modificationTime'', fr_modification_time r), (''stats'', stats)] @
     (if tracked then [(''baseRowId'', fr_base_row_id r), (''defaultRowCommitVersion'', fr_default_row_commit_version r)] else [])"

lemma add_written:
  assumes "accepts_types A" "to_json A stats = Inr (fr_stats r)"
  shows "evaluate_row A (adds_expr dc)
      (as_log_add_schema ((if tracked then with_row_tracking_cols else id) (with_stats_col ADD_FILES_SCHEMA_WITH_DATA_CHANGE)))
      (reported_row r stats tracked) =
    Inr [(''add'', Fields True ([(''path'', fr_path r), (''partitionValues'', fr_partition_values r), (''size'', fr_size r),
      (''modificationTime'', fr_modification_time r), (''dataChange'', Cell (Boolean dc)), (''stats'', fr_stats r)] @
      (if tracked then [(''baseRowId'', fr_base_row_id r), (''defaultRowCommitVersion'', fr_default_row_commit_version r)] else [])))]"
  using assms
  by (cases tracked)
    (simp_all add: adds_expr_def transform_builders transform_expression_def evaluate_row_def evaluate_struct_expression_def
      as_log_add_fields nullable_def evaluate_transform_expression_def add_file_fields reported_row_def pass_through_def
      validate_accepts not_null_def)

lemma nullable_scan_names: "map sf_name (fields_of (nullable_schema SCAN_ROW_SCHEMA)) =
    [''path'', ''size'', ''modificationTime'', ''stats'', ''deletionVector'', ''fileConstantValues'']"
  by code_simp

lemma new_dv_written:
  assumes "accepts_types A"
  shows "evaluate_row A with_new_dv_expr (nullable_schema SCAN_ROW_SCHEMA) (scan_row r @ [(NEW_DELETION_VECTOR_NAME, dv)]) =
    Inr (scan_row (r \<lparr> fr_deletion_vector := dv \<rparr>))"
proof -
  have "evaluate_expression A (scan_row r @ [(NEW_DELETION_VECTOR_NAME, dv)]) with_new_dv_expr (Some (StructT (nullable_schema SCAN_ROW_SCHEMA))) =
      Inr (Fields True (zip [''path'', ''size'', ''modificationTime'', ''stats'', ''deletionVector'', ''fileConstantValues'']
        (map snd (scan_row (r \<lparr> fr_deletion_vector := dv \<rparr>)))))"
    unfolding with_new_dv_expr_def using assms
    by (intro evaluate_plan [OF nullable_scan_names])
      (simp_all add: transform_builders scan_row_def transform_plan_def field_plan_def NEW_DELETION_VECTOR_NAME_def validate_accepts)
  then show ?thesis by (simp add: evaluate_row_def scan_row_def)
qed

text \<open>A row of a scan becomes the add action it came from, without the \<open>dataChange\<close> flag.\<close>

definition restored_of :: "file_row \<Rightarrow> row" where
  "restored_of r = [(''add'', Fields True (zip (filter (\<lambda>n. n \<noteq> ''dataChange'') add_names)
     [fr_path r, fr_partition_values r, fr_size r, fr_modification_time r, fr_stats r, fr_tags r, fr_deletion_vector r,
      fr_base_row_id r, fr_default_row_commit_version r, fr_clustering_provider r]))]"

lemma names_ten: "map sf_name fs = [a, b, c, d, e, f, g, h, i, j] \<Longrightarrow>
    \<exists>a' b' c' d' e' f' g' h' i' j'. fs = [a', b', c', d', e', f', g', h', i', j']"
  by (auto simp: map_eq_Cons_conv)

lemma restored_written:
  assumes "accepts_types A"
  shows "evaluate_row A get_scan_metadata_transform_expr (nullable_schema RESTORED_ADD_SCHEMA) (scan_row r) = Inr (restored_of r)"
proof -
  obtain f inner where w: "fields_of (nullable_schema RESTORED_ADD_SCHEMA) = [f]" "sf_name f = ''add''" "sf_data_type f = StructT inner"
    "map sf_name (fields_of inner) = filter (\<lambda>n. n \<noteq> ''dataChange'') add_names"
    using schema_wraps(3) by (rule wrapsE)
  have len: "length (fields_of inner) = 10" using arg_cong [OF w(4), where f = length] by (simp add: add_names_def)
  then show ?thesis
    using w names_ten [OF w(4) [unfolded add_names_def, simplified]]
    by (auto simp: evaluate_row_def get_scan_metadata_transform_expr_def evaluate_struct_expression_def scan_row_def
        validate_accepts assms restored_of_def add_names_def)
qed

lemma data_change_written:
  assumes "accepts_types A"
  shows "evaluate_row A (with_data_change_expr dc) (nullable_schema LOG_ADD_SCHEMA) (restored_of r) = Inr (add_of dc r)"
proof -
  obtain f inner where w: "fields_of (nullable_schema LOG_ADD_SCHEMA) = [f]" "sf_name f = ''add''" "sf_data_type f = StructT inner"
    "map sf_name (fields_of inner) = add_names"
    using schema_wraps(2) by (rule wrapsE)
  let ?names = "[''path'', ''partitionValues'', ''size'', ''modificationTime'', ''stats'', ''tags'', ''deletionVector'',
     ''baseRowId'', ''defaultRowCommitVersion'', ''clusteringProvider'']"
  obtain f1 f2 f3 f4 f5 f6 f7 f8 f9 f10 f11 where i: "fields_of inner = [f1, f2, f3, f4, f5, f6, f7, f8, f9, f10, f11]"
    using w(4) by (auto simp: add_names_def map_eq_Cons_conv)
  show ?thesis
    using w i
    by (auto simp: evaluate_row_def with_data_change_expr_def evaluate_struct_expression_def transform_builders transform_expression_def
        evaluate_transform_expression_def pass_through_def validate_accepts assms restored_of_def add_of_def add_names_def)
qed

text \<open>
  The actions of \<open>generate_dv_update_actions\<close> for one file: the remove of the file as the scan returned it, and the
  add of the same file through the three evaluators of \<open>generate_adds_for_dv_update\<close>.
\<close>

definition generate_adds_for_dv_update :: "'op arrow \<Rightarrow> bool \<Rightarrow> row \<Rightarrow> row delta_result" where
  "generate_adds_for_dv_update A data_change batch =
     rbind (evaluate_row A with_new_dv_expr (nullable_schema SCAN_ROW_SCHEMA) batch) (\<lambda>with_new_dv.
     rbind (evaluate_row A get_scan_metadata_transform_expr (nullable_schema RESTORED_ADD_SCHEMA) with_new_dv) (\<lambda>partial_add.
       evaluate_row A (with_data_change_expr data_change) (nullable_schema LOG_ADD_SCHEMA) partial_add))"

definition generate_remove_actions :: "'op arrow \<Rightarrow> 64 word \<Rightarrow> bool \<Rightarrow> string list \<Rightarrow> row \<Rightarrow> row delta_result" where
  "generate_remove_actions A commit_timestamp data_change columns_to_drop batch =
     evaluate_row A (remove_expr commit_timestamp data_change columns_to_drop) (nullable_schema LOG_REMOVE_SCHEMA) batch"


text \<open>An engine whose evaluator accepts every type.\<close>

definition lenient_arrow :: "unit arrow" where
  "lenient_arrow = \<lparr> ensure_data_types = \<lambda>_ _. Inr (), coalesce_types = \<lambda>_ _. Inr (), arrow_binary = \<lambda>_ l _. Inr l,
     to_json = \<lambda>c. Inr c, evaluate_other = \<lambda>_ _ _. Inl (Unsupported '''') \<rparr>"

lemma lenient_accepts: "accepts_types lenient_arrow"
  by (simp add: accepts_types_def lenient_arrow_def)

definition some_file :: file_row where
  "some_file =
     \<lparr> fr_path = Cell (String ''a.parquet''), fr_size = Cell (Long 10), fr_modification_time = Cell (Long 7),
       fr_stats = Cell (Null STRING), fr_deletion_vector = Cell (String ''old''), fr_partition_values = Cell (MapS STRING STRING True []),
       fr_base_row_id = Cell (Long 40), fr_default_row_commit_version = Cell (Long 2), fr_tags = Cell (Null STRING),
       fr_clustering_provider = Cell (Null STRING) \<rparr>"


section \<open>The commit information\<close>

record commit_info =
  ci_timestamp :: "64 word option"
  ci_in_commit_timestamp :: "64 word option"
  ci_operation :: "string option"
  ci_operation_parameters :: "(string \<times> string) list option"
  ci_kernel_version :: "string option"
  ci_is_blind_append :: "bool option"
  ci_engine_info :: "string option"
  ci_txn_id :: "string option"

definition UNKNOWN_OPERATION :: string where "UNKNOWN_OPERATION = ''UNKNOWN''"

text \<open>The version of the kernel and a fresh identifier are arguments.\<close>

definition commit_info_new ::
  "string \<Rightarrow> string \<Rightarrow> 64 word \<Rightarrow> 64 word option \<Rightarrow> string option \<Rightarrow> string option \<Rightarrow> bool \<Rightarrow> commit_info" where
  "commit_info_new kernel_version uuid timestamp in_commit_timestamp oper engine_info is_blind_append =
     \<lparr> ci_timestamp = Some timestamp, ci_in_commit_timestamp = in_commit_timestamp,
       ci_operation = Some (unwrap_or oper UNKNOWN_OPERATION), ci_operation_parameters = Some [],
       ci_kernel_version = Some (CHR ''v'' # kernel_version), ci_is_blind_append = (if is_blind_append then Some True else None),
       ci_engine_info = engine_info, ci_txn_id = Some uuid \<rparr>"

definition option_scalar :: "('a \<Rightarrow> scalar) \<Rightarrow> data_type \<Rightarrow> 'a option \<Rightarrow> scalar" where
  "option_scalar f dt x = (case x of Some v \<Rightarrow> f v | None \<Rightarrow> Null dt)"

definition commit_info_literals :: "commit_info \<Rightarrow> (string \<times> scalar) list delta_result" where
  "commit_info_literals ci =
     rbind (case ci_operation_parameters ci of
              Some m \<Rightarrow> map_data_try_new STRING STRING True (map (\<lambda>(k, v). (String k, String v)) m)
            | None \<Rightarrow> Inr (Null (MapType STRING STRING True))) (\<lambda>op_params.
     let literals =
       [(''timestamp'', option_scalar Long LONG (ci_timestamp ci)),
        (''inCommitTimestamp'', option_scalar Long LONG (ci_in_commit_timestamp ci)),
        (''operation'', option_scalar String STRING (ci_operation ci)),
        (''operationParameters'', op_params),
        (''kernelVersion'', option_scalar String STRING (ci_kernel_version ci)),
        (''isBlindAppend'', option_scalar Boolean BOOLEAN (ci_is_blind_append ci)),
        (''engineInfo'', option_scalar String STRING (ci_engine_info ci)),
        (''txnId'', option_scalar String STRING (ci_txn_id ci))]
     in if length literals \<noteq> length (fields_of commit_info_schema)
        then Inl (Generic ''expect the commit_info_literal_exprs return one expression for each field'')
        else Inr literals)"

text \<open>What \<open>generate_commit_info\<close> makes of the schema of the engine's commit information.\<close>

definition commit_info_output_schema :: "struct_type \<Rightarrow> struct_type" where
  "commit_info_output_schema engine_schema = new_unchecked
     (map (\<lambda>f. case struct_field_named commit_info_schema (sf_name f) of Some g \<Rightarrow> g | None \<Rightarrow> f) (fields_of engine_schema) @
      filter (\<lambda>f. \<not> contains_field engine_schema (sf_name f)) (fields_of commit_info_schema))"

definition last_field_name :: "struct_type \<Rightarrow> string option" where
  "last_field_name st = (if st_fields st = [] then None else Some (fst (last (st_fields st))))"

definition commit_info_transform :: "struct_type \<Rightarrow> (string \<times> scalar) list \<Rightarrow> 'op transform" where
  "commit_info_transform engine_schema literals =
     (let replaced = fold (\<lambda>(name, v) t. if contains_field engine_schema name then with_replaced_field name (Literal v) t else t)
            literals new_top_level
      in fold (\<lambda>(name, v) t. if \<not> contains_field engine_schema name
                 then with_inserted_field (last_field_name engine_schema) (Literal v) t else t) literals replaced)"

definition commit_info_expr :: "struct_type \<Rightarrow> commit_info \<Rightarrow> 'op expression delta_result" where
  "commit_info_expr engine_schema ci =
     rbind (commit_info_literals ci) (\<lambda>literals.
       Inr (struct_from [transform_expression (commit_info_transform engine_schema literals)]))"

definition wrapped_commit_info_schema :: "struct_type \<Rightarrow> struct_type" where
  "wrapped_commit_info_schema engine_schema =
     new_unchecked [nullable ''commitInfo'' (StructT (commit_info_output_schema engine_schema))]"

text \<open>Each step of a transform changes the plan of one field.\<close>

lemma field_plan_inserted:
  "field_plan (field_transforms (with_inserted_field (Some l) e t)) n =
     field_plan (field_transforms t) n @ (if n = l then [Inr e] else [])"
  by (auto simp: with_inserted_field_def update_field_transform_def get_field_transform_def field_plan_def update_conv'
      default_field_transform_def split: option.splits)

lemma field_plan_replaced:
  "map_of (field_transforms t) l = None \<Longrightarrow>
   field_plan (field_transforms (with_replaced_field l e t)) n = (if n = l then [Inr e] else field_plan (field_transforms t) n)"
  by (auto simp: with_replaced_field_def update_field_transform_def get_field_transform_def field_plan_def update_conv'
      default_field_transform_def split: option.splits)

definition plain_transform :: "string set \<Rightarrow> 'op transform \<Rightarrow> bool" where
  "plain_transform names t \<longleftrightarrow>
     input_path t = None \<and> distinct (map fst (field_transforms t)) \<and> fst ` set (field_transforms t) \<subseteq> names"

lemma plain_transform_update:
  "plain_transform names t \<Longrightarrow> l \<in> names \<Longrightarrow> plain_transform names (update_field_transform l f t)"
  by (simp add: plain_transform_def update_field_transform_def distinct_update dom_update)

lemma inserted_plain:
  assumes "plain_transform names t" "l \<in> names"
  shows "plain_transform names (fold (\<lambda>(n, v). with_inserted_field (Some l) (Literal v)) lits t) \<and>
    prepended_fields (fold (\<lambda>(n, v). with_inserted_field (Some l) (Literal v)) lits t) = prepended_fields t \<and>
    field_plan (field_transforms (fold (\<lambda>(n, v). with_inserted_field (Some l) (Literal v)) lits t)) m =
      field_plan (field_transforms t) m @ (if m = l then map (Inr \<circ> Literal \<circ> snd) lits else [])"
  using assms
proof (induction lits arbitrary: t)
  case (Cons p lits)
  obtain n v where p: "p = (n, v)" by (cases p)
  have "plain_transform names (with_inserted_field (Some l) (Literal v) t)"
    "prepended_fields (with_inserted_field (Some l) (Literal v) t) = prepended_fields t"
    using plain_transform_update [OF Cons.prems] by (simp_all add: with_inserted_field_def update_field_transform_def)
  then show ?case using Cons.IH Cons.prems(2) by (simp add: p field_plan_inserted)
qed simp

lemma replaced_plain:
  assumes "plain_transform names t" "fst ` set lits \<subseteq> names" "distinct (map fst lits)"
    "\<forall>n \<in> fst ` set lits. map_of (field_transforms t) n = None"
  shows "plain_transform names (fold (\<lambda>(n, v). with_replaced_field n (Literal v)) lits t) \<and>
    prepended_fields (fold (\<lambda>(n, v). with_replaced_field n (Literal v)) lits t) = prepended_fields t \<and>
    field_plan (field_transforms (fold (\<lambda>(n, v). with_replaced_field n (Literal v)) lits t)) m =
      (case map_of lits m of Some v \<Rightarrow> [Inr (Literal v)] | None \<Rightarrow> field_plan (field_transforms t) m)"
  using assms
proof (induction lits arbitrary: t)
  case (Cons p lits)
  obtain n v where p: "p = (n, v)" by (cases p)
  let ?t = "with_replaced_field n (Literal v) t"
  have t: "plain_transform names ?t"
    unfolding with_replaced_field_def using Cons.prems(1,2) by (intro plain_transform_update) (simp_all add: p)
  have pre: "prepended_fields ?t = prepended_fields t"
    by (simp add: with_replaced_field_def update_field_transform_def)
  have "\<forall>n \<in> fst ` set lits. map_of (field_transforms ?t) n = None"
    using Cons.prems(3,4) by (auto simp: p with_replaced_field_def update_field_transform_def update_conv')
  moreover have "map_of (field_transforms t) n = None" "map_of lits n = None"
    using Cons.prems(3,4) by (auto simp: p map_of_eq_None_iff)
  ultimately show ?case using Cons.IH [OF t] Cons.prems(2,3) pre
    by (auto simp: p field_plan_replaced split: option.splits)
qed simp

lemma fold_if: "fold (\<lambda>(n, v) t. if P n then f n v t else t) lits t = fold (\<lambda>(n, v). f n v) (filter (P \<circ> fst) lits) t"
  by (induction lits arbitrary: t) auto

lemma concat_plan:
  assumes "distinct names" "names \<noteq> []" "\<And>n. n \<in> set names \<Longrightarrow> plan n = [entry n] @ (if n = last names then extra else [])"
  shows "concat (map plan names) = map entry names @ extra"
proof (cases names rule: rev_cases)
  case (snoc xs x)
  have "\<forall>n \<in> set xs. plan n = [entry n]" using assms(1,3) by (auto simp: snoc)
  then have "concat (map plan xs) = map entry xs" by (induction xs) auto
  then show ?thesis using assms(3) [of x] by (simp add: snoc)
qed (use assms(2) in simp)

text \<open>The merged commit information: the fields of the engine, those of the kernel among them overridden, then the rest.\<close>

definition merged_commit_info :: "(string \<times> scalar) list \<Rightarrow> row \<Rightarrow> row" where
  "merged_commit_info literals row =
     map (\<lambda>(n, c). (n, case map_of literals n of Some v \<Rightarrow> Cell v | None \<Rightarrow> c)) row @
     map (\<lambda>(n, v). (n, Cell v)) (filter (\<lambda>(n, _). n \<notin> fst ` set row) literals)"

lemma commit_info_names:
  "commit_info_literals ci = Inr lits \<Longrightarrow> map fst lits = map sf_name (fields_of commit_info_schema) \<and> distinct (map fst lits)"
proof -
  have "map sf_name (fields_of commit_info_schema) =
      [''timestamp'', ''inCommitTimestamp'', ''operation'', ''operationParameters'', ''kernelVersion'', ''isBlindAppend'', ''engineInfo'', ''txnId'']"
    by code_simp
  then show "commit_info_literals ci = Inr lits \<Longrightarrow> ?thesis"
    by (auto simp: commit_info_literals_def Let_def rbind_Inr_iff split: if_splits)
qed

lemma unchecked_struct:
  assumes "es = new_unchecked fs" "distinct (map sf_name fs)"
  shows "st_fields es = by_name fs" "contains_field es n \<longleftrightarrow> n \<in> set (map sf_name fs)"
proof -
  show st: "st_fields es = by_name fs" using assms by (simp add: new_unchecked_def new_unchecked_loop_fields)
  then show "contains_field es n \<longleftrightarrow> n \<in> set (map sf_name fs)"
    by (simp add: contains_field_def struct_field_named_def map_of_eq_None_iff by_name_def image_image)
qed

lemma map_of_filter_keys: "map_of (filter (P \<circ> fst) lits) n = (if P n then map_of lits n else None)"
  by (induction lits) auto

lemma commit_info_plan:
  fixes t :: "'op transform"
  assumes es: "es = new_unchecked fs" "distinct (map sf_name fs)" and d: "distinct (map fst lits)"
  defines "t \<equiv> commit_info_transform es lits"
  shows "plain_transform (set (map sf_name fs)) t \<and>
    transform_plan (field_transforms t) (prepended_fields t) (map sf_name fs) =
      map (\<lambda>n. case map_of lits n of Some v \<Rightarrow> Inr (Literal v) | None \<Rightarrow> Inl n) (map sf_name fs) @
      map (Inr \<circ> Literal \<circ> snd) (filter (\<lambda>(n, _). n \<notin> set (map sf_name fs)) lits)"
proof -
  let ?names = "map sf_name fs"
  note st = unchecked_struct(1) [OF es] and contains = unchecked_struct(2) [OF es]
  define kept where "kept = filter ((\<lambda>n. n \<in> set ?names) \<circ> fst) lits"
  define fresh where "fresh = filter ((\<lambda>n. n \<notin> set ?names) \<circ> fst) lits"
  define t1 :: "'op transform" where "t1 = fold (\<lambda>(n, v). with_replaced_field n (Literal v)) kept new_top_level"
  have t: "t = fold (\<lambda>(n, v). with_inserted_field (last_field_name es) (Literal v)) fresh t1"
    by (simp add: t_def commit_info_transform_def Let_def contains fold_if t1_def kept_def fresh_def)
  have kept: "map_of kept n = (if n \<in> set ?names then map_of lits n else None)" for n
    unfolding kept_def by (rule map_of_filter_keys)
  have top: "field_plan (field_transforms (new_top_level :: 'op transform)) n = [Inl n]" "prepended_fields (new_top_level :: 'op transform) = []" for n
    by (simp_all add: new_top_level_def field_plan_def)
  have none: "\<forall>n \<in> fst ` set kept. map_of (field_transforms (new_top_level :: 'op transform)) n = None"
    by (simp add: new_top_level_def)
  have "plain_transform (set ?names) (new_top_level :: 'op transform)" "fst ` set kept \<subseteq> set ?names" "distinct (map fst kept)"
    using d by (auto simp: plain_transform_def new_top_level_def kept_def distinct_map_filter)
  note rep = replaced_plain [OF this none, folded t1_def, unfolded top]
  have t1: "plain_transform (set ?names) t1" "prepended_fields t1 = []"
      "field_plan (field_transforms t1) n = (case map_of kept n of Some v \<Rightarrow> [Inr (Literal v)] | None \<Rightarrow> [Inl n])" for n
    using rep by auto
  let ?entry = "\<lambda>n. case map_of lits n of Some v \<Rightarrow> Inr (Literal v) | None \<Rightarrow> Inl n"
  show ?thesis
  proof (cases "fs = []")
    case True
    have "fold (\<lambda>(n, v). with_inserted_field None (Literal v)) xs u =
        u \<lparr> prepended_fields := prepended_fields u @ map (Literal \<circ> snd) xs \<rparr>" for xs :: "(string \<times> scalar) list" and u :: "'op transform"
      by (induction xs arbitrary: u) (auto simp: with_inserted_field_def)
    then have "t = t1 \<lparr> prepended_fields := map (Literal \<circ> snd) lits \<rparr>"
      using True t1(2) by (simp add: t st last_field_name_def fresh_def)
    then show ?thesis using True t1(1) by (simp add: plain_transform_def transform_plan_def)
  next
    case False
    have l: "last_field_name es = Some (last ?names)" "last ?names \<in> set ?names"
      using False by (simp_all add: st last_field_name_def last_map by_name_def)
    note ins = inserted_plain [OF t1(1) l(2), of fresh, folded l(1), folded t]
    have "field_plan (field_transforms t) n = [?entry n] @ (if n = last ?names then map (Inr \<circ> Literal \<circ> snd) fresh else [])"
      if "n \<in> set ?names" for n
      using ins [of n] that by (auto simp: t1(3) kept split: option.splits)
    from concat_plan [OF es(2) _ this] False show ?thesis
      using ins t1(2) by (simp add: transform_plan_def fresh_def comp_def case_prod_unfold)
  qed
qed

lemma commit_info_field: "struct_field_named commit_info_schema n = Some g \<Longrightarrow> sf_name g = n"
proof -
  have "\<forall>(n, g) \<in> set (st_fields commit_info_schema). sf_name g = n" by code_simp
  then show "struct_field_named commit_info_schema n = Some g \<Longrightarrow> sf_name g = n"
    by (auto simp: struct_field_named_def dest: map_of_SomeD)
qed

lemma commit_info_output_names:
  assumes "es = new_unchecked fs" "distinct (map sf_name fs)"
  shows "map sf_name (fields_of (commit_info_output_schema es)) =
    map sf_name fs @ filter (\<lambda>n. n \<notin> set (map sf_name fs)) (map sf_name (fields_of commit_info_schema))"
proof -
  let ?out = "map (\<lambda>f. case struct_field_named commit_info_schema (sf_name f) of Some g \<Rightarrow> g | None \<Rightarrow> f) (fields_of es) @
      filter (\<lambda>f. \<not> contains_field es (sf_name f)) (fields_of commit_info_schema)"
  have fs: "fields_of es = fs" using assms by (simp add: new_unchecked_fields)
  note contains = unchecked_struct(2) [OF assms]
  have names: "map sf_name ?out = map sf_name fs @ filter (\<lambda>n. n \<notin> set (map sf_name fs)) (map sf_name (fields_of commit_info_schema))"
    by (auto simp: fs contains filter_map comp_def dest: commit_info_field split: option.splits)
  have "distinct (map sf_name (fields_of commit_info_schema))" by code_simp
  then have "distinct (map sf_name ?out)" using assms(2) unfolding names by auto
  from new_unchecked_fields [OF this] show ?thesis unfolding commit_info_output_schema_def using names by (simp only:)
qed

lemma literal_entries:
  assumes "accepts_types A" "distinct (map fst row)"
  shows "list_all2 (\<lambda>p c. \<forall>f. produce (\<lambda>e d. evaluate_expression A row e d) row p f = Inr c)
    (map (\<lambda>n. case map_of lits n of Some v \<Rightarrow> Inr (Literal v) | None \<Rightarrow> Inl n) (map fst row) @ map (Inr \<circ> Literal \<circ> snd) extra)
    (map (\<lambda>(n, c). case map_of lits n of Some v \<Rightarrow> Cell v | None \<Rightarrow> c) row @ map (Cell \<circ> snd) extra)"
proof (rule list_all2_appendI)
  have "map_of row n = Some c" if "(n, c) \<in> set row" for n c using that assms(2) by simp
  then show "list_all2 (\<lambda>p c. \<forall>f. produce (\<lambda>e d. evaluate_expression A row e d) row p f = Inr c)
      (map (\<lambda>n. case map_of lits n of Some v \<Rightarrow> Inr (Literal v) | None \<Rightarrow> Inl n) (map fst row))
      (map (\<lambda>(n, c). case map_of lits n of Some v \<Rightarrow> Cell v | None \<Rightarrow> c) row)"
    by (auto simp: list.rel_map validate_accepts assms(1) intro!: list.rel_refl_strong split: option.splits)
  show "list_all2 (\<lambda>p c. \<forall>f. produce (\<lambda>e d. evaluate_expression A row e d) row p f = Inr c)
      (map (Inr \<circ> Literal \<circ> snd) extra) (map (Cell \<circ> snd) extra)"
    by (auto simp: list.rel_map validate_accepts assms(1) intro!: list.rel_refl_strong)
qed

lemma map_sorted_filter: "filter P (map fst lits) = map fst (filter (\<lambda>(n, _). P n) lits)"
  by (induction lits) auto


definition some_commit_info :: commit_info where
  "some_commit_info = commit_info_new ''0.20.0'' ''id'' 5 None (Some ''WRITE'') None False"

definition engine_info_schema :: struct_type where
  "engine_info_schema = new_unchecked [nullable ''userId'' STRING, nullable ''timestamp'' LONG]"


end
