(* ===== verification/Spec2Isabelle.thy ===== *)
theory Spec2Isabelle
  imports BinarySearch LogSegment CheckpointSkipping ScanReplay StatsSchema Snapshot DeletionVectors TableChanges
    StateInfo WriteActions
begin

text \<open>
  A verification library for the Delta kernel (\<open>kernel/src/\<close>), the Rust library that reads and writes Delta
  tables on behalf of an engine.

  \<^bold>\<open>The program.\<close> A table is a directory of data files and a log, \<open>_delta_log\<close>, of numbered commits, compacted
  commits, checkpoints and checksum files. The kernel lists the log and makes of it a \<^emph>\<open>log segment\<close>, reads the
  protocol and the metadata from it, validates them as a \<^emph>\<open>table configuration\<close> and keeps both as a
  \<^emph>\<open>snapshot\<close>. A \<^emph>\<open>scan\<close> replays the actions of the segment, newest first, and gives the engine the files of the
  snapshot that its predicate does not exclude, each with the transform and the deletion vector that make its
  rows logical rows. \<^emph>\<open>Table changes\<close> give the rows that changed between two versions. A \<^emph>\<open>transaction\<close> stages
  actions on a snapshot, checks them and hands them to a committer; the snapshot after the commit is made in
  memory. The engine does all input and output, through traits.

  \<^bold>\<open>The model.\<close> Each theory models the Rust modules it names at its top, one definition for each type, function
  or method, under its Rust name. A \<open>Result\<close> is a sum with the error on the left (\<open>delta_result\<close>, and \<open>rbind\<close>
  for \<^verbatim>\<open>?\<close>); a function that can panic returns an option, \<open>None\<close> being the panic. Machine integers are words:
  versions are 64-bit words and wrap as in the code, signed integers are words read with \<open>sint\<close>. Hash maps are
  association lists or functions, hash sets are sets; wherever the order of a hash map could matter it is a
  parameter. Strings are lists of bytes. The traits of the engine and the operations of other crates (URLs,
  JSON, UUIDs, roaring bitmaps, Z85, CRC-32, float and date parsers, Unicode tables, the clock) are parameters,
  collected in records; where a theorem needs their documented behaviour it states it as a hypothesis, and a
  witness instantiates it. Messages of errors are fixed texts: the formatted parts are left out. Spans, metrics
  and log lines are left out.

  \<^bold>\<open>The theories.\<close>

  \<^item> \<open>Prelude\<close>: errors (\<open>error.rs\<close>), results, words, lists.
  \<^item> \<open>BinarySearch\<close> (\<open>history_manager/search.rs\<close>): the search of a version by a fallible key, and the bounds it
    returns.
  \<^item> \<open>LogPath\<close> (\<open>path.rs\<close>): names of log files; what is written is parsed back.
  \<^item> \<open>LogListing\<close> (\<open>log_segment_files.rs\<close>, \<open>last_checkpoint_hint.rs\<close>): the listing keeps exactly the newest
    complete checkpoint and what is after it.
  \<^item> \<open>LogSegment\<close> (\<open>log_segment.rs\<close>, \<open>committer/publish_types.rs\<close>): which listings are accepted, the segments of
    snapshots, of table changes and of timestamp conversion, the files that cover the commits. The locale
    \<open>segment_builder\<close> has the three constructors as its interpretations.
  \<^item> \<open>Schema\<close> (\<open>schema/mod.rs\<close>, \<open>schema/compare.rs\<close>), \<open>Scalars\<close> (\<open>expressions/scalars.rs\<close>), \<open>ColumnNames\<close>,
    \<open>Expressions\<close>, \<open>TransformSpec\<close>: data types and literals, their comparison, arithmetic, printing and parsing.
  \<^item> \<open>KernelPredicates\<close>, \<open>DataSkipping\<close>, \<open>CheckpointSkipping\<close> (\<open>kernel_predicates/\<close>, \<open>scan/data_skipping.rs\<close>,
    \<open>engine/parquet_row_group_skipping.rs\<close>): the evaluation of predicates over rows, over statistics and over
    the footers of checkpoints; nothing skipped could hold a matching row. The locales \<open>skipping_simulation\<close> and
    \<open>stat_semantics\<close> lift soundness from the methods of an evaluator to whole predicates, once for all evaluators.
  \<^item> \<open>LogReplay\<close>, \<open>Reconciliation\<close>, \<open>ScanReplay\<close> (\<open>log_replay.rs\<close>, \<open>action_reconciliation/\<close>,
    \<open>scan/log_replay.rs\<close>): deduplication newest first refines the table state that applying the log oldest first
    reaches; parallel replay selects the same files.
  \<^item> \<open>TableFeatures\<close>, \<open>TableProperties\<close>, \<open>ColumnMapping\<close>, \<open>TableConfiguration\<close>, \<open>StatsSchema\<close>: protocols and
    features, properties, column mapping, the checks before reads and writes, the columns that have statistics.
  \<^item> \<open>Actions\<close>, \<open>ProtocolReplay\<close>, \<open>Checksum\<close>, \<open>Snapshot\<close> (\<open>actions/\<close>, \<open>log_segment/\<close>, \<open>crc/\<close>, \<open>snapshot.rs\<close>): the
    visitors, the scans that stop early (locales \<open>early_stop\<close>, \<open>keyed_visitor\<close>), checksums advanced commit by
    commit, and the life of a snapshot as the inductive predicate \<open>reachable\<close> with its invariant.
  \<^item> \<open>PredicateMapping\<close>, \<open>TransformEval\<close>, \<open>StateInfo\<close> (\<open>scan/mod.rs\<close>, \<open>transforms/expression.rs\<close>,
    \<open>engine/arrow_expression/evaluate_expression.rs\<close>, \<open>scan/state_info.rs\<close>): the predicate over physical columns means
    the same as the one the engine gave; the columns read from a file and the transform of the file, evaluated,
    give logical rows.
  \<^item> \<open>WriteActions\<close> (\<open>transaction/mod.rs\<close>, \<open>transaction/update.rs\<close>, \<open>transaction/commit_info.rs\<close>): the schemas and
    expressions of the actions a transaction writes, evaluated: deletion vector updates keep everything else of a
    file, and the commit information merges the engine's with the kernel's.
  \<^item> \<open>DeletionVectors\<close>, \<open>TableChanges\<close> (\<open>actions/deletion_vector*.rs\<close>, \<open>scan/state.rs\<close>, \<open>table_changes/\<close>): the
    written vector is read back, deleted rows are left out, the change feed is the difference of two versions.

  \<^bold>\<open>Termination and bounds.\<close> Every definition is total. Loops over iterators are recursions on lists; the binary
  search recurses on the width of its interval; the unbounded search for a free column name ends within the
  number of fields of the schema, which is proved. No definition uses fuel. Lists are shorter than \<open>2^64\<close>
  elements, as \<open>usize\<close> guarantees, and where a count is kept in a machine integer the wrap is written out.

  \<^bold>\<open>Not modelled.\<close> The default engine and the arrow conversions (\<open>engine/\<close>), the C interface (\<open>ffi/\<close>), the Unity
  Catalog crates and the metrics are input and output, bindings or reporting over other crates; the kernel sees
  them through the traits that are parameters here. The derive macros run at compile time. Of the kernel,
  \<open>schema/diff.rs\<close>, the checkpoint and compaction writers (which run the reconciliation modelled here and
  format its result) and the phases of the parallel scan (which distribute the replay modelled here) are left
  out, as are serialisation to JSON and \<open>Display\<close> texts except where a round trip is proved. The manifest lists
  each part with its state.
\<close>

end
